(* ===== verification/JsDate.thy ===== *)
theory JsDate
  imports Prelude
begin

text \<open>
  The part of JavaScript's \<open>Date\<close> the source uses: time values (milliseconds since the epoch, an
  \<^typ>\<open>int\<close>), \<open>toISOString\<close> and \<open>Date.parse\<close>. \<open>iso_parse\<close> is the ECMAScript date-time string
  format with an explicit zone (a date alone is UTC). What ECMAScript leaves to the host (a
  date-time without a zone, any other format) is the parameter \<open>host\<close> of \<open>date_parse\<close>. The main
  fact is the round trip \<open>date_parse_to_iso\<close>.
\<close>

section \<open>Calendar\<close>

definition day_from_year :: "int \<Rightarrow> int" where
  "day_from_year y = 365 * (y - 1970) + (y - 1969) div 4 - (y - 1901) div 100 + (y - 1601) div 400"

definition year_from_day :: "int \<Rightarrow> int" where
  "year_from_day d = (let y = 1970 + (400 * d) div 146097 in
     if day_from_year (y + 1) \<le> d then y + 1 else if d < day_from_year y then y - 1 else y)"

definition leap :: "int \<Rightarrow> bool" where
  "leap y = (y mod 4 = 0 \<and> (y mod 100 \<noteq> 0 \<or> y mod 400 = 0))"

text \<open>The day within the year on which a month starts, January being 1.\<close>

definition month_start :: "bool \<Rightarrow> nat \<Rightarrow> int" where
  "month_start lp m = [0, 0, 31, 59, 90, 120, 151, 181, 212, 243, 273, 304, 334, 365] ! m
     + (if lp \<and> 2 < m then 1 else 0)"

definition month_of :: "bool \<Rightarrow> int \<Rightarrow> nat" where
  "month_of lp n = (if n < month_start lp 2 then 1 else if n < month_start lp 3 then 2
     else if n < month_start lp 4 then 3 else if n < month_start lp 5 then 4
     else if n < month_start lp 6 then 5 else if n < month_start lp 7 then 6
     else if n < month_start lp 8 then 7 else if n < month_start lp 9 then 8
     else if n < month_start lp 10 then 9 else if n < month_start lp 11 then 10
     else if n < month_start lp 12 then 11 else 12)"

definition days_in_month :: "bool \<Rightarrow> nat \<Rightarrow> int" where
  "days_in_month lp m = month_start lp (Suc m) - month_start lp m"

definition ms_per_day :: int where
  "ms_per_day = 86400000"

definition max_time :: int where
  "max_time = 8640000000000000"

section \<open>toISOString\<close>

definition year_str :: "int \<Rightarrow> string" where
  "year_str y = (if 0 \<le> y \<and> y \<le> 9999 then pad 4 (nat y)
     else if y < 0 then CHR ''-'' # pad 6 (nat (- y)) else CHR ''+'' # pad 6 (nat y))"

definition to_iso :: "int \<Rightarrow> string" where
  "to_iso t = (let d = t div ms_per_day; r = t mod ms_per_day; y = year_from_day d;
       n = d - day_from_year y; m = month_of (leap y) n in
     year_str y @ ''-'' @ pad 2 m @ ''-'' @ pad 2 (nat (n - month_start (leap y) m + 1)) @ ''T'' @
     pad 2 (nat (r div 3600000)) @ '':'' @ pad 2 (nat (r div 60000 mod 60)) @ '':'' @
     pad 2 (nat (r div 1000 mod 60)) @ ''.'' @ pad 3 (nat (r mod 1000)) @ ''Z'')"

section \<open>Date.parse\<close>

definition scan_num :: "nat \<Rightarrow> string \<Rightarrow> (int \<times> string) option" where
  "scan_num w s = (if length (take w s) = w \<and> list_all is_digit (take w s)
     then Some (int (digits_val (take w s)), drop w s) else None)"

definition scan_year :: "string \<Rightarrow> (int \<times> string) option" where
  "scan_year s = (if starts_with ''+'' s then scan_num 6 (drop 1 s)
     else if starts_with ''-'' s then
       Option.bind (scan_num 6 (drop 1 s)) (\<lambda>(y, r). if y = 0 then None else Some (- y, r))
     else scan_num 4 s)"

text \<open>A field that is optional with what follows it: its separator decides whether it is there.\<close>

definition scan_opt :: "char \<Rightarrow> nat \<Rightarrow> int \<Rightarrow> string \<Rightarrow> (int \<times> string) option" where
  "scan_opt c w dflt s = (if starts_with [c] s then scan_num w (drop 1 s) else Some (dflt, s))"

definition scan_zone :: "string \<Rightarrow> int option" where
  "scan_zone s = (if s = ''Z'' then Some 0
     else if starts_with ''+'' s \<or> starts_with ''-'' s then
       Option.bind (scan_num 2 (drop 1 s)) (\<lambda>(h, r).
       if \<not> starts_with '':'' r then None
       else Option.bind (scan_num 2 (drop 1 r)) (\<lambda>(m, r').
       if r' \<noteq> [] \<or> 23 < h \<or> 59 < m then None
       else Some ((if starts_with ''-'' s then - 1 else 1) * (h * 60 + m) * 60000)))
     else None)"

definition scan_time :: "string \<Rightarrow> int option" where
  "scan_time s =
     Option.bind (scan_num 2 s) (\<lambda>(h, r).
     if \<not> starts_with '':'' r then None
     else Option.bind (scan_num 2 (drop 1 r)) (\<lambda>(mi, r1).
     Option.bind (scan_opt CHR '':'' 2 0 r1) (\<lambda>(sec, r2).
     Option.bind (if starts_with '':'' r1 then scan_opt CHR ''.'' 3 0 r2 else Some (0, r2)) (\<lambda>(ms, r3).
     Option.bind (scan_zone r3) (\<lambda>off.
     if 59 < mi \<or> 59 < sec \<or> 24 < h \<or> (h = 24 \<and> (mi \<noteq> 0 \<or> sec \<noteq> 0 \<or> ms \<noteq> 0)) then None
     else Some (h * 3600000 + mi * 60000 + sec * 1000 + ms - off))))))"

definition iso_parse :: "string \<Rightarrow> int option" where
  "iso_parse s =
     Option.bind (scan_year s) (\<lambda>(y, r).
     Option.bind (scan_opt CHR ''-'' 2 1 r) (\<lambda>(m, r1).
     Option.bind (if starts_with ''-'' r then scan_opt CHR ''-'' 2 1 r1 else Some (1, r1)) (\<lambda>(d, r2).
     if m < 1 \<or> 12 < m \<or> d < 1 \<or> days_in_month (leap y) (nat m) < d then None
     else let day = day_from_year y + month_start (leap y) (nat m) + d - 1 in
       Option.bind (if r2 = [] then Some 0
         else if starts_with ''T'' r2 then scan_time (drop 1 r2) else None) (\<lambda>t.
       let v = day * ms_per_day + t in if \<bar>v\<bar> \<le> max_time then Some v else None))))"

definition date_parse :: "(string \<Rightarrow> int option) \<Rightarrow> string \<Rightarrow> int option" where
  "date_parse host s = (case iso_parse s of Some t \<Rightarrow> Some t | None \<Rightarrow> host s)"

text \<open>The test \<open>new Date(Date.parse(s)).toISOString() === s\<close> of a canonical timestamp.\<close>

definition canonical_iso :: "(string \<Rightarrow> int option) \<Rightarrow> string \<Rightarrow> bool" where
  "canonical_iso host s = (case date_parse host s of None \<Rightarrow> False | Some t \<Rightarrow> to_iso t = s)"

section \<open>Time values that may be NaN\<close>

text \<open>\<open>Date.parse\<close> gives NaN (here \<open>None\<close>) on a text it cannot read; every comparison with NaN is
  false and every sum with it is NaN.\<close>

definition nlt :: "int option \<Rightarrow> int option \<Rightarrow> bool" where
  "nlt a b = (case (a, b) of (Some x, Some y) \<Rightarrow> x < y | _ \<Rightarrow> False)"

definition nle :: "int option \<Rightarrow> int option \<Rightarrow> bool" where
  "nle a b = (case (a, b) of (Some x, Some y) \<Rightarrow> x \<le> y | _ \<Rightarrow> False)"

definition nadd :: "int option \<Rightarrow> int \<Rightarrow> int option" where
  "nadd a k = map_option (\<lambda>x. x + k) a"

definition nsub :: "int option \<Rightarrow> int option \<Rightarrow> int option" where
  "nsub a b = (case (a, b) of (Some x, Some y) \<Rightarrow> Some (x - y) | _ \<Rightarrow> None)"

lemma nan_simps [simp]:
  "nlt (Some x) (Some y) \<longleftrightarrow> x < y" "\<not> nlt None b" "\<not> nlt a None"
  "nle (Some x) (Some y) \<longleftrightarrow> x \<le> y" "\<not> nle None b" "\<not> nle a None"
  "nadd (Some x) k = Some (x + k)" "nadd None k = None"
  "nsub (Some x) (Some y) = Some (x - y)" "nsub None b = None" "nsub a None = None"
  by (simp_all add: nlt_def nle_def nadd_def nsub_def split: option.splits)

section \<open>The round trip\<close>

lemma succ_div_int:
  fixes x k :: int
  assumes "0 < k"
  shows "(x + 1) div k = x div k + (if (x + 1) mod k = 0 then 1 else 0)"
proof -
  define q r where "q = x div k" and "r = x mod k"
  have x: "x = k * q + r" "0 \<le> r" "r < k"
    using assms by (simp_all add: q_def r_def)
  show ?thesis
  proof (cases "r + 1 = k")
    case True
    then have "x + 1 = k * (q + 1)" using x by (simp add: algebra_simps)
    then show ?thesis using assms by (simp add: q_def [symmetric])
  next
    case False
    then have "(x + 1) div k = q" "(x + 1) mod k = r + 1"
      using x by (auto intro: int_div_pos_eq int_mod_pos_eq)
    then show ?thesis using x by (simp add: q_def [symmetric])
  qed
qed

lemma mod_0_iff_shift:
  fixes y :: int
  shows "(y - 1968) mod 4 = 0 \<longleftrightarrow> y mod 4 = 0"
    and "(y - 1900) mod 100 = 0 \<longleftrightarrow> y mod 100 = 0"
    and "(y - 1600) mod 400 = 0 \<longleftrightarrow> y mod 400 = 0"
proof -
  have "y - 1968 = y + 4 * (- 492)" "y - 1900 = y + 100 * (- 19)" "y - 1600 = y + 400 * (- 4)"
    by simp_all
  then show "(y - 1968) mod 4 = 0 \<longleftrightarrow> y mod 4 = 0"
    "(y - 1900) mod 100 = 0 \<longleftrightarrow> y mod 100 = 0"
    "(y - 1600) mod 400 = 0 \<longleftrightarrow> y mod 400 = 0"
    by (simp_all only: mod_mult_self2)
qed

lemma mod_400_100_4:
  fixes y :: int
  shows "y mod 400 = 0 \<Longrightarrow> y mod 100 = 0" and "y mod 100 = 0 \<Longrightarrow> y mod 4 = 0"
  by (auto simp: mod_eq_0_iff_dvd elim: dvd_trans [rotated])

lemma day_from_year_step:
  "day_from_year (y + 1) = day_from_year y + (if leap y then 366 else 365)"
proof -
  have 4: "(y - 1968) div 4 = (y - 1969) div 4 + (if y mod 4 = 0 then 1 else 0)"
    using succ_div_int [of 4 "y - 1969"] by (simp add: mod_0_iff_shift)
  have 100: "(y - 1900) div 100 = (y - 1901) div 100 + (if y mod 100 = 0 then 1 else 0)"
    using succ_div_int [of 100 "y - 1901"] by (simp add: mod_0_iff_shift)
  have 400: "(y - 1600) div 400 = (y - 1601) div 400 + (if y mod 400 = 0 then 1 else 0)"
    using succ_div_int [of 400 "y - 1601"] by (simp add: mod_0_iff_shift)
  have e: "day_from_year (y + 1) = 365 * (y + 1 - 1970) + (y - 1968) div 4 - (y - 1900) div 100
      + (y - 1600) div 400"
    by (simp add: day_from_year_def algebra_simps)
  have steps: "365 * (y + 1 - 1970) + (a + (if p4 then 1 else 0)) - (b + (if p100 then 1 else 0))
      + (c + (if p400 then 1 else 0))
    = 365 * (y - 1970) + a - b + c + (if p4 \<and> (\<not> p100 \<or> p400) then 366 else 365)"
    if "p400 \<longrightarrow> p100" "p100 \<longrightarrow> p4" for a b c :: int and p4 p100 p400 :: bool
    using that by (cases p4; cases p100; cases p400) simp_all
  show ?thesis
    unfolding e day_from_year_def [of y] 4 100 400 leap_def
    by (rule steps) (use mod_400_100_4 [of y] in metis)+
qed

lemma day_from_year_bounds:
  "146097 * (y - 1970) - 600 \<le> 400 * day_from_year y"
  "400 * day_from_year y \<le> 146097 * (y - 1970) + 600"
proof -
  define a b c where "a = (y - 1969) div 4" and "b = (y - 1901) div 100" and "c = (y - 1601) div 400"
  have a: "4 * a \<le> y - 1969" "y - 1969 < 4 * a + 4" by (auto simp: a_def)
  have b: "100 * b \<le> y - 1901" "y - 1901 < 100 * b + 100" by (auto simp: b_def)
  have c: "400 * c \<le> y - 1601" "y - 1601 < 400 * c + 400" by (auto simp: c_def)
  have d: "day_from_year y = 365 * (y - 1970) + a - b + c"
    by (simp add: day_from_year_def a_def b_def c_def)
  show "146097 * (y - 1970) - 600 \<le> 400 * day_from_year y"
    unfolding d using a b c by simp
  show "400 * day_from_year y \<le> 146097 * (y - 1970) + 600"
    unfolding d using a b c by simp
qed

lemma year_from_day_bounds:
  "day_from_year (year_from_day d) \<le> d \<and> d < day_from_year (year_from_day d + 1)"
proof -
  define q where "q = (400 * d) div 146097"
  have q: "146097 * q \<le> 400 * d" "400 * d < 146097 * q + 146097"
    by (auto simp: q_def)
  let ?y = "1970 + q"
  have "day_from_year (?y - 1) \<le> d"
    using q day_from_year_bounds(2) [of "?y - 1"] by (simp add: algebra_simps)
  moreover have "d < day_from_year (?y + 2)"
    using q day_from_year_bounds(1) [of "?y + 2"] by (simp add: algebra_simps)
  moreover have "?y - 1 + 1 = ?y" "?y + 1 + 1 = ?y + 2" by simp_all
  ultimately show ?thesis
    by (auto simp: year_from_day_def Let_def q_def [symmetric])
qed

lemma month_starts: "month_start lp 1 = 0" "month_start lp (Suc 0) = 0" "month_start lp 2 = 31" "month_start lp 3 = 59 + of_bool lp" "month_start lp 4 = 90 + of_bool lp" 
  "month_start lp 5 = 120 + of_bool lp" "month_start lp 6 = 151 + of_bool lp" "month_start lp 7 = 181 + of_bool lp" "month_start lp 8 = 212 + of_bool lp"
  "month_start lp 9 = 243 + of_bool lp" "month_start lp 10 = 273 + of_bool lp" "month_start lp 11 = 304 + of_bool lp" "month_start lp 12 = 334 + of_bool lp"
  "month_start lp 13 = 365 + of_bool lp"
  by (simp_all add: month_start_def)

lemma month_of_props:
  assumes "0 \<le> n" and "n < (if lp then 366 else 365)"
  shows "1 \<le> month_of lp n \<and> month_of lp n \<le> 12 \<and> month_start lp (month_of lp n) \<le> n \<and>
    n < month_start lp (Suc (month_of lp n))"
proof -
  have n: "n < month_start lp 13" using assms(2) by (simp add: month_starts split: if_splits)
  have z: "month_start lp 1 \<le> n" using assms(1) by (simp add: month_starts)
  show ?thesis using n z unfolding month_of_def Suc_eq_plus1 by (simp add: not_less del: One_nat_def split: if_split)
qed

lemma days_in_month_le: "1 \<le> m \<Longrightarrow> m \<le> 12 \<Longrightarrow> days_in_month lp m \<le> 31"
  unfolding days_in_month_def month_start_def
  by (cases lp; auto simp: eval_nat_numeral le_Suc_eq nth_Cons split: nat.splits)

lemma scan_num_pad [simp]:
  assumes "n < 10 ^ w" and "0 < w"
  shows "scan_num w (pad w n @ r) = Some (int n, r)"
  using pad_length [OF assms] pad_digits [of w n] by (simp add: scan_num_def)

lemma pad_not_sign:
  assumes "n < 10 ^ w" and "0 < w" and "\<not> is_digit c"
  shows "\<not> starts_with [c] (pad w n @ r)"
proof -
  obtain x xs where "pad w n = x # xs"
    using pad_length [OF assms(1,2)] assms(2) by (cases "pad w n") auto
  then show ?thesis using pad_digits [of w n] assms(3) by auto
qed

lemma scan_year_str:
  assumes "\<bar>y\<bar> < 1000000"
  shows "scan_year (year_str y @ r) = Some (y, r)"
proof -
  consider "0 \<le> y" "y \<le> 9999" | "y < 0" | "9999 < y" by linarith
  then show ?thesis
  proof cases
    case 1
    then have n: "nat y < 10 ^ 4" by simp
    show ?thesis
      using 1 scan_num_pad [OF n, of r] pad_not_sign [OF n, of "CHR ''+''" r] pad_not_sign [OF n, of "CHR ''-''" r]
      by (simp add: scan_year_def year_str_def is_digit_def)
  next
    case 2
    then have "nat (- y) < 10 ^ 6" using assms by simp
    then show ?thesis using 2 by (simp add: scan_year_def year_str_def)
  next
    case 3
    then have "nat y < 10 ^ 6" using assms by simp
    then show ?thesis using 3 by (simp add: scan_year_def year_str_def)
  qed
qed

lemma scan_time_iso:
  assumes "0 \<le> r" and "r < ms_per_day"
  shows "scan_time (pad 2 (nat (r div 3600000)) @ '':'' @ pad 2 (nat (r div 60000 mod 60)) @ '':'' @
     pad 2 (nat (r div 1000 mod 60)) @ ''.'' @ pad 3 (nat (r mod 1000)) @ ''Z'') = Some r"
proof -
  define h mi se ms where "h = r div 3600000" and "mi = r div 60000 mod 60"
    and "se = r div 1000 mod 60" and "ms = r mod 1000"
  have h: "0 \<le> h" "h < 24" using assms by (auto simp: h_def ms_per_day_def)
  have o: "0 \<le> mi" "mi < 60" "0 \<le> se" "se < 60" "0 \<le> ms" "ms < 1000"
    by (auto simp: mi_def se_def ms_def)
  define q q2 where "q = r div 1000" and "q2 = q div 60"
  have "r div 60000 = q2" "r div 3600000 = q2 div 60"
    using zdiv_zmult2_eq [of 60 r 1000] zdiv_zmult2_eq [of 3600 r 1000] zdiv_zmult2_eq [of 60 q 60]
    by (simp_all add: q_def q2_def)
  then have e: "h = q2 div 60" "mi = q2 mod 60" "se = q mod 60" "ms = r mod 1000"
    unfolding h_def mi_def se_def ms_def q_def by simp_all
  have "q2 = 60 * h + mi" "q = 60 * q2 + se" "r = 1000 * q + ms"
    unfolding e by (simp_all add: q_def q2_def)
  then have sum: "h * 3600000 + mi * 60000 + se * 1000 + ms = r" by simp
  have f: "scan_num 2 (pad 2 (nat h) @ s) = Some (h, s)" "scan_num 2 (pad 2 (nat mi) @ s) = Some (mi, s)"
    "scan_num 2 (pad 2 (nat se) @ s) = Some (se, s)" "scan_num 3 (pad 3 (nat ms) @ s) = Some (ms, s)" for s
    using h o by simp_all
  show ?thesis
    unfolding h_def [symmetric] mi_def [symmetric] se_def [symmetric] ms_def [symmetric]
    using h o sum by (simp add: scan_time_def scan_opt_def scan_zone_def f del: scan_num_pad)
qed

lemma iso_parse_to_iso:
  assumes "\<bar>t\<bar> \<le> max_time"
  shows "iso_parse (to_iso t) = Some t"
proof -
  define d r y where "d = t div ms_per_day" and "r = t mod ms_per_day" and "y = year_from_day d"
  define n m where "n = d - day_from_year y" and "m = month_of (leap y) n"
  define dd where "dd = n - month_start (leap y) m + 1"
  have r: "0 \<le> r" "r < ms_per_day" by (simp_all add: r_def ms_per_day_def)
  have t: "t = d * ms_per_day + r" by (simp add: d_def r_def)
  have db: "\<bar>d\<bar> \<le> 100000000"
    using assms t r unfolding ms_per_day_def max_time_def by simp
  have yb: "day_from_year y \<le> d" "d < day_from_year (y + 1)"
    using year_from_day_bounds [of d] by (simp_all add: y_def)
  then have n: "0 \<le> n" "n < (if leap y then 366 else 365)"
    by (simp_all add: n_def day_from_year_step split: if_splits)
  have y6: "\<bar>y\<bar> < 1000000"
    using day_from_year_bounds [of y] day_from_year_bounds [of "y + 1"] yb db by simp
  have m: "1 \<le> m" "m \<le> 12" "month_start (leap y) m \<le> n" "n < month_start (leap y) (Suc m)"
    using month_of_props [OF n] by (simp_all add: m_def)
  have dd: "1 \<le> dd" "dd \<le> days_in_month (leap y) m"
    using m by (simp_all add: dd_def days_in_month_def)
  then have dd99: "dd < 100" using days_in_month_le [OF m(1,2), of "leap y"] by linarith
  have iso: "to_iso t = year_str y @ ''-'' @ pad 2 m @ ''-'' @ pad 2 (nat dd) @ ''T'' @
     (pad 2 (nat (r div 3600000)) @ '':'' @ pad 2 (nat (r div 60000 mod 60)) @ '':'' @
     pad 2 (nat (r div 1000 mod 60)) @ ''.'' @ pad 3 (nat (r mod 1000)) @ ''Z'')"
    by (simp add: to_iso_def Let_def d_def r_def y_def n_def m_def dd_def)
  have day: "day_from_year y + month_start (leap y) m + dd - 1 = d"
    by (simp add: dd_def n_def)
  obtain tm where tm: "scan_time tm = Some r"
    and iso': "to_iso t = year_str y @ ''-'' @ pad 2 m @ ''-'' @ pad 2 (nat dd) @ ''T'' @ tm"
    using iso scan_time_iso [OF r] by blast
  show ?thesis
    unfolding iso' iso_parse_def
    using m(1,2) dd dd99 day assms t
    by (simp add: scan_year_str [OF y6] scan_opt_def tm)
qed

lemma date_parse_to_iso: "\<bar>t\<bar> \<le> max_time \<Longrightarrow> date_parse host (to_iso t) = Some t"
  by (simp add: date_parse_def iso_parse_to_iso)

lemma canonical_to_iso: "\<bar>t\<bar> \<le> max_time \<Longrightarrow> canonical_iso host (to_iso t)"
  by (simp add: canonical_iso_def date_parse_to_iso)

end
