(* ===== verification/Json.thy ===== *)
theory Json
  imports JsDate
begin

text \<open>
  JSON values and the canonical text \<open>stableStringify\<close> of src/src/hash.ts, on which every digest,
  signature and event of the program rests. The main facts: \<open>stable_stringify\<close> prints the
  canonical form of a value (undefined members dropped, members sorted), and on values without an
  undefined array element two texts are equal exactly when the canonical forms are. Numbers are the
  integers. The order of \<open>localeCompare\<close> is that of the collation keys \<open>ck\<close>. A \<open>platform\<close>
  collects what the code takes from its environment.
\<close>

datatype json = JUndef | JNull | JBool bool | JNum int | JStr string
  | JArr "json list" | JObj "(string \<times> json) list"

section \<open>JSON.stringify\<close>

definition hex_digit :: "nat \<Rightarrow> char" where
  "hex_digit n = (if n < 10 then char_of (48 + n) else char_of (87 + n))"

definition esc_char :: "char \<Rightarrow> string" where
  "esc_char c = (let n = of_char c :: nat in
     if c = CHR 0x22 then [CHR 0x5C, CHR 0x22] else if c = CHR 0x5C then [CHR 0x5C, CHR 0x5C]
     else if n = 8 then [CHR 0x5C, CHR ''b''] else if n = 12 then [CHR 0x5C, CHR ''f'']
     else if n = 10 then [CHR 0x5C, CHR ''n''] else if n = 13 then [CHR 0x5C, CHR ''r'']
     else if n = 9 then [CHR 0x5C, CHR ''t'']
     else if n < 32 then CHR 0x5C # ''u00'' @ [hex_digit (n div 16), hex_digit (n mod 16)]
     else [c])"

definition json_str :: "string \<Rightarrow> string" where
  "json_str s = CHR 0x22 # concat (map esc_char s) @ [CHR 0x22]"

section \<open>stableStringify\<close>

definition live_entries :: "(string \<Rightarrow> string) \<Rightarrow> (string \<times> json) list \<Rightarrow> (string \<times> json) list" where
  "live_entries ck es = sort_key (\<lambda>e. ck (fst e)) (filter (\<lambda>e. snd e \<noteq> JUndef) es)"

lemma live_entries_mem [simp]: "set (live_entries ck es) = {e \<in> set es. snd e \<noteq> JUndef}"
  by (auto simp: live_entries_def)

lemma size_entry: "(k, v) \<in> set es \<Longrightarrow> size v < Suc (size_list (size_prod (\<lambda>_. 0) size) es)"
proof -
  assume "(k, v) \<in> set es"
  then have "size_prod (\<lambda>_. 0) size (k, v) \<le> size_list (size_prod (\<lambda>_. 0) size) es"
    by (rule size_list_estimation') simp
  then show ?thesis by simp
qed

lemma size_item: "v \<in> set vs \<Longrightarrow> size v < Suc (size_list size vs)"
  by (simp add: le_imp_less_Suc size_list_estimation')

function stable_stringify :: "(string \<Rightarrow> string) \<Rightarrow> json \<Rightarrow> string" where
  "stable_stringify ck JUndef = []"
| "stable_stringify ck JNull = ''null''"
| "stable_stringify ck (JBool b) = (if b then ''true'' else ''false'')"
| "stable_stringify ck (JNum i) = int_str i"
| "stable_stringify ck (JStr s) = json_str s"
| "stable_stringify ck (JArr vs) = ''['' @ joins '','' (map (\<lambda>v. stable_stringify ck v) vs) @ '']''"
| "stable_stringify ck (JObj es) = ''{'' @
     joins '','' (map (\<lambda>(k, v). json_str k @ '':'' @ stable_stringify ck v) (live_entries ck es)) @ ''}''"
  by pat_completeness auto
termination
  by (relation "measure (\<lambda>(ck, j). size j)") (auto simp: size_entry size_item)

text \<open>The canonical form of a value and its plain text.\<close>

function canon :: "(string \<Rightarrow> string) \<Rightarrow> json \<Rightarrow> json" where
  "canon ck JUndef = JUndef"
| "canon ck JNull = JNull"
| "canon ck (JBool b) = JBool b"
| "canon ck (JNum i) = JNum i"
| "canon ck (JStr s) = JStr s"
| "canon ck (JArr vs) = JArr (map (\<lambda>v. canon ck v) vs)"
| "canon ck (JObj es) = JObj (map (\<lambda>(k, v). (k, canon ck v)) (live_entries ck es))"
  by pat_completeness auto
termination
  by (relation "measure (\<lambda>(ck, j). size j)") (auto simp: size_entry size_item)

fun print :: "json \<Rightarrow> string" where
  "print JUndef = []"
| "print JNull = ''null''"
| "print (JBool b) = (if b then ''true'' else ''false'')"
| "print (JNum i) = int_str i"
| "print (JStr s) = json_str s"
| "print (JArr vs) = ''['' @ joins '','' (map print vs) @ '']''"
| "print (JObj es) = ''{'' @ joins '','' (map (\<lambda>(k, v). json_str k @ '':'' @ print v) es) @ ''}''"

text \<open>No undefined value inside an array, or as an object's member.\<close>

fun defined :: "json \<Rightarrow> bool" where
  "defined JUndef = False"
| "defined (JArr vs) = (\<forall>v \<in> set vs. defined v)"
| "defined (JObj es) = (\<forall>(k, v) \<in> set es. defined v)"
| "defined j = True"

fun array_safe :: "json \<Rightarrow> bool" where
  "array_safe (JArr vs) = (\<forall>v \<in> set vs. v \<noteq> JUndef \<and> array_safe v)"
| "array_safe (JObj es) = (\<forall>(k, v) \<in> set es. array_safe v)"
| "array_safe j = True"

lemma stable_stringify_canon: "stable_stringify ck j = print (canon ck j)"
proof (induction ck j rule: stable_stringify.induct)
  case (6 ck vs)
  then show ?case by (simp add: comp_def cong: map_cong)
next
  case (7 ck es)
  then have "map (\<lambda>(k, v). json_str k @ '':'' @ stable_stringify ck v) (live_entries ck es) =
      map (\<lambda>(k, v). json_str k @ '':'' @ print (canon ck v)) (live_entries ck es)"
    by (intro map_cong) auto
  then show ?case
    by (simp only: stable_stringify.simps canon.simps print.simps map_map comp_def case_prod_unfold
        fst_conv snd_conv)
qed simp_all

lemma canon_defined: "array_safe j \<Longrightarrow> j \<noteq> JUndef \<Longrightarrow> defined (canon ck j)"
proof (induction ck j rule: canon.induct)
  case (7 ck es)
  then show ?case by fastforce
qed auto

section \<open>The text determines the canonical form\<close>

definition hex_val :: "char \<Rightarrow> nat" where
  "hex_val c = (let n = of_char c :: nat in if n < 58 then n - 48 else n - 87)"

definition unesc :: "string \<Rightarrow> char \<times> string" where
  "unesc s = (if s ! 0 \<noteq> CHR 0x5C then (s ! 0, drop 1 s)
     else if s ! 1 = CHR ''u'' then (char_of (16 * hex_val (s ! 4) + hex_val (s ! 5)), drop 6 s)
     else if s ! 1 = CHR ''b'' then (char_of (8 :: nat), drop 2 s)
     else if s ! 1 = CHR ''f'' then (char_of (12 :: nat), drop 2 s)
     else if s ! 1 = CHR ''n'' then (char_of (10 :: nat), drop 2 s)
     else if s ! 1 = CHR ''r'' then (char_of (13 :: nat), drop 2 s)
     else if s ! 1 = CHR ''t'' then (char_of (9 :: nat), drop 2 s)
     else (s ! 1, drop 2 s))"

lemma hex_val_digit [simp]: "n < 16 \<Longrightarrow> hex_val (hex_digit n) = n"
  by (simp add: hex_val_def hex_digit_def)

lemma unesc_esc: "unesc (esc_char c @ s) = (c, s)"
proof -
  define n where "n = (of_char c :: nat)"
  have c: "c = char_of n" by (simp add: n_def)
  consider "c = CHR 0x22" | "c = CHR 0x5C" | "n = 8" | "n = 12" | "n = 10" | "n = 13" | "n = 9"
    | "c \<noteq> CHR 0x22" "c \<noteq> CHR 0x5C" "n \<notin> {8, 9, 10, 12, 13}" "n < 32"
    | "c \<noteq> CHR 0x22" "c \<noteq> CHR 0x5C" "\<not> n < 32" by auto
  then show ?thesis
  proof cases
    case 8
    then have "n div 16 < 16" "n mod 16 < 16" by auto
    with 8 show ?thesis by (simp add: esc_char_def unesc_def Let_def n_def [symmetric] c [symmetric])
  next
    case 9
    then have "n \<noteq> 8" "n \<noteq> 9" "n \<noteq> 10" "n \<noteq> 12" "n \<noteq> 13" by auto
    with 9 show ?thesis by (simp add: esc_char_def unesc_def Let_def n_def [symmetric])
  qed (simp_all add: esc_char_def unesc_def c)
qed

lemma esc_char_nonempty [simp]: "esc_char c \<noteq> []"
  by (simp add: esc_char_def Let_def)

lemma esc_char_no_quote: "hd (esc_char c) \<noteq> CHR 0x22"
  by (simp add: esc_char_def Let_def)

lemma esc_char_quote: "esc_char c @ s \<noteq> CHR 0x22 # r"
  using esc_char_no_quote [of c] esc_char_nonempty [of c] by (cases "esc_char c") auto

lemma escaped_inj:
  "concat (map esc_char s) @ CHR 0x22 # r = concat (map esc_char t) @ CHR 0x22 # u \<Longrightarrow> s = t \<and> r = u"
proof (induction s arbitrary: t)
  case Nil
  then show ?case by (cases t) (auto simp: esc_char_quote dest: sym)
next
  case (Cons c s)
  show ?case
  proof (cases t)
    case Nil
    with Cons.prems show ?thesis by (simp add: esc_char_quote)
  next
    case (Cons d t')
    with Cons.prems have e: "esc_char c @ concat (map esc_char s) @ CHR 0x22 # r
        = esc_char d @ concat (map esc_char t') @ CHR 0x22 # u" by simp
    then have "unesc (esc_char c @ concat (map esc_char s) @ CHR 0x22 # r)
        = unesc (esc_char d @ concat (map esc_char t') @ CHR 0x22 # u)" by simp
    then have "c = d" "concat (map esc_char s) @ CHR 0x22 # r = concat (map esc_char t') @ CHR 0x22 # u"
      by (simp_all add: unesc_esc)
    with Cons.IH [of t'] Cons show ?thesis by simp
  qed
qed

lemma json_str_inj: "json_str s @ r = json_str t @ u \<longleftrightarrow> s = t \<and> r = u"
  using escaped_inj [of s r t u] by (auto simp: json_str_def)

text \<open>What may follow a value inside a text: nothing, a comma, a closing bracket or a line feed.\<close>

definition stops :: "string \<Rightarrow> bool" where
  "stops r = (r = [] \<or> hd r \<in> {CHR '','', CHR '']'', CHR ''}'', CHR 0x0A})"

lemma stops_simps [simp]:
  "stops []" "stops (CHR '','' # r)" "stops (CHR '']'' # r)" "stops (CHR ''}'' # r)" "stops (CHR 0x0A # r)"
  by (simp_all add: stops_def)

lemma digits_stop:
  assumes "list_all is_digit a" and "list_all is_digit b" and "stops r" and "stops s"
    and "a @ r = b @ s"
  shows "a = b \<and> r = s"
proof -
  have tw: "takeWhile is_digit (x @ y) = x" if "list_all is_digit x" "stops y" for x y
    using that by (cases y) (auto simp: list_all_iff stops_def is_digit_def)
  then have "a = b" using assms tw [of a r] tw [of b s] by simp
  then show ?thesis using assms by simp
qed

lemma nat_str_inj: "nat_str m = nat_str n \<Longrightarrow> m = n"
  by (metis digits_val_nat_str)

lemma nat_str_hd: "is_digit (hd (nat_str n))"
  using nat_str_digits [of n] by (cases "nat_str n") (auto simp: list_all_iff)

lemma nat_str_no_minus: "nat_str n @ r \<noteq> CHR ''-'' # s"
  using nat_str_hd [of n] by (cases "nat_str n") (auto simp: is_digit_def)

lemma int_str_inj: "stops r \<Longrightarrow> stops s \<Longrightarrow> int_str i @ r = int_str j @ s \<Longrightarrow> i = j \<and> r = s"
  using digits_stop [of "nat_str (nat \<bar>i\<bar>)" "nat_str (nat \<bar>j\<bar>)" r s] nat_str_no_minus
    nat_str_no_minus [THEN not_sym]
  by (auto simp: int_str_def nat_str_digits dest!: nat_str_inj split: if_splits)

lemma joins_Cons: "joins sep (x # xs) = x @ (if xs = [] then [] else sep @ joins sep xs)"
  by (cases xs) auto

lemma joins_inj:
  assumes item: "\<And>x y r s. x \<in> set xs \<Longrightarrow> Q y \<Longrightarrow> stops r \<Longrightarrow> stops s \<Longrightarrow> f x @ r = f y @ s \<Longrightarrow> x = y \<and> r = s"
    and start: "\<And>y. y \<in> set xs \<or> Q y \<Longrightarrow> f y \<noteq> [] \<and> hd (f y) \<noteq> e"
    and e: "e \<in> {CHR '']'', CHR ''}''}"
    and "\<forall>y \<in> set ys. Q y"
    and "joins '','' (map f xs) @ e # r = joins '','' (map f ys) @ e # s"
  shows "xs = ys \<and> r = s"
  using assms
proof (induction xs arbitrary: ys)
  case Nil
  show ?case
  proof (cases ys)
    case (Cons y ys')
    with Nil.prems(4) have "f y \<noteq> [] \<and> hd (f y) \<noteq> e" by (intro Nil.prems(2)) simp
    with Nil.prems Cons show ?thesis by (cases "f y") (auto simp: joins_Cons)
  qed (use Nil.prems in simp)
next
  case (Cons x xs)
  show ?case
  proof (cases ys)
    case Nil
    have "f x \<noteq> [] \<and> hd (f x) \<noteq> e" by (intro Cons.prems(2)) simp
    with Cons.prems Nil show ?thesis by (cases "f x") (auto simp: joins_Cons)
  next
    case (Cons y ys')
    let ?t = "\<lambda>zs u. (if zs = [] then [] else '','' @ joins '','' (map f zs)) @ e # u"
    have "f x @ ?t xs r = f y @ ?t ys' s"
      using Cons.prems(5) Cons by (simp add: joins_Cons)
    moreover have st: "stops (?t zs u)" for zs u using Cons.prems(3) by auto
    ultimately have xy: "x = y" and tails: "?t xs r = ?t ys' s"
      using Cons.prems(1) [of x y "?t xs r" "?t ys' s"] Cons.prems(4) Cons by auto
    have "xs = ys' \<and> r = s"
    proof (cases "xs = [] \<or> ys' = []")
      case True
      with tails Cons.prems(3) show ?thesis by (auto split: if_splits)
    next
      case False
      with tails have "joins '','' (map f xs) @ e # r = joins '','' (map f ys') @ e # s" by simp
      with Cons.prems Cons show ?thesis by (intro Cons.IH) auto
    qed
    with xy Cons show ?thesis by simp
  qed
qed

lemma int_str_hd: "int_str i \<noteq> [] \<and> (hd (int_str i) = CHR ''-'' \<or> is_digit (hd (int_str i)))"
  using nat_str_hd by (auto simp: int_str_def)

lemma int_str_neq:
  "c \<noteq> CHR ''-'' \<Longrightarrow> \<not> is_digit c \<Longrightarrow> int_str i @ r \<noteq> c # s"
  using int_str_hd [of i] by (cases "int_str i") auto

lemma print_hd:
  "defined j \<Longrightarrow> print j \<noteq> [] \<and> hd (print j) \<noteq> CHR '']'' \<and> hd (print j) \<noteq> CHR ''}''"
proof (cases j)
  case (JNum i)
  then show ?thesis using int_str_hd [of i] by (auto simp: is_digit_def)
qed (simp_all add: json_str_def)

lemma print_inj:
  "defined a \<Longrightarrow> defined b \<Longrightarrow> stops r \<Longrightarrow> stops s \<Longrightarrow> print a @ r = print b @ s \<Longrightarrow> a = b \<and> r = s"
proof (induction a arbitrary: b r s)
  case (JNum i)
  then show ?case
    by (cases b) (auto simp: int_str_neq json_str_def is_digit_def dest: int_str_inj split: if_splits)
next
  case (JStr x)
  show ?case
  proof (cases b)
    case b: (JStr y)
    with JStr show ?thesis by (simp add: json_str_inj)
  qed (use JStr in \<open>auto simp: int_str_neq [THEN not_sym] is_digit_def json_str_def split: if_splits\<close>)
next
  case (JArr vs)
  show ?case
  proof (cases b)
    case (JArr ws)
    have "vs = ws \<and> r = s"
    proof (rule joins_inj [where Q = defined and f = print and e = "CHR '']''"])
      fix x y r s assume "x \<in> set vs" "defined y" "stops r" "stops s" "print x @ r = print y @ s"
      then show "x = y \<and> r = s" using JArr.IH JArr.prems(1) by auto
    qed (use JArr.prems JArr print_hd in auto)
    with JArr show ?thesis by simp
  qed (use JArr.prems in \<open>auto simp: int_str_neq [THEN not_sym] is_digit_def json_str_def split: if_splits\<close>)
next
  case (JObj es)
  show ?case
  proof (cases b)
    case (JObj fs)
    let ?f = "\<lambda>(k, v). json_str k @ '':'' @ print v"
    have "es = fs \<and> r = s"
    proof (rule joins_inj [where Q = "\<lambda>e. defined (snd e)" and f = ?f and e = "CHR ''}''"])
      fix x y r s assume a: "x \<in> set es" "defined (snd y)" "stops r" "stops s" "?f x @ r = ?f y @ s"
      then have k: "fst x = fst y" and v: "print (snd x) @ r = print (snd y) @ s"
        by (auto simp: json_str_inj case_prod_unfold)
      have "defined (snd x)" using a(1) JObj.prems(1) by auto
      moreover have "snd x \<in> Basic_BNFs.snds x" by (cases x) simp
      ultimately have "snd x = snd y \<and> r = s"
        using JObj.IH [of x "snd x" "snd y" r s] a v by blast
      with k show "x = y \<and> r = s" by (simp add: prod_eq_iff)
    qed (use JObj.prems JObj in \<open>auto simp: json_str_def\<close>)
    with JObj show ?thesis by simp
  qed (use JObj.prems in \<open>auto simp: int_str_neq [THEN not_sym] is_digit_def json_str_def split: if_splits\<close>)
next
  case JNull
  then show ?case by (cases b) (auto simp: int_str_neq [THEN not_sym] is_digit_def json_str_def split: if_splits)
next
  case (JBool c)
  then show ?case
    by (cases b; cases c) (auto simp: int_str_neq [THEN not_sym] is_digit_def json_str_def split: if_splits)
qed simp

theorem stable_stringify_eq_iff:
  assumes "array_safe a" and "a \<noteq> JUndef" and "array_safe b" and "b \<noteq> JUndef"
  shows "stable_stringify ck a = stable_stringify ck b \<longleftrightarrow> canon ck a = canon ck b"
  using print_inj [of "canon ck a" "canon ck b" "[]" "[]"] assms
  by (auto simp: stable_stringify_canon canon_defined)

text \<open>The order in which the members were inserted does not matter.\<close>

lemma live_entries_order:
  assumes "mset es = mset fs" and "inj_on ck (fst ` set es)" and "distinct (map fst es)"
  shows "live_entries ck es = live_entries ck fs"
  unfolding live_entries_def
proof (rule sort_key_inj_key_eq)
  let ?live = "filter (\<lambda>e. snd e \<noteq> JUndef)"
  show "mset (?live es) = mset (sort_key (\<lambda>e. ck (fst e)) (?live fs))"
    using assms(1) by (simp add: mset_filter)
  show "inj_on (\<lambda>e. ck (fst e)) (set (?live es))"
  proof (rule inj_onI)
    fix e e' assume e: "e \<in> set (?live es)" "e' \<in> set (?live es)" "ck (fst e) = ck (fst e')"
    then have "fst e = fst e'" using assms(2) by (auto dest: inj_onD)
    then show "e = e'" using e assms(3) by (auto simp: distinct_map dest: inj_onD)
  qed
qed simp

lemma stable_stringify_order:
  assumes "mset es = mset fs" and "inj_on ck (fst ` set es)" and "distinct (map fst es)"
  shows "stable_stringify ck (JObj es) = stable_stringify ck (JObj fs)"
  by (simp add: live_entries_order [OF assms])

text \<open>Two objects with the same member names in the same order and one canonical form agree member by
  member. This is how the equality of two digests becomes the equality of two records.\<close>

lemma canon_JUndef_iff: "canon ck j = JUndef \<longleftrightarrow> j = JUndef"
  by (cases j) auto

lemma canon_obj_eq:
  assumes eq: "canon ck (JObj es) = canon ck (JObj fs)" and keys: "map fst es = map fst fs"
    and dist: "distinct (map fst es)"
  shows "list_all2 (\<lambda>e f. canon ck (snd e) = canon ck (snd f)) es fs"
proof -
  have len: "length es = length fs" using keys by (metis length_map)
  have lists: "map (\<lambda>(k, v). (k, canon ck v)) (live_entries ck es) = map (\<lambda>(k, v). (k, canon ck v)) (live_entries ck fs)"
    using eq by simp
  have sets: "(\<lambda>(k, v). (k, canon ck v)) ` {e \<in> set es. snd e \<noteq> JUndef} =
      (\<lambda>(k, v). (k, canon ck v)) ` {e \<in> set fs. snd e \<noteq> JUndef}"
    using arg_cong [OF lists, of set] by simp
  have half: "canon ck (snd (fs ! i)) = canon ck (snd (es ! i))"
    if s: "(\<lambda>(k, v). (k, canon ck v)) ` {e \<in> set es. snd e \<noteq> JUndef} \<subseteq>
        (\<lambda>(k, v). (k, canon ck v)) ` {e \<in> set fs. snd e \<noteq> JUndef}"
      and k: "map fst es = map fst fs" "distinct (map fst fs)" and i: "i < length es" "snd (es ! i) \<noteq> JUndef"
    for es fs :: "(string \<times> json) list" and i
  proof -
    have "(fst (es ! i), canon ck (snd (es ! i))) \<in> (\<lambda>(k, v). (k, canon ck v)) ` {e \<in> set fs. snd e \<noteq> JUndef}"
      using s i by (force simp: case_prod_unfold)
    then obtain j where j: "j < length fs" "fst (fs ! j) = fst (es ! i)" "canon ck (snd (fs ! j)) = canon ck (snd (es ! i))"
      by (auto simp: in_set_conv_nth)
    have lf: "length fs = length es" using k(1) by (metis length_map)
    have "map fst fs ! j = map fst fs ! i" using j k(1) i lf by (metis nth_map)
    then have "j = i" using nth_eq_iff_index_eq [OF k(2)] j(1) i(1) lf by simp
    with j show ?thesis by simp
  qed
  show ?thesis
  proof (rule list_all2_all_nthI)
    fix i assume i: "i < length es"
    have d: "distinct (map fst fs)" using keys dist by simp
    show "canon ck (snd (es ! i)) = canon ck (snd (fs ! i))"
    proof (cases "snd (es ! i) = JUndef")
      case False
      then show ?thesis using half [OF _ keys d i] sets by simp
    next
      case True
      then show ?thesis
        using half [OF _ keys [symmetric] dist, of i] sets i len by (cases "snd (fs ! i) = JUndef") auto
    qed
  qed (rule len)
qed

lemma canon_arr_eq:
  "canon ck (JArr vs) = canon ck (JArr ws) \<longleftrightarrow> list_all2 (\<lambda>v w. canon ck v = canon ck w) vs ws"
  by (simp add: list_all2_conv_all_nth list_eq_iff_nth_eq) (metis nth_map)

section \<open>The environment\<close>

text \<open>
  What the program takes from outside src/: SHA-256 in hexadecimal of a text, the collation key of
  \<open>localeCompare\<close>, the Ed25519 signature of a message under a private key, Ed25519 verification of a message against a PEM key and a base64url signature
  (\<open>None\<close> when a decoder throws), the errors a JSON schema reports for a value (the empty list
  when it is valid), and the host's part of \<open>Date.parse\<close>.
\<close>

record platform =
  sha256_hex :: "string \<Rightarrow> string"
  coll_key :: "string \<Rightarrow> string"
  ed25519_sign :: "string \<Rightarrow> string \<Rightarrow> string"
  ed25519_verify :: "string \<Rightarrow> string \<Rightarrow> string \<Rightarrow> bool option"
  schema_errors :: "string \<Rightarrow> json \<Rightarrow> string list"
  host_date :: "string \<Rightarrow> int option"

definition sha256 :: "platform \<Rightarrow> string \<Rightarrow> string" where
  "sha256 P s = ''sha256:'' @ sha256_hex P s"

abbreviation hash_json :: "platform \<Rightarrow> json \<Rightarrow> string" where
  "hash_json P j \<equiv> sha256 P (stable_stringify (coll_key P) j)"

text \<open>\<open>assertSchema\<close> of src/src/schema.ts.\<close>

definition assertSchema :: "platform \<Rightarrow> string \<Rightarrow> json \<Rightarrow> unit result" where
  "assertSchema P name j = (case schema_errors P name j of [] \<Rightarrow> Inr ()
     | errs \<Rightarrow> throw (name @ '' validation failed: '' @ joins ''; '' errs))"

lemma assertSchema_Inr [simp]: "assertSchema P name j = Inr u \<longleftrightarrow> schema_errors P name j = []"
  by (auto simp: assertSchema_def split: list.splits)

abbreviation parse_date :: "platform \<Rightarrow> string \<Rightarrow> int option" where
  "parse_date P s \<equiv> date_parse (host_date P) s"

text \<open>Two texts with one digest.\<close>

definition sha_collision :: "platform \<Rightarrow> string \<Rightarrow> string \<Rightarrow> bool" where
  "sha_collision P s t = (s \<noteq> t \<and> sha256_hex P s = sha256_hex P t)"

lemma sha256_eq: "sha256 P s = sha256 P t \<Longrightarrow> s = t \<or> sha_collision P s t"
  by (auto simp: sha256_def sha_collision_def)

lemma hash_json_eq:
  assumes "hash_json P a = hash_json P b" and "array_safe a" "a \<noteq> JUndef" "array_safe b" "b \<noteq> JUndef"
  shows "canon (coll_key P) a = canon (coll_key P) b \<or>
    sha_collision P (stable_stringify (coll_key P) a) (stable_stringify (coll_key P) b)"
  using sha256_eq [OF assms(1)] stable_stringify_eq_iff [OF assms(2-5)] by blast

text \<open>Constructors for the members of the records.\<close>

definition jopt :: "('a \<Rightarrow> json) \<Rightarrow> 'a option \<Rightarrow> json" where
  "jopt f x = (case x of None \<Rightarrow> JUndef | Some y \<Rightarrow> f y)"

definition jnull :: "('a \<Rightarrow> json) \<Rightarrow> 'a option \<Rightarrow> json" where
  "jnull f x = (case x of None \<Rightarrow> JNull | Some y \<Rightarrow> f y)"

definition jstrs :: "string list \<Rightarrow> json" where
  "jstrs xs = JArr (map JStr xs)"

text \<open>A platform to evaluate the definitions on: the digest is the text itself, a signature is the key
  followed by the message, every value meets its schema.\<close>

definition sample_platform :: platform where
  "sample_platform = \<lparr>sha256_hex = (\<lambda>s. s), coll_key = (\<lambda>s. s), ed25519_sign = (\<lambda>k m. k @ '':'' @ m),
     ed25519_verify = (\<lambda>k m s. Some (s = k @ '':'' @ m)), schema_errors = (\<lambda>_ _. []),
     host_date = (\<lambda>_. None)\<rparr>"

end
