(* ===== verification/Types.thy ===== *)
theory Types
  imports Json
begin

text \<open>
  The data of src/src/types.ts the modelled components share, each record with the JSON value the
  code hashes or signs.
\<close>

section \<open>Enumerations\<close>

datatype evidence_status = EsVerified | EsOperatorSupplied | EsInferred | EsUnverified | EsCurrentSourceRequired

fun evidence_str :: "evidence_status \<Rightarrow> string" where
  "evidence_str EsVerified = ''verified''"
| "evidence_str EsOperatorSupplied = ''operator_supplied''"
| "evidence_str EsInferred = ''inferred''"
| "evidence_str EsUnverified = ''unverified''"
| "evidence_str EsCurrentSourceRequired = ''current_source_required''"

datatype recency_policy = JobLiveness | SalaryMarket | LegalRegulatory | OrganizationContact | CredentialStatus

datatype reversibility = R0 | R1 | R2 | R3 | R4

fun reversibility_str :: "reversibility \<Rightarrow> string" where
  "reversibility_str R0 = ''R0''"
| "reversibility_str R1 = ''R1''"
| "reversibility_str R2 = ''R2''"
| "reversibility_str R3 = ''R3''"
| "reversibility_str R4 = ''R4''"

datatype confidence = High | Medium | Low

datatype claim_type = CtDegree | CtLicense | CtPublication | CtAffiliation | CtGrant | CtEmployment
  | CtCredential | CtAward | CtSkill | CtProject | CtOther

datatype source_type = StFile | StUrl | StOfficialRecord | StSelfAttested | StOperatorSupplied

datatype profile_scope = Synthetic | LocalPrivate

datatype document_kind = DkCv | DkCoverLetter | DkOutreach | DkOther

fun document_kind_str :: "document_kind \<Rightarrow> string" where
  "document_kind_str DkCv = ''cv''"
| "document_kind_str DkCoverLetter = ''cover-letter''"
| "document_kind_str DkOutreach = ''outreach''"
| "document_kind_str DkOther = ''other''"

datatype apply_mode = Manual | DraftOnly | Auto

datatype operation = OpAutoApply | OpForcedScore

fun operation_str :: "operation \<Rightarrow> string" where
  "operation_str OpAutoApply = ''auto-apply''"
| "operation_str OpForcedScore = ''forced-score''"

section \<open>Records\<close>

record claim =
  cm_id :: string
  cm_text :: string
  cm_hash :: string
  cm_type :: claim_type
  cm_status :: evidence_status
  cm_source_type :: source_type
  cm_pointer :: string
  cm_verified_date :: "string option"
  cm_recency_required :: bool
  cm_recency_policy :: "recency_policy option"
  cm_public :: bool
  cm_in_cv :: bool
  cm_in_outreach :: bool
  cm_in_auto_apply :: bool

record claim_graph =
  cg_profile :: string
  cg_scope :: profile_scope
  cg_generated_at :: string
  cg_version :: string
  cg_claims :: "claim list"
  cg_verified :: int
  cg_unverified :: int
  cg_private :: int

record packet_claim =
  pc_id :: string
  pc_text :: string
  pc_hash :: string
  pc_status :: evidence_status
  pc_pointer :: string
  pc_public :: bool

record packet_document =
  pd_kind :: document_kind
  pd_path :: string
  pd_hash :: string

record packet =
  pk_opportunity :: string
  pk_claims :: "packet_claim list"
  pk_documents :: "packet_document list"
  pk_tos :: bool
  pk_generated_at :: string
  pk_hash :: string
  pk_approval_required :: bool

record kill_switch =
  ks_available :: bool
  ks_engaged :: bool
  ks_engaged_at :: "string option"
  ks_engaged_by :: "string option"
  ks_reason :: "string option"

record per_opportunity =
  po_mode :: "apply_mode option"
  po_excluded :: "bool option"

record auto_apply_config =
  cf_enabled :: bool
  cf_mode :: apply_mode
  cf_kill :: kill_switch
  cf_max_per_day :: int
  cf_cooldown_until :: "string option"
  cf_adapters :: "string list"
  cf_per_opportunity :: "(string \<times> per_opportunity) list"
  cf_exclusions :: "string list"

record approval =
  ap_id :: string
  ap_operation :: operation
  ap_by :: string
  ap_key :: string
  ap_at :: string
  ap_expires :: string
  ap_text_hash :: string
  ap_opportunity :: string
  ap_packet :: string
  ap_adapter :: string
  ap_intent :: string
  ap_fields :: "string list"
  ap_algorithm :: string
  ap_signature :: string

text \<open>The observations come from callers that may leave some out; completeness is checked at run time.\<close>

datatype high_stakes_flag = HsImmigration | HsLicensing | HsFinancialLiability | HsClinical
  | HsResearchIntegrity | HsConflictOfInterest | HsPublicReputation | HsFamilyRelocation

definition HIGH_STAKES_FLAGS :: "high_stakes_flag list" where
  "HIGH_STAKES_FLAGS = [HsImmigration, HsLicensing, HsFinancialLiability, HsClinical, HsResearchIntegrity,
     HsConflictOfInterest, HsPublicReputation, HsFamilyRelocation]"

lemma HIGH_STAKES_FLAGS_all [simp]: "f \<in> set HIGH_STAKES_FLAGS"
  by (cases f) (simp_all add: HIGH_STAKES_FLAGS_def)

type_synonym high_stakes_flags = "high_stakes_flag \<Rightarrow> bool option"

record risk_signals =
  rs_captcha :: "bool option"
  rs_anti_bot :: "bool option"
  rs_payment :: "bool option"
  rs_identity :: "bool option"
  rs_tos_unclear :: "bool option"
  rs_license :: "bool option"
  rs_fabrication :: "bool option"

record auto_apply_decision =
  ad_allowed :: bool
  ad_blocked_by :: "string option"
  ad_reasons :: "string list"
  ad_approvals :: "string list"
  ad_action_id :: "string option"
  ad_evidence_required :: bool
  ad_audit_error :: "string option"

datatype ledger_result = LrBlocked | LrDecisionAllowed | LrDraft | LrSubmitted | LrConfirmed

record ledger_entry =
  le_id :: string
  le_time :: string
  le_mode :: string
  le_opportunity :: string
  le_tag :: reversibility
  le_evidence_gate :: bool
  le_approval_required :: bool
  le_approval_received :: bool
  le_high_stakes_gate :: bool
  le_result :: ledger_result
  le_blocked_by :: "string option"
  le_evidence :: "string option"

section \<open>The values that are hashed and signed\<close>

definition packet_claim_json :: "packet_claim \<Rightarrow> json" where
  "packet_claim_json c = JObj [(''claimId'', JStr (pc_id c)), (''text'', JStr (pc_text c)),
     (''sourceClaimTextHash'', JStr (pc_hash c)), (''evidenceStatus'', JStr (evidence_str (pc_status c))),
     (''sourcePointer'', JStr (pc_pointer c)), (''publiclyAssertable'', JBool (pc_public c))]"

definition document_json :: "packet_document \<Rightarrow> json" where
  "document_json d = JObj [(''kind'', JStr (document_kind_str (pd_kind d))), (''path'', JStr (pd_path d)),
     (''contentHash'', JStr (pd_hash d))]"

definition packet_members :: "packet \<Rightarrow> (string \<times> json) list" where
  "packet_members p = [(''opportunityId'', JStr (pk_opportunity p)),
     (''claims'', JArr (map packet_claim_json (pk_claims p))),
     (''documents'', JArr (map document_json (pk_documents p))),
     (''tosCompliant'', JBool (pk_tos p)), (''generatedAt'', JStr (pk_generated_at p)),
     (''approvalRequired'', JBool (pk_approval_required p))]"

definition packet_json :: "packet \<Rightarrow> json" where
  "packet_json p = JObj (packet_members p @ [(''packetHash'', JStr (pk_hash p))])"

definition unsigned_approval_members :: "approval \<Rightarrow> (string \<times> json) list" where
  "unsigned_approval_members a = [(''approvalId'', JStr (ap_id a)),
     (''operation'', JStr (operation_str (ap_operation a))), (''approvedBy'', JStr (ap_by a)),
     (''keyId'', JStr (ap_key a)), (''approvedAt'', JStr (ap_at a)), (''expiresAt'', JStr (ap_expires a)),
     (''approvalTextHash'', JStr (ap_text_hash a)), (''opportunityId'', JStr (ap_opportunity a)),
     (''packetHash'', JStr (ap_packet a)), (''adapterId'', JStr (ap_adapter a)),
     (''actionIntentHash'', JStr (ap_intent a)), (''allowedFields'', jstrs (ap_fields a))]"

definition approval_json :: "approval \<Rightarrow> json" where
  "approval_json a = JObj (unsigned_approval_members a @
     [(''signatureAlgorithm'', JStr (ap_algorithm a)), (''signature'', JStr (ap_signature a))])"

fun apply_mode_str :: "apply_mode \<Rightarrow> string" where
  "apply_mode_str Manual = ''manual''"
| "apply_mode_str DraftOnly = ''draft-only''"
| "apply_mode_str Auto = ''auto''"

definition config_json :: "auto_apply_config \<Rightarrow> json" where
  "config_json c = JObj [(''enabled'', JBool (cf_enabled c)), (''mode'', JStr (apply_mode_str (cf_mode c))),
     (''killSwitch'', JObj [(''available'', JBool (ks_available (cf_kill c))),
        (''engaged'', JBool (ks_engaged (cf_kill c))), (''engagedAt'', jopt JStr (ks_engaged_at (cf_kill c))),
        (''engagedBy'', jopt JStr (ks_engaged_by (cf_kill c))), (''reason'', jopt JStr (ks_reason (cf_kill c)))]),
     (''rateLimit'', JObj [(''maxPerDay'', JNum (cf_max_per_day c)),
        (''cooldownUntil'', jopt JStr (cf_cooldown_until c))]),
     (''adapterAllowlist'', jstrs (cf_adapters c)),
     (''perOpportunity'', JObj (map (\<lambda>(k, x). (k, JObj [(''mode'', jopt (\<lambda>m. JStr (apply_mode_str m)) (po_mode x)),
        (''excluded'', jopt JBool (po_excluded x))])) (cf_per_opportunity c))),
     (''exclusionRules'', jstrs (cf_exclusions c))]"

fun ledger_result_str :: "ledger_result \<Rightarrow> string" where
  "ledger_result_str LrBlocked = ''blocked''"
| "ledger_result_str LrDecisionAllowed = ''decision_allowed''"
| "ledger_result_str LrDraft = ''draft_generated''"
| "ledger_result_str LrSubmitted = ''submitted''"
| "ledger_result_str LrConfirmed = ''confirmed''"

definition ledger_entry_json :: "ledger_entry \<Rightarrow> json" where
  "ledger_entry_json e = JObj [(''actionId'', JStr (le_id e)), (''timestamp'', JStr (le_time e)),
     (''mode'', JStr (le_mode e)), (''opportunityId'', JStr (le_opportunity e)),
     (''reversibilityTag'', JStr (reversibility_str (le_tag e))),
     (''evidenceGatePassed'', JBool (le_evidence_gate e)), (''approvalRequired'', JBool (le_approval_required e)),
     (''approvalReceived'', JBool (le_approval_received e)),
     (''highStakesGatePassed'', JBool (le_high_stakes_gate e)),
     (''result'', JStr (ledger_result_str (le_result e))), (''blockedBy'', jopt JStr (le_blocked_by e)),
     (''confirmationEvidencePointer'', jopt JStr (le_evidence e))]"

lemma evidence_str_inj [simp]: "evidence_str a = evidence_str b \<longleftrightarrow> a = b"
  by (cases a; cases b) auto

lemma reversibility_str_inj [simp]: "reversibility_str a = reversibility_str b \<longleftrightarrow> a = b"
  by (cases a; cases b) auto

lemma document_kind_str_inj [simp]: "document_kind_str a = document_kind_str b \<longleftrightarrow> a = b"
  by (cases a; cases b) auto

lemma operation_str_inj [simp]: "operation_str a = operation_str b \<longleftrightarrow> a = b"
  by (cases a; cases b) auto

end
