(* ===== verification/Hash.thy ===== *)
theory Hash
  imports Types
begin

text \<open>
  The digests of src/src/hash.ts: the normal form of a claim text, the digest of a claim, of an
  application packet and of an action intent. \<open>normalizeClaimText_words\<close> is the functional
  specification of the normal form; \<open>computePacketHash_binds\<close> and
  \<open>computeActionIntentHash_binds\<close> say what a digest fixes.
\<close>

definition normalizeClaimText :: "string \<Rightarrow> string" where
  "normalizeClaimText t = collapse_ws (trim t)"

definition computeClaimTextHash :: "platform \<Rightarrow> string \<Rightarrow> string" where
  "computeClaimTextHash P t = sha256 P (normalizeClaimText t)"

definition canonicalPacketForHash :: "packet \<Rightarrow> json" where
  "canonicalPacketForHash p = JObj (packet_members p)"

definition computePacketHash :: "platform \<Rightarrow> packet \<Rightarrow> string" where
  "computePacketHash P p = hash_json P (canonicalPacketForHash p)"

record intent_binding =
  ib_operation :: operation
  ib_opportunity :: string
  ib_packet :: string
  ib_adapter :: string
  ib_tag :: reversibility
  ib_attempt :: "string option"

definition intent_json :: "intent_binding \<Rightarrow> json" where
  "intent_json b = JObj [(''operation'', JStr (operation_str (ib_operation b))),
     (''opportunityId'', JStr (ib_opportunity b)), (''packetHash'', JStr (ib_packet b)),
     (''adapterId'', JStr (ib_adapter b)), (''reversibilityTag'', JStr (reversibility_str (ib_tag b))),
     (''attemptId'', jopt JStr (ib_attempt b))]"

definition computeActionIntentHash :: "platform \<Rightarrow> intent_binding \<Rightarrow> string" where
  "computeActionIntentHash P b = hash_json P (intent_json b)"

section \<open>The normal form of a claim text\<close>

text \<open>The words of a text: its maximal runs of characters that are not white space.\<close>

fun split_ws :: "string \<Rightarrow> string list" where
  "split_ws [] = [[]]"
| "split_ws (c # s) = (if is_ws c then [] # split_ws s
     else (case split_ws s of [] \<Rightarrow> [[c]] | w # ws \<Rightarrow> (c # w) # ws))"

definition words :: "string \<Rightarrow> string list" where
  "words s = filter (\<lambda>w. w \<noteq> []) (split_ws s)"

lemma split_ws_nonempty [simp]: "split_ws s \<noteq> []"
  by (cases s) (auto split: list.splits)

lemma words_ws [simp]: "is_ws c \<Longrightarrow> words (c # s) = words s"
  by (simp add: words_def)

lemma words_Nil [simp]: "words [] = []"
  by (simp add: words_def)

lemma split_ws_snoc: "is_ws c \<Longrightarrow> split_ws (s @ [c]) = split_ws s @ [[]]"
proof (induction s)
  case (Cons d s)
  then show ?case by (cases "split_ws s") auto
qed simp

lemma words_snoc [simp]: "is_ws c \<Longrightarrow> words (s @ [c]) = words s"
  by (simp add: words_def split_ws_snoc)

lemma words_trim_left [simp]: "words (trim_left s) = words s"
  by (induction s) (auto simp: trim_left_def)

lemma words_trim_right: "words (rev (trim_left (rev s))) = words s"
  by (induction s rule: rev_induct) (auto simp: trim_left_def)

lemma words_trim [simp]: "words (trim s) = words s"
  by (simp add: trim_def words_trim_right)

lemma words_not_ws: "w \<in> set (words s) \<Longrightarrow> w \<noteq> [] \<and> list_all (\<lambda>c. \<not> is_ws c) w"
proof -
  have "list_all (\<lambda>w. list_all (\<lambda>c. \<not> is_ws c) w) (split_ws s)"
    by (induction s) (auto split: list.splits)
  then show "w \<in> set (words s) \<Longrightarrow> w \<noteq> [] \<and> list_all (\<lambda>c. \<not> is_ws c) w"
    by (auto simp: words_def list_all_iff)
qed

lemma split_ws_single: "list_all (\<lambda>c. \<not> is_ws c) w \<Longrightarrow> split_ws w = [w]"
  by (induction w) auto

lemma words_Cons:
  "\<not> is_ws c \<Longrightarrow> s = [] \<or> is_ws (hd s) \<Longrightarrow> words (c # s) = [c] # words s"
  by (cases s) (auto simp: words_def split: list.splits)

lemma words_Cons_Cons:
  assumes "\<not> is_ws c" and "\<not> is_ws d"
  shows "\<exists>w ws. words (d # s) = w # ws \<and> words (c # d # s) = (c # w) # ws"
  using assms by (cases "split_ws s") (auto simp: words_def)

lemma words_eq_Nil: "words s = [] \<longleftrightarrow> list_all is_ws s"
proof (induction s)
  case (Cons c s)
  then show ?case
    by (cases "is_ws c"; cases "split_ws s") (auto simp: words_def)
qed simp

lemma collapse_words:
  "s = [] \<or> \<not> is_ws (last s) \<Longrightarrow>
   collapse_ws s = (if s \<noteq> [] \<and> is_ws (hd s) then '' '' else []) @ joins '' '' (words s)"
proof (induction s rule: collapse_ws.induct)
  case (2 c)
  then show ?case by (simp add: words_def)
next
  case (3 c d s)
  have IH: "collapse_ws (d # s) = (if is_ws d then '' '' else []) @ joins '' '' (words (d # s))"
    using 3 by (cases "is_ws c"; cases "is_ws d") auto
  have "\<not> list_all is_ws (d # s)"
    using "3.prems" last_in_set [of "d # s"] by (auto simp: list_all_iff)
  then obtain w ws where w: "words (d # s) = w # ws"
    by (metis words_eq_Nil list.exhaust)
  show ?case
  proof (cases "is_ws c")
    case True
    then show ?thesis using IH by (cases "is_ws d") auto
  next
    case False
    show ?thesis
    proof (cases "is_ws d")
      case True
      with False IH w show ?thesis by (simp add: words_Cons del: words_ws)
    next
      case d: False
      obtain w' ws' where "words (d # s) = w' # ws'" "words (c # d # s) = (c # w') # ws'"
        using words_Cons_Cons [OF False d] by blast
      with False d IH show ?thesis by (cases ws') auto
    qed
  qed
qed simp

lemma trim_left_hd: "trim_left s = [] \<or> \<not> is_ws (hd (trim_left s))"
  unfolding trim_left_def using hd_dropWhile [of is_ws s] by blast

lemma trim_ends: "trim s = [] \<or> \<not> is_ws (hd (trim s)) \<and> \<not> is_ws (last (trim s))"
proof (cases "trim s = []")
  case False
  let ?l = "trim_left s"
  have last: "\<not> is_ws (last (trim s))"
    using False trim_left_hd [of "rev ?l"] by (simp add: trim_def last_rev)
  have "rev (trim_left (rev ?l)) = trim s" by (simp add: trim_def)
  moreover obtain ys where "rev ?l = ys @ trim_left (rev ?l)"
    unfolding trim_left_def [of "rev ?l"] by (metis takeWhile_dropWhile_id)
  ultimately have pre: "?l = trim s @ rev ys"
    by (metis rev_append rev_rev_ident)
  then have "hd ?l = hd (trim s)" "?l \<noteq> []" using False by (simp_all add: hd_append)
  with trim_left_hd [of s] last show ?thesis by auto
qed simp

lemma normalize_joins_words: "normalizeClaimText t = joins '' '' (words t)"
proof -
  have "collapse_ws (trim t) = (if trim t \<noteq> [] \<and> is_ws (hd (trim t)) then '' '' else []) @ joins '' '' (words (trim t))"
    by (rule collapse_words) (use trim_ends in blast)
  then show ?thesis using trim_ends [of t] by (auto simp: normalizeClaimText_def)
qed

lemma words_word: "list_all (\<lambda>c. \<not> is_ws c) w \<Longrightarrow> w \<noteq> [] \<Longrightarrow> words w = [w]"
  by (simp add: words_def split_ws_single)

lemma words_append_space:
  "list_all (\<lambda>c. \<not> is_ws c) w \<Longrightarrow> w \<noteq> [] \<Longrightarrow> words (w @ CHR '' '' # s) = w # words s"
proof -
  assume w: "list_all (\<lambda>c. \<not> is_ws c) w" "w \<noteq> []"
  have "split_ws (w @ CHR '' '' # s) = w # split_ws s"
    using w(1) by (induction w) (auto simp: is_ws_def)
  with w show ?thesis by (simp add: words_def)
qed

lemma words_joins:
  "\<forall>w \<in> set ws. w \<noteq> [] \<and> list_all (\<lambda>c. \<not> is_ws c) w \<Longrightarrow> words (joins '' '' ws) = ws"
proof (induction ws rule: induct_list012)
  case (2 w)
  then show ?case by (simp add: words_word)
next
  case (3 v w ws)
  then show ?case by (simp add: words_append_space)
qed simp

lemma normalize_eq_iff: "normalizeClaimText s = normalizeClaimText t \<longleftrightarrow> words s = words t"
  by (metis normalize_joins_words words_joins words_not_ws)

section \<open>What a digest binds\<close>

lemma canon_JStr_iff [simp]: "canon ck (JStr s) = canon ck (JStr t) \<longleftrightarrow> s = t"
  by simp

lemma canon_jstrs_iff [simp]: "canon ck (jstrs xs) = canon ck (jstrs ys) \<longleftrightarrow> xs = ys"
  by (simp only: jstrs_def canon_arr_eq list_all2_map1 list_all2_map2 canon_JStr_iff list_all2_eq [symmetric])

lemma canon_jopt_JStr_iff [simp]: "canon ck (jopt JStr x) = canon ck (jopt JStr y) \<longleftrightarrow> x = y"
  by (auto simp: jopt_def split: option.splits)

lemma packet_claim_json_inj:
  "canon ck (packet_claim_json c) = canon ck (packet_claim_json d) \<longleftrightarrow> c = d"
proof
  assume "canon ck (packet_claim_json c) = canon ck (packet_claim_json d)"
  then have "list_all2 (\<lambda>e f. canon ck (snd e) = canon ck (snd f))
      [(''claimId'', JStr (pc_id c)), (''text'', JStr (pc_text c)),
     (''sourceClaimTextHash'', JStr (pc_hash c)), (''evidenceStatus'', JStr (evidence_str (pc_status c))),
     (''sourcePointer'', JStr (pc_pointer c)), (''publiclyAssertable'', JBool (pc_public c))]
      [(''claimId'', JStr (pc_id d)), (''text'', JStr (pc_text d)),
     (''sourceClaimTextHash'', JStr (pc_hash d)), (''evidenceStatus'', JStr (evidence_str (pc_status d))),
     (''sourcePointer'', JStr (pc_pointer d)), (''publiclyAssertable'', JBool (pc_public d))]"
    unfolding packet_claim_json_def by (rule canon_obj_eq) simp_all
  then show "c = d" by (simp add: packet_claim.equality)
qed simp

lemma document_json_inj: "canon ck (document_json c) = canon ck (document_json d) \<longleftrightarrow> c = d"
proof
  assume "canon ck (document_json c) = canon ck (document_json d)"
  then have "list_all2 (\<lambda>e f. canon ck (snd e) = canon ck (snd f))
     [(''kind'', JStr (document_kind_str (pd_kind c))), (''path'', JStr (pd_path c)), (''contentHash'', JStr (pd_hash c))]
     [(''kind'', JStr (document_kind_str (pd_kind d))), (''path'', JStr (pd_path d)), (''contentHash'', JStr (pd_hash d))]"
    unfolding document_json_def by (rule canon_obj_eq) simp_all
  then show "c = d" by (simp add: packet_document.equality)
qed simp

lemma canon_arr_inj:
  assumes "\<And>x y. canon ck (f x) = canon ck (f y) \<longleftrightarrow> x = y"
  shows "canon ck (JArr (map f xs)) = canon ck (JArr (map f ys)) \<longleftrightarrow> xs = ys"
  by (simp only: canon_arr_eq list_all2_map1 list_all2_map2 assms list_all2_eq [symmetric])

lemma packet_members_inj:
  assumes "canon ck (canonicalPacketForHash p) = canon ck (canonicalPacketForHash q)"
  shows "p\<lparr>pk_hash := h\<rparr> = q\<lparr>pk_hash := h\<rparr>"
proof -
  have "list_all2 (\<lambda>e f. canon ck (snd e) = canon ck (snd f)) (packet_members p) (packet_members q)"
    using assms unfolding canonicalPacketForHash_def
    by (rule canon_obj_eq) (simp_all add: packet_members_def)
  then show ?thesis
    by (simp add: packet_members_def canon_arr_inj [OF packet_claim_json_inj]
        canon_arr_inj [OF document_json_inj] packet.equality del: canon.simps(6))
qed

lemma packet_json_safe [simp]:
  "array_safe (canonicalPacketForHash p)" "canonicalPacketForHash p \<noteq> JUndef"
  by (auto simp: canonicalPacketForHash_def packet_members_def packet_claim_json_def document_json_def)

lemma intent_json_safe [simp]: "array_safe (intent_json b)" "intent_json b \<noteq> JUndef"
  by (auto simp: intent_json_def jopt_def split: option.splits)

lemma intent_json_inj: "canon ck (intent_json a) = canon ck (intent_json b) \<Longrightarrow> a = b"
proof -
  assume "canon ck (intent_json a) = canon ck (intent_json b)"
  then have "list_all2 (\<lambda>e f. canon ck (snd e) = canon ck (snd f))
     [(''operation'', JStr (operation_str (ib_operation a))), (''opportunityId'', JStr (ib_opportunity a)),
      (''packetHash'', JStr (ib_packet a)), (''adapterId'', JStr (ib_adapter a)),
      (''reversibilityTag'', JStr (reversibility_str (ib_tag a))), (''attemptId'', jopt JStr (ib_attempt a))]
     [(''operation'', JStr (operation_str (ib_operation b))), (''opportunityId'', JStr (ib_opportunity b)),
      (''packetHash'', JStr (ib_packet b)), (''adapterId'', JStr (ib_adapter b)),
      (''reversibilityTag'', JStr (reversibility_str (ib_tag b))), (''attemptId'', jopt JStr (ib_attempt b))]"
    unfolding intent_json_def by (rule canon_obj_eq) simp_all
  then show "a = b" by (simp add: intent_binding.equality)
qed

end
