(* ===== verification/Approval.thy ===== *)
theory Approval
  imports Hash
begin

text \<open>
  Signed operator approvals (src/src/approval.ts): creation, and validation against the action they
  are meant for. Validation is a list of guards, the first failing one naming what blocks.
\<close>

record approval_scope =
  as_operation :: operation
  as_opportunity :: string
  as_packet :: string
  as_adapter :: string
  as_tag :: reversibility
  as_field :: string
  as_now :: int
  as_intent :: "string option"

record approval_result =
  ar_valid :: bool
  ar_blocked_by :: "string option"
  ar_reasons :: "string list"

record trusted_approver =
  ta_by :: string
  ta_key :: string
  ta_pem :: string

record approval_draft =
  dr_id :: "string option"
  dr_operation :: operation
  dr_by :: string
  dr_key :: string
  dr_at :: string
  dr_expires :: string
  dr_text_hash :: string
  dr_opportunity :: string
  dr_packet :: string
  dr_adapter :: string
  dr_intent :: string
  dr_fields :: "string list"

definition unsignedApproval :: "approval \<Rightarrow> json" where
  "unsignedApproval a = JObj (unsigned_approval_members a)"

text \<open>The unsigned record of a draft, its two signature members still empty; \<open>uuid\<close> is the random
  identifier in upper case.\<close>

definition approval_of_draft :: "string \<Rightarrow> approval_draft \<Rightarrow> approval" where
  "approval_of_draft uuid d = \<lparr>
     ap_id = (case dr_id d of Some i \<Rightarrow> i | None \<Rightarrow> ''APR-'' @ uuid),
     ap_operation = dr_operation d, ap_by = dr_by d, ap_key = dr_key d, ap_at = dr_at d,
     ap_expires = dr_expires d, ap_text_hash = dr_text_hash d, ap_opportunity = dr_opportunity d,
     ap_packet = dr_packet d, ap_adapter = dr_adapter d, ap_intent = dr_intent d,
     ap_fields = dr_fields d, ap_algorithm = [], ap_signature = []\<rparr>"

definition createApprovalReference :: "platform \<Rightarrow> string \<Rightarrow> approval_draft \<Rightarrow> string \<Rightarrow> approval result" where
  "createApprovalReference P uuid d privateKey = (
     let unsigned = approval_of_draft uuid d;
         signature = ed25519_sign P privateKey (stable_stringify (coll_key P) (unsignedApproval unsigned));
         a = unsigned\<lparr>ap_algorithm := ''Ed25519'', ap_signature := signature\<rparr> in
     case schema_errors P ''approval-reference'' (approval_json a) of [] \<Rightarrow> Inr a
     | errs \<Rightarrow> throw (''Approval schema validation failed: '' @ joins '', '' errs))"

definition reject :: "string \<Rightarrow> string list \<Rightarrow> approval_result" where
  "reject b rs = \<lparr>ar_valid = False, ar_blocked_by = Some b, ar_reasons = rs\<rparr>"

definition expected_intent :: "platform \<Rightarrow> approval_scope \<Rightarrow> string" where
  "expected_intent P s = (case as_intent s of Some h \<Rightarrow> h | None \<Rightarrow>
     computeActionIntentHash P \<lparr>ib_operation = as_operation s, ib_opportunity = as_opportunity s,
       ib_packet = as_packet s, ib_adapter = as_adapter s, ib_tag = as_tag s, ib_attempt = None\<rparr>)"

definition find_approver :: "trusted_approver list \<Rightarrow> approval \<Rightarrow> trusted_approver option" where
  "find_approver ts a = find (\<lambda>c. ta_by c = ap_by a \<and> ta_key c = ap_key a) ts"

definition signature_ok :: "platform \<Rightarrow> approval \<Rightarrow> trusted_approver \<Rightarrow> bool" where
  "signature_ok P a t = (case ed25519_verify P (ta_pem t)
       (stable_stringify (coll_key P) (unsignedApproval a)) (ap_signature a) of
     None \<Rightarrow> False | Some v \<Rightarrow> v)"

definition validateApprovalReference ::
  "platform \<Rightarrow> approval \<Rightarrow> approval_scope \<Rightarrow> trusted_approver list \<Rightarrow> approval_result" where
  "validateApprovalReference P a s trusted = (
     let errs = schema_errors P ''approval-reference'' (approval_json a) in
     if errs \<noteq> [] then reject ''approval-invalid'' errs
     else case find_approver trusted a of
       None \<Rightarrow> reject ''approver-not-trusted'' [''approval signer is not in the trusted approver registry'']
     | Some t \<Rightarrow>
       if \<not> signature_ok P a t
       then reject ''approval-signature-invalid'' [''approval signature is invalid'']
       else let approvedAt = parse_date P (ap_at a); expiresAt = parse_date P (ap_expires a);
                now = Some (as_now s) in
       if nlt (nadd now 300000) approvedAt \<or> nle expiresAt approvedAt
       then reject ''approval-timestamp-invalid'' [''approval timestamps are inconsistent'']
       else if nle expiresAt now
       then reject ''approval-expired'' [''approval has expired'']
       else if nlt (Some 86400000) (nsub expiresAt approvedAt)
       then reject ''approval-window-too-wide'' [''approval validity must not exceed 24 hours'']
       else if ap_operation a \<noteq> as_operation s \<or> ap_opportunity a \<noteq> as_opportunity s \<or>
         ap_packet a \<noteq> as_packet s \<or> ap_adapter a \<noteq> as_adapter s \<or>
         ap_intent a \<noteq> expected_intent P s \<or> as_field s \<notin> set (ap_fields a)
       then reject ''approval-scope-mismatch'' [''approval is not bound to this action intent'']
       else \<lparr>ar_valid = True, ar_blocked_by = None, ar_reasons = []\<rparr>)"

section \<open>What a valid approval is\<close>

text \<open>The conditions of a valid approval, as one predicate.\<close>

definition approval_conditions :: "platform \<Rightarrow> approval \<Rightarrow> approval_scope \<Rightarrow> trusted_approver list \<Rightarrow> bool" where
  "approval_conditions P a s trusted = (
     schema_errors P ''approval-reference'' (approval_json a) = [] \<and>
     (case find_approver trusted a of None \<Rightarrow> False | Some t \<Rightarrow> signature_ok P a t) \<and>
     (let approvedAt = parse_date P (ap_at a); expiresAt = parse_date P (ap_expires a) in
       \<not> nlt (Some (as_now s + 300000)) approvedAt \<and> \<not> nle expiresAt approvedAt \<and>
       \<not> nle expiresAt (Some (as_now s)) \<and> \<not> nlt (Some 86400000) (nsub expiresAt approvedAt)) \<and>
     ap_operation a = as_operation s \<and> ap_opportunity a = as_opportunity s \<and>
     ap_packet a = as_packet s \<and> ap_adapter a = as_adapter s \<and>
     ap_intent a = expected_intent P s \<and> as_field s \<in> set (ap_fields a))"

lemma reject_simps [simp]: "ar_valid (reject b rs) = False" "ar_blocked_by (reject b rs) = Some b"
  "ar_reasons (reject b rs) = rs"
  by (simp_all add: reject_def)

lemma approval_valid_iff:
  "ar_valid (validateApprovalReference P a s trusted) \<longleftrightarrow> approval_conditions P a s trusted"
  by (simp add: validateApprovalReference_def approval_conditions_def Let_def split: option.split)

lemma approval_invalid_blocked:
  "\<not> ar_valid (validateApprovalReference P a s trusted) \<Longrightarrow>
   ar_blocked_by (validateApprovalReference P a s trusted) \<noteq> None"
  by (auto simp: validateApprovalReference_def Let_def split: option.splits if_splits)

lemma unsigned_of_signed:
  "unsignedApproval (a\<lparr>ap_algorithm := x, ap_signature := y\<rparr>) = unsignedApproval a"
  by (simp add: unsignedApproval_def unsigned_approval_members_def)

lemma approval_times:
  assumes "ar_valid (validateApprovalReference P a s trusted)"
    and "parse_date P (ap_at a) = Some t0" and "parse_date P (ap_expires a) = Some t1"
  shows "t0 \<le> as_now s + 300000 \<and> as_now s < t1 \<and> t0 < t1 \<and> t1 \<le> t0 + 86400000"
  using assms by (auto simp: approval_valid_iff approval_conditions_def)

lemma approval_scope_of_valid:
  assumes "ar_valid (validateApprovalReference P a s trusted)"
  shows "as_operation s = ap_operation a \<and> as_opportunity s = ap_opportunity a \<and>
    as_packet s = ap_packet a \<and> as_adapter s = ap_adapter a \<and> expected_intent P s = ap_intent a"
  using assms by (auto simp: approval_valid_iff approval_conditions_def)

lemma expected_intent_now [simp]: "expected_intent P (s\<lparr>as_now := n\<rparr>) = expected_intent P s"
  by (cases "as_intent s") (simp_all add: expected_intent_def)

lemma same_intent:
  assumes "computeActionIntentHash P b = computeActionIntentHash P c"
  shows "b = c \<or> sha_collision P (stable_stringify (coll_key P) (intent_json b))
    (stable_stringify (coll_key P) (intent_json c))"
  using hash_json_eq [OF assms [unfolded computeActionIntentHash_def]] intent_json_inj by auto

section \<open>Sample values\<close>

definition sample_draft :: approval_draft where
  "sample_draft = \<lparr>dr_id = Some ''APR-1'', dr_operation = OpAutoApply, dr_by = ''ada'', dr_key = ''KEY-1'',
     dr_at = ''2026-01-01T00:00:00.000Z'', dr_expires = ''2026-01-02T00:00:00.000Z'', dr_text_hash = ''t'',
     dr_opportunity = ''OPP-1'', dr_packet = ''h'', dr_adapter = ''local-fixture'', dr_intent = ''i'',
     dr_fields = [''application-packet'']\<rparr>"

definition sample_approval :: approval where
  "sample_approval = (let a = approval_of_draft ''X'' sample_draft in
     a\<lparr>ap_algorithm := ''Ed25519'',
       ap_signature := ed25519_sign sample_platform ''k'' (stable_stringify (\<lambda>s. s) (unsignedApproval a))\<rparr>)"

definition sample_approvers :: "trusted_approver list" where
  "sample_approvers = [\<lparr>ta_by = ''ada'', ta_key = ''KEY-1'', ta_pem = ''k''\<rparr>]"

text \<open>The scope of the sample approval at a moment, its intent digest given or left to be computed.\<close>

definition sample_scope :: "string option \<Rightarrow> int \<Rightarrow> approval_scope" where
  "sample_scope i n = \<lparr>as_operation = OpAutoApply, as_opportunity = ''OPP-1'', as_packet = ''h'',
     as_adapter = ''local-fixture'', as_tag = R2, as_field = ''application-packet'', as_now = n, as_intent = i\<rparr>"

definition sign_as :: "string \<Rightarrow> approval \<Rightarrow> approval" where
  "sign_as k a = a\<lparr>ap_signature := ed25519_sign sample_platform k (stable_stringify (\<lambda>s. s) (unsignedApproval a))\<rparr>"

section \<open>Properties\<close>

text \<open>an approval whose two timestamps are dates is accepted only inside a bounded window: any two
  moments at which the same approval is accepted, for whatever scope and approver registry, are less
  than 24 hours and 5 minutes apart.\<close>

lemma approval_window_bounded:
  assumes "parse_date P (ap_at a) = Some t0" and "parse_date P (ap_expires a) = Some t1"
    and "ar_valid (validateApprovalReference P a s trusted)"
    and "ar_valid (validateApprovalReference P a s' trusted')"
  shows "\<bar>as_now s - as_now s'\<bar> < 86400000 + 300000"
  using approval_times [OF assms(3,1,2)] approval_times [OF assms(4,1,2)] by linarith


text \<open>an approval created with a registered key is accepted for the action it was drafted for. The
  only assumption about the cryptography is that the registered public key verifies what the private
  key signs; schema, times and scope are those of the draft.\<close>

lemma created_approval_accepted:
  assumes "createApprovalReference P uuid d sk = Inr a"
    and "find_approver trusted a = Some t"
    and "\<And>m. ed25519_verify P (ta_pem t) m (ed25519_sign P sk m) = Some True"
    and "parse_date P (dr_at d) = Some t0" and "parse_date P (dr_expires d) = Some t1"
    and "t0 \<le> now + 300000" and "now < t1" and "t0 < t1" and "t1 \<le> t0 + 86400000"
    and "f \<in> set (dr_fields d)"
  shows "validateApprovalReference P a \<lparr>as_operation = dr_operation d, as_opportunity = dr_opportunity d,
      as_packet = dr_packet d, as_adapter = dr_adapter d, as_tag = tag, as_field = f, as_now = now,
      as_intent = Some (dr_intent d)\<rparr> trusted
    = \<lparr>ar_valid = True, ar_blocked_by = None, ar_reasons = []\<rparr>"
proof -
  let ?sig = "ed25519_sign P sk (stable_stringify (coll_key P) (unsignedApproval (approval_of_draft uuid d)))"
  have a: "a = (approval_of_draft uuid d)\<lparr>ap_algorithm := ''Ed25519'', ap_signature := ?sig\<rparr>"
    and schema: "schema_errors P ''approval-reference'' (approval_json a) = []"
    using assms(1) by (auto simp: createApprovalReference_def Let_def split: list.splits)
  have "unsignedApproval a = unsignedApproval (approval_of_draft uuid d)"
    by (simp add: a unsigned_of_signed)
  then have "signature_ok P a t" using assms(3) by (simp add: signature_ok_def a)
  moreover have "ap_at a = dr_at d" "ap_expires a = dr_expires d" "ap_operation a = dr_operation d"
    "ap_opportunity a = dr_opportunity d" "ap_packet a = dr_packet d" "ap_adapter a = dr_adapter d"
    "ap_intent a = dr_intent d" "ap_fields a = dr_fields d"
    by (simp_all add: a approval_of_draft_def)
  ultimately show ?thesis
    using assms schema by (simp add: validateApprovalReference_def expected_intent_def Let_def)
qed

text \<open>C6: a signed approval is bound to one action. If it is accepted for two scopes that do not carry an
  intent digest of their own, the scopes agree in operation, opportunity, packet digest, adapter and
  reversibility tag, or two intent texts with one SHA-256 digest have been exhibited.\<close>

theorem approval_binds_action:
  assumes "ar_valid (validateApprovalReference P a s trusted)" and "as_intent s = None"
    and "ar_valid (validateApprovalReference P a s' trusted')" and "as_intent s' = None"
  shows "(as_operation s = as_operation s' \<and> as_opportunity s = as_opportunity s' \<and> as_packet s = as_packet s' \<and>
     as_adapter s = as_adapter s' \<and> as_tag s = as_tag s') \<or> (\<exists>x y. sha_collision P x y)"
proof -
  let ?b = "\<lambda>s. \<lparr>ib_operation = as_operation s, ib_opportunity = as_opportunity s, ib_packet = as_packet s,
      ib_adapter = as_adapter s, ib_tag = as_tag s, ib_attempt = None\<rparr>"
  have "expected_intent P s = expected_intent P s'"
    using approval_scope_of_valid [OF assms(1)] approval_scope_of_valid [OF assms(3)] by simp
  then have "computeActionIntentHash P (?b s) = computeActionIntentHash P (?b s')"
    using assms(2,4) by (simp add: expected_intent_def)
  from same_intent [OF this] show ?thesis by auto
qed

text \<open>C7: the time guards do not hold an approval whose expiry is not a date for \<open>Date.parse\<close> (the schema
  format admits a leap second, which \<open>Date.parse\<close> reads as NaN): accepted once, it is accepted at
  every later moment, so neither the expiry nor the 24 hour limit applies to it.\<close>

theorem approval_nan_expiry_never_expires:
  assumes "parse_date P (ap_expires a) = None"
    and "ar_valid (validateApprovalReference P a s trusted)" and "as_now s \<le> later"
  shows "ar_valid (validateApprovalReference P a (s\<lparr>as_now := later\<rparr>) trusted)"
proof -
  have "\<not> nlt (Some (later + 300000)) (parse_date P (ap_at a))"
    using assms by (cases "parse_date P (ap_at a)") (auto simp: approval_valid_iff approval_conditions_def)
  then show ?thesis
    using assms by (auto simp: approval_valid_iff approval_conditions_def)
qed

section \<open>Witnesses\<close>

definition sample_intent_approval :: approval where
  "sample_intent_approval = sign_as ''k'' (sample_approval
     \<lparr>ap_intent := expected_intent sample_platform (sample_scope None 0)\<rparr>)"

lemma sign_as_facts [simp]:
  "unsignedApproval (sign_as k a) = unsignedApproval a"
  "ap_signature (sign_as k a) = k @ '':'' @ stable_stringify (\<lambda>s. s) (unsignedApproval a)"
  "ap_by (sign_as k a) = ap_by a" "ap_key (sign_as k a) = ap_key a" "ap_at (sign_as k a) = ap_at a"
  "ap_expires (sign_as k a) = ap_expires a" "ap_operation (sign_as k a) = ap_operation a"
  "ap_opportunity (sign_as k a) = ap_opportunity a" "ap_packet (sign_as k a) = ap_packet a"
  "ap_adapter (sign_as k a) = ap_adapter a" "ap_intent (sign_as k a) = ap_intent a"
  "ap_fields (sign_as k a) = ap_fields a"
  by (simp_all add: sign_as_def sample_platform_def unsignedApproval_def unsigned_approval_members_def)

lemma sample_approval_facts [simp]:
  "ap_by sample_approval = ''ada''" "ap_key sample_approval = ''KEY-1''"
  "ap_at sample_approval = ''2026-01-01T00:00:00.000Z''" "ap_expires sample_approval = ''2026-01-02T00:00:00.000Z''"
  "ap_operation sample_approval = OpAutoApply" "ap_opportunity sample_approval = ''OPP-1''"
  "ap_adapter sample_approval = ''local-fixture''" "ap_fields sample_approval = [''application-packet'']"
  "ap_packet sample_approval = ''h''" "ap_intent sample_approval = ''i''"
  by (simp_all add: sample_approval_def approval_of_draft_def sample_draft_def Let_def)

lemma sample_dates [simp]:
  "parse_date sample_platform ''2026-01-01T00:00:00.000Z'' = Some 1767225600000"
  "parse_date sample_platform ''2026-01-02T00:00:00.000Z'' = Some 1767312000000"
  by code_simp+

lemma sample_schema [simp]: "schema_errors sample_platform n j = []"
  by (simp add: sample_platform_def)

lemma sample_key [simp]: "coll_key sample_platform = (\<lambda>s. s)"
  by (simp add: sample_platform_def)

lemma sample_verify [simp]: "ed25519_verify sample_platform k m s = Some (s = k @ '':'' @ m)"
  by (simp add: sample_platform_def)

lemma sample_intent_valid:
  assumes "n \<in> {1767225600001, 1767225600002}"
  shows "ar_valid (validateApprovalReference sample_platform sample_intent_approval (sample_scope None n) sample_approvers)"
  using assms by (auto simp: approval_valid_iff approval_conditions_def sample_intent_approval_def find_approver_def sample_approvers_def
      signature_ok_def sample_scope_def expected_intent_def)

theorem approval_binds_action_witness:
  "as_tag (sample_scope None 1767225600001) = as_tag (sample_scope None 1767225600002) \<or>
   (\<exists>x y. sha_collision sample_platform x y)"
  using approval_binds_action [OF sample_intent_valid _ sample_intent_valid, of 1767225600001 1767225600002] by (simp add: sample_scope_def)

definition leap_approval :: approval where
  "leap_approval = sign_as ''k'' (sample_approval\<lparr>ap_expires := ''2026-12-31T23:59:60.000Z''\<rparr>)"

lemma leap_date: "parse_date sample_platform ''2026-12-31T23:59:60.000Z'' = None"
  by code_simp

theorem approval_nan_expiry_never_expires_witness:
  "ar_valid (validateApprovalReference sample_platform leap_approval
     ((sample_scope (Some ''i'') 1767225600001)\<lparr>as_now := 4102444800000\<rparr>) sample_approvers)"
  by (rule approval_nan_expiry_never_expires)
    (simp_all add: leap_date approval_valid_iff approval_conditions_def leap_approval_def find_approver_def sample_approvers_def
      signature_ok_def sample_scope_def expected_intent_def)

end
