(* ===== verification/ClaimGraph.thy ===== *)
theory ClaimGraph
  imports Hash
begin

text \<open>
  The claim graph and the application packet (src/src/claim-graph.ts): recency of a claim, validation
  of the graph, of a packet against the graph, and of the packet's documents on disk. Paths are POSIX
  paths; the file system is a parameter (existence, \<open>realpath\<close>, file test, content).
\<close>

section \<open>Paths\<close>

definition is_absolute :: "string \<Rightarrow> bool" where
  "is_absolute p = starts_with ''/'' p"

fun norm_segs :: "string list \<Rightarrow> string list \<Rightarrow> string list" where
  "norm_segs acc [] = rev acc"
| "norm_segs acc (s # ss) = (if s = [] \<or> s = ''.'' then norm_segs acc ss
     else if s = ''..'' then norm_segs (drop 1 acc) ss
     else norm_segs (s # acc) ss)"

text \<open>\<open>path.resolve(p)\<close> as the list of its segments, relative to the directory \<open>cwd\<close>.\<close>

definition path_resolve :: "string list \<Rightarrow> string \<Rightarrow> string list" where
  "path_resolve cwd p = norm_segs (if is_absolute p then [] else rev cwd) (split_on CHR ''/'' p)"

definition path_str :: "string list \<Rightarrow> string" where
  "path_str ss = ''/'' @ joins ''/'' ss"

fun strip_common :: "string list \<Rightarrow> string list \<Rightarrow> string list \<times> string list" where
  "strip_common (a # as) (b # bs) = (if a = b then strip_common as bs else (a # as, b # bs))"
| "strip_common as bs = (as, bs)"

text \<open>\<open>path.relative\<close> of two resolved paths.\<close>

definition path_relative :: "string list \<Rightarrow> string list \<Rightarrow> string" where
  "path_relative from to = (case strip_common from to of (up, down) \<Rightarrow>
     joins ''/'' (replicate (length up) ''..'' @ down))"

definition isWithinRoot :: "string list \<Rightarrow> string list \<Rightarrow> bool" where
  "isWithinRoot root candidate = (let r = path_relative root candidate in
     r = [] \<or> (\<not> starts_with ''..'' r \<and> \<not> is_absolute r))"

section \<open>The file system\<close>

text \<open>The file system during one call. A path that exists stays readable while it is checked: the errors that
  \<open>realpathSync\<close>, \<open>statSync\<close> and the read throw when it vanishes in between are not modelled.\<close>

record file_system =
  fs_cwd :: "string list"
  fs_exists :: "string list \<Rightarrow> bool"
  fs_realpath :: "string list \<Rightarrow> string list"
  fs_is_file :: "string list \<Rightarrow> bool"
  fs_content :: "string list \<Rightarrow> string"

section \<open>Claims\<close>

record validation_result =
  vr_valid :: bool
  vr_reasons :: "string list"

definition mk_result :: "string list \<Rightarrow> validation_result" where
  "mk_result rs = \<lparr>vr_valid = (rs = []), vr_reasons = rs\<rparr>"

fun recency_str :: "recency_policy \<Rightarrow> string" where
  "recency_str JobLiveness = ''job-liveness''"
| "recency_str SalaryMarket = ''salary-market''"
| "recency_str LegalRegulatory = ''legal-regulatory''"
| "recency_str OrganizationContact = ''organization-contact''"
| "recency_str CredentialStatus = ''credential-status''"

fun max_age_days :: "recency_policy \<Rightarrow> int" where
  "max_age_days JobLiveness = 3"
| "max_age_days SalaryMarket = 30"
| "max_age_days LegalRegulatory = 30"
| "max_age_days OrganizationContact = 90"
| "max_age_days CredentialStatus = 365"

text \<open>The last claim of an identifier is the one looked up.\<close>

definition indexClaims :: "claim_graph \<Rightarrow> string \<Rightarrow> claim option" where
  "indexClaims g = map_last (map (\<lambda>c. (cm_id c, c)) (cg_claims g))"

text \<open>An empty \<open>verifiedDate\<close> is falsy, like a missing one.\<close>

definition verified_date :: "claim \<Rightarrow> string option" where
  "verified_date c = (case cm_verified_date c of None \<Rightarrow> None | Some d \<Rightarrow> if d = [] then None else Some d)"

definition validateRecency :: "platform \<Rightarrow> claim \<Rightarrow> int \<Rightarrow> string list" where
  "validateRecency P c now = (
     if \<not> cm_recency_required c then []
     else if cm_status c \<noteq> EsVerified then [''current-source-required:'' @ cm_id c]
     else case verified_date c of None \<Rightarrow> [''verified-claim-missing-date:'' @ cm_id c]
     | Some d \<Rightarrow> (case cm_recency_policy c of None \<Rightarrow> [''recency-policy-missing:'' @ cm_id c]
     | Some pol \<Rightarrow> (case parse_date P (d @ ''T00:00:00.000Z'') of None \<Rightarrow> [''verified-date-invalid:'' @ cm_id c]
     | Some v \<Rightarrow>
       if now - v < - 86400000 then [''verified-date-in-future:'' @ cm_id c]
       else if max_age_days pol * 86400000 < now - v
         then [''stale-evidence:'' @ cm_id c @ '':'' @ recency_str pol]
       else [])))"

definition claim_reasons :: "platform \<Rightarrow> int \<Rightarrow> string set \<Rightarrow> claim \<Rightarrow> string list" where
  "claim_reasons P now ids c =
     (if cm_id c \<in> ids then [''duplicate-claim:'' @ cm_id c] else []) @
     (if cm_hash c \<noteq> computeClaimTextHash P (cm_text c)
      then [''claim-canonical-hash-mismatch:'' @ cm_id c] else []) @
     (if cm_status c = EsVerified \<and> verified_date c = None
      then [''verified-claim-missing-date:'' @ cm_id c] else []) @
     validateRecency P c now"

fun graph_claim_reasons :: "platform \<Rightarrow> int \<Rightarrow> string set \<Rightarrow> claim list \<Rightarrow> string list" where
  "graph_claim_reasons P now ids [] = []"
| "graph_claim_reasons P now ids (c # cs) =
     claim_reasons P now ids c @ graph_claim_reasons P now (insert (cm_id c) ids) cs"

definition count_claims :: "(claim \<Rightarrow> bool) \<Rightarrow> claim list \<Rightarrow> int" where
  "count_claims p cs = int (length (filter p cs))"

section \<open>The value of a graph\<close>

fun claim_type_str :: "claim_type \<Rightarrow> string" where
  "claim_type_str CtDegree = ''degree''"
| "claim_type_str CtLicense = ''license''"
| "claim_type_str CtPublication = ''publication''"
| "claim_type_str CtAffiliation = ''affiliation''"
| "claim_type_str CtGrant = ''grant''"
| "claim_type_str CtEmployment = ''employment''"
| "claim_type_str CtCredential = ''credential''"
| "claim_type_str CtAward = ''award''"
| "claim_type_str CtSkill = ''skill''"
| "claim_type_str CtProject = ''project''"
| "claim_type_str CtOther = ''other''"

fun source_type_str :: "source_type \<Rightarrow> string" where
  "source_type_str StFile = ''file''"
| "source_type_str StUrl = ''url''"
| "source_type_str StOfficialRecord = ''official-record''"
| "source_type_str StSelfAttested = ''self-attested''"
| "source_type_str StOperatorSupplied = ''operator-supplied''"

definition claim_json :: "claim \<Rightarrow> json" where
  "claim_json c = JObj [(''claimId'', JStr (cm_id c)), (''text'', JStr (cm_text c)),
     (''canonicalTextHash'', JStr (cm_hash c)), (''claimType'', JStr (claim_type_str (cm_type c))),
     (''evidenceStatus'', JStr (evidence_str (cm_status c))),
     (''sourceType'', JStr (source_type_str (cm_source_type c))), (''sourcePointer'', JStr (cm_pointer c)),
     (''verifiedDate'', jopt JStr (cm_verified_date c)), (''recencyRequired'', JBool (cm_recency_required c)),
     (''recencyPolicyId'', jopt (\<lambda>p. JStr (recency_str p)) (cm_recency_policy c)),
     (''publiclyAssertable'', JBool (cm_public c)), (''allowedInCv'', JBool (cm_in_cv c)),
     (''allowedInOutreach'', JBool (cm_in_outreach c)), (''allowedInAutoApply'', JBool (cm_in_auto_apply c))]"

definition graph_json :: "claim_graph \<Rightarrow> json" where
  "graph_json g = JObj [(''profileId'', JStr (cg_profile g)),
     (''profileScope'', JStr (case cg_scope g of Synthetic \<Rightarrow> ''synthetic'' | LocalPrivate \<Rightarrow> ''local-private'')),
     (''generatedAt'', JStr (cg_generated_at g)), (''graphVersion'', JStr (cg_version g)),
     (''claims'', JArr (map claim_json (cg_claims g))),
     (''validationSummary'', JObj [(''verifiedClaims'', JNum (cg_verified g)),
        (''unverifiedClaims'', JNum (cg_unverified g)), (''privateClaims'', JNum (cg_private g))])]"

section \<open>Validation\<close>

definition validateClaimGraph :: "platform \<Rightarrow> claim_graph \<Rightarrow> int \<Rightarrow> validation_result result" where
  "validateClaimGraph P g now =
     bindE (assertSchema P ''claim-graph'' (graph_json g)) (\<lambda>_.
     Inr (mk_result (graph_claim_reasons P now {} (cg_claims g) @
       (if cg_verified g \<noteq> count_claims (\<lambda>c. cm_status c = EsVerified) (cg_claims g)
        then [''validation-summary-verified-count-mismatch''] else []) @
       (if cg_unverified g \<noteq> count_claims (\<lambda>c. cm_status c \<noteq> EsVerified) (cg_claims g)
        then [''validation-summary-unverified-count-mismatch''] else []) @
       (if cg_private g \<noteq> count_claims (\<lambda>c. \<not> cm_public c) (cg_claims g)
        then [''validation-summary-private-count-mismatch''] else []))))"

definition validateDocument :: "platform \<Rightarrow> file_system \<Rightarrow> packet_document \<Rightarrow> string option \<Rightarrow> string list" where
  "validateDocument P F d documentRoot = (let k = document_kind_str (pd_kind d) in
     if pd_path d = [] then [''document-path-missing:'' @ k]
     else if documentRoot = None \<or> documentRoot = Some [] then [''document-root-required:'' @ k]
     else let root = path_resolve (fs_cwd F) (the documentRoot);
              candidate = path_resolve root (pd_path d) in
     if \<not> isWithinRoot root candidate then [''document-outside-root:'' @ k]
     else if \<not> fs_exists F candidate then [''document-not-found:'' @ k]
     else let realRoot = fs_realpath F root; realCandidate = fs_realpath F candidate in
     if \<not> isWithinRoot realRoot realCandidate then [''document-outside-root:'' @ k]
     else if \<not> fs_is_file F realCandidate then [''document-not-file:'' @ k]
     else if sha256 P (fs_content F realCandidate) \<noteq> pd_hash d then [''document-hash-mismatch:'' @ k]
     else [])"

definition packet_claim_reasons :: "platform \<Rightarrow> (string \<Rightarrow> claim option) \<Rightarrow> packet_claim \<Rightarrow> string list" where
  "packet_claim_reasons P index p = (case index (pc_id p) of
     None \<Rightarrow> [''missing-claim:'' @ pc_id p]
   | Some c \<Rightarrow>
     (if normalizeClaimText (pc_text p) \<noteq> normalizeClaimText (cm_text c)
      then [''claim-text-mismatch:'' @ pc_id p] else []) @
     (if pc_hash p \<noteq> cm_hash c \<or> pc_hash p \<noteq> computeClaimTextHash P (cm_text c)
      then [''claim-text-mismatch:'' @ pc_id p] else []) @
     (if pc_status p \<noteq> EsVerified \<or> cm_status c \<noteq> EsVerified
      then [''packet-evidence-not-verified:'' @ pc_id p] else []) @
     (if \<not> pc_public p \<or> \<not> cm_public c then [''claim-not-publicly-assertable:'' @ pc_id p] else []) @
     (if \<not> cm_in_auto_apply c then [''claim-not-allowed-in-auto-apply:'' @ pc_id p] else []) @
     (if pc_pointer p \<noteq> cm_pointer c then [''claim-source-mismatch:'' @ pc_id p] else []))"

fun packet_claims_reasons :: "platform \<Rightarrow> (string \<Rightarrow> claim option) \<Rightarrow> string set \<Rightarrow> packet_claim list \<Rightarrow> string list" where
  "packet_claims_reasons P index ids [] = []"
| "packet_claims_reasons P index ids (p # ps) =
     (if pc_id p \<in> ids then [''duplicate-packet-claim:'' @ pc_id p] else []) @
     packet_claim_reasons P index p @
     packet_claims_reasons P index (insert (pc_id p) ids) ps"

definition validateApplicationPacket ::
  "platform \<Rightarrow> file_system \<Rightarrow> packet \<Rightarrow> claim_graph \<Rightarrow> int \<Rightarrow> string option \<Rightarrow> validation_result result" where
  "validateApplicationPacket P F p g now documentRoot =
     bindE (assertSchema P ''application-packet'' (packet_json p)) (\<lambda>_.
     bindE (validateClaimGraph P g now) (\<lambda>graphValidation.
     Inr (mk_result (vr_reasons graphValidation @
       (if computePacketHash P p \<noteq> pk_hash p then [''packet-hash-mismatch''] else []) @
       (if \<not> pk_tos p then [''tos-not-compliant''] else []) @
       packet_claims_reasons P (indexClaims g) {} (pk_claims p) @
       concat (map (\<lambda>d. validateDocument P F d documentRoot) (pk_documents p))))))"

definition validatePublicClaims :: "claim_graph \<Rightarrow> validation_result" where
  "validatePublicClaims g = mk_result (map (\<lambda>c. ''claim-not-publicly-assertable:'' @ cm_id c)
     (filter (\<lambda>c. \<not> cm_public c) (cg_claims g)))"

section \<open>What a valid graph and a valid packet are\<close>

text \<open>A claim that needs a current source has one: verified, dated, and no older than its policy allows.\<close>

definition claim_current :: "platform \<Rightarrow> int \<Rightarrow> claim \<Rightarrow> bool" where
  "claim_current P now c = (cm_recency_required c \<longrightarrow> cm_status c = EsVerified \<and>
     (\<exists>d pol v. verified_date c = Some d \<and> cm_recency_policy c = Some pol \<and>
       parse_date P (d @ ''T00:00:00.000Z'') = Some v \<and>
       v \<le> now + 86400000 \<and> now \<le> v + max_age_days pol * 86400000))"

definition graph_sound :: "platform \<Rightarrow> int \<Rightarrow> claim_graph \<Rightarrow> bool" where
  "graph_sound P now g = (distinct (map cm_id (cg_claims g)) \<and>
     (\<forall>c \<in> set (cg_claims g). cm_hash c = computeClaimTextHash P (cm_text c) \<and>
        (cm_status c = EsVerified \<longrightarrow> verified_date c \<noteq> None) \<and> claim_current P now c) \<and>
     cg_verified g = count_claims (\<lambda>c. cm_status c = EsVerified) (cg_claims g) \<and>
     cg_unverified g = count_claims (\<lambda>c. cm_status c \<noteq> EsVerified) (cg_claims g) \<and>
     cg_private g = count_claims (\<lambda>c. \<not> cm_public c) (cg_claims g))"

text \<open>A claim of the graph backs a claim of the packet.\<close>

definition backs :: "claim \<Rightarrow> packet_claim \<Rightarrow> bool" where
  "backs c p = (cm_id c = pc_id p \<and> words (cm_text c) = words (pc_text p) \<and> cm_hash c = pc_hash p \<and>
     cm_status c = EsVerified \<and> pc_status p = EsVerified \<and> cm_public c \<and> pc_public p \<and>
     cm_in_auto_apply c \<and> cm_pointer c = pc_pointer p)"

definition document_ok :: "platform \<Rightarrow> file_system \<Rightarrow> string option \<Rightarrow> packet_document \<Rightarrow> bool" where
  "document_ok P F root d = (validateDocument P F d root = [])"

definition packet_supported ::
  "platform \<Rightarrow> file_system \<Rightarrow> int \<Rightarrow> string option \<Rightarrow> claim_graph \<Rightarrow> packet \<Rightarrow> bool" where
  "packet_supported P F now root g p = (graph_sound P now g \<and> pk_hash p = computePacketHash P p \<and> pk_tos p \<and>
     distinct (map pc_id (pk_claims p)) \<and> (\<forall>q \<in> set (pk_claims p). \<exists>c \<in> set (cg_claims g). backs c q) \<and>
     (\<forall>d \<in> set (pk_documents p). document_ok P F root d))"

lemma mk_result_simps [simp]: "vr_valid (mk_result rs) \<longleftrightarrow> rs = []" "vr_reasons (mk_result rs) = rs"
  by (simp_all add: mk_result_def)

lemma validateRecency_Nil: "validateRecency P c now = [] \<longleftrightarrow> claim_current P now c"
  by (auto simp: validateRecency_def claim_current_def split: option.splits)

lemma claim_reasons_Nil:
  "claim_reasons P now ids c = [] \<longleftrightarrow> cm_id c \<notin> ids \<and> cm_hash c = computeClaimTextHash P (cm_text c) \<and>
     (cm_status c = EsVerified \<longrightarrow> verified_date c \<noteq> None) \<and> claim_current P now c"
  by (auto simp: claim_reasons_def validateRecency_Nil)

lemma graph_claim_reasons_Nil:
  "graph_claim_reasons P now ids cs = [] \<longleftrightarrow> distinct (map cm_id cs) \<and> cm_id ` set cs \<inter> ids = {} \<and>
     (\<forall>c \<in> set cs. cm_hash c = computeClaimTextHash P (cm_text c) \<and>
        (cm_status c = EsVerified \<longrightarrow> verified_date c \<noteq> None) \<and> claim_current P now c)"
  by (induction cs arbitrary: ids) (auto simp: claim_reasons_Nil)

lemma validateClaimGraph_valid:
  "(\<exists>r. validateClaimGraph P g now = Inr r \<and> vr_valid r) \<longleftrightarrow>
   schema_errors P ''claim-graph'' (graph_json g) = [] \<and> graph_sound P now g"
  by (auto simp: validateClaimGraph_def graph_sound_def graph_claim_reasons_Nil)

lemma indexClaims_distinct:
  assumes "distinct (map cm_id (cg_claims g))"
  shows "indexClaims g k = Some c \<longleftrightarrow> c \<in> set (cg_claims g) \<and> cm_id c = k"
proof -
  have "distinct (map fst (rev (map (\<lambda>c. (cm_id c, c)) (cg_claims g))))"
    using assms by (simp add: rev_map comp_def distinct_map)
  then show ?thesis
    by (auto simp: indexClaims_def map_last_def)
qed

lemma packet_claim_reasons_Nil:
  assumes "graph_sound P now g"
  shows "packet_claim_reasons P (indexClaims g) q = [] \<longleftrightarrow> (\<exists>c \<in> set (cg_claims g). backs c q)"
proof (cases "indexClaims g (pc_id q)")
  case None
  then show ?thesis
    using assms indexClaims_distinct [of g "pc_id q"]
    by (auto simp: packet_claim_reasons_def graph_sound_def backs_def)
next
  case (Some c)
  have d: "distinct (map cm_id (cg_claims g))" using assms by (simp add: graph_sound_def)
  have c: "c \<in> set (cg_claims g)" "cm_id c = pc_id q"
    using Some indexClaims_distinct [OF d] by auto
  then have h: "cm_hash c = computeClaimTextHash P (cm_text c)"
    using assms by (simp add: graph_sound_def)
  have "packet_claim_reasons P (indexClaims g) q = [] \<longleftrightarrow> backs c q"
    using Some c h by (auto simp: packet_claim_reasons_def backs_def normalize_eq_iff)
  moreover have "c' = c" if "c' \<in> set (cg_claims g)" "backs c' q" for c'
    using that Some indexClaims_distinct [OF d, of "pc_id q" c'] by (auto simp: backs_def)
  ultimately show ?thesis using c by blast
qed

lemma packet_claims_reasons_Nil:
  assumes "graph_sound P now g"
  shows "packet_claims_reasons P (indexClaims g) ids ps = [] \<longleftrightarrow> distinct (map pc_id ps) \<and>
    pc_id ` set ps \<inter> ids = {} \<and> (\<forall>q \<in> set ps. \<exists>c \<in> set (cg_claims g). backs c q)"
  by (induction ps arbitrary: ids) (auto simp: packet_claim_reasons_Nil [OF assms])

lemma validateApplicationPacket_iff:
  "(\<exists>r. validateApplicationPacket P F p g now root = Inr r \<and> vr_valid r) \<longleftrightarrow>
   schema_errors P ''application-packet'' (packet_json p) = [] \<and>
   schema_errors P ''claim-graph'' (graph_json g) = [] \<and> packet_supported P F now root g p"
proof (cases "\<exists>r. validateClaimGraph P g now = Inr r \<and> vr_valid r")
  case True
  then have s: "graph_sound P now g" "schema_errors P ''claim-graph'' (graph_json g) = []"
    by (simp_all add: validateClaimGraph_valid)
  obtain r where r: "validateClaimGraph P g now = Inr r" "vr_valid r" using True by blast
  then have "vr_reasons r = []" by (auto simp: validateClaimGraph_def)
  with r s show ?thesis
    by (auto simp: validateApplicationPacket_def packet_supported_def packet_claims_reasons_Nil [OF s(1)]
        document_ok_def)
next
  case False
  moreover have "\<not> (schema_errors P ''claim-graph'' (graph_json g) = [] \<and> graph_sound P now g)"
    using False by (simp add: validateClaimGraph_valid)
  moreover have "vr_reasons r \<noteq> []" if "validateClaimGraph P g now = Inr r" for r
    using False that by (auto simp: validateClaimGraph_def)
  ultimately show ?thesis
    by (auto simp: validateApplicationPacket_def packet_supported_def)
qed

section \<open>Documents stay under their root\<close>

lemma strip_common_append: "strip_common as bs = (us, ds) \<Longrightarrow> \<exists>ps. as = ps @ us \<and> bs = ps @ ds"
proof (induction as bs rule: strip_common.induct)
  case (1 a as b bs)
  show ?case
  proof (cases "a = b")
    case True
    then obtain ps where "as = ps @ us" "bs = ps @ ds" using 1 by auto
    then have "a # as = (a # ps) @ us" "b # bs = (a # ps) @ ds" using True by simp_all
    then show ?thesis by blast
  qed (use 1 in auto)
qed auto

lemma isWithinRoot_prefix: "isWithinRoot root p \<Longrightarrow> \<exists>ds. p = root @ ds"
proof -
  assume w: "isWithinRoot root p"
  obtain us ds where s: "strip_common root p = (us, ds)" by fastforce
  then obtain ps where ps: "root = ps @ us" "p = ps @ ds" using strip_common_append by blast
  have "us = []"
  proof (rule ccontr)
    assume "us \<noteq> []"
    then obtain k where "length us = Suc k" by (cases us) auto
    then have "starts_with ''..'' (path_relative root p)"
      by (simp add: path_relative_def s joins_Cons starts_with_def)
    with w show False by (auto simp: isWithinRoot_def Let_def starts_with_def)
  qed
  with ps show ?thesis by auto
qed

lemma document_ok_facts:
  assumes "document_ok P F root d"
  shows "\<exists>r real below. root = Some r \<and> real = fs_realpath F (path_resolve (path_resolve (fs_cwd F) r) (pd_path d)) \<and>
    real = fs_realpath F (path_resolve (fs_cwd F) r) @ below \<and> fs_is_file F real \<and>
    sha256 P (fs_content F real) = pd_hash d"
proof -
  obtain r where r: "root = Some r" using assms by (cases root) (auto simp: document_ok_def validateDocument_def Let_def split: if_splits)
  let ?root = "path_resolve (fs_cwd F) r"
  let ?real = "fs_realpath F (path_resolve ?root (pd_path d))"
  have "isWithinRoot (fs_realpath F ?root) ?real" "fs_is_file F ?real" "sha256 P (fs_content F ?real) = pd_hash d"
    using assms r by (auto simp: document_ok_def validateDocument_def Let_def split: if_splits)
  with r isWithinRoot_prefix show ?thesis by blast
qed

section \<open>Properties\<close>

text \<open>C4: packet validation decides support by evidence. It returns a valid result exactly when both
  values meet their schemas, the graph is sound (distinct identifiers, canonical digests, dated and
  current claims, true counts) and the packet is supported by it: its digest is its own, its terms
  are accepted, and every claim is backed, word for word, by a verified, public, auto-apply claim of
  the graph. The lookup by last identifier and the running duplicate sets are gone from the right side.\<close>

theorem validateApplicationPacket_decides:
  "(\<exists>r. validateApplicationPacket P F p g now root = Inr r \<and> vr_valid r) \<longleftrightarrow>
   schema_errors P ''application-packet'' (packet_json p) = [] \<and>
   schema_errors P ''claim-graph'' (graph_json g) = [] \<and> packet_supported P F now root g p"
  by (rule validateApplicationPacket_iff)

text \<open>C5: a document of a valid packet is a file that lies, after symbolic links are resolved, under the
  resolved document root, and has the digest the packet states.\<close>

theorem packet_documents_confined:
  assumes "validateApplicationPacket P F p g now root = Inr r" and "vr_valid r"
    and "d \<in> set (pk_documents p)"
  shows "\<exists>rt real below. root = Some rt \<and>
    real = fs_realpath F (path_resolve (path_resolve (fs_cwd F) rt) (pd_path d)) \<and>
    real = fs_realpath F (path_resolve (fs_cwd F) rt) @ below \<and> fs_is_file F real \<and>
    sha256 P (fs_content F real) = pd_hash d"
proof -
  have "packet_supported P F now root g p" using assms validateApplicationPacket_iff by blast
  then have "document_ok P F root d" using assms(3) by (simp add: packet_supported_def)
  then show ?thesis by (rule document_ok_facts)
qed

end
