(* ===== verification/AutoApply.thy ===== *)
theory AutoApply
  imports Approval ClaimGraph
begin

text \<open>
  The auto-apply decision (src/src/auto-apply.ts), its action ledger (src/src/action-ledger.ts) and the
  kill switch. A ledger file is the list of its lines, each of which parses to an entry or throws; a
  decision returns the decision and the ledger after it was recorded.
\<close>

section \<open>The action ledger\<close>

record ledger_file =
  lf_lines :: "ledger_entry result list option"
  lf_write_error :: "string option"

definition readLedger :: "ledger_file \<Rightarrow> ledger_entry list result" where
  "readLedger f = (case lf_lines f of None \<Rightarrow> Inr [] | Some ls \<Rightarrow> mapE (\<lambda>l. l) ls)"

definition appendLedgerEntry :: "platform \<Rightarrow> ledger_file \<Rightarrow> ledger_entry \<Rightarrow> ledger_file result" where
  "appendLedgerEntry P f e =
     bindE (assertSchema P ''action-ledger-entry'' (ledger_entry_json e)) (\<lambda>_.
     bindE (readLedger f) (\<lambda>es.
     if \<exists>x \<in> set es. le_id x = le_id e then throw (''Duplicate action id: '' @ le_id e)
     else case lf_write_error f of Some msg \<Rightarrow> throw msg
     | None \<Rightarrow> Inr (f\<lparr>lf_lines := Some ((case lf_lines f of None \<Rightarrow> [] | Some ls \<Rightarrow> ls) @ [Inr e])\<rparr>)))"

text \<open>The counters of \<open>summarizeLedger\<close>, as an association list in the order the keys appear.\<close>

fun bump :: "string \<Rightarrow> (string \<times> nat) list \<Rightarrow> (string \<times> nat) list" where
  "bump k [] = [(k, 1)]"
| "bump k ((j, n) # xs) = (if j = k then (j, n + 1) # xs else (j, n) # bump k xs)"

definition summarize_step :: "(string \<times> nat) list \<Rightarrow> ledger_entry \<Rightarrow> (string \<times> nat) list" where
  "summarize_step s e = (let s1 = bump (ledger_result_str (le_result e)) s in
     case le_blocked_by e of None \<Rightarrow> s1 | Some b \<Rightarrow> if b = [] then s1 else bump (''blocked:'' @ b) s1)"

definition summarizeLedger :: "ledger_file \<Rightarrow> (string \<times> nat) list result" where
  "summarizeLedger f = bindE (readLedger f) (\<lambda>es. Inr (foldl summarize_step [] es))"

definition createActionId :: "int \<Rightarrow> string \<Rightarrow> string" where
  "createActionId now uuid = ''A-'' @ int_str (year_from_day (now div ms_per_day)) @ ''-'' @ uuid"

section \<open>The input of a decision\<close>

record auto_apply_input =
  ai_config :: auto_apply_config
  ai_packet :: packet
  ai_graph :: claim_graph
  ai_tag :: reversibility
  ai_flags :: "high_stakes_flags option"
  ai_adapter :: string
  ai_approval :: "approval option"
  ai_approvers :: "trusted_approver list"
  ai_signals :: "risk_signals option"
  ai_root :: "string option"
  ai_ledger :: "ledger_file option"
  ai_entries :: "ledger_entry list option"
  ai_action :: "string option"
  ai_now :: int
  ai_uuid :: string

definition defaultAutoApplyConfig :: auto_apply_config where
  "defaultAutoApplyConfig = \<lparr>cf_enabled = False, cf_mode = Manual,
     cf_kill = \<lparr>ks_available = True, ks_engaged = False, ks_engaged_at = None, ks_engaged_by = None, ks_reason = None\<rparr>,
     cf_max_per_day = 5, cf_cooldown_until = None, cf_adapters = [''local-fixture''], cf_per_opportunity = [],
     cf_exclusions = [''captcha'', ''anti-bot'', ''payment'', ''identity-check'', ''credential-fabrication'',
       ''unsupported-license-claim'', ''tos-unclear'']\<rparr>"

definition blocked :: "string \<Rightarrow> string list \<Rightarrow> string \<Rightarrow> auto_apply_decision" where
  "blocked b rs actionId = \<lparr>ad_allowed = False, ad_blocked_by = Some b, ad_reasons = rs, ad_approvals = [],
     ad_action_id = (if actionId = [] then None else Some actionId), ad_evidence_required = True,
     ad_audit_error = None\<rparr>"

definition hasHighStakes :: "high_stakes_flags option \<Rightarrow> bool" where
  "hasHighStakes fs = (case fs of None \<Rightarrow> False | Some f \<Rightarrow> list_ex (\<lambda>x. f x = Some True) HIGH_STAKES_FLAGS)"

definition SHIPPED_EXECUTION_ADAPTERS :: "string list" where
  "SHIPPED_EXECUTION_ADAPTERS = [''local-fixture'']"

definition hasCompleteHighStakesAssessment :: "high_stakes_flags option \<Rightarrow> bool" where
  "hasCompleteHighStakesAssessment fs =
     (case fs of None \<Rightarrow> False | Some f \<Rightarrow> list_all (\<lambda>x. f x \<noteq> None) HIGH_STAKES_FLAGS)"

definition override_of :: "auto_apply_config \<Rightarrow> string \<Rightarrow> per_opportunity option" where
  "override_of c opp = map_of (cf_per_opportunity c) opp"

definition effectiveMode :: "auto_apply_config \<Rightarrow> string \<Rightarrow> apply_mode" where
  "effectiveMode c opp = (case override_of c opp of None \<Rightarrow> cf_mode c
     | Some x \<Rightarrow> (case po_mode x of None \<Rightarrow> cf_mode c | Some m \<Rightarrow> m))"

definition excluded :: "auto_apply_config \<Rightarrow> string \<Rightarrow> bool" where
  "excluded c opp = (case override_of c opp of None \<Rightarrow> False | Some x \<Rightarrow> po_excluded x = Some True)"

definition isInCooldown :: "platform \<Rightarrow> auto_apply_config \<Rightarrow> int \<Rightarrow> bool" where
  "isInCooldown P c now = (case cf_cooldown_until c of None \<Rightarrow> False
     | Some u \<Rightarrow> u \<noteq> [] \<and> nlt (Some now) (parse_date P u))"

definition signal_values :: "risk_signals \<Rightarrow> bool option list" where
  "signal_values s = [rs_captcha s, rs_anti_bot s, rs_payment s, rs_identity s, rs_tos_unclear s, rs_license s,
     rs_fabrication s]"

definition blockingRiskSignal :: "risk_signals \<Rightarrow> string option" where
  "blockingRiskSignal s = (if rs_captcha s = Some True then Some ''captcha-present''
     else if rs_anti_bot s = Some True then Some ''anti-bot-detected''
     else if rs_payment s = Some True then Some ''payment-required''
     else if rs_identity s = Some True then Some ''identity-check-required''
     else if rs_tos_unclear s = Some True then Some ''tos-unclear''
     else if rs_license s = Some True then Some ''unsupported-license-claim''
     else if rs_fabrication s = Some True then Some ''credential-fabrication-requested''
     else None)"

definition hasCompleteRiskSignals :: "risk_signals \<Rightarrow> bool" where
  "hasCompleteRiskSignals s = list_all (\<lambda>v. v \<noteq> None) (signal_values s)"

text \<open>The opportunities submitted or confirmed on the day of \<open>now\<close>.\<close>

definition used_today :: "int \<Rightarrow> ledger_entry list \<Rightarrow> string list" where
  "used_today now es = dedup (map le_opportunity (filter (\<lambda>e. (le_result e = LrSubmitted \<or> le_result e = LrConfirmed) \<and>
     take 10 (le_time e) = take 10 (to_iso now)) es))"

text \<open>The usage, \<open>None\<close> when there is no ledger, or the message of the error that reading it threw.\<close>

definition dailyUsage :: "auto_apply_input \<Rightarrow> int \<Rightarrow> nat option result" where
  "dailyUsage i now = (case ai_entries i of
     Some es \<Rightarrow> Inr (Some (length (used_today now es)))
   | None \<Rightarrow> (case ai_ledger i of None \<Rightarrow> Inr None
     | Some f \<Rightarrow> bindE (readLedger f) (\<lambda>es. Inr (Some (length (used_today now es))))))"

section \<open>The decision\<close>

definition packet_block :: "string list \<Rightarrow> string" where
  "packet_block reasons = (case reasons of [] \<Rightarrow> ''packet-validation-failed''
     | r # _ \<Rightarrow> if starts_with ''packet-evidence-not-verified'' r then ''packet-evidence-not-verified''
       else hd (split_on CHR '':'' r))"

definition allow :: "string \<Rightarrow> auto_apply_decision" where
  "allow actionId = \<lparr>ad_allowed = True, ad_blocked_by = None, ad_reasons = [''all gates passed''],
     ad_approvals = [''operator''], ad_action_id = Some actionId, ad_evidence_required = True,
     ad_audit_error = None\<rparr>"

definition action_scope :: "auto_apply_input \<Rightarrow> approval_scope" where
  "action_scope i = \<lparr>as_operation = OpAutoApply, as_opportunity = pk_opportunity (ai_packet i),
     as_packet = pk_hash (ai_packet i), as_adapter = ai_adapter i, as_tag = ai_tag i,
     as_field = ''application-packet'', as_now = ai_now i, as_intent = None\<rparr>"

text \<open>The gates from the packet on, which read the document root and the approval.\<close>

definition decide_packet :: "platform \<Rightarrow> file_system \<Rightarrow> auto_apply_input \<Rightarrow> string \<Rightarrow> auto_apply_decision" where
  "decide_packet P F i actionId =
     (case validateApplicationPacket P F (ai_packet i) (ai_graph i) (ai_now i) (ai_root i) of
       Inl (Error msg) \<Rightarrow> blocked ''packet-validation-error'' [msg] actionId
     | Inr v \<Rightarrow>
       if \<not> vr_valid v then blocked (packet_block (vr_reasons v)) (vr_reasons v) actionId
       else (case ai_approval i of
         None \<Rightarrow> blocked ''approval-required'' [''explicit operator approval reference is required''] actionId
       | Some a \<Rightarrow>
         let r = validateApprovalReference P a (action_scope i) (ai_approvers i) in
         if \<not> ar_valid r
         then blocked (case ar_blocked_by r of None \<Rightarrow> ''approval-invalid'' | Some b \<Rightarrow> b) (ar_reasons r) actionId
         else allow actionId))"

text \<open>The gates from the risk signals on.\<close>

definition decide_usage :: "platform \<Rightarrow> file_system \<Rightarrow> auto_apply_input \<Rightarrow> string \<Rightarrow> auto_apply_decision" where
  "decide_usage P F i actionId = (let c = ai_config i; stop = (\<lambda>b r. blocked b [r] actionId) in
     if cf_max_per_day c < 1 then stop ''rate-limit-exhausted'' ''daily rate limit is exhausted''
     else (case dailyUsage i (ai_now i) of
       Inl (Error msg) \<Rightarrow> if msg \<noteq> [] then stop ''rate-limit-ledger-invalid'' msg
         else stop ''rate-limit-state-missing'' ''authoritative ledger path is required for rate limit enforcement''
     | Inr None \<Rightarrow> stop ''rate-limit-state-missing'' ''authoritative ledger path is required for rate limit enforcement''
     | Inr (Some usage) \<Rightarrow>
       if cf_max_per_day c \<le> int usage then stop ''rate-limit-exhausted'' ''daily rate limit is exhausted''
       else if isInCooldown P c (ai_now i) then stop ''cooldown-active'' ''cooldown is active''
       else if \<not> pk_tos (ai_packet i) then stop ''tos-not-compliant'' ''packet terms status is not compliant''
       else decide_packet P F i actionId))"

definition decide_risk :: "platform \<Rightarrow> file_system \<Rightarrow> auto_apply_input \<Rightarrow> string \<Rightarrow> auto_apply_decision" where
  "decide_risk P F i actionId = (case ai_signals i of
       None \<Rightarrow> blocked ''risk-signals-missing'' [''automation risk signals are required for auto mode''] actionId
     | Some s \<Rightarrow>
       if \<not> hasCompleteRiskSignals s
       then blocked ''risk-signals-incomplete'' [''all automation risk signals require explicit boolean observations''] actionId
       else (case blockingRiskSignal s of
         Some b \<Rightarrow> blocked b [b @ '' must not be bypassed''] actionId
       | None \<Rightarrow> decide_usage P F i actionId))"

definition decide :: "platform \<Rightarrow> file_system \<Rightarrow> auto_apply_input \<Rightarrow> string \<Rightarrow> auto_apply_decision" where
  "decide P F i actionId = (
     let c = ai_config i; opp = pk_opportunity (ai_packet i); stop = (\<lambda>b r. blocked b [r] actionId) in
     if schema_errors P ''auto-apply-config'' (config_json c) \<noteq> []
       then blocked ''config-schema-invalid'' (schema_errors P ''auto-apply-config'' (config_json c)) actionId
     else if schema_errors P ''application-packet'' (packet_json (ai_packet i)) \<noteq> []
       then blocked ''packet-schema-invalid'' (schema_errors P ''application-packet'' (packet_json (ai_packet i))) actionId
     else if ks_engaged (cf_kill c) then stop ''kill-switch-engaged'' ''kill switch is engaged''
     else if \<not> cf_enabled c then stop ''auto-apply-disabled'' ''auto apply is disabled''
     else if effectiveMode c opp \<noteq> Auto then stop ''mode-not-auto'' ''effective mode is not auto''
     else if excluded c opp then stop ''opportunity-excluded'' ''opportunity is explicitly excluded''
     else if ai_adapter i \<notin> set SHIPPED_EXECUTION_ADAPTERS
       then stop ''execution-adapter-not-shipped'' (''adapter '' @ ai_adapter i @ '' has no shipped execution authority'')
     else if ai_adapter i = ''local-fixture'' \<and> cg_scope (ai_graph i) \<noteq> Synthetic
       then stop ''local-fixture-requires-synthetic-profile'' ''local fixture execution is limited to synthetic profiles''
     else if ai_adapter i \<notin> set (cf_adapters c)
       then stop ''adapter-not-allowlisted'' (''adapter '' @ ai_adapter i @ '' is not allowlisted'')
     else if ai_tag i = R4 then stop ''r4-not-auto-submittable'' ''R4 action cannot be auto submitted''
     else if \<not> hasCompleteHighStakesAssessment (ai_flags i)
       then stop ''high-stakes-assessment-incomplete'' ''all high stakes flags require explicit assessment''
     else if hasHighStakes (ai_flags i)
       then stop ''high-stakes-requires-manual-review'' ''high stakes route requires human specialist review''
     else decide_risk P F i actionId)"

definition decision_entry :: "auto_apply_input \<Rightarrow> auto_apply_decision \<Rightarrow> string \<Rightarrow> ledger_entry" where
  "decision_entry i d actionId = \<lparr>le_id = actionId, le_time = to_iso (ai_now i), le_mode = ''/auto-apply-config'',
     le_opportunity = pk_opportunity (ai_packet i), le_tag = ai_tag i,
     le_evidence_gate = (ad_allowed d \<or> ad_blocked_by d = Some ''approval-required''),
     le_approval_required = True, le_approval_received = (ai_approval i \<noteq> None),
     le_high_stakes_gate = (\<not> hasHighStakes (ai_flags i)),
     le_result = (if ad_allowed d then LrDraft else LrBlocked),
     le_blocked_by = (case ad_blocked_by d of None \<Rightarrow> None | Some b \<Rightarrow> if b = [] then None else Some b),
     le_evidence = None\<rparr>"

definition recordDecision :: "platform \<Rightarrow> auto_apply_input \<Rightarrow> auto_apply_decision \<Rightarrow> auto_apply_decision \<times> ledger_file option" where
  "recordDecision P i d = (case ai_ledger i of
     None \<Rightarrow> (d, None)
   | Some f \<Rightarrow>
     let actionId = (case ad_action_id d of Some a \<Rightarrow> a | None \<Rightarrow> createActionId (ai_now i) (ai_uuid i)) in
     (case appendLedgerEntry P f (decision_entry i d actionId) of
       Inr f' \<Rightarrow> (d, Some f')
     | Inl (Error msg) \<Rightarrow> (d\<lparr>ad_allowed := False, ad_blocked_by := Some ''ledger-write-failed'',
         ad_reasons := ad_reasons d @ [''ledger-write-failed:'' @ msg], ad_audit_error := Some msg\<rparr>, Some f)))"

definition decideAutoApply :: "platform \<Rightarrow> file_system \<Rightarrow> auto_apply_input \<Rightarrow> auto_apply_decision \<times> ledger_file option" where
  "decideAutoApply P F i = (
     let actionId = (case ai_action i of Some a \<Rightarrow> a | None \<Rightarrow> createActionId (ai_now i) (ai_uuid i)) in
     recordDecision P i (decide P F i actionId))"

section \<open>The kill switch\<close>

definition REARM_TOKEN :: string where
  "REARM_TOKEN = ''REARM-AUTO-APPLY''"

definition engageKillSwitch :: "auto_apply_config \<Rightarrow> string \<Rightarrow> string \<Rightarrow> int \<Rightarrow> auto_apply_config" where
  "engageKillSwitch c engagedBy reason now = c\<lparr>cf_enabled := False, cf_mode := Manual,
     cf_kill := \<lparr>ks_available = True, ks_engaged = True, ks_engaged_at = Some (to_iso now),
       ks_engaged_by = Some engagedBy, ks_reason = Some reason\<rparr>\<rparr>"

definition rearmAutoApplyAuthorized :: "auto_apply_config \<Rightarrow> auto_apply_config" where
  "rearmAutoApplyAuthorized c = c\<lparr>cf_enabled := False, cf_mode := Manual,
     cf_kill := \<lparr>ks_available = True, ks_engaged = False, ks_engaged_at = None, ks_engaged_by = None, ks_reason = None\<rparr>\<rparr>"

definition rearmAutoApply :: "auto_apply_config \<Rightarrow> string \<Rightarrow> auto_apply_config result" where
  "rearmAutoApply c token = (if token \<noteq> REARM_TOKEN then throw ''Invalid rearm token''
     else Inr (rearmAutoApplyAuthorized c))"

definition enableAutoApply :: "auto_apply_config \<Rightarrow> apply_mode \<Rightarrow> auto_apply_config result" where
  "enableAutoApply c mode = (if ks_engaged (cf_kill c) then throw ''Cannot enable while kill switch is engaged''
     else Inr (c\<lparr>cf_enabled := True, cf_mode := mode\<rparr>))"

text \<open>The operations on a configuration; one that throws leaves it as it was.\<close>

inductive config_step :: "auto_apply_config \<Rightarrow> auto_apply_config \<Rightarrow> bool" where
  engage: "config_step c (engageKillSwitch c b r now)"
| rearm: "rearmAutoApply c token = Inr c' \<Longrightarrow> config_step c c'"
| rearm_authorized: "config_step c (rearmAutoApplyAuthorized c)"
| enable: "mode \<in> {DraftOnly, Auto} \<Longrightarrow> enableAutoApply c mode = Inr c' \<Longrightarrow> config_step c c'"

inductive_cases config_stepE: "config_step c c'"

text \<open>The operations as commands, run one after the other; one that throws leaves the configuration as it was.\<close>

datatype config_command = EngageKill string string int | RearmToken string | RearmAuthorized | EnableAuto apply_mode

fun run_config_command :: "auto_apply_config \<Rightarrow> config_command \<Rightarrow> auto_apply_config" where
  "run_config_command c (EngageKill engagedBy reason now) = engageKillSwitch c engagedBy reason now"
| "run_config_command c (RearmToken token) = (case rearmAutoApply c token of Inl _ \<Rightarrow> c | Inr c' \<Rightarrow> c')"
| "run_config_command c RearmAuthorized = rearmAutoApplyAuthorized c"
| "run_config_command c (EnableAuto mode) = (case enableAutoApply c mode of Inl _ \<Rightarrow> c | Inr c' \<Rightarrow> c')"

definition run_config :: "auto_apply_config \<Rightarrow> config_command list \<Rightarrow> auto_apply_config" where
  "run_config = foldl run_config_command"

text \<open>A rearm is the authorized operation, which takes no token, or the other one with the token spelled out.\<close>

fun rearms :: "config_command \<Rightarrow> bool" where
  "rearms RearmAuthorized = True"
| "rearms (RearmToken token) = (token = ''REARM-AUTO-APPLY'')"
| "rearms _ = False"

fun engages :: "config_command \<Rightarrow> bool" where
  "engages (EngageKill _ _ _) = True"
| "engages _ = False"

section \<open>When a decision allows\<close>

definition gates :: "platform \<Rightarrow> file_system \<Rightarrow> auto_apply_input \<Rightarrow> bool" where
  "gates P F i = (let c = ai_config i; p = ai_packet i in
     \<not> ks_engaged (cf_kill c) \<and> cf_enabled c \<and> effectiveMode c (pk_opportunity p) = Auto \<and>
     \<not> excluded c (pk_opportunity p) \<and>
     ai_adapter i = ''local-fixture'' \<and> cg_scope (ai_graph i) = Synthetic \<and> ai_adapter i \<in> set (cf_adapters c) \<and>
     ai_tag i \<noteq> R4 \<and>
     (\<exists>f. ai_flags i = Some f \<and> (\<forall>x. f x = Some False)) \<and>
     (\<exists>s. ai_signals i = Some s \<and> (\<forall>v \<in> set (signal_values s). v = Some False)) \<and>
     (\<exists>n. dailyUsage i (ai_now i) = Inr (Some n) \<and> int n < cf_max_per_day c) \<and>
     \<not> isInCooldown P c (ai_now i) \<and>
     packet_supported P F (ai_now i) (ai_root i) (ai_graph i) p \<and>
     (\<exists>a. ai_approval i = Some a \<and> ar_valid (validateApprovalReference P a (action_scope i) (ai_approvers i))))"

definition schemas_ok :: "platform \<Rightarrow> auto_apply_input \<Rightarrow> bool" where
  "schemas_ok P i = (schema_errors P ''auto-apply-config'' (config_json (ai_config i)) = [] \<and>
     schema_errors P ''application-packet'' (packet_json (ai_packet i)) = [] \<and>
     schema_errors P ''claim-graph'' (graph_json (ai_graph i)) = [])"

lemma blocked_allowed [simp]: "ad_allowed (blocked b rs a) = False" "ad_allowed (allow a) = True"
  by (simp_all add: blocked_def allow_def)

lemma flags_assessed:
  "hasCompleteHighStakesAssessment fs \<and> \<not> hasHighStakes fs \<longleftrightarrow> (\<exists>f. fs = Some f \<and> (\<forall>x. f x = Some False))"
proof (cases fs)
  case (Some f)
  have "(\<forall>x. f x \<noteq> None \<and> f x \<noteq> Some True) \<longleftrightarrow> (\<forall>x. f x = Some False)"
    by (metis (full_types) not_Some_eq option.inject)
  with Some show ?thesis
    by (auto simp: hasCompleteHighStakesAssessment_def hasHighStakes_def list_all_iff list_ex_iff)
qed (simp add: hasCompleteHighStakesAssessment_def)

lemma signals_clear:
  "hasCompleteRiskSignals s \<and> blockingRiskSignal s = None \<longleftrightarrow> (\<forall>v \<in> set (signal_values s). v = Some False)"
proof -
  have "blockingRiskSignal s = None \<longleftrightarrow> (\<forall>v \<in> set (signal_values s). v \<noteq> Some True)"
    by (simp add: blockingRiskSignal_def signal_values_def)
  moreover have "hasCompleteRiskSignals s \<longleftrightarrow> (\<forall>v \<in> set (signal_values s). v \<noteq> None)"
    by (simp add: hasCompleteRiskSignals_def list_all_iff)
  moreover have "v = Some False \<longleftrightarrow> v \<noteq> None \<and> v \<noteq> Some True" for v :: "bool option"
    by (cases v) auto
  ultimately show ?thesis by blast
qed

lemma decide_packet_allowed:
  "ad_allowed (decide_packet P F i x) \<longleftrightarrow>
   (\<exists>r. validateApplicationPacket P F (ai_packet i) (ai_graph i) (ai_now i) (ai_root i) = Inr r \<and> vr_valid r) \<and>
   (\<exists>a. ai_approval i = Some a \<and> ar_valid (validateApprovalReference P a (action_scope i) (ai_approvers i)))"
  by (auto simp: decide_packet_def Let_def split: sum.split error.split option.split)

lemma supported_tos: "packet_supported P F now root g p \<Longrightarrow> pk_tos p"
  by (simp add: packet_supported_def)

lemma decide_usage_allowed:
  "ad_allowed (decide_usage P F i x) \<longleftrightarrow>
   (\<exists>n. dailyUsage i (ai_now i) = Inr (Some n) \<and> int n < cf_max_per_day (ai_config i)) \<and>
   \<not> isInCooldown P (ai_config i) (ai_now i) \<and> pk_tos (ai_packet i) \<and> ad_allowed (decide_packet P F i x)"
  by (auto simp: decide_usage_def Let_def split: option.split sum.split error.split)

lemma decide_risk_allowed:
  "ad_allowed (decide_risk P F i x) \<longleftrightarrow>
   (\<exists>s. ai_signals i = Some s \<and> (\<forall>v \<in> set (signal_values s). v = Some False)) \<and> ad_allowed (decide_usage P F i x)"
  unfolding signals_clear [symmetric] by (auto simp: decide_risk_def split: option.split)

lemma decide_allowed_iff: "ad_allowed (decide P F i x) \<longleftrightarrow> schemas_ok P i \<and> gates P F i"
proof -
  let ?c = "ai_config i" and ?p = "ai_packet i"
  have f: "(if b then False else q) = (\<not> b \<and> q)" for b q by simp
  have e: "ad_allowed (decide P F i x) \<longleftrightarrow>
     schema_errors P ''auto-apply-config'' (config_json ?c) = [] \<and>
     schema_errors P ''application-packet'' (packet_json ?p) = [] \<and>
     \<not> ks_engaged (cf_kill ?c) \<and> cf_enabled ?c \<and> effectiveMode ?c (pk_opportunity ?p) = Auto \<and>
     \<not> excluded ?c (pk_opportunity ?p) \<and>
     ai_adapter i = ''local-fixture'' \<and> cg_scope (ai_graph i) = Synthetic \<and> ai_adapter i \<in> set (cf_adapters ?c) \<and>
     ai_tag i \<noteq> R4 \<and> (hasCompleteHighStakesAssessment (ai_flags i) \<and> \<not> hasHighStakes (ai_flags i)) \<and>
     ad_allowed (decide_risk P F i x)"
    unfolding decide_def Let_def SHIPPED_EXECUTION_ADAPTERS_def if_distrib [of ad_allowed] blocked_allowed f
    by (simp only: de_Morgan_disj not_not conj_assoc list.set insert_iff empty_iff simp_thms) blast
  show ?thesis
    unfolding e flags_assessed decide_risk_allowed decide_usage_allowed decide_packet_allowed
      validateApplicationPacket_iff schemas_ok_def gates_def Let_def
    by (intro iffI; elim conjE; intro conjI; (assumption | erule supported_tos))
qed

lemma recordDecision_allowed: "ad_allowed (fst (recordDecision P i d)) \<Longrightarrow> ad_allowed d \<and> fst (recordDecision P i d) = d"
  by (auto simp: recordDecision_def Let_def split: option.splits sum.splits error.splits)

lemma decideAutoApply_allowed:
  "ad_allowed (fst (decideAutoApply P F i)) \<Longrightarrow> schemas_ok P i \<and> gates P F i"
  unfolding decideAutoApply_def Let_def
  by (drule recordDecision_allowed) (simp add: decide_allowed_iff)

section \<open>The ledger and the kill switch\<close>

lemma mapE_id_Inr [simp]: "mapE (\<lambda>l. l) (map Inr es) = Inr es"
  by (induction es) auto

lemma mapE_id_append: "mapE (\<lambda>l. l) ls = Inr es \<Longrightarrow> mapE (\<lambda>l. l) (ls @ [Inr e]) = Inr (es @ [e])"
  by (induction ls arbitrary: es) auto

lemma appendLedgerEntry_read:
  assumes "appendLedgerEntry P f e = Inr f'" and "readLedger f = Inr es"
  shows "readLedger f' = Inr (es @ [e]) \<and> le_id e \<notin> le_id ` set es"
  using assms
  by (auto simp: appendLedgerEntry_def readLedger_def mapE_id_append split: if_splits option.splits)

lemma append_reads: "appendLedgerEntry P f e = Inr f' \<Longrightarrow> \<exists>es. readLedger f = Inr es"
  by (auto simp: appendLedgerEntry_def)

text \<open>What a configuration tells of the commands that led to it from an engaged switch: a released switch,
  of a rearm that no engagement follows; an enabled configuration, of an enabling after such a rearm that
  nothing undid.\<close>

definition rearmed_by :: "config_command list \<Rightarrow> bool" where
  "rearmed_by ops = (\<exists>a r b. ops = a @ r # b \<and> rearms r \<and> list_all (\<lambda>x. \<not> engages x) b)"

definition enabled_by :: "config_command list \<Rightarrow> bool" where
  "enabled_by ops = (\<exists>a m d. ops = a @ EnableAuto m # d \<and> rearmed_by a \<and> list_all (\<lambda>x. \<not> engages x \<and> \<not> rearms x) d)"

lemma rearmed_by_snoc:
  assumes "rearmed_by ops" and "\<not> engages x"
  shows "rearmed_by (ops @ [x])"
proof -
  obtain a r b where "ops = a @ r # b" "rearms r" "list_all (\<lambda>x. \<not> engages x) b"
    using assms(1) by (auto simp: rearmed_by_def)
  then have "ops @ [x] = a @ r # (b @ [x])" "rearms r" "list_all (\<lambda>x. \<not> engages x) (b @ [x])"
    using assms(2) by simp_all
  then show ?thesis unfolding rearmed_by_def by blast
qed

lemma rearmed_by_now: "rearms x \<Longrightarrow> rearmed_by (ops @ [x])"
  unfolding rearmed_by_def by fastforce

lemma enabled_by_snoc:
  assumes "enabled_by ops" and "\<not> engages x" and "\<not> rearms x"
  shows "enabled_by (ops @ [x])"
proof -
  obtain a m d where "ops = a @ EnableAuto m # d" "rearmed_by a" "list_all (\<lambda>x. \<not> engages x \<and> \<not> rearms x) d"
    using assms(1) by (auto simp: enabled_by_def)
  then have "ops @ [x] = a @ EnableAuto m # (d @ [x])" "rearmed_by a"
    "list_all (\<lambda>x. \<not> engages x \<and> \<not> rearms x) (d @ [x])"
    using assms(2,3) by simp_all
  then show ?thesis unfolding enabled_by_def by blast
qed

lemma enabled_by_now: "rearmed_by ops \<Longrightarrow> enabled_by (ops @ [EnableAuto m])"
  unfolding enabled_by_def by fastforce

lemma config_history:
  "(ks_engaged (cf_kill (run_config (engageKillSwitch c engagedBy reason t) ops)) \<or> rearmed_by ops) \<and>
   (cf_enabled (run_config (engageKillSwitch c engagedBy reason t) ops) \<longrightarrow> enabled_by ops)"
proof (induction ops rule: rev_induct)
  case Nil
  then show ?case by (simp add: run_config_def engageKillSwitch_def)
next
  case (snoc x ops)
  define c' where "c' = run_config (engageKillSwitch c engagedBy reason t) ops"
  have run: "run_config (engageKillSwitch c engagedBy reason t) (ops @ [x]) = run_config_command c' x"
    by (simp add: run_config_def c'_def)
  have IH: "ks_engaged (cf_kill c') \<or> rearmed_by ops" "cf_enabled c' \<Longrightarrow> enabled_by ops"
    using snoc by (simp_all add: c'_def)
  note snocs = rearmed_by_snoc enabled_by_snoc rearmed_by_now enabled_by_now
  show ?case unfolding run
    using IH
    by (cases x)
      (auto simp: engageKillSwitch_def rearmAutoApply_def rearmAutoApplyAuthorized_def enableAutoApply_def
        REARM_TOKEN_def intro: snocs)
qed

definition config_inv :: "auto_apply_config \<Rightarrow> bool" where
  "config_inv c = ((ks_engaged (cf_kill c) \<longrightarrow> \<not> cf_enabled c \<and> cf_mode c = Manual \<and> ks_engaged_by (cf_kill c) \<noteq> None) \<and>
     (cf_enabled c \<longrightarrow> cf_mode c \<noteq> Manual))"

lemma config_step_inv: "config_step c c' \<Longrightarrow> config_inv c \<Longrightarrow> config_inv c'"
  by (erule config_stepE)
    (auto simp: config_inv_def engageKillSwitch_def rearmAutoApply_def rearmAutoApplyAuthorized_def
      enableAutoApply_def split: if_splits)

lemma config_run_inv: "config_step\<^sup>*\<^sup>* c c' \<Longrightarrow> config_inv c \<Longrightarrow> config_inv c'"
  by (induction rule: rtranclp_induct) (auto dest: config_step_inv)

lemma blocked_chain:
  "(ad_allowed y \<longrightarrow> y = r) \<Longrightarrow>
   ad_allowed (if c then blocked b rs x else y) \<longrightarrow> (if c then blocked b rs x else y) = r"
  by simp

lemma decide_packet_chain: "ad_allowed (decide_packet P F i x) \<longrightarrow> decide_packet P F i x = allow x"
  unfolding decide_packet_def Let_def
  by (simp only: blocked_allowed split: sum.split error.split option.split if_split) blast

lemma decide_usage_chain: "ad_allowed (decide_usage P F i x) \<longrightarrow> decide_usage P F i x = allow x"
proof (cases "\<exists>n. dailyUsage i (ai_now i) = Inr (Some n)")
  case True
  then obtain n where n: "dailyUsage i (ai_now i) = Inr (Some n)" ..
  show ?thesis
    unfolding decide_usage_def Let_def n sum.case option.case by (intro blocked_chain decide_packet_chain)
qed (use decide_usage_allowed [of P F i x] in blast)

lemma decide_risk_chain: "ad_allowed (decide_risk P F i x) \<longrightarrow> decide_risk P F i x = allow x"
proof (cases "\<exists>s. ai_signals i = Some s \<and> hasCompleteRiskSignals s \<and> blockingRiskSignal s = None")
  case True
  then show ?thesis using decide_usage_chain by (auto simp: decide_risk_def)
qed (use decide_risk_allowed [of P F i x] signals_clear in blast)

lemma decide_chain: "ad_allowed (decide P F i x) \<longrightarrow> decide P F i x = allow x"
  unfolding decide_def Let_def by (intro blocked_chain decide_risk_chain)

lemma recordDecision_allow:
  "ad_allowed (fst (recordDecision P i (allow x))) \<longleftrightarrow>
   (case ai_ledger i of None \<Rightarrow> True | Some f \<Rightarrow> isOk (appendLedgerEntry P f (decision_entry i (allow x) x)))"
  by (auto simp: recordDecision_def Let_def allow_def split: option.splits sum.splits error.splits)

lemma decideAutoApply_iff:
  "ad_allowed (fst (decideAutoApply P F i)) \<longleftrightarrow> schemas_ok P i \<and> gates P F i \<and>
   (case ai_ledger i of None \<Rightarrow> True | Some f \<Rightarrow> isOk (appendLedgerEntry P f (decision_entry i
      (allow (case ai_action i of Some a \<Rightarrow> a | None \<Rightarrow> createActionId (ai_now i) (ai_uuid i)))
      (case ai_action i of Some a \<Rightarrow> a | None \<Rightarrow> createActionId (ai_now i) (ai_uuid i)))))"
proof -
  let ?a = "case ai_action i of Some a \<Rightarrow> a | None \<Rightarrow> createActionId (ai_now i) (ai_uuid i)"
  have dec: "decideAutoApply P F i = recordDecision P i (decide P F i ?a)"
    by (simp only: decideAutoApply_def Let_def)
  show ?thesis
  proof (cases "ad_allowed (decide P F i ?a)")
    case True
    then have "decide P F i ?a = allow ?a" using decide_chain by blast
    with True show ?thesis
      using recordDecision_allow [of P i ?a] decide_allowed_iff [of P F i ?a] unfolding dec by simp
  next
    case False
    then show ?thesis
      using recordDecision_allowed [of P i "decide P F i ?a"] decide_allowed_iff [of P F i ?a]
      unfolding dec by blast
  qed
qed

section \<open>Properties\<close>

text \<open>C1: an automatic submission is allowed exactly when every gate is open: the kill switch is not
  engaged, auto mode is effective and the opportunity not excluded, the adapter is the shipped fixture on a
  synthetic profile and is allowlisted, the action is not R4, every high-stakes flag and every risk signal
  was assessed as absent, the day's distinct opportunities are below the limit, no cooldown runs, the packet
  is supported by the claim graph, a trusted approval of this very action is current, and the decision
  could be written to the ledger when there is one.\<close>

theorem decideAutoApply_allowed_iff:
  "ad_allowed (fst (decideAutoApply P F i)) \<longleftrightarrow> schemas_ok P i \<and> gates P F i \<and>
   (case ai_ledger i of None \<Rightarrow> True | Some f \<Rightarrow> isOk (appendLedgerEntry P f (decision_entry i
      (allow (case ai_action i of Some a \<Rightarrow> a | None \<Rightarrow> createActionId (ai_now i) (ai_uuid i)))
      (case ai_action i of Some a \<Rightarrow> a | None \<Rightarrow> createActionId (ai_now i) (ai_uuid i)))))"
  by (rule decideAutoApply_iff)

text \<open>every decision with a readable ledger is on record. Either the ledger gains exactly one entry, the
  decision's, under an identifier that was not there (so identifiers stay distinct), marked a draft exactly
  when the decision allows; or the ledger is unchanged and the decision is blocked by the failed write.\<close>

lemma decision_recorded:
  assumes "ai_ledger i = Some f" and "readLedger f = Inr es" and "distinct (map le_id es)"
  shows "\<exists>d f' es'. decideAutoApply P F i = (d, Some f') \<and> readLedger f' = Inr es' \<and> distinct (map le_id es') \<and>
    ((\<exists>e. es' = es @ [e] \<and> le_opportunity e = pk_opportunity (ai_packet i) \<and>
        (le_result e = LrDraft \<longleftrightarrow> ad_allowed d)) \<or>
     (es' = es \<and> \<not> ad_allowed d \<and> ad_blocked_by d = Some ''ledger-write-failed''))"
proof -
  define d0 where "d0 = decide P F i (case ai_action i of Some a \<Rightarrow> a | None \<Rightarrow> createActionId (ai_now i) (ai_uuid i))"
  define e where "e = decision_entry i d0 (case ad_action_id d0 of Some a \<Rightarrow> a | None \<Rightarrow> createActionId (ai_now i) (ai_uuid i))"
  have dec: "decideAutoApply P F i = recordDecision P i d0"
    by (simp add: decideAutoApply_def d0_def)
  show ?thesis
  proof (cases "appendLedgerEntry P f e")
    case (Inr f')
    then have "decideAutoApply P F i = (d0, Some f')"
      by (simp add: dec recordDecision_def assms(1) e_def Let_def)
    with appendLedgerEntry_read [OF Inr assms(2)] assms(3) show ?thesis
      by (auto simp: e_def decision_entry_def)
  next
    case (Inl err)
    then show ?thesis
      using assms by (cases err) (simp add: dec recordDecision_def e_def Let_def)
  qed
qed

text \<open>C2: one approval authorises one packet. Two inputs allowed under the same approval carry the same
  packet, member by member, and the same adapter and reversibility tag, or two texts with one SHA-256
  digest have been exhibited.\<close>

theorem one_approval_one_packet:
  assumes "ad_allowed (fst (decideAutoApply P F i))" and "ad_allowed (fst (decideAutoApply P G j))"
    and "ai_approval i = ai_approval j"
  shows "(ai_packet i = ai_packet j \<and> ai_adapter i = ai_adapter j \<and> ai_tag i = ai_tag j) \<or> (\<exists>x y. sha_collision P x y)"
proof -
  obtain a where a: "ai_approval i = Some a" "ai_approval j = Some a"
    and vi: "ar_valid (validateApprovalReference P a (action_scope i) (ai_approvers i))"
    and vj: "ar_valid (validateApprovalReference P a (action_scope j) (ai_approvers j))"
    using decideAutoApply_allowed [OF assms(1)] decideAutoApply_allowed [OF assms(2)] assms(3)
    by (auto simp: gates_def Let_def)
  have hi: "pk_hash (ai_packet i) = computePacketHash P (ai_packet i)"
    and hj: "pk_hash (ai_packet j) = computePacketHash P (ai_packet j)"
    using decideAutoApply_allowed [OF assms(1)] decideAutoApply_allowed [OF assms(2)]
    by (auto simp: gates_def packet_supported_def Let_def)
  have si: "as_packet (action_scope i) = ap_packet a" "as_packet (action_scope j) = ap_packet a"
    "as_adapter (action_scope i) = as_adapter (action_scope j)"
    and int: "expected_intent P (action_scope i) = expected_intent P (action_scope j)"
    using approval_scope_of_valid [OF vi] approval_scope_of_valid [OF vj] by simp_all
  then have h: "pk_hash (ai_packet i) = pk_hash (ai_packet j)" and ad: "ai_adapter i = ai_adapter j"
    by (simp_all add: action_scope_def)
  from int have "computeActionIntentHash P \<lparr>ib_operation = OpAutoApply, ib_opportunity = pk_opportunity (ai_packet i),
      ib_packet = pk_hash (ai_packet i), ib_adapter = ai_adapter i, ib_tag = ai_tag i, ib_attempt = None\<rparr> =
    computeActionIntentHash P \<lparr>ib_operation = OpAutoApply, ib_opportunity = pk_opportunity (ai_packet j),
      ib_packet = pk_hash (ai_packet j), ib_adapter = ai_adapter j, ib_tag = ai_tag j, ib_attempt = None\<rparr>"
    by (simp add: expected_intent_def action_scope_def)
  from same_intent [OF this] have tag: "ai_tag i = ai_tag j \<or> (\<exists>x y. sha_collision P x y)" by auto
  have "hash_json P (canonicalPacketForHash (ai_packet i)) = hash_json P (canonicalPacketForHash (ai_packet j))"
    using h hi hj by (simp add: computePacketHash_def)
  from hash_json_eq [OF this]
  have "canon (coll_key P) (canonicalPacketForHash (ai_packet i)) = canon (coll_key P) (canonicalPacketForHash (ai_packet j)) \<or>
    (\<exists>x y. sha_collision P x y)" by auto
  then have "ai_packet i = ai_packet j \<or> (\<exists>x y. sha_collision P x y)"
  proof
    assume "canon (coll_key P) (canonicalPacketForHash (ai_packet i)) = canon (coll_key P) (canonicalPacketForHash (ai_packet j))"
    from packet_members_inj [OF this, of "pk_hash (ai_packet j)"] have "ai_packet i = ai_packet j"
      using h by (metis packet.surjective packet.update_convs(6))
    then show ?thesis ..
  qed blast
  with tag ad show ?thesis by blast
qed

text \<open>C3: the kill switch holds. Whatever commands follow an engagement (engaging again, rearming with any
  token, the tokenless authorized rearm, enabling in any mode), a decision under the resulting configuration
  allows only when a rearm, authorized or with the right token, was followed by an enabling, no engagement
  came after the rearm, and nothing after the enabling engaged or rearmed again.\<close>

theorem kill_switch_holds:
  assumes "ai_config i = run_config (engageKillSwitch c by_whom reason t) ops"
    and "ad_allowed (fst (decideAutoApply P F i))"
  shows "\<exists>a r b m d. ops = a @ r # b @ EnableAuto m # d \<and> rearms r \<and> list_all (\<lambda>x. \<not> engages x) b \<and>
    list_all (\<lambda>x. \<not> engages x \<and> \<not> rearms x) d"
proof -
  have "cf_enabled (ai_config i)"
    using decideAutoApply_allowed [OF assms(2)] by (simp add: gates_def Let_def)
  then have "enabled_by ops"
    using config_history [of c by_whom reason t ops] assms(1) by simp
  then show ?thesis
    unfolding enabled_by_def rearmed_by_def by fastforce
qed

text \<open>In every configuration reached from the default one, an engaged kill switch means disabled and
  manual and names who engaged it, and enabled means a mode other than manual: rearming never enables.\<close>

lemma config_reachable_inv:
  assumes "config_step\<^sup>*\<^sup>* defaultAutoApplyConfig c"
  shows "(ks_engaged (cf_kill c) \<longrightarrow> \<not> cf_enabled c \<and> cf_mode c = Manual \<and> ks_engaged_by (cf_kill c) \<noteq> None) \<and>
    (cf_enabled c \<longrightarrow> cf_mode c \<noteq> Manual)"
  using config_run_inv [OF assms] by (simp add: config_inv_def defaultAutoApplyConfig_def)

section \<open>Sample values\<close>

definition sample_fs :: file_system where
  "sample_fs = \<lparr>fs_cwd = [''w''], fs_exists = (\<lambda>_. True), fs_realpath = (\<lambda>p. p), fs_is_file = (\<lambda>_. True),
     fs_content = (\<lambda>_. ''cv'')\<rparr>"

definition sample_claim :: claim where
  "sample_claim = \<lparr>cm_id = ''C1'', cm_text = ''BSc  2020'', cm_hash = ''sha256:BSc 2020'', cm_type = CtDegree,
     cm_status = EsVerified, cm_source_type = StFile, cm_pointer = ''f'', cm_verified_date = Some ''2026-01-01'',
     cm_recency_required = True, cm_recency_policy = Some CredentialStatus, cm_public = True, cm_in_cv = True,
     cm_in_outreach = True, cm_in_auto_apply = True\<rparr>"

definition sample_graph :: claim_graph where
  "sample_graph = \<lparr>cg_profile = ''p'', cg_scope = Synthetic, cg_generated_at = ''t'', cg_version = ''1'',
     cg_claims = [sample_claim], cg_verified = 1, cg_unverified = 0, cg_private = 0\<rparr>"

definition sample_body :: packet where
  "sample_body = \<lparr>pk_opportunity = ''OPP-1'', pk_claims = [\<lparr>pc_id = ''C1'', pc_text = '' BSc 2020'',
      pc_hash = ''sha256:BSc 2020'', pc_status = EsVerified, pc_pointer = ''f'', pc_public = True\<rparr>],
      pk_documents = [\<lparr>pd_kind = DkCv, pd_path = ''a/../cv.pdf'', pd_hash = ''sha256:cv''\<rparr>], pk_tos = True,
      pk_generated_at = ''t'', pk_hash = [], pk_approval_required = True\<rparr>"

definition sample_packet :: packet where
  "sample_packet = sample_body\<lparr>pk_hash := computePacketHash sample_platform sample_body\<rparr>"

definition sample_config :: auto_apply_config where
  "sample_config = defaultAutoApplyConfig\<lparr>cf_enabled := True, cf_mode := Auto\<rparr>"

definition sample_input :: auto_apply_input where
  "sample_input = (let i = \<lparr>ai_config = sample_config, ai_packet = sample_packet, ai_graph = sample_graph,
      ai_tag = R2, ai_flags = Some (\<lambda>_. Some False), ai_adapter = ''local-fixture'', ai_approval = None,
      ai_approvers = sample_approvers,
      ai_signals = Some \<lparr>rs_captcha = Some False, rs_anti_bot = Some False, rs_payment = Some False,
        rs_identity = Some False, rs_tos_unclear = Some False, rs_license = Some False, rs_fabrication = Some False\<rparr>,
      ai_root = Some ''/w'', ai_ledger = Some \<lparr>lf_lines = None, lf_write_error = None\<rparr>, ai_entries = None,
      ai_action = Some ''A-1'', ai_now = 1767225600001, ai_uuid = ''u''\<rparr> in
    i\<lparr>ai_approval := Some (sign_as ''k'' (sample_approval\<lparr>ap_packet := pk_hash sample_packet,
      ap_intent := expected_intent sample_platform (action_scope i)\<rparr>))\<rparr>)"

lemma sample_graph_sound: "graph_sound sample_platform 1767225600001 sample_graph"
proof -
  have "computeClaimTextHash sample_platform ''BSc  2020'' = ''sha256:BSc 2020''" by code_simp
  then show ?thesis
    by (simp add: graph_sound_def sample_graph_def sample_claim_def claim_current_def verified_date_def
        count_claims_def)
qed

lemma sample_supported:
  "packet_supported sample_platform sample_fs 1767225600001 (Some ''/w'') sample_graph sample_packet"
proof -
  have w: "words ''BSc  2020'' = words '' BSc 2020''" by code_simp
  have "validateDocument sample_platform sample_fs \<lparr>pd_kind = DkCv, pd_path = ''a/../cv.pdf'', pd_hash = ''sha256:cv''\<rparr>
      (Some ''/w'') = []" by code_simp
  moreover have "computePacketHash sample_platform sample_packet = computePacketHash sample_platform sample_body"
    by (simp add: computePacketHash_def canonicalPacketForHash_def packet_members_def sample_packet_def)
  moreover have "pk_hash sample_packet = computePacketHash sample_platform sample_body"
    "pk_claims sample_packet = pk_claims sample_body" "pk_documents sample_packet = pk_documents sample_body"
    "pk_tos sample_packet"
    by (simp_all add: sample_packet_def sample_body_def)
  ultimately show ?thesis
    using w sample_graph_sound
    by (simp add: packet_supported_def sample_body_def document_ok_def backs_def sample_graph_def sample_claim_def)
qed

lemma gates_action: "gates P F (i\<lparr>ai_action := a\<rparr>) = gates P F i"
proof -
  have "dailyUsage (i\<lparr>ai_action := a\<rparr>) = dailyUsage i"
    by (rule ext) (simp add: dailyUsage_def split: option.split)
  moreover have "action_scope (i\<lparr>ai_action := a\<rparr>) = action_scope i"
    by (simp add: action_scope_def)
  ultimately show ?thesis by (simp add: gates_def Let_def)
qed

lemma sample_gates: "gates sample_platform sample_fs sample_input"
proof -
  have "used_today 1767225600001 [] = []" by (simp add: used_today_def)
  then show ?thesis
    using sample_supported
    by (auto simp: gates_def sample_input_def Let_def sample_config_def defaultAutoApplyConfig_def effectiveMode_def
        override_of_def excluded_def signal_values_def dailyUsage_def readLedger_def isInCooldown_def
        approval_valid_iff approval_conditions_def find_approver_def sample_approvers_def signature_ok_def
        action_scope_def sample_graph_def expected_intent_def sample_packet_def sample_body_def)
qed

lemma sample_allowed: "ad_allowed (fst (decideAutoApply sample_platform sample_fs sample_input))"
  using sample_gates
  by (simp add: decideAutoApply_iff schemas_ok_def appendLedgerEntry_def assertSchema_def
      sample_input_def readLedger_def Let_def)

section \<open>Witnesses\<close>

theorem packet_documents_confined_witness:
  "\<exists>rt real below. Some ''/w'' = Some rt \<and>
    real = fs_realpath sample_fs (path_resolve (path_resolve (fs_cwd sample_fs) rt) (pd_path (hd (pk_documents sample_packet)))) \<and>
    real = fs_realpath sample_fs (path_resolve (fs_cwd sample_fs) rt) @ below \<and> fs_is_file sample_fs real \<and>
    sha256 sample_platform (fs_content sample_fs real) = pd_hash (hd (pk_documents sample_packet))"
proof -
  obtain r where "validateApplicationPacket sample_platform sample_fs sample_packet sample_graph 1767225600001 (Some ''/w'') = Inr r"
    "vr_valid r"
    using sample_supported validateApplicationPacket_iff [of sample_platform sample_fs sample_packet sample_graph] by auto
  then show ?thesis
    by (rule packet_documents_confined) (simp add: sample_packet_def sample_body_def)
qed

theorem one_approval_one_packet_witness:
  "(ai_packet sample_input = ai_packet (sample_input\<lparr>ai_action := Some ''A-2''\<rparr>) \<and>
    ai_adapter sample_input = ai_adapter (sample_input\<lparr>ai_action := Some ''A-2''\<rparr>) \<and>
    ai_tag sample_input = ai_tag (sample_input\<lparr>ai_action := Some ''A-2''\<rparr>)) \<or>
   (\<exists>x y. sha_collision sample_platform x y)"
proof (rule one_approval_one_packet [OF sample_allowed])
  have "gates sample_platform sample_fs (sample_input\<lparr>ai_action := Some ''A-2''\<rparr>)"
    using sample_gates by (simp only: gates_action)
  then show "ad_allowed (fst (decideAutoApply sample_platform sample_fs (sample_input\<lparr>ai_action := Some ''A-2''\<rparr>)))"
    by (simp add: decideAutoApply_iff schemas_ok_def appendLedgerEntry_def assertSchema_def
        sample_input_def readLedger_def Let_def)
qed simp

theorem kill_switch_holds_witness:
  "\<exists>a r b m d. [EnableAuto Auto, RearmToken ''REARM-AUTO-APPLY'', EnableAuto Auto] = a @ r # b @ EnableAuto m # d \<and>
    rearms r \<and> list_all (\<lambda>x. \<not> engages x) b \<and> list_all (\<lambda>x. \<not> engages x \<and> \<not> rearms x) d"
proof (rule kill_switch_holds)
  show "ai_config sample_input = run_config (engageKillSwitch defaultAutoApplyConfig ''ada'' ''stop'' 0)
      [EnableAuto Auto, RearmToken ''REARM-AUTO-APPLY'', EnableAuto Auto]"
    by (simp add: sample_input_def Let_def sample_config_def run_config_def engageKillSwitch_def rearmAutoApply_def
        rearmAutoApplyAuthorized_def enableAutoApply_def REARM_TOKEN_def defaultAutoApplyConfig_def)
  show "ad_allowed (fst (decideAutoApply sample_platform sample_fs sample_input))"
    by (rule sample_allowed)
qed

end
