(* ===== verification/SubmissionProof.thy ===== *)
theory SubmissionProof
  imports Hash
begin

text \<open>
  Proofs that an application was really submitted (src/src/submission-proof.ts): a collector signs an
  observation, the evaluation confirms, rejects or finds it insufficient. The patterns for indicator
  texts are the alternatives of the source's regular expressions, searched without regard to case.
\<close>

datatype proof_kind = ConfirmationPage | AtsDashboard | SentItems | ReceiptEmail

fun proof_kind_str :: "proof_kind \<Rightarrow> string" where
  "proof_kind_str ConfirmationPage = ''confirmation-page''"
| "proof_kind_str AtsDashboard = ''ats-dashboard''"
| "proof_kind_str SentItems = ''sent-items''"
| "proof_kind_str ReceiptEmail = ''receipt-email''"

record submission_observation =
  so_collector :: string
  so_version :: string
  so_key :: string
  so_attempt :: string
  so_intent :: string
  so_opportunity :: string
  so_packet :: string
  so_adapter :: string
  so_kind :: proof_kind
  so_captured :: string
  so_domain :: string
  so_pointer :: string
  so_indicators :: "string list"
  so_recipient :: "string option"
  so_attachments :: "int option"
  so_reference :: "string option"
  so_sent :: "string option"
  so_payload :: string

record submission_proof = submission_observation +
  sp_id :: string
  sp_receipt :: string
  sp_algorithm :: string
  sp_signature :: string

record observation_draft =
  od_collector :: string
  od_version :: string
  od_key :: string
  od_attempt :: string
  od_intent :: string
  od_opportunity :: string
  od_packet :: string
  od_adapter :: string
  od_kind :: proof_kind
  od_captured :: "string option"
  od_domain :: string
  od_pointer :: string
  od_indicators :: "string list"
  od_recipient :: "string option"
  od_attachments :: "int option"
  od_reference :: "string option"
  od_sent :: "string option"
  od_payload :: string

record trusted_collector =
  tc_id :: string
  tc_key :: string
  tc_pem :: string
  tc_adapters :: "string list"
  tc_domains :: "string list"
  tc_kinds :: "proof_kind list"

record proof_policy =
  pp_attachment_required :: bool

record proof_expectation =
  pe_attempt :: string
  pe_intent :: string
  pe_opportunity :: string
  pe_packet :: string
  pe_adapter :: string
  pe_submitted :: string
  pe_evaluated :: "string option"

datatype proof_status = PsConfirmed | PsInsufficient | PsRejected

fun proof_status_str :: "proof_status \<Rightarrow> string" where
  "proof_status_str PsConfirmed = ''confirmed''"
| "proof_status_str PsInsufficient = ''insufficient''"
| "proof_status_str PsRejected = ''rejected''"

record proof_evaluation =
  ev_proof :: string
  ev_opportunity :: string
  ev_status :: proof_status
  ev_reasons :: "string list"
  ev_ledger_eligible :: bool
  ev_collector :: string

definition MAX_INDICATORS :: nat where "MAX_INDICATORS = 20"

definition MAX_INDICATOR_LENGTH :: nat where "MAX_INDICATOR_LENGTH = 200"

definition MAX_SOURCE_POINTER_LENGTH :: nat where "MAX_SOURCE_POINTER_LENGTH = 200"

definition MAX_REFERENCE_ID_LENGTH :: nat where "MAX_REFERENCE_ID_LENGTH = 64"

definition safe_source_pointer :: "string \<Rightarrow> bool" where
  "safe_source_pointer s = list_ex (\<lambda>p. starts_with p s \<and> drop (length p) s \<noteq> [] \<and>
     list_all (\<lambda>c. is_alnum c \<or> c \<in> set ''._:/-'') (drop (length p) s)) [''redacted:'', ''local:'', ''proof:'']"

definition safe_reference_id :: "string \<Rightarrow> bool" where
  "safe_reference_id s = (s \<noteq> [] \<and> is_alnum (hd s) \<and> length (tl s) \<le> 63 \<and>
     list_all (\<lambda>c. is_alnum c \<or> c \<in> set ''._:-'') (tl s))"

definition domain_pattern :: "string \<Rightarrow> bool" where
  "domain_pattern s = (s \<noteq> [] \<and> list_all (\<lambda>c. is_lower c \<or> is_digit c \<or> c \<in> set ''.-'') s)"

definition POSITIVE_PATTERNS :: "string list" where
  "POSITIVE_PATTERNS = [''application received'', ''application has been received'', ''thank you for applying'',
     ''application submitted'', ''application was submitted'', ''successfully submitted'',
     ''we received your application'', ''we have received your application'', ''application complete'']"

definition NEGATIVE_PATTERNS :: "string list" where
  "NEGATIVE_PATTERNS = [''security code'', ''verification code'', ''resubmit'', ''application incomplete'',
     ''application is incomplete'', ''submission failed'', ''application not submitted'',
     ''application was not submitted'', ''application not received'', ''application was not received'',
     ''finish your application'', ''complete your application'', ''pending submission'']"

definition matches_any :: "string list \<Rightarrow> string \<Rightarrow> bool" where
  "matches_any ps s = list_ex (\<lambda>p. includes_str p (to_lower s)) ps"

definition defaultSubmissionProofPolicy :: proof_policy where
  "defaultSubmissionProofPolicy = \<lparr>pp_attachment_required = True\<rparr>"

definition normalizeIndicator :: "string \<Rightarrow> string" where
  "normalizeIndicator s = collapse_ws (trim s)"

definition normalizeSourcePointer :: "string \<Rightarrow> string result" where
  "normalizeSourcePointer s = (let n = trim s in
     if MAX_SOURCE_POINTER_LENGTH < length n
     then throw ''Submission proof source pointers must not exceed 200 characters''
     else if includes_str ''://'' n \<or> \<not> safe_source_pointer n
     then throw ''Submission proof source pointers must use a redacted:, local:, or proof: reference without URLs or query data''
     else Inr n)"

definition normalizeDomain :: "string \<Rightarrow> string result" where
  "normalizeDomain s = (let n = to_lower (trim s) in
     if \<not> domain_pattern n \<or> \<not> includes_str ''.'' n
     then throw ''Submission proof domains must be host names without email addresses'' else Inr n)"

definition normalizeOptionalDomain :: "string option \<Rightarrow> string option result" where
  "normalizeOptionalDomain s = (if s = None \<or> s = Some [] then Inr None
     else bindE (normalizeDomain (the s)) (\<lambda>d. Inr (Some d)))"

definition normalizeReferenceId :: "string option \<Rightarrow> string option result" where
  "normalizeReferenceId s = (let n = (case s of None \<Rightarrow> [] | Some v \<Rightarrow> trim v) in
     if n = [] then Inr None
     else if MAX_REFERENCE_ID_LENGTH < length n \<or> \<not> safe_reference_id n
     then throw ''Submission proof reference ids must be bounded opaque identifiers without URLs, email addresses, or query data''
     else Inr (Some n))"

definition observation_members :: "'a submission_observation_scheme \<Rightarrow> (string \<times> json) list" where
  "observation_members b = [(''collectorId'', JStr (so_collector b)), (''collectorVersion'', JStr (so_version b)),
     (''keyId'', JStr (so_key b)), (''attemptId'', JStr (so_attempt b)), (''actionIntentHash'', JStr (so_intent b)),
     (''opportunityId'', JStr (so_opportunity b)), (''packetHash'', JStr (so_packet b)),
     (''adapterId'', JStr (so_adapter b)), (''kind'', JStr (proof_kind_str (so_kind b))),
     (''capturedAt'', JStr (so_captured b)), (''sourceDomain'', JStr (so_domain b)),
     (''sourcePointer'', JStr (so_pointer b)), (''indicators'', jstrs (so_indicators b)),
     (''recipientDomain'', jnull JStr (so_recipient b)), (''attachmentCount'', jnull JNum (so_attachments b)),
     (''referenceId'', jnull JStr (so_reference b)), (''sentAt'', jnull JStr (so_sent b)),
     (''payloadHash'', JStr (so_payload b))]"

definition proof_json :: "submission_proof \<Rightarrow> json" where
  "proof_json p = JObj (observation_members p @ [(''proofId'', JStr (sp_id p)), (''receiptHash'', JStr (sp_receipt p)),
     (''signatureAlgorithm'', JStr (sp_algorithm p)), (''signature'', JStr (sp_signature p))])"

definition canonicalObservation :: "platform \<Rightarrow> 'a submission_observation_scheme \<Rightarrow> string" where
  "canonicalObservation P b = stable_stringify (coll_key P) (JObj (observation_members b))"

definition computeSubmissionReceiptHash :: "platform \<Rightarrow> 'a submission_observation_scheme \<Rightarrow> string" where
  "computeSubmissionReceiptHash P b = sha256 P (canonicalObservation P b)"

text \<open>\<open>toUpperCase\<close> of a hexadecimal digest.\<close>

definition upper_hex :: "string \<Rightarrow> string" where
  "upper_hex s = map (\<lambda>c. if is_lower c then char_of (of_char c - 32 :: nat) else c) s"

definition createSubmissionProof :: "platform \<Rightarrow> observation_draft \<Rightarrow> string \<Rightarrow> int \<Rightarrow> submission_proof result" where
  "createSubmissionProof P d privateKey now = (
     let indicators = dedup (filter (\<lambda>s. s \<noteq> []) (map normalizeIndicator (od_indicators d))) in
     if MAX_INDICATORS < length indicators then throw ''Submission proof accepts at most 20 indicators''
     else if list_ex (\<lambda>s. MAX_INDICATOR_LENGTH < length s) indicators
     then throw ''Submission proof indicators must not exceed 200 characters''
     else
       bindE (normalizeDomain (od_domain d)) (\<lambda>dom.
       bindE (normalizeSourcePointer (od_pointer d)) (\<lambda>ptr.
       bindE (normalizeOptionalDomain (od_recipient d)) (\<lambda>recipient.
       bindE (normalizeReferenceId (od_reference d)) (\<lambda>reference.
       let obs = \<lparr>so_collector = trim (od_collector d), so_version = trim (od_version d), so_key = trim (od_key d),
             so_attempt = od_attempt d, so_intent = od_intent d, so_opportunity = od_opportunity d,
             so_packet = od_packet d, so_adapter = trim (od_adapter d), so_kind = od_kind d,
             so_captured = (case od_captured d of Some c \<Rightarrow> c | None \<Rightarrow> to_iso now),
             so_domain = dom, so_pointer = ptr, so_indicators = indicators, so_recipient = recipient,
             so_attachments = od_attachments d, so_reference = reference, so_sent = od_sent d,
             so_payload = od_payload d\<rparr>;
           receipt = computeSubmissionReceiptHash P obs;
           p = submission_observation.extend obs (submission_proof.fields
             (''PRF-'' @ upper_hex (take 20 (drop (length ''sha256:'') receipt))) receipt ''Ed25519''
             (ed25519_sign P privateKey receipt)) in
       bindE (assertSchema P ''submission-proof'' (proof_json p)) (\<lambda>_. Inr p))))))"

definition evaluation :: "submission_proof \<Rightarrow> proof_status \<Rightarrow> string list \<Rightarrow> proof_evaluation" where
  "evaluation p st rs = \<lparr>ev_proof = sp_id p, ev_opportunity = so_opportunity p, ev_status = st, ev_reasons = rs,
     ev_ledger_eligible = (st = PsConfirmed), ev_collector = so_collector p\<rparr>"

definition positiveIndicatorExists :: "string list \<Rightarrow> bool" where
  "positiveIndicatorExists is = list_ex (matches_any POSITIVE_PATTERNS) is"

definition negativeIndicators :: "string list \<Rightarrow> string list" where
  "negativeIndicators is = filter (matches_any NEGATIVE_PATTERNS) is"

text \<open>A string member that is null, undefined or empty is falsy.\<close>

definition truthy :: "string option \<Rightarrow> bool" where
  "truthy s = (s \<noteq> None \<and> s \<noteq> Some [])"

definition CLOCK_SKEW :: int where "CLOCK_SKEW = 300000"

definition sent_items_reasons :: "platform \<Rightarrow> submission_proof \<Rightarrow> int option \<Rightarrow> int option \<Rightarrow> proof_policy \<Rightarrow> string list" where
  "sent_items_reasons P p submitted captured policy =
     (if \<not> truthy (so_recipient p) then [''recipient domain is missing''] else []) @
     (if \<not> truthy (so_sent p) then [''Sent Items timestamp is missing''] else []) @
     (if truthy (so_sent p) then let sent = parse_date P (the (so_sent p)) in
        (if sent = None \<or> nlt (nadd sent CLOCK_SKEW) submitted \<or> nlt (nadd captured CLOCK_SKEW) sent
         then [''Sent Items timestamp is outside the application attempt window''] else [])
      else []) @
     (if pp_attachment_required policy \<and> (case so_attachments p of None \<Rightarrow> 0 | Some n \<Rightarrow> n) < 1
      then [''required application attachment is missing''] else [])"

definition find_collector :: "trusted_collector list \<Rightarrow> submission_proof \<Rightarrow> trusted_collector option" where
  "find_collector cs p = find (\<lambda>c. tc_id c = so_collector p \<and> tc_key c = so_key p) cs"

definition binding_matches :: "submission_proof \<Rightarrow> proof_expectation \<Rightarrow> bool" where
  "binding_matches p e = (so_attempt p = pe_attempt e \<and> so_intent p = pe_intent e \<and>
     so_opportunity p = pe_opportunity e \<and> so_packet p = pe_packet e \<and> so_adapter p = pe_adapter e)"

text \<open>The part of the evaluation after the signature: what the signed observation says.\<close>

definition evaluate_content ::
  "platform \<Rightarrow> submission_proof \<Rightarrow> int option \<Rightarrow> int option \<Rightarrow> proof_policy \<Rightarrow> proof_evaluation" where
  "evaluate_content P p submitted captured policy = (
     let negatives = negativeIndicators (so_indicators p) in
     if negatives \<noteq> [] then evaluation p PsRejected (''proof contains a non completion signal'' # negatives)
     else if so_kind p = SentItems then
       (let rs = sent_items_reasons P p submitted captured policy in
        if rs = [] then evaluation p PsConfirmed [''trusted Sent Items collector satisfies the email policy'']
        else evaluation p PsInsufficient rs)
     else if so_kind p = AtsDashboard \<and> \<not> truthy (so_reference p)
     then evaluation p PsInsufficient [''ATS application reference is missing'']
     else if positiveIndicatorExists (so_indicators p)
     then evaluation p PsConfirmed [''trusted collector confirms completion'']
     else evaluation p PsInsufficient [''proof has no positive completion indicator''])"

text \<open>The evaluation; \<open>now\<close> stands in for a missing evaluation time. Verification throws on a key or
  signature it cannot decode, and the evaluation does not catch it.\<close>

definition evaluateSubmissionProof ::
  "platform \<Rightarrow> submission_proof \<Rightarrow> trusted_collector list \<Rightarrow> proof_expectation \<Rightarrow> proof_policy \<Rightarrow> int \<Rightarrow>
   proof_evaluation result" where
  "evaluateSubmissionProof P p trusted e policy now = (
     let rejected = (\<lambda>r. Inr (evaluation p PsRejected [r])) in
     case assertSchema P ''submission-proof'' (proof_json p) of Inl (Error msg) \<Rightarrow> rejected msg
     | Inr _ \<Rightarrow> (case find_collector trusted p of None \<Rightarrow> rejected ''collector is not trusted''
     | Some c \<Rightarrow>
       if so_adapter p \<notin> set (tc_adapters c) then rejected ''collector is not allowed for this adapter''
       else if so_domain p \<notin> set (tc_domains c) then rejected ''source domain is not trusted for this collector''
       else if so_kind p \<notin> set (tc_kinds c) then rejected ''collector is not allowed for this proof kind''
       else if \<not> binding_matches p e then rejected ''proof binding does not match the application attempt''
       else let captured = parse_date P (so_captured p); submitted = parse_date P (pe_submitted e);
                evaluated = parse_date P (case pe_evaluated e of Some t \<Rightarrow> t | None \<Rightarrow> to_iso now) in
       if submitted = None \<or> evaluated = None then rejected ''proof evaluation timestamps are invalid''
       else if nlt (nadd captured CLOCK_SKEW) submitted \<or> nlt (nadd evaluated CLOCK_SKEW) captured
       then rejected ''proof capture time is outside the application attempt window''
       else if computeSubmissionReceiptHash P p \<noteq> sp_receipt p
       then rejected ''receipt hash does not match the collector observation''
       else (case ed25519_verify P (tc_pem c) (sp_receipt p) (sp_signature p) of
         None \<Rightarrow> throw ''verify''
       | Some ok \<Rightarrow> if \<not> ok then rejected ''collector signature is invalid''
           else Inr (evaluate_content P p submitted captured policy))))"

section \<open>When a proof confirms\<close>

definition content_confirms :: "platform \<Rightarrow> submission_proof \<Rightarrow> int option \<Rightarrow> int option \<Rightarrow> proof_policy \<Rightarrow> bool" where
  "content_confirms P p submitted captured policy = (
     list_all (\<lambda>s. \<not> matches_any NEGATIVE_PATTERNS s) (so_indicators p) \<and>
     (if so_kind p = SentItems then sent_items_reasons P p submitted captured policy = []
      else (so_kind p = AtsDashboard \<longrightarrow> truthy (so_reference p)) \<and>
        list_ex (matches_any POSITIVE_PATTERNS) (so_indicators p)))"

definition proof_trusted :: "platform \<Rightarrow> submission_proof \<Rightarrow> trusted_collector list \<Rightarrow> proof_expectation \<Rightarrow> int \<Rightarrow> bool" where
  "proof_trusted P p trusted e now = (
     schema_errors P ''submission-proof'' (proof_json p) = [] \<and>
     (\<exists>c. find_collector trusted p = Some c \<and> so_adapter p \<in> set (tc_adapters c) \<and>
        so_domain p \<in> set (tc_domains c) \<and> so_kind p \<in> set (tc_kinds c) \<and>
        ed25519_verify P (tc_pem c) (sp_receipt p) (sp_signature p) = Some True) \<and>
     binding_matches p e \<and> computeSubmissionReceiptHash P p = sp_receipt p \<and>
     (\<exists>s v. parse_date P (pe_submitted e) = Some s \<and>
        parse_date P (case pe_evaluated e of Some t \<Rightarrow> t | None \<Rightarrow> to_iso now) = Some v \<and>
        (\<forall>c. parse_date P (so_captured p) = Some c \<longrightarrow> s \<le> c + CLOCK_SKEW \<and> c \<le> v + CLOCK_SKEW)))"

lemma evaluation_simps [simp]:
  "ev_status (evaluation p st rs) = st" "ev_proof (evaluation p st rs) = sp_id p"
  "ev_opportunity (evaluation p st rs) = so_opportunity p" "ev_collector (evaluation p st rs) = so_collector p"
  "ev_ledger_eligible (evaluation p st rs) \<longleftrightarrow> st = PsConfirmed" "ev_reasons (evaluation p st rs) = rs"
  by (simp_all add: evaluation_def)

lemma evaluate_content_confirmed:
  "ev_status (evaluate_content P p s c pol) = PsConfirmed \<longleftrightarrow> content_confirms P p s c pol"
  by (auto simp: evaluate_content_def content_confirms_def negativeIndicators_def positiveIndicatorExists_def
      Let_def filter_empty_conv list_all_iff list_ex_iff)

lemma in_window:
  "\<not> nlt (nadd c CLOCK_SKEW) (Some s) \<and> \<not> nlt (nadd (Some v) CLOCK_SKEW) c \<longleftrightarrow>
   (\<forall>x. c = Some x \<longrightarrow> s \<le> x + CLOCK_SKEW \<and> x \<le> v + CLOCK_SKEW)"
  by (cases c) auto

definition confirms :: "proof_evaluation result \<Rightarrow> bool" where
  "confirms r = (case r of Inl _ \<Rightarrow> False | Inr ev \<Rightarrow> ev_status ev = PsConfirmed)"

lemma confirms_simps [simp]:
  "\<not> confirms (Inl err)" "confirms (Inr ev) \<longleftrightarrow> ev_status ev = PsConfirmed"
  "confirms (if b then x else y) \<longleftrightarrow> (if b then confirms x else confirms y)"
  by (simp_all add: confirms_def)

lemma evaluate_trusted:
  assumes "proof_trusted P p trusted e now"
  shows "evaluateSubmissionProof P p trusted e pol now =
    Inr (evaluate_content P p (parse_date P (pe_submitted e)) (parse_date P (so_captured p)) pol)"
proof -
  obtain s v where t: "parse_date P (pe_submitted e) = Some s"
    "parse_date P (case pe_evaluated e of Some t \<Rightarrow> t | None \<Rightarrow> to_iso now) = Some v"
    "\<not> nlt (nadd (parse_date P (so_captured p)) CLOCK_SKEW) (Some s)"
    "\<not> nlt (nadd (Some v) CLOCK_SKEW) (parse_date P (so_captured p))"
    using assms in_window unfolding proof_trusted_def by blast
  have "assertSchema P ''submission-proof'' (proof_json p) = Inr ()"
    using assms by (simp add: proof_trusted_def)
  with t assms show ?thesis
    by (auto simp: evaluateSubmissionProof_def Let_def proof_trusted_def simp del: assertSchema_Inr)
qed

lemma evaluate_confirmed_iff:
  "confirms (evaluateSubmissionProof P p trusted e pol now) \<longleftrightarrow> proof_trusted P p trusted e now \<and>
   content_confirms P p (parse_date P (pe_submitted e)) (parse_date P (so_captured p)) pol"
proof (cases "proof_trusted P p trusted e now")
  case True
  then show ?thesis by (simp add: evaluate_trusted evaluate_content_confirmed)
next
  case False
  have "proof_trusted P p trusted e now" if c: "confirms (evaluateSubmissionProof P p trusted e pol now)"
  proof -
    have s: "assertSchema P ''submission-proof'' (proof_json p) = Inr ()"
      using c by (auto simp: evaluateSubmissionProof_def Let_def split: sum.splits error.splits)
    obtain k where k: "find_collector trusted p = Some k"
      using c s by (cases "find_collector trusted p") (auto simp: evaluateSubmissionProof_def Let_def)
    have w: "so_adapter p \<in> set (tc_adapters k)" "so_domain p \<in> set (tc_domains k)" "so_kind p \<in> set (tc_kinds k)"
      "binding_matches p e" "computeSubmissionReceiptHash P p = sp_receipt p"
      using c s k by (simp_all add: evaluateSubmissionProof_def Let_def split: if_splits)
    obtain s' v where t: "parse_date P (pe_submitted e) = Some s'"
      "parse_date P (case pe_evaluated e of Some t \<Rightarrow> t | None \<Rightarrow> to_iso now) = Some v"
      using c s k w by (auto simp: evaluateSubmissionProof_def Let_def split: if_splits)
    have "ed25519_verify P (tc_pem k) (sp_receipt p) (sp_signature p) = Some True \<and>
      \<not> nlt (nadd (parse_date P (so_captured p)) CLOCK_SKEW) (Some s') \<and>
      \<not> nlt (nadd (Some v) CLOCK_SKEW) (parse_date P (so_captured p))"
      using c s k w t by (auto simp: evaluateSubmissionProof_def Let_def split: if_splits option.splits)
    with s k w t in_window show ?thesis unfolding proof_trusted_def by auto
  qed
  with False show ?thesis by blast
qed

section \<open>A confirmed submission, stated on its own\<close>

text \<open>The phrases the patterns stand for, with their optional words, anywhere in an indicator and in any case.\<close>

definition says :: "string \<Rightarrow> string \<Rightarrow> bool" where
  "says s phrase = (\<exists>u v. to_lower s = u @ phrase @ v)"

definition tells_completion :: "string \<Rightarrow> bool" where
  "tells_completion s = (says s ''application received'' \<or> says s ''application has been received'' \<or>
     says s ''thank you for applying'' \<or> says s ''application submitted'' \<or> says s ''application was submitted'' \<or>
     says s ''successfully submitted'' \<or> says s ''we received your application'' \<or>
     says s ''we have received your application'' \<or> says s ''application complete'')"

definition tells_failure :: "string \<Rightarrow> bool" where
  "tells_failure s = (says s ''security code'' \<or> says s ''verification code'' \<or> says s ''resubmit'' \<or>
     says s ''application incomplete'' \<or> says s ''application is incomplete'' \<or> says s ''submission failed'' \<or>
     says s ''application not submitted'' \<or> says s ''application was not submitted'' \<or>
     says s ''application not received'' \<or> says s ''application was not received'' \<or>
     says s ''finish your application'' \<or> says s ''complete your application'' \<or> says s ''pending submission'')"

text \<open>The message of a Sent Items observation: addressed, dated between five minutes before the submission
  and five minutes after the capture, with an attachment where the policy asks for one.\<close>

definition message_sent :: "platform \<Rightarrow> submission_proof \<Rightarrow> int \<Rightarrow> proof_policy \<Rightarrow> bool" where
  "message_sent P p s pol = (
     (\<exists>d. so_recipient p = Some d \<and> d \<noteq> []) \<and>
     (\<exists>t x. so_sent p = Some t \<and> t \<noteq> [] \<and> parse_date P t = Some x \<and> s \<le> x + 300000 \<and>
        (\<forall>k. parse_date P (so_captured p) = Some k \<longrightarrow> x \<le> k + 300000)) \<and>
     (pp_attachment_required pol \<longrightarrow> (\<exists>n. so_attachments p = Some n \<and> 1 \<le> n)))"

text \<open>The first collector registered under the proof's collector and key may report its adapter, domain and
  kind, and its key verifies the signature.\<close>

definition collector_vouches :: "platform \<Rightarrow> trusted_collector list \<Rightarrow> submission_proof \<Rightarrow> bool" where
  "collector_vouches P trusted p = (\<exists>before k after. trusted = before @ k # after \<and>
     tc_id k = so_collector p \<and> tc_key k = so_key p \<and>
     (\<forall>c \<in> set before. tc_id c \<noteq> so_collector p \<or> tc_key c \<noteq> so_key p) \<and>
     so_adapter p \<in> set (tc_adapters k) \<and> so_domain p \<in> set (tc_domains k) \<and> so_kind p \<in> set (tc_kinds k) \<and>
     ed25519_verify P (tc_pem k) (sp_receipt p) (sp_signature p) = Some True)"

lemma includes_str_iff: "includes_str p s \<longleftrightarrow> (\<exists>u v. s = u @ p @ v)"
proof (induction s)
  case (Cons c s)
  show ?case
  proof
    assume "includes_str p (c # s)"
    then consider v where "c # s = p @ v" | "includes_str p s"
      by (auto simp: starts_with_iff)
    then show "\<exists>u v. c # s = u @ p @ v"
    proof cases
      case 1
      then have "c # s = [] @ p @ v" by simp
      then show ?thesis by blast
    next
      case 2
      then obtain u v where "s = u @ p @ v" using Cons.IH by blast
      then have "c # s = (c # u) @ p @ v" by simp
      then show ?thesis by blast
    qed
  next
    assume "\<exists>u v. c # s = u @ p @ v"
    then obtain u v where e: "c # s = u @ p @ v" by blast
    show "includes_str p (c # s)"
    proof (cases u)
      case Nil
      then have "starts_with p (c # s)" using e by (simp add: starts_with_iff)
      then show ?thesis by simp
    next
      case (Cons d u')
      then show ?thesis using e Cons.IH by auto
    qed
  qed
qed simp

lemma matches_any_says: "matches_any ps s \<longleftrightarrow> list_ex (says s) ps"
  by (simp add: matches_any_def says_def [abs_def] includes_str_iff)

lemma tells_completion_iff: "matches_any POSITIVE_PATTERNS s \<longleftrightarrow> tells_completion s"
  by (simp add: matches_any_says POSITIVE_PATTERNS_def tells_completion_def)

lemma tells_failure_iff: "matches_any NEGATIVE_PATTERNS s \<longleftrightarrow> tells_failure s"
  by (simp add: matches_any_says NEGATIVE_PATTERNS_def tells_failure_def)

lemma find_split: "find Q xs = Some x \<longleftrightarrow> (\<exists>us vs. xs = us @ x # vs \<and> Q x \<and> (\<forall>y \<in> set us. \<not> Q y))"
proof
  assume "find Q xs = Some x"
  then have "xs = takeWhile (\<lambda>y. \<not> Q y) xs @ x # tl (dropWhile (\<lambda>y. \<not> Q y) xs) \<and> Q x"
    by (induction xs) (auto split: if_splits)
  then show "\<exists>us vs. xs = us @ x # vs \<and> Q x \<and> (\<forall>y \<in> set us. \<not> Q y)"
    by (metis set_takeWhileD)
next
  assume "\<exists>us vs. xs = us @ x # vs \<and> Q x \<and> (\<forall>y \<in> set us. \<not> Q y)"
  then obtain us vs where e: "xs = us @ x # vs" and Q: "Q x" and n: "\<forall>y \<in> set us. \<not> Q y" by blast
  from n have "find Q (us @ x # vs) = find Q (x # vs)" by (induction us) auto
  then show "find Q xs = Some x" using e Q by simp
qed

lemma collector_vouches_iff:
  "collector_vouches P trusted p \<longleftrightarrow> (\<exists>k. find_collector trusted p = Some k \<and> so_adapter p \<in> set (tc_adapters k) \<and>
     so_domain p \<in> set (tc_domains k) \<and> so_kind p \<in> set (tc_kinds k) \<and>
     ed25519_verify P (tc_pem k) (sp_receipt p) (sp_signature p) = Some True)"
  unfolding collector_vouches_def find_collector_def find_split by auto

lemma message_sent_iff:
  "sent_items_reasons P p (Some s) (parse_date P (so_captured p)) pol = [] \<longleftrightarrow> message_sent P p s pol"
  by (cases "parse_date P (so_captured p)"; cases "so_recipient p"; cases "so_sent p"; cases "so_attachments p")
    (auto simp: sent_items_reasons_def message_sent_def truthy_def Let_def CLOCK_SKEW_def not_less
      split: if_splits)

section \<open>What the signed digest binds\<close>

lemma proof_kind_str_inj [simp]: "proof_kind_str a = proof_kind_str b \<longleftrightarrow> a = b"
  by (cases a; cases b) auto

lemma canon_jnull [simp]:
  "canon ck (jnull JStr x) = canon ck (jnull JStr y) \<longleftrightarrow> x = y"
  "canon ck (jnull JNum m) = canon ck (jnull JNum n) \<longleftrightarrow> m = n"
  by (auto simp: jnull_def split: option.splits)

lemma observation_safe [simp]: "array_safe (JObj (observation_members b))"
  by (auto simp: observation_members_def jstrs_def jnull_def split: option.splits)

lemma receipt_binds:
  assumes "computeSubmissionReceiptHash P a = computeSubmissionReceiptHash P b"
  shows "submission_observation.truncate a = submission_observation.truncate b \<or> (\<exists>x y. sha_collision P x y)"
proof -
  have "hash_json P (JObj (observation_members a)) = hash_json P (JObj (observation_members b))"
    using assms by (simp add: computeSubmissionReceiptHash_def canonicalObservation_def)
  from hash_json_eq [OF this observation_safe _ observation_safe]
  have "canon (coll_key P) (JObj (observation_members a)) = canon (coll_key P) (JObj (observation_members b)) \<or>
    (\<exists>x y. sha_collision P x y)" by (auto simp del: canon.simps)
  moreover have "submission_observation.truncate a = submission_observation.truncate b"
    if "canon (coll_key P) (JObj (observation_members a)) = canon (coll_key P) (JObj (observation_members b))"
  proof -
    have "list_all2 (\<lambda>e f. canon (coll_key P) (snd e) = canon (coll_key P) (snd f)) (observation_members a) (observation_members b)"
      using that by (rule canon_obj_eq) (simp_all add: observation_members_def)
    then show ?thesis by (simp add: observation_members_def submission_observation.defs)
  qed
  ultimately show ?thesis by blast
qed

section \<open>What a created proof looks like\<close>

lemma createSubmissionProof_shape:
  assumes "createSubmissionProof P d sk now = Inr p"
  shows "so_indicators p = dedup (filter (\<lambda>s. s \<noteq> []) (map normalizeIndicator (od_indicators d))) \<and>
    length (so_indicators p) \<le> MAX_INDICATORS \<and> (\<forall>s \<in> set (so_indicators p). length s \<le> MAX_INDICATOR_LENGTH) \<and>
    normalizeDomain (od_domain d) = Inr (so_domain p) \<and> normalizeSourcePointer (od_pointer d) = Inr (so_pointer p) \<and>
    normalizeReferenceId (od_reference d) = Inr (so_reference p) \<and>
    normalizeOptionalDomain (od_recipient d) = Inr (so_recipient p)"
  using assms
  by (auto simp: createSubmissionProof_def Let_def submission_observation.defs submission_proof.defs list_ex_iff
      not_less split: if_splits)

lemma createSubmissionProof_signed:
  assumes "createSubmissionProof P d sk now = Inr p"
  shows "sp_receipt p = computeSubmissionReceiptHash P p \<and> sp_signature p = ed25519_sign P sk (sp_receipt p) \<and>
    so_attempt p = od_attempt d \<and> so_intent p = od_intent d \<and> so_opportunity p = od_opportunity d \<and>
    so_packet p = od_packet d \<and> so_adapter p = trim (od_adapter d) \<and> so_kind p = od_kind d \<and>
    so_collector p = trim (od_collector d) \<and> so_key p = trim (od_key d) \<and>
    so_captured p = (case od_captured d of Some c \<Rightarrow> c | None \<Rightarrow> to_iso now) \<and>
    schema_errors P ''submission-proof'' (proof_json p) = []"
proof -
  have f: "(if b then Inl e else m) = Inr y \<longleftrightarrow> \<not> b \<and> m = Inr y" for b and e :: error and m and y :: submission_proof by simp
  have t: "computeSubmissionReceiptHash P (submission_observation.extend a b) = computeSubmissionReceiptHash P a" for a :: submission_observation and b
    by (simp add: computeSubmissionReceiptHash_def canonicalObservation_def observation_members_def submission_observation.defs)
  have sc: "schema_errors P ''submission-proof'' (proof_json p) = []"
    using assms unfolding createSubmissionProof_def Let_def f bindE_Inr_iff assertSchema_Inr sum.inject by (elim exE conjE, hypsubst)
  obtain a i s where p: "p = submission_observation.extend a (submission_proof.fields i (computeSubmissionReceiptHash P a) s
      (ed25519_sign P sk (computeSubmissionReceiptHash P a)))"
    "so_attempt a = od_attempt d \<and> so_intent a = od_intent d \<and> so_opportunity a = od_opportunity d \<and>
    so_packet a = od_packet d \<and> so_adapter a = trim (od_adapter d) \<and> so_kind a = od_kind d \<and>
    so_collector a = trim (od_collector d) \<and> so_key a = trim (od_key d) \<and>
    so_captured a = (case od_captured d of Some c \<Rightarrow> c | None \<Rightarrow> to_iso now)"
    using assms unfolding createSubmissionProof_def Let_def f bindE_Inr_iff assertSchema_Inr sum.inject
    by (elim exE conjE) (rule that, erule sym, simp)
  have h: "computeSubmissionReceiptHash P p = computeSubmissionReceiptHash P a" unfolding p(1) by (rule t)
  have "sp_receipt p = computeSubmissionReceiptHash P a" "sp_signature p = ed25519_sign P sk (computeSubmissionReceiptHash P a)"
    "so_attempt p = so_attempt a" "so_intent p = so_intent a" "so_opportunity p = so_opportunity a" "so_packet p = so_packet a"
    "so_adapter p = so_adapter a" "so_kind p = so_kind a" "so_collector p = so_collector a" "so_key p = so_key a" "so_captured p = so_captured a"
    unfolding p(1) by (simp_all add: submission_observation.defs submission_proof.defs)
  then show ?thesis using p(2) sc h by simp
qed

section \<open>Properties\<close>

text \<open>C12: what a confirmed submission rests on. The evaluation confirms exactly when the proof is well
  formed; the first collector registered under its collector and key identifiers may report this adapter,
  domain and kind and its public key verifies the signature; attempt, intent, opportunity, packet and adapter
  are those expected; the signed digest is that of the observation, member by member; submission and
  evaluation have dates, and a dated capture lies between them up to five minutes; no indicator tells of a
  failed submission; and a Sent Items observation shows an addressed and dated message with the attachment the
  policy asks for, any other one an indicator of completion, with a reference from a dashboard.\<close>

theorem evaluateSubmissionProof_confirms_iff:
  "(case evaluateSubmissionProof P p trusted e pol now of Inl _ \<Rightarrow> False | Inr ev \<Rightarrow> ev_status ev = PsConfirmed) \<longleftrightarrow>
   schema_errors P ''submission-proof'' (proof_json p) = [] \<and> collector_vouches P trusted p \<and>
   so_attempt p = pe_attempt e \<and> so_intent p = pe_intent e \<and> so_opportunity p = pe_opportunity e \<and>
   so_packet p = pe_packet e \<and> so_adapter p = pe_adapter e \<and>
   sp_receipt p = sha256 P (stable_stringify (coll_key P) (JObj [
     (''collectorId'', JStr (so_collector p)), (''collectorVersion'', JStr (so_version p)),
     (''keyId'', JStr (so_key p)), (''attemptId'', JStr (so_attempt p)), (''actionIntentHash'', JStr (so_intent p)),
     (''opportunityId'', JStr (so_opportunity p)), (''packetHash'', JStr (so_packet p)),
     (''adapterId'', JStr (so_adapter p)), (''kind'', JStr (proof_kind_str (so_kind p))),
     (''capturedAt'', JStr (so_captured p)), (''sourceDomain'', JStr (so_domain p)),
     (''sourcePointer'', JStr (so_pointer p)), (''indicators'', jstrs (so_indicators p)),
     (''recipientDomain'', jnull JStr (so_recipient p)), (''attachmentCount'', jnull JNum (so_attachments p)),
     (''referenceId'', jnull JStr (so_reference p)), (''sentAt'', jnull JStr (so_sent p)),
     (''payloadHash'', JStr (so_payload p))])) \<and>
   (\<exists>s v. parse_date P (pe_submitted e) = Some s \<and>
     parse_date P (case pe_evaluated e of Some t \<Rightarrow> t | None \<Rightarrow> to_iso now) = Some v \<and>
     (\<forall>k. parse_date P (so_captured p) = Some k \<longrightarrow> s \<le> k + 300000 \<and> k \<le> v + 300000) \<and>
     (so_kind p = SentItems \<longrightarrow> message_sent P p s pol)) \<and>
   (\<forall>x \<in> set (so_indicators p). \<not> tells_failure x) \<and>
   (so_kind p = AtsDashboard \<longrightarrow> (\<exists>r. so_reference p = Some r \<and> r \<noteq> [])) \<and>
   (so_kind p \<noteq> SentItems \<longrightarrow> (\<exists>x \<in> set (so_indicators p). tells_completion x))"
proof -
  have t: "truthy x \<longleftrightarrow> (\<exists>r. x = Some r \<and> r \<noteq> [])" for x by (cases x) (auto simp: truthy_def)
  show ?thesis
    unfolding confirms_def [symmetric] evaluate_confirmed_iff proof_trusted_def content_confirms_def
      binding_matches_def collector_vouches_iff [symmetric] tells_completion_iff tells_failure_iff t
      computeSubmissionReceiptHash_def canonicalObservation_def observation_members_def CLOCK_SKEW_def
    by (cases "so_kind p"; cases "parse_date P (pe_submitted e)")
      (auto simp: message_sent_iff list_all_iff list_ex_iff)
qed

text \<open>a signed receipt stands for one observation: two proofs that are both confirmed and carry one
  receipt digest agree in every observed member, or two texts with one SHA-256 digest have been exhibited.\<close>

lemma receipt_binds_observation:
  assumes "evaluateSubmissionProof P p ts e pol now = Inr ev" and "ev_status ev = PsConfirmed"
    and "evaluateSubmissionProof P q us f pol' now' = Inr ev'" and "ev_status ev' = PsConfirmed"
    and "sp_receipt p = sp_receipt q"
  shows "submission_observation.truncate p = submission_observation.truncate q \<or> (\<exists>x y. sha_collision P x y)"
proof (rule receipt_binds)
  have "proof_trusted P p ts e now" "proof_trusted P q us f now'"
    using assms evaluate_confirmed_iff [of P p ts e pol now] evaluate_confirmed_iff [of P q us f pol' now'] by auto
  then show "computeSubmissionReceiptHash P p = computeSubmissionReceiptHash P q"
    using assms(5) by (simp add: proof_trusted_def)
qed

text \<open>a proof made by a registered collector is judged by its content alone: when the public key verifies
  what the private key signs, the collector may report this adapter, domain and kind, and the times fit,
  the evaluation of a created proof is that of its observation.\<close>

lemma created_proof_evaluates:
  assumes "createSubmissionProof P d sk now = Inr p"
    and "find_collector trusted p = Some c" and "\<And>m. ed25519_verify P (tc_pem c) m (ed25519_sign P sk m) = Some True"
    and "trim (od_adapter d) \<in> set (tc_adapters c)" and "so_domain p \<in> set (tc_domains c)" and "od_kind d \<in> set (tc_kinds c)"
    and "pe_attempt e = od_attempt d" and "pe_intent e = od_intent d" and "pe_opportunity e = od_opportunity d"
    and "pe_packet e = od_packet d" and "pe_adapter e = trim (od_adapter d)" and "pe_evaluated e = Some te"
    and "parse_date P (pe_submitted e) = Some s" and "parse_date P te = Some v"
    and "parse_date P (so_captured p) = Some k" and "s \<le> k + 300000" and "k \<le> v + 300000"
  shows "evaluateSubmissionProof P p trusted e pol later = Inr (evaluate_content P p (Some s) (Some k) pol)"
proof -
  have "proof_trusted P p trusted e later"
    using createSubmissionProof_signed [OF assms(1)] assms
    by (auto simp: proof_trusted_def binding_matches_def CLOCK_SKEW_def)
  from evaluate_trusted [OF this] show ?thesis using assms by simp
qed

text \<open>what a created proof discloses is bounded: at most 20 distinct indicators of at most 200
  characters, each a sequence of words with single spaces; a host name with a dot and no other punctuation
  but hyphens; a source pointer of at most 200 characters without a URL; an opaque reference of at most 64.\<close>

lemma created_proof_bounded:
  assumes "createSubmissionProof P d sk now = Inr p"
  shows "length (so_indicators p) \<le> 20 \<and> distinct (so_indicators p) \<and>
    (\<forall>s \<in> set (so_indicators p). s \<noteq> [] \<and> length s \<le> 200 \<and> s = joins '' '' (words s)) \<and>
    list_all (\<lambda>c. is_lower c \<or> is_digit c \<or> c \<in> set ''.-'') (so_domain p) \<and> includes_str ''.'' (so_domain p) \<and>
    length (so_pointer p) \<le> 200 \<and> \<not> includes_str ''://'' (so_pointer p) \<and> safe_source_pointer (so_pointer p) \<and>
    (case so_reference p of None \<Rightarrow> True | Some r \<Rightarrow> length r \<le> 64 \<and> safe_reference_id r)"
proof -
  have norm: "normalizeIndicator s = joins '' '' (words s)" for s
    using normalize_joins_words [of s] by (simp add: normalizeIndicator_def normalizeClaimText_def)
  have idem: "joins '' '' (words (joins '' '' (words s))) = joins '' '' (words s)" for s
    using words_not_ws by (subst words_joins) auto
  show ?thesis
    using createSubmissionProof_shape [OF assms]
    by (auto simp: MAX_INDICATORS_def MAX_INDICATOR_LENGTH_def norm idem normalizeDomain_def domain_pattern_def
        normalizeSourcePointer_def MAX_SOURCE_POINTER_LENGTH_def normalizeReferenceId_def
        MAX_REFERENCE_ID_LENGTH_def Let_def not_less split: if_splits option.splits)
qed

section \<open>Sample values and witnesses\<close>

definition sample_obs_draft :: observation_draft where
  "sample_obs_draft = \<lparr>od_collector = ''COL-1'', od_version = ''1'', od_key = ''KEY-2'', od_attempt = ''ATT-1'',
     od_intent = ''i'', od_opportunity = ''OPP-1'', od_packet = ''h'', od_adapter = ''local-fixture'',
     od_kind = ConfirmationPage, od_captured = Some ''2026-01-01T00:00:00.000Z'', od_domain = ''Example.org'',
     od_pointer = ''local:a'', od_indicators = [''Application  received ''], od_recipient = None,
     od_attachments = None, od_reference = None, od_sent = None, od_payload = ''sha256:0''\<rparr>"

definition sample_proof :: submission_proof where
  "sample_proof = (case createSubmissionProof sample_platform sample_obs_draft ''s'' 0 of Inr p \<Rightarrow> p)"

definition sample_collectors :: "trusted_collector list" where
  "sample_collectors = [\<lparr>tc_id = ''COL-1'', tc_key = ''KEY-2'', tc_pem = ''s'', tc_adapters = [''local-fixture''],
     tc_domains = [''example.org''], tc_kinds = [ConfirmationPage]\<rparr>]"

definition sample_expectation :: proof_expectation where
  "sample_expectation = \<lparr>pe_attempt = ''ATT-1'', pe_intent = ''i'', pe_opportunity = ''OPP-1'', pe_packet = ''h'',
     pe_adapter = ''local-fixture'', pe_submitted = ''2026-01-01T00:00:00.000Z'',
     pe_evaluated = Some ''2026-01-01T00:00:00.000Z''\<rparr>"

lemma sample_date: "parse_date sample_platform ''2026-01-01T00:00:00.000Z'' = Some 1767225600000"
  by code_simp

lemma sample_created: "createSubmissionProof sample_platform sample_obs_draft ''s'' 0 = Inr sample_proof"
proof -
  have "normalizeDomain ''Example.org'' = Inr ''example.org''" "normalizeSourcePointer ''local:a'' = Inr ''local:a''"
    "filter (\<lambda>s. s \<noteq> []) (map normalizeIndicator [''Application  received '']) = [''Application received'']"
    by code_simp+
  then obtain p where "createSubmissionProof sample_platform sample_obs_draft ''s'' 0 = Inr p"
    by (simp add: createSubmissionProof_def sample_obs_draft_def Let_def normalizeOptionalDomain_def
        normalizeReferenceId_def assertSchema_def sample_platform_def MAX_INDICATORS_def MAX_INDICATOR_LENGTH_def
        del: filter.simps list.map)
  then show ?thesis by (simp add: sample_proof_def)
qed

lemma sample_proof_facts:
  "so_collector sample_proof = ''COL-1''" "so_key sample_proof = ''KEY-2''" "so_adapter sample_proof = ''local-fixture''"
  "so_attempt sample_proof = ''ATT-1''" "so_intent sample_proof = ''i''" "so_opportunity sample_proof = ''OPP-1''"
  "so_packet sample_proof = ''h''" "so_kind sample_proof = ConfirmationPage" "so_domain sample_proof = ''example.org''"
  "so_captured sample_proof = ''2026-01-01T00:00:00.000Z''" "so_indicators sample_proof = [''Application received'']"
  "sp_receipt sample_proof = computeSubmissionReceiptHash sample_platform sample_proof"
  "sp_signature sample_proof = ''s'' @ '':'' @ sp_receipt sample_proof"
proof -
  note s = createSubmissionProof_signed [OF sample_created] and h = createSubmissionProof_shape [OF sample_created]
  have "trim ''COL-1'' = ''COL-1''" "trim ''KEY-2'' = ''KEY-2''" "trim ''local-fixture'' = ''local-fixture''"
    by code_simp+
  then show "so_collector sample_proof = ''COL-1''" "so_key sample_proof = ''KEY-2''"
    "so_adapter sample_proof = ''local-fixture''" "so_attempt sample_proof = ''ATT-1''" "so_intent sample_proof = ''i''"
    "so_opportunity sample_proof = ''OPP-1''" "so_packet sample_proof = ''h''" "so_kind sample_proof = ConfirmationPage"
    "so_captured sample_proof = ''2026-01-01T00:00:00.000Z''"
    "sp_receipt sample_proof = computeSubmissionReceiptHash sample_platform sample_proof"
    "sp_signature sample_proof = ''s'' @ '':'' @ sp_receipt sample_proof"
    using s by (simp_all add: sample_obs_draft_def) (simp_all add: sample_platform_def)
  have "normalizeDomain ''Example.org'' = Inr ''example.org''"
    "dedup (filter (\<lambda>s. s \<noteq> []) (map normalizeIndicator [''Application  received ''])) = [''Application received'']"
    by code_simp+
  then show "so_domain sample_proof = ''example.org''" "so_indicators sample_proof = [''Application received'']"
    using h by (simp_all add: sample_obs_draft_def del: filter.simps list.map)
qed

lemma sample_trusted: "proof_trusted sample_platform sample_proof sample_collectors sample_expectation 0"
  by (simp add: proof_trusted_def find_collector_def sample_collectors_def sample_expectation_def
      binding_matches_def sample_proof_facts sample_date CLOCK_SKEW_def) (simp add: sample_platform_def)

lemma sample_confirmed:
  "\<exists>ev. evaluateSubmissionProof sample_platform sample_proof sample_collectors sample_expectation
     defaultSubmissionProofPolicy 0 = Inr ev \<and> ev_status ev = PsConfirmed"
proof -
  have "\<not> matches_any NEGATIVE_PATTERNS ''Application received''" "matches_any POSITIVE_PATTERNS ''Application received''"
    by code_simp+
  then have "content_confirms sample_platform sample_proof s c defaultSubmissionProofPolicy" for s c
    by (simp add: content_confirms_def sample_proof_facts)
  then show ?thesis
    by (simp add: evaluate_trusted [OF sample_trusted] evaluate_content_confirmed)
qed

theorem evaluateSubmissionProof_confirms_iff_witness:
  "collector_vouches sample_platform sample_collectors sample_proof \<and>
   so_packet sample_proof = pe_packet sample_expectation \<and>
   parse_date sample_platform (pe_submitted sample_expectation) \<noteq> None \<and> \<not> tells_failure ''Application received''"
proof -
  have "case evaluateSubmissionProof sample_platform sample_proof sample_collectors sample_expectation
      defaultSubmissionProofPolicy 0 of Inl _ \<Rightarrow> False | Inr ev \<Rightarrow> ev_status ev = PsConfirmed"
    using sample_confirmed by auto
  note f = iffD1 [OF evaluateSubmissionProof_confirms_iff this]
  show ?thesis using f by (auto simp: sample_proof_facts)
qed

end
