(* ===== verification/Lifecycle.thy ===== *)
theory Lifecycle
  imports AutoApply SubmissionProof
begin

text \<open>
  The life of an application attempt (src/src/application-lifecycle.ts): prepared, approved,
  submitted but unconfirmed, confirmed; or blocked. Each operation checks the status it needs, returns the
  next attempt or throws. \<open>run_ops\<close> is a run of operations, all of which succeed.
\<close>

datatype application_channel = AtsForm | OfficialEmail | PlatformProfile | OtherChannel

fun channel_str :: "application_channel \<Rightarrow> string" where
  "channel_str AtsForm = ''ats-form''"
| "channel_str OfficialEmail = ''official-email''"
| "channel_str PlatformProfile = ''platform-profile''"
| "channel_str OtherChannel = ''other''"

datatype attempt_status = Prepared | Approved | SubmittedUnconfirmed | Confirmed | Blocked

fun status_str :: "attempt_status \<Rightarrow> string" where
  "status_str Prepared = ''prepared''"
| "status_str Approved = ''approved''"
| "status_str SubmittedUnconfirmed = ''submitted_unconfirmed''"
| "status_str Confirmed = ''confirmed''"
| "status_str Blocked = ''blocked''"

record attempt =
  at_id :: string
  at_opportunity :: string
  at_packet :: string
  at_adapter :: string
  at_channel :: application_channel
  at_tag :: reversibility
  at_high_stakes :: bool
  at_intent :: string
  at_status :: attempt_status
  at_created :: string
  at_updated :: string
  at_approval :: "string option"
  at_approved_by :: "string option"
  at_approval_key :: "string option"
  at_approval_expires :: "string option"
  at_proof :: "string option"
  at_receipt :: "string option"
  at_collector :: "string option"
  at_blocker :: "string option"

record attempt_input =
  an_opportunity :: string
  an_packet :: string
  an_adapter :: string
  an_channel :: application_channel
  an_tag :: reversibility
  an_flags :: high_stakes_flags
  an_now :: int

definition attempt_json :: "attempt \<Rightarrow> json" where
  "attempt_json a = JObj [(''attemptId'', JStr (at_id a)), (''opportunityId'', JStr (at_opportunity a)),
     (''packetHash'', JStr (at_packet a)), (''adapterId'', JStr (at_adapter a)),
     (''channel'', JStr (channel_str (at_channel a))), (''reversibilityTag'', JStr (reversibility_str (at_tag a))),
     (''highStakesGatePassed'', JBool (at_high_stakes a)), (''actionIntentHash'', JStr (at_intent a)),
     (''status'', JStr (status_str (at_status a))), (''createdAt'', JStr (at_created a)),
     (''updatedAt'', JStr (at_updated a)), (''approvalId'', jnull JStr (at_approval a)),
     (''approvalApprovedBy'', jnull JStr (at_approved_by a)), (''approvalKeyId'', jnull JStr (at_approval_key a)),
     (''approvalExpiresAt'', jnull JStr (at_approval_expires a)), (''proofId'', jnull JStr (at_proof a)),
     (''proofReceiptHash'', jnull JStr (at_receipt a)), (''collectorId'', jnull JStr (at_collector a)),
     (''blocker'', jnull JStr (at_blocker a))]"

definition assertTransition :: "attempt \<Rightarrow> attempt_status \<Rightarrow> unit result" where
  "assertTransition a expected = (if at_status a \<noteq> expected
     then throw (''Application attempt '' @ at_id a @ '' must be '' @ status_str expected @ '', found '' @ status_str (at_status a))
     else Inr ())"

definition validated :: "platform \<Rightarrow> attempt \<Rightarrow> attempt result" where
  "validated P a = bindE (assertSchema P ''application-attempt'' (attempt_json a)) (\<lambda>_. Inr a)"

definition createApplicationAttempt :: "platform \<Rightarrow> string \<Rightarrow> attempt_input \<Rightarrow> attempt result" where
  "createApplicationAttempt P uuid i = (
     if \<not> list_all (\<lambda>f. an_flags i f \<noteq> None) HIGH_STAKES_FLAGS
     then throw ''All high stakes flags require explicit boolean assessment''
     else let gate = list_all (\<lambda>f. an_flags i f = Some False) HIGH_STAKES_FLAGS;
              attemptId = ''ATT-'' @ int_str (year_from_day (an_now i div ms_per_day)) @ ''-'' @ uuid;
              intent = computeActionIntentHash P \<lparr>ib_operation = OpAutoApply, ib_opportunity = an_opportunity i,
                ib_packet = an_packet i, ib_adapter = an_adapter i, ib_tag = an_tag i, ib_attempt = Some attemptId\<rparr> in
       validated P \<lparr>at_id = attemptId, at_opportunity = an_opportunity i, at_packet = an_packet i,
         at_adapter = an_adapter i, at_channel = an_channel i, at_tag = an_tag i, at_high_stakes = gate,
         at_intent = intent, at_status = Prepared, at_created = to_iso (an_now i), at_updated = to_iso (an_now i),
         at_approval = None, at_approved_by = None, at_approval_key = None, at_approval_expires = None,
         at_proof = None, at_receipt = None, at_collector = None, at_blocker = None\<rparr>)"

definition attempt_scope :: "attempt \<Rightarrow> int \<Rightarrow> approval_scope" where
  "attempt_scope a now = \<lparr>as_operation = OpAutoApply, as_opportunity = at_opportunity a, as_packet = at_packet a,
     as_adapter = at_adapter a, as_tag = at_tag a, as_field = ''application-packet'', as_now = now,
     as_intent = Some (at_intent a)\<rparr>"

definition approveApplicationAttempt ::
  "platform \<Rightarrow> attempt \<Rightarrow> approval \<Rightarrow> trusted_approver list \<Rightarrow> int \<Rightarrow> attempt result" where
  "approveApplicationAttempt P a ap trusted now =
     bindE (assertTransition a Prepared) (\<lambda>_.
     let r = validateApprovalReference P ap (attempt_scope a now) trusted in
     if \<not> ar_valid r
     then throw ((case ar_blocked_by r of None \<Rightarrow> ''approval-invalid'' | Some b \<Rightarrow> b) @ '': '' @ joins '', '' (ar_reasons r))
     else validated P (a\<lparr>at_status := Approved, at_updated := to_iso now, at_approval := Some (ap_id ap),
       at_approved_by := Some (ap_by ap), at_approval_key := Some (ap_key ap), at_approval_expires := Some (ap_expires ap)\<rparr>))"

definition markSubmissionAttempted :: "platform \<Rightarrow> attempt \<Rightarrow> trusted_approver list \<Rightarrow> int \<Rightarrow> attempt result" where
  "markSubmissionAttempted P a trusted now =
     bindE (assertTransition a Approved) (\<lambda>_.
     if \<not> at_high_stakes a then throw ''High stakes gate must pass before submission can be attempted''
     else if at_approval a = None \<or> at_approved_by a = None \<or> at_approval_key a = None \<or> at_approval_expires a = None
     then throw ''Application approval binding is incomplete''
     else if nle (parse_date P (the (at_approval_expires a))) (Some now)
     then throw ''Application approval expired before submission''
     else if \<not> list_ex (\<lambda>t. Some (ta_by t) = at_approved_by a \<and> Some (ta_key t) = at_approval_key a) trusted
     then throw ''Application approval signer is no longer trusted''
     else validated P (a\<lparr>at_status := SubmittedUnconfirmed, at_updated := to_iso now\<rparr>))"

definition blockApplicationAttempt :: "platform \<Rightarrow> attempt \<Rightarrow> string \<Rightarrow> int \<Rightarrow> attempt result" where
  "blockApplicationAttempt P a blocker now = (
     if at_status a = Confirmed then throw ''A confirmed application attempt cannot be moved to blocked''
     else if trim blocker = [] then throw ''A blocker reason is required''
     else validated P (a\<lparr>at_status := Blocked, at_updated := to_iso now, at_blocker := Some (trim blocker)\<rparr>))"

definition attempt_expectation :: "attempt \<Rightarrow> int \<Rightarrow> proof_expectation" where
  "attempt_expectation a now = \<lparr>pe_attempt = at_id a, pe_intent = at_intent a, pe_opportunity = at_opportunity a,
     pe_packet = at_packet a, pe_adapter = at_adapter a, pe_submitted = at_updated a, pe_evaluated = Some (to_iso now)\<rparr>"

definition confirmApplicationAttempt ::
  "platform \<Rightarrow> attempt \<Rightarrow> submission_proof \<Rightarrow> trusted_collector list \<Rightarrow> proof_policy option \<Rightarrow> int \<Rightarrow>
   (attempt \<times> proof_evaluation) result" where
  "confirmApplicationAttempt P a p trusted policy now =
     bindE (assertTransition a SubmittedUnconfirmed) (\<lambda>_.
     bindE (evaluateSubmissionProof P p trusted (attempt_expectation a now)
       (case policy of Some pol \<Rightarrow> pol | None \<Rightarrow> defaultSubmissionProofPolicy) now) (\<lambda>ev.
     if ev_status ev \<noteq> PsConfirmed
     then throw (''Submission proof is '' @ proof_status_str (ev_status ev) @ '': '' @ joins '', '' (ev_reasons ev))
     else bindE (validated P (a\<lparr>at_status := Confirmed, at_updated := to_iso now, at_proof := Some (sp_id p),
       at_receipt := Some (sp_receipt p), at_collector := Some (so_collector p)\<rparr>)) (\<lambda>a'. Inr (a', ev))))"

definition confirmationLedgerEntry :: "platform \<Rightarrow> string \<Rightarrow> attempt \<Rightarrow> submission_proof \<Rightarrow> int \<Rightarrow> ledger_entry result" where
  "confirmationLedgerEntry P uuid a p now = (
     if at_status a \<noteq> Confirmed \<or> at_proof a \<noteq> Some (sp_id p) \<or> at_receipt a \<noteq> Some (sp_receipt p) \<or>
       at_collector a \<noteq> Some (so_collector p)
     then throw ''Only a collector bound confirmed attempt can create a confirmation ledger entry''
     else if \<not> at_high_stakes a \<or> at_approval a = None \<or> at_approved_by a = None \<or> at_approval_key a = None \<or>
       at_approval_expires a = None
     then throw ''Confirmation ledger requires passed high stakes and approval gates''
     else let e = \<lparr>le_id = createActionId now uuid, le_time = to_iso now, le_mode = ''/application-packet'',
            le_opportunity = at_opportunity a, le_tag = at_tag a, le_evidence_gate = True, le_approval_required = True,
            le_approval_received = True, le_high_stakes_gate = True, le_result = LrConfirmed, le_blocked_by = None,
            le_evidence = Some (''proof:'' @ sp_id p @ '':'' @ sp_receipt p @ '':'' @ so_collector p)\<rparr> in
       bindE (assertSchema P ''action-ledger-entry'' (ledger_entry_json e)) (\<lambda>_. Inr e))"

section \<open>Runs\<close>

datatype attempt_op = Approve approval "trusted_approver list" int
  | Submit "trusted_approver list" int
  | Block string int
  | Confirm submission_proof "trusted_collector list" "proof_policy option" int

fun apply_op :: "platform \<Rightarrow> attempt_op \<Rightarrow> attempt \<Rightarrow> attempt result" where
  "apply_op P (Approve ap ts now) a = approveApplicationAttempt P a ap ts now"
| "apply_op P (Submit ts now) a = markSubmissionAttempted P a ts now"
| "apply_op P (Block why now) a = blockApplicationAttempt P a why now"
| "apply_op P (Confirm p cs pol now) a = bindE (confirmApplicationAttempt P a p cs pol now) (\<lambda>(a', ev). Inr a')"

fun run_ops :: "platform \<Rightarrow> attempt_op list \<Rightarrow> attempt \<Rightarrow> attempt result" where
  "run_ops P [] a = Inr a"
| "run_ops P (q # qs) a = bindE (apply_op P q a) (run_ops P qs)"

lemmas attempt_op_defs = approveApplicationAttempt_def markSubmissionAttempted_def blockApplicationAttempt_def
  confirmApplicationAttempt_def assertTransition_def validated_def

text \<open>What each operation that succeeds started from and left.\<close>

lemma approve_ok:
  assumes "approveApplicationAttempt P a ap ts now = Inr b"
  shows "at_status a = Prepared \<and> ar_valid (validateApprovalReference P ap (attempt_scope a now) ts) \<and>
    b = a\<lparr>at_status := Approved, at_updated := to_iso now, at_approval := Some (ap_id ap),
      at_approved_by := Some (ap_by ap), at_approval_key := Some (ap_key ap), at_approval_expires := Some (ap_expires ap)\<rparr>"
  using assms by (auto simp: approveApplicationAttempt_def assertTransition_def validated_def Let_def split: if_splits)

lemma submit_ok:
  assumes "markSubmissionAttempted P a ts now = Inr b"
  shows "at_status a = Approved \<and> at_high_stakes a \<and> b = a\<lparr>at_status := SubmittedUnconfirmed, at_updated := to_iso now\<rparr> \<and>
    (\<exists>exp. at_approval_expires a = Some exp \<and> \<not> nle (parse_date P exp) (Some now)) \<and>
    (\<exists>t \<in> set ts. Some (ta_by t) = at_approved_by a \<and> Some (ta_key t) = at_approval_key a)"
  using assms by (auto simp: markSubmissionAttempted_def assertTransition_def validated_def list_ex_iff split: if_splits)

lemma block_ok:
  assumes "blockApplicationAttempt P a why now = Inr b"
  shows "at_status a \<noteq> Confirmed \<and> trim why \<noteq> [] \<and>
    b = a\<lparr>at_status := Blocked, at_updated := to_iso now, at_blocker := Some (trim why)\<rparr>"
  using assms by (auto simp: blockApplicationAttempt_def validated_def split: if_splits)

lemma confirm_ok:
  assumes "confirmApplicationAttempt P a p cs pol now = Inr (b, ev)"
  shows "at_status a = SubmittedUnconfirmed \<and> ev_status ev = PsConfirmed \<and>
    evaluateSubmissionProof P p cs (attempt_expectation a now)
      (case pol of Some q \<Rightarrow> q | None \<Rightarrow> defaultSubmissionProofPolicy) now = Inr ev \<and>
    b = a\<lparr>at_status := Confirmed, at_updated := to_iso now, at_proof := Some (sp_id p),
      at_receipt := Some (sp_receipt p), at_collector := Some (so_collector p)\<rparr>"
  using assms by (auto simp: confirmApplicationAttempt_def assertTransition_def validated_def split: if_splits)

lemma confirm_op_ok:
  assumes "apply_op P (Confirm p cs pol now) a = Inr b"
  shows "\<exists>ev. confirmApplicationAttempt P a p cs pol now = Inr (b, ev)"
  using assms by auto

text \<open>No operation applies to a confirmed attempt; a blocked one can only be blocked again.\<close>

lemma confirmed_terminal: "at_status a = Confirmed \<Longrightarrow> apply_op P q a \<noteq> Inr b"
  by (cases q) (auto dest: approve_ok submit_ok block_ok confirm_ok)

lemma blocked_absorbing: "at_status a = Blocked \<Longrightarrow> apply_op P q a = Inr b \<Longrightarrow> at_status b = Blocked"
  by (cases q) (auto dest: approve_ok submit_ok block_ok confirm_ok)

lemma run_blocked: "at_status a = Blocked \<Longrightarrow> run_ops P qs a = Inr b \<Longrightarrow> at_status b = Blocked"
  by (induction qs arbitrary: a) (auto dest: blocked_absorbing)

lemma run_confirmed: "at_status a = Confirmed \<Longrightarrow> run_ops P qs a = Inr b \<Longrightarrow> qs = [] \<and> b = a"
  using confirmed_terminal by (cases qs) auto

text \<open>The step that leads towards a confirmation from each status.\<close>

lemma run_from_submitted:
  assumes "run_ops P qs a = Inr b" and "at_status a = SubmittedUnconfirmed" and "at_status b = Confirmed"
  shows "\<exists>p cs pol now ev. qs = [Confirm p cs pol now] \<and> confirmApplicationAttempt P a p cs pol now = Inr (b, ev)"
proof (cases qs)
  case (Cons q qs')
  then obtain c where c: "apply_op P q a = Inr c" "run_ops P qs' c = Inr b" using assms(1) by auto
  show ?thesis
  proof (cases q)
    case (Confirm p cs pol now)
    then obtain ev where ev: "confirmApplicationAttempt P a p cs pol now = Inr (c, ev)"
      using c confirm_op_ok by blast
    then have "at_status c = Confirmed" using confirm_ok [OF ev] by simp
    then have "qs' = [] \<and> b = c" using run_confirmed c by blast
    with ev Cons Confirm show ?thesis by blast
  next
    case (Block why now)
    then have "at_status c = Blocked" using c by (auto dest!: block_ok)
    then show ?thesis using run_blocked c assms(3) by fastforce
  qed (use c assms(2) approve_ok submit_ok in \<open>fastforce+\<close>)
qed (use assms in simp)

lemma run_from_approved:
  assumes "run_ops P qs a = Inr b" and "at_status a = Approved" and "at_status b = Confirmed"
  shows "\<exists>ts now c qs'. qs = Submit ts now # qs' \<and> markSubmissionAttempted P a ts now = Inr c \<and> run_ops P qs' c = Inr b"
proof (cases qs)
  case (Cons q qs')
  then obtain c where c: "apply_op P q a = Inr c" "run_ops P qs' c = Inr b" using assms(1) by auto
  show ?thesis
  proof (cases q)
    case (Block why now)
    then have "at_status c = Blocked" using c by (auto dest!: block_ok)
    then show ?thesis using run_blocked c assms(3) by fastforce
  next
    case (Submit ts now)
    with c Cons show ?thesis by auto
  next
    case (Confirm p cs pol now)
    then show ?thesis using c confirm_op_ok confirm_ok assms(2) by (metis attempt_status.distinct(9))
  qed (use c assms(2) approve_ok in fastforce)
qed (use assms in simp)

lemma run_from_prepared:
  assumes "run_ops P qs a = Inr b" and "at_status a = Prepared" and "at_status b = Confirmed"
  shows "\<exists>ap ts now c qs'. qs = Approve ap ts now # qs' \<and> approveApplicationAttempt P a ap ts now = Inr c \<and> run_ops P qs' c = Inr b"
proof (cases qs)
  case (Cons q qs')
  then obtain c where c: "apply_op P q a = Inr c" "run_ops P qs' c = Inr b" using assms(1) by auto
  show ?thesis
  proof (cases q)
    case (Block why now)
    then have "at_status c = Blocked" using c by (auto dest!: block_ok)
    then show ?thesis using run_blocked c assms(3) by fastforce
  next
    case (Approve ap ts now)
    with c Cons show ?thesis by auto
  next
    case (Confirm p cs pol now)
    then show ?thesis using c confirm_op_ok confirm_ok assms(2) by (metis attempt_status.distinct(3))
  qed (use c assms(2) submit_ok in fastforce)
qed (use assms in simp)

lemma created_attempt:
  assumes "createApplicationAttempt P uuid i = Inr a"
  shows "at_status a = Prepared \<and> at_opportunity a = an_opportunity i \<and> at_packet a = an_packet i \<and>
    at_adapter a = an_adapter i \<and> at_tag a = an_tag i \<and> (at_high_stakes a \<longleftrightarrow> (\<forall>f. an_flags i f = Some False)) \<and>
    (\<forall>f. an_flags i f \<noteq> None) \<and> at_intent a = computeActionIntentHash P \<lparr>ib_operation = OpAutoApply,
      ib_opportunity = an_opportunity i, ib_packet = an_packet i, ib_adapter = an_adapter i, ib_tag = an_tag i,
      ib_attempt = Some (at_id a)\<rparr> \<and> at_approval a = None \<and> at_proof a = None"
  using assms by (auto simp: createApplicationAttempt_def validated_def Let_def list_all_iff split: if_splits)

text \<open>The run of a confirmed attempt.\<close>

lemma confirmed_run:
  assumes "createApplicationAttempt P uuid i = Inr a0" and "run_ops P qs a0 = Inr a" and "at_status a = Confirmed"
  shows "\<exists>ap ts n1 ts' n2 p cs pol n3. qs = [Approve ap ts n1, Submit ts' n2, Confirm p cs pol n3] \<and>
    ar_valid (validateApprovalReference P ap (attempt_scope a0 n1) ts) \<and> ap_intent ap = at_intent a0 \<and>
    (\<forall>f. an_flags i f = Some False) \<and> \<not> nle (parse_date P (ap_expires ap)) (Some n2) \<and>
    (\<exists>t \<in> set ts'. ta_by t = ap_by ap \<and> ta_key t = ap_key ap) \<and>
    (\<exists>e. proof_trusted P p cs e n3 \<and> pe_submitted e = to_iso n2) \<and>
    so_attempt p = at_id a0 \<and> so_intent p = at_intent a0 \<and> so_packet p = an_packet i \<and>
    so_opportunity p = an_opportunity i \<and> at_proof a = Some (sp_id p) \<and> at_receipt a = Some (sp_receipt p)"
proof -
  note c = created_attempt [OF assms(1)]
  obtain ap ts n1 b qs1 where b: "qs = Approve ap ts n1 # qs1" "approveApplicationAttempt P a0 ap ts n1 = Inr b"
    "run_ops P qs1 b = Inr a"
    using run_from_prepared [OF assms(2)] c assms(3) by blast
  note ab = approve_ok [OF b(2)]
  obtain ts' n2 d qs2 where d: "qs1 = Submit ts' n2 # qs2" "markSubmissionAttempted P b ts' n2 = Inr d" "run_ops P qs2 d = Inr a"
    using run_from_approved [OF b(3)] ab assms(3) by auto
  note sd = submit_ok [OF d(2)]
  obtain p cs pol n3 ev where p: "qs2 = [Confirm p cs pol n3]" "confirmApplicationAttempt P d p cs pol n3 = Inr (a, ev)"
    using run_from_submitted [OF d(3)] sd assms(3) by auto
  note cp = confirm_ok [OF p(2)]
  have tr: "proof_trusted P p cs (attempt_expectation d n3) n3"
    using cp evaluate_confirmed_iff [of P p cs "attempt_expectation d n3" "case pol of Some q \<Rightarrow> q | None \<Rightarrow> defaultSubmissionProofPolicy" n3]
    by simp
  moreover have "pe_submitted (attempt_expectation d n3) = to_iso n2" using sd by (simp add: attempt_expectation_def)
  moreover have "ap_intent ap = at_intent a0"
    using approval_scope_of_valid [of P ap "attempt_scope a0 n1" ts] ab by (simp add: attempt_scope_def expected_intent_def)
  moreover have "so_attempt p = at_id a0" "so_intent p = at_intent a0" "so_packet p = an_packet i" "so_opportunity p = an_opportunity i"
    using tr sd ab c by (simp_all add: proof_trusted_def binding_matches_def attempt_expectation_def)
  moreover have "\<forall>f. an_flags i f = Some False" using c ab sd by simp
  moreover have "\<not> nle (parse_date P (ap_expires ap)) (Some n2)" "\<exists>t \<in> set ts'. ta_by t = ap_by ap \<and> ta_key t = ap_key ap"
    using sd ab by auto
  ultimately show ?thesis using b(1) d(1) p(1) ab cp by auto
qed

section \<open>Properties\<close>

text \<open>C11: an attempt is confirmed along one path only. If a run of operations on a created attempt ends
  confirmed, it is exactly approve, submit, confirm: the approval was valid for this attempt's own intent, every
  high-stakes flag was assessed as absent, the approval had not expired and its signer was still registered at
  submission, and a trusted proof bound to this attempt, its intent and its packet confirmed it.\<close>

theorem confirmed_only_by_full_path:
  assumes "createApplicationAttempt P uuid i = Inr a0" and "run_ops P qs a0 = Inr a" and "at_status a = Confirmed"
  shows "\<exists>ap ts n1 ts' n2 p cs pol n3. qs = [Approve ap ts n1, Submit ts' n2, Confirm p cs pol n3] \<and>
    ar_valid (validateApprovalReference P ap (attempt_scope a0 n1) ts) \<and> ap_intent ap = at_intent a0 \<and>
    (\<forall>f. an_flags i f = Some False) \<and> \<not> nle (parse_date P (ap_expires ap)) (Some n2) \<and>
    (\<exists>t \<in> set ts'. ta_by t = ap_by ap \<and> ta_key t = ap_key ap) \<and>
    (\<exists>e. proof_trusted P p cs e n3 \<and> pe_submitted e = to_iso n2) \<and>
    so_attempt p = at_id a0 \<and> so_intent p = at_intent a0 \<and> so_packet p = an_packet i \<and>
    so_opportunity p = an_opportunity i \<and> at_proof a = Some (sp_id p) \<and> at_receipt a = Some (sp_receipt p)"
  using assms by (rule confirmed_run)

text \<open>An attempt never changes what it is for. Whatever run of operations succeeds, identifier, opportunity,
  packet, adapter, tag, intent digest, assessment and creation time stay, and a confirmed or a blocked
  attempt keeps its status: confirmed admits no operation at all.\<close>

lemma attempt_identity_preserved:
  assumes "run_ops P qs a = Inr b"
  shows "at_id b = at_id a \<and> at_opportunity b = at_opportunity a \<and> at_packet b = at_packet a \<and>
    at_adapter b = at_adapter a \<and> at_tag b = at_tag a \<and> at_intent b = at_intent a \<and>
    at_high_stakes b = at_high_stakes a \<and> at_created b = at_created a \<and>
    (at_status a \<in> {Confirmed, Blocked} \<longrightarrow> at_status b = at_status a) \<and> (at_status a = Confirmed \<longrightarrow> qs = [])"
proof -
  have step: "at_id b = at_id a \<and> at_opportunity b = at_opportunity a \<and> at_packet b = at_packet a \<and>
    at_adapter b = at_adapter a \<and> at_tag b = at_tag a \<and> at_intent b = at_intent a \<and>
    at_high_stakes b = at_high_stakes a \<and> at_created b = at_created a" if "apply_op P q a = Inr b" for q a b
    using that by (cases q) (auto dest!: approve_ok submit_ok block_ok confirm_ok)
  have "at_id b = at_id a \<and> at_opportunity b = at_opportunity a \<and> at_packet b = at_packet a \<and>
    at_adapter b = at_adapter a \<and> at_tag b = at_tag a \<and> at_intent b = at_intent a \<and>
    at_high_stakes b = at_high_stakes a \<and> at_created b = at_created a"
    using assms
  proof (induction qs arbitrary: a)
    case (Cons q qs)
    then obtain c where "apply_op P q a = Inr c" "run_ops P qs c = Inr b" by auto
    with Cons.IH [of c] step [of q a c] show ?case by simp
  qed simp
  moreover have "at_status a \<in> {Confirmed, Blocked} \<longrightarrow> at_status b = at_status a" "at_status a = Confirmed \<longrightarrow> qs = []"
    using run_confirmed run_blocked assms by auto
  ultimately show ?thesis by blast
qed

text \<open>A confirmation enters the ledger only for a confirmed attempt and its own proof: the entry is written for
  the attempt's opportunity, marked confirmed with all gates passed, and points to proof, receipt and collector.\<close>

lemma confirmation_entry_bound:
  assumes "confirmationLedgerEntry P uuid a p now = Inr e"
  shows "at_status a = Confirmed \<and> at_proof a = Some (sp_id p) \<and> at_receipt a = Some (sp_receipt p) \<and>
    at_collector a = Some (so_collector p) \<and> at_high_stakes a \<and> at_approval a \<noteq> None \<and>
    le_opportunity e = at_opportunity a \<and> le_result e = LrConfirmed \<and> le_approval_received e \<and> le_high_stakes_gate e \<and>
    le_evidence e = Some (''proof:'' @ sp_id p @ '':'' @ sp_receipt p @ '':'' @ so_collector p)"
  using assms by (auto simp: confirmationLedgerEntry_def Let_def split: if_splits)

section \<open>Sample values and witnesses\<close>

definition life_input :: attempt_input where
  "life_input = \<lparr>an_opportunity = ''OPP-1'', an_packet = ''h'', an_adapter = ''local-fixture'', an_channel = AtsForm,
     an_tag = R2, an_flags = (\<lambda>_. Some False), an_now = 1767225600000\<rparr>"

definition life_attempt :: attempt where
  "life_attempt = (case createApplicationAttempt sample_platform ''u'' life_input of Inr a \<Rightarrow> a)"

definition life_approval :: approval where
  "life_approval = sign_as ''k'' (sample_approval\<lparr>ap_packet := ''h'', ap_intent := at_intent life_attempt\<rparr>)"

definition life_draft :: observation_draft where
  "life_draft = sample_obs_draft\<lparr>od_attempt := at_id life_attempt, od_intent := at_intent life_attempt\<rparr>"

definition life_proof :: submission_proof where
  "life_proof = (case createSubmissionProof sample_platform life_draft ''s'' 0 of Inr p \<Rightarrow> p)"

definition life_ops :: "attempt_op list" where
  "life_ops = [Approve life_approval sample_approvers 1767225600000, Submit sample_approvers 1767225600000,
     Confirm life_proof sample_collectors None 1767225600000]"

lemma life_created: "createApplicationAttempt sample_platform ''u'' life_input = Inr life_attempt"
proof -
  have "\<exists>a. createApplicationAttempt sample_platform ''u'' life_input = Inr a"
    by (simp add: createApplicationAttempt_def life_input_def HIGH_STAKES_FLAGS_def Let_def validated_def)
  then show ?thesis by (auto simp: life_attempt_def)
qed

lemma life_attempt_facts [simp]:
  "at_status life_attempt = Prepared" "at_opportunity life_attempt = ''OPP-1''" "at_packet life_attempt = ''h''"
  "at_adapter life_attempt = ''local-fixture''" "at_high_stakes life_attempt"
  using created_attempt [OF life_created] by (simp_all add: life_input_def)

lemma life_approved:
  "ar_valid (validateApprovalReference sample_platform life_approval (attempt_scope life_attempt 1767225600000) sample_approvers)"
  by (simp add: approval_valid_iff approval_conditions_def life_approval_def attempt_scope_def expected_intent_def
      find_approver_def sample_approvers_def signature_ok_def)

lemma life_proof_made: "createSubmissionProof sample_platform life_draft ''s'' 0 = Inr life_proof"
proof -
  have "normalizeDomain ''Example.org'' = Inr ''example.org''" "normalizeSourcePointer ''local:a'' = Inr ''local:a''"
    "filter (\<lambda>s. s \<noteq> []) (map normalizeIndicator [''Application  received '']) = [''Application received'']"
    by code_simp+
  then obtain p where "createSubmissionProof sample_platform life_draft ''s'' 0 = Inr p"
    by (simp add: createSubmissionProof_def sample_obs_draft_def life_draft_def Let_def normalizeOptionalDomain_def
        normalizeReferenceId_def assertSchema_def MAX_INDICATORS_def MAX_INDICATOR_LENGTH_def
        del: filter.simps list.map)
  then show ?thesis by (simp add: life_proof_def)
qed

lemma life_iso: "to_iso 1767225600000 = ''2026-01-01T00:00:00.000Z''"
  by code_simp

lemma life_confirms:
  assumes "at_id d = at_id life_attempt" and "at_intent d = at_intent life_attempt" and "at_opportunity d = ''OPP-1''"
    and "at_packet d = ''h''" and "at_adapter d = ''local-fixture''" and "at_updated d = to_iso 1767225600000"
  shows "\<exists>ev. evaluateSubmissionProof sample_platform life_proof sample_collectors (attempt_expectation d 1767225600000)
     defaultSubmissionProofPolicy 1767225600000 = Inr ev \<and> ev_status ev = PsConfirmed"
proof -
  note sg = createSubmissionProof_signed [OF life_proof_made] and sh = createSubmissionProof_shape [OF life_proof_made]
  have "trim ''COL-1'' = ''COL-1''" "trim ''KEY-2'' = ''KEY-2''" "trim ''local-fixture'' = ''local-fixture''"
    "normalizeDomain ''Example.org'' = Inr ''example.org''"
    "dedup (filter (\<lambda>s. s \<noteq> []) (map normalizeIndicator [''Application  received ''])) = [''Application received'']"
    "\<not> matches_any NEGATIVE_PATTERNS ''Application received''" "matches_any POSITIVE_PATTERNS ''Application received''"
    by code_simp+
  note ev = this
  have f: "so_collector life_proof = ''COL-1''" "so_key life_proof = ''KEY-2''" "so_adapter life_proof = ''local-fixture''"
    "so_attempt life_proof = at_id life_attempt" "so_intent life_proof = at_intent life_attempt"
    "so_opportunity life_proof = ''OPP-1''" "so_packet life_proof = ''h''" "so_kind life_proof = ConfirmationPage"
    "so_captured life_proof = ''2026-01-01T00:00:00.000Z''"
    "computeSubmissionReceiptHash sample_platform life_proof = sp_receipt life_proof"
    "sp_signature life_proof = ed25519_sign sample_platform ''s'' (sp_receipt life_proof)"
    using sg ev(1-3) by (simp_all add: life_draft_def sample_obs_draft_def)
  have g: "so_domain life_proof = ''example.org''" "so_indicators life_proof = [''Application received'']"
    using sh ev(4,5) by (simp_all add: life_draft_def sample_obs_draft_def del: filter.simps list.map)
  let ?e = "attempt_expectation d 1767225600000"
  have "proof_trusted sample_platform life_proof sample_collectors ?e 1767225600000"
    by (simp add: proof_trusted_def find_collector_def sample_collectors_def attempt_expectation_def binding_matches_def
        f g assms life_iso sample_date CLOCK_SKEW_def) (simp add: sample_platform_def)
  moreover have "content_confirms sample_platform life_proof s' c pol" for s' c pol
    using ev(6,7) by (simp add: content_confirms_def f g)
  ultimately show ?thesis by (simp add: evaluate_trusted evaluate_content_confirmed)
qed

lemma life_run: "\<exists>a. run_ops sample_platform life_ops life_attempt = Inr a \<and> at_status a = Confirmed"
proof -
  have v: "validated sample_platform a = Inr a" for a by (simp add: validated_def)
  have e: "ap_expires life_approval = ''2026-01-02T00:00:00.000Z''" "ap_by life_approval = ''ada''" "ap_key life_approval = ''KEY-1''"
    by (simp_all add: life_approval_def)
  obtain b where b: "approveApplicationAttempt sample_platform life_attempt life_approval sample_approvers 1767225600000 = Inr b"
    using life_approved by (simp add: approveApplicationAttempt_def assertTransition_def v)
  note ab = approve_ok [OF b]
  then obtain c where c: "markSubmissionAttempted sample_platform b sample_approvers 1767225600000 = Inr c"
    by (simp add: markSubmissionAttempted_def assertTransition_def v e sample_approvers_def)
  note sc = submit_ok [OF c]
  obtain ev where "evaluateSubmissionProof sample_platform life_proof sample_collectors (attempt_expectation c 1767225600000)
     defaultSubmissionProofPolicy 1767225600000 = Inr ev" "ev_status ev = PsConfirmed"
    using life_confirms [of c] ab sc by auto
  then obtain d where d: "confirmApplicationAttempt sample_platform c life_proof sample_collectors None 1767225600000 = Inr (d, ev)"
    using sc by (simp add: confirmApplicationAttempt_def assertTransition_def v)
  then have "at_status d = Confirmed" using confirm_ok [OF d] by simp
  with b c d show ?thesis by (simp add: life_ops_def)
qed

theorem confirmed_only_by_full_path_witness:
  "\<exists>ap ts n1 ts' n2 p cs pol n3. life_ops = [Approve ap ts n1, Submit ts' n2, Confirm p cs pol n3] \<and>
    ar_valid (validateApprovalReference sample_platform ap (attempt_scope life_attempt n1) ts) \<and>
    so_attempt p = at_id life_attempt"
proof -
  obtain a where "run_ops sample_platform life_ops life_attempt = Inr a" "at_status a = Confirmed" using life_run by blast
  from confirmed_only_by_full_path [OF life_created this] show ?thesis by blast
qed

end
