(* ===== verification/AgentController.thy ===== *)
theory AgentController
  imports Json
begin

text \<open>
  The supervised agent run (src/src/agent-controller.ts): ten phases in a fixed order, each worker phase
  performed by a registered worker of an authorised role with the phase's capability, the approval by a
  human, the generator never evaluating its own output. A run is its records; \<open>advances\<close> is the
  step relation.
\<close>

datatype worker_role = Scout | EvidenceAuditor | FitAnalyst | PortfolioStrategist | DocumentArchitect
  | ApplicationOperator | NetworkStrategist | InterviewCoach | OfferAnalyst | OutcomeScientist | SafetyGovernor

fun role_str :: "worker_role \<Rightarrow> string" where
  "role_str Scout = ''scout''"
| "role_str EvidenceAuditor = ''evidence-auditor''"
| "role_str FitAnalyst = ''fit-analyst''"
| "role_str PortfolioStrategist = ''portfolio-strategist''"
| "role_str DocumentArchitect = ''document-architect''"
| "role_str ApplicationOperator = ''application-operator''"
| "role_str NetworkStrategist = ''network-strategist''"
| "role_str InterviewCoach = ''interview-coach''"
| "role_str OfferAnalyst = ''offer-analyst''"
| "role_str OutcomeScientist = ''outcome-scientist''"
| "role_str SafetyGovernor = ''safety-governor''"

datatype agent_phase = PhObserve | PhNormalize | PhGate | PhPlan | PhGenerate | PhEvaluate | PhApprove
  | PhExecute | PhVerify | PhLearn

definition AGENT_PHASES :: "agent_phase list" where
  "AGENT_PHASES = [PhObserve, PhNormalize, PhGate, PhPlan, PhGenerate, PhEvaluate, PhApprove, PhExecute, PhVerify, PhLearn]"

fun phase_str :: "agent_phase \<Rightarrow> string" where
  "phase_str PhObserve = ''observe''"
| "phase_str PhNormalize = ''normalize''"
| "phase_str PhGate = ''gate''"
| "phase_str PhPlan = ''plan''"
| "phase_str PhGenerate = ''generate''"
| "phase_str PhEvaluate = ''evaluate''"
| "phase_str PhApprove = ''approve''"
| "phase_str PhExecute = ''execute''"
| "phase_str PhVerify = ''verify''"
| "phase_str PhLearn = ''learn''"

datatype actor_type = Worker | Human

datatype phase_outcome = Passed | PhaseBlocked

datatype run_status = RunActive | RunBlocked | RunCompleted

fun run_status_str :: "run_status \<Rightarrow> string" where
  "run_status_str RunActive = ''active''"
| "run_status_str RunBlocked = ''blocked''"
| "run_status_str RunCompleted = ''completed''"

text \<open>A cost in millionths of a dollar, \<open>None\<close> when it is not a finite number.\<close>

record worker_manifest =
  wm_id :: string
  wm_role :: worker_role
  wm_read :: "string list"
  wm_write :: "string list"
  wm_execute :: "string list"
  wm_tools :: "string list"
  wm_max_steps :: int
  wm_timeout :: int
  wm_max_cost :: "int option"
  wm_stop :: "string list"

record phase_record =
  pr_phase :: agent_phase
  pr_actor :: string
  pr_type :: actor_type
  pr_role :: "worker_role option"
  pr_outcome :: phase_outcome
  pr_artifact :: "string option"
  pr_time :: string

record agent_run =
  rn_id :: string
  rn_opportunity :: string
  rn_status :: run_status
  rn_manifests :: "worker_manifest list"
  rn_records :: "phase_record list"
  rn_generator :: "string option"
  rn_evaluator :: "string option"

text \<open>No role may perform the approval.\<close>

fun PHASE_ROLES :: "agent_phase \<Rightarrow> worker_role list" where
  "PHASE_ROLES PhObserve = [Scout]"
| "PHASE_ROLES PhNormalize = [Scout, EvidenceAuditor]"
| "PHASE_ROLES PhGate = [SafetyGovernor]"
| "PHASE_ROLES PhPlan = [FitAnalyst, PortfolioStrategist]"
| "PHASE_ROLES PhGenerate = [DocumentArchitect, NetworkStrategist, InterviewCoach, OfferAnalyst]"
| "PHASE_ROLES PhEvaluate = [EvidenceAuditor, FitAnalyst, SafetyGovernor]"
| "PHASE_ROLES PhApprove = []"
| "PHASE_ROLES PhExecute = [ApplicationOperator]"
| "PHASE_ROLES PhVerify = [EvidenceAuditor, SafetyGovernor]"
| "PHASE_ROLES PhLearn = [OutcomeScientist]"

fun PHASE_CAPABILITIES :: "agent_phase \<Rightarrow> string" where
  "PHASE_CAPABILITIES PhObserve = ''read:opportunities''"
| "PHASE_CAPABILITIES PhNormalize = ''write:normalized-opportunity''"
| "PHASE_CAPABILITIES PhGate = ''write:policy-decision''"
| "PHASE_CAPABILITIES PhPlan = ''write:career-plan''"
| "PHASE_CAPABILITIES PhGenerate = ''write:generated-artifact''"
| "PHASE_CAPABILITIES PhEvaluate = ''write:evaluation''"
| "PHASE_CAPABILITIES PhApprove = []"
| "PHASE_CAPABILITIES PhExecute = ''execute:application''"
| "PHASE_CAPABILITIES PhVerify = ''write:verification''"
| "PHASE_CAPABILITIES PhLearn = ''write:outcome-model''"

definition sha256_pattern :: "string \<Rightarrow> bool" where
  "sha256_pattern s = (starts_with ''sha256:'' s \<and> length (drop 7 s) = 64 \<and> list_all is_hex (drop 7 s))"

definition check_scopes :: "string \<Rightarrow> string list \<Rightarrow> unit result" where
  "check_scopes label scopes = (
     if list_ex (\<lambda>s. \<not> starts_with (label @ '':'') s) scopes
     then throw (label @ '' scopes must use the '' @ label @ '': prefix'')
     else if length (dedup scopes) \<noteq> length scopes then throw (label @ '' scopes must not contain duplicates'')
     else Inr ())"

definition validateWorkerManifest :: "worker_manifest \<Rightarrow> unit result" where
  "validateWorkerManifest m = (
     if trim (wm_id m) = [] then throw ''Worker id is required''
     else if wm_max_steps m < 1 then throw ''Worker maxSteps must be positive''
     else if wm_timeout m < 100 then throw ''Worker timeout must be at least 100 ms''
     else if (case wm_max_cost m of None \<Rightarrow> True | Some c \<Rightarrow> c < 0) then throw ''Worker cost budget must be non-negative''
     else if wm_stop m = [] \<or> list_ex (\<lambda>c. trim c = []) (wm_stop m)
     then throw ''Worker manifests require at least one explicit stop condition''
     else bindE (check_scopes ''read'' (wm_read m)) (\<lambda>_.
       bindE (check_scopes ''write'' (wm_write m)) (\<lambda>_. check_scopes ''execute'' (wm_execute m))))"

definition workerCan :: "worker_manifest \<Rightarrow> string \<Rightarrow> bool result" where
  "workerCan m capability = bindE (validateWorkerManifest m) (\<lambda>_.
     Inr (if starts_with ''read:'' capability then capability \<in> set (wm_read m)
       else if starts_with ''write:'' capability then capability \<in> set (wm_write m)
       else capability \<in> set (wm_execute m)))"

definition createAgentRun :: "string \<Rightarrow> string \<Rightarrow> worker_manifest list \<Rightarrow> agent_run result" where
  "createAgentRun uuid opportunity manifests =
     bindE (mapE validateWorkerManifest manifests) (\<lambda>_.
     if length (dedup (map wm_id manifests)) \<noteq> length manifests then throw ''Agent runs require unique worker ids''
     else Inr \<lparr>rn_id = ''RUN-'' @ uuid, rn_opportunity = opportunity, rn_status = RunActive, rn_manifests = manifests,
       rn_records = [], rn_generator = None, rn_evaluator = None\<rparr>)"

record advance_input =
  in_phase :: agent_phase
  in_actor :: string
  in_type :: actor_type
  in_role :: "worker_role option"
  in_outcome :: phase_outcome
  in_artifact :: "string option"
  in_now :: int

definition expected_phase :: "agent_run \<Rightarrow> agent_phase option" where
  "expected_phase run = (if length (rn_records run) < length AGENT_PHASES
     then Some (AGENT_PHASES ! length (rn_records run)) else None)"

definition has_artifact :: "advance_input \<Rightarrow> bool" where
  "has_artifact i = (in_artifact i \<noteq> None \<and> in_artifact i \<noteq> Some [])"

text \<open>Who may perform the phase.\<close>

definition authorize :: "agent_run \<Rightarrow> advance_input \<Rightarrow> unit result" where
  "authorize run i = (let ph = in_phase i in
     if ph = PhApprove
     then (if in_type i \<noteq> Human \<or> in_role i \<noteq> None then throw ''Approval requires a human actor without a worker role''
       else Inr ())
     else if in_type i \<noteq> Worker \<or> in_role i = None then throw (phase_str ph @ '' requires an authorized worker role'')
     else if the (in_role i) \<notin> set (PHASE_ROLES ph) then throw (role_str (the (in_role i)) @ '' cannot perform '' @ phase_str ph)
     else (case find (\<lambda>m. wm_id m = in_actor i) (rn_manifests run) of
       None \<Rightarrow> throw (in_actor i @ '' has no matching registered worker manifest'')
     | Some m \<Rightarrow>
       if Some (wm_role m) \<noteq> in_role i then throw (in_actor i @ '' has no matching registered worker manifest'')
       else bindE (workerCan m (PHASE_CAPABILITIES ph)) (\<lambda>can.
         if \<not> can then throw (in_actor i @ '' lacks '' @ PHASE_CAPABILITIES ph @ '' capability for '' @ phase_str ph)
         else Inr ())))"

definition phase_record_of :: "advance_input \<Rightarrow> phase_record" where
  "phase_record_of i = \<lparr>pr_phase = in_phase i, pr_actor = in_actor i, pr_type = in_type i, pr_role = in_role i,
     pr_outcome = in_outcome i, pr_artifact = in_artifact i, pr_time = to_iso (in_now i)\<rparr>"

definition advanceAgentRun :: "agent_run \<Rightarrow> advance_input \<Rightarrow> agent_run result" where
  "advanceAgentRun run i = (let ph = in_phase i in
     if rn_status run \<noteq> RunActive then throw (''Agent run is '' @ run_status_str (rn_status run))
     else if Some ph \<noteq> expected_phase run
     then throw (''Expected phase '' @ (case expected_phase run of None \<Rightarrow> ''none'' | Some e \<Rightarrow> phase_str e) @
       '', received '' @ phase_str ph)
     else if ph = PhEvaluate \<and> Some (in_actor i) = rn_generator run
     then throw ''The generator cannot evaluate its own output''
     else bindE (authorize run i) (\<lambda>_.
       if ph \<in> set [PhGenerate, PhEvaluate, PhExecute, PhVerify] \<and> \<not> has_artifact i
       then throw (phase_str ph @ '' requires an artifact hash'')
       else if has_artifact i \<and> \<not> sha256_pattern (the (in_artifact i))
       then throw (phase_str ph @ '' artifact hash must be a canonical SHA-256 value'')
       else Inr (run\<lparr>
         rn_status := (if in_outcome i = PhaseBlocked then RunBlocked
           else if ph = PhLearn \<and> in_outcome i = Passed then RunCompleted else RunActive),
         rn_records := rn_records run @ [phase_record_of i],
         rn_generator := (if ph = PhGenerate then Some (in_actor i) else rn_generator run),
         rn_evaluator := (if ph = PhEvaluate then Some (in_actor i) else rn_evaluator run)\<rparr>)))"

section \<open>The step relation and its invariant\<close>

inductive advances :: "agent_run \<Rightarrow> agent_run \<Rightarrow> bool" where
  advance: "advanceAgentRun run i = Inr run' \<Longrightarrow> advances run run'"

inductive_cases advancesE: "advances run run'"

text \<open>Authority of one record: a human approval, or a registered worker with role and capability.\<close>

definition record_authorized :: "worker_manifest list \<Rightarrow> phase_record \<Rightarrow> bool" where
  "record_authorized ms r = (if pr_phase r = PhApprove then pr_type r = Human \<and> pr_role r = None
     else pr_type r = Worker \<and> (\<exists>m \<in> set ms. wm_id m = pr_actor r \<and> pr_role r = Some (wm_role m) \<and>
       wm_role m \<in> set (PHASE_ROLES (pr_phase r)) \<and>
       PHASE_CAPABILITIES (pr_phase r) \<in> set (wm_read m) \<union> set (wm_write m) \<union> set (wm_execute m)))"

definition record_hashed :: "phase_record \<Rightarrow> bool" where
  "record_hashed r = (pr_phase r \<in> set [PhGenerate, PhEvaluate, PhExecute, PhVerify] \<longrightarrow>
     (\<exists>h. pr_artifact r = Some h \<and> sha256_pattern h))"

definition actor_of :: "agent_run \<Rightarrow> agent_phase \<Rightarrow> string option" where
  "actor_of run ph = map_option pr_actor (find (\<lambda>r. pr_phase r = ph) (rn_records run))"

definition run_inv :: "worker_manifest list \<Rightarrow> agent_run \<Rightarrow> bool" where
  "run_inv ms run = (rn_manifests run = ms \<and>
     map pr_phase (rn_records run) = take (length (rn_records run)) AGENT_PHASES \<and>
     length (rn_records run) \<le> length AGENT_PHASES \<and>
     (\<forall>r \<in> set (rn_records run). record_authorized ms r \<and> record_hashed r) \<and>
     rn_generator run = actor_of run PhGenerate \<and> rn_evaluator run = actor_of run PhEvaluate \<and>
     (rn_evaluator run \<noteq> None \<longrightarrow> rn_evaluator run \<noteq> rn_generator run) \<and>
     (case rn_status run of
        RunActive \<Rightarrow> (\<forall>r \<in> set (rn_records run). pr_outcome r = Passed) \<and> length (rn_records run) < length AGENT_PHASES
      | RunCompleted \<Rightarrow> (\<forall>r \<in> set (rn_records run). pr_outcome r = Passed) \<and> length (rn_records run) = length AGENT_PHASES
      | RunBlocked \<Rightarrow> (\<exists>rs r. rn_records run = rs @ [r] \<and> pr_outcome r = PhaseBlocked \<and> (\<forall>q \<in> set rs. pr_outcome q = Passed))))"

lemma AGENT_PHASES_distinct: "distinct AGENT_PHASES"
  by (simp add: AGENT_PHASES_def)

lemma authorize_ok:
  assumes "authorize run i = Inr ()"
  shows "record_authorized (rn_manifests run) (phase_record_of i)"
proof (cases "in_phase i = PhApprove")
  case True
  then show ?thesis
    using assms by (auto simp: authorize_def record_authorized_def phase_record_of_def Let_def split: if_splits)
next
  case False
  then obtain m where m: "find (\<lambda>m. wm_id m = in_actor i) (rn_manifests run) = Some m" "in_type i = Worker"
    "in_role i = Some (wm_role m)" "wm_role m \<in> set (PHASE_ROLES (in_phase i))"
    "workerCan m (PHASE_CAPABILITIES (in_phase i)) = Inr True"
    using assms by (auto simp: authorize_def Let_def split: if_splits option.splits)
  then have "m \<in> set (rn_manifests run) \<and> wm_id m = in_actor i" using find_Some_mem [of _ "rn_manifests run"] by blast
  moreover have "PHASE_CAPABILITIES (in_phase i) \<in> set (wm_read m) \<union> set (wm_write m) \<union> set (wm_execute m)"
    using m(5) by (auto simp: workerCan_def split: if_splits)
  ultimately show ?thesis
    using m False by (auto simp: record_authorized_def phase_record_of_def)
qed

lemma advance_ok:
  assumes "advanceAgentRun run i = Inr run'"
  shows "rn_status run = RunActive \<and> Some (in_phase i) = expected_phase run \<and>
    (in_phase i = PhEvaluate \<longrightarrow> Some (in_actor i) \<noteq> rn_generator run) \<and>
    record_authorized (rn_manifests run) (phase_record_of i) \<and> record_hashed (phase_record_of i) \<and>
    run' = run\<lparr>
         rn_status := (if in_outcome i = PhaseBlocked then RunBlocked
           else if in_phase i = PhLearn \<and> in_outcome i = Passed then RunCompleted else RunActive),
         rn_records := rn_records run @ [phase_record_of i],
         rn_generator := (if in_phase i = PhGenerate then Some (in_actor i) else rn_generator run),
         rn_evaluator := (if in_phase i = PhEvaluate then Some (in_actor i) else rn_evaluator run)\<rparr>"
proof -
  have a: "authorize run i = Inr ()"
    using assms by (auto simp: advanceAgentRun_def Let_def split: if_splits)
  have h: "record_hashed (phase_record_of i)"
    using assms by (auto simp: advanceAgentRun_def Let_def record_hashed_def phase_record_of_def has_artifact_def
        split: if_splits)
  show ?thesis
    using assms a authorize_ok [OF a] h by (auto simp: advanceAgentRun_def Let_def split: if_splits)
qed

lemma find_append: "find p (xs @ ys) = (case find p xs of None \<Rightarrow> find p ys | Some x \<Rightarrow> Some x)"
  by (induction xs) auto

lemma phase_not_recorded:
  assumes "map pr_phase rs = take (length rs) AGENT_PHASES" and "length rs < length AGENT_PHASES"
  shows "\<forall>r \<in> set rs. pr_phase r \<noteq> AGENT_PHASES ! length rs"
proof
  fix r assume "r \<in> set rs"
  then have "pr_phase r \<in> set (take (length rs) AGENT_PHASES)" unfolding assms(1) [symmetric] by simp
  then obtain k where "k < length rs" "pr_phase r = AGENT_PHASES ! k"
    by (auto simp: in_set_conv_nth)
  then show "pr_phase r \<noteq> AGENT_PHASES ! length rs"
    using nth_eq_iff_index_eq [OF AGENT_PHASES_distinct, of k "length rs"] assms(2) by simp
qed

lemma actor_of_snoc:
  assumes "\<forall>r \<in> set (rn_records run). pr_phase r \<noteq> pr_phase q"
  shows "map_option pr_actor (find (\<lambda>r. pr_phase r = ph) (rn_records run @ [q])) =
    (if pr_phase q = ph then Some (pr_actor q) else actor_of run ph)"
proof (cases "pr_phase q = ph")
  case True
  then have "find (\<lambda>r. pr_phase r = ph) (rn_records run) = None" using assms by (auto simp: find_None_none)
  with True show ?thesis by (simp add: find_append)
next
  case False
  then show ?thesis by (simp add: find_append actor_of_def split: option.split)
qed

lemma advance_inv:
  assumes "advanceAgentRun run i = Inr run'" and "run_inv ms run"
  shows "run_inv ms run'"
proof -
  let ?q = "phase_record_of i" and ?rs = "rn_records run"
  note ok = advance_ok [OF assms(1)]
  have len: "length ?rs < length AGENT_PHASES" and ph: "in_phase i = AGENT_PHASES ! length ?rs"
    using ok by (auto simp: expected_phase_def split: if_splits)
  have inv: "map pr_phase ?rs = take (length ?rs) AGENT_PHASES" "rn_manifests run = ms"
    "\<forall>r \<in> set ?rs. record_authorized ms r \<and> record_hashed r" "\<forall>r \<in> set ?rs. pr_outcome r = Passed"
    "rn_generator run = actor_of run PhGenerate" "rn_evaluator run = actor_of run PhEvaluate"
    "rn_evaluator run \<noteq> None \<longrightarrow> rn_evaluator run \<noteq> rn_generator run"
    using assms(2) ok by (auto simp: run_inv_def)
  have q: "pr_phase ?q = in_phase i" "pr_actor ?q = in_actor i" "pr_outcome ?q = in_outcome i"
    by (simp_all add: phase_record_of_def)
  have new: "\<forall>r \<in> set ?rs. pr_phase r \<noteq> pr_phase ?q"
    using phase_not_recorded [OF inv(1) len] ph q by simp
  have phases: "map pr_phase (?rs @ [?q]) = take (Suc (length ?rs)) AGENT_PHASES"
    using inv(1) ph q len by (simp add: take_Suc_conv_app_nth)
  have learn: "in_phase i = PhLearn \<longleftrightarrow> Suc (length ?rs) = length AGENT_PHASES"
  proof -
    have "AGENT_PHASES ! 9 = PhLearn" "length AGENT_PHASES = 10" by (simp_all add: AGENT_PHASES_def)
    then show ?thesis
      using ph len nth_eq_iff_index_eq [OF AGENT_PHASES_distinct, of "length ?rs" 9] by auto
  qed
  have gen: "in_phase i = PhGenerate \<Longrightarrow> rn_evaluator run = None"
  proof -
    assume g: "in_phase i = PhGenerate"
    have "AGENT_PHASES ! 4 = PhGenerate" "length AGENT_PHASES = 10" by (simp_all add: AGENT_PHASES_def)
    then have "length ?rs = 4"
      using g ph len nth_eq_iff_index_eq [OF AGENT_PHASES_distinct, of "length ?rs" 4] by simp
    then have "map pr_phase ?rs = [PhObserve, PhNormalize, PhGate, PhPlan]"
      using inv(1) by (simp add: AGENT_PHASES_def)
    then have "\<forall>r \<in> set ?rs. pr_phase r \<in> set [PhObserve, PhNormalize, PhGate, PhPlan]"
      by (metis image_eqI list.set_map)
    then show "rn_evaluator run = None"
      unfolding inv(6) actor_of_def by (auto simp: find_None_none)
  qed
  have act: "actor_of run' p = (if in_phase i = p then Some (in_actor i) else actor_of run p)" for p
    using actor_of_snoc [OF new, of p] ok q by (simp add: actor_of_def)
  have run': "rn_records run' = ?rs @ [?q]" "rn_manifests run' = ms"
    "rn_generator run' = (if in_phase i = PhGenerate then Some (in_actor i) else rn_generator run)"
    "rn_evaluator run' = (if in_phase i = PhEvaluate then Some (in_actor i) else rn_evaluator run)"
    "rn_status run' = (if in_outcome i = PhaseBlocked then RunBlocked
       else if in_phase i = PhLearn \<and> in_outcome i = Passed then RunCompleted else RunActive)"
    using ok inv(2) by simp_all
  have actors: "rn_generator run' = actor_of run' PhGenerate" "rn_evaluator run' = actor_of run' PhEvaluate"
    unfolding act using run' inv(5,6) by simp_all
  have separate: "rn_evaluator run' \<noteq> None \<longrightarrow> rn_evaluator run' \<noteq> rn_generator run'"
    using run' inv(7) gen ok by auto
  have records: "\<forall>r \<in> set (rn_records run'). record_authorized ms r \<and> record_hashed r"
    using run'(1) inv(2,3) ok by auto
  have status: "case rn_status run' of
      RunActive \<Rightarrow> (\<forall>r \<in> set (rn_records run'). pr_outcome r = Passed) \<and> length (rn_records run') < length AGENT_PHASES
    | RunCompleted \<Rightarrow> (\<forall>r \<in> set (rn_records run'). pr_outcome r = Passed) \<and> length (rn_records run') = length AGENT_PHASES
    | RunBlocked \<Rightarrow> (\<exists>rs r. rn_records run' = rs @ [r] \<and> pr_outcome r = PhaseBlocked \<and> (\<forall>q \<in> set rs. pr_outcome q = Passed))"
  proof (cases "in_outcome i")
    case Passed
    then have "\<forall>r \<in> set (rn_records run'). pr_outcome r = Passed" using run'(1) inv(4) q(3) by simp
    moreover have "rn_status run' = (if Suc (length ?rs) = length AGENT_PHASES then RunCompleted else RunActive)"
      using run'(5) Passed learn by simp
    ultimately show ?thesis using len run'(1) by (auto simp: less_Suc_eq_le)
  next
    case PhaseBlocked
    then have "rn_status run' = RunBlocked" "pr_outcome ?q = PhaseBlocked" using run'(5) q(3) by simp_all
    then show ?thesis using run'(1) inv(4) by auto
  qed
  show ?thesis
    unfolding run_inv_def
    using actors separate records status phases run'(1,2) len by simp
qed

lemma create_inv: "createAgentRun uuid opp ms = Inr run \<Longrightarrow> run_inv ms run"
  by (auto simp: createAgentRun_def run_inv_def actor_of_def AGENT_PHASES_def split: if_splits)

lemma reachable_inv: "advances\<^sup>*\<^sup>* run run' \<Longrightarrow> run_inv ms run \<Longrightarrow> run_inv ms run'"
  by (induction rule: rtranclp_induct) (auto elim!: advancesE dest: advance_inv)

section \<open>Properties\<close>

text \<open>C13: a completed agent run went through every phase once, in order, each passed; the approval was a human's;
  every other phase was performed by a registered worker whose role and capability allow it; generation,
  evaluation, execution and verification carry a canonical digest; and the evaluator is not the generator.\<close>

theorem completed_run_supervised:
  assumes "createAgentRun uuid opp ms = Inr r0" and "advances\<^sup>*\<^sup>* r0 run" and "rn_status run = RunCompleted"
  shows "map pr_phase (rn_records run) = AGENT_PHASES \<and> (\<forall>r \<in> set (rn_records run). pr_outcome r = Passed) \<and>
    (\<forall>r \<in> set (rn_records run). record_authorized ms r \<and> record_hashed r) \<and>
    (\<exists>r \<in> set (rn_records run). pr_phase r = PhApprove \<and> pr_type r = Human) \<and>
    (\<exists>g e. rn_generator run = Some g \<and> rn_evaluator run = Some e \<and> g \<noteq> e \<and>
       actor_of run PhGenerate = Some g \<and> actor_of run PhEvaluate = Some e)"
proof -
  have inv: "run_inv ms run" using reachable_inv [OF assms(2) create_inv [OF assms(1)]] .
  then have ph: "map pr_phase (rn_records run) = AGENT_PHASES"
    using assms(3) by (auto simp: run_inv_def)
  then have has: "\<exists>r \<in> set (rn_records run). pr_phase r = p" if "p \<in> set AGENT_PHASES" for p
    using that by (metis (mono_tags, lifting) imageE list.set_map)
  have act: "actor_of run p \<noteq> None" if "p \<in> set AGENT_PHASES" for p
    using has [OF that] by (auto simp: actor_of_def find_None_none)
  have "\<exists>r \<in> set (rn_records run). pr_phase r = PhApprove \<and> pr_type r = Human"
    using has [of PhApprove] inv by (auto simp: AGENT_PHASES_def run_inv_def record_authorized_def)
  moreover have "actor_of run PhGenerate \<noteq> None" "actor_of run PhEvaluate \<noteq> None"
    using act by (simp_all add: AGENT_PHASES_def)
  ultimately show ?thesis
    using inv assms(3) ph by (auto simp: run_inv_def)
qed

text \<open>C14: at every moment of a run the records are the first phases in order, every one authorised, all passed
  but possibly a last blocked one; and no run makes more than ten steps.\<close>

theorem agent_run_prefix:
  assumes "createAgentRun uuid opp ms = Inr r0" and "(advances ^^ n) r0 run"
  shows "n \<le> 10 \<and> length (rn_records run) = n \<and> map pr_phase (rn_records run) = take n AGENT_PHASES \<and>
    (\<forall>r \<in> set (rn_records run). record_authorized ms r) \<and>
    (\<forall>r \<in> set (butlast (rn_records run)). pr_outcome r = Passed)"
proof -
  have "length (rn_records run) = n"
    using assms(2)
  proof (induction n arbitrary: run)
    case 0
    then show ?case using assms(1) by (auto simp: createAgentRun_def split: if_splits)
  next
    case (Suc n)
    then obtain r1 where "(advances ^^ n) r0 r1" "advances r1 run" by auto
    with Suc.IH [of r1] show ?case by (auto elim!: advancesE dest!: advance_ok)
  qed
  moreover have inv: "run_inv ms run"
    using reachable_inv [OF relpowp_imp_rtranclp [OF assms(2)] create_inv [OF assms(1)]] .
  moreover have "\<forall>r \<in> set (butlast (rn_records run)). pr_outcome r = Passed"
    using inv by (cases "rn_status run") (auto simp: run_inv_def dest: in_set_butlastD)
  ultimately show ?thesis by (auto simp: run_inv_def AGENT_PHASES_def)
qed

section \<open>Sample run and witnesses\<close>

definition sample_worker :: "string \<Rightarrow> worker_role \<Rightarrow> string list \<Rightarrow> worker_manifest" where
  "sample_worker i r ws = \<lparr>wm_id = i, wm_role = r, wm_read = [''read:opportunities''], wm_write = ws,
     wm_execute = [''execute:application''], wm_tools = [], wm_max_steps = 5, wm_timeout = 1000,
     wm_max_cost = Some 0, wm_stop = [''done'']\<rparr>"

definition sample_workers :: "worker_manifest list" where
  "sample_workers = [sample_worker ''w1'' Scout [''write:normalized-opportunity''],
     sample_worker ''w2'' SafetyGovernor [''write:policy-decision'', ''write:verification''],
     sample_worker ''w3'' FitAnalyst [''write:career-plan'', ''write:evaluation''],
     sample_worker ''w4'' DocumentArchitect [''write:generated-artifact''],
     sample_worker ''w5'' ApplicationOperator [], sample_worker ''w6'' OutcomeScientist [''write:outcome-model'']]"

definition sample_advance :: "agent_phase \<Rightarrow> string \<Rightarrow> worker_role option \<Rightarrow> advance_input" where
  "sample_advance ph a r = \<lparr>in_phase = ph, in_actor = a, in_type = (if r = None then Human else Worker), in_role = r,
     in_outcome = Passed, in_artifact = Some (''sha256:'' @ replicate 64 (CHR ''a'')), in_now = 0\<rparr>"

definition sample_advances :: "advance_input list" where
  "sample_advances = [sample_advance PhObserve ''w1'' (Some Scout), sample_advance PhNormalize ''w1'' (Some Scout),
     sample_advance PhGate ''w2'' (Some SafetyGovernor), sample_advance PhPlan ''w3'' (Some FitAnalyst),
     sample_advance PhGenerate ''w4'' (Some DocumentArchitect), sample_advance PhEvaluate ''w3'' (Some FitAnalyst),
     sample_advance PhApprove ''ada'' None, sample_advance PhExecute ''w5'' (Some ApplicationOperator),
     sample_advance PhVerify ''w2'' (Some SafetyGovernor), sample_advance PhLearn ''w6'' (Some OutcomeScientist)]"

fun advance_all :: "advance_input list \<Rightarrow> agent_run \<Rightarrow> agent_run result" where
  "advance_all [] run = Inr run"
| "advance_all (i # is) run = bindE (advanceAgentRun run i) (advance_all is)"

lemma advance_all_steps: "advance_all is run = Inr run' \<Longrightarrow> (advances ^^ length is) run run'"
proof (induction "is" arbitrary: run)
  case (Cons i "is")
  then obtain r where "advances run r" "advance_all is r = Inr run'" by (auto intro: advance)
  with Cons.IH [of r] have "(advances ^^ Suc (length is)) run run'" by (intro relpowp_Suc_I2)
  then show ?case by simp
qed simp

definition sample_run0 :: agent_run where
  "sample_run0 = (case createAgentRun ''u'' ''OPP-1'' sample_workers of Inr r \<Rightarrow> r)"

definition sample_run :: agent_run where
  "sample_run = (case advance_all sample_advances sample_run0 of Inr r \<Rightarrow> r)"

lemma sample_manifests [simp]:
  "m \<in> set sample_workers \<Longrightarrow> validateWorkerManifest m = Inr ()"
proof -
  have "list_all (\<lambda>m. validateWorkerManifest m = Inr ()) sample_workers" by code_simp
  then show "m \<in> set sample_workers \<Longrightarrow> validateWorkerManifest m = Inr ()" by (simp add: list_all_iff)
qed

lemma sample_digest [simp]: "sha256_pattern (''sha256:'' @ replicate 64 (CHR ''a''))"
  by (simp add: sha256_pattern_def is_hex_def list_all_iff)

lemma sample_run0_created: "createAgentRun ''u'' ''OPP-1'' sample_workers = Inr sample_run0"
proof -
  have "mapE validateWorkerManifest sample_workers = Inr (map (\<lambda>_. ()) sample_workers)"
    by (auto simp: mapE_Inr_iff list_all2_conv_all_nth)
  then have "isOk (createAgentRun ''u'' ''OPP-1'' sample_workers)"
    by (simp add: createAgentRun_def sample_workers_def sample_worker_def)
  then show ?thesis by (auto simp: isOk_iff sample_run0_def)
qed

lemma sample_run0_eq: "sample_run0 = \<lparr>rn_id = ''RUN-u'', rn_opportunity = ''OPP-1'', rn_status = RunActive,
    rn_manifests = sample_workers, rn_records = [], rn_generator = None, rn_evaluator = None\<rparr>"
  using sample_run0_created by (auto simp: createAgentRun_def split: if_splits)

lemma sample_find:
  "find (\<lambda>m. wm_id m = ''w1'') sample_workers = Some (sample_worker ''w1'' Scout [''write:normalized-opportunity''])"
  "find (\<lambda>m. wm_id m = ''w2'') sample_workers = Some (sample_worker ''w2'' SafetyGovernor [''write:policy-decision'', ''write:verification''])"
  "find (\<lambda>m. wm_id m = ''w3'') sample_workers = Some (sample_worker ''w3'' FitAnalyst [''write:career-plan'', ''write:evaluation''])"
  "find (\<lambda>m. wm_id m = ''w4'') sample_workers = Some (sample_worker ''w4'' DocumentArchitect [''write:generated-artifact''])"
  "find (\<lambda>m. wm_id m = ''w5'') sample_workers = Some (sample_worker ''w5'' ApplicationOperator [])"
  "find (\<lambda>m. wm_id m = ''w6'') sample_workers = Some (sample_worker ''w6'' OutcomeScientist [''write:outcome-model''])"
  by (simp_all add: sample_workers_def sample_worker_def)

lemma sample_authorized:
  assumes "find (\<lambda>m. wm_id m = a) sample_workers = Some m" and "ph \<noteq> PhApprove" and "r = wm_role m"
    and "wm_role m \<in> set (PHASE_ROLES ph)" and "workerCan m (PHASE_CAPABILITIES ph) = Inr True"
    and "rn_manifests run = sample_workers"
  shows "authorize run (sample_advance ph a (Some r)) = Inr ()"
  using assms by (simp add: authorize_def sample_advance_def)

lemma sample_can:
  "workerCan (sample_worker ''w1'' Scout [''write:normalized-opportunity'']) (PHASE_CAPABILITIES PhObserve) = Inr True"
  "workerCan (sample_worker ''w1'' Scout [''write:normalized-opportunity'']) (PHASE_CAPABILITIES PhNormalize) = Inr True"
  "workerCan (sample_worker ''w2'' SafetyGovernor [''write:policy-decision'', ''write:verification'']) (PHASE_CAPABILITIES PhGate) = Inr True"
  "workerCan (sample_worker ''w2'' SafetyGovernor [''write:policy-decision'', ''write:verification'']) (PHASE_CAPABILITIES PhVerify) = Inr True"
  "workerCan (sample_worker ''w3'' FitAnalyst [''write:career-plan'', ''write:evaluation'']) (PHASE_CAPABILITIES PhPlan) = Inr True"
  "workerCan (sample_worker ''w3'' FitAnalyst [''write:career-plan'', ''write:evaluation'']) (PHASE_CAPABILITIES PhEvaluate) = Inr True"
  "workerCan (sample_worker ''w4'' DocumentArchitect [''write:generated-artifact'']) (PHASE_CAPABILITIES PhGenerate) = Inr True"
  "workerCan (sample_worker ''w5'' ApplicationOperator []) (PHASE_CAPABILITIES PhExecute) = Inr True"
  "workerCan (sample_worker ''w6'' OutcomeScientist [''write:outcome-model'']) (PHASE_CAPABILITIES PhLearn) = Inr True"
  by code_simp+

lemma sample_auth:
  assumes "rn_manifests run = sample_workers"
  shows "authorize run (sample_advance PhApprove a None) = Inr ()"
    and "authorize run (sample_advance PhObserve ''w1'' (Some Scout)) = Inr ()"
    and "authorize run (sample_advance PhNormalize ''w1'' (Some Scout)) = Inr ()"
    and "authorize run (sample_advance PhGate ''w2'' (Some SafetyGovernor)) = Inr ()"
    and "authorize run (sample_advance PhVerify ''w2'' (Some SafetyGovernor)) = Inr ()"
    and "authorize run (sample_advance PhPlan ''w3'' (Some FitAnalyst)) = Inr ()"
    and "authorize run (sample_advance PhEvaluate ''w3'' (Some FitAnalyst)) = Inr ()"
    and "authorize run (sample_advance PhGenerate ''w4'' (Some DocumentArchitect)) = Inr ()"
    and "authorize run (sample_advance PhExecute ''w5'' (Some ApplicationOperator)) = Inr ()"
    and "authorize run (sample_advance PhLearn ''w6'' (Some OutcomeScientist)) = Inr ()"
proof -
  show "authorize run (sample_advance PhApprove a None) = Inr ()"
    by (simp add: authorize_def sample_advance_def)
qed (rule sample_authorized [OF _ _ _ _ _ assms], rule sample_find, simp, simp add: sample_worker_def,
    simp add: sample_worker_def, rule sample_can)+

lemma sample_step:
  assumes "authorize run (sample_advance ph a r) = Inr ()" and "rn_status run = RunActive" and "expected_phase run = Some ph"
    and "ph = PhEvaluate \<longrightarrow> Some a \<noteq> rn_generator run"
  shows "advanceAgentRun run (sample_advance ph a r) = Inr (run\<lparr>
     rn_status := (if ph = PhLearn then RunCompleted else RunActive),
     rn_records := rn_records run @ [phase_record_of (sample_advance ph a r)],
     rn_generator := (if ph = PhGenerate then Some a else rn_generator run),
     rn_evaluator := (if ph = PhEvaluate then Some a else rn_evaluator run)\<rparr>)"
proof -
  have "in_artifact (sample_advance ph a r) = Some (''sha256:'' @ replicate 64 (CHR ''a''))"
    "in_phase (sample_advance ph a r) = ph" "in_actor (sample_advance ph a r) = a" "in_outcome (sample_advance ph a r) = Passed"
    by (simp_all add: sample_advance_def)
  moreover from this have "has_artifact (sample_advance ph a r)" by (simp add: has_artifact_def)
  ultimately show ?thesis
    using assms sample_digest by (simp only: advanceAgentRun_def Let_def) simp
qed

lemma sample_run_exists: "\<exists>r. advance_all sample_advances sample_run0 = Inr r \<and> rn_status r = RunCompleted"
  by (simp add: sample_advances_def sample_run0_eq sample_step sample_auth expected_phase_def AGENT_PHASES_def)

lemma sample_run_advanced: "advance_all sample_advances sample_run0 = Inr sample_run"
  and sample_run_completed: "rn_status sample_run = RunCompleted"
  using sample_run_exists by (auto simp: sample_run_def)

theorem completed_run_supervised_witness:
  "map pr_phase (rn_records sample_run) = AGENT_PHASES \<and>
   (\<exists>r \<in> set (rn_records sample_run). pr_phase r = PhApprove \<and> pr_type r = Human)"
proof -
  have "advances\<^sup>*\<^sup>* sample_run0 sample_run"
    using advance_all_steps [OF sample_run_advanced] by (rule relpowp_imp_rtranclp)
  from completed_run_supervised [OF sample_run0_created this sample_run_completed] show ?thesis by blast
qed

theorem agent_run_prefix_witness:
  "length (rn_records sample_run) = 10 \<and> map pr_phase (rn_records sample_run) = take 10 AGENT_PHASES"
  using agent_run_prefix [OF sample_run0_created advance_all_steps [OF sample_run_advanced]]
  by (simp add: sample_advances_def eval_nat_numeral)

end
