(* ===== verification/AnswerMemory.thy ===== *)
theory AnswerMemory
  imports Hash
begin

text \<open>
  Reusable application answers (src/src/answer-memory.ts): the rules a stored answer must meet and the
  resolution of a question against the stored answers, most specific scope first.
\<close>

datatype question_type = QtIdentity | QtContact | QtWorkAuthorization | QtVisaSponsorship | QtRelocation
  | QtCompensation | QtLicense | QtEducation | QtExperience | QtSkill | QtEeoDemographic | QtCustom

fun question_type_str :: "question_type \<Rightarrow> string" where
  "question_type_str QtIdentity = ''identity''"
| "question_type_str QtContact = ''contact''"
| "question_type_str QtWorkAuthorization = ''work-authorization''"
| "question_type_str QtVisaSponsorship = ''visa-sponsorship''"
| "question_type_str QtRelocation = ''relocation''"
| "question_type_str QtCompensation = ''compensation''"
| "question_type_str QtLicense = ''license''"
| "question_type_str QtEducation = ''education''"
| "question_type_str QtExperience = ''experience''"
| "question_type_str QtSkill = ''skill''"
| "question_type_str QtEeoDemographic = ''eeo-demographic''"
| "question_type_str QtCustom = ''custom''"

datatype use_mode = Assist | Supervised | ApprovedAuto

fun use_mode_str :: "use_mode \<Rightarrow> string" where
  "use_mode_str Assist = ''assist''"
| "use_mode_str Supervised = ''supervised''"
| "use_mode_str ApprovedAuto = ''approved-auto''"

datatype answer_scope = ScGlobal | ScRoleFamily | ScOpportunity

fun answer_scope_str :: "answer_scope \<Rightarrow> string" where
  "answer_scope_str ScGlobal = ''global''"
| "answer_scope_str ScRoleFamily = ''role-family''"
| "answer_scope_str ScOpportunity = ''opportunity''"

datatype sensitivity = SeStandard | SeSensitive | SeRestricted

fun sensitivity_str :: "sensitivity \<Rightarrow> string" where
  "sensitivity_str SeStandard = ''standard''"
| "sensitivity_str SeSensitive = ''sensitive''"
| "sensitivity_str SeRestricted = ''restricted''"

record answer_record =
  am_id :: string
  am_type :: question_type
  am_prompt :: string
  am_prompt_hash :: string
  am_answer :: string
  am_answer_hash :: string
  am_status_evidence :: evidence_status
  am_pointer :: string
  am_scope :: answer_scope
  am_role_family :: "string option"
  am_opportunity :: "string option"
  am_sensitivity :: sensitivity
  am_reusable :: bool
  am_confirm :: bool
  am_modes :: "use_mode list"
  am_expires :: "string option"
  am_active :: bool
  am_created :: string
  am_updated :: string

record answer_context =
  ac_type :: question_type
  ac_prompt :: string
  ac_role_family :: "string option"
  ac_opportunity :: string
  ac_mode :: use_mode
  ac_now :: int

datatype resolution_status = Resolved | ConfirmationRequired | NotFound

record answer_resolution =
  rs_status :: resolution_status
  rs_answer :: "answer_record option"
  rs_reasons :: "string list"

definition HIGH_STAKES_QUESTION_TYPES :: "question_type list" where
  "HIGH_STAKES_QUESTION_TYPES = [QtWorkAuthorization, QtVisaSponsorship, QtRelocation, QtCompensation, QtLicense]"

definition answer_json :: "answer_record \<Rightarrow> json" where
  "answer_json r = JObj [(''answerId'', JStr (am_id r)), (''questionType'', JStr (question_type_str (am_type r))),
     (''normalizedPrompt'', JStr (am_prompt r)), (''promptHash'', JStr (am_prompt_hash r)),
     (''answerText'', JStr (am_answer r)), (''answerHash'', JStr (am_answer_hash r)),
     (''evidenceStatus'', JStr (evidence_str (am_status_evidence r))), (''sourcePointer'', JStr (am_pointer r)),
     (''scope'', JStr (answer_scope_str (am_scope r))), (''roleFamily'', jnull JStr (am_role_family r)),
     (''opportunityId'', jnull JStr (am_opportunity r)), (''sensitivity'', JStr (sensitivity_str (am_sensitivity r))),
     (''reusable'', JBool (am_reusable r)), (''requiresPerOpportunityConfirmation'', JBool (am_confirm r)),
     (''allowedModes'', jstrs (map use_mode_str (am_modes r))), (''expiresAt'', jnull JStr (am_expires r)),
     (''status'', JStr (if am_active r then ''active'' else ''retired'')), (''createdAt'', JStr (am_created r)),
     (''updatedAt'', JStr (am_updated r))]"

definition push_if :: "bool \<Rightarrow> string \<Rightarrow> string list" where
  "push_if c s = (if c then [s] else [])"

lemma when_Nil [simp]: "push_if c s = [] \<longleftrightarrow> \<not> c"
  by (simp add: push_if_def)

definition validateAnswerMemory :: "platform \<Rightarrow> answer_record \<Rightarrow> string list" where
  "validateAnswerMemory P r = (case assertSchema P ''answer-memory-record'' (answer_json r) of
     Inl (Error msg) \<Rightarrow> [msg]
   | Inr _ \<Rightarrow>
     push_if (am_prompt_hash r \<noteq> computeClaimTextHash P (am_prompt r)) ''answer prompt hash mismatch'' @
     push_if (am_answer_hash r \<noteq> computeClaimTextHash P (am_answer r)) ''answer text hash mismatch'' @
     push_if (am_scope r = ScOpportunity \<and> am_opportunity r = None) ''opportunity scoped answer is missing opportunity id'' @
     push_if (am_scope r = ScRoleFamily \<and> am_role_family r = None) ''role family scoped answer is missing role family'' @
     (if am_type r = QtEeoDemographic then
       push_if (am_reusable r) ''EEO answers cannot be reusable'' @
       push_if (\<not> am_confirm r) ''EEO answers require per opportunity confirmation'' @
       push_if (list_ex (\<lambda>m. m \<noteq> Assist) (am_modes r)) ''EEO answers are assist only'' else []) @
     (if am_type r \<in> set HIGH_STAKES_QUESTION_TYPES then
       push_if (\<not> am_confirm r) ''high stakes answers require per opportunity confirmation'' @
       push_if (ApprovedAuto \<in> set (am_modes r)) ''high stakes answers cannot be approved auto'' else []) @
     (if am_sensitivity r = SeSensitive then
       push_if (\<not> am_confirm r) ''sensitive answers require per opportunity confirmation'' @
       push_if (ApprovedAuto \<in> set (am_modes r)) ''sensitive answers cannot be approved auto'' else []) @
     (if am_sensitivity r = SeRestricted then
       push_if (am_reusable r) ''restricted answers cannot be reusable'' @
       push_if (\<not> am_confirm r) ''restricted answers require per opportunity confirmation'' @
       push_if (list_ex (\<lambda>m. m \<noteq> Assist) (am_modes r)) ''restricted answers are assist only'' else []))"

definition assertAnswerMemory :: "platform \<Rightarrow> answer_record \<Rightarrow> unit result" where
  "assertAnswerMemory P r = (let rs = validateAnswerMemory P r in
     if rs \<noteq> [] then throw (''Answer memory validation failed: '' @ joins ''; '' rs) else Inr ())"

definition scopeRank :: "answer_record \<Rightarrow> answer_context \<Rightarrow> int" where
  "scopeRank r c = (case am_scope r of
     ScOpportunity \<Rightarrow> if am_opportunity r = Some (ac_opportunity c) then 3 else - 1
   | ScRoleFamily \<Rightarrow> if am_role_family r \<noteq> None \<and> am_role_family r = ac_role_family c then 2 else - 1
   | ScGlobal \<Rightarrow> 1)"

text \<open>The filter that \<open>resolveAnswerMemory\<close> applies to the stored answers.\<close>

definition answer_matches :: "platform \<Rightarrow> answer_context \<Rightarrow> answer_record \<Rightarrow> bool" where
  "answer_matches P c r = (am_active r \<and> am_type r = ac_type c \<and>
     am_prompt_hash r = computeClaimTextHash P (ac_prompt c) \<and> ac_mode c \<in> set (am_modes r) \<and>
     (ac_mode c \<noteq> ApprovedAuto \<or> am_sensitivity r = SeStandard) \<and>
     (case am_expires r of None \<Rightarrow> True | Some e \<Rightarrow> nlt (Some (ac_now c)) (parse_date P e)) \<and>
     0 < scopeRank r c)"

definition resolveAnswerMemory :: "platform \<Rightarrow> answer_record list \<Rightarrow> answer_context \<Rightarrow> answer_resolution result" where
  "resolveAnswerMemory P records c =
     bindE (mapE (assertAnswerMemory P) records) (\<lambda>_.
     let candidates = sort_key (\<lambda>r. - scopeRank r c) (filter (answer_matches P c) records) in
     Inr (case head_opt candidates of
       None \<Rightarrow> \<lparr>rs_status = NotFound, rs_answer = None, rs_reasons = [''no reusable answer matched the requested scope and mode'']\<rparr>
     | Some a \<Rightarrow>
       if \<not> am_reusable a \<or> am_type a = QtEeoDemographic
       then \<lparr>rs_status = NotFound, rs_answer = None, rs_reasons = [''no reusable answer matched the requested scope and mode'']\<rparr>
       else if am_confirm a
       then \<lparr>rs_status = ConfirmationRequired, rs_answer = Some a, rs_reasons = [''answer requires confirmation for this opportunity'']\<rparr>
       else \<lparr>rs_status = Resolved, rs_answer = Some a, rs_reasons = []\<rparr>))"

section \<open>What a resolution may give away\<close>

lemma assertAnswerMemory_Inr: "assertAnswerMemory P r = Inr u \<longleftrightarrow> validateAnswerMemory P r = []"
  by (simp add: assertAnswerMemory_def Let_def)

lemma valid_answer:
  assumes "validateAnswerMemory P r = []"
  shows "am_answer_hash r = computeClaimTextHash P (am_answer r) \<and>
    am_prompt_hash r = computeClaimTextHash P (am_prompt r) \<and>
    (am_type r = QtEeoDemographic \<or> am_sensitivity r = SeRestricted \<longrightarrow> \<not> am_reusable r \<and> am_confirm r \<and> set (am_modes r) \<subseteq> {Assist}) \<and>
    (am_type r \<in> set HIGH_STAKES_QUESTION_TYPES \<or> am_sensitivity r = SeSensitive \<longrightarrow> am_confirm r \<and> ApprovedAuto \<notin> set (am_modes r))"
proof -
  have "assertSchema P ''answer-memory-record'' (answer_json r) = Inr ()"
    using assms by (auto simp: validateAnswerMemory_def split: sum.splits error.splits)
  then show ?thesis
    using assms unfolding validateAnswerMemory_def
    by (auto simp: list_ex_iff simp del: assertSchema_Inr split: if_splits)
qed

lemma mapE_all: "mapE f xs = Inr ys \<Longrightarrow> x \<in> set xs \<Longrightarrow> isOk (f x)"
  by (auto simp: mapE_Inr_iff list_all2_conv_all_nth in_set_conv_nth isOk_iff)

lemma insort_key_Cons:
  "insort_key f y (x # xs) = (if f y \<le> f x then y # x # xs else x # insort_key f y xs)"
  by simp

lemma head_sort_key:
  "head_opt (sort_key f xs) = Some x \<Longrightarrow>
   \<exists>us vs. xs = us @ x # vs \<and> (\<forall>y \<in> set us. f x < f y) \<and> (\<forall>y \<in> set vs. f x \<le> f y)"
proof (induction xs)
  case (Cons a xs)
  show ?case
  proof (cases "sort_key f xs")
    case Nil
    then have "xs = []" by (metis length_0_conv length_sort)
    then show ?thesis using Cons.prems by (intro exI [of _ "[]"]) (auto simp: head_opt_def)
  next
    case (Cons z zs)
    then have s: "sort_key f (a # xs) = insort_key f a (z # zs)" by simp
    have "sorted (map f (z # zs))" and "set (z # zs) = set xs"
      unfolding Cons [symmetric] by simp_all
    then have min: "\<forall>y \<in> set xs. f z \<le> f y" by auto
    show ?thesis
    proof (cases "f a \<le> f z")
      case True
      then have "x = a" using Cons.prems s by (simp add: head_opt_def)
      moreover have "\<forall>y \<in> set xs. f a \<le> f y" using True min by force
      ultimately show ?thesis by (intro exI [of _ "[]"] exI [of _ xs]) simp
    next
      case False
      then have x: "x = z" using Cons.prems s by (simp add: head_opt_def)
      then obtain us vs where "xs = us @ x # vs" "\<forall>y \<in> set us. f x < f y" "\<forall>y \<in> set vs. f x \<le> f y"
        using Cons.IH Cons by (auto simp: head_opt_def)
      then have "a # xs = (a # us) @ x # vs" "\<forall>y \<in> set (a # us). f x < f y" "\<forall>y \<in> set vs. f x \<le> f y"
        using False x by auto
      then show ?thesis by blast
    qed
  qed
qed (simp add: head_opt_def)

lemma filter_split:
  "filter Q xs = us @ x # vs \<Longrightarrow>
   \<exists>us' vs'. xs = us' @ x # vs' \<and> Q x \<and> filter Q us' = us \<and> filter Q vs' = vs"
proof (induction xs arbitrary: us)
  case (Cons a xs)
  show ?case
  proof (cases "Q a \<and> us = []")
    case True
    then show ?thesis using Cons.prems by (intro exI [of _ "[]"] exI [of _ xs]) simp
  next
    case False
    then obtain us' where u: "filter Q xs = us' @ x # vs" "us = (if Q a then [a] else []) @ us'"
      using Cons.prems by (cases us) (auto split: if_splits)
    then obtain zs vs' where "xs = zs @ x # vs'" "Q x" "filter Q zs = us'" "filter Q vs' = vs"
      using Cons.IH by blast
    with u(2) show ?thesis by (intro exI [of _ "a # zs"] exI [of _ vs']) simp
  qed
qed simp

section \<open>What a stored answer offers, stated on its own\<close>

definition in_scope :: "answer_context \<Rightarrow> answer_record \<Rightarrow> bool" where
  "in_scope c r = (am_scope r = ScGlobal \<or>
     am_scope r = ScRoleFamily \<and> (\<exists>f. am_role_family r = Some f \<and> ac_role_family c = Some f) \<or>
     am_scope r = ScOpportunity \<and> am_opportunity r = Some (ac_opportunity c))"

definition in_force :: "platform \<Rightarrow> int \<Rightarrow> answer_record \<Rightarrow> bool" where
  "in_force P now r = (am_active r \<and>
     (am_expires r = None \<or> (\<exists>e t. am_expires r = Some e \<and> parse_date P e = Some t \<and> now < t)))"

definition offered :: "platform \<Rightarrow> answer_context \<Rightarrow> answer_record \<Rightarrow> bool" where
  "offered P c r = (in_force P (ac_now c) r \<and> in_scope c r \<and> am_type r = ac_type c \<and>
     am_prompt_hash r = sha256 P (normalizeClaimText (ac_prompt c)) \<and> ac_mode c \<in> set (am_modes r) \<and>
     \<not> (ac_mode c = ApprovedAuto \<and> am_sensitivity r \<noteq> SeStandard))"

definition narrower :: "answer_scope \<Rightarrow> answer_scope \<Rightarrow> bool" where
  "narrower s t = ((s, t) \<in> {(ScOpportunity, ScRoleFamily), (ScOpportunity, ScGlobal), (ScRoleFamily, ScGlobal)})"

lemma in_scope_iff: "0 < scopeRank r c \<longleftrightarrow> in_scope c r"
  by (cases "am_scope r"; cases "ac_role_family c") (auto simp: scopeRank_def in_scope_def)

lemma answer_matches_iff: "answer_matches P c r \<longleftrightarrow> offered P c r"
proof -
  have "(case am_expires r of None \<Rightarrow> True | Some e \<Rightarrow> nlt (Some (ac_now c)) (parse_date P e)) \<longleftrightarrow>
    am_expires r = None \<or> (\<exists>e t. am_expires r = Some e \<and> parse_date P e = Some t \<and> ac_now c < t)"
  proof (cases "am_expires r")
    case (Some e)
    then show ?thesis by (cases "parse_date P e") simp_all
  qed simp
  then show ?thesis
    by (auto simp: answer_matches_def offered_def in_force_def in_scope_iff computeClaimTextHash_def)
qed

lemma scopeRank_less:
  "in_scope c r \<Longrightarrow> in_scope c a \<Longrightarrow> scopeRank r c < scopeRank a c \<longleftrightarrow> narrower (am_scope a) (am_scope r)"
  by (cases "am_scope r"; cases "am_scope a") (auto simp: scopeRank_def in_scope_def narrower_def)

lemma resolve_answer:
  assumes "resolveAnswerMemory P records c = Inr s" and "rs_answer s = Some a"
  shows "(\<exists>us vs. records = us @ a # vs \<and> (\<forall>r \<in> set us. offered P c r \<longrightarrow> scopeRank r c < scopeRank a c) \<and>
      (\<forall>r \<in> set vs. offered P c r \<longrightarrow> scopeRank r c \<le> scopeRank a c)) \<and>
    offered P c a \<and> validateAnswerMemory P a = [] \<and> am_reusable a \<and>
    am_type a \<noteq> QtEeoDemographic \<and> rs_status s = (if am_confirm a then ConfirmationRequired else Resolved)"
proof -
  obtain us where us: "mapE (assertAnswerMemory P) records = Inr us" using assms(1) by (auto simp: resolveAnswerMemory_def)
  let ?cs = "sort_key (\<lambda>r. - scopeRank r c) (filter (answer_matches P c) records)"
  have h: "head_opt ?cs = Some a" "am_reusable a" "am_type a \<noteq> QtEeoDemographic"
    "rs_status s = (if am_confirm a then ConfirmationRequired else Resolved)"
    using assms us by (auto simp: resolveAnswerMemory_def Let_def split: option.splits if_splits)
  obtain xs ys where s: "filter (offered P c) records = xs @ a # ys"
    "\<forall>r \<in> set xs. scopeRank r c < scopeRank a c" "\<forall>r \<in> set ys. scopeRank r c \<le> scopeRank a c"
    using head_sort_key [OF h(1)] by (auto simp: answer_matches_iff [abs_def])
  obtain xs' ys' where f: "records = xs' @ a # ys'" "offered P c a" "filter (offered P c) xs' = xs"
    "filter (offered P c) ys' = ys"
    using filter_split [OF s(1)] by blast
  have "validateAnswerMemory P a = []"
    using mapE_all [OF us, of a] f(1) by (auto simp: isOk_iff assertAnswerMemory_Inr)
  moreover have "\<exists>us vs. records = us @ a # vs \<and> (\<forall>r \<in> set us. offered P c r \<longrightarrow> scopeRank r c < scopeRank a c) \<and>
      (\<forall>r \<in> set vs. offered P c r \<longrightarrow> scopeRank r c \<le> scopeRank a c)"
    using f s(2,3) by (intro exI [of _ xs'] exI [of _ ys']) auto
  ultimately show ?thesis using h f(2) by blast
qed

section \<open>Properties\<close>

text \<open>C15: what is answered without asking. A resolution that needs no confirmation hands out a stored answer
  that is active, not expired (an expiry that is no date counts as past), of the asked type and of the digest
  of the asked prompt, in a scope of the question, allowed in its mode, whose text has its digest; it is never
  demographic, never of a high-stakes type and of standard sensitivity only. It is the first in the store among
  the offered answers of its scope, and none of a narrower scope is offered.\<close>

theorem resolved_answer_safe:
  assumes "resolveAnswerMemory P records c = Inr s" and "rs_status s = Resolved"
  shows "\<exists>a us vs. rs_answer s = Some a \<and> records = us @ a # vs \<and>
    am_active a \<and> (am_expires a = None \<or> (\<exists>e t. am_expires a = Some e \<and> parse_date P e = Some t \<and> ac_now c < t)) \<and>
    am_type a = ac_type c \<and> am_prompt_hash a = sha256 P (normalizeClaimText (ac_prompt c)) \<and>
    ac_mode c \<in> set (am_modes a) \<and> in_scope c a \<and>
    am_answer_hash a = sha256 P (normalizeClaimText (am_answer a)) \<and> am_sensitivity a = SeStandard \<and>
    am_type a \<notin> {QtEeoDemographic, QtWorkAuthorization, QtVisaSponsorship, QtRelocation, QtCompensation, QtLicense} \<and>
    (\<forall>r \<in> set us. offered P c r \<longrightarrow> narrower (am_scope a) (am_scope r)) \<and>
    (\<forall>r \<in> set vs. offered P c r \<longrightarrow> \<not> narrower (am_scope r) (am_scope a))"
proof -
  obtain a where a: "rs_answer s = Some a"
    using assms by (auto simp: resolveAnswerMemory_def Let_def split: option.splits if_splits)
  note r = resolve_answer [OF assms(1) a]
  then have o: "offered P c a" "validateAnswerMemory P a = []" "am_type a \<noteq> QtEeoDemographic" "\<not> am_confirm a" "am_reusable a"
    using assms(2) by (auto split: if_splits)
  then have i: "in_scope c a" by (simp add: offered_def)
  obtain us vs where w: "records = us @ a # vs" "\<forall>r \<in> set us. offered P c r \<longrightarrow> scopeRank r c < scopeRank a c"
    "\<forall>r \<in> set vs. offered P c r \<longrightarrow> scopeRank r c \<le> scopeRank a c"
    using r by blast
  have "\<forall>r \<in> set us. offered P c r \<longrightarrow> narrower (am_scope a) (am_scope r)"
    "\<forall>r \<in> set vs. offered P c r \<longrightarrow> \<not> narrower (am_scope r) (am_scope a)"
    using w(2,3) scopeRank_less [OF _ i] scopeRank_less [OF i] by (auto simp: offered_def not_less [symmetric])
  moreover have "am_sensitivity a = SeStandard"
    using o valid_answer [OF o(2)] by (cases "am_sensitivity a") auto
  moreover have "am_type a \<notin> {QtEeoDemographic, QtWorkAuthorization, QtVisaSponsorship, QtRelocation, QtCompensation, QtLicense}"
    using o valid_answer [OF o(2)] by (auto simp: HIGH_STAKES_QUESTION_TYPES_def)
  moreover have "am_answer_hash a = sha256 P (normalizeClaimText (am_answer a))"
    using valid_answer [OF o(2)] by (simp add: computeClaimTextHash_def)
  ultimately show ?thesis
    using a w(1) o(1) by (intro exI [of _ a] exI [of _ us] exI [of _ vs]) (auto simp: offered_def in_force_def)
qed

section \<open>Sample values and witnesses\<close>

definition sample_answer :: answer_record where
  "sample_answer = \<lparr>am_id = ''ANS-1'', am_type = QtSkill, am_prompt = ''Years'', am_prompt_hash = ''sha256:Years'',
     am_answer = ''5'', am_answer_hash = ''sha256:5'', am_status_evidence = EsVerified, am_pointer = ''f'',
     am_scope = ScGlobal, am_role_family = None, am_opportunity = None, am_sensitivity = SeStandard, am_reusable = True,
     am_confirm = False, am_modes = [Assist, ApprovedAuto], am_expires = None, am_active = True, am_created = ''t'',
     am_updated = ''t''\<rparr>"

definition sample_context :: answer_context where
  "sample_context = \<lparr>ac_type = QtSkill, ac_prompt = '' Years'', ac_role_family = None, ac_opportunity = ''OPP-1'',
     ac_mode = ApprovedAuto, ac_now = 0\<rparr>"

theorem resolved_answer_safe_witness:
  "\<exists>a. a \<in> set [sample_answer] \<and> am_active a \<and> ApprovedAuto \<in> set (am_modes a) \<and> in_scope sample_context a \<and>
    am_prompt_hash a = ''sha256:Years'' \<and> am_sensitivity a = SeStandard"
proof -
  have "\<exists>s. resolveAnswerMemory sample_platform [sample_answer] sample_context = Inr s \<and> rs_status s = Resolved"
  proof -
    have "isOk (resolveAnswerMemory sample_platform [sample_answer] sample_context) \<and>
      rs_status (case resolveAnswerMemory sample_platform [sample_answer] sample_context of Inr s \<Rightarrow> s) = Resolved" by code_simp
    then show ?thesis by (auto simp: isOk_iff)
  qed
  then obtain s where "resolveAnswerMemory sample_platform [sample_answer] sample_context = Inr s" "rs_status s = Resolved"
    by blast
  note w = resolved_answer_safe [OF this]
  have "sha256 sample_platform (normalizeClaimText (ac_prompt sample_context)) = ''sha256:Years''"
    "ac_mode sample_context = ApprovedAuto" by code_simp+
  with w show ?thesis by (metis in_set_conv_decomp)
qed

end
