(* ===== verification/JsonParse.thy ===== *)
theory JsonParse
  imports Json
begin

text \<open>
  \<open>JSON.parse\<close> for the values of the model: integers, and strings whose characters are code units below
  256 (a text with a fraction, an exponent or a larger escape is outside it and reads as \<open>None\<close>). The
  recursion is bounded by fuel, twice the length of the text, which \<open>pv_print\<close> shows to be enough for
  every canonical text: \<open>json_parse_stringify\<close> is the round trip with \<open>stable_stringify\<close>.
\<close>

definition json_ws :: "char \<Rightarrow> bool" where
  "json_ws c = (of_char c \<in> {9, 10, 13, 32 :: nat})"

definition skip_ws :: "string \<Rightarrow> string" where
  "skip_ws s = dropWhile json_ws s"

definition hexv :: "char \<Rightarrow> nat option" where
  "hexv c = (let n = of_char c :: nat in
     if 48 \<le> n \<and> n \<le> 57 then Some (n - 48) else if 97 \<le> n \<and> n \<le> 102 then Some (n - 87)
     else if 65 \<le> n \<and> n \<le> 70 then Some (n - 55) else None)"

definition hex4 :: "char \<Rightarrow> char \<Rightarrow> char \<Rightarrow> char \<Rightarrow> char option" where
  "hex4 a b c d = (case (hexv a, hexv b, hexv c, hexv d) of
     (Some 0, Some 0, Some x, Some y) \<Rightarrow> Some (char_of (16 * x + y)) | _ \<Rightarrow> None)"

definition simple_escape :: "char \<Rightarrow> char option" where
  "simple_escape e = (if e \<in> {CHR 0x22, CHR 0x5C, CHR ''/''} then Some e
     else if e = CHR ''b'' then Some (char_of (8 :: nat)) else if e = CHR ''f'' then Some (char_of (12 :: nat))
     else if e = CHR ''n'' then Some (char_of (10 :: nat)) else if e = CHR ''r'' then Some (char_of (13 :: nat))
     else if e = CHR ''t'' then Some (char_of (9 :: nat)) else None)"

text \<open>The rest of a string after its opening quote.\<close>

fun parse_chars :: "string \<Rightarrow> (string \<times> string) option" where
  "parse_chars [] = None"
| "parse_chars (c # s) = (
     if c = CHR 0x22 then Some ([], s)
     else if c = CHR 0x5C then (case s of
       [] \<Rightarrow> None
     | e # s1 \<Rightarrow> if e = CHR ''u'' then (case s1 of
           w # x # y # z # s2 \<Rightarrow> (case hex4 w x y z of None \<Rightarrow> None
             | Some d \<Rightarrow> map_option (\<lambda>(t, r). (d # t, r)) (parse_chars s2))
         | _ \<Rightarrow> None)
         else (case simple_escape e of None \<Rightarrow> None | Some d \<Rightarrow> map_option (\<lambda>(t, r). (d # t, r)) (parse_chars s1)))
     else if of_char c < (32 :: nat) then None
     else map_option (\<lambda>(t, r). (c # t, r)) (parse_chars s))"

definition parse_nat :: "string \<Rightarrow> (nat \<times> string) option" where
  "parse_nat s = (let ds = takeWhile is_digit s; r = dropWhile is_digit s in
     if ds = [] \<or> (hd ds = CHR ''0'' \<and> 1 < length ds) \<or> (r \<noteq> [] \<and> hd r \<in> {CHR ''.'', CHR ''e'', CHR ''E''}) then None
     else Some (digits_val ds, r))"

definition parse_number :: "string \<Rightarrow> (json \<times> string) option" where
  "parse_number s = (if starts_with ''-'' s then map_option (\<lambda>(n, r). (JNum (- int n), r)) (parse_nat (drop 1 s))
     else map_option (\<lambda>(n, r). (JNum (int n), r)) (parse_nat s))"

text \<open>A repeated member keeps its place and takes the later value.\<close>

fun upsert :: "'k \<Rightarrow> 'v \<Rightarrow> ('k \<times> 'v) list \<Rightarrow> ('k \<times> 'v) list" where
  "upsert k v [] = [(k, v)]"
| "upsert k v ((j, w) # es) = (if j = k then (j, v) # es else (j, w) # upsert k v es)"

lemma map_of_upsert: "map_of (upsert k v es) = (map_of es)(k \<mapsto> v)"
  by (induction es rule: upsert.induct) (auto simp: fun_eq_iff)

lemma upsert_fst: "fst ` set (upsert k v es) = insert k (fst ` set es)"
proof (induction es)
  case (Cons e es)
  then show ?case by (cases e) (auto simp: image_iff)
qed simp

lemma upsert_distinct: "distinct (map fst es) \<Longrightarrow> distinct (map fst (upsert k v es))"
proof (induction es)
  case (Cons e es)
  then show ?case using upsert_fst [of k v es] by (cases e) auto
qed simp

lemma upsert_set: "e \<in> set (upsert k v es) \<Longrightarrow> e = (k, v) \<or> e \<in> set es"
proof (induction es)
  case (Cons f es)
  then show ?case by (cases f) (auto split: if_splits)
qed simp

definition obj_of :: "(string \<times> json) list \<Rightarrow> json" where
  "obj_of es = JObj (foldl (\<lambda>acc (k, v). upsert k v acc) [] es)"

fun pv :: "nat \<Rightarrow> string \<Rightarrow> (json \<times> string) option"
  and pitems :: "nat \<Rightarrow> string \<Rightarrow> (json list \<times> string) option"
  and pmembers :: "nat \<Rightarrow> string \<Rightarrow> ((string \<times> json) list \<times> string) option" where
  "pv 0 s = None"
| "pv (Suc n) s = (let t = skip_ws s in
     if starts_with ''null'' t then Some (JNull, drop 4 t)
     else if starts_with ''true'' t then Some (JBool True, drop 4 t)
     else if starts_with ''false'' t then Some (JBool False, drop 5 t)
     else if starts_with [CHR 0x22] t then map_option (\<lambda>(x, r). (JStr x, r)) (parse_chars (drop 1 t))
     else if starts_with ''['' t then
       (if starts_with '']'' (skip_ws (drop 1 t)) then Some (JArr [], drop 1 (skip_ws (drop 1 t)))
        else map_option (\<lambda>(vs, r). (JArr vs, r)) (pitems n (drop 1 t)))
     else if starts_with ''{'' t then
       (if starts_with ''}'' (skip_ws (drop 1 t)) then Some (JObj [], drop 1 (skip_ws (drop 1 t)))
        else map_option (\<lambda>(es, r). (obj_of es, r)) (pmembers n (drop 1 t)))
     else parse_number t)"
| "pitems 0 s = None"
| "pitems (Suc n) s = (case pv n s of None \<Rightarrow> None | Some (v, r) \<Rightarrow> let t = skip_ws r in
     if starts_with '','' t then map_option (\<lambda>(vs, q). (v # vs, q)) (pitems n (drop 1 t))
     else if starts_with '']'' t then Some ([v], drop 1 t) else None)"
| "pmembers 0 s = None"
| "pmembers (Suc n) s = (let t = skip_ws s in
     if \<not> starts_with [CHR 0x22] t then None
     else case parse_chars (drop 1 t) of None \<Rightarrow> None | Some (k, r) \<Rightarrow> let u = skip_ws r in
     if \<not> starts_with '':'' u then None
     else case pv n (drop 1 u) of None \<Rightarrow> None | Some (v, q) \<Rightarrow> let w = skip_ws q in
     if starts_with '','' w then map_option (\<lambda>(es, z). ((k, v) # es, z)) (pmembers n (drop 1 w))
     else if starts_with ''}'' w then Some ([(k, v)], drop 1 w) else None)"

definition json_parse :: "string \<Rightarrow> json option" where
  "json_parse s = (case pv (2 * length s + 2) s of None \<Rightarrow> None
     | Some (j, r) \<Rightarrow> if skip_ws r = [] then Some j else None)"

section \<open>The round trip\<close>

fun wf_keys :: "json \<Rightarrow> bool" where
  "wf_keys (JArr vs) = (\<forall>v \<in> set vs. wf_keys v)"
| "wf_keys (JObj es) = (distinct (map fst es) \<and> (\<forall>(k, v) \<in> set es. wf_keys v))"
| "wf_keys j = True"

lemma skip_ws_head: "s \<noteq> [] \<Longrightarrow> \<not> json_ws (hd s) \<Longrightarrow> skip_ws (s @ r) = s @ r"
  by (cases s) (simp_all add: skip_ws_def)

lemma skip_ws_Cons [simp]: "\<not> json_ws c \<Longrightarrow> skip_ws (c # r) = c # r"
  by (simp add: skip_ws_def)

lemma json_ws_simps [simp]:
  "\<not> json_ws (CHR '','')" "\<not> json_ws (CHR '']'')" "\<not> json_ws (CHR ''}'')" "\<not> json_ws (CHR '':'')"
  "\<not> json_ws (CHR 0x22)" "\<not> json_ws (CHR ''['')" "\<not> json_ws (CHR ''{'')" "\<not> json_ws (CHR ''-'')"
  by (simp_all add: json_ws_def)

lemma hexv_digit: "n < 16 \<Longrightarrow> hexv (hex_digit n) = Some n"
  by (simp add: hexv_def hex_digit_def Let_def)

lemma parse_chars_esc: "parse_chars (esc_char c @ s) = map_option (\<lambda>(t, r). (c # t, r)) (parse_chars s)"
proof -
  define n where "n = (of_char c :: nat)"
  have c: "c = char_of n" by (simp add: n_def)
  consider "c = CHR 0x22" | "c = CHR 0x5C" | "n = 8" | "n = 12" | "n = 10" | "n = 13" | "n = 9"
    | "c \<noteq> CHR 0x22" "c \<noteq> CHR 0x5C" "n \<notin> {8, 9, 10, 12, 13}" "n < 32"
    | "c \<noteq> CHR 0x22" "c \<noteq> CHR 0x5C" "\<not> n < 32" by auto
  then show ?thesis
  proof cases
    case 8
    have "hex4 (CHR ''0'') (CHR ''0'') (hex_digit (n div 16)) (hex_digit (n mod 16)) = Some c"
    proof -
      have "hexv (hex_digit (n div 16)) = Some (n div 16)" "hexv (hex_digit (n mod 16)) = Some (n mod 16)"
        using 8 by (auto intro!: hexv_digit)
      moreover have "hexv (CHR ''0'') = Some 0" by (simp add: hexv_def)
      moreover have "16 * (n div 16) + n mod 16 = n" by simp
      ultimately show ?thesis by (simp add: hex4_def c [symmetric])
    qed
    with 8 show ?thesis by (simp add: esc_char_def Let_def n_def [symmetric])
  next
    case 9
    then have "n \<noteq> 8" "n \<noteq> 9" "n \<noteq> 10" "n \<noteq> 12" "n \<noteq> 13" by auto
    with 9 show ?thesis by (simp add: esc_char_def Let_def n_def [symmetric])
  qed (simp_all add: esc_char_def simple_escape_def c)
qed

lemma parse_chars_json: "parse_chars (concat (map esc_char s) @ CHR 0x22 # r) = Some (s, r)"
  by (induction s) (simp_all add: parse_chars_esc)

lemma nat_str_no_zero: "0 < n \<Longrightarrow> hd (nat_str n) \<noteq> CHR ''0''"
proof (induction n rule: nat_str.induct)
  case (1 n)
  show ?case
  proof (cases "n < 10")
    case True
    then have "nat_str n = [digit_char n]" by (simp add: nat_str.simps [of n])
    moreover have "digit_char n \<noteq> CHR ''0''"
      using True 1(2) digit_val_char [of n] by (auto simp: digit_val_def)
    ultimately show ?thesis by simp
  next
    case False
    then have "nat_str n = nat_str (n div 10) @ [digit_char (n mod 10)]" "0 < n div 10"
      by (simp_all add: nat_str.simps [of n])
    with 1(1) False show ?thesis by simp
  qed
qed

lemma parse_nat_str: "stops r \<Longrightarrow> parse_nat (nat_str n @ r) = Some (n, r)"
proof -
  assume r: "stops r"
  have d: "\<forall>c \<in> set (nat_str n). is_digit c" using nat_str_digits [of n] by (simp add: list_all_iff)
  have nd: "r = [] \<or> \<not> is_digit (hd r)" using r by (auto simp: stops_def is_digit_def)
  have "takeWhile is_digit (nat_str n @ r) = nat_str n" "dropWhile is_digit (nat_str n @ r) = r"
    using d nd by (cases r; simp)+
  moreover have "\<not> (hd (nat_str n) = CHR ''0'' \<and> 1 < length (nat_str n))"
    using nat_str_no_zero [of n] by (cases "n = 0") (simp_all add: nat_str.simps [of 0])
  moreover have "\<not> (r \<noteq> [] \<and> hd r \<in> {CHR ''.'', CHR ''e'', CHR ''E''})"
    using r by (auto simp: stops_def)
  ultimately show ?thesis by (simp add: parse_nat_def Let_def)
qed

lemma parse_number_int: "stops r \<Longrightarrow> parse_number (int_str i @ r) = Some (JNum i, r)"
proof -
  assume r: "stops r"
  show ?thesis
  proof (cases "i < 0")
    case True
    then show ?thesis using parse_nat_str [OF r] by (simp add: int_str_def parse_number_def)
  next
    case False
    have "\<not> starts_with ''-'' (nat_str (nat i) @ r)"
      using nat_str_no_minus by (auto simp: starts_with_iff)
    with False show ?thesis using parse_nat_str [OF r] by (simp add: int_str_def parse_number_def)
  qed
qed

lemma upsert_new: "k \<notin> fst ` set es \<Longrightarrow> upsert k v es = es @ [(k, v)]"
  by (induction es) auto

lemma obj_of_distinct: "distinct (map fst es) \<Longrightarrow> obj_of es = JObj es"
proof -
  have "distinct (map fst (acc @ es)) \<Longrightarrow> foldl (\<lambda>acc (k, v). upsert k v acc) acc es = acc @ es" for acc
  proof (induction es arbitrary: acc)
    case (Cons e es)
    then have "upsert (fst e) (snd e) acc = acc @ [e]" by (simp add: upsert_new)
    with Cons.IH [of "acc @ [e]"] Cons.prems show ?case by (simp add: case_prod_unfold)
  qed simp
  from this [of "[]"] show "distinct (map fst es) \<Longrightarrow> obj_of es = JObj es" by (simp add: obj_of_def)
qed

lemma int_str_start: "int_str i @ r = c # s \<Longrightarrow> c = CHR ''-'' \<or> is_digit c"
  using int_str_hd [of i] by (cases "int_str i") auto

lemma print_not_ws: "defined j \<Longrightarrow> print j \<noteq> [] \<and> \<not> json_ws (hd (print j))"
proof (cases j)
  case (JNum i)
  then show ?thesis using int_str_hd [of i] by (auto simp: is_digit_def json_ws_def)
qed (simp_all add: json_str_def json_ws_def)

lemma skip_print: "defined j \<Longrightarrow> skip_ws (print j @ r) = print j @ r"
  using print_not_ws [of j] by (intro skip_ws_head) auto

lemma pitems_print:
  assumes "\<And>v n r. v \<in> set vs \<Longrightarrow> stops r \<Longrightarrow> 2 * length (print v) \<le> n \<Longrightarrow> pv n (print v @ r) = Some (v, r)"
    and "\<forall>v \<in> set vs. defined v" and "vs \<noteq> []" and "2 * length (joins '','' (map print vs)) + 1 \<le> m"
  shows "pitems m (joins '','' (map print vs) @ CHR '']'' # r) = Some (vs, r)"
  using assms
proof (induction vs arbitrary: m)
  case (Cons v vs)
  obtain n where n: "m = Suc n" using Cons.prems(4) by (cases m) auto
  show ?case
  proof (cases vs)
    case Nil
    have "pv n (print v @ CHR '']'' # r) = Some (v, CHR '']'' # r)"
      using Cons.prems n Nil by (intro Cons.prems(1)) auto
    then show ?thesis using n Nil by simp
  next
    case (Cons w ws)
    let ?rest = "joins '','' (map print vs)"
    have j: "joins '','' (map print (v # vs)) = print v @ CHR '','' # ?rest" using Cons by simp
    have "pv n (print v @ CHR '','' # ?rest @ CHR '']'' # r) = Some (v, CHR '','' # ?rest @ CHR '']'' # r)"
      using Cons.prems(4) n j by (intro Cons.prems(1)) auto
    moreover have "pitems n (?rest @ CHR '']'' # r) = Some (vs, r)"
      using Cons.prems n j Cons by (intro Cons.IH) auto
    ultimately show ?thesis using n j by simp
  qed
qed simp

abbreviation member_text :: "string \<times> json \<Rightarrow> string" where
  "member_text \<equiv> \<lambda>(k, v). json_str k @ '':'' @ print v"

lemma pmembers_print:
  assumes "\<And>k v n r. (k, v) \<in> set es \<Longrightarrow> stops r \<Longrightarrow> 2 * length (print v) \<le> n \<Longrightarrow> pv n (print v @ r) = Some (v, r)"
    and "es \<noteq> []" and "2 * length (joins '','' (map member_text es)) + 1 \<le> m"
  shows "pmembers m (joins '','' (map member_text es) @ CHR ''}'' # r) = Some (es, r)"
  using assms
proof (induction es arbitrary: m)
  case (Cons e es)
  obtain n where n: "m = Suc n" using Cons.prems(3) by (cases m) auto
  obtain k v where e: "e = (k, v)" by fastforce
  have key: "parse_chars (concat (map esc_char k) @ CHR 0x22 # q) = Some (k, q)" for q by (rule parse_chars_json)
  show ?case
  proof (cases es)
    case Nil
    have "pv n (print v @ CHR ''}'' # r) = Some (v, CHR ''}'' # r)"
      using Cons.prems n Nil e by (intro Cons.prems(1)) (auto simp: json_str_def)
    then show ?thesis using n Nil e key by (simp add: json_str_def)
  next
    case (Cons f fs)
    let ?rest = "joins '','' (map member_text es)"
    have j: "joins '','' (map member_text (e # es)) = json_str k @ '':'' @ print v @ CHR '','' # ?rest" using Cons e by simp
    have "pv n (print v @ CHR '','' # ?rest @ CHR ''}'' # r) = Some (v, CHR '','' # ?rest @ CHR ''}'' # r)"
      using Cons.prems(3) n j e by (intro Cons.prems(1)) auto
    moreover have "pmembers n (?rest @ CHR ''}'' # r) = Some (es, r)"
      using Cons.prems n j Cons by (intro Cons.IH) auto
    ultimately show ?thesis using n j e key by (simp add: json_str_def)
  qed
qed simp

lemma pv_print:
  "defined j \<Longrightarrow> wf_keys j \<Longrightarrow> stops r \<Longrightarrow> 2 * length (print j) \<le> n \<Longrightarrow> pv n (print j @ r) = Some (j, r)"
proof (induction j arbitrary: n r)
  case JNull
  then show ?case by (cases n) (simp_all add: json_ws_def)
next
  case (JBool b)
  then show ?case by (cases n; cases b) (simp_all add: json_ws_def)
next
  case (JNum i)
  have "int_str i \<noteq> []" using int_str_hd by blast
  then obtain m where m: "n = Suc m" using JNum.prems by (cases n) auto
  have skip: "skip_ws (int_str i @ r) = int_str i @ r" using skip_print [of "JNum i" r] by simp
  have start: "\<not> starts_with (c # p) (int_str i @ r)" if "c \<noteq> CHR ''-''" "\<not> is_digit c" for c p
    using int_str_neq [OF that] by (auto simp: starts_with_iff)
  show ?case
    using m JNum.prems skip by (simp add: start is_digit_def Let_def parse_number_int)
next
  case (JStr s)
  then obtain m where m: "n = Suc m" by (cases n) (auto simp: json_str_def)
  show ?case using m parse_chars_json [of s r] by (simp add: json_str_def Let_def)
next
  case (JArr vs)
  then obtain m where m: "n = Suc m" by (cases n) auto
  show ?case
  proof (cases "vs = []")
    case True
    then show ?thesis using m by (simp add: Let_def)
  next
    case False
    have p: "pitems m (joins '','' (map print vs) @ CHR '']'' # r) = Some (vs, r)"
      using JArr False m by (intro pitems_print) auto
    obtain v ws where v: "vs = v # ws" using False by (cases vs) auto
    then have d: "defined v" using JArr.prems by simp
    have "skip_ws (joins '','' (map print vs) @ CHR '']'' # r) = joins '','' (map print vs) @ CHR '']'' # r"
      unfolding v using skip_print [OF d] by (cases ws) simp_all
    moreover have "\<not> starts_with '']'' (joins '','' (map print vs) @ CHR '']'' # r)"
      using print_hd [OF d] unfolding v by (cases "print v"; cases ws) auto
    ultimately show ?thesis using m p by (simp add: Let_def)
  qed
next
  case (JObj es)
  then obtain m where m: "n = Suc m" by (cases n) auto
  show ?case
  proof (cases "es = []")
    case True
    then show ?thesis using m by (simp add: Let_def)
  next
    case False
    have p: "pmembers m (joins '','' (map member_text es) @ CHR ''}'' # r) = Some (es, r)"
    proof (rule pmembers_print)
      fix k v n r assume a: "(k, v) \<in> set es" "stops r" "2 * length (print v) \<le> n"
      then have "v \<in> Basic_BNFs.snds (k, v)" "defined v" "wf_keys v" using JObj.prems by auto
      with a show "pv n (print v @ r) = Some (v, r)" using JObj.IH [of "(k, v)" v r n] by blast
    qed (use JObj.prems False m in auto)
    obtain k v fs where v: "es = (k, v) # fs" using False by (cases es) auto
    have "skip_ws (joins '','' (map member_text es) @ CHR ''}'' # r) = joins '','' (map member_text es) @ CHR ''}'' # r"
      "\<not> starts_with ''}'' (joins '','' (map member_text es) @ CHR ''}'' # r)"
      unfolding v by (cases fs; simp add: json_str_def)+
    moreover have "obj_of es = JObj es" using JObj.prems by (intro obj_of_distinct) simp
    ultimately show ?thesis using m p by (simp add: Let_def)
  qed
qed simp

lemma json_parse_print: "defined j \<Longrightarrow> wf_keys j \<Longrightarrow> json_parse (print j) = Some j"
  using pv_print [of j "[]" "2 * length (print j) + 2"] by (simp add: json_parse_def skip_ws_def)

text \<open>A text file holds the value and a line feed.\<close>

lemma json_parse_line:
  assumes "defined j" and "wf_keys j"
  shows "json_parse (print j @ [CHR 0x0A]) = Some j"
proof -
  have "pv (2 * length (print j @ [CHR 0x0A]) + 2) (print j @ [CHR 0x0A]) = Some (j, [CHR 0x0A])"
    using assms by (intro pv_print) simp_all
  moreover have "skip_ws [CHR 0x0A] = []" by (simp add: skip_ws_def json_ws_def)
  ultimately show ?thesis unfolding json_parse_def by simp
qed

lemma live_entries_distinct:
  assumes "distinct (map fst es)"
  shows "distinct (map fst (live_entries ck es))"
proof -
  have "distinct (map fst (filter (\<lambda>e. snd e \<noteq> JUndef) es))"
    using assms by (rule distinct_map_filter)
  moreover have "mset (map fst (live_entries ck es)) = mset (map fst (filter (\<lambda>e. snd e \<noteq> JUndef) es))"
    by (simp add: live_entries_def)
  ultimately show ?thesis by (metis mset_eq_imp_distinct_iff)
qed

lemma canon_wf_keys: "wf_keys j \<Longrightarrow> wf_keys (canon ck j)"
proof (induction ck j rule: canon.induct)
  case (7 ck es)
  let ?live = "live_entries ck es"
  have "distinct (map fst ?live)" using 7(2) by (intro live_entries_distinct) simp
  moreover have "map (fst \<circ> (\<lambda>(k, v). (k, canon ck v))) ?live = map fst ?live" by (rule map_cong) auto
  ultimately have "distinct (map (fst \<circ> (\<lambda>(k, v). (k, canon ck v))) ?live)" by metis
  moreover
  have "wf_keys (canon ck v)" if "(k, v) \<in> set ?live" for k v
    using 7(1) [of "(k, v)" k v] 7(2) that by auto
  ultimately show ?case by (auto simp del: live_entries_mem)
qed auto

lemma json_parse_stringify:
  "array_safe j \<Longrightarrow> j \<noteq> JUndef \<Longrightarrow> wf_keys j \<Longrightarrow> json_parse (stable_stringify ck j) = Some (canon ck j)"
  by (simp add: stable_stringify_canon json_parse_print canon_defined canon_wf_keys)

end
