(* ===== verification/EventStore.thy ===== *)
theory EventStore
  imports JsonParse
begin

text \<open>
  The encrypted event store (src/src/storage/encrypted-event-store.ts, with the tables and constraints of
  src/src/storage/migrations.ts): an append-only table of encrypted events, each carrying the digest of its
  predecessor, and an authenticated head (count and last digest) in the metadata; snapshots, receipts and
  signed checkpoints beside it. The state is \<open>store\<close>; each operation returns the next state or throws.
  Key derivation and AES-256-GCM are the parameter \<open>crypto\<close>; random values are arguments.
\<close>

record crypto =
  cr_derive :: "string \<Rightarrow> string \<Rightarrow> string"
  cr_encrypt :: "string \<Rightarrow> string \<Rightarrow> string \<Rightarrow> string \<Rightarrow> string \<times> string"
  cr_decrypt :: "string \<Rightarrow> string \<Rightarrow> string \<Rightarrow> string \<Rightarrow> string \<Rightarrow> string option"

text \<open>What authenticated encryption promises: with the key, the nonce, the tag and the associated data of
  the encryption, decryption gives the plaintext back.\<close>

definition aead_ok :: "crypto \<Rightarrow> bool" where
  "aead_ok C = (\<forall>k n m a. cr_decrypt C k n (fst (cr_encrypt C k n m a)) (snd (cr_encrypt C k n m a)) a = Some m)"

text \<open>The form of a SHA-256 digest in hexadecimal.\<close>

definition hex_digest :: "platform \<Rightarrow> bool" where
  "hex_digest P = (\<forall>s. length (sha256_hex P s) = 64 \<and> list_all is_hex (sha256_hex P s))"

record event_row =
  er_sequence :: nat
  er_id :: string
  er_aggregate_type :: string
  er_aggregate :: string
  er_type :: string
  er_version :: int
  er_time :: string
  er_cipher :: string
  er_nonce :: string
  er_tag :: string
  er_previous :: string
  er_hash :: string

record snapshot_row =
  sn_type :: string
  sn_aggregate :: string
  sn_version :: int
  sn_created :: string
  sn_last :: string
  sn_cipher :: string
  sn_nonce :: string
  sn_tag :: string

record encrypted_payload =
  ep_cipher :: string
  ep_nonce :: string
  ep_tag :: string

record chain_head =
  ch_count :: int
  ch_hash :: string

record legacy_receipt =
  lr_digest :: string
  lr_kind :: string
  lr_locator :: string
  lr_event :: string
  lr_imported :: string

record authority_receipt =
  au_request :: string
  au_hash :: string
  au_operation :: string
  au_event :: "string option"
  au_response :: string
  au_completed :: string

record signed_checkpoint =
  ck_id :: string
  ck_database :: string
  ck_schema :: int
  ck_count :: int
  ck_head :: string
  ck_created :: string
  ck_device :: string
  ck_key :: string
  ck_previous :: string
  ck_pem :: string
  ck_signature :: string

record append_input =
  ae_id :: "string option"
  ae_aggregate_type :: string
  ae_aggregate :: string
  ae_type :: string
  ae_version :: int
  ae_payload :: json
  ae_time :: int

record stored_event =
  se_sequence :: nat
  se_id :: string
  se_aggregate_type :: string
  se_aggregate :: string
  se_type :: string
  se_version :: int
  se_time :: string
  se_previous :: string
  se_hash :: string
  se_payload :: json

record stored_snapshot =
  ss_type :: string
  ss_aggregate :: string
  ss_version :: int
  ss_created :: string
  ss_last :: string
  ss_payload :: json

record store =
  st_key :: string
  st_metadata :: "string \<rightharpoonup> string"
  st_events :: "event_row list"
  st_next :: nat
  st_snapshots :: "snapshot_row list"
  st_imports :: "legacy_receipt list"
  st_receipts :: "authority_receipt list"
  st_checkpoints :: "signed_checkpoint list"
  st_migrations :: "int list"

definition GENESIS_HASH :: "platform \<Rightarrow> string" where
  "GENESIS_HASH P = sha256 P ''vocation-os:event-chain:v1''"

definition KEY_CHECK_AAD :: string where "KEY_CHECK_AAD = ''vocation-os:key-check:v1''"

definition KEY_CHECK_VALUE :: string where "KEY_CHECK_VALUE = ''vocation-os-encrypted-store''"

definition CHAIN_HEAD_AAD :: string where "CHAIN_HEAD_AAD = ''vocation-os:chain-head:v1''"

definition identifier_ok :: "string \<Rightarrow> bool" where
  "identifier_ok s = (s \<noteq> [] \<and> is_alnum (hd s) \<and> length (tl s) \<le> 127 \<and>
     list_all (\<lambda>c. is_alnum c \<or> c \<in> set ''._:-'') (tl s))"

definition assertIdentifier :: "string \<Rightarrow> string \<Rightarrow> unit result" where
  "assertIdentifier s label = (if identifier_ok s then Inr ()
     else throw (label @ '' must be an opaque identifier without whitespace''))"

definition assertSchemaVersion :: "int \<Rightarrow> unit result" where
  "assertSchemaVersion v = (if v < 1 then throw ''Event schema version must be a positive integer'' else Inr ())"

definition deriveKey :: "crypto \<Rightarrow> string \<Rightarrow> string \<Rightarrow> string result" where
  "deriveKey C passphrase salt = (if length passphrase < 12
     then throw ''Local store passphrase must contain at least 12 characters'' else Inr (cr_derive C passphrase salt))"

definition encrypt :: "crypto \<Rightarrow> string \<Rightarrow> string \<Rightarrow> string \<Rightarrow> string \<Rightarrow> encrypted_payload" where
  "encrypt C key nonce plaintext aad = (case cr_encrypt C key nonce plaintext aad of (c, t) \<Rightarrow>
     \<lparr>ep_cipher = c, ep_nonce = nonce, ep_tag = t\<rparr>)"

definition decrypt :: "crypto \<Rightarrow> string \<Rightarrow> encrypted_payload \<Rightarrow> string \<Rightarrow> string option" where
  "decrypt C key p aad = cr_decrypt C key (ep_nonce p) (ep_cipher p) (ep_tag p) aad"

definition eventAad :: "platform \<Rightarrow> event_row \<Rightarrow> string" where
  "eventAad P r = stable_stringify (coll_key P) (JObj [(''eventId'', JStr (er_id r)),
     (''aggregateType'', JStr (er_aggregate_type r)), (''aggregateId'', JStr (er_aggregate r)),
     (''eventType'', JStr (er_type r)), (''schemaVersion'', JNum (er_version r)), (''occurredAt'', JStr (er_time r))])"

definition snapshotAad :: "platform \<Rightarrow> string \<Rightarrow> string \<Rightarrow> int \<Rightarrow> string \<Rightarrow> string" where
  "snapshotAad P ty ag v last_hash = stable_stringify (coll_key P) (JObj [(''aggregateType'', JStr ty), (''aggregateId'', JStr ag),
     (''version'', JNum v), (''lastEventHash'', JStr last_hash)])"

definition row_members :: "event_row \<Rightarrow> (string \<times> json) list" where
  "row_members r = [(''event_id'', JStr (er_id r)), (''aggregate_type'', JStr (er_aggregate_type r)),
     (''aggregate_id'', JStr (er_aggregate r)), (''event_type'', JStr (er_type r)),
     (''schema_version'', JNum (er_version r)), (''occurred_at'', JStr (er_time r)),
     (''payload_ciphertext'', JStr (er_cipher r)), (''payload_nonce'', JStr (er_nonce r)),
     (''payload_tag'', JStr (er_tag r)), (''previous_hash'', JStr (er_previous r))]"

definition computeEventHash :: "platform \<Rightarrow> event_row \<Rightarrow> string" where
  "computeEventHash P r = hash_json P (JObj (row_members r))"

text \<open>\<open>JSON.stringify\<close> of an encrypted payload, and the reading of one.\<close>

definition payload_text :: "encrypted_payload \<Rightarrow> string" where
  "payload_text p = print (JObj [(''ciphertext'', JStr (ep_cipher p)), (''nonce'', JStr (ep_nonce p)), (''tag'', JStr (ep_tag p))])"

definition str_member :: "json \<Rightarrow> string \<Rightarrow> string option" where
  "str_member j k = (case j of JObj es \<Rightarrow> (case map_of es k of Some (JStr s) \<Rightarrow> Some s | _ \<Rightarrow> None) | _ \<Rightarrow> None)"

definition num_member :: "json \<Rightarrow> string \<Rightarrow> int option" where
  "num_member j k = (case j of JObj es \<Rightarrow> (case map_of es k of Some (JNum n) \<Rightarrow> Some n | _ \<Rightarrow> None) | _ \<Rightarrow> None)"

definition payload_of_text :: "string \<Rightarrow> encrypted_payload option" where
  "payload_of_text s = (case json_parse s of None \<Rightarrow> None | Some j \<Rightarrow>
     (case (str_member j ''ciphertext'', str_member j ''nonce'', str_member j ''tag'') of
       (Some c, Some n, Some t) \<Rightarrow> Some \<lparr>ep_cipher = c, ep_nonce = n, ep_tag = t\<rparr> | _ \<Rightarrow> None))"

definition sha256_text :: "string \<Rightarrow> bool" where
  "sha256_text s = (starts_with ''sha256:'' s \<and> length (drop 7 s) = 64 \<and> list_all is_hex (drop 7 s))"

definition encodeChainHead :: "platform \<Rightarrow> crypto \<Rightarrow> string \<Rightarrow> string \<Rightarrow> chain_head \<Rightarrow> string" where
  "encodeChainHead P C key nonce h = payload_text (encrypt C key nonce
     (stable_stringify (coll_key P) (JObj [(''eventCount'', JNum (ch_count h)), (''headHash'', JStr (ch_hash h))])) CHAIN_HEAD_AAD)"

definition decodeChainHead :: "crypto \<Rightarrow> string \<Rightarrow> string \<Rightarrow> chain_head result" where
  "decodeChainHead C key v = (let fail = throw ''Encrypted event chain head cannot be authenticated'' in
     case payload_of_text v of None \<Rightarrow> fail | Some p \<Rightarrow>
     (case decrypt C key p CHAIN_HEAD_AAD of None \<Rightarrow> fail | Some s \<Rightarrow>
     (case json_parse s of None \<Rightarrow> fail | Some j \<Rightarrow>
     (case (num_member j ''eventCount'', str_member j ''headHash'') of
       (Some n, Some h) \<Rightarrow> if n < 0 \<or> \<not> sha256_text h then fail else Inr \<lparr>ch_count = n, ch_hash = h\<rparr>
     | _ \<Rightarrow> fail))))"

section \<open>Reading the chain\<close>

definition seq_str :: "event_row \<Rightarrow> string" where
  "seq_str r = nat_str (er_sequence r)"

definition row_payload :: "platform \<Rightarrow> crypto \<Rightarrow> string \<Rightarrow> event_row \<Rightarrow> json option" where
  "row_payload P C key r = Option.bind
     (decrypt C key \<lparr>ep_cipher = er_cipher r, ep_nonce = er_nonce r, ep_tag = er_tag r\<rparr> (eventAad P r)) json_parse"

definition event_of_row :: "event_row \<Rightarrow> json \<Rightarrow> stored_event" where
  "event_of_row r payload = \<lparr>se_sequence = er_sequence r, se_id = er_id r, se_aggregate_type = er_aggregate_type r,
     se_aggregate = er_aggregate r, se_type = er_type r, se_version = er_version r, se_time = er_time r,
     se_previous = er_previous r, se_hash = er_hash r, se_payload = payload\<rparr>"

text \<open>The loop over the rows: the digest every row has to name as its predecessor is carried along. It
  returns the events and the last digest.\<close>

fun verify_rows :: "platform \<Rightarrow> crypto \<Rightarrow> string \<Rightarrow> string \<Rightarrow> event_row list \<Rightarrow> (stored_event list \<times> string) result" where
  "verify_rows P C key expected [] = Inr ([], expected)"
| "verify_rows P C key expected (r # rs) = (
     if er_previous r \<noteq> expected then throw (''Event chain is broken at sequence '' @ seq_str r)
     else if computeEventHash P r \<noteq> er_hash r then throw (''Event hash is invalid at sequence '' @ seq_str r)
     else case row_payload P C key r of
       None \<Rightarrow> throw (''Encrypted event payload cannot be authenticated at sequence '' @ seq_str r)
     | Some payload \<Rightarrow> bindE (verify_rows P C key (er_hash r) rs) (\<lambda>(es, h). Inr (event_of_row r payload # es, h)))"

definition chainHead :: "crypto \<Rightarrow> store \<Rightarrow> chain_head result" where
  "chainHead C st = (case st_metadata st ''event_chain_head'' of
     None \<Rightarrow> throw ''Encrypted event chain head is missing'' | Some v \<Rightarrow> decodeChainHead C (st_key st) v)"

definition readAll :: "platform \<Rightarrow> crypto \<Rightarrow> store \<Rightarrow> stored_event list result" where
  "readAll P C st = bindE (chainHead C st) (\<lambda>head.
     bindE (verify_rows P C (st_key st) (GENESIS_HASH P) (st_events st)) (\<lambda>(es, h).
     if ch_count head \<noteq> int (length (st_events st)) \<or> ch_hash head \<noteq> h
     then throw ''Event history does not match the authenticated chain head'' else Inr es))"

definition readAggregate :: "platform \<Rightarrow> crypto \<Rightarrow> store \<Rightarrow> string \<Rightarrow> string \<Rightarrow> stored_event list result" where
  "readAggregate P C st ty ag = bindE (readAll P C st) (\<lambda>es.
     Inr (filter (\<lambda>e. se_aggregate_type e = ty \<and> se_aggregate e = ag) es))"

definition readEvent :: "platform \<Rightarrow> crypto \<Rightarrow> store \<Rightarrow> string \<Rightarrow> stored_event option result" where
  "readEvent P C st eid = bindE (assertIdentifier eid ''Event id'') (\<lambda>_. bindE (readAll P C st) (\<lambda>es.
     Inr (find (\<lambda>e. se_id e = eid) es)))"

definition hasEvent :: "store \<Rightarrow> string \<Rightarrow> bool result" where
  "hasEvent st eid = bindE (assertIdentifier eid ''Event id'') (\<lambda>_. Inr (\<exists>r \<in> set (st_events st). er_id r = eid))"

section \<open>Appending\<close>

definition row_of_input :: "append_input \<Rightarrow> string \<Rightarrow> event_row" where
  "row_of_input i uuid = \<lparr>er_sequence = 0, er_id = (case ae_id i of Some e \<Rightarrow> e | None \<Rightarrow> ''EVT-'' @ uuid),
     er_aggregate_type = ae_aggregate_type i, er_aggregate = ae_aggregate i, er_type = ae_type i,
     er_version = ae_version i, er_time = to_iso (ae_time i), er_cipher = [], er_nonce = [], er_tag = [],
     er_previous = [], er_hash = []\<rparr>"

definition last_hash :: "platform \<Rightarrow> event_row list \<Rightarrow> string" where
  "last_hash P rs = (case last_opt rs of None \<Rightarrow> GENESIS_HASH P | Some r \<Rightarrow> er_hash r)"

definition sealed_row :: "platform \<Rightarrow> crypto \<Rightarrow> store \<Rightarrow> append_input \<Rightarrow> string \<Rightarrow> string \<Rightarrow> event_row" where
  "sealed_row P C st i uuid nonce = (
     let r0 = row_of_input i uuid;
         enc = encrypt C (st_key st) nonce (stable_stringify (coll_key P) (ae_payload i)) (eventAad P r0);
         r1 = r0\<lparr>er_sequence := st_next st, er_cipher := ep_cipher enc, er_nonce := ep_nonce enc, er_tag := ep_tag enc,
           er_previous := last_hash P (st_events st)\<rparr> in
     r1\<lparr>er_hash := computeEventHash P r1\<rparr>)"

definition append_event ::
  "platform \<Rightarrow> crypto \<Rightarrow> store \<Rightarrow> append_input \<Rightarrow> string \<Rightarrow> string \<Rightarrow> string \<Rightarrow> (store \<times> stored_event) result" where
  "append_event P C st i uuid nonce head_nonce =
     bindE (assertIdentifier (ae_aggregate_type i) ''Aggregate type'') (\<lambda>_.
     bindE (assertIdentifier (ae_aggregate i) ''Aggregate id'') (\<lambda>_.
     bindE (assertIdentifier (ae_type i) ''Event type'') (\<lambda>_.
     bindE (assertSchemaVersion (ae_version i)) (\<lambda>_.
     let row = sealed_row P C st i uuid nonce in
     bindE (assertIdentifier (er_id row) ''Event id'') (\<lambda>_.
     bindE (chainHead C st) (\<lambda>head.
     if int (length (st_events st)) \<noteq> ch_count head \<or> last_hash P (st_events st) \<noteq> ch_hash head
     then throw ''Event chain head does not match stored event history''
     else if \<exists>r \<in> set (st_events st). er_id r = er_id row then throw ''UNIQUE constraint failed: events.event_id''
     else if \<exists>r \<in> set (st_events st). er_hash r = er_hash row then throw ''UNIQUE constraint failed: events.event_hash''
     else Inr (st\<lparr>st_events := st_events st @ [row], st_next := st_next st + 1,
         st_metadata := (st_metadata st)(''event_chain_head'' \<mapsto> encodeChainHead P C (st_key st) head_nonce
           \<lparr>ch_count = int (length (st_events st)) + 1, ch_hash = er_hash row\<rparr>)\<rparr>,
       event_of_row row (ae_payload i))))))))"

section \<open>Snapshots\<close>

definition nth_event :: "stored_event list \<Rightarrow> int \<Rightarrow> stored_event option" where
  "nth_event es v = (if 1 \<le> v \<and> nat v \<le> length es then Some (es ! (nat v - 1)) else None)"

text \<open>A table with a primary key: insertion, or replacement of the row with the key.\<close>

definition upsert_by :: "('a \<Rightarrow> 'k) \<Rightarrow> 'a \<Rightarrow> 'a list \<Rightarrow> 'a list" where
  "upsert_by key s ss = (if \<exists>x \<in> set ss. key x = key s then map (\<lambda>x. if key x = key s then s else x) ss else ss @ [s])"

definition sn_key :: "snapshot_row \<Rightarrow> string \<times> string" where
  "sn_key s = (sn_type s, sn_aggregate s)"

definition find_snapshot :: "store \<Rightarrow> string \<Rightarrow> string \<Rightarrow> snapshot_row option" where
  "find_snapshot st ty ag = find (\<lambda>s. sn_key s = (ty, ag)) (st_snapshots st)"

definition saveSnapshot ::
  "platform \<Rightarrow> crypto \<Rightarrow> store \<Rightarrow> string \<Rightarrow> string \<Rightarrow> int \<Rightarrow> string \<Rightarrow> json \<Rightarrow> int \<Rightarrow> string \<Rightarrow> store result" where
  "saveSnapshot P C st ty ag v lastHash payload now nonce =
     bindE (assertIdentifier ty ''Aggregate type'') (\<lambda>_.
     bindE (assertIdentifier ag ''Aggregate id'') (\<lambda>_.
     bindE (assertSchemaVersion v) (\<lambda>_.
     bindE (readAggregate P C st ty ag) (\<lambda>es.
     if map_option se_hash (nth_event es v) \<noteq> Some lastHash
     then throw ''Snapshot checkpoint does not match the aggregate event chain''
     else if (case find_snapshot st ty ag of None \<Rightarrow> False | Some s \<Rightarrow> v < sn_version s)
     then throw ''Snapshot version rollback is not allowed''
     else let enc = encrypt C (st_key st) nonce (stable_stringify (coll_key P) payload) (snapshotAad P ty ag v lastHash) in
       Inr (st\<lparr>st_snapshots := upsert_by sn_key \<lparr>sn_type = ty, sn_aggregate = ag, sn_version = v, sn_created = to_iso now,
         sn_last = lastHash, sn_cipher = ep_cipher enc, sn_nonce = ep_nonce enc, sn_tag = ep_tag enc\<rparr> (st_snapshots st)\<rparr>)))))"

definition loadSnapshot :: "platform \<Rightarrow> crypto \<Rightarrow> store \<Rightarrow> string \<Rightarrow> string \<Rightarrow> stored_snapshot option result" where
  "loadSnapshot P C st ty ag = (case find_snapshot st ty ag of None \<Rightarrow> Inr None | Some s \<Rightarrow>
     bindE (readAggregate P C st ty ag) (\<lambda>es.
     if map_option se_hash (nth_event es (sn_version s)) \<noteq> Some (sn_last s)
     then throw (''Snapshot checkpoint is not present in the event chain for '' @ ty @ '':'' @ ag)
     else case Option.bind (decrypt C (st_key st) \<lparr>ep_cipher = sn_cipher s, ep_nonce = sn_nonce s, ep_tag = sn_tag s\<rparr>
         (snapshotAad P (sn_type s) (sn_aggregate s) (sn_version s) (sn_last s))) json_parse of
       None \<Rightarrow> throw (''Encrypted snapshot cannot be authenticated for '' @ ty @ '':'' @ ag)
     | Some payload \<Rightarrow> Inr (Some \<lparr>ss_type = sn_type s, ss_aggregate = sn_aggregate s, ss_version = sn_version s,
         ss_created = sn_created s, ss_last = sn_last s, ss_payload = payload\<rparr>)))"

section \<open>Receipts and checkpoints\<close>

definition findLegacyImportReceipt :: "store \<Rightarrow> string \<Rightarrow> legacy_receipt option" where
  "findLegacyImportReceipt st d = find (\<lambda>r. lr_digest r = d) (st_imports st)"

text \<open>An import of a known digest replaces its receipt; an event belongs to one receipt.\<close>

definition recordLegacyImportReceipt :: "store \<Rightarrow> legacy_receipt \<Rightarrow> store result" where
  "recordLegacyImportReceipt st r = (
     if \<exists>x \<in> set (st_imports st). lr_event x = lr_event r \<and> lr_digest x \<noteq> lr_digest r
     then throw ''UNIQUE constraint failed: legacy_import_receipts.event_id''
     else if \<exists>x \<in> set (st_imports st). lr_digest x = lr_digest r
     then Inr (st\<lparr>st_imports := map (\<lambda>x. if lr_digest x = lr_digest r then r else x) (st_imports st)\<rparr>)
     else Inr (st\<lparr>st_imports := st_imports st @ [r]\<rparr>))"

definition findAuthorityReceipt :: "store \<Rightarrow> string \<Rightarrow> authority_receipt option result" where
  "findAuthorityReceipt st q = bindE (assertIdentifier q ''Authority request id'') (\<lambda>_.
     Inr (find (\<lambda>r. au_request r = q) (st_receipts st)))"

definition recordAuthorityReceipt :: "store \<Rightarrow> authority_receipt \<Rightarrow> store result" where
  "recordAuthorityReceipt st r = bindE (assertIdentifier (au_request r) ''Authority request id'') (\<lambda>_.
     if \<exists>x \<in> set (st_receipts st). au_request x = au_request r
     then throw ''UNIQUE constraint failed: authority_receipts.request_id''
     else Inr (st\<lparr>st_receipts := st_receipts st @ [r]\<rparr>))"

definition saveSignedCheckpoint :: "store \<Rightarrow> signed_checkpoint \<Rightarrow> store result" where
  "saveSignedCheckpoint st c = (
     if \<exists>x \<in> set (st_checkpoints st). ck_id x = ck_id c then throw ''UNIQUE constraint failed: signed_checkpoints.checkpoint_id''
     else if \<exists>x \<in> set (st_checkpoints st). ck_count x = ck_count c \<and> ck_head x = ck_head c \<and> ck_device x = ck_device c
     then throw ''UNIQUE constraint failed: signed_checkpoints.event_count, signed_checkpoints.head_hash, signed_checkpoints.device_id''
     else Inr (st\<lparr>st_checkpoints := st_checkpoints st @ [c]\<rparr>))"

text \<open>\<open>ORDER BY event_count, created_at\<close>.\<close>

definition listSignedCheckpoints :: "store \<Rightarrow> signed_checkpoint list" where
  "listSignedCheckpoints st = sort_key ck_count (sort_key ck_created (st_checkpoints st))"

definition database_id_ok :: "string \<Rightarrow> bool" where
  "database_id_ok s = (starts_with ''DB-'' s \<and> length (drop 3 s) = 36 \<and> list_all (\<lambda>c. is_hex c \<or> c = CHR ''-'') (drop 3 s))"

definition databaseId :: "store \<Rightarrow> string result" where
  "databaseId st = (case st_metadata st ''database_id'' of
     Some d \<Rightarrow> if database_id_ok d then Inr d else throw ''Encrypted store database id is missing or invalid''
   | None \<Rightarrow> throw ''Encrypted store database id is missing or invalid'')"

definition verifyIntegrity :: "platform \<Rightarrow> crypto \<Rightarrow> string \<Rightarrow> store \<Rightarrow> (nat \<times> chain_head) result" where
  "verifyIntegrity P C integrity st = (if integrity \<noteq> ''ok'' then throw (''SQLite integrity check failed: '' @ integrity)
     else bindE (readAll P C st) (\<lambda>es. bindE (chainHead C st) (\<lambda>h. Inr (length es, h))))"

section \<open>Opening a store\<close>

definition databaseIdFromSalt :: "platform \<Rightarrow> string \<Rightarrow> string" where
  "databaseIdFromSalt P salt = (let hex = take 32 (drop 7 (sha256 P (''vocation-os:database-id:'' @ salt))) in
     ''DB-'' @ take 8 hex @ ''-'' @ take 4 (drop 8 hex) @ ''-'' @ take 4 (drop 12 hex) @ ''-'' @
     take 4 (drop 16 hex) @ ''-'' @ take 12 (drop 20 hex))"

definition meta_text :: "store \<Rightarrow> string \<Rightarrow> string" where
  "meta_text st k = (case st_metadata st k of None \<Rightarrow> [] | Some v \<Rightarrow> v)"

definition authenticateExistingStore :: "platform \<Rightarrow> crypto \<Rightarrow> string \<Rightarrow> store \<Rightarrow> string \<Rightarrow> string result" where
  "authenticateExistingStore P C integrity st passphrase = (
     if integrity \<noteq> ''ok'' then throw (''SQLite integrity check failed before migration: '' @ integrity)
     else if meta_text st ''encryption_salt'' = [] \<or> meta_text st ''event_chain_head'' = []
     then throw ''Existing encrypted store metadata is incomplete''
     else bindE (deriveKey C passphrase (meta_text st ''encryption_salt'')) (\<lambda>key.
       if decrypt C key \<lparr>ep_cipher = meta_text st ''key_check_ciphertext'', ep_nonce = meta_text st ''key_check_nonce'',
           ep_tag = meta_text st ''key_check_tag''\<rparr> KEY_CHECK_AAD \<noteq> Some KEY_CHECK_VALUE
       then throw ''Unable to unlock the local store with the supplied passphrase''
       else bindE (decodeChainHead C key (meta_text st ''event_chain_head'')) (\<lambda>head.
         bindE (verify_rows P C key (GENESIS_HASH P) (st_events st)) (\<lambda>(es, h).
         if ch_count head \<noteq> int (length (st_events st)) \<or> ch_hash head \<noteq> h
         then throw ''Event history does not match the authenticated chain head'' else Inr key))))"

text \<open>The metadata of a store created with a passphrase, a salt and random nonces.\<close>

definition new_metadata :: "platform \<Rightarrow> crypto \<Rightarrow> string \<Rightarrow> string \<Rightarrow> string \<Rightarrow> string \<Rightarrow> string \<Rightarrow> string \<rightharpoonup> string" where
  "new_metadata P C key salt n1 n2 uuid = (let check = encrypt C key n1 KEY_CHECK_VALUE KEY_CHECK_AAD in
     [''encryption_salt'' \<mapsto> salt, ''key_check_ciphertext'' \<mapsto> ep_cipher check, ''key_check_nonce'' \<mapsto> ep_nonce check,
      ''key_check_tag'' \<mapsto> ep_tag check, ''database_id'' \<mapsto> ''DB-'' @ uuid,
      ''event_chain_head'' \<mapsto> encodeChainHead P C key n2 \<lparr>ch_count = 0, ch_hash = GENESIS_HASH P\<rparr>])"

definition create_store :: "platform \<Rightarrow> crypto \<Rightarrow> int list \<Rightarrow> string \<Rightarrow> string \<Rightarrow> string \<Rightarrow> string \<Rightarrow> string \<Rightarrow> store result" where
  "create_store P C migrations passphrase salt n1 n2 uuid = bindE (deriveKey C passphrase salt) (\<lambda>key.
     Inr \<lparr>st_key = key, st_metadata = new_metadata P C key salt n1 n2 uuid, st_events = [], st_next = 1,
       st_snapshots = [], st_imports = [], st_receipts = [], st_checkpoints = [], st_migrations = migrations\<rparr>)"

text \<open>Opening a database that exists: authenticate, adopt or check its identifier, migrate to the latest
  version (whose list is \<open>migrations\<close>), and keep the identifier in the metadata.\<close>

definition open_existing :: "platform \<Rightarrow> crypto \<Rightarrow> int list \<Rightarrow> string \<Rightarrow> store \<Rightarrow> string \<Rightarrow> store result" where
  "open_existing P C migrations integrity st passphrase = (
     if length passphrase < 12 then throw ''Local store passphrase must contain at least 12 characters''
     else bindE (authenticateExistingStore P C integrity st passphrase) (\<lambda>key.
       let adopted = (case st_metadata st ''database_id'' of Some d \<Rightarrow> d
         | None \<Rightarrow> databaseIdFromSalt P (meta_text st ''encryption_salt'')) in
       if \<not> database_id_ok adopted then throw ''Existing encrypted store database id is invalid''
       else Inr (st\<lparr>st_key := key, st_migrations := migrations,
         st_metadata := (st_metadata st)(''database_id'' \<mapsto> adopted)\<rparr>)))"

section \<open>Facts about the encodings\<close>

lemma sha256_text_ok: "hex_digest P \<Longrightarrow> sha256_text (sha256 P s)"
  by (simp add: sha256_text_def sha256_def hex_digest_def)

lemma decrypt_encrypt: "aead_ok C \<Longrightarrow> decrypt C k (encrypt C k n m a) a = Some m"
  by (simp add: aead_ok_def decrypt_def encrypt_def split: prod.split) (metis fst_conv snd_conv)

lemma payload_round: "payload_of_text (payload_text p) = Some p"
proof -
  have "json_parse (payload_text p) = Some (JObj [(''ciphertext'', JStr (ep_cipher p)), (''nonce'', JStr (ep_nonce p)), (''tag'', JStr (ep_tag p))])"
    unfolding payload_text_def by (rule json_parse_print) simp_all
  then show ?thesis by (simp add: payload_of_text_def str_member_def)
qed

lemma map_of_canon_live:
  assumes "distinct (map fst es)" and "map_of es k = Some v" and "v \<noteq> JUndef"
  shows "map_of (map (\<lambda>(k, v). (k, canon ck v)) (live_entries ck es)) k = Some (canon ck v)"
proof -
  have "distinct (map fst (live_entries ck es))" using assms(1) by (rule live_entries_distinct)
  moreover have "(k, v) \<in> set (live_entries ck es)" using map_of_SomeD [OF assms(2)] assms(3) by simp
  ultimately have "map_of (live_entries ck es) k = Some v" by (rule map_of_is_SomeI)
  then show ?thesis by (simp add: map_of_map)
qed

lemma head_round:
  assumes "aead_ok C" and "0 \<le> ch_count h" and "sha256_text (ch_hash h)"
  shows "decodeChainHead C k (encodeChainHead P C k n h) = Inr h"
proof -
  let ?es = "[(''eventCount'', JNum (ch_count h)), (''headHash'', JStr (ch_hash h))]"
  let ?j = "canon (coll_key P) (JObj ?es)"
  have p: "json_parse (stable_stringify (coll_key P) (JObj ?es)) = Some ?j"
    by (rule json_parse_stringify) simp_all
  have m: "map_of (map (\<lambda>(k, v). (k, canon (coll_key P) v)) (live_entries (coll_key P) ?es)) ''eventCount'' = Some (JNum (ch_count h))"
    "map_of (map (\<lambda>(k, v). (k, canon (coll_key P) v)) (live_entries (coll_key P) ?es)) ''headHash'' = Some (JStr (ch_hash h))"
    using map_of_canon_live [of ?es "''eventCount''" "JNum (ch_count h)" "coll_key P"]
      map_of_canon_live [of ?es "''headHash''" "JStr (ch_hash h)" "coll_key P"] by simp_all
  then have "num_member ?j ''eventCount'' = Some (ch_count h)" "str_member ?j ''headHash'' = Some (ch_hash h)"
    by (simp_all add: num_member_def str_member_def)
  with p assms show ?thesis
    by (simp add: decodeChainHead_def encodeChainHead_def payload_round decrypt_encrypt Let_def)
qed

section \<open>The chain\<close>

lemma verify_rows_append:
  "verify_rows P C k e (rs @ qs) = bindE (verify_rows P C k e rs) (\<lambda>(es, h).
     bindE (verify_rows P C k h qs) (\<lambda>(fs, g). Inr (es @ fs, g)))"
proof (induction rs arbitrary: e)
  case Nil
  show ?case by (cases "verify_rows P C k e qs") auto
next
  case (Cons r rs)
  show ?case
  proof (cases "verify_rows P C k (er_hash r) rs")
    case (Inl x)
    with Cons show ?thesis by (auto split: option.split)
  next
    case (Inr y)
    obtain es h where y: "y = (es, h)" by fastforce
    show ?thesis
      using Cons [of "er_hash r"] Inr y by (cases "verify_rows P C k h qs") (auto split: option.split)
  qed
qed

lemma verify_rows_last: "verify_rows P C k e rs = Inr (es, h) \<Longrightarrow> h = (case last_opt rs of None \<Rightarrow> e | Some r \<Rightarrow> er_hash r)"
proof (induction rs arbitrary: e es)
  case (Cons r rs)
  then obtain fs where "verify_rows P C k (er_hash r) rs = Inr (fs, h)"
    by (auto split: if_splits option.splits prod.splits)
  from Cons.IH [OF this] show ?case by (cases rs rule: rev_cases) (auto simp: last_opt_def)
qed simp

lemma verify_rows_map:
  "verify_rows P C k e rs = Inr (es, h) \<Longrightarrow> map se_hash es = map er_hash rs \<and> map se_id es = map er_id rs \<and> length es = length rs"
proof (induction rs arbitrary: e es)
  case (Cons r rs)
  then obtain fs p where "verify_rows P C k (er_hash r) rs = Inr (fs, h)" "es = event_of_row r p # fs"
    by (auto split: if_splits option.splits prod.splits)
  with Cons.IH [of "er_hash r" fs] show ?case by (simp add: event_of_row_def)
qed simp

lemma readAll_iff:
  "readAll P C st = Inr es \<longleftrightarrow> (\<exists>v. st_metadata st ''event_chain_head'' = Some v \<and>
     decodeChainHead C (st_key st) v = Inr \<lparr>ch_count = int (length (st_events st)), ch_hash = last_hash P (st_events st)\<rparr> \<and>
     verify_rows P C (st_key st) (GENESIS_HASH P) (st_events st) = Inr (es, last_hash P (st_events st)))"
proof -
  have l: "verify_rows P C (st_key st) (GENESIS_HASH P) (st_events st) = Inr (fs, h) \<Longrightarrow> h = last_hash P (st_events st)" for fs h
    using verify_rows_last by (simp add: last_hash_def)
  show ?thesis
    using l by (auto simp: readAll_def chainHead_def split: option.splits if_splits)
qed

section \<open>Tables\<close>

lemma find_append_one: "find p (xs @ [x]) = (case find p xs of None \<Rightarrow> if p x then Some x else None | Some y \<Rightarrow> Some y)"
  by (induction xs) auto

lemma find_replace: "find (\<lambda>x. key x = k) (map (\<lambda>x. if key x = key s then s else x) ss) =
    (if key s = k \<and> k \<in> key ` set ss then Some s else find (\<lambda>x. key x = k) ss)"
  by (induction ss) auto

lemma find_upsert_by: "find (\<lambda>x. key x = k) (upsert_by key s ss) = (if key s = k then Some s else find (\<lambda>x. key x = k) ss)"
proof (cases "key s \<in> key ` set ss")
  case True
  then have "upsert_by key s ss = map (\<lambda>x. if key x = key s then s else x) ss" by (auto simp: upsert_by_def)
  then show ?thesis using True by (auto simp: find_replace)
next
  case False
  then have "\<forall>x \<in> set ss. key x \<noteq> key s" by (metis imageI)
  then have "upsert_by key s ss = ss @ [s]" "find (\<lambda>x. key x = key s) ss = None"
    by (simp_all add: upsert_by_def find_None_none)
  then show ?thesis by (auto simp: find_append_one split: option.split)
qed

lemma set_upsert_by: "x \<in> set (upsert_by key s ss) \<Longrightarrow> x = s \<or> (x \<in> set ss \<and> key x \<noteq> key s)"
  by (auto simp: upsert_by_def split: if_splits)

lemma append_event_ok:
  assumes "append_event P C st i uuid n n' = Inr (st', ev)"
  defines "row \<equiv> sealed_row P C st i uuid n"
  shows "st' = st\<lparr>st_events := st_events st @ [row], st_next := st_next st + 1,
      st_metadata := (st_metadata st)(''event_chain_head'' \<mapsto> encodeChainHead P C (st_key st) n'
        \<lparr>ch_count = int (length (st_events st)) + 1, ch_hash = er_hash row\<rparr>)\<rparr> \<and>
    ev = event_of_row row (ae_payload i) \<and> er_id row \<notin> er_id ` set (st_events st) \<and> identifier_ok (er_id row) \<and>
    identifier_ok (ae_aggregate_type i) \<and> identifier_ok (ae_aggregate i) \<and> identifier_ok (ae_type i)"
  using assms(1) unfolding row_def
  by (auto simp: append_event_def assertIdentifier_def Let_def split: if_splits)

lemma sealed_row_fields:
  "er_previous (sealed_row P C st i uuid n) = last_hash P (st_events st)"
  "computeEventHash P (sealed_row P C st i uuid n) = er_hash (sealed_row P C st i uuid n)"
  "er_sequence (sealed_row P C st i uuid n) = st_next st"
  "er_aggregate_type (sealed_row P C st i uuid n) = ae_aggregate_type i"
  "er_aggregate (sealed_row P C st i uuid n) = ae_aggregate i"
  by (simp_all add: sealed_row_def Let_def row_of_input_def computeEventHash_def row_members_def)

lemma sealed_row_payload:
  assumes "aead_ok C" and "array_safe (ae_payload i)" and "ae_payload i \<noteq> JUndef" and "wf_keys (ae_payload i)"
  shows "row_payload P C (st_key st) (sealed_row P C st i uuid n) = Some (canon (coll_key P) (ae_payload i))"
proof -
  let ?aad = "eventAad P (row_of_input i uuid)" and ?m = "stable_stringify (coll_key P) (ae_payload i)"
  have "eventAad P (sealed_row P C st i uuid n) = ?aad"
    by (simp add: sealed_row_def Let_def eventAad_def)
  moreover have "\<lparr>ep_cipher = er_cipher (sealed_row P C st i uuid n), ep_nonce = er_nonce (sealed_row P C st i uuid n),
      ep_tag = er_tag (sealed_row P C st i uuid n)\<rparr> = encrypt C (st_key st) n ?m ?aad"
    by (simp add: sealed_row_def Let_def)
  ultimately show ?thesis
    using assms by (simp add: row_payload_def decrypt_encrypt json_parse_stringify)
qed

lemma last_hash_snoc [simp]: "last_hash P (rs @ [r]) = er_hash r"
  by (simp add: last_hash_def)

lemma append_readAll:
  assumes "aead_ok C" and "hex_digest P" and "readAll P C st = Inr es" and "append_event P C st i uuid n n' = Inr (st', ev)"
    and "array_safe (ae_payload i)" and "ae_payload i \<noteq> JUndef" and "wf_keys (ae_payload i)"
  shows "readAll P C st' = Inr (es @ [ev\<lparr>se_payload := canon (coll_key P) (ae_payload i)\<rparr>])"
proof -
  let ?row = "sealed_row P C st i uuid n" and ?k = "st_key st"
  note ok = append_event_ok [OF assms(4)] and f = sealed_row_fields [where P = P and C = C and st = st and i = i and uuid = uuid and n = n]
  have v: "verify_rows P C ?k (GENESIS_HASH P) (st_events st) = Inr (es, last_hash P (st_events st))"
    using assms(3) by (auto simp: readAll_iff)
  have one: "verify_rows P C ?k (last_hash P (st_events st)) [?row] =
      Inr ([event_of_row ?row (canon (coll_key P) (ae_payload i))], er_hash ?row)"
    using f sealed_row_payload [OF assms(1,5,6,7)] by simp
  have "sha256_text (er_hash ?row)"
    unfolding f(2) [symmetric] computeEventHash_def by (rule sha256_text_ok [OF assms(2)])
  then have h: "decodeChainHead C ?k (encodeChainHead P C ?k n' \<lparr>ch_count = int (length (st_events st)) + 1, ch_hash = er_hash ?row\<rparr>)
      = Inr \<lparr>ch_count = int (length (st_events st)) + 1, ch_hash = er_hash ?row\<rparr>"
    by (intro head_round [OF assms(1)]) simp_all
  have ev: "ev\<lparr>se_payload := canon (coll_key P) (ae_payload i)\<rparr> = event_of_row ?row (canon (coll_key P) (ae_payload i))"
    using ok by (simp add: event_of_row_def)
  show ?thesis
    unfolding readAll_iff ev using ok v one h by (simp add: verify_rows_append)
qed

lemma append_total:
  assumes "readAll P C st = Inr es" and "identifier_ok (ae_aggregate_type i)" and "identifier_ok (ae_aggregate i)"
    and "identifier_ok (ae_type i)" and "1 \<le> ae_version i" and "identifier_ok (er_id (row_of_input i uuid))"
    and "er_id (row_of_input i uuid) \<notin> er_id ` set (st_events st)"
    and "er_hash (sealed_row P C st i uuid n) \<notin> er_hash ` set (st_events st)"
  shows "\<exists>st' ev. append_event P C st i uuid n n' = Inr (st', ev)"
proof -
  have h: "chainHead C st = Inr \<lparr>ch_count = int (length (st_events st)), ch_hash = last_hash P (st_events st)\<rparr>"
    using assms(1) by (auto simp: readAll_iff chainHead_def)
  have "er_id (sealed_row P C st i uuid n) = er_id (row_of_input i uuid)" by (simp add: sealed_row_def Let_def)
  then show ?thesis
    using assms h by (auto simp: append_event_def assertIdentifier_def assertSchemaVersion_def Let_def image_iff)
qed

section \<open>The head pins the history\<close>

definition unseq :: "event_row \<Rightarrow> event_row" where
  "unseq r = r\<lparr>er_sequence := 0\<rparr>"

lemma row_members_inj:
  assumes "canon ck (JObj (row_members a)) = canon ck (JObj (row_members b))" and "er_hash a = er_hash b"
  shows "unseq a = unseq b"
proof -
  have "list_all2 (\<lambda>e f. canon ck (snd e) = canon ck (snd f)) (row_members a) (row_members b)"
    using assms(1) by (rule canon_obj_eq) (simp_all add: row_members_def)
  then show ?thesis using assms(2) by (simp add: row_members_def unseq_def event_row.equality)
qed

lemma event_hash_binds:
  assumes "computeEventHash P a = computeEventHash P b" and "er_hash a = er_hash b"
  shows "unseq a = unseq b \<or> (\<exists>x y. sha_collision P x y)"
proof -
  have s: "array_safe (JObj (row_members r))" for r by (simp add: row_members_def)
  show ?thesis
    using hash_json_eq [OF assms(1) [unfolded computeEventHash_def] s _ s] row_members_inj [OF _ assms(2)]
    by (auto simp del: canon.simps)
qed

lemma verify_rows_snoc:
  assumes "verify_rows P C k e (rs @ [r]) = Inr (es, h)"
  shows "\<exists>es'. verify_rows P C k e rs = Inr (es', er_previous r) \<and> computeEventHash P r = er_hash r \<and> h = er_hash r"
  using assms by (auto simp: verify_rows_append split: prod.splits if_splits option.splits)

lemma history_pinned:
  assumes "verify_rows P C k e rs = Inr (es, h)" and "verify_rows P D l e qs = Inr (fs, h)" and "length rs = length qs"
  shows "map unseq rs = map unseq qs \<or> (\<exists>x y. sha_collision P x y)"
  using assms
proof (induction rs arbitrary: qs es fs h rule: rev_induct)
  case (snoc r rs)
  obtain qs' q where q: "qs = qs' @ [q]" using snoc.prems(3) by (cases qs rule: rev_cases) auto
  obtain es' where r: "verify_rows P C k e rs = Inr (es', er_previous r)" "computeEventHash P r = er_hash r" "h = er_hash r"
    using verify_rows_snoc [OF snoc.prems(1)] by blast
  obtain fs' where s: "verify_rows P D l e qs' = Inr (fs', er_previous q)" "computeEventHash P q = er_hash q" "h = er_hash q"
    using verify_rows_snoc [OF snoc.prems(2) [unfolded q]] by blast
  have "unseq r = unseq q \<or> (\<exists>x y. sha_collision P x y)"
    using event_hash_binds [of P r q] r s by simp
  then show ?case
  proof
    assume u: "unseq r = unseq q"
    then have "er_previous r = er_previous q" by (metis unseq_def event_row.select_convs(11) event_row.surjective event_row.update_convs(1))
    with s(1) have "verify_rows P D l e qs' = Inr (fs', er_previous r)" by simp
    from snoc.IH [OF r(1) this] snoc.prems(3) q u show ?thesis by auto
  qed blast
qed simp

section \<open>Snapshots\<close>

lemma nth_event_append: "nth_event es v = Some e \<Longrightarrow> nth_event (es @ fs) v = Some e"
  by (auto simp: nth_event_def nth_append split: if_splits)

lemma saveSnapshot_ok:
  assumes "saveSnapshot P C st ty ag v lh payload now n = Inr st'"
  shows "\<exists>es. readAggregate P C st ty ag = Inr es \<and> map_option se_hash (nth_event es v) = Some lh \<and>
    (\<forall>s. find_snapshot st ty ag = Some s \<longrightarrow> sn_version s \<le> v) \<and>
    st' = st\<lparr>st_snapshots := upsert_by sn_key \<lparr>sn_type = ty, sn_aggregate = ag, sn_version = v, sn_created = to_iso now,
         sn_last = lh, sn_cipher = ep_cipher (encrypt C (st_key st) n (stable_stringify (coll_key P) payload) (snapshotAad P ty ag v lh)),
         sn_nonce = ep_nonce (encrypt C (st_key st) n (stable_stringify (coll_key P) payload) (snapshotAad P ty ag v lh)),
         sn_tag = ep_tag (encrypt C (st_key st) n (stable_stringify (coll_key P) payload) (snapshotAad P ty ag v lh))\<rparr> (st_snapshots st)\<rparr>"
  using assms by (auto simp: saveSnapshot_def Let_def split: if_splits option.splits)

lemma readAll_snapshots: "readAll P C (st\<lparr>st_snapshots := x\<rparr>) = readAll P C st"
proof -
  have "chainHead C (st\<lparr>st_snapshots := x\<rparr>) = chainHead C st" by (simp add: chainHead_def split: option.split)
  then show ?thesis by (simp add: readAll_def)
qed

lemma loadSnapshot_from:
  assumes "find_snapshot st ty ag = Some s" and "readAggregate P C st ty ag = Inr es"
    and "map_option se_hash (nth_event es (sn_version s)) = Some (sn_last s)"
    and "Option.bind (decrypt C (st_key st) \<lparr>ep_cipher = sn_cipher s, ep_nonce = sn_nonce s, ep_tag = sn_tag s\<rparr>
         (snapshotAad P (sn_type s) (sn_aggregate s) (sn_version s) (sn_last s))) json_parse = Some p"
  shows "loadSnapshot P C st ty ag = Inr (Some \<lparr>ss_type = sn_type s, ss_aggregate = sn_aggregate s, ss_version = sn_version s,
         ss_created = sn_created s, ss_last = sn_last s, ss_payload = p\<rparr>)"
  unfolding loadSnapshot_def assms(1,2) option.case bindE.simps assms(3,4) by simp

lemma snapshot_roundtrip:
  assumes "aead_ok C" and "saveSnapshot P C st ty ag v lh payload now n = Inr st'"
    and "array_safe payload" and "payload \<noteq> JUndef" and "wf_keys payload"
  shows "loadSnapshot P C st' ty ag = Inr (Some \<lparr>ss_type = ty, ss_aggregate = ag, ss_version = v, ss_created = to_iso now,
    ss_last = lh, ss_payload = canon (coll_key P) payload\<rparr>)"
proof -
  define enc where "enc = encrypt C (st_key st) n (stable_stringify (coll_key P) payload) (snapshotAad P ty ag v lh)"
  define row where "row = \<lparr>sn_type = ty, sn_aggregate = ag, sn_version = v, sn_created = to_iso now, sn_last = lh,
    sn_cipher = ep_cipher enc, sn_nonce = ep_nonce enc, sn_tag = ep_tag enc\<rparr>"
  obtain es where s: "readAggregate P C st ty ag = Inr es" "map_option se_hash (nth_event es v) = Some lh"
    "st' = st\<lparr>st_snapshots := upsert_by sn_key row (st_snapshots st)\<rparr>"
    using saveSnapshot_ok [OF assms(2)] unfolding row_def enc_def by blast
  have r: "readAggregate P C st' ty ag = Inr es" using s(1) unfolding s(3) readAggregate_def readAll_snapshots .
  have f: "find_snapshot st' ty ag = Some row"
    unfolding s(3) by (simp add: find_snapshot_def find_upsert_by) (simp add: row_def sn_key_def)
  have eta: "\<lparr>ep_cipher = ep_cipher enc, ep_nonce = ep_nonce enc, ep_tag = ep_tag enc\<rparr> = enc" by simp
  have e: "decrypt C (st_key st) enc (snapshotAad P ty ag v lh) = Some (stable_stringify (coll_key P) payload)"
    unfolding enc_def by (rule decrypt_encrypt [OF assms(1)])
  have d: "Option.bind (decrypt C (st_key st') \<lparr>ep_cipher = sn_cipher row, ep_nonce = sn_nonce row, ep_tag = sn_tag row\<rparr>
      (snapshotAad P (sn_type row) (sn_aggregate row) (sn_version row) (sn_last row))) json_parse = Some (canon (coll_key P) payload)"
    using assms(3-5) by (simp add: s(3) row_def eta e json_parse_stringify)
  have "map_option se_hash (nth_event es (sn_version row)) = Some (sn_last row)" using s(2) by (simp only: row_def snapshot_row.select_convs)
  from loadSnapshot_from [OF f r this d] show ?thesis by (simp add: row_def)
qed

section \<open>Reachable stores\<close>

abbreviation safe_json :: "json \<Rightarrow> bool" where
  "safe_json j \<equiv> array_safe j \<and> j \<noteq> JUndef \<and> wf_keys j"

inductive store_step :: "platform \<Rightarrow> crypto \<Rightarrow> store \<Rightarrow> store \<Rightarrow> bool" for P :: platform and C :: crypto where
  s_append: "append_event P C st i uuid n n' = Inr (st', ev) \<Longrightarrow> safe_json (ae_payload i) \<Longrightarrow> store_step P C st st'"
| s_snapshot: "saveSnapshot P C st ty ag v lh payload now n = Inr st' \<Longrightarrow> safe_json payload \<Longrightarrow> store_step P C st st'"
| s_import: "recordLegacyImportReceipt st r = Inr st' \<Longrightarrow> store_step P C st st'"
| s_receipt: "recordAuthorityReceipt st a = Inr st' \<Longrightarrow> store_step P C st st'"
| s_checkpoint: "saveSignedCheckpoint st c = Inr st' \<Longrightarrow> store_step P C st st'"

inductive_cases store_stepE: "store_step P C st st'"

text \<open>A snapshot row that can be loaded from the events.\<close>

definition snapshot_ok :: "platform \<Rightarrow> crypto \<Rightarrow> string \<Rightarrow> stored_event list \<Rightarrow> snapshot_row \<Rightarrow> bool" where
  "snapshot_ok P C key es s = (
     map_option se_hash (nth_event (filter (\<lambda>e. se_aggregate_type e = sn_type s \<and> se_aggregate e = sn_aggregate s) es) (sn_version s))
       = Some (sn_last s) \<and>
     Option.bind (decrypt C key \<lparr>ep_cipher = sn_cipher s, ep_nonce = sn_nonce s, ep_tag = sn_tag s\<rparr>
         (snapshotAad P (sn_type s) (sn_aggregate s) (sn_version s) (sn_last s))) json_parse \<noteq> None)"

text \<open>What opening checks: the salt, the key check and the presence of a head.\<close>

definition unlocks :: "crypto \<Rightarrow> string \<Rightarrow> store \<Rightarrow> bool" where
  "unlocks C pass st = (12 \<le> length pass \<and> meta_text st ''encryption_salt'' \<noteq> [] \<and> meta_text st ''event_chain_head'' \<noteq> [] \<and>
     st_key st = cr_derive C pass (meta_text st ''encryption_salt'') \<and>
     decrypt C (st_key st) \<lparr>ep_cipher = meta_text st ''key_check_ciphertext'', ep_nonce = meta_text st ''key_check_nonce'',
       ep_tag = meta_text st ''key_check_tag''\<rparr> KEY_CHECK_AAD = Some KEY_CHECK_VALUE)"

definition store_inv :: "platform \<Rightarrow> crypto \<Rightarrow> string \<Rightarrow> store \<Rightarrow> bool" where
  "store_inv P C pass st = (unlocks C pass st \<and>
     (\<exists>es. readAll P C st = Inr es \<and> (\<forall>s \<in> set (st_snapshots st). snapshot_ok P C (st_key st) es s)) \<and>
     distinct (map er_id (st_events st)) \<and> map er_sequence (st_events st) = [1..<st_next st] \<and> 1 \<le> st_next st \<and>
     distinct (map au_request (st_receipts st)) \<and> distinct (map ck_id (st_checkpoints st)))"

lemma payload_text_nonempty [simp]: "payload_text p \<noteq> []"
  by (simp add: payload_text_def)

lemma encodeChainHead_nonempty [simp]: "encodeChainHead P C k n h \<noteq> []"
  by (simp add: encodeChainHead_def)

lemma authenticate_iff:
  assumes "unlocks C pass st" and "readAll P C st = Inr es"
  shows "authenticateExistingStore P C ''ok'' st pass = Inr (st_key st)"
proof -
  obtain v where v: "st_metadata st ''event_chain_head'' = Some v"
    "decodeChainHead C (st_key st) v = Inr \<lparr>ch_count = int (length (st_events st)), ch_hash = last_hash P (st_events st)\<rparr>"
    "verify_rows P C (st_key st) (GENESIS_HASH P) (st_events st) = Inr (es, last_hash P (st_events st))"
    using assms(2) by (auto simp: readAll_iff)
  have "meta_text st ''event_chain_head'' = v" using v(1) by (simp add: meta_text_def)
  with v assms(1) show ?thesis
    by (auto simp: authenticateExistingStore_def unlocks_def deriveKey_def)
qed

lemma snapshot_ok_append: "snapshot_ok P C k es s \<Longrightarrow> snapshot_ok P C k (es @ fs) s"
  unfolding snapshot_ok_def by (auto simp: nth_event_append)

lemma unlocks_frame:
  assumes "unlocks C pass st" and "st_key st' = st_key st" and "meta_text st' ''event_chain_head'' \<noteq> []"
    and "\<forall>k. k \<noteq> ''event_chain_head'' \<longrightarrow> meta_text st' k = meta_text st k"
  shows "unlocks C pass st'"
proof -
  have "meta_text st' ''encryption_salt'' = meta_text st ''encryption_salt''"
    "meta_text st' ''key_check_ciphertext'' = meta_text st ''key_check_ciphertext''"
    "meta_text st' ''key_check_nonce'' = meta_text st ''key_check_nonce''"
    "meta_text st' ''key_check_tag'' = meta_text st ''key_check_tag''"
    using assms(4) by simp_all
  then show ?thesis using assms(1,3) unfolding unlocks_def assms(2) by metis
qed

lemma meta_text_same: "st_metadata st' = st_metadata st \<Longrightarrow> meta_text st' k = meta_text st k"
  by (simp add: meta_text_def)

lemma unlocks_same:
  assumes "unlocks C pass st" and "st_key st' = st_key st" and "st_metadata st' = st_metadata st"
  shows "unlocks C pass st'"
proof -
  have m: "meta_text st' k = meta_text st k" for k using assms(3) by (rule meta_text_same)
  have "meta_text st ''event_chain_head'' \<noteq> []" using assms(1) by (simp add: unlocks_def)
  with m show ?thesis by (intro unlocks_frame [OF assms(1,2)]) simp_all
qed

lemma create_store_inv:
  assumes "aead_ok C" and "hex_digest P" and "salt \<noteq> []" and "create_store P C ms pass salt n1 n2 uuid = Inr st"
  shows "store_inv P C pass st"
proof -
  define key where "key = cr_derive C pass salt"
  define enc where "enc = encrypt C key n1 KEY_CHECK_VALUE KEY_CHECK_AAD"
  define head where "head = encodeChainHead P C key n2 \<lparr>ch_count = 0, ch_hash = GENESIS_HASH P\<rparr>"
  have len: "12 \<le> length pass" and m: "st_metadata st = new_metadata P C key salt n1 n2 uuid" "st_key st = key"
    and e: "st_events st = []" "st_next st = 1" "st_snapshots st = []" "st_receipts st = []" "st_checkpoints st = []"
    using assms(4) by (auto simp: create_store_def deriveKey_def key_def split: if_splits)
  have eta: "\<lparr>ep_cipher = ep_cipher enc, ep_nonce = ep_nonce enc, ep_tag = ep_tag enc\<rparr> = enc" by simp
  have t: "meta_text st ''encryption_salt'' = salt" "meta_text st ''key_check_ciphertext'' = ep_cipher enc"
    "meta_text st ''key_check_nonce'' = ep_nonce enc" "meta_text st ''key_check_tag'' = ep_tag enc"
    "meta_text st ''event_chain_head'' = head"
    by (simp_all add: meta_text_def m new_metadata_def Let_def enc_def [symmetric] head_def [symmetric])
  have "head \<noteq> []" by (simp add: head_def)
  then have "unlocks C pass st" using len assms(3) unfolding unlocks_def t m eta
    by (simp add: enc_def decrypt_encrypt [OF assms(1)] key_def)
  moreover have "decodeChainHead C key head = Inr \<lparr>ch_count = 0, ch_hash = GENESIS_HASH P\<rparr>"
    unfolding head_def using sha256_text_ok [OF assms(2)] by (intro head_round [OF assms(1)]) (simp_all add: GENESIS_HASH_def)
  moreover have "st_metadata st ''event_chain_head'' = Some head"
    by (simp add: m new_metadata_def Let_def head_def [symmetric])
  ultimately have "unlocks C pass st" "readAll P C st = Inr []"
    unfolding readAll_iff by (simp_all add: e m(2) last_hash_def last_opt_def)
  then show ?thesis by (simp add: store_inv_def e)
qed

lemma append_event_inv:
  assumes "aead_ok C" and "hex_digest P" and "append_event P C st i uuid n n' = Inr (st', ev)" and "safe_json (ae_payload i)"
    and "store_inv P C pass st"
  shows "store_inv P C pass st'"
proof -
  note ok = append_event_ok [OF assms(3)]
  obtain es where es: "readAll P C st = Inr es" "\<forall>s \<in> set (st_snapshots st). snapshot_ok P C (st_key st) es s"
    using assms(5) by (auto simp: store_inv_def)
  have r: "readAll P C st' = Inr (es @ [ev\<lparr>se_payload := canon (coll_key P) (ae_payload i)\<rparr>])"
    using assms(4) by (intro append_readAll [OF assms(1,2) es(1) assms(3)]) auto
  have m: "meta_text st' k = meta_text st k" if "k \<noteq> ''event_chain_head''" for k
    using ok that by (simp add: meta_text_def)
  have "unlocks C pass st'"
  proof (rule unlocks_frame)
    show "unlocks C pass st" using assms(5) by (simp add: store_inv_def)
    show "meta_text st' ''event_chain_head'' \<noteq> []" using ok by (simp add: meta_text_def)
  qed (use ok m in auto)
  moreover have "\<forall>s \<in> set (st_snapshots st'). snapshot_ok P C (st_key st') (es @ [ev\<lparr>se_payload := canon (coll_key P) (ae_payload i)\<rparr>]) s"
    using es(2) ok by (simp add: snapshot_ok_append)
  moreover have "map er_sequence (st_events st') = [1..<st_next st']" "1 \<le> st_next st'"
    using assms(5) ok by (simp_all add: store_inv_def sealed_row_fields(3))
  moreover have "distinct (map er_id (st_events st'))" using assms(5) ok by (auto simp: store_inv_def)
  moreover have "distinct (map au_request (st_receipts st'))" "distinct (map ck_id (st_checkpoints st'))"
    using assms(5) ok by (simp_all add: store_inv_def)
  ultimately show ?thesis using r unfolding store_inv_def by blast
qed

lemma readAll_frame:
  assumes "st_key st' = st_key st" and "st_metadata st' = st_metadata st" and "st_events st' = st_events st"
  shows "readAll P C st' = readAll P C st"
proof -
  have "chainHead C st' = chainHead C st" using assms by (simp add: chainHead_def split: option.split)
  then show ?thesis using assms by (simp add: readAll_def)
qed

lemma store_inv_frame:
  assumes "store_inv P C pass st" and "st_key st' = st_key st" and "st_metadata st' = st_metadata st" and "st_events st' = st_events st"
    and "st_next st' = st_next st" and "st_snapshots st' = st_snapshots st"
    and "distinct (map au_request (st_receipts st'))" and "distinct (map ck_id (st_checkpoints st'))"
  shows "store_inv P C pass st'"
proof -
  have "unlocks C pass st" using assms(1) by (simp add: store_inv_def)
  from unlocks_same [OF this assms(2,3)] have "unlocks C pass st'" .
  then show ?thesis using assms unfolding store_inv_def readAll_frame [OF assms(2-4)] by simp
qed

lemma save_snapshot_inv:
  assumes "aead_ok C" and "saveSnapshot P C st ty ag v lh payload now n = Inr st'" and "safe_json payload" and "store_inv P C pass st"
  shows "store_inv P C pass st'"
proof -
  define enc where "enc = encrypt C (st_key st) n (stable_stringify (coll_key P) payload) (snapshotAad P ty ag v lh)"
  define row where "row = \<lparr>sn_type = ty, sn_aggregate = ag, sn_version = v, sn_created = to_iso now, sn_last = lh,
    sn_cipher = ep_cipher enc, sn_nonce = ep_nonce enc, sn_tag = ep_tag enc\<rparr>"
  obtain as where s: "readAggregate P C st ty ag = Inr as" "map_option se_hash (nth_event as v) = Some lh"
    "st' = st\<lparr>st_snapshots := upsert_by sn_key row (st_snapshots st)\<rparr>"
    using saveSnapshot_ok [OF assms(2)] unfolding row_def enc_def by blast
  obtain es where es: "readAll P C st = Inr es" "\<forall>s \<in> set (st_snapshots st). snapshot_ok P C (st_key st) es s"
    using assms(4) by (auto simp: store_inv_def)
  have as: "as = filter (\<lambda>e. se_aggregate_type e = ty \<and> se_aggregate e = ag) es"
    using s(1) es(1) by (simp add: readAggregate_def)
  have eta: "\<lparr>ep_cipher = ep_cipher enc, ep_nonce = ep_nonce enc, ep_tag = ep_tag enc\<rparr> = enc" by simp
  have e: "decrypt C (st_key st) enc (snapshotAad P ty ag v lh) = Some (stable_stringify (coll_key P) payload)"
    unfolding enc_def by (rule decrypt_encrypt [OF assms(1)])
  have new: "snapshot_ok P C (st_key st) es row"
    using s(2) assms(3) unfolding snapshot_ok_def as by (simp add: row_def eta e json_parse_stringify)
  have "readAll P C st' = Inr es" unfolding s(3) readAll_snapshots by (rule es(1))
  moreover have "\<forall>x \<in> set (st_snapshots st'). snapshot_ok P C (st_key st) es x"
    using es(2) new s(3) by (auto dest: set_upsert_by)
  moreover have "unlocks C pass st'" using assms(4) s(3) unlocks_same [of C pass st st'] by (simp add: store_inv_def)
  ultimately show ?thesis
    using assms(4) s(3) by (simp add: store_inv_def)
qed

lemma store_step_inv:
  assumes "aead_ok C" and "hex_digest P" and "store_step P C st st'" and "store_inv P C pass st"
  shows "store_inv P C pass st'"
  using assms(3)
proof cases
  case s_append
  then show ?thesis using append_event_inv [OF assms(1,2)] assms(4) by blast
next
  case s_snapshot
  then show ?thesis using save_snapshot_inv [OF assms(1)] assms(4) by blast
next
  case s_import
  then show ?thesis using assms(4)
    by (intro store_inv_frame [OF assms(4)]) (auto simp: recordLegacyImportReceipt_def store_inv_def split: if_splits)
next
  case (s_receipt a)
  then have "st' = st\<lparr>st_receipts := st_receipts st @ [a]\<rparr>" "au_request a \<notin> au_request ` set (st_receipts st)"
    by (auto simp: recordAuthorityReceipt_def assertIdentifier_def image_iff split: if_splits)
  then show ?thesis using assms(4) by (intro store_inv_frame [OF assms(4)]) (auto simp: store_inv_def)
next
  case (s_checkpoint c)
  then have "st' = st\<lparr>st_checkpoints := st_checkpoints st @ [c]\<rparr>" "ck_id c \<notin> ck_id ` set (st_checkpoints st)"
    by (auto simp: saveSignedCheckpoint_def image_iff split: if_splits)
  then show ?thesis using assms(4) by (intro store_inv_frame [OF assms(4)]) (auto simp: store_inv_def)
qed

lemma reachable_store_inv:
  assumes "aead_ok C" and "hex_digest P" and "(store_step P C)\<^sup>*\<^sup>* st st'" and "store_inv P C pass st"
  shows "store_inv P C pass st'"
  using assms(3,4) by (induction rule: rtranclp_induct) (auto intro: store_step_inv [OF assms(1,2)])

lemma find_snapshot_mem: "find_snapshot st ty ag = Some s \<Longrightarrow> s \<in> set (st_snapshots st) \<and> sn_type s = ty \<and> sn_aggregate s = ag"
  by (auto simp: find_snapshot_def sn_key_def dest!: find_Some_mem)

lemma store_inv_loads: "store_inv P C pass st \<Longrightarrow> \<exists>r. loadSnapshot P C st ty ag = Inr r"
proof (cases "find_snapshot st ty ag")
  case (Some s)
  assume inv: "store_inv P C pass st"
  note s = find_snapshot_mem [OF Some]
  obtain es where es: "readAll P C st = Inr es" "snapshot_ok P C (st_key st) es s"
    using inv s by (auto simp: store_inv_def)
  then have "readAggregate P C st ty ag = Inr (filter (\<lambda>e. se_aggregate_type e = ty \<and> se_aggregate e = ag) es)"
    by (simp add: readAggregate_def)
  moreover obtain p where "Option.bind (decrypt C (st_key st) \<lparr>ep_cipher = sn_cipher s, ep_nonce = sn_nonce s, ep_tag = sn_tag s\<rparr>
         (snapshotAad P (sn_type s) (sn_aggregate s) (sn_version s) (sn_last s))) json_parse = Some p"
    using es(2) unfolding snapshot_ok_def by blast
  ultimately show ?thesis
    using loadSnapshot_from [OF Some] es(2) s unfolding snapshot_ok_def by blast
qed (simp add: loadSnapshot_def)

section \<open>What the store promises\<close>

definition digest_platform :: platform where
  "digest_platform = sample_platform\<lparr>sha256_hex := \<lambda>s. pad 64 (length s mod 10 ^ 64)\<rparr>"

definition sample_crypto :: crypto where
  "sample_crypto = \<lparr>cr_derive = (\<lambda>p s. p @ s), cr_encrypt = (\<lambda>k n m a. (m, k @ n @ a)),
     cr_decrypt = (\<lambda>k n c t a. if t = k @ n @ a then Some c else None)\<rparr>"

definition sample_store :: store where
  "sample_store = \<lparr>st_key = ''correct horse salt'', st_metadata = new_metadata digest_platform sample_crypto ''correct horse salt'' '' salt'' ''n1'' ''n2'' ''u'',
     st_events = [], st_next = 1, st_snapshots = [], st_imports = [], st_receipts = [], st_checkpoints = [], st_migrations = [1]\<rparr>"

definition sample_append :: append_input where
  "sample_append = \<lparr>ae_id = Some ''EVT-1'', ae_aggregate_type = ''application'', ae_aggregate = ''APP-1'', ae_type = ''created'',
     ae_version = 1, ae_payload = JObj [(''b'', JNum 2), (''a'', JNull)], ae_time = 0\<rparr>"

lemma sample_aead: "aead_ok sample_crypto"
  by (simp add: aead_ok_def sample_crypto_def)

lemma digest_hex: "hex_digest digest_platform"
proof -
  have "length (pad 64 (n mod 10 ^ 64)) = 64" "list_all is_hex (pad 64 (n mod 10 ^ 64))" for n :: nat
    using pad_length [of "n mod 10 ^ 64" 64] pad_digits [of 64 "n mod 10 ^ 64"]
    by (auto simp: list_all_iff is_hex_def)
  then show ?thesis by (simp add: hex_digest_def digest_platform_def)
qed

lemma store_created: "create_store digest_platform sample_crypto [1] ''correct horse'' '' salt'' ''n1'' ''n2'' ''u'' = Inr sample_store"
  by (simp add: create_store_def deriveKey_def sample_store_def) (simp add: sample_crypto_def)

lemma sample_store_inv: "store_inv digest_platform sample_crypto ''correct horse'' sample_store"
  by (rule create_store_inv [OF sample_aead digest_hex _ store_created]) simp

lemma sample_store_read: "readAll digest_platform sample_crypto sample_store = Inr []"
  using sample_store_inv by (auto simp: store_inv_def readAll_iff sample_store_def)

lemma sample_identifiers: "identifier_ok ''application''" "identifier_ok ''APP-1''" "identifier_ok ''created''" "identifier_ok ''EVT-1''"
  by code_simp+

lemma sample_event_appended:
  "\<exists>st' ev. append_event digest_platform sample_crypto sample_store sample_append u n n' = Inr (st', ev)"
  by (rule append_total [OF sample_store_read])
    (simp_all add: sample_append_def sample_identifiers row_of_input_def, simp_all add: sample_store_def)

lemma sample_payload_safe: "safe_json (ae_payload sample_append)"
  by (simp add: sample_append_def)

text \<open>C10: After a successful append the store reads back all earlier events unchanged and then the new
  one, with its payload in canonical member order.\<close>

theorem append_read_back:
  assumes "aead_ok C" and "hex_digest P" and "readAll P C st = Inr es" and "append_event P C st i uuid n n' = Inr (st', ev)"
    and "safe_json (ae_payload i)"
  shows "readAll P C st' = Inr (es @ [ev\<lparr>se_payload := canon (coll_key P) (ae_payload i)\<rparr>])"
  using assms(5) by (intro append_readAll [OF assms(1-4)]) auto

theorem append_read_back_witness:
  "\<exists>st' ev. append_event digest_platform sample_crypto sample_store sample_append [] [] [] = Inr (st', ev) \<and>
    readAll digest_platform sample_crypto st' = Inr [ev\<lparr>se_payload := canon (coll_key digest_platform) (ae_payload sample_append)\<rparr>]"
proof -
  obtain st' ev where a: "append_event digest_platform sample_crypto sample_store sample_append [] [] [] = Inr (st', ev)"
    using sample_event_appended by blast
  from append_read_back [OF sample_aead digest_hex sample_store_read a sample_payload_safe] a show ?thesis by auto
qed

lemma tampering_refused:
  assumes "readAll P C st = Inr es" and "st_key st' = st_key st" and "st_metadata st' = st_metadata st"
    and "map unseq (st_events st') \<noteq> map unseq (st_events st)"
  shows "(\<exists>e. readAll P C st' = Inl e) \<or> (\<exists>x y. sha_collision P x y)"
proof (cases "readAll P C st'")
  case (Inr fs)
  obtain v where v: "st_metadata st ''event_chain_head'' = Some v"
    "decodeChainHead C (st_key st) v = Inr \<lparr>ch_count = int (length (st_events st)), ch_hash = last_hash P (st_events st)\<rparr>"
    "verify_rows P C (st_key st) (GENESIS_HASH P) (st_events st) = Inr (es, last_hash P (st_events st))"
    using assms(1) by (auto simp: readAll_iff)
  have w: "length (st_events st') = length (st_events st)" "last_hash P (st_events st') = last_hash P (st_events st)"
    "verify_rows P C (st_key st) (GENESIS_HASH P) (st_events st') = Inr (fs, last_hash P (st_events st'))"
    using Inr v(1,2) by (auto simp: readAll_iff assms(2,3))
  from history_pinned [OF v(3) w(3) [unfolded w(2)]] w(1) assms(4) show ?thesis by auto
qed blast

text \<open>C8: The authenticated head pins the history. In a store whose metadata is untouched, dropping,
  adding, reordering or editing event rows (any column but the sequence number) makes every read fail,
  or exhibits a SHA-256 collision.\<close>

theorem tampered_history_refused:
  assumes "readAll P C st = Inr es" and "st_key st' = st_key st" and "st_metadata st' = st_metadata st"
    and "map unseq (st_events st') \<noteq> map unseq (st_events st)"
  shows "(\<exists>e. readAll P C st' = Inl e) \<or> (\<exists>x y. sha_collision P x y)"
  using assms by (rule tampering_refused)

theorem tampered_history_refused_witness:
  "\<exists>st' ev. append_event digest_platform sample_crypto sample_store sample_append [] [] [] = Inr (st', ev) \<and>
    ((\<exists>e. readAll digest_platform sample_crypto (st'\<lparr>st_events := []\<rparr>) = Inl e) \<or> (\<exists>x y. sha_collision digest_platform x y))"
proof -
  obtain st' ev where a: "append_event digest_platform sample_crypto sample_store sample_append [] [] [] = Inr (st', ev)"
    using sample_event_appended by blast
  have r: "readAll digest_platform sample_crypto st' = Inr [ev\<lparr>se_payload := canon (coll_key digest_platform) (ae_payload sample_append)\<rparr>]"
    using append_readAll [OF sample_aead digest_hex sample_store_read a] sample_payload_safe by simp
  have "st_events st' \<noteq> []" using append_event_ok [OF a] by simp
  then have "map unseq (st_events (st'\<lparr>st_events := []\<rparr>)) \<noteq> map unseq (st_events st')" by simp
  from tampered_history_refused [OF r _ _ this] a show ?thesis by auto
qed

text \<open>C9: Every store reached from a created one by appends, snapshots, receipts and checkpoints unlocks
  with the passphrase it was created with, passes the integrity check, has gapless sequence numbers and
  distinct event identifiers, and loads every snapshot.\<close>

theorem reachable_store_reopens:
  assumes "aead_ok C" and "hex_digest P" and "salt \<noteq> []" and "create_store P C ms pass salt n1 n2 uuid = Inr st0"
    and "(store_step P C)\<^sup>*\<^sup>* st0 st"
  shows "authenticateExistingStore P C ''ok'' st pass = Inr (st_key st) \<and>
    (\<exists>n h. verifyIntegrity P C ''ok'' st = Inr (n, h) \<and> n = length (st_events st) \<and> ch_count h = int n) \<and>
    map er_sequence (st_events st) = [1..<st_next st] \<and> distinct (map er_id (st_events st)) \<and>
    (\<exists>r. loadSnapshot P C st ty ag = Inr r)"
proof -
  have inv: "store_inv P C pass st"
    using create_store_inv [OF assms(1-4)] by (rule reachable_store_inv [OF assms(1,2,5)])
  then obtain es where es: "readAll P C st = Inr es" by (auto simp: store_inv_def)
  then obtain v where "st_metadata st ''event_chain_head'' = Some v"
    "decodeChainHead C (st_key st) v = Inr \<lparr>ch_count = int (length (st_events st)), ch_hash = last_hash P (st_events st)\<rparr>"
    "length es = length (st_events st)"
    by (auto simp: readAll_iff dest: verify_rows_map)
  with es have "verifyIntegrity P C ''ok'' st = Inr (length (st_events st), \<lparr>ch_count = int (length (st_events st)), ch_hash = last_hash P (st_events st)\<rparr>)"
    by (simp add: verifyIntegrity_def chainHead_def)
  moreover have "authenticateExistingStore P C ''ok'' st pass = Inr (st_key st)"
    using inv es by (intro authenticate_iff) (simp_all add: store_inv_def)
  ultimately show ?thesis using inv store_inv_loads [OF inv] by (simp add: store_inv_def)
qed

theorem reachable_store_reopens_witness:
  "\<exists>st ev. append_event digest_platform sample_crypto sample_store sample_append [] [] [] = Inr (st, ev) \<and>
    authenticateExistingStore digest_platform sample_crypto ''ok'' st ''correct horse'' = Inr (st_key st)"
proof -
  obtain st ev where a: "append_event digest_platform sample_crypto sample_store sample_append [] [] [] = Inr (st, ev)"
    using sample_event_appended by blast
  then have "store_step digest_platform sample_crypto sample_store st" using sample_payload_safe by (rule s_append)
  then have "(store_step digest_platform sample_crypto)\<^sup>*\<^sup>* sample_store st" by simp
  from reachable_store_reopens [OF sample_aead digest_hex _ store_created this] a show ?thesis by auto
qed

lemma find_snapshot_upsert:
  "find_snapshot (st\<lparr>st_snapshots := upsert_by sn_key r (st_snapshots st)\<rparr>) ty ag =
    (if sn_key r = (ty, ag) then Some r else find_snapshot st ty ag)"
  by (simp add: find_snapshot_def find_upsert_by)

text \<open>A saved snapshot is loaded back with its version and canonical payload, and no later save may go
  back to a smaller version.\<close>

lemma snapshot_saved:
  assumes "aead_ok C" and "saveSnapshot P C st ty ag v lh payload now n = Inr st'" and "safe_json payload"
  shows "loadSnapshot P C st' ty ag = Inr (Some \<lparr>ss_type = ty, ss_aggregate = ag, ss_version = v, ss_created = to_iso now,
      ss_last = lh, ss_payload = canon (coll_key P) payload\<rparr>) \<and>
    (if w < v then \<exists>e. saveSnapshot P C st' ty ag w lh2 payload2 now2 n2 = Inl e else True)"
proof -
  have l: "loadSnapshot P C st' ty ag = Inr (Some \<lparr>ss_type = ty, ss_aggregate = ag, ss_version = v, ss_created = to_iso now,
      ss_last = lh, ss_payload = canon (coll_key P) payload\<rparr>)"
    using assms(3) by (intro snapshot_roundtrip [OF assms(1,2)]) auto
  obtain s where f: "find_snapshot st' ty ag = Some s" "sn_version s = v"
    using saveSnapshot_ok [OF assms(2)] by (auto simp: find_snapshot_upsert) (simp add: sn_key_def)
  have "\<exists>e. saveSnapshot P C st' ty ag w lh2 payload2 now2 n2 = Inl e" if "w < v"
  proof (cases "saveSnapshot P C st' ty ag w lh2 payload2 now2 n2")
    case (Inr st2)
    from saveSnapshot_ok [OF this] f that show ?thesis by auto
  qed blast
  with l show ?thesis by simp
qed

end
