(* ===== verification/Credentials.thy ===== *)
theory Credentials
  imports EventStore
begin

text \<open>
  Credential stores (src/src/security/credential-store.ts). The interface \<open>CredentialStore\<close> is the record
  \<open>credential_ops\<close> of operations on a state and, with its contract, the locale \<open>credential_store\<close>; the
  in-memory store and the encrypted file are its interpretations, the native key ring (a third-party module)
  is not modelled. Random values are arguments. What the clients get from the contract is proved once in the
  locale: a secret that is loaded or created stays the same, and the secrets of a runtime are separate.
\<close>

section \<open>State and errors\<close>

text \<open>An \<open>async\<close> operation returns the state it leaves behind also when it throws.\<close>

type_synonym ('s, 'a) action = "'s \<Rightarrow> 's \<times> 'a result"

definition bindS :: "('s, 'a) action \<Rightarrow> ('a \<Rightarrow> ('s, 'b) action) \<Rightarrow> ('s, 'b) action" where
  "bindS m f s = (case m s of (s', Inl e) \<Rightarrow> (s', Inl e) | (s', Inr x) \<Rightarrow> f x s')"

definition liftS :: "'a result \<Rightarrow> ('s, 'a) action" where
  "liftS r s = (s, r)"

definition readS :: "('s \<Rightarrow> 'a result) \<Rightarrow> ('s, 'a) action" where
  "readS g s = (s, g s)"

lemma bindS_Inr_iff: "bindS m f s = (s', Inr y) \<longleftrightarrow> (\<exists>s1 x. m s = (s1, Inr x) \<and> f x s1 = (s', Inr y))"
  by (auto simp: bindS_def split: prod.splits sum.splits)

lemma liftS_Inr_iff [simp]: "liftS r s = (s', Inr y) \<longleftrightarrow> s' = s \<and> r = Inr y"
  by (auto simp: liftS_def)

lemma readS_Inr_iff [simp]: "readS g s = (s', Inr y) \<longleftrightarrow> s' = s \<and> g s = Inr y"
  by (auto simp: readS_def)

lemma bindS_liftS [simp]: "bindS (liftS (Inr x)) f s = f x s"
  by (simp add: bindS_def liftS_def)

section \<open>The interface\<close>

record 's credential_ops =
  cs_get :: "'s \<Rightarrow> string \<Rightarrow> string option result"
  cs_set :: "string \<Rightarrow> string \<Rightarrow> ('s, unit) action"
  cs_delete :: "string \<Rightarrow> ('s, bool) action"

definition CREDENTIAL_ACCOUNTS :: "string list" where
  "CREDENTIAL_ACCOUNTS = [''database-passphrase'', ''ipc-secret'', ''checkpoint-private-key'', ''latest-checkpoint-digest'',
     ''device-id'', ''rollback-backup-secret'', ''artifact-vault-key'']"

text \<open>\<open>getOrCreateCredential\<close> with the secret it draws when there is none.\<close>

definition getOrCreateCredential :: "'s credential_ops \<Rightarrow> string \<Rightarrow> string \<Rightarrow> ('s, string) action" where
  "getOrCreateCredential ops account created = bindS (readS (\<lambda>s. cs_get ops s account)) (\<lambda>existing. case existing of
     Some e \<Rightarrow> if length e < 16 then liftS (throw (''Credential account '' @ account @ '' contains an invalid secret''))
       else liftS (Inr e)
   | None \<Rightarrow> bindS (cs_set ops account created) (\<lambda>_. bindS (readS (\<lambda>s. cs_get ops s account)) (\<lambda>verified.
       if verified \<noteq> Some created
       then liftS (throw (''Credential account '' @ account @ '' failed read after write verification''))
       else liftS (Inr created))))"

definition getOrCreateIpcSecret :: "'s credential_ops \<Rightarrow> string \<Rightarrow> ('s, string) action" where
  "getOrCreateIpcSecret ops created = bindS (readS (\<lambda>s. cs_get ops s ''ipc-secret'')) (\<lambda>existing. case existing of
     Some e \<Rightarrow> if length e < 16 then liftS (throw ''Credential account ipc-secret contains an invalid secret'')
       else liftS (Inr e)
   | None \<Rightarrow> bindS (cs_set ops ''ipc-secret'' created) (\<lambda>_. bindS (readS (\<lambda>s. cs_get ops s ''ipc-secret'')) (\<lambda>verified.
       if verified \<noteq> Some created
       then liftS (throw ''Credential account ipc-secret failed read after write verification'')
       else liftS (Inr created))))"

record runtime_secrets =
  rs_database :: string
  rs_ipc :: string
  rs_vault :: string

definition loadOrCreateRuntimeSecrets :: "'s credential_ops \<Rightarrow> string \<Rightarrow> string \<Rightarrow> string \<Rightarrow> ('s, runtime_secrets) action" where
  "loadOrCreateRuntimeSecrets ops r1 r2 r3 =
     bindS (getOrCreateCredential ops ''database-passphrase'' r1) (\<lambda>d.
     bindS (getOrCreateIpcSecret ops r2) (\<lambda>i.
     bindS (getOrCreateCredential ops ''artifact-vault-key'' r3) (\<lambda>a.
     if length (dedup [d, i, a]) \<noteq> 3 then liftS (throw ''Runtime credential separation invariant failed'')
     else liftS (Inr \<lparr>rs_database = d, rs_ipc = i, rs_vault = a\<rparr>))))"

text \<open>What the clients rely on: a stored secret is read back, and storing one keeps the others.\<close>

locale credential_store =
  fixes ops :: "'s credential_ops"
  assumes get_set: "cs_set ops a v s = (s', Inr ()) \<Longrightarrow> cs_get ops s' a = Inr (Some v)"
    and get_set_other: "cs_set ops a v s = (s', Inr ()) \<Longrightarrow> a \<noteq> b \<Longrightarrow> cs_get ops s b = Inr r \<Longrightarrow> cs_get ops s' b = Inr r"
begin

lemma stored:
  assumes "getOrCreateCredential ops a r s = (s', Inr v)"
  shows "cs_get ops s' a = Inr (Some v)"
  using assms by (auto simp: getOrCreateCredential_def bindS_Inr_iff split: option.splits if_splits)

lemma stored_keeps:
  assumes "getOrCreateCredential ops a r s = (s', Inr v)" and "b \<noteq> a" and "cs_get ops s b = Inr w"
  shows "cs_get ops s' b = Inr w"
  using assms by (auto simp: getOrCreateCredential_def bindS_Inr_iff split: option.splits if_splits intro: get_set_other)

lemma ipc_is_credential: "getOrCreateIpcSecret ops r = getOrCreateCredential ops ''ipc-secret'' r"
  unfolding getOrCreateIpcSecret_def getOrCreateCredential_def append_Cons append_Nil by (rule refl)

lemma again:
  assumes "cs_get ops s a = Inr (Some v)" and "16 \<le> length v"
  shows "getOrCreateCredential ops a r s = (s, Inr v)"
  using assms by (simp add: getOrCreateCredential_def bindS_def readS_def liftS_def)

lemma secrets_stable:
  assumes "loadOrCreateRuntimeSecrets ops r1 r2 r3 s = (s', Inr k)" and "16 \<le> length r1" "16 \<le> length r2" "16 \<le> length r3"
  shows "distinct [rs_database k, rs_ipc k, rs_vault k] \<and> loadOrCreateRuntimeSecrets ops q1 q2 q3 s' = (s', Inr k)"
proof -
  have long: "16 \<le> length v" if "getOrCreateCredential ops a r t = (t', Inr v)" "16 \<le> length r" for a r t t' v
    using that by (auto simp: getOrCreateCredential_def bindS_Inr_iff split: option.splits if_splits)
  obtain s1 s2 d i v where g: "getOrCreateCredential ops ''database-passphrase'' r1 s = (s1, Inr d)"
    "getOrCreateCredential ops ''ipc-secret'' r2 s1 = (s2, Inr i)"
    "getOrCreateCredential ops ''artifact-vault-key'' r3 s2 = (s', Inr v)"
    "length (dedup [d, i, v]) = 3" "k = \<lparr>rs_database = d, rs_ipc = i, rs_vault = v\<rparr>"
    using assms(1) by (auto simp: loadOrCreateRuntimeSecrets_def bindS_Inr_iff ipc_is_credential split: if_splits)
  have "cs_get ops s1 ''database-passphrase'' = Inr (Some d)" by (rule stored [OF g(1)])
  then have "cs_get ops s2 ''database-passphrase'' = Inr (Some d)" by (intro stored_keeps [OF g(2)]) simp_all
  then have d: "cs_get ops s' ''database-passphrase'' = Inr (Some d)" by (intro stored_keeps [OF g(3)]) simp_all
  have "cs_get ops s2 ''ipc-secret'' = Inr (Some i)" by (rule stored [OF g(2)])
  then have i: "cs_get ops s' ''ipc-secret'' = Inr (Some i)" by (intro stored_keeps [OF g(3)]) simp_all
  have a: "cs_get ops s' ''artifact-vault-key'' = Inr (Some v)" by (rule stored [OF g(3)])
  have "loadOrCreateRuntimeSecrets ops q1 q2 q3 s' = (s', Inr k)"
    using g(4) again [OF d long [OF g(1) assms(2)], of q1] again [OF i long [OF g(2) assms(3)], of q2]
      again [OF a long [OF g(3) assms(4)], of q3]
    by (simp add: loadOrCreateRuntimeSecrets_def ipc_is_credential bindS_def liftS_def g(5) del: dedup.simps)
  moreover have "distinct [d, i, v]" using g(4) length_dedup_eq_iff [of "[d, i, v]"] by simp
  ultimately show ?thesis using g(5) by simp
qed

end

section \<open>The store in memory\<close>

type_synonym credential_map = "string \<rightharpoonup> string"

definition memory_set :: "string \<Rightarrow> string \<Rightarrow> (credential_map, unit) action" where
  "memory_set a v s = (if v = [] then (s, throw ''Credential secret cannot be empty'') else (s(a \<mapsto> v), Inr ()))"

definition memory_delete :: "string \<Rightarrow> (credential_map, bool) action" where
  "memory_delete a s = (s(a := None), Inr (s a \<noteq> None))"

definition MemoryCredentialStore :: "credential_map credential_ops" where
  "MemoryCredentialStore = \<lparr>cs_get = (\<lambda>s a. Inr (s a)), cs_set = memory_set, cs_delete = memory_delete\<rparr>"

interpretation memory: credential_store MemoryCredentialStore
  by unfold_locales (auto simp: MemoryCredentialStore_def memory_set_def split: if_splits)

section \<open>The encrypted file\<close>

text \<open>
  The values in the order of insertion, the salt, the key, and the contents of the vault file. A write of the
  file gets a nonce and succeeds or not (\<open>rnd\<close> and \<open>disk_ok\<close>, functions of the state); the temporary file and
  the rename make the write all or nothing.
\<close>

record file_store =
  fs_salt :: string
  fs_key :: string
  fs_values :: "(string \<times> string) list"
  fs_disk :: "string option"

definition HEADLESS_CREDENTIAL_AAD :: string where
  "HEADLESS_CREDENTIAL_AAD = ''vocation-os:headless-credentials:v1''"

definition deriveHeadlessKey :: "crypto \<Rightarrow> string \<Rightarrow> string \<Rightarrow> string result" where
  "deriveHeadlessKey C passphrase salt = (if length passphrase < 16
     then throw ''Headless master passphrase must contain at least 16 characters'' else Inr (cr_derive C passphrase salt))"

text \<open>The plaintext: the values as an object, its members sorted by account.\<close>

definition vault_plaintext :: "platform \<Rightarrow> (string \<times> string) list \<Rightarrow> string" where
  "vault_plaintext P vs = print (JObj (map (\<lambda>(k, v). (k, JStr v)) (sort_key (\<lambda>e. coll_key P (fst e)) vs)))"

definition vault_envelope :: "file_store \<Rightarrow> encrypted_payload \<Rightarrow> json" where
  "vault_envelope s enc = JObj [(''format'', JStr ''vocation-os-headless-credentials''), (''version'', JNum 1),
     (''salt'', JStr (fs_salt s)), (''nonce'', JStr (ep_nonce enc)), (''tag'', JStr (ep_tag enc)), (''ciphertext'', JStr (ep_cipher enc))]"

definition persist :: "platform \<Rightarrow> crypto \<Rightarrow> string \<Rightarrow> bool \<Rightarrow> (file_store, unit) action" where
  "persist P C nonce disk_ok s = (
     let enc = encrypt C (fs_key s) nonce (vault_plaintext P (fs_values s)) HEADLESS_CREDENTIAL_AAD in
     if disk_ok then (s\<lparr>fs_disk := Some (print (vault_envelope s enc) @ [CHR 0x0A])\<rparr>, Inr ())
     else (s, throw ''vault file cannot be written''))"

definition file_set :: "platform \<Rightarrow> crypto \<Rightarrow> (file_store \<Rightarrow> string) \<Rightarrow> (file_store \<Rightarrow> bool) \<Rightarrow> string \<Rightarrow> string \<Rightarrow>
    (file_store, unit) action" where
  "file_set P C rnd disk_ok a v s = (if v = [] then (s, throw ''Credential secret cannot be empty'')
     else case persist P C (rnd s) (disk_ok s) (s\<lparr>fs_values := upsert a v (fs_values s)\<rparr>) of
       (s', Inl e) \<Rightarrow> (case map_of (fs_values s) a of
           None \<Rightarrow> (s'\<lparr>fs_values := filter (\<lambda>x. fst x \<noteq> a) (fs_values s')\<rparr>, Inl e)
         | Some previous \<Rightarrow> (s'\<lparr>fs_values := upsert a previous (fs_values s')\<rparr>, Inl e))
     | (s', Inr u) \<Rightarrow> (s', Inr u))"

text \<open>A failed deletion puts the value back, at the end of the order of insertion.\<close>

definition file_delete :: "platform \<Rightarrow> crypto \<Rightarrow> (file_store \<Rightarrow> string) \<Rightarrow> (file_store \<Rightarrow> bool) \<Rightarrow> string \<Rightarrow> (file_store, bool) action" where
  "file_delete P C rnd disk_ok a s = (case map_of (fs_values s) a of None \<Rightarrow> (s, Inr False)
   | Some previous \<Rightarrow> (case persist P C (rnd s) (disk_ok s) (s\<lparr>fs_values := filter (\<lambda>x. fst x \<noteq> a) (fs_values s)\<rparr>) of
       (s', Inl e) \<Rightarrow> (s'\<lparr>fs_values := upsert a previous (fs_values s')\<rparr>, Inl e)
     | (s', Inr u) \<Rightarrow> (s', Inr True)))"

definition EncryptedFileCredentialStore ::
  "platform \<Rightarrow> crypto \<Rightarrow> (file_store \<Rightarrow> string) \<Rightarrow> (file_store \<Rightarrow> bool) \<Rightarrow> file_store credential_ops" where
  "EncryptedFileCredentialStore P C rnd disk_ok = \<lparr>cs_get = (\<lambda>s a. Inr (map_of (fs_values s) a)),
     cs_set = file_set P C rnd disk_ok, cs_delete = file_delete P C rnd disk_ok\<rparr>"

text \<open>The entries of the decrypted object: non-empty strings only.\<close>

definition vault_values :: "json \<Rightarrow> (string \<times> string) list option" where
  "vault_values j = (case j of JObj es \<Rightarrow> those (map (\<lambda>(k, v). case v of JStr s \<Rightarrow> if s = [] then None else Some (k, s) | _ \<Rightarrow> None) es)
   | _ \<Rightarrow> None)"

definition vault_open :: "platform \<Rightarrow> crypto \<Rightarrow> string option \<Rightarrow> string \<Rightarrow> string \<Rightarrow> string \<Rightarrow> bool \<Rightarrow> file_store result" where
  "vault_open P C disk passphrase new_salt nonce disk_ok = (case disk of
     None \<Rightarrow> bindE (deriveHeadlessKey C passphrase new_salt) (\<lambda>key.
       snd (bindS (persist P C nonce disk_ok) (\<lambda>_. readS Inr) \<lparr>fs_salt = new_salt, fs_key = key, fs_values = [], fs_disk = None\<rparr>))
   | Some text \<Rightarrow> (case json_parse text of
       None \<Rightarrow> throw ''Headless credential vault is not valid JSON''
     | Some env \<Rightarrow> if str_member env ''format'' \<noteq> Some ''vocation-os-headless-credentials'' \<or> num_member env ''version'' \<noteq> Some 1
         then throw ''Unsupported headless credential vault format''
         else (case str_member env ''salt'' of None \<Rightarrow> throw ''The first argument must be of type string''
       | Some salt \<Rightarrow> bindE (deriveHeadlessKey C passphrase salt) (\<lambda>key.
           case (str_member env ''ciphertext'', str_member env ''nonce'', str_member env ''tag'') of
             (Some c, Some n, Some t) \<Rightarrow>
               (case Option.bind (Option.bind (decrypt C key \<lparr>ep_cipher = c, ep_nonce = n, ep_tag = t\<rparr> HEADLESS_CREDENTIAL_AAD)
                   json_parse) vault_values of
                 Some vs \<Rightarrow> Inr \<lparr>fs_salt = salt, fs_key = key, fs_values = vs, fs_disk = disk\<rparr>
               | None \<Rightarrow> throw ''Headless credential vault cannot be authenticated with the supplied passphrase'')
           | _ \<Rightarrow> throw ''Headless credential vault cannot be authenticated with the supplied passphrase''))))"

interpretation vault: credential_store "EncryptedFileCredentialStore P C rnd disk_ok"
  by unfold_locales
    (auto simp: EncryptedFileCredentialStore_def file_set_def persist_def Let_def map_of_upsert split: if_splits option.splits)

definition vault_ok :: "crypto \<Rightarrow> string \<Rightarrow> file_store \<Rightarrow> bool" where
  "vault_ok C pass s = (16 \<le> length pass \<and> fs_key s = cr_derive C pass (fs_salt s) \<and> distinct (map fst (fs_values s)) \<and>
     [] \<notin> snd ` set (fs_values s))"

lemma vault_values_entries:
  "[] \<notin> snd ` set vs \<Longrightarrow> vault_values (JObj (map (\<lambda>(k, v). (k, JStr v)) vs)) = Some vs"
  by (induction vs) (auto simp: vault_values_def)

lemma map_of_sort_key: "distinct (map fst vs) \<Longrightarrow> map_of (sort_key f vs) = map_of vs"
proof -
  assume d: "distinct (map fst vs)"
  have "mset (map fst (sort_key f vs)) = mset (map fst vs)" by (simp add: mset_map)
  then have "distinct (map fst (sort_key f vs))" using d mset_eq_imp_distinct_iff by blast
  with d show ?thesis using map_of_inject_set [of "sort_key f vs" vs] by simp
qed

lemma vault_reopens:
  assumes "aead_ok C" and "vault_ok C pass s" and "persist P C n ok s = (s', Inr ())"
  shows "vault_open P C (fs_disk s') pass x y z = Inr (s'\<lparr>fs_values := sort_key (\<lambda>e. coll_key P (fst e)) (fs_values s)\<rparr>)"
proof -
  define vs where "vs = sort_key (\<lambda>e. coll_key P (fst e)) (fs_values s)"
  define enc where "enc = encrypt C (fs_key s) n (vault_plaintext P (fs_values s)) HEADLESS_CREDENTIAL_AAD"
  have s': "s' = s\<lparr>fs_disk := Some (print (vault_envelope s enc) @ [CHR 0x0A])\<rparr>"
    using assms(3) by (auto simp: persist_def Let_def enc_def split: if_splits)
  have p: "json_parse (print (vault_envelope s enc) @ [CHR 0x0A]) = Some (vault_envelope s enc)"
    by (rule json_parse_line) (simp_all add: vault_envelope_def)
  have eta: "\<lparr>ep_cipher = ep_cipher enc, ep_nonce = ep_nonce enc, ep_tag = ep_tag enc\<rparr> = enc" by simp
  have d: "decrypt C (fs_key s) enc HEADLESS_CREDENTIAL_AAD = Some (vault_plaintext P (fs_values s))"
    unfolding enc_def by (rule decrypt_encrypt [OF assms(1)])
  have "mset (map fst vs) = mset (map fst (fs_values s))" by (simp add: vs_def mset_map)
  then have "distinct (map fst vs)" using assms(2) mset_eq_imp_distinct_iff unfolding vault_ok_def by blast
  then have j: "json_parse (vault_plaintext P (fs_values s)) = Some (JObj (map (\<lambda>(k, v). (k, JStr v)) vs))"
    unfolding vault_plaintext_def vs_def [symmetric]
    by (intro json_parse_print) (auto simp: comp_def case_prod_beta)
  have v: "vault_values (JObj (map (\<lambda>(k, v). (k, JStr v)) vs)) = Some vs"
    using assms(2) by (intro vault_values_entries) (auto simp: vs_def vault_ok_def)
  have m: "str_member (vault_envelope s enc) ''format'' = Some ''vocation-os-headless-credentials''"
    "num_member (vault_envelope s enc) ''version'' = Some 1" "str_member (vault_envelope s enc) ''salt'' = Some (fs_salt s)"
    "str_member (vault_envelope s enc) ''ciphertext'' = Some (ep_cipher enc)" "str_member (vault_envelope s enc) ''nonce'' = Some (ep_nonce enc)"
    "str_member (vault_envelope s enc) ''tag'' = Some (ep_tag enc)"
    by (simp_all add: vault_envelope_def str_member_def num_member_def)
  have k: "deriveHeadlessKey C pass (fs_salt s) = Inr (fs_key s)" using assms(2) by (simp add: vault_ok_def deriveHeadlessKey_def)
  have "fs_disk s' = Some (print (vault_envelope s enc) @ [CHR 0x0A])" by (simp add: s')
  then show ?thesis
    unfolding vault_open_def by (simp only: option.case p m prod.case k bindE.simps eta d bind.simps j v) (simp add: s' vs_def)
qed

lemma map_of_filter_key: "map_of (filter (\<lambda>x. fst x \<noteq> k) es) = (map_of es)(k := None)"
  by (induction es) (auto simp: fun_eq_iff)

lemma persist_ok: "persist P C n True s = (s', r) \<Longrightarrow> r = Inr () \<and> (\<exists>d. s' = s\<lparr>fs_disk := d\<rparr>)"
  by (auto simp: persist_def Let_def)

lemma persist_failed: "persist P C n False s = (s, throw ''vault file cannot be written'')"
  by (simp add: persist_def Let_def)

lemma vault_ok_upsert: "vault_ok C pass s \<Longrightarrow> v \<noteq> [] \<Longrightarrow> vault_ok C pass (s\<lparr>fs_values := upsert a v (fs_values s)\<rparr>)"
proof -
  have sub: "snd ` set (upsert a v es) \<subseteq> insert v (snd ` set es)" for es :: "(string \<times> string) list"
    by (induction a v es rule: upsert.induct) auto
  show "vault_ok C pass s \<Longrightarrow> v \<noteq> [] \<Longrightarrow> vault_ok C pass (s\<lparr>fs_values := upsert a v (fs_values s)\<rparr>)"
    using sub [of "fs_values s"] upsert_distinct [of "fs_values s" a v] upsert_fst [of a v "fs_values s"] by (auto simp: vault_ok_def)
qed

lemma vault_ok_filter: "vault_ok C pass s \<Longrightarrow> vault_ok C pass (s\<lparr>fs_values := filter f (fs_values s)\<rparr>)"
  by (auto simp: vault_ok_def distinct_map_filter)

lemma vault_ok_disk [simp]: "vault_ok C pass (s\<lparr>fs_disk := d\<rparr>) = vault_ok C pass s"
  by (simp add: vault_ok_def)

lemma vault_ok_sort: "vault_ok C pass s \<Longrightarrow> vault_ok C pass (s\<lparr>fs_values := sort_key f (fs_values s)\<rparr>)"
proof -
  have "mset (map fst (sort_key f (fs_values s))) = mset (map fst (fs_values s))" by (simp add: mset_map)
  then have "distinct (map fst (sort_key f (fs_values s))) = distinct (map fst (fs_values s))" by (rule mset_eq_imp_distinct_iff)
  then show "vault_ok C pass s \<Longrightarrow> vault_ok C pass (s\<lparr>fs_values := sort_key f (fs_values s)\<rparr>)" by (simp add: vault_ok_def)
qed

text \<open>After a write the file opens with the values in memory.\<close>

lemma written_reopens:
  assumes "aead_ok C" and "vault_ok C pass s" and "persist P C n ok s = (s', Inr ())"
  shows "\<exists>t. vault_open P C (fs_disk s') pass x y z = Inr t \<and> map_of (fs_values t) = map_of (fs_values s) \<and> vault_ok C pass t"
proof -
  have "s' = s\<lparr>fs_disk := fs_disk s'\<rparr>" using assms(3) by (auto simp: persist_def Let_def split: if_splits)
  then have "vault_ok C pass s'" using assms(2) vault_ok_disk by metis
  moreover have "map_of (sort_key f (fs_values s)) = map_of (fs_values s)" for f :: "string \<times> string \<Rightarrow> string"
    using assms(2) by (intro map_of_sort_key) (simp add: vault_ok_def)
  moreover have "fs_values s' = fs_values s" using assms(3) by (auto simp: persist_def Let_def split: if_splits)
  ultimately show ?thesis using vault_reopens [OF assms, of x y z] vault_ok_sort [of C pass s'] by auto
qed

lemma file_set_cases:
  assumes "vault_ok C pass s"
  obtains (empty) "v = []" "file_set P C rnd ok a v s = (s, throw ''Credential secret cannot be empty'')"
  | (failed) s' e where "v \<noteq> []" "\<not> ok s" "file_set P C rnd ok a v s = (s', Inl e)" "fs_disk s' = fs_disk s"
      "map_of (fs_values s') = map_of (fs_values s)"
  | (written) s' where "v \<noteq> []" "ok s" "file_set P C rnd ok a v s = (s', Inr ())"
      "persist P C (rnd s) True (s\<lparr>fs_values := upsert a v (fs_values s)\<rparr>) = (s', Inr ())"
proof (cases "v = []")
  case True
  then show thesis by (intro empty) (simp_all add: file_set_def)
next
  case False
  show thesis
  proof (cases "ok s")
    case True
    obtain s' where "persist P C (rnd s) True (s\<lparr>fs_values := upsert a v (fs_values s)\<rparr>) = (s', Inr ())"
      using persist_ok by (metis surj_pair)
    with False True show thesis by (intro written [of s']) (simp_all add: file_set_def)
  next
    case no: False
    show thesis
    proof (cases "map_of (fs_values s) a")
      case None
      then show thesis using False no
        by (intro failed [of "s\<lparr>fs_values := filter (\<lambda>x. fst x \<noteq> a) (upsert a v (fs_values s))\<rparr>"]) (auto simp: file_set_def persist_failed map_of_filter_key map_of_upsert fun_eq_iff)
    next
      case (Some w)
      then show thesis using False no
        by (intro failed [of "s\<lparr>fs_values := upsert a w (upsert a v (fs_values s))\<rparr>"]) (auto simp: file_set_def persist_failed map_of_upsert fun_eq_iff)
    qed
  qed
qed

section \<open>Properties\<close>

text \<open>A vault file never loses a secret. A successful \<open>set\<close> is on the disk: the file opens with the same
  passphrase to the former values with the new one; a failed one leaves the file and every value as they were.\<close>

lemma vault_set_durable:
  assumes "aead_ok C" and "vault_ok C pass s"
  shows "case file_set P C rnd ok a v s of
      (s', Inl e) \<Rightarrow> fs_disk s' = fs_disk s \<and> map_of (fs_values s') = map_of (fs_values s)
    | (s', Inr u) \<Rightarrow> (\<exists>t. vault_open P C (fs_disk s') pass x y z = Inr t \<and>
        map_of (fs_values t) = (map_of (fs_values s))(a \<mapsto> v) \<and> vault_ok C pass t)"
  using assms(2)
proof (cases rule: file_set_cases [where a = a and v = v and P = P and rnd = rnd and ok = ok])
  case (written s')
  then have "vault_ok C pass (s\<lparr>fs_values := upsert a v (fs_values s)\<rparr>)" using vault_ok_upsert [OF assms(2)] by simp
  from written_reopens [OF assms(1) this written(4), of x y z] written(3) show ?thesis by (simp add: map_of_upsert)
qed simp_all

definition sample_vault :: file_store where
  "sample_vault = \<lparr>fs_salt = ''s'', fs_key = ''a long passphrase!s'', fs_values = [(''device-id'', ''D'')], fs_disk = None\<rparr>"

lemma sample_vault_ok: "vault_ok sample_crypto ''a long passphrase!'' sample_vault"
  by (simp add: vault_ok_def sample_vault_def sample_crypto_def)

text \<open>The secrets of a runtime are pairwise different and stay: loading them again from the vault, with
  whatever fresh random values, changes nothing and gives the same three.\<close>

lemma runtime_secrets_stable:
  assumes "loadOrCreateRuntimeSecrets (EncryptedFileCredentialStore P C rnd ok) r1 r2 r3 s = (s', Inr k)"
    and "16 \<le> length r1" and "16 \<le> length r2" and "16 \<le> length r3"
  shows "distinct [rs_database k, rs_ipc k, rs_vault k] \<and>
    loadOrCreateRuntimeSecrets (EncryptedFileCredentialStore P C rnd ok) q1 q2 q3 s' = (s', Inr k)"
  using assms by (rule vault.secrets_stable)

definition stored_vault :: file_store where
  "stored_vault = \<lparr>fs_salt = ''s'', fs_key = ''k'', fs_values = [(''database-passphrase'', ''0123456789abcdef''),
     (''ipc-secret'', ''0123456789abcdeg''), (''artifact-vault-key'', ''0123456789abcdeh'')], fs_disk = None\<rparr>"

end
