(* ===== verification/Checkpoint.thy ===== *)
theory Checkpoint
  imports Credentials
begin

text \<open>
  Signed checkpoints of the event chain (src/src/security/audit-checkpoint.ts) over the event store and a
  credential store: a chain of signed records whose last digest is retained outside the database. Key
  handling of \<open>node:crypto\<close> is the parameter \<open>keyring\<close>, random values are arguments. The state of an operation
  is the pair of the two stores.
\<close>

record keyring =
  kr_valid :: "string \<Rightarrow> bool"
  kr_public :: "string \<Rightarrow> string"

definition CHECKPOINT_GENESIS :: "platform \<Rightarrow> string" where
  "CHECKPOINT_GENESIS P = sha256 P ''vocation-os:checkpoint-chain:v1''"

definition unsigned_members :: "signed_checkpoint \<Rightarrow> (string \<times> json) list" where
  "unsigned_members c = [(''checkpointId'', JStr (ck_id c)), (''databaseId'', JStr (ck_database c)),
     (''schemaVersion'', JNum (ck_schema c)), (''eventCount'', JNum (ck_count c)), (''headHash'', JStr (ck_head c)),
     (''createdAt'', JStr (ck_created c)), (''deviceId'', JStr (ck_device c)), (''keyId'', JStr (ck_key c)),
     (''previousCheckpointDigest'', JStr (ck_previous c)), (''publicKeyPem'', JStr (ck_pem c))]"

definition signingPayload :: "platform \<Rightarrow> signed_checkpoint \<Rightarrow> string" where
  "signingPayload P c = stable_stringify (coll_key P) (JObj (unsigned_members c))"

definition checkpointDigest :: "platform \<Rightarrow> signed_checkpoint \<Rightarrow> string" where
  "checkpointDigest P c = hash_json P (JObj (unsigned_members c @ [(''signature'', JStr (ck_signature c))]))"

definition loadOrCreatePrivateKey :: "keyring \<Rightarrow> 's credential_ops \<Rightarrow> string \<Rightarrow> ('s, string) action" where
  "loadOrCreatePrivateKey K ops created = bindS (readS (\<lambda>s. cs_get ops s ''checkpoint-private-key'')) (\<lambda>existing.
     let create = bindS (cs_set ops ''checkpoint-private-key'' created) (\<lambda>_.
       bindS (readS (\<lambda>s. cs_get ops s ''checkpoint-private-key'')) (\<lambda>verified.
       if verified \<noteq> Some created then liftS (throw ''Checkpoint private key failed read after write verification'')
       else liftS (Inr created))) in
     case existing of None \<Rightarrow> create | Some k \<Rightarrow> if k = [] then create
       else if kr_valid K k then liftS (Inr k)
       else liftS (throw ''Checkpoint private key in the credential store is invalid''))"

definition device_id_ok :: "string \<Rightarrow> bool" where
  "device_id_ok s = (starts_with ''DEV-'' s \<and> length (drop 4 s) = 36 \<and> list_all (\<lambda>c. is_hex c \<or> c = CHR ''-'') (drop 4 s))"

definition loadOrCreateDeviceId :: "'s credential_ops \<Rightarrow> string \<Rightarrow> ('s, string) action" where
  "loadOrCreateDeviceId ops uuid = bindS (readS (\<lambda>s. cs_get ops s ''device-id'')) (\<lambda>existing.
     let create = bindS (cs_set ops ''device-id'' (''DEV-'' @ uuid)) (\<lambda>_.
       bindS (readS (\<lambda>s. cs_get ops s ''device-id'')) (\<lambda>verified.
       if verified \<noteq> Some (''DEV-'' @ uuid) then liftS (throw ''Device id failed read after write verification'')
       else liftS (Inr (''DEV-'' @ uuid)))) in
     case existing of None \<Rightarrow> create | Some d \<Rightarrow> if d = [] then create
       else if device_id_ok d then liftS (Inr d)
       else liftS (throw ''Credential store device id is invalid''))"

section \<open>Verification\<close>

text \<open>The loop: the digest the next record has to name, and the event count it may not fall below. It
  returns the digest of the last record.\<close>

fun verify_checkpoints :: "platform \<Rightarrow> string \<Rightarrow> int \<Rightarrow> signed_checkpoint list \<Rightarrow> string result" where
  "verify_checkpoints P expected least [] = Inr expected"
| "verify_checkpoints P expected least (c # cs) = (
     if ck_previous c \<noteq> expected then throw (''Checkpoint chain is broken at '' @ ck_id c)
     else if ck_count c < least then throw (''Checkpoint event count regressed at '' @ ck_id c)
     else case ed25519_verify P (ck_pem c) (signingPayload P c) (ck_signature c) of
       None \<Rightarrow> throw ''Checkpoint public key or signature cannot be decoded''
     | Some ok \<Rightarrow> if \<not> ok then throw (''Checkpoint signature is invalid at '' @ ck_id c)
         else verify_checkpoints P (checkpointDigest P c) (ck_count c) cs)"

record checkpoint_verification =
  cv_count :: nat
  cv_latest :: "string option"

definition verifyCheckpointRecords :: "platform \<Rightarrow> crypto \<Rightarrow> store \<Rightarrow> checkpoint_verification result" where
  "verifyCheckpointRecords P C st = (let cs = listSignedCheckpoints st in
     bindE (verify_checkpoints P (CHECKPOINT_GENESIS P) (-1) cs) (\<lambda>d.
     let result = Inr \<lparr>cv_count = length cs, cv_latest = (if cs = [] then None else Some d)\<rparr> in
     bindE (chainHead C st) (\<lambda>head. case last_opt cs of
       None \<Rightarrow> result
     | Some latest \<Rightarrow> bindE (databaseId st) (\<lambda>db.
         if ck_database latest \<noteq> db \<or> ck_count latest > ch_count head \<or>
            (ck_count latest = ch_count head \<and> ck_head latest \<noteq> ch_hash head)
         then throw ''Latest signed checkpoint is incompatible with the current event chain''
         else result))))"

definition verifyCheckpointChain ::
  "platform \<Rightarrow> crypto \<Rightarrow> 's credential_ops \<Rightarrow> store \<times> 's \<Rightarrow> checkpoint_verification result" where
  "verifyCheckpointChain P C ops w = bindE (verifyCheckpointRecords P C (fst w)) (\<lambda>records.
     bindE (cs_get ops (snd w) ''latest-checkpoint-digest'') (\<lambda>external.
     if external \<noteq> cv_latest records
     then throw ''Database checkpoint does not match the latest digest retained in the credential store''
     else Inr records))"

section \<open>Creation\<close>

definition on_credentials :: "('s, 'a) action \<Rightarrow> (store \<times> 's, 'a) action" where
  "on_credentials m w = (case m (snd w) of (s, r) \<Rightarrow> ((fst w, s), r))"

definition save_checkpoint :: "signed_checkpoint \<Rightarrow> (store \<times> 's, unit) action" where
  "save_checkpoint c w = (case saveSignedCheckpoint (fst w) c of Inl e \<Rightarrow> (w, Inl e) | Inr st \<Rightarrow> ((st, snd w), Inr ()))"

definition unsigned_checkpoint ::
  "platform \<Rightarrow> keyring \<Rightarrow> string \<Rightarrow> string \<Rightarrow> int \<Rightarrow> chain_head \<Rightarrow> int \<Rightarrow> string \<Rightarrow> signed_checkpoint option \<Rightarrow> string \<Rightarrow> signed_checkpoint" where
  "unsigned_checkpoint P K cid db schema head now device previous private = (let pem = kr_public K private in
     \<lparr>ck_id = cid, ck_database = db, ck_schema = schema, ck_count = ch_count head, ck_head = ch_hash head,
      ck_created = to_iso now, ck_device = device, ck_key = ''KEY-'' @ take 24 (drop 7 (sha256 P pem)),
      ck_previous = (case previous of None \<Rightarrow> CHECKPOINT_GENESIS P | Some c \<Rightarrow> checkpointDigest P c),
      ck_pem = pem, ck_signature = []\<rparr>)"

definition sign_checkpoint :: "platform \<Rightarrow> string \<Rightarrow> signed_checkpoint \<Rightarrow> signed_checkpoint" where
  "sign_checkpoint P private c = c\<lparr>ck_signature := ed25519_sign P private (signingPayload P c)\<rparr>"

definition createSignedCheckpoint ::
  "platform \<Rightarrow> crypto \<Rightarrow> keyring \<Rightarrow> 's credential_ops \<Rightarrow> int \<Rightarrow> string \<Rightarrow> string \<Rightarrow> string \<Rightarrow> (store \<times> 's, signed_checkpoint) action" where
  "createSignedCheckpoint P C K ops now cid new_key uuid =
     bindS (readS (verifyCheckpointChain P C ops)) (\<lambda>_.
     bindS (readS (\<lambda>w. Inr (listSignedCheckpoints (fst w)))) (\<lambda>existing.
     case find (\<lambda>c. ck_id c = cid) existing of Some replay \<Rightarrow> liftS (Inr replay) | None \<Rightarrow>
     bindS (readS (\<lambda>w. chainHead C (fst w))) (\<lambda>head.
     let previous = last_opt existing in
     if (case previous of None \<Rightarrow> False | Some p \<Rightarrow> ck_count p = ch_count head \<and> ck_head p = ch_hash head)
     then liftS (throw ''Checkpoint requires event chain advancement'')
     else bindS (on_credentials (loadOrCreatePrivateKey K ops new_key)) (\<lambda>private.
     bindS (readS (\<lambda>w. databaseId (fst w))) (\<lambda>db.
     bindS (readS (\<lambda>w. Inr (case last_opt (st_migrations (fst w)) of None \<Rightarrow> 0 | Some v \<Rightarrow> v))) (\<lambda>schema.
     bindS (on_credentials (loadOrCreateDeviceId ops uuid)) (\<lambda>device.
     if schema < 1 then liftS (throw ''Cannot checkpoint a store without a migration version'')
     else let c = sign_checkpoint P private (unsigned_checkpoint P K cid db schema head now device previous private) in
     bindS (save_checkpoint c) (\<lambda>_.
     bindS (on_credentials (cs_set ops ''latest-checkpoint-digest'' (checkpointDigest P c))) (\<lambda>_.
     bindS (readS (verifyCheckpointChain P C ops)) (\<lambda>_.
     liftS (Inr c)))))))))))"

section \<open>The retained digest pins the chain\<close>

lemma checkpoint_members_inj:
  assumes "canon ck (JObj (unsigned_members a @ [(''signature'', JStr (ck_signature a))])) =
    canon ck (JObj (unsigned_members b @ [(''signature'', JStr (ck_signature b))]))"
  shows "a = b"
proof -
  have "list_all2 (\<lambda>e f. canon ck (snd e) = canon ck (snd f)) (unsigned_members a @ [(''signature'', JStr (ck_signature a))])
      (unsigned_members b @ [(''signature'', JStr (ck_signature b))])"
    using assms by (rule canon_obj_eq) (simp_all add: unsigned_members_def)
  then show ?thesis by (simp add: unsigned_members_def signed_checkpoint.equality)
qed

lemma checkpoint_digest_binds:
  assumes "checkpointDigest P a = checkpointDigest P b"
  shows "a = b \<or> (\<exists>x y. sha_collision P x y)"
proof -
  have s: "array_safe (JObj (unsigned_members c @ [(''signature'', JStr (ck_signature c))]))" for c
    by (simp add: unsigned_members_def)
  from hash_json_eq [OF assms [unfolded checkpointDigest_def] s _ s] show ?thesis
  proof (rule disjE)
    assume "canon (coll_key P) (JObj (unsigned_members a @ [(''signature'', JStr (ck_signature a))])) =
      canon (coll_key P) (JObj (unsigned_members b @ [(''signature'', JStr (ck_signature b))]))"
    then show ?thesis using checkpoint_members_inj by blast
  qed blast+
qed

lemma checkpoint_not_genesis: "checkpointDigest P a = CHECKPOINT_GENESIS P \<Longrightarrow> \<exists>x y. sha_collision P x y"
proof -
  let ?t = "stable_stringify (coll_key P) (JObj (unsigned_members a @ [(''signature'', JStr (ck_signature a))]))"
  have "hd ?t \<noteq> CHR ''v''" by simp
  then have "?t \<noteq> ''vocation-os:checkpoint-chain:v1''" by (metis list.sel(1))
  then show "checkpointDigest P a = CHECKPOINT_GENESIS P \<Longrightarrow> \<exists>x y. sha_collision P x y"
    using sha256_eq unfolding checkpointDigest_def CHECKPOINT_GENESIS_def by blast
qed

lemma verify_snoc:
  "verify_checkpoints P e n (cs @ [c]) = Inr d \<longleftrightarrow> verify_checkpoints P e n cs = Inr (ck_previous c) \<and>
     (case last_opt cs of None \<Rightarrow> n | Some p \<Rightarrow> ck_count p) \<le> ck_count c \<and>
     ed25519_verify P (ck_pem c) (signingPayload P c) (ck_signature c) = Some True \<and> d = checkpointDigest P c"
proof (induction cs arbitrary: e n)
  case Nil
  show ?case by (auto split: option.splits if_splits)
next
  case (Cons b cs)
  have "last_opt (b # cs) = Some (case last_opt cs of None \<Rightarrow> b | Some p \<Rightarrow> p)"
    by (cases cs rule: rev_cases) (auto simp: last_opt_def)
  with Cons show ?case by (auto split: option.splits if_splits)
qed

lemma chain_pinned:
  assumes "verify_checkpoints P (CHECKPOINT_GENESIS P) n cs = Inr d" and "verify_checkpoints P (CHECKPOINT_GENESIS P) m bs = Inr d"
  shows "cs = bs \<or> (\<exists>x y. sha_collision P x y)"
  using assms
proof (induction cs arbitrary: bs d rule: rev_induct)
  case Nil
  show ?case
  proof (cases bs rule: rev_cases)
    case (snoc bs' b)
    then have "checkpointDigest P b = CHECKPOINT_GENESIS P" using Nil by (simp add: verify_snoc)
    then show ?thesis using checkpoint_not_genesis by blast
  qed simp
next
  case (snoc c cs)
  show ?case
  proof (cases bs rule: rev_cases)
    case Nil
    then have "checkpointDigest P c = CHECKPOINT_GENESIS P" using snoc.prems by (simp add: verify_snoc)
    then show ?thesis using checkpoint_not_genesis by blast
  next
    case bs: (snoc bs' b)
    have c: "verify_checkpoints P (CHECKPOINT_GENESIS P) n cs = Inr (ck_previous c)" "d = checkpointDigest P c"
      using snoc.prems(1) by (auto simp: verify_snoc)
    have b: "verify_checkpoints P (CHECKPOINT_GENESIS P) m bs' = Inr (ck_previous b)" "d = checkpointDigest P b"
      using snoc.prems(2) bs by (auto simp: verify_snoc)
    from checkpoint_digest_binds [of P c b] c(2) b(2) show ?thesis using snoc.IH [OF c(1)] b(1) bs by auto
  qed
qed

lemma verified_chain:
  assumes "verifyCheckpointChain P C ops (st, s) = Inr r"
  obtains d h where "verify_checkpoints P (CHECKPOINT_GENESIS P) (-1) (listSignedCheckpoints st) = Inr d" "chainHead C st = Inr h"
    "r = \<lparr>cv_count = length (listSignedCheckpoints st), cv_latest = (if listSignedCheckpoints st = [] then None else Some d)\<rparr>"
    "cs_get ops s ''latest-checkpoint-digest'' = Inr (cv_latest r)"
    "case last_opt (listSignedCheckpoints st) of None \<Rightarrow> True | Some c \<Rightarrow> databaseId st = Inr (ck_database c) \<and>
       ck_count c \<le> ch_count h \<and> (ck_count c = ch_count h \<longrightarrow> ck_head c = ch_hash h)"
  using assms by (fastforce simp: verifyCheckpointChain_def verifyCheckpointRecords_def Let_def split: option.splits if_splits)

lemma verified_digest:
  assumes "verify_checkpoints P (CHECKPOINT_GENESIS P) n cs = Inr d" and "verify_checkpoints P (CHECKPOINT_GENESIS P) n bs = Inr e"
    and "(if cs = [] then None else Some d) = (if bs = [] then None else Some e)"
  shows "d = e"
  using assms by (auto split: if_splits)

section \<open>The next checkpoint\<close>

lemma sort_key_append_max:
  assumes "\<forall>x \<in> set xs. f x < f c"
  shows "sort_key f (sort_key g (xs @ [c])) = sort_key f (sort_key g xs) @ [c]"
proof (rule properties_for_sort_key)
  show "mset (sort_key f (sort_key g xs) @ [c]) = mset (sort_key g (xs @ [c]))" by simp
  show "sorted (map f (sort_key f (sort_key g xs) @ [c]))" using assms by (auto simp: sorted_append intro: less_imp_le)
  show "filter (\<lambda>x. f k = f x) (sort_key f (sort_key g xs) @ [c]) = filter (\<lambda>x. f k = f x) (sort_key g (xs @ [c]))"
    if "k \<in> set (sort_key f (sort_key g xs) @ [c])" for k
  proof (cases "f k = f c")
    case True
    then have "filter (\<lambda>x. f k = f x) xs = []" using assms by (auto simp: filter_empty_conv)
    then show ?thesis using True by (simp add: filter_sort)
  next
    case False
    then have "filter (\<lambda>x. f k = f x) (xs @ [c]) = filter (\<lambda>x. f k = f x) xs" by simp
    then have "filter (\<lambda>x. f k = f x) (sort_key g (xs @ [c])) = filter (\<lambda>x. f k = f x) (sort_key g xs)"
      unfolding filter_sort by (rule arg_cong)
    moreover have same: "sort_key f (filter (\<lambda>x. f k = f x) ys) = filter (\<lambda>x. f k = f x) ys" for ys
    proof (rule sort_key_id_if_sorted)
      have "map f (filter (\<lambda>x. f k = f x) ys) = replicate (length (filter (\<lambda>x. f k = f x) ys)) (f k)"
        by (induction ys) auto
      then show "sorted (map f (filter (\<lambda>x. f k = f x) ys))" by (simp only: sorted_replicate)
    qed
    moreover have "filter (\<lambda>x. f k = f x) (sort_key f (sort_key g xs)) = filter (\<lambda>x. f k = f x) (sort_key g xs)"
      by (subst filter_sort) (rule same)
    ultimately show ?thesis using False by simp
  qed
qed

text \<open>A credential store whose operations do not fail.\<close>

locale reliable_store = credential_store +
  assumes set_total: "v \<noteq> [] \<Longrightarrow> \<exists>s'. cs_set ops a v s = (s', Inr ())"
    and get_total: "\<exists>r. cs_get ops s a = Inr r"
begin

lemma key_loaded:
  assumes "cs_get ops s ''checkpoint-private-key'' = Inr k0" and "case k0 of None \<Rightarrow> True | Some k \<Rightarrow> k = [] \<or> kr_valid K k"
    and "created \<noteq> []" and "kr_valid K created"
  obtains s' k where "loadOrCreatePrivateKey K ops created s = (s', Inr k)" "kr_valid K k"
    "\<forall>a r. a \<noteq> ''checkpoint-private-key'' \<longrightarrow> cs_get ops s a = Inr r \<longrightarrow> cs_get ops s' a = Inr r"
proof (cases "\<exists>k. k0 = Some k \<and> k \<noteq> []")
  case True
  then obtain k where "k0 = Some k" "k \<noteq> []" by blast
  with assms show thesis
    by (intro that [of s k]) (simp_all add: loadOrCreatePrivateKey_def bindS_def readS_def liftS_def Let_def)
next
  case False
  obtain s' where s': "cs_set ops ''checkpoint-private-key'' created s = (s', Inr ())" using set_total [OF assms(3)] by blast
  have "loadOrCreatePrivateKey K ops created s = (s', Inr created)"
    using False assms(1) get_set [OF s']
    by (cases k0) (simp_all add: loadOrCreatePrivateKey_def bindS_def readS_def liftS_def Let_def s')
  then show thesis
  proof (rule that)
    show "kr_valid K created" by (rule assms(4))
    show "\<forall>a r. a \<noteq> ''checkpoint-private-key'' \<longrightarrow> cs_get ops s a = Inr r \<longrightarrow> cs_get ops s' a = Inr r"
      by (intro allI impI) (rule get_set_other [OF s' not_sym])
  qed
qed

lemma device_loaded:
  assumes "cs_get ops s ''device-id'' = Inr d0" and "case d0 of None \<Rightarrow> True | Some d \<Rightarrow> d = [] \<or> device_id_ok d"
  obtains s' d where "loadOrCreateDeviceId ops uuid s = (s', Inr d)"
    "\<forall>a r. a \<noteq> ''device-id'' \<longrightarrow> cs_get ops s a = Inr r \<longrightarrow> cs_get ops s' a = Inr r"
proof (cases "\<exists>d. d0 = Some d \<and> d \<noteq> []")
  case True
  then obtain d where "d0 = Some d" "d \<noteq> []" by blast
  with assms show thesis
    by (intro that [of s d]) (simp_all add: loadOrCreateDeviceId_def bindS_def readS_def liftS_def Let_def)
next
  case False
  have "''DEV-'' @ uuid \<noteq> []" by simp
  then obtain s' where s': "cs_set ops ''device-id'' (''DEV-'' @ uuid) s = (s', Inr ())" using set_total by blast
  have "loadOrCreateDeviceId ops uuid s = (s', Inr (''DEV-'' @ uuid))"
    using False assms(1) get_set [OF s'] s'
    by (cases d0) (simp_all add: loadOrCreateDeviceId_def bindS_def readS_def liftS_def Let_def)
  then show thesis
  proof (rule that)
    show "\<forall>a r. a \<noteq> ''device-id'' \<longrightarrow> cs_get ops s a = Inr r \<longrightarrow> cs_get ops s' a = Inr r"
      by (intro allI impI) (rule get_set_other [OF s' not_sym])
  qed
qed

lemma checkpoint_created:
  assumes ver: "verifyCheckpointChain P C ops (st, s) = Inr r" and fresh: "cid \<notin> ck_id ` set (st_checkpoints st)"
    and head: "chainHead C st = Inr h" and old: "\<forall>c \<in> set (st_checkpoints st). ck_count c < ch_count h" and "0 \<le> ch_count h"
    and db: "databaseId st = Inr db" and mig: "last_opt (st_migrations st) = Some v" "1 \<le> v"
    and new: "new_key \<noteq> []" "kr_valid K new_key"
    and key: "case cs_get ops s ''checkpoint-private-key'' of Inr (Some k) \<Rightarrow> k = [] \<or> kr_valid K k | _ \<Rightarrow> True"
    and device: "case cs_get ops s ''device-id'' of Inr (Some d) \<Rightarrow> d = [] \<or> device_id_ok d | _ \<Rightarrow> True"
    and signs: "\<And>k m. kr_valid K k \<Longrightarrow> ed25519_verify P (kr_public K k) m (ed25519_sign P k m) = Some True"
  shows "\<exists>c s'. createSignedCheckpoint P C K ops now cid new_key uuid (st, s) =
      ((st\<lparr>st_checkpoints := st_checkpoints st @ [c]\<rparr>, s'), Inr c) \<and>
    ck_count c = ch_count h \<and> ck_head c = ch_hash h \<and> ck_database c = db \<and> ck_id c = cid"
proof -
  let ?cs = "listSignedCheckpoints st"
  from ver obtain d where ch: "verify_checkpoints P (CHECKPOINT_GENESIS P) (-1) ?cs = Inr d"
    "r = \<lparr>cv_count = length ?cs, cv_latest = (if ?cs = [] then None else Some d)\<rparr>"
    "cs_get ops s ''latest-checkpoint-digest'' = Inr (cv_latest r)"
    by (rule verified_chain)
  have mem: "set ?cs = set (st_checkpoints st)" by (simp add: listSignedCheckpoints_def)
  obtain k0 where k0: "cs_get ops s ''checkpoint-private-key'' = Inr k0" using get_total by blast
  obtain d0 where d0: "cs_get ops s ''device-id'' = Inr d0" using get_total by blast
  obtain s1 k where s1: "loadOrCreatePrivateKey K ops new_key s = (s1, Inr k)" "kr_valid K k"
    "\<forall>a r. a \<noteq> ''checkpoint-private-key'' \<longrightarrow> cs_get ops s a = Inr r \<longrightarrow> cs_get ops s1 a = Inr r"
    using key_loaded [OF k0 _ new] key k0 by (auto split: option.splits)
  have "cs_get ops s1 ''device-id'' = Inr d0" using s1(3) d0 by simp
  moreover have "case d0 of None \<Rightarrow> True | Some d \<Rightarrow> d = [] \<or> device_id_ok d" using device d0 by simp
  ultimately obtain s2 dev where s2: "loadOrCreateDeviceId ops uuid s1 = (s2, Inr dev)" by (rule device_loaded)
  define c where "c = sign_checkpoint P k (unsigned_checkpoint P K cid db v h now dev (last_opt ?cs) k)"
  have c: "ck_id c = cid" "ck_count c = ch_count h" "ck_head c = ch_hash h" "ck_database c = db" "ck_pem c = kr_public K k"
    "ck_previous c = (case last_opt ?cs of None \<Rightarrow> CHECKPOINT_GENESIS P | Some p \<Rightarrow> checkpointDigest P p)"
    "ck_signature c = ed25519_sign P k (signingPayload P c)"
    by (simp_all add: c_def sign_checkpoint_def unsigned_checkpoint_def Let_def signingPayload_def unsigned_members_def)
  let ?st = "st\<lparr>st_checkpoints := st_checkpoints st @ [c]\<rparr>"
  have save: "saveSignedCheckpoint st c = Inr ?st"
    using fresh old c(1,2) by (auto simp: saveSignedCheckpoint_def image_iff)
  obtain s3 where s3: "cs_set ops ''latest-checkpoint-digest'' (checkpointDigest P c) s2 = (s3, Inr ())"
    using set_total [of "checkpointDigest P c"] by (auto simp: checkpointDigest_def sha256_def)
  have list: "listSignedCheckpoints ?st = ?cs @ [c]"
    unfolding listSignedCheckpoints_def using old c(2) by (simp add: sort_key_append_max)
  have prev: "ck_previous c = d" using ch(1) c(6)
    by (cases ?cs rule: rev_cases) (auto simp: verify_snoc)
  have below: "(case last_opt ?cs of None \<Rightarrow> -1 | Some p \<Rightarrow> ck_count p) \<le> ck_count c"
    using old mem c(2) assms(5) by (cases ?cs rule: rev_cases) (auto intro: less_imp_le)
  have ok: "verify_checkpoints P (CHECKPOINT_GENESIS P) (-1) (?cs @ [c]) = Inr (checkpointDigest P c)"
    using ch(1) prev below c(5,7) signs [OF s1(2)] by (simp add: verify_snoc)
  have "chainHead C ?st = Inr h" using head by (simp add: chainHead_def split: option.splits)
  moreover have "databaseId ?st = Inr db" using db by (simp add: databaseId_def split: option.splits)
  ultimately have "verifyCheckpointRecords P C ?st = Inr \<lparr>cv_count = Suc (length ?cs), cv_latest = Some (checkpointDigest P c)\<rparr>"
    using ok c(2,3,4) by (simp add: verifyCheckpointRecords_def Let_def list)
  then have final: "verifyCheckpointChain P C ops (?st, s3) = Inr \<lparr>cv_count = Suc (length ?cs), cv_latest = Some (checkpointDigest P c)\<rparr>"
    using get_set [OF s3] by (simp add: verifyCheckpointChain_def)
  have none: "find (\<lambda>c. ck_id c = cid) ?cs = None" using fresh mem by (auto simp: find_None_none)
  have adv: "\<not> (case last_opt ?cs of None \<Rightarrow> False | Some p \<Rightarrow> ck_count p = ch_count h \<and> ck_head p = ch_hash h)"
  proof (cases ?cs rule: rev_cases)
    case (snoc ys y)
    then have "y \<in> set (st_checkpoints st)" using mem by auto
    with old snoc show ?thesis by auto
  qed simp
  have "createSignedCheckpoint P C K ops now cid new_key uuid (st, s) = ((?st, s3), Inr c)"
    using adv mig(2)
    by (simp add: createSignedCheckpoint_def bindS_def readS_def ver none head Let_def on_credentials_def s1(1) db mig(1) s2
        c_def [symmetric] save_checkpoint_def save s3 final liftS_def)
  then show ?thesis using c by blast
qed

end

interpretation reliable_memory: reliable_store MemoryCredentialStore
  by unfold_locales (auto simp: MemoryCredentialStore_def memory_set_def)

interpretation reliable_vault: reliable_store "EncryptedFileCredentialStore P C rnd (\<lambda>_. True)"
  by unfold_locales (auto simp: EncryptedFileCredentialStore_def file_set_def persist_def Let_def)

section \<open>Properties\<close>

text \<open>C16: A retained digest pins the checkpoint chain. Two databases that verify against one credential store
  hold the same signed checkpoints, or exhibit a SHA-256 collision: dropping the last checkpoint, or
  restoring a database from before it, is refused.\<close>

theorem retained_digest_pins_checkpoints:
  assumes "verifyCheckpointChain P C ops (st, s) = Inr r" and "verifyCheckpointChain P D ops (st', s) = Inr r'"
  shows "listSignedCheckpoints st = listSignedCheckpoints st' \<or> (\<exists>x y. sha_collision P x y)"
proof -
  obtain d where d: "verify_checkpoints P (CHECKPOINT_GENESIS P) (-1) (listSignedCheckpoints st) = Inr d"
    "r = \<lparr>cv_count = length (listSignedCheckpoints st), cv_latest = (if listSignedCheckpoints st = [] then None else Some d)\<rparr>"
    "cs_get ops s ''latest-checkpoint-digest'' = Inr (cv_latest r)"
    using assms(1) by (rule verified_chain)
  obtain e where e: "verify_checkpoints P (CHECKPOINT_GENESIS P) (-1) (listSignedCheckpoints st') = Inr e"
    "r' = \<lparr>cv_count = length (listSignedCheckpoints st'), cv_latest = (if listSignedCheckpoints st' = [] then None else Some e)\<rparr>"
    "cs_get ops s ''latest-checkpoint-digest'' = Inr (cv_latest r')"
    using assms(2) by (rule verified_chain)
  have "d = e" using d(3) e(3) unfolding d(2) e(2) by (intro verified_digest [OF d(1) e(1)]) simp
  with d(1) e(1) show ?thesis using chain_pinned by blast
qed

text \<open>No verified database is behind its last checkpoint: its authenticated head counts at least the
  checkpointed events, with the checkpointed digest when the counts are equal, and the checkpoint names it.\<close>

lemma checkpoint_never_ahead:
  assumes "verifyCheckpointChain P C ops (st, s) = Inr r" and "last_opt (listSignedCheckpoints st) = Some c"
  shows "\<exists>h. chainHead C st = Inr h \<and> databaseId st = Inr (ck_database c) \<and> ck_count c \<le> ch_count h \<and>
    (ck_count c \<noteq> ch_count h \<or> ck_head c = ch_hash h) \<and> cv_latest r = Some (checkpointDigest P c) \<and>
    cs_get ops s ''latest-checkpoint-digest'' = Inr (Some (checkpointDigest P c))"
proof -
  obtain d h where d: "verify_checkpoints P (CHECKPOINT_GENESIS P) (-1) (listSignedCheckpoints st) = Inr d" "chainHead C st = Inr h"
    "r = \<lparr>cv_count = length (listSignedCheckpoints st), cv_latest = (if listSignedCheckpoints st = [] then None else Some d)\<rparr>"
    "cs_get ops s ''latest-checkpoint-digest'' = Inr (cv_latest r)"
    "case last_opt (listSignedCheckpoints st) of None \<Rightarrow> True | Some c \<Rightarrow> databaseId st = Inr (ck_database c) \<and>
       ck_count c \<le> ch_count h \<and> (ck_count c = ch_count h \<longrightarrow> ck_head c = ch_hash h)"
    using assms(1) by (rule verified_chain)
  obtain cs where cs: "listSignedCheckpoints st = cs @ [c]" using assms(2) by (auto simp: last_opt_Some_iff)
  then have "d = checkpointDigest P c" using d(1) by (simp add: verify_snoc)
  with d cs show ?thesis by auto
qed

text \<open>A checkpoint can be made whenever there is something to checkpoint. On a verified database with
  events beyond the last checkpoint, a migration version and usable keys, creation succeeds: it appends
  one checkpoint of the current head, retains its digest, and the chain verifies again.\<close>

lemma checkpoint_creation_succeeds:
  assumes "verifyCheckpointChain P C (EncryptedFileCredentialStore Q D rnd (\<lambda>_. True)) (st, s) = Inr r"
    and "cid \<notin> ck_id ` set (st_checkpoints st)"
    and "chainHead C st = Inr h" and "\<forall>c \<in> set (st_checkpoints st). ck_count c < ch_count h" and "0 \<le> ch_count h"
    and "databaseId st = Inr db" and "last_opt (st_migrations st) = Some v" and "1 \<le> v"
    and "new_key \<noteq> []" and "kr_valid K new_key"
    and "case map_of (fs_values s) ''checkpoint-private-key'' of Some k \<Rightarrow> k = [] \<or> kr_valid K k | _ \<Rightarrow> True"
    and "case map_of (fs_values s) ''device-id'' of Some d \<Rightarrow> d = [] \<or> device_id_ok d | _ \<Rightarrow> True"
    and "\<And>k m. kr_valid K k \<Longrightarrow> ed25519_verify P (kr_public K k) m (ed25519_sign P k m) = Some True"
  shows "\<exists>c s'. createSignedCheckpoint P C K (EncryptedFileCredentialStore Q D rnd (\<lambda>_. True)) now cid new_key uuid (st, s) =
      ((st\<lparr>st_checkpoints := st_checkpoints st @ [c]\<rparr>, s'), Inr c) \<and>
    ck_count c = ch_count h \<and> ck_head c = ch_hash h \<and> ck_database c = db \<and> ck_id c = cid"
proof (rule reliable_vault.checkpoint_created [OF assms(1-10) _ _ assms(13)])
  have g: "cs_get (EncryptedFileCredentialStore Q D rnd (\<lambda>_. True)) s a = Inr (map_of (fs_values s) a)" for a
    by (simp add: EncryptedFileCredentialStore_def)
  show "case cs_get (EncryptedFileCredentialStore Q D rnd (\<lambda>_. True)) s ''checkpoint-private-key'' of
      Inr (Some k) \<Rightarrow> k = [] \<or> kr_valid K k | _ \<Rightarrow> True"
    unfolding g using assms(11) by (simp split: option.splits)
  show "case cs_get (EncryptedFileCredentialStore Q D rnd (\<lambda>_. True)) s ''device-id'' of
      Inr (Some d) \<Rightarrow> d = [] \<or> device_id_ok d | _ \<Rightarrow> True"
    unfolding g using assms(12) by (simp split: option.splits)
qed

section \<open>Witnesses\<close>

lemma created_verifies:
  assumes "createSignedCheckpoint P C K ops now cid new_key uuid w = (w', Inr c)"
  shows "\<exists>r. verifyCheckpointChain P C ops w' = Inr r"
  using assms by (auto simp: createSignedCheckpoint_def bindS_Inr_iff Let_def split: option.splits if_splits)

definition sample_keyring :: keyring where
  "sample_keyring = \<lparr>kr_valid = (\<lambda>_. True), kr_public = (\<lambda>k. k)\<rparr>"

definition sample_uuid :: string where
  "sample_uuid = ''123e4567-e89b-12d3-a456-426614174000''"

definition checkpoint_store :: store where
  "checkpoint_store = sample_store\<lparr>st_metadata := (st_metadata sample_store)(''database_id'' \<mapsto> ''DB-'' @ sample_uuid)\<rparr>"

abbreviation sample_ops :: "file_store credential_ops" where
  "sample_ops \<equiv> EncryptedFileCredentialStore digest_platform sample_crypto (\<lambda>_. ''n'') (\<lambda>_. True)"

lemma checkpoint_store_facts:
  "chainHead sample_crypto checkpoint_store = Inr \<lparr>ch_count = 0, ch_hash = GENESIS_HASH digest_platform\<rparr>"
  "databaseId checkpoint_store = Inr (''DB-'' @ sample_uuid)"
  "st_checkpoints checkpoint_store = []" "st_migrations checkpoint_store = [1]"
proof -
  have "chainHead sample_crypto sample_store = Inr \<lparr>ch_count = 0, ch_hash = GENESIS_HASH digest_platform\<rparr>"
    using sample_store_read by (auto simp: readAll_iff chainHead_def) (simp_all add: sample_store_def last_hash_def last_opt_def)
  then show "chainHead sample_crypto checkpoint_store = Inr \<lparr>ch_count = 0, ch_hash = GENESIS_HASH digest_platform\<rparr>"
    by (simp add: chainHead_def checkpoint_store_def split: option.splits)
  have "database_id_ok (''DB-'' @ sample_uuid)" by code_simp
  then show "databaseId checkpoint_store = Inr (''DB-'' @ sample_uuid)"
    by (simp add: databaseId_def checkpoint_store_def)
qed (simp_all add: checkpoint_store_def sample_store_def)

lemma checkpoint_store_verifies: "verifyCheckpointChain digest_platform sample_crypto sample_ops (checkpoint_store, sample_vault) =
    Inr \<lparr>cv_count = 0, cv_latest = None\<rparr>"
  by (simp add: verifyCheckpointChain_def verifyCheckpointRecords_def listSignedCheckpoints_def checkpoint_store_facts Let_def
      EncryptedFileCredentialStore_def sample_vault_def)

lemma sample_signs: "ed25519_verify digest_platform (kr_public sample_keyring k) m (ed25519_sign digest_platform k m) = Some True"
  by (simp add: digest_platform_def sample_platform_def sample_keyring_def)

lemma sample_device: "device_id_ok (''DEV-'' @ sample_uuid)"
  by code_simp

definition device_vault :: file_store where
  "device_vault = sample_vault\<lparr>fs_values := [(''device-id'', ''DEV-'' @ sample_uuid)]\<rparr>"

lemma device_store_verifies: "verifyCheckpointChain digest_platform sample_crypto sample_ops (checkpoint_store, device_vault) =
    Inr \<lparr>cv_count = 0, cv_latest = None\<rparr>"
  by (simp add: verifyCheckpointChain_def verifyCheckpointRecords_def listSignedCheckpoints_def checkpoint_store_facts Let_def
      EncryptedFileCredentialStore_def device_vault_def)

lemma device_vault_facts:
  "map_of (fs_values device_vault) ''checkpoint-private-key'' = None"
  "map_of (fs_values device_vault) ''device-id'' = Some (''DEV-'' @ sample_uuid)"
  "cs_get sample_ops device_vault a = Inr (map_of (fs_values device_vault) a)"
  "kr_valid sample_keyring k" "last_opt [1 :: int] = Some 1"
  by (simp_all add: device_vault_def EncryptedFileCredentialStore_def sample_keyring_def last_opt_def)

lemma sample_checkpoint_made:
  "\<exists>c s'. createSignedCheckpoint digest_platform sample_crypto sample_keyring sample_ops now ''CHK-1'' ''key'' uuid (checkpoint_store, device_vault) =
      ((checkpoint_store\<lparr>st_checkpoints := [c]\<rparr>, s'), Inr c)"
  using reliable_vault.checkpoint_created [OF device_store_verifies, where K = sample_keyring and cid = "''CHK-1''" and new_key = "''key''"
      and h = "\<lparr>ch_count = 0, ch_hash = GENESIS_HASH digest_platform\<rparr>" and db = "''DB-'' @ sample_uuid" and v = 1 and now = now and uuid = uuid]
    sample_signs sample_device
  by (simp only: checkpoint_store_facts device_vault_facts) auto

theorem retained_digest_pins_checkpoints_witness:
  "\<exists>c s'. verifyCheckpointChain digest_platform sample_crypto sample_ops (checkpoint_store\<lparr>st_checkpoints := [c]\<rparr>, s') =
      Inr \<lparr>cv_count = 1, cv_latest = Some (checkpointDigest digest_platform c)\<rparr> \<and>
    (listSignedCheckpoints (checkpoint_store\<lparr>st_checkpoints := [c]\<rparr>) = [c] \<or> (\<exists>x y. sha_collision digest_platform x y))"
proof -
  obtain c s' where m: "createSignedCheckpoint digest_platform sample_crypto sample_keyring sample_ops 0 ''CHK-1'' ''key'' ''u'' (checkpoint_store, device_vault) =
      ((checkpoint_store\<lparr>st_checkpoints := [c]\<rparr>, s'), Inr c)" using sample_checkpoint_made by blast
  obtain r where r: "verifyCheckpointChain digest_platform sample_crypto sample_ops (checkpoint_store\<lparr>st_checkpoints := [c]\<rparr>, s') = Inr r"
    using created_verifies [OF m] by blast
  have l: "listSignedCheckpoints (checkpoint_store\<lparr>st_checkpoints := [c]\<rparr>) = [c]" by (simp add: listSignedCheckpoints_def)
  have "r = \<lparr>cv_count = 1, cv_latest = Some (checkpointDigest digest_platform c)\<rparr>"
    using r by (rule verified_chain) (auto simp: l split: option.splits if_splits)
  with r retained_digest_pins_checkpoints [OF r r] l show ?thesis by auto
qed

end
