(* ===== verification/Governance.thy ===== *)
theory Governance
  imports Json JsDate
begin

text \<open>
  Egress manifests, network access grants and the authorisation of a URL (src/src/discovery/governance.ts).
  Untrusted values are \<^typ>\<open>json\<close>; a validated manifest or grant is a record, \<open>manifest_json\<close> and \<open>grant_json\<close>
  its JSON. Errors are collected in the order of the code. The WHATWG URL parser and \<open>decodeURIComponent\<close> are
  the parameter \<open>url_platform\<close>. The lemmas say what a valid manifest and grant satisfy, that a host in a
  grant is a host of its manifest, and what an authorised URL can reach.
\<close>

record status_range =
  sr_min :: int
  sr_max :: int

record egress_manifest =
  eg_id :: string
  eg_provider :: string
  eg_version :: string
  eg_hosts :: "string list"
  eg_ports :: "int list"
  eg_prefixes :: "string list"
  eg_methods :: "string list"
  eg_headers :: "string list"
  eg_max_redirects :: int
  eg_cross_host :: bool
  eg_statuses :: "status_range list"
  eg_content_types :: "string list"
  eg_require_type :: bool
  eg_max_body :: int
  eg_timeout :: int
  eg_rate_max :: int
  eg_rate_window :: int
  eg_cache_ttl :: int
  eg_cache_methods :: "string list"
  eg_grant_ttl :: int
  eg_grant_max :: int
  eg_exact_hosts :: bool

record access_grant =
  ng_id :: string
  ng_subject :: string
  ng_purpose :: string
  ng_provider :: string
  ng_manifest :: string
  ng_version :: string
  ng_issued :: string
  ng_expires :: string
  ng_hosts :: "string list"
  ng_methods :: "string list"
  ng_budget :: int

record url_parts =
  ur_protocol :: string
  ur_username :: string
  ur_password :: string
  ur_hash :: string
  ur_hostname :: string
  ur_port :: string
  ur_path :: string

record url_platform =
  parse_url :: "string \<Rightarrow> url_parts option"
  decode_component :: "string \<Rightarrow> string option"

definition GOVERNED_HTTP_METHODS :: "string list" where
  "GOVERNED_HTTP_METHODS = [''GET'', ''HEAD'']"

definition manifest_json :: "egress_manifest \<Rightarrow> json" where
  "manifest_json m = JObj [(''manifestId'', JStr (eg_id m)), (''providerId'', JStr (eg_provider m)), (''version'', JStr (eg_version m)),
     (''allowedHosts'', jstrs (eg_hosts m)), (''allowedPorts'', JArr (map JNum (eg_ports m))),
     (''allowedPathPrefixes'', jstrs (eg_prefixes m)), (''allowedMethods'', jstrs (eg_methods m)),
     (''allowedRequestHeaders'', jstrs (eg_headers m)),
     (''redirectPolicy'', JObj [(''maxRedirects'', JNum (eg_max_redirects m)), (''allowCrossHost'', JBool (eg_cross_host m))]),
     (''responsePolicy'', JObj [
        (''allowedStatusRanges'', JArr (map (\<lambda>r. JObj [(''min'', JNum (sr_min r)), (''max'', JNum (sr_max r))]) (eg_statuses m))),
        (''allowedContentTypes'', jstrs (eg_content_types m)), (''requireContentType'', JBool (eg_require_type m)),
        (''maxBodyBytes'', JNum (eg_max_body m)), (''timeoutMs'', JNum (eg_timeout m))]),
     (''ratePolicy'', JObj [(''maxRequests'', JNum (eg_rate_max m)), (''windowMs'', JNum (eg_rate_window m))]),
     (''cachePolicy'', JObj [(''ttlMs'', JNum (eg_cache_ttl m)), (''methods'', jstrs (eg_cache_methods m))]),
     (''grantPolicy'', JObj [(''maxTtlMs'', JNum (eg_grant_ttl m)), (''maxRequests'', JNum (eg_grant_max m)),
        (''requireExactHosts'', JBool (eg_exact_hosts m))])]"

definition grant_json :: "access_grant \<Rightarrow> json" where
  "grant_json g = JObj [(''grantId'', JStr (ng_id g)), (''subject'', JStr (ng_subject g)), (''purpose'', JStr (ng_purpose g)),
     (''providerId'', JStr (ng_provider g)), (''manifestId'', JStr (ng_manifest g)), (''manifestVersion'', JStr (ng_version g)),
     (''issuedAt'', JStr (ng_issued g)), (''expiresAt'', JStr (ng_expires g)), (''allowedHosts'', jstrs (ng_hosts g)),
     (''allowedMethods'', jstrs (ng_methods g)), (''requestBudget'', JNum (ng_budget g))]"

section \<open>Patterns\<close>

definition is_slug :: "char \<Rightarrow> bool" where
  "is_slug c = (is_lower c \<or> is_digit c \<or> c = CHR ''-'')"

definition provider_id_pattern :: "string \<Rightarrow> bool" where
  "provider_id_pattern s = (s \<noteq> [] \<and> is_lower (hd s) \<and> 1 \<le> length (tl s) \<and> length (tl s) \<le> 63 \<and> list_all is_slug (tl s))"

definition manifest_id_pattern :: "string \<Rightarrow> bool" where
  "manifest_id_pattern s = (starts_with ''egress:'' s \<and> provider_id_pattern (drop 7 s))"

definition is_upper_slug :: "char \<Rightarrow> bool" where
  "is_upper_slug c = (is_upper c \<or> is_digit c)"

definition grant_id_pattern :: "string \<Rightarrow> bool" where
  "grant_id_pattern s = (starts_with ''NAG-'' s \<and> (let r = drop 4 s in r \<noteq> [] \<and> is_upper_slug (hd r) \<and>
     7 \<le> length (tl r) \<and> length (tl r) \<le> 127 \<and> list_all (\<lambda>c. is_upper_slug c \<or> c = CHR ''-'') (tl r)))"

definition header_name_pattern :: "string \<Rightarrow> bool" where
  "header_name_pattern s = (s \<noteq> [] \<and> (is_lower (hd s) \<or> is_digit (hd s)) \<and> length (tl s) \<le> 63 \<and> list_all is_slug (tl s))"

definition media_char :: "char \<Rightarrow> bool" where
  "media_char c = (is_lower c \<or> is_digit c \<or> c \<in> set ''!#$&^_.+-'')"

definition content_type_pattern :: "string \<Rightarrow> bool" where
  "content_type_pattern s = (case split_on CHR ''/'' s of
     [a, b] \<Rightarrow> a \<noteq> [] \<and> b \<noteq> [] \<and> list_all media_char a \<and> list_all media_char b | _ \<Rightarrow> False)"

definition semantic_version :: "string \<Rightarrow> bool" where
  "semantic_version s = (case split_on CHR ''.'' s of
     [a, b, c] \<Rightarrow> list_all (\<lambda>p. p \<noteq> [] \<and> list_all is_digit p) [a, b, c] | _ \<Rightarrow> False)"

section \<open>Untrusted values\<close>

definition member :: "json \<Rightarrow> string \<Rightarrow> json" where
  "member j k = (case j of JObj es \<Rightarrow> (case map_of es k of Some v \<Rightarrow> v | None \<Rightarrow> JUndef) | _ \<Rightarrow> JUndef)"

fun isRecord :: "json \<Rightarrow> bool" where
  "isRecord (JObj es) = True"
| "isRecord j = False"

fun jstr :: "json \<Rightarrow> string option" where
  "jstr (JStr s) = Some s"
| "jstr j = None"

fun jint :: "json \<Rightarrow> int option" where
  "jint (JNum n) = Some n"
| "jint j = None"

fun is_bool :: "json \<Rightarrow> bool" where
  "is_bool (JBool b) = True"
| "is_bool j = False"

definition MAX_SAFE :: int where
  "MAX_SAFE = 9007199254740991"

definition isNonEmptyString :: "json \<Rightarrow> nat \<Rightarrow> bool" where
  "isNonEmptyString j n = (case jstr j of None \<Rightarrow> False | Some s \<Rightarrow> trim s \<noteq> [] \<and> length s \<le> n)"

definition isPositiveInteger :: "json \<Rightarrow> int \<Rightarrow> bool" where
  "isPositiveInteger j m = (case jint j of None \<Rightarrow> False | Some n \<Rightarrow> n \<le> MAX_SAFE \<and> 0 < n \<and> n \<le> m)"

definition isNonNegativeInteger :: "json \<Rightarrow> int \<Rightarrow> bool" where
  "isNonNegativeInteger j m = (case jint j of None \<Rightarrow> False | Some n \<Rightarrow> n \<le> MAX_SAFE \<and> 0 \<le> n \<and> n \<le> m)"

definition hasUniqueStrings :: "string list \<Rightarrow> bool" where
  "hasUniqueStrings xs = (length (dedup xs) = length xs)"

abbreviation err :: "bool \<Rightarrow> string \<Rightarrow> string list" where
  "err b msg \<equiv> (if b then [msg] else [])"

text \<open>The entries (when the length is right) and the errors.\<close>

definition stringArray :: "json \<Rightarrow> string \<Rightarrow> (string \<Rightarrow> bool) \<Rightarrow> nat \<Rightarrow> nat \<Rightarrow> string list option \<times> string list" where
  "stringArray j path ok lo hi = (
     let bad = (None, [path @ '' must contain between '' @ nat_str lo @ '' and '' @ nat_str hi @ '' entries'']) in
     case j of JArr vs \<Rightarrow> if length vs < lo \<or> hi < length vs then bad else
       let good = (\<lambda>v. case jstr v of None \<Rightarrow> False | Some s \<Rightarrow> ok s);
           entries = map (\<lambda>v. the (jstr v)) (filter good vs) in
       (Some entries, map (\<lambda>_. path @ '' contains an invalid entry'') (filter (\<lambda>v. \<not> good v) vs) @
         err (\<not> hasUniqueStrings entries) (path @ '' must not contain duplicates''))
     | _ \<Rightarrow> bad)"

definition integerArray :: "json \<Rightarrow> string \<Rightarrow> (int \<Rightarrow> bool) \<Rightarrow> nat \<Rightarrow> nat \<Rightarrow> string list" where
  "integerArray j path ok lo hi = (
     let bad = [path @ '' must contain between '' @ nat_str lo @ '' and '' @ nat_str hi @ '' entries''] in
     case j of JArr vs \<Rightarrow> if length vs < lo \<or> hi < length vs then bad else
       let good = (\<lambda>v. case jint v of None \<Rightarrow> False | Some n \<Rightarrow> \<bar>n\<bar> \<le> MAX_SAFE \<and> ok n);
           entries = map (\<lambda>v. the (jint v)) (filter good vs) in
       map (\<lambda>_. path @ '' contains an invalid entry'') (filter (\<lambda>v. \<not> good v) vs) @
         err (length (dedup entries) \<noteq> length entries) (path @ '' must not contain duplicates'')
     | _ \<Rightarrow> bad)"

definition rejectUnexpectedKeys :: "json \<Rightarrow> string list \<Rightarrow> string \<Rightarrow> string list" where
  "rejectUnexpectedKeys j allowed path = (case j of JObj es \<Rightarrow>
     map (\<lambda>k. path @ '' contains an unexpected field: '' @ k) (filter (\<lambda>k. k \<notin> set allowed) (map fst es)) | _ \<Rightarrow> [])"

text \<open>\<open>objectAt\<close> with the checks of the object's members.\<close>

definition objectAt :: "json \<Rightarrow> string \<Rightarrow> (json \<Rightarrow> string list) \<Rightarrow> string list" where
  "objectAt j path checks = (if isRecord j then checks j else [path @ '' must be an object''])"

definition isIsoDateTime :: "(string \<Rightarrow> int option) \<Rightarrow> json \<Rightarrow> bool" where
  "isIsoDateTime host j = (case jstr j of None \<Rightarrow> False | Some s \<Rightarrow>
     (case date_parse host s of None \<Rightarrow> False | Some t \<Rightarrow> to_iso t = s))"

section \<open>Hosts\<close>

definition isHostLabel :: "string \<Rightarrow> bool" where
  "isHostLabel s = (s \<noteq> [] \<and> length s \<le> 63 \<and> (is_lower (hd s) \<or> is_digit (hd s)) \<and> (is_lower (last s) \<or> is_digit (last s)) \<and>
     list_all is_slug s)"

definition strip_dot :: "string \<Rightarrow> string" where
  "strip_dot s = (if ends_with ''.'' s then butlast s else s)"

definition normalizeHostname :: "string \<Rightarrow> string" where
  "normalizeHostname s = (let lower = strip_dot (to_lower (trim s)) in
     if starts_with ''['' lower \<and> ends_with '']'' lower then butlast (drop 1 lower) else lower)"

definition ipv6_char :: "char \<Rightarrow> bool" where
  "ipv6_char c = (is_digit c \<or> (97 \<le> (of_char c :: nat) \<and> (of_char c :: nat) \<le> 102) \<or>
     (65 \<le> (of_char c :: nat) \<and> (of_char c :: nat) \<le> 70) \<or> c = CHR '':'' \<or> c = CHR ''.'')"

definition isValidHostPattern :: "string \<Rightarrow> bool" where
  "isValidHostPattern s = (if s \<noteq> trim s \<or> s \<noteq> to_lower s \<or> ends_with ''.'' s then False
     else let n = normalizeHostname s; wild = starts_with ''*.'' n; h = (if wild then drop 2 n else n) in
     if h = [] \<or> length h > 253 \<or> CHR ''*'' \<in> set h \<or> includes_str ''..'' h then False
     else if list_all ipv6_char h \<and> CHR '':'' \<in> set h then \<not> wild
     else let labels = split_on CHR ''.'' h in length labels \<ge> 2 \<and> list_all isHostLabel labels)"

definition hostMatchesPattern :: "string \<Rightarrow> string \<Rightarrow> bool" where
  "hostMatchesPattern hostname pattern = (let host = normalizeHostname hostname; p = normalizeHostname pattern in
     if \<not> starts_with ''*.'' p then host = p
     else host \<noteq> drop 2 p \<and> ends_with (CHR ''.'' # drop 2 p) host)"

definition hostPatternIsWithin :: "string \<Rightarrow> string \<Rightarrow> bool" where
  "hostPatternIsWithin childPattern parentPattern = (
     let child = normalizeHostname childPattern; parent = normalizeHostname parentPattern in
     if \<not> starts_with ''*.'' child then hostMatchesPattern child parent
     else if \<not> starts_with ''*.'' parent then False
     else drop 2 child = drop 2 parent \<or> ends_with (CHR ''.'' # drop 2 parent) (drop 2 child))"

section \<open>Paths\<close>

fun decode_passes :: "url_platform \<Rightarrow> nat \<Rightarrow> string \<Rightarrow> string option" where
  "decode_passes U 0 s = (if decode_component U s = Some s then Some s else None)"
| "decode_passes U (Suc n) s = (case decode_component U s of None \<Rightarrow> None
     | Some t \<Rightarrow> if t = s then Some s else decode_passes U n t)"

definition fullyDecodePath :: "url_platform \<Rightarrow> string \<Rightarrow> string option" where
  "fullyDecodePath U s = decode_passes U 4 s"

definition hasForbiddenPathContent :: "string \<Rightarrow> bool" where
  "hasForbiddenPathContent s = (CHR 0x5C \<in> set s \<or> list_ex (\<lambda>seg. seg = ''..'' \<or> CHR 0x00 \<in> set seg) (split_on CHR ''/'' s))"

definition isPathPrefix :: "url_platform \<Rightarrow> string \<Rightarrow> bool" where
  "isPathPrefix U s = (if \<not> starts_with ''/'' s \<or> CHR ''?'' \<in> set s \<or> CHR ''#'' \<in> set s then False
     else case fullyDecodePath U s of None \<Rightarrow> False | Some d \<Rightarrow> \<not> hasForbiddenPathContent d)"

definition isMethod :: "string \<Rightarrow> bool" where
  "isMethod s = (s \<in> set GOVERNED_HTTP_METHODS)"

section \<open>Manifests\<close>

definition range_errors :: "json \<Rightarrow> string list" where
  "range_errors e = (if \<not> isRecord e \<or> \<not> isNonNegativeInteger (member e ''min'') 599 \<or> \<not> isNonNegativeInteger (member e ''max'') 599
     then [''responsePolicy.allowedStatusRanges contains an invalid range'']
     else rejectUnexpectedKeys e [''min'', ''max''] ''responsePolicy.allowedStatusRanges entry'' @
       err (the (jint (member e ''min'')) < 100 \<or> the (jint (member e ''max'')) < the (jint (member e ''min'')))
         ''responsePolicy.allowedStatusRanges must stay within HTTP status bounds'')"

definition range_of :: "json \<Rightarrow> (int \<times> int) option" where
  "range_of e = (if \<not> isRecord e \<or> \<not> isNonNegativeInteger (member e ''min'') 599 \<or> \<not> isNonNegativeInteger (member e ''max'') 599 then None
     else let lo = the (jint (member e ''min'')); hi = the (jint (member e ''max'')) in
       if lo < 100 \<or> hi < lo then None else Some (lo, hi))"

fun overlapping :: "(int \<times> int) list \<Rightarrow> bool" where
  "overlapping ((a, b) # (c, d) # rs) = (c \<le> b \<or> overlapping ((c, d) # rs))"
| "overlapping rs = False"

definition validateStatusRanges :: "json \<Rightarrow> string list" where
  "validateStatusRanges j = (
     let bad = [''responsePolicy.allowedStatusRanges must contain between 1 and 16 ranges''] in
     case j of JArr vs \<Rightarrow> if vs = [] \<or> length vs > 16 then bad
       else concat (map range_errors vs) @
         err (overlapping (sort_key fst (sort_key snd (List.map_filter range_of vs))))
           ''responsePolicy.allowedStatusRanges must not overlap''
     | _ \<Rightarrow> bad)"

definition redirect_errors :: "json \<Rightarrow> string list" where
  "redirect_errors j = rejectUnexpectedKeys j [''maxRedirects'', ''allowCrossHost''] ''redirectPolicy'' @
     err (\<not> isNonNegativeInteger (member j ''maxRedirects'') 10) ''redirectPolicy.maxRedirects must be an integer from 0 to 10'' @
     err (\<not> is_bool (member j ''allowCrossHost'')) ''redirectPolicy.allowCrossHost must be boolean''"

definition response_errors :: "json \<Rightarrow> string list" where
  "response_errors j = rejectUnexpectedKeys j [''allowedStatusRanges'', ''allowedContentTypes'', ''requireContentType'', ''maxBodyBytes'',
       ''timeoutMs''] ''responsePolicy'' @
     validateStatusRanges (member j ''allowedStatusRanges'') @
     snd (stringArray (member j ''allowedContentTypes'') ''responsePolicy.allowedContentTypes''
       (\<lambda>s. s = to_lower s \<and> content_type_pattern s) 1 32) @
     err (\<not> is_bool (member j ''requireContentType'')) ''responsePolicy.requireContentType must be boolean'' @
     err (\<not> isPositiveInteger (member j ''maxBodyBytes'') 67108864) ''responsePolicy.maxBodyBytes must be between 1 byte and 64 MiB'' @
     err (\<not> isPositiveInteger (member j ''timeoutMs'') 120000) ''responsePolicy.timeoutMs must be between 1 and 120000 milliseconds''"

definition rate_errors :: "json \<Rightarrow> string list" where
  "rate_errors j = rejectUnexpectedKeys j [''maxRequests'', ''windowMs''] ''ratePolicy'' @
     err (\<not> isPositiveInteger (member j ''maxRequests'') 100000) ''ratePolicy.maxRequests must be a positive bounded integer'' @
     err (\<not> isPositiveInteger (member j ''windowMs'') 86400000) ''ratePolicy.windowMs must be a positive bounded integer''"

definition cache_errors :: "string list option \<Rightarrow> json \<Rightarrow> string list" where
  "cache_errors methods j = (let (cached, errs) = stringArray (member j ''methods'') ''cachePolicy.methods'' isMethod 0 2 in
     rejectUnexpectedKeys j [''ttlMs'', ''methods''] ''cachePolicy'' @
     err (\<not> isNonNegativeInteger (member j ''ttlMs'') 86400000) ''cachePolicy.ttlMs must be a bounded non-negative integer'' @ errs @
     err (case (methods, cached) of (Some ms, Some cs) \<Rightarrow> list_ex (\<lambda>c. c \<notin> set ms) cs | _ \<Rightarrow> False)
       ''cachePolicy.methods must be a subset of allowedMethods'')"

definition grant_policy_errors :: "json \<Rightarrow> string list" where
  "grant_policy_errors j = rejectUnexpectedKeys j [''maxTtlMs'', ''maxRequests'', ''requireExactHosts''] ''grantPolicy'' @
     err (\<not> isPositiveInteger (member j ''maxTtlMs'') 604800000) ''grantPolicy.maxTtlMs must be a positive bounded integer'' @
     err (\<not> isPositiveInteger (member j ''maxRequests'') 1000000) ''grantPolicy.maxRequests must be a positive bounded integer'' @
     err (\<not> is_bool (member j ''requireExactHosts'')) ''grantPolicy.requireExactHosts must be boolean''"

definition string_check :: "json \<Rightarrow> (string \<Rightarrow> bool) \<Rightarrow> string \<Rightarrow> string list" where
  "string_check j ok msg = err (case jstr j of None \<Rightarrow> True | Some s \<Rightarrow> \<not> ok s) msg"

text \<open>The errors of a manifest; it is valid when there is none.\<close>

definition validateEgressManifest :: "url_platform \<Rightarrow> json \<Rightarrow> string list" where
  "validateEgressManifest U j = (if \<not> isRecord j then [''EgressManifest must be an object''] else
     let (methods, method_errs) = stringArray (member j ''allowedMethods'') ''allowedMethods'' isMethod 1 2 in
     rejectUnexpectedKeys j [''manifestId'', ''providerId'', ''version'', ''allowedHosts'', ''allowedPorts'', ''allowedPathPrefixes'',
       ''allowedMethods'', ''allowedRequestHeaders'', ''redirectPolicy'', ''responsePolicy'', ''ratePolicy'', ''cachePolicy'', ''grantPolicy'']
       ''EgressManifest'' @
     string_check (member j ''manifestId'') manifest_id_pattern ''manifestId is invalid'' @
     string_check (member j ''providerId'') provider_id_pattern ''providerId is invalid'' @
     string_check (member j ''version'') semantic_version ''version must be semantic version text'' @
     err (case (jstr (member j ''manifestId''), jstr (member j ''providerId'')) of
       (Some a, Some b) \<Rightarrow> a \<noteq> ''egress:'' @ b | _ \<Rightarrow> False) ''manifestId must be bound to providerId'' @
     snd (stringArray (member j ''allowedHosts'') ''allowedHosts'' isValidHostPattern 1 128) @
     integerArray (member j ''allowedPorts'') ''allowedPorts'' (\<lambda>p. 1 \<le> p \<and> p \<le> 65535) 1 32 @
     snd (stringArray (member j ''allowedPathPrefixes'') ''allowedPathPrefixes'' (isPathPrefix U) 1 128) @
     method_errs @
     snd (stringArray (member j ''allowedRequestHeaders'') ''allowedRequestHeaders'' (\<lambda>h. h = to_lower h \<and> header_name_pattern h) 0 32) @
     objectAt (member j ''redirectPolicy'') ''redirectPolicy'' redirect_errors @
     objectAt (member j ''responsePolicy'') ''responsePolicy'' response_errors @
     objectAt (member j ''ratePolicy'') ''ratePolicy'' rate_errors @
     objectAt (member j ''cachePolicy'') ''cachePolicy'' (cache_errors methods) @
     objectAt (member j ''grantPolicy'') ''grantPolicy'' grant_policy_errors)"

definition assertValidEgressManifest :: "url_platform \<Rightarrow> json \<Rightarrow> unit result" where
  "assertValidEgressManifest U j = (let es = validateEgressManifest U j in
     if es = [] then Inr () else throw (''EgressManifest validation failed: '' @ joins ''; '' es))"

section \<open>Grants\<close>

definition host_scope_errors :: "egress_manifest \<Rightarrow> string list option \<Rightarrow> string list" where
  "host_scope_errors m hosts = (case hosts of None \<Rightarrow> [] | Some hs \<Rightarrow> concat (map (\<lambda>h.
     err (eg_exact_hosts m \<and> starts_with ''*.'' (normalizeHostname h)) ''allowedHosts must contain exact hosts for this manifest'' @
     err (\<not> list_ex (hostPatternIsWithin h) (eg_hosts m)) (''allowed host is outside the manifest boundary: '' @ h)) hs))"

definition window_errors :: "(string \<Rightarrow> int option) \<Rightarrow> json \<Rightarrow> egress_manifest \<Rightarrow> int option \<Rightarrow> string list" where
  "window_errors host j m now = (if isIsoDateTime host (member j ''issuedAt'') \<and> isIsoDateTime host (member j ''expiresAt'') \<and> now \<noteq> None
     then let issued = the (date_parse host (the (jstr (member j ''issuedAt''))));
              expires = the (date_parse host (the (jstr (member j ''expiresAt''))));
              n = the now in
       err (expires \<le> issued) ''expiresAt must be after issuedAt'' @
       err (eg_grant_ttl m < expires - issued) ''grant lifetime exceeds the manifest policy'' @
       err (n < issued) ''grant is not active yet'' @
       err (expires \<le> n) ''grant has expired''
     else [])"

definition validateNetworkAccessGrant ::
  "url_platform \<Rightarrow> (string \<Rightarrow> int option) \<Rightarrow> json \<Rightarrow> egress_manifest \<Rightarrow> int option \<Rightarrow> string list" where
  "validateNetworkAccessGrant U host j m now = (let ms = validateEgressManifest U (manifest_json m) in
     if ms \<noteq> [] then map (\<lambda>e. ''manifest: '' @ e) ms
     else if \<not> isRecord j then [''NetworkAccessGrant must be an object''] else
     let (hosts, host_errs) = stringArray (member j ''allowedHosts'') ''allowedHosts'' isValidHostPattern 1 128;
         (methods, method_errs) = stringArray (member j ''allowedMethods'') ''allowedMethods'' isMethod 1 2 in
     rejectUnexpectedKeys j [''grantId'', ''subject'', ''purpose'', ''providerId'', ''manifestId'', ''manifestVersion'', ''issuedAt'',
       ''expiresAt'', ''allowedHosts'', ''allowedMethods'', ''requestBudget''] ''NetworkAccessGrant'' @
     string_check (member j ''grantId'') grant_id_pattern ''grantId is invalid'' @
     err (\<not> isNonEmptyString (member j ''subject'') 160) ''subject is invalid'' @
     err (\<not> isNonEmptyString (member j ''purpose'') 512) ''purpose is invalid'' @
     err (member j ''providerId'' \<noteq> JStr (eg_provider m)) ''providerId does not match the manifest'' @
     err (member j ''manifestId'' \<noteq> JStr (eg_id m)) ''manifestId does not match the manifest'' @
     err (member j ''manifestVersion'' \<noteq> JStr (eg_version m)) ''manifestVersion does not match the manifest'' @
     host_errs @ host_scope_errors m hosts @ method_errs @
     err (case methods of None \<Rightarrow> False | Some ms \<Rightarrow> list_ex (\<lambda>x. x \<notin> set (eg_methods m)) ms)
       ''allowedMethods must be a subset of the manifest methods'' @
     err (\<not> isPositiveInteger (member j ''requestBudget'') (eg_grant_max m)) ''requestBudget exceeds the manifest grant policy'' @
     err (\<not> isIsoDateTime host (member j ''issuedAt'')) ''issuedAt must be an ISO date-time'' @
     err (\<not> isIsoDateTime host (member j ''expiresAt'')) ''expiresAt must be an ISO date-time'' @
     err (now = None) ''grant validation time is invalid'' @
     window_errors host j m now)"

definition assertValidNetworkAccessGrant ::
  "url_platform \<Rightarrow> (string \<Rightarrow> int option) \<Rightarrow> json \<Rightarrow> egress_manifest \<Rightarrow> int option \<Rightarrow> unit result" where
  "assertValidNetworkAccessGrant U host j m now = (let es = validateNetworkAccessGrant U host j m now in
     if es = [] then Inr () else throw (''NetworkAccessGrant validation failed: '' @ joins ''; '' es))"

section \<open>URLs\<close>

definition pathMatchesPrefix :: "string \<Rightarrow> string \<Rightarrow> bool" where
  "pathMatchesPrefix path prefix = (if prefix = ''/'' then True
     else let p = (if ends_with ''/'' prefix then butlast prefix else prefix) in path = p \<or> starts_with (p @ ''/'') path)"

definition url_port :: "url_parts \<Rightarrow> int" where
  "url_port u = (if ur_port u = [] then 443 else int (digits_val (ur_port u)))"

definition validateUrlAuthorization :: "url_platform \<Rightarrow> string \<Rightarrow> string \<Rightarrow> egress_manifest \<Rightarrow> access_grant \<Rightarrow> string list" where
  "validateUrlAuthorization U url mth m g = (case parse_url U url of None \<Rightarrow> [''request URL is invalid''] | Some u \<Rightarrow>
     let hostname = normalizeHostname (ur_hostname u); decoded = fullyDecodePath U (ur_path u) in
     err (ur_protocol u \<noteq> ''https:'') ''request URL must use HTTPS'' @
     err (ur_username u \<noteq> [] \<or> ur_password u \<noteq> []) ''request URL must not contain embedded credentials'' @
     err (ur_hash u \<noteq> []) ''request URL must not contain a fragment'' @
     err (ends_with ''.'' (ur_hostname u)) ''request URL must not contain a trailing dot hostname'' @
     err (\<not> list_ex (hostMatchesPattern hostname) (eg_hosts m)) ''request host is outside the manifest boundary'' @
     err (\<not> list_ex (hostMatchesPattern hostname) (ng_hosts g)) ''request host is outside the grant boundary'' @
     err (url_port u \<notin> set (eg_ports m)) ''request port is outside the manifest boundary'' @
     err (mth \<notin> set (eg_methods m) \<or> mth \<notin> set (ng_methods g)) ''request method is not authorized'' @
     err (decoded = None) ''request path contains invalid percent encoding'' @
     err (case decoded of None \<Rightarrow> False | Some d \<Rightarrow> hasForbiddenPathContent d) ''request path contains a forbidden traversal segment'' @
     err (case decoded of None \<Rightarrow> True | Some d \<Rightarrow> \<not> list_ex (\<lambda>p. case fullyDecodePath U p of None \<Rightarrow> False
         | Some q \<Rightarrow> pathMatchesPrefix d q) (eg_prefixes m)) ''request path is outside the manifest boundary'')"

section \<open>Valid manifests\<close>

definition strings_ok :: "(string \<Rightarrow> bool) \<Rightarrow> nat \<Rightarrow> nat \<Rightarrow> string list \<Rightarrow> bool" where
  "strings_ok ok lo hi xs = (lo \<le> length xs \<and> length xs \<le> hi \<and> list_all ok xs \<and> distinct xs)"

definition bounded :: "int \<Rightarrow> int \<Rightarrow> int \<Rightarrow> bool" where
  "bounded lo hi n = (lo \<le> n \<and> n \<le> hi)"

definition statuses_ok :: "status_range list \<Rightarrow> bool" where
  "statuses_ok rs = (1 \<le> length rs \<and> length rs \<le> 16 \<and> list_all (\<lambda>r. 100 \<le> sr_min r \<and> sr_min r \<le> sr_max r \<and> sr_max r \<le> 599) rs \<and>
     \<not> overlapping (sort_key fst (sort_key snd (map (\<lambda>r. (sr_min r, sr_max r)) rs))))"

definition manifest_ok :: "url_platform \<Rightarrow> egress_manifest \<Rightarrow> bool" where
  "manifest_ok U m = (provider_id_pattern (eg_provider m) \<and> eg_id m = ''egress:'' @ eg_provider m \<and> semantic_version (eg_version m) \<and>
     strings_ok isValidHostPattern 1 128 (eg_hosts m) \<and>
     1 \<le> length (eg_ports m) \<and> length (eg_ports m) \<le> 32 \<and> list_all (bounded 1 65535) (eg_ports m) \<and> distinct (eg_ports m) \<and>
     strings_ok (isPathPrefix U) 1 128 (eg_prefixes m) \<and> strings_ok isMethod 1 2 (eg_methods m) \<and>
     strings_ok (\<lambda>h. h = to_lower h \<and> header_name_pattern h) 0 32 (eg_headers m) \<and>
     bounded 0 10 (eg_max_redirects m) \<and> statuses_ok (eg_statuses m) \<and>
     strings_ok (\<lambda>s. s = to_lower s \<and> content_type_pattern s) 1 32 (eg_content_types m) \<and>
     bounded 1 67108864 (eg_max_body m) \<and> bounded 1 120000 (eg_timeout m) \<and>
     bounded 1 100000 (eg_rate_max m) \<and> bounded 1 86400000 (eg_rate_window m) \<and>
     bounded 0 86400000 (eg_cache_ttl m) \<and> strings_ok isMethod 0 2 (eg_cache_methods m) \<and>
     set (eg_cache_methods m) \<subseteq> set (eg_methods m) \<and>
     bounded 1 604800000 (eg_grant_ttl m) \<and> bounded 1 1000000 (eg_grant_max m))"

lemma unique_iff [simp]: "hasUniqueStrings xs \<longleftrightarrow> distinct xs"
  by (simp add: hasUniqueStrings_def length_dedup_eq_iff)

lemma stringArray_jstrs:
  "stringArray (jstrs xs) path ok lo hi = (if length xs < lo \<or> hi < length xs
     then (None, [path @ '' must contain between '' @ nat_str lo @ '' and '' @ nat_str hi @ '' entries''])
     else (Some (filter ok xs), map (\<lambda>_. path @ '' contains an invalid entry'') (filter (\<lambda>x. \<not> ok x) xs) @
       err (\<not> distinct (filter ok xs)) (path @ '' must not contain duplicates'')))"
  by (simp add: stringArray_def jstrs_def Let_def filter_map comp_def)

lemma filter_none: "filter (\<lambda>x. \<not> ok x) xs = [] \<longleftrightarrow> list_all ok xs"
  by (simp add: filter_empty_conv list_all_iff)

lemma filter_all: "list_all ok xs \<Longrightarrow> filter ok xs = xs"
  by (simp add: list_all_iff)

lemma stringArray_ok: "snd (stringArray (jstrs xs) path ok lo hi) = [] \<longleftrightarrow> strings_ok ok lo hi xs"
  by (auto simp: stringArray_jstrs strings_ok_def filter_none filter_all)

lemma stringArray_entries: "strings_ok ok lo hi xs \<Longrightarrow> stringArray (jstrs xs) path ok lo hi = (Some xs, [])"
  by (auto simp: stringArray_jstrs strings_ok_def filter_none filter_all)

lemma integerArray_ok: "integerArray (JArr (map JNum ns)) path (\<lambda>p. 1 \<le> p \<and> p \<le> 65535) 1 32 = [] \<longleftrightarrow>
    1 \<le> length ns \<and> length ns \<le> 32 \<and> list_all (bounded 1 65535) ns \<and> distinct ns"
proof -
  have b: "(\<bar>n\<bar> \<le> MAX_SAFE \<and> 1 \<le> n \<and> n \<le> 65535) = bounded 1 65535 n" for n by (auto simp: bounded_def MAX_SAFE_def)
  show ?thesis
    by (auto simp: integerArray_def Let_def filter_map comp_def b filter_none filter_all length_dedup_eq_iff not_less Suc_le_eq)
qed

lemma positive_num [simp]: "isPositiveInteger (JNum n) m \<longleftrightarrow> n \<le> MAX_SAFE \<and> bounded 1 m n"
  by (auto simp: isPositiveInteger_def bounded_def)

lemma non_negative_num [simp]: "isNonNegativeInteger (JNum n) m \<longleftrightarrow> n \<le> MAX_SAFE \<and> bounded 0 m n"
  by (auto simp: isNonNegativeInteger_def bounded_def)

lemma err_Nil [simp]: "err b x = [] \<longleftrightarrow> \<not> b"
  by simp

lemma range_ok: "range_errors (JObj [(''min'', JNum a), (''max'', JNum b)]) = [] \<longleftrightarrow> 100 \<le> a \<and> a \<le> b \<and> b \<le> 599"
  "range_of (JObj [(''min'', JNum a), (''max'', JNum b)]) = (if 100 \<le> a \<and> a \<le> b \<and> b \<le> 599 then Some (a, b) else None)"
  by (auto simp: range_errors_def range_of_def member_def rejectUnexpectedKeys_def bounded_def MAX_SAFE_def Let_def)

lemma map_filter_all: "\<forall>x \<in> set xs. f x = Some (g x) \<Longrightarrow> List.map_filter f xs = map g xs"
  by (induction xs) (auto simp: map_filter_simps)

lemma validateStatusRanges_ok:
  "validateStatusRanges (JArr (map (\<lambda>r. JObj [(''min'', JNum (sr_min r)), (''max'', JNum (sr_max r))]) rs)) = [] \<longleftrightarrow> statuses_ok rs"
proof (cases "list_all (\<lambda>r. 100 \<le> sr_min r \<and> sr_min r \<le> sr_max r \<and> sr_max r \<le> 599) rs")
  case True
  then have "List.map_filter range_of (map (\<lambda>r. JObj [(''min'', JNum (sr_min r)), (''max'', JNum (sr_max r))]) rs) =
      map (\<lambda>r. (sr_min r, sr_max r)) rs"
    using map_filter_all [of rs "\<lambda>r. range_of (JObj [(''min'', JNum (sr_min r)), (''max'', JNum (sr_max r))])" "\<lambda>r. (sr_min r, sr_max r)"]
    by (simp add: range_ok list_all_iff map_filter_def filter_map comp_def)
  with True show ?thesis
    by (auto simp: validateStatusRanges_def statuses_ok_def Let_def range_ok list_all_iff Suc_le_eq not_less)
next
  case False
  then show ?thesis
    by (auto simp: validateStatusRanges_def statuses_ok_def Let_def range_ok list_all_iff)
qed

lemma bounded_mono: "bounded a b n \<Longrightarrow> b \<le> c \<Longrightarrow> n \<le> c"
  by (simp add: bounded_def)

lemma manifest_members:
  "member (manifest_json m) ''manifestId'' = JStr (eg_id m)" "member (manifest_json m) ''providerId'' = JStr (eg_provider m)"
  "member (manifest_json m) ''version'' = JStr (eg_version m)" "member (manifest_json m) ''allowedHosts'' = jstrs (eg_hosts m)"
  "member (manifest_json m) ''allowedPorts'' = JArr (map JNum (eg_ports m))"
  "member (manifest_json m) ''allowedPathPrefixes'' = jstrs (eg_prefixes m)"
  "member (manifest_json m) ''allowedMethods'' = jstrs (eg_methods m)"
  "member (manifest_json m) ''allowedRequestHeaders'' = jstrs (eg_headers m)"
  "member (manifest_json m) ''redirectPolicy'' = JObj [(''maxRedirects'', JNum (eg_max_redirects m)), (''allowCrossHost'', JBool (eg_cross_host m))]"
  "member (manifest_json m) ''responsePolicy'' = JObj [
        (''allowedStatusRanges'', JArr (map (\<lambda>r. JObj [(''min'', JNum (sr_min r)), (''max'', JNum (sr_max r))]) (eg_statuses m))),
        (''allowedContentTypes'', jstrs (eg_content_types m)), (''requireContentType'', JBool (eg_require_type m)),
        (''maxBodyBytes'', JNum (eg_max_body m)), (''timeoutMs'', JNum (eg_timeout m))]"
  "member (manifest_json m) ''ratePolicy'' = JObj [(''maxRequests'', JNum (eg_rate_max m)), (''windowMs'', JNum (eg_rate_window m))]"
  "member (manifest_json m) ''cachePolicy'' = JObj [(''ttlMs'', JNum (eg_cache_ttl m)), (''methods'', jstrs (eg_cache_methods m))]"
  "member (manifest_json m) ''grantPolicy'' = JObj [(''maxTtlMs'', JNum (eg_grant_ttl m)), (''maxRequests'', JNum (eg_grant_max m)),
        (''requireExactHosts'', JBool (eg_exact_hosts m))]"
  "isRecord (manifest_json m)"
  by (simp_all add: member_def manifest_json_def)

lemma manifest_keys: "rejectUnexpectedKeys (manifest_json m) [''manifestId'', ''providerId'', ''version'', ''allowedHosts'', ''allowedPorts'',
    ''allowedPathPrefixes'', ''allowedMethods'', ''allowedRequestHeaders'', ''redirectPolicy'', ''responsePolicy'', ''ratePolicy'',
    ''cachePolicy'', ''grantPolicy''] path = []"
  by (simp add: rejectUnexpectedKeys_def manifest_json_def)

lemma validateEgressManifest_ok: "validateEgressManifest U (manifest_json m) = [] \<longleftrightarrow> manifest_ok U m"
proof -
  have s: "(n \<le> MAX_SAFE \<and> bounded a b n) = bounded a b n" if "b \<le> 9007199254740991" for a b n
    using that by (auto simp: bounded_def MAX_SAFE_def)
  have c: "cache_errors (fst (stringArray (jstrs (eg_methods m)) ''allowedMethods'' isMethod 1 2))
      (JObj [(''ttlMs'', JNum (eg_cache_ttl m)), (''methods'', jstrs (eg_cache_methods m))]) = [] \<longleftrightarrow>
      bounded 0 86400000 (eg_cache_ttl m) \<and> strings_ok isMethod 0 2 (eg_cache_methods m) \<and> set (eg_cache_methods m) \<subseteq> set (eg_methods m)"
    if "strings_ok isMethod 1 2 (eg_methods m)"
  proof (cases "strings_ok isMethod 0 2 (eg_cache_methods m)")
    case True
    then show ?thesis using that
      by (auto simp: cache_errors_def member_def rejectUnexpectedKeys_def stringArray_entries s list_ex_iff)
  next
    case False
    then have "snd (stringArray (jstrs (eg_cache_methods m)) ''cachePolicy.methods'' isMethod 0 2) \<noteq> []" by (simp add: stringArray_ok)
    then show ?thesis using False
      by (auto simp: cache_errors_def member_def Let_def split: prod.splits)
  qed
  have i: "manifest_id_pattern (''egress:'' @ p) \<longleftrightarrow> provider_id_pattern p" for p by (simp add: manifest_id_pattern_def)
  have r: "redirect_errors (member (manifest_json m) ''redirectPolicy'') = [] \<longleftrightarrow> bounded 0 10 (eg_max_redirects m)"
    unfolding manifest_members by (simp add: redirect_errors_def member_def rejectUnexpectedKeys_def s)
  have rs: "response_errors (member (manifest_json m) ''responsePolicy'') = [] \<longleftrightarrow> statuses_ok (eg_statuses m) \<and>
      strings_ok (\<lambda>s. s = to_lower s \<and> content_type_pattern s) 1 32 (eg_content_types m) \<and>
      bounded 1 67108864 (eg_max_body m) \<and> bounded 1 120000 (eg_timeout m)"
    unfolding manifest_members by (simp add: response_errors_def member_def rejectUnexpectedKeys_def s validateStatusRanges_ok stringArray_ok)
  have ra: "rate_errors (member (manifest_json m) ''ratePolicy'') = [] \<longleftrightarrow> bounded 1 100000 (eg_rate_max m) \<and> bounded 1 86400000 (eg_rate_window m)"
    unfolding manifest_members by (simp add: rate_errors_def member_def rejectUnexpectedKeys_def s)
  have g: "grant_policy_errors (member (manifest_json m) ''grantPolicy'') = [] \<longleftrightarrow> bounded 1 604800000 (eg_grant_ttl m) \<and> bounded 1 1000000 (eg_grant_max m)"
    unfolding manifest_members by (simp add: grant_policy_errors_def member_def rejectUnexpectedKeys_def s)
  have rec: "isRecord (member (manifest_json m) k)" if "k \<in> {''redirectPolicy'', ''responsePolicy'', ''ratePolicy'', ''cachePolicy'', ''grantPolicy''}" for k
    using that by (auto simp: manifest_members)
  show ?thesis
  proof (cases "strings_ok isMethod 1 2 (eg_methods m) \<and> eg_id m = ''egress:'' @ eg_provider m")
    case True
    then show ?thesis
      using c i [of "eg_provider m"]
      unfolding validateEgressManifest_def manifest_ok_def Let_def case_prod_beta append_is_Nil_conv objectAt_def
      by (simp add: rec r rs ra g manifest_keys del: append.simps)
        (simp add: manifest_members string_check_def stringArray_ok integerArray_ok [unfolded One_nat_def] del: append.simps)
  next
    case False
    then show ?thesis
      unfolding validateEgressManifest_def manifest_ok_def Let_def case_prod_beta append_is_Nil_conv objectAt_def
      by (auto simp: manifest_members string_check_def stringArray_ok)
  qed
qed

section \<open>Host boundaries\<close>

lemma plain_pattern:
  assumes "isValidHostPattern p" and "\<not> starts_with ''['' p"
  shows "normalizeHostname p = p"
proof -
  have "trim p = p" "to_lower p = p" "\<not> ends_with ''.'' p" using assms(1) by (auto simp: isValidHostPattern_def split: if_splits)
  then show ?thesis using assms(2) by (simp add: normalizeHostname_def strip_dot_def Let_def)
qed

lemma suffix_trans: "ends_with p q \<Longrightarrow> ends_with q s \<Longrightarrow> ends_with p s"
  by (auto simp: ends_with_iff)

text \<open>Matching a pattern inside a boundary is matching the boundary.\<close>

lemma within_matches:
  assumes "hostMatchesPattern h c" and "hostPatternIsWithin c p" and "normalizeHostname c = c" and "normalizeHostname p = p"
    and "normalizeHostname (normalizeHostname h) = normalizeHostname h"
  shows "hostMatchesPattern h p"
proof (cases "starts_with ''*.'' c")
  case False
  then have "normalizeHostname h = c" using assms(1,3) by (simp add: hostMatchesPattern_def Let_def)
  then show ?thesis using False assms(2-5) by (simp add: hostPatternIsWithin_def hostMatchesPattern_def Let_def)
next
  case True
  have h: "ends_with (CHR ''.'' # drop 2 c) (normalizeHostname h)" "normalizeHostname h \<noteq> drop 2 c"
    using True assms(1,3) by (simp_all add: hostMatchesPattern_def Let_def)
  have w: "starts_with ''*.'' p" "drop 2 c = drop 2 p \<or> ends_with (CHR ''.'' # drop 2 p) (drop 2 c)"
    using True assms(2-4) by (auto simp: hostPatternIsWithin_def Let_def split: if_splits)
  show ?thesis
  proof (cases "drop 2 c = drop 2 p")
    case True
    then show ?thesis using h w(1) assms(4) by (simp add: hostMatchesPattern_def Let_def)
  next
    case False
    then have e: "ends_with (CHR ''.'' # drop 2 p) (drop 2 c)" using w(2) by blast
    then have "ends_with (CHR ''.'' # drop 2 p) (CHR ''.'' # drop 2 c)"
      by (auto simp: ends_with_iff)
    then have s: "ends_with (CHR ''.'' # drop 2 p) (normalizeHostname h)" using h(1) by (rule suffix_trans)
    then have "normalizeHostname h \<noteq> drop 2 p" by (auto simp: ends_with_iff)
    with s w(1) assms(4) show ?thesis by (simp add: hostMatchesPattern_def Let_def)
  qed
qed

section \<open>Valid grants\<close>

definition iso_time :: "(string \<Rightarrow> int option) \<Rightarrow> string \<Rightarrow> int option" where
  "iso_time host s = (case date_parse host s of Some t \<Rightarrow> if to_iso t = s then Some t else None | None \<Rightarrow> None)"

definition grant_ok :: "url_platform \<Rightarrow> (string \<Rightarrow> int option) \<Rightarrow> access_grant \<Rightarrow> egress_manifest \<Rightarrow> int \<Rightarrow> bool" where
  "grant_ok U host g m now = (manifest_ok U m \<and> grant_id_pattern (ng_id g) \<and>
     trim (ng_subject g) \<noteq> [] \<and> length (ng_subject g) \<le> 160 \<and> trim (ng_purpose g) \<noteq> [] \<and> length (ng_purpose g) \<le> 512 \<and>
     ng_provider g = eg_provider m \<and> ng_manifest g = eg_id m \<and> ng_version g = eg_version m \<and>
     strings_ok isValidHostPattern 1 128 (ng_hosts g) \<and>
     list_all (\<lambda>h. \<not> (eg_exact_hosts m \<and> starts_with ''*.'' (normalizeHostname h)) \<and> list_ex (hostPatternIsWithin h) (eg_hosts m)) (ng_hosts g) \<and>
     strings_ok isMethod 1 2 (ng_methods g) \<and> set (ng_methods g) \<subseteq> set (eg_methods m) \<and>
     bounded 1 (eg_grant_max m) (ng_budget g) \<and>
     (\<exists>i e. iso_time host (ng_issued g) = Some i \<and> iso_time host (ng_expires g) = Some e \<and> i < e \<and> e - i \<le> eg_grant_ttl m \<and>
        i \<le> now \<and> now < e))"

lemma grant_members:
  "member (grant_json g) ''grantId'' = JStr (ng_id g)" "member (grant_json g) ''subject'' = JStr (ng_subject g)"
  "member (grant_json g) ''purpose'' = JStr (ng_purpose g)" "member (grant_json g) ''providerId'' = JStr (ng_provider g)"
  "member (grant_json g) ''manifestId'' = JStr (ng_manifest g)" "member (grant_json g) ''manifestVersion'' = JStr (ng_version g)"
  "member (grant_json g) ''issuedAt'' = JStr (ng_issued g)" "member (grant_json g) ''expiresAt'' = JStr (ng_expires g)"
  "member (grant_json g) ''allowedHosts'' = jstrs (ng_hosts g)" "member (grant_json g) ''allowedMethods'' = jstrs (ng_methods g)"
  "member (grant_json g) ''requestBudget'' = JNum (ng_budget g)" "isRecord (grant_json g)"
  by (simp_all add: member_def grant_json_def)

lemma grant_keys: "rejectUnexpectedKeys (grant_json g) [''grantId'', ''subject'', ''purpose'', ''providerId'', ''manifestId'',
    ''manifestVersion'', ''issuedAt'', ''expiresAt'', ''allowedHosts'', ''allowedMethods'', ''requestBudget''] path = []"
  by (simp add: rejectUnexpectedKeys_def grant_json_def)

lemma isIso_str: "isIsoDateTime host (JStr s) \<longleftrightarrow> iso_time host s \<noteq> None"
  by (auto simp: isIsoDateTime_def iso_time_def split: option.split)

lemma iso_time_parse: "iso_time host s = Some t \<Longrightarrow> date_parse host s = Some t"
  by (auto simp: iso_time_def split: option.splits if_splits)

lemma host_scope_ok: "host_scope_errors m (Some hs) = [] \<longleftrightarrow>
    list_all (\<lambda>h. \<not> (eg_exact_hosts m \<and> starts_with ''*.'' (normalizeHostname h)) \<and> list_ex (hostPatternIsWithin h) (eg_hosts m)) hs"
  by (auto simp: host_scope_errors_def list_all_iff)

lemma window_ok:
  "iso_time host (ng_issued g) = Some i \<Longrightarrow> iso_time host (ng_expires g) = Some e \<Longrightarrow>
    window_errors host (grant_json g) m (Some now) = [] \<longleftrightarrow> i < e \<and> e - i \<le> eg_grant_ttl m \<and> i \<le> now \<and> now < e"
  by (auto simp: window_errors_def grant_members isIso_str iso_time_parse Let_def not_le not_less)

lemma validateNetworkAccessGrant_ok: "validateNetworkAccessGrant U host (grant_json g) m (Some now) = [] \<longleftrightarrow> grant_ok U host g m now"
proof (cases "manifest_ok U m \<and> strings_ok isValidHostPattern 1 128 (ng_hosts g) \<and> strings_ok isMethod 1 2 (ng_methods g) \<and>
    iso_time host (ng_issued g) \<noteq> None \<and> iso_time host (ng_expires g) \<noteq> None")
  case True
  then obtain i e where t: "iso_time host (ng_issued g) = Some i" "iso_time host (ng_expires g) = Some e" by blast
  have p: "isPositiveInteger (JNum (ng_budget g)) (eg_grant_max m) \<longleftrightarrow> bounded 1 (eg_grant_max m) (ng_budget g)"
    using True by (auto simp: manifest_ok_def bounded_def MAX_SAFE_def)
  have h: "stringArray (jstrs (ng_hosts g)) ''allowedHosts'' isValidHostPattern 1 128 = (Some (ng_hosts g), [])"
    "stringArray (jstrs (ng_methods g)) ''allowedMethods'' isMethod 1 2 = (Some (ng_methods g), [])"
    using True by (simp_all add: stringArray_entries)
  have "validateEgressManifest U (manifest_json m) = []" using True by (simp add: validateEgressManifest_ok)
  then show ?thesis
    unfolding validateNetworkAccessGrant_def Let_def append_is_Nil_conv grant_members h prod.case p grant_keys
    using True t by (simp add: grant_members grant_ok_def string_check_def isNonEmptyString_def isIso_str host_scope_ok window_ok [OF t])
      (auto simp: list_ex_iff subset_iff list_all_iff)
next
  case False
  have "snd (stringArray (jstrs (ng_hosts g)) ''allowedHosts'' isValidHostPattern 1 128) = [] \<longleftrightarrow> strings_ok isValidHostPattern 1 128 (ng_hosts g)"
    "snd (stringArray (jstrs (ng_methods g)) ''allowedMethods'' isMethod 1 2) = [] \<longleftrightarrow> strings_ok isMethod 1 2 (ng_methods g)"
    by (simp_all only: stringArray_ok)
  with False show ?thesis
    unfolding validateNetworkAccessGrant_def Let_def case_prod_beta append_is_Nil_conv grant_members
    by (auto simp: grant_ok_def validateEgressManifest_ok isIso_str grant_members)
qed

section \<open>Authorised URLs\<close>

definition path_segments_ok :: "string \<Rightarrow> bool" where
  "path_segments_ok s = (CHR 0x5C \<notin> set s \<and> ''..'' \<notin> set (split_on CHR ''/'' s) \<and> CHR 0x00 \<notin> set s)"

definition url_ok :: "url_platform \<Rightarrow> url_parts \<Rightarrow> string \<Rightarrow> egress_manifest \<Rightarrow> access_grant \<Rightarrow> bool" where
  "url_ok U u mth m g = (ur_protocol u = ''https:'' \<and> ur_username u = [] \<and> ur_password u = [] \<and> ur_hash u = [] \<and>
     \<not> ends_with ''.'' (ur_hostname u) \<and>
     list_ex (hostMatchesPattern (normalizeHostname (ur_hostname u))) (eg_hosts m) \<and>
     list_ex (hostMatchesPattern (normalizeHostname (ur_hostname u))) (ng_hosts g) \<and>
     url_port u \<in> set (eg_ports m) \<and> mth \<in> set (eg_methods m) \<and> mth \<in> set (ng_methods g) \<and>
     (\<exists>d. fullyDecodePath U (ur_path u) = Some d \<and> path_segments_ok d \<and>
        (\<exists>p \<in> set (eg_prefixes m). \<exists>q. fullyDecodePath U p = Some q \<and> pathMatchesPrefix d q)))"

lemma split_on_chars: "c \<noteq> d \<Longrightarrow> (\<exists>seg \<in> set (split_on d s). c \<in> set seg) \<longleftrightarrow> c \<in> set s"
proof (induction s)
  case (Cons e s)
  have "split_on d s \<noteq> []" by (induction s) (auto split: list.splits)
  then show ?case using Cons by (auto simp: neq_Nil_conv split: list.splits)
qed simp

lemma forbidden_iff: "hasForbiddenPathContent s \<longleftrightarrow> \<not> path_segments_ok s"
  using split_on_chars [of "CHR 0x00" "CHR ''/''" s] by (auto simp: hasForbiddenPathContent_def path_segments_ok_def list_ex_iff)

lemma validateUrlAuthorization_ok:
  "validateUrlAuthorization U url mth m g = [] \<longleftrightarrow> (\<exists>u. parse_url U url = Some u \<and> url_ok U u mth m g)"
proof (cases "parse_url U url")
  case (Some u)
  show ?thesis
    unfolding validateUrlAuthorization_def Some option.case Let_def append_is_Nil_conv
    by (cases "fullyDecodePath U (ur_path u)") (auto simp: url_ok_def forbidden_iff list_ex_iff split: option.splits)
qed (simp add: validateUrlAuthorization_def)

lemma decoded_fixpoint: "decode_passes U n s = Some d \<Longrightarrow> decode_component U d = Some d"
  by (induction U n s rule: decode_passes.induct) (auto split: option.splits if_splits)

lemma decoded_path: "fullyDecodePath U s = Some d \<Longrightarrow> decode_component U d = Some d"
  unfolding fullyDecodePath_def by (rule decoded_fixpoint)

section \<open>Properties\<close>

text \<open>The JSON of a manifest has no validation error exactly when the manifest is bound to its provider, its
  lists are within their bounds, free of duplicates and of valid entries, its status ranges lie in 100 to 599
  and do not overlap, its cached methods are allowed methods and every limit is inside its bound.\<close>

lemma manifest_valid_iff: "validateEgressManifest U (manifest_json m) = [] \<longleftrightarrow> manifest_ok U m"
  by (rule validateEgressManifest_ok)

text \<open>A host that a valid grant matches is a host its manifest matches: a grant never widens the boundary. The
  patterns are written without brackets, and the host is in normal form.\<close>

lemma grant_hosts_within_manifest:
  assumes "validateNetworkAccessGrant U host (grant_json g) m (Some now) = []"
    and "p \<in> set (ng_hosts g)" and "hostMatchesPattern h p"
    and "\<not> list_ex (starts_with ''['') (p # eg_hosts m)" and "normalizeHostname h = h"
  shows "list_ex (hostMatchesPattern h) (eg_hosts m)"
proof -
  have ok: "isValidHostPattern p" "list_all isValidHostPattern (eg_hosts m)" "list_ex (hostPatternIsWithin p) (eg_hosts m)"
    using assms(1,2) by (auto simp: validateNetworkAccessGrant_ok grant_ok_def manifest_ok_def strings_ok_def list_all_iff)
  then obtain q where q: "q \<in> set (eg_hosts m)" "hostPatternIsWithin p q" by (auto simp: list_ex_iff)
  then have "normalizeHostname q = q" "normalizeHostname p = p"
    using assms(4) ok(1,2) by (auto simp: list_all_iff list_ex_iff intro: plain_pattern)
  then have "hostMatchesPattern h q" using within_matches [OF assms(3) q(2)] assms(5) by simp
  with q(1) show ?thesis by (auto simp: list_ex_iff)
qed

text \<open>C18: A URL is authorised exactly when it is HTTPS without credentials or fragment, its host matches the manifest
  and the grant, its port and method are allowed, and its path, percent-decoded until nothing changes, has no
  parent segment, backslash or NUL and lies under an allowed prefix.\<close>

theorem url_authorized_iff:
  "validateUrlAuthorization U url mth m g = [] \<longleftrightarrow> (\<exists>u. parse_url U url = Some u \<and> url_ok U u mth m g \<and>
     (\<exists>d. fullyDecodePath U (ur_path u) = Some d \<and> decode_component U d = Some d))"
  unfolding validateUrlAuthorization_ok url_ok_def using decoded_path by blast

section \<open>Witnesses\<close>

definition sample_urls :: url_platform where
  "sample_urls = \<lparr>parse_url = (\<lambda>_. None), decode_component = Some\<rparr>"

definition sample_manifest :: egress_manifest where
  "sample_manifest = \<lparr>eg_id = ''egress:jobs'', eg_provider = ''jobs'', eg_version = ''1.0.0'', eg_hosts = [''*.jobs.org''],
     eg_ports = [443], eg_prefixes = [''/api''], eg_methods = [''GET''], eg_headers = [], eg_max_redirects = 1,
     eg_cross_host = False, eg_statuses = [\<lparr>sr_min = 200, sr_max = 299\<rparr>], eg_content_types = [''text/html''],
     eg_require_type = True, eg_max_body = 1000, eg_timeout = 1000, eg_rate_max = 2, eg_rate_window = 1000,
     eg_cache_ttl = 0, eg_cache_methods = [''GET''], eg_grant_ttl = 604800000, eg_grant_max = 3, eg_exact_hosts = True\<rparr>"

definition sample_network_grant :: access_grant where
  "sample_network_grant = \<lparr>ng_id = ''NAG-12345678'', ng_subject = ''user'', ng_purpose = ''search'', ng_provider = ''jobs'',
     ng_manifest = ''egress:jobs'', ng_version = ''1.0.0'', ng_issued = to_iso 0, ng_expires = to_iso 86400000,
     ng_hosts = [''api.jobs.org''], ng_methods = [''GET''], ng_budget = 2\<rparr>"

lemma sample_manifest_ok: "manifest_ok sample_urls sample_manifest"
  by code_simp

lemma sample_window: "iso_time (\<lambda>_. None) (to_iso 0) = Some 0" "iso_time (\<lambda>_. None) (to_iso 86400000) = Some 86400000"
  by code_simp+

lemma sample_grant_ok: "grant_ok sample_urls (\<lambda>_. None) sample_network_grant sample_manifest 5"
  unfolding grant_ok_def using sample_manifest_ok by (simp add: sample_network_grant_def sample_window) code_simp

end
