(* ===== verification/NetworkGrant.thy ===== *)
theory NetworkGrant
  imports Hash Governance EventStore
begin

text \<open>
  Signed network access grants (src/src/discovery/network-access-grant.ts): the canonical payload of a grant,
  its Ed25519 envelope, the verification of an envelope against the trusted issuers and the egress manifest,
  and the verifier the fetch broker calls. The kind of a key is the parameter \<open>key_platform\<close>; a base64url
  text is decoded and encoded bit by bit. The lemmas say what a verified envelope guarantees and that a
  grant signed by a trusted issuer is verified.
\<close>

record trusted_issuer =
  ti_by :: string
  ti_key :: string
  ti_pem :: string

record grant_envelope =
  ne_grant :: access_grant
  ne_by :: string
  ne_key :: string
  ne_algorithm :: string
  ne_digest :: string
  ne_signature :: string

text \<open>The outcome of a verification: the verified grant with its digest and signer, or the first reason and all
  reasons of a rejection.\<close>

datatype verification = GrantVerified access_grant string string string | GrantRejected string "string list"

text \<open>Whether a PEM text is a private (public) Ed25519 key; nothing when it is not a key at all.\<close>

record key_platform =
  private_key :: "string \<Rightarrow> bool option"
  public_key :: "string \<Rightarrow> bool option"

section \<open>Patterns\<close>

definition GRANT_KEYS :: "string list" where
  "GRANT_KEYS = [''grantId'', ''subject'', ''purpose'', ''providerId'', ''manifestId'', ''manifestVersion'', ''issuedAt'',
     ''expiresAt'', ''allowedHosts'', ''allowedMethods'', ''requestBudget'']"

definition ENVELOPE_KEYS :: "string list" where
  "ENVELOPE_KEYS = [''grant'', ''approvedBy'', ''keyId'', ''signatureAlgorithm'', ''grantDigest'', ''signature'']"

definition approved_by_pattern :: "string \<Rightarrow> bool" where
  "approved_by_pattern s = (1 \<le> length s \<and> length s \<le> 128 \<and> list_all (\<lambda>c. is_alnum c \<or> c \<in> set ''._:-'') s)"

definition key_id_pattern :: "string \<Rightarrow> bool" where
  "key_id_pattern s = (starts_with ''KEY-'' s \<and> 8 \<le> length (drop 4 s) \<and> length (drop 4 s) \<le> 100 \<and>
     list_all (\<lambda>c. is_alnum c \<or> c = CHR ''-'') (drop 4 s))"

definition sha256_digest_pattern :: "string \<Rightarrow> bool" where
  "sha256_digest_pattern s = (starts_with ''sha256:'' s \<and> length (drop 7 s) = 64 \<and> list_all is_hex (drop 7 s))"

definition ED25519 :: string where
  "ED25519 = ''Ed25519''"

definition SIGNING_CONTEXT :: string where
  "SIGNING_CONTEXT = ''vocation-os/network-access-grant/v1''"

section \<open>base64url\<close>

definition b64_alphabet :: string where
  "b64_alphabet = ''ABCDEFGHIJKLMNOPQRSTUVWXYZabcdefghijklmnopqrstuvwxyz0123456789-_''"

definition b64_pattern :: "string \<Rightarrow> bool" where
  "b64_pattern s = (s \<noteq> [] \<and> list_all (\<lambda>c. c \<in> set b64_alphabet) s)"

text \<open>The \<open>w\<close> low bits of a number, most significant first, and back.\<close>

definition bits_of :: "nat \<Rightarrow> nat \<Rightarrow> bool list" where
  "bits_of w n = map (\<lambda>i. odd (n div 2 ^ i)) (rev [0..<w])"

definition nat_of_bits :: "bool list \<Rightarrow> nat" where
  "nat_of_bits bs = foldl (\<lambda>n b. 2 * n + (if b then 1 else 0)) 0 bs"

fun chunks :: "nat \<Rightarrow> nat \<Rightarrow> 'a list \<Rightarrow> 'a list list" where
  "chunks 0 w xs = []"
| "chunks (Suc n) w xs = take w xs # chunks n w (drop w xs)"

definition b64_val :: "char \<Rightarrow> nat" where
  "b64_val c = length (takeWhile (\<lambda>d. d \<noteq> c) b64_alphabet)"

text \<open>Decoding drops the bits that do not fill a byte, encoding pads the last group with zero bits.\<close>

definition b64_decode :: "string \<Rightarrow> nat list" where
  "b64_decode s = map nat_of_bits (chunks (6 * length s div 8) 8 (concat (map (bits_of 6 \<circ> b64_val) s)))"

definition b64_encode :: "nat list \<Rightarrow> string" where
  "b64_encode bs = (let bits = concat (map (bits_of 8) bs); n = (length bits + 5) div 6 in
     map (\<lambda>g. b64_alphabet ! nat_of_bits g) (chunks n 6 (bits @ replicate (6 * n - length bits) False)))"

section \<open>Parsing untrusted values\<close>

definition hasExactDataKeys :: "json \<Rightarrow> string list \<Rightarrow> bool" where
  "hasExactDataKeys j keys = (case j of JObj es \<Rightarrow> length es = length keys \<and> list_all (\<lambda>e. fst e \<in> set keys) es | _ \<Rightarrow> False)"

definition isStrictArray :: "json \<Rightarrow> nat \<Rightarrow> nat \<Rightarrow> bool" where
  "isStrictArray j lo hi = (case j of JArr vs \<Rightarrow> lo \<le> length vs \<and> length vs \<le> hi | _ \<Rightarrow> False)"

definition isCanonicalTimestamp :: "(string \<Rightarrow> int option) \<Rightarrow> json \<Rightarrow> bool" where
  "isCanonicalTimestamp host j = isIsoDateTime host j"

definition isBoundedText :: "json \<Rightarrow> nat \<Rightarrow> bool" where
  "isBoundedText j n = isNonEmptyString j n"

definition str_ok :: "json \<Rightarrow> (string \<Rightarrow> bool) \<Rightarrow> bool" where
  "str_ok j ok = (case jstr j of None \<Rightarrow> False | Some s \<Rightarrow> ok s)"

definition items :: "json \<Rightarrow> json list" where
  "items j = (case j of JArr vs \<Rightarrow> vs | _ \<Rightarrow> [])"

definition strings_in :: "json \<Rightarrow> nat \<Rightarrow> nat \<Rightarrow> (string \<Rightarrow> bool) \<Rightarrow> bool" where
  "strings_in j lo hi ok = (isStrictArray j lo hi \<and> list_all (\<lambda>v. str_ok v ok) (items j) \<and>
     length (dedup (items j)) = length (items j))"

definition parseGrant :: "(string \<Rightarrow> int option) \<Rightarrow> json \<Rightarrow> access_grant option" where
  "parseGrant host j = (let s = (\<lambda>k. the (jstr (member j k))) in
     if \<not> hasExactDataKeys j GRANT_KEYS then None
     else if \<not> str_ok (member j ''grantId'') grant_id_pattern then None
     else if \<not> isBoundedText (member j ''subject'') 160 \<or> \<not> isBoundedText (member j ''purpose'') 512 then None
     else if \<not> str_ok (member j ''providerId'') provider_id_pattern then None
     else if \<not> str_ok (member j ''manifestId'') manifest_id_pattern then None
     else if \<not> str_ok (member j ''manifestVersion'') semantic_version then None
     else if \<not> isCanonicalTimestamp host (member j ''issuedAt'') \<or> \<not> isCanonicalTimestamp host (member j ''expiresAt'') then None
     else if nle (date_parse host (s ''expiresAt'')) (date_parse host (s ''issuedAt'')) then None
     else if \<not> strings_in (member j ''allowedHosts'') 1 128 isValidHostPattern then None
     else if \<not> strings_in (member j ''allowedMethods'') 1 2 isMethod then None
     else if (case jint (member j ''requestBudget'') of None \<Rightarrow> True | Some n \<Rightarrow> MAX_SAFE < \<bar>n\<bar> \<or> n < 1 \<or> 1000000 < n) then None
     else Some \<lparr>ng_id = s ''grantId'', ng_subject = s ''subject'', ng_purpose = s ''purpose'', ng_provider = s ''providerId'',
       ng_manifest = s ''manifestId'', ng_version = s ''manifestVersion'', ng_issued = s ''issuedAt'', ng_expires = s ''expiresAt'',
       ng_hosts = map (the \<circ> jstr) (items (member j ''allowedHosts'')),
       ng_methods = map (the \<circ> jstr) (items (member j ''allowedMethods'')),
       ng_budget = the (jint (member j ''requestBudget''))\<rparr>)"

definition parseEnvelope :: "(string \<Rightarrow> int option) \<Rightarrow> json \<Rightarrow> grant_envelope option" where
  "parseEnvelope host j = (let s = (\<lambda>k. the (jstr (member j k))) in
     if \<not> hasExactDataKeys j ENVELOPE_KEYS then None
     else case parseGrant host (member j ''grant'') of None \<Rightarrow> None | Some g \<Rightarrow>
       if \<not> str_ok (member j ''approvedBy'') approved_by_pattern then None
       else if \<not> str_ok (member j ''keyId'') key_id_pattern then None
       else if \<not> str_ok (member j ''signatureAlgorithm'') (\<lambda>a. 1 \<le> length a \<and> length a \<le> 32) then None
       else if \<not> str_ok (member j ''grantDigest'') (\<lambda>d. length d \<le> 128) then None
       else if \<not> str_ok (member j ''signature'') (\<lambda>x. 1 \<le> length x \<and> length x \<le> 512) then None
       else Some \<lparr>ne_grant = g, ne_by = s ''approvedBy'', ne_key = s ''keyId'', ne_algorithm = s ''signatureAlgorithm'',
         ne_digest = s ''grantDigest'', ne_signature = s ''signature''\<rparr>)"

definition envelope_json :: "grant_envelope \<Rightarrow> json" where
  "envelope_json e = JObj [(''grant'', grant_json (ne_grant e)), (''approvedBy'', JStr (ne_by e)), (''keyId'', JStr (ne_key e)),
     (''signatureAlgorithm'', JStr (ne_algorithm e)), (''grantDigest'', JStr (ne_digest e)), (''signature'', JStr (ne_signature e))]"

section \<open>Signing\<close>

definition signingBinding :: "string \<Rightarrow> string \<Rightarrow> string \<Rightarrow> unit result" where
  "signingBinding who key alg = (
     if \<not> approved_by_pattern who then throw ''Network access grant approver identity is invalid''
     else if \<not> key_id_pattern key then throw ''Network access grant key id is invalid''
     else if alg \<noteq> ED25519 then throw ''Network access grants require Ed25519 signatures''
     else Inr ())"

definition payload_json :: "access_grant \<Rightarrow> string \<Rightarrow> string \<Rightarrow> string \<Rightarrow> json" where
  "payload_json g who key alg = JObj [(''context'', JStr SIGNING_CONTEXT), (''grant'', grant_json g), (''approvedBy'', JStr who),
     (''keyId'', JStr key), (''signatureAlgorithm'', JStr alg)]"

definition canonicalNetworkAccessGrantPayload :: "platform \<Rightarrow> json \<Rightarrow> string \<Rightarrow> string \<Rightarrow> string \<Rightarrow> string result" where
  "canonicalNetworkAccessGrantPayload P j who key alg = (case parseGrant (host_date P) j of
     None \<Rightarrow> throw ''Network access grant must contain exactly the canonical grant fields''
   | Some g \<Rightarrow> bindE (signingBinding who key alg) (\<lambda>_. Inr (stable_stringify (coll_key P) (payload_json g who key alg))))"

definition computeNetworkAccessGrantDigest :: "platform \<Rightarrow> json \<Rightarrow> string \<Rightarrow> string \<Rightarrow> string \<Rightarrow> string result" where
  "computeNetworkAccessGrantDigest P j who key alg = bindE (canonicalNetworkAccessGrantPayload P j who key alg) (\<lambda>p. Inr (sha256 P p))"

definition createSignedNetworkAccessGrant ::
  "platform \<Rightarrow> key_platform \<Rightarrow> json \<Rightarrow> string \<Rightarrow> string \<Rightarrow> string \<Rightarrow> grant_envelope result" where
  "createSignedNetworkAccessGrant P K j who key pem = (case parseGrant (host_date P) j of
     None \<Rightarrow> throw ''Network access grant must contain exactly the canonical grant fields''
   | Some g \<Rightarrow> bindE (signingBinding who key ED25519) (\<lambda>_. case private_key K pem of
       None \<Rightarrow> throw ''Network access grant signing key is invalid''
     | Some ok \<Rightarrow> if \<not> ok then throw ''Network access grant signing key must be an Ed25519 private key''
         else bindE (canonicalNetworkAccessGrantPayload P (grant_json g) who key ED25519) (\<lambda>payload.
           Inr \<lparr>ne_grant = g, ne_by = who, ne_key = key, ne_algorithm = ED25519, ne_digest = sha256 P payload,
             ne_signature = ed25519_sign P pem payload\<rparr>)))"

section \<open>Verification\<close>

definition rejected :: "string list \<Rightarrow> verification" where
  "rejected rs = (let reasons = take 8 (dedup rs) in
     GrantRejected (case reasons of [] \<Rightarrow> ''grant-invalid'' | r # _ \<Rightarrow> r) reasons)"

definition canonicalEd25519Signature :: "string \<Rightarrow> bool" where
  "canonicalEd25519Signature s = (b64_pattern s \<and> length (b64_decode s) = 64 \<and> b64_encode (b64_decode s) = s)"

definition matchingTrustedIssuer :: "trusted_issuer list \<Rightarrow> string \<Rightarrow> string \<Rightarrow> string + trusted_issuer" where
  "matchingTrustedIssuer ts who key = (if length ts > 1024 then Inl ''trust-registry-invalid'' else
     case filter (\<lambda>t. ti_by t = who \<and> ti_key t = key) ts of
       [] \<Rightarrow> Inl ''issuer-not-trusted''
     | [t] \<Rightarrow> if \<not> approved_by_pattern (ti_by t) \<or> \<not> key_id_pattern (ti_key t) \<or> length (ti_pem t) < 1 \<or>
           length (ti_pem t) > 8192 \<or> \<not> starts_with ''-----BEGIN PUBLIC KEY-----'' (ti_pem t)
         then Inl ''trust-registry-invalid'' else Inr t
     | _ \<Rightarrow> Inl ''trust-registry-invalid'')"

definition reason_of :: "string \<Rightarrow> string" where
  "reason_of e = (if starts_with ''manifest:'' e then ''manifest-invalid''
     else if starts_with ''providerId '' e \<or> starts_with ''manifestId '' e \<or> starts_with ''manifestVersion '' e then ''provider-manifest-mismatch''
     else if starts_with ''allowedHosts'' e \<or> starts_with ''allowed host'' e then ''host-scope-invalid''
     else if starts_with ''allowedMethods'' e then ''method-scope-invalid''
     else if starts_with ''requestBudget'' e then ''request-budget-invalid''
     else if e = ''grant is not active yet'' then ''grant-not-active''
     else if e = ''grant has expired'' then ''grant-expired''
     else if includes_str ''lifetime'' e \<or> e = ''expiresAt must be after issuedAt'' then ''grant-window-invalid''
     else ''grant-invalid'')"

fun collect_reasons :: "string list \<Rightarrow> string list \<Rightarrow> string list" where
  "collect_reasons acc [] = acc"
| "collect_reasons acc (e # es) = (let acc' = (if reason_of e \<in> set acc then acc else acc @ [reason_of e]) in
     if 8 \<le> length acc' then acc' else collect_reasons acc' es)"

definition governanceReasons :: "string list \<Rightarrow> string list" where
  "governanceReasons es = collect_reasons [] es"

definition verifyInternal ::
  "platform \<Rightarrow> url_platform \<Rightarrow> key_platform \<Rightarrow> json \<Rightarrow> egress_manifest \<Rightarrow> string \<Rightarrow> trusted_issuer list \<Rightarrow> verification result" where
  "verifyInternal P U K j m verifiedAt trusted = (case parseEnvelope (host_date P) j of
     None \<Rightarrow> Inr (rejected [''envelope-invalid''])
   | Some e \<Rightarrow>
     if ne_algorithm e \<noteq> ED25519 then Inr (rejected [''algorithm-not-allowed''])
     else if \<not> sha256_digest_pattern (ne_digest e) then Inr (rejected [''grant-digest-invalid''])
     else if \<not> canonicalEd25519Signature (ne_signature e) then Inr (rejected [''signature-encoding-invalid''])
     else bindE (canonicalNetworkAccessGrantPayload P (grant_json (ne_grant e)) (ne_by e) (ne_key e) ED25519) (\<lambda>payload.
     if sha256 P payload \<noteq> ne_digest e then Inr (rejected [''grant-digest-mismatch''])
     else case matchingTrustedIssuer trusted (ne_by e) (ne_key e) of Inl r \<Rightarrow> Inr (rejected [r])
     | Inr t \<Rightarrow>
       if public_key K (ti_pem t) \<noteq> Some True then Inr (rejected [''trusted-key-invalid''])
       else if ed25519_verify P (ti_pem t) payload (ne_signature e) \<noteq> Some True then Inr (rejected [''signature-invalid''])
       else if \<not> isCanonicalTimestamp (host_date P) (JStr verifiedAt) then Inr (rejected [''verification-time-invalid''])
       else let errors = validateNetworkAccessGrant U (host_date P) (grant_json (ne_grant e)) m (parse_date P verifiedAt) in
         if errors \<noteq> [] then Inr (rejected (governanceReasons errors))
         else Inr (GrantVerified (ne_grant e) (ne_digest e) (ne_by e) (ne_key e))))"

definition verifySignedNetworkAccessGrant ::
  "platform \<Rightarrow> url_platform \<Rightarrow> key_platform \<Rightarrow> json \<Rightarrow> egress_manifest \<Rightarrow> string \<Rightarrow> trusted_issuer list \<Rightarrow> verification" where
  "verifySignedNetworkAccessGrant P U K j m verifiedAt trusted = (case verifyInternal P U K j m verifiedAt trusted of
     Inr v \<Rightarrow> v | Inl _ \<Rightarrow> rejected [''verification-unavailable''])"

text \<open>The verifier handed to the broker: the resolver of envelopes and the source of trusted issuers may fail,
  and \<open>aborted i\<close> is the state of the abort signal at its \<open>i\<close>-th check. The result is a reason, or verified.\<close>

definition createSignedNetworkAccessGrantVerifier ::
  "platform \<Rightarrow> url_platform \<Rightarrow> key_platform \<Rightarrow> (access_grant \<Rightarrow> json result) \<Rightarrow> trusted_issuer list result \<Rightarrow>
   json \<Rightarrow> egress_manifest \<Rightarrow> string \<Rightarrow> (nat \<Rightarrow> bool) \<Rightarrow> string option" where
  "createSignedNetworkAccessGrantVerifier P U K resolveEnvelope trustedIssuers j m verifiedAt aborted = (
     if aborted 0 then Some ''verification-aborted''
     else case parseGrant (host_date P) j of None \<Rightarrow> Some ''grant-invalid''
     | Some supplied \<Rightarrow> (case resolveEnvelope supplied of Inl _ \<Rightarrow> Some ''verification-unavailable''
     | Inr envelope \<Rightarrow>
       if aborted 1 then Some ''verification-aborted''
       else case trustedIssuers of Inl _ \<Rightarrow> Some ''verification-unavailable''
       | Inr trusted \<Rightarrow>
         if aborted 2 then Some ''verification-aborted''
         else case verifySignedNetworkAccessGrant P U K envelope m verifiedAt trusted of
           GrantRejected _ rs \<Rightarrow> Some (joins '','' rs)
         | GrantVerified g _ _ _ \<Rightarrow>
             if stable_stringify (coll_key P) (grant_json supplied) \<noteq> stable_stringify (coll_key P) (grant_json g)
             then Some ''grant-mismatch'' else None))"

section \<open>Parsed grants\<close>

text \<open>What every parsed grant satisfies, whatever the manifest.\<close>

definition grant_fields :: "(string \<Rightarrow> int option) \<Rightarrow> access_grant \<Rightarrow> bool" where
  "grant_fields host g = (grant_id_pattern (ng_id g) \<and>
     trim (ng_subject g) \<noteq> [] \<and> length (ng_subject g) \<le> 160 \<and> trim (ng_purpose g) \<noteq> [] \<and> length (ng_purpose g) \<le> 512 \<and>
     provider_id_pattern (ng_provider g) \<and> manifest_id_pattern (ng_manifest g) \<and> semantic_version (ng_version g) \<and>
     (\<exists>i e. iso_time host (ng_issued g) = Some i \<and> iso_time host (ng_expires g) = Some e \<and> i < e) \<and>
     strings_ok isValidHostPattern 1 128 (ng_hosts g) \<and> strings_ok isMethod 1 2 (ng_methods g) \<and> bounded 1 1000000 (ng_budget g))"

lemma str_ok_iff: "str_ok j ok \<longleftrightarrow> (\<exists>s. j = JStr s \<and> ok s)"
  by (cases j) (auto simp: str_ok_def)

lemma text_iff: "isNonEmptyString j n \<longleftrightarrow> (\<exists>s. j = JStr s \<and> trim s \<noteq> [] \<and> length s \<le> n)"
  by (cases j) (auto simp: isNonEmptyString_def)

lemma iso_iff: "isIsoDateTime host j \<longleftrightarrow> (\<exists>s t. j = JStr s \<and> iso_time host s = Some t)"
  by (cases j) (auto simp: isIsoDateTime_def iso_time_def split: option.splits if_splits)

lemma int_iff: "(case jint j of None \<Rightarrow> True | Some n \<Rightarrow> MAX_SAFE < \<bar>n\<bar> \<or> n < 1 \<or> 1000000 < n) \<longleftrightarrow>
    \<not> (\<exists>n. j = JNum n \<and> bounded 1 1000000 n)"
  by (cases j) (auto simp: bounded_def MAX_SAFE_def)

lemma strs_map: "list_all (\<lambda>v. str_ok v ok) vs \<Longrightarrow> \<exists>xs. vs = map JStr xs \<and> list_all ok xs"
proof (induction vs)
  case (Cons v vs)
  then obtain xs s where "vs = map JStr xs" "list_all ok xs" "v = JStr s" "ok s" by (auto simp: str_ok_iff)
  then show ?case by (intro exI [of _ "s # xs"]) simp
qed simp

lemma strings_in_iff: "strings_in j lo hi ok \<longleftrightarrow> (\<exists>xs. j = jstrs xs \<and> strings_ok ok lo hi xs)"
proof
  assume s: "strings_in j lo hi ok"
  then obtain vs where j: "j = JArr vs" by (cases j) (auto simp: strings_in_def isStrictArray_def)
  with s obtain xs where "vs = map JStr xs" "list_all ok xs" using strs_map by (auto simp: strings_in_def items_def)
  with s j show "\<exists>xs. j = jstrs xs \<and> strings_ok ok lo hi xs"
    using length_dedup_eq_iff [of "map JStr xs"]
    by (intro exI [of _ xs]) (auto simp: strings_in_def isStrictArray_def items_def strings_ok_def jstrs_def distinct_map)
next
  have "distinct (map JStr xs) \<longleftrightarrow> distinct xs" for xs by (simp add: distinct_map inj_on_def)
  then show "\<exists>xs. j = jstrs xs \<and> strings_ok ok lo hi xs \<Longrightarrow> strings_in j lo hi ok"
    by (auto simp: strings_in_def isStrictArray_def items_def strings_ok_def jstrs_def length_dedup_eq_iff list_all_iff str_ok_iff)
qed

lemma items_jstrs: "map (the \<circ> jstr) (items (jstrs xs)) = xs"
  by (simp add: items_def jstrs_def comp_def)

lemma hasExactDataKeys_grant: "hasExactDataKeys (grant_json g) GRANT_KEYS"
  by (simp add: hasExactDataKeys_def grant_json_def GRANT_KEYS_def)

lemma parseGrant_sound: "parseGrant host j = Some g \<Longrightarrow> grant_fields host g"
  unfolding parseGrant_def Let_def isBoundedText_def isCanonicalTimestamp_def
  by (auto simp: str_ok_iff text_iff iso_iff int_iff strings_in_iff items_jstrs grant_fields_def nle_def iso_time_parse
      split: if_splits option.splits)

lemma parseGrant_json: "parseGrant host (grant_json g) = (if grant_fields host g then Some g else None)"
proof (cases "grant_fields host g")
  case True
  then show ?thesis
    unfolding parseGrant_def Let_def isBoundedText_def isCanonicalTimestamp_def grant_members int_iff
    by (auto simp: hasExactDataKeys_grant str_ok_iff text_iff iso_iff strings_in_iff items_jstrs grant_fields_def nle_def iso_time_parse)
next
  case False
  have "g' = g" if "parseGrant host (grant_json g) = Some g'" for g'
    using that unfolding parseGrant_def Let_def grant_members items_jstrs by (auto split: if_splits)
  with False parseGrant_sound [of host "grant_json g"] show ?thesis by (cases "parseGrant host (grant_json g)") auto
qed

lemma grant_ok_fields: "grant_ok U host g m now \<Longrightarrow> grant_fields host g"
  by (auto simp: grant_ok_def grant_fields_def manifest_ok_def manifest_id_pattern_def bounded_def)

section \<open>What the digest binds\<close>

lemma grant_json_safe: "array_safe (grant_json g)" "array_safe (payload_json g who key alg)" "grant_json g \<noteq> JUndef" "payload_json g who key alg \<noteq> JUndef"
  by (simp_all add: grant_json_def payload_json_def jstrs_def)

lemma grant_json_inj: "canon ck (grant_json g) = canon ck (grant_json g') \<longleftrightarrow> g = g'"
proof
  assume "canon ck (grant_json g) = canon ck (grant_json g')"
  then have "list_all2 (\<lambda>e f. canon ck (snd e) = canon ck (snd f))
      (case grant_json g of JObj es \<Rightarrow> es) (case grant_json g' of JObj es \<Rightarrow> es)"
    unfolding grant_json_def by (simp only: json.case) (rule canon_obj_eq, assumption, simp, simp)
  then show "g = g'" by (simp add: grant_json_def del: canon.simps) (simp add: access_grant.equality)
qed simp

lemma payload_inj:
  assumes "canon ck (payload_json g who key alg) = canon ck (payload_json g' who' key' alg')"
  shows "g = g' \<and> who = who' \<and> key = key'"
proof -
  from assms have "list_all2 (\<lambda>e f. canon ck (snd e) = canon ck (snd f))
      (case payload_json g who key alg of JObj es \<Rightarrow> es) (case payload_json g' who' key' alg' of JObj es \<Rightarrow> es)"
    unfolding payload_json_def by (simp only: json.case) (rule canon_obj_eq, assumption, simp, simp)
  then show ?thesis by (simp add: payload_json_def grant_json_inj del: canon.simps)
qed

lemma same_text_same_grant:
  "stable_stringify ck (grant_json g) = stable_stringify ck (grant_json g') \<longleftrightarrow> g = g'"
  using stable_stringify_eq_iff [of "grant_json g" "grant_json g'" ck] by (simp add: grant_json_safe grant_json_inj)

section \<open>Verified envelopes\<close>

definition payload_text_of :: "platform \<Rightarrow> grant_envelope \<Rightarrow> string" where
  "payload_text_of P e = stable_stringify (coll_key P) (payload_json (ne_grant e) (ne_by e) (ne_key e) ED25519)"

definition issuer_ok :: "key_platform \<Rightarrow> trusted_issuer list \<Rightarrow> grant_envelope \<Rightarrow> trusted_issuer \<Rightarrow> bool" where
  "issuer_ok K ts e t = (length ts \<le> 1024 \<and> filter (\<lambda>t. ti_by t = ne_by e \<and> ti_key t = ne_key e) ts = [t] \<and>
     approved_by_pattern (ne_by e) \<and> key_id_pattern (ne_key e) \<and> length (ti_pem t) \<le> 8192 \<and>
     starts_with ''-----BEGIN PUBLIC KEY-----'' (ti_pem t) \<and> public_key K (ti_pem t) = Some True)"

text \<open>An envelope that is intact, signed by the trusted issuer \<open>t\<close>, and grants access under the manifest at \<open>now\<close>.\<close>

definition envelope_ok :: "platform \<Rightarrow> url_platform \<Rightarrow> key_platform \<Rightarrow> egress_manifest \<Rightarrow> trusted_issuer list \<Rightarrow> grant_envelope \<Rightarrow> trusted_issuer \<Rightarrow> int \<Rightarrow> bool" where
  "envelope_ok P U K m ts e t now = (ne_algorithm e = ED25519 \<and> sha256_digest_pattern (ne_digest e) \<and>
     canonicalEd25519Signature (ne_signature e) \<and> ne_digest e = sha256 P (payload_text_of P e) \<and> issuer_ok K ts e t \<and>
     ed25519_verify P (ti_pem t) (payload_text_of P e) (ne_signature e) = Some True \<and> grant_ok U (host_date P) (ne_grant e) m now)"

lemma parseEnvelope_sound:
  assumes "parseEnvelope host j = Some e"
  shows "grant_fields host (ne_grant e) \<and> approved_by_pattern (ne_by e) \<and> key_id_pattern (ne_key e)"
proof (cases "parseGrant host (member j ''grant'')")
  case None
  then show ?thesis using assms by (simp add: parseEnvelope_def Let_def split: if_split_asm)
next
  case (Some g)
  have "ne_grant e = g \<and> str_ok (JStr (ne_by e)) approved_by_pattern \<and> str_ok (JStr (ne_key e)) key_id_pattern"
    using assms unfolding parseEnvelope_def Let_def Some option.case by (simp add: str_ok_iff split: if_split_asm) (elim exE conjE, drule sym, simp)
  with parseGrant_sound [OF Some] show ?thesis by (simp add: str_ok_iff)
qed

lemma payload_of_envelope:
  assumes "grant_fields (host_date P) g" and "approved_by_pattern who" and "key_id_pattern key"
  shows "canonicalNetworkAccessGrantPayload P (grant_json g) who key ED25519 = Inr (stable_stringify (coll_key P) (payload_json g who key ED25519))"
  using assms by (simp add: canonicalNetworkAccessGrantPayload_def parseGrant_json signingBinding_def)

lemma matching_iff:
  assumes "approved_by_pattern who" and "key_id_pattern key"
  shows "matchingTrustedIssuer ts who key = Inr t \<longleftrightarrow> length ts \<le> 1024 \<and> filter (\<lambda>t. ti_by t = who \<and> ti_key t = key) ts = [t] \<and>
      length (ti_pem t) \<le> 8192 \<and> starts_with ''-----BEGIN PUBLIC KEY-----'' (ti_pem t)"
proof -
  have f: "filter (\<lambda>t. ti_by t = who \<and> ti_key t = key) ts = u # us \<Longrightarrow> ti_by u = who \<and> ti_key u = key" for u us
    by (metis (mono_tags, lifting) filter_eq_ConsD)
  have n: "starts_with ''-----BEGIN PUBLIC KEY-----'' [] = False" by simp
  show ?thesis
  proof (cases "filter (\<lambda>t. ti_by t = who \<and> ti_key t = key) ts")
    case (Cons u us)
    have p: "length (ti_pem u) < 1 \<longleftrightarrow> ti_pem u = []" by auto
    show ?thesis
    proof (cases us)
      case Nil
      then show ?thesis using f [OF Cons] Cons assms n by (simp add: matchingTrustedIssuer_def p not_less) (cases "u = t"; auto)
    qed (simp add: matchingTrustedIssuer_def Cons)
  qed (simp add: matchingTrustedIssuer_def)
qed

lemma rejected_not: "rejected rs \<noteq> GrantVerified g d who key"
  by (simp add: rejected_def Let_def)

lemma verified_iff:
  "verifySignedNetworkAccessGrant P U K j m at ts = GrantVerified g d who key \<longleftrightarrow>
     (\<exists>e t now. parseEnvelope (host_date P) j = Some e \<and> iso_time (host_date P) at = Some now \<and> envelope_ok P U K m ts e t now \<and>
        g = ne_grant e \<and> d = ne_digest e \<and> who = ne_by e \<and> key = ne_key e)"
proof (cases "parseEnvelope (host_date P) j")
  case (Some e)
  note s = parseEnvelope_sound [OF Some]
  have m: "matchingTrustedIssuer ts (ne_by e) (ne_key e) = Inr t \<and> public_key K (ti_pem t) = Some True \<longleftrightarrow> issuer_ok K ts e t" for t
    using s by (auto simp: matching_iff issuer_ok_def)
  have p: "canonicalNetworkAccessGrantPayload P (grant_json (ne_grant e)) (ne_by e) (ne_key e) ED25519 = Inr (payload_text_of P e)"
    using s by (simp add: payload_of_envelope payload_text_of_def)
  have i: "isCanonicalTimestamp (host_date P) (JStr at) \<longleftrightarrow> iso_time (host_date P) at \<noteq> None"
    by (simp add: isCanonicalTimestamp_def isIso_str)
  show ?thesis
  proof (cases "matchingTrustedIssuer ts (ne_by e) (ne_key e)")
    case (Inl r)
    then have "\<not> issuer_ok K ts e t" for t using m [of t] by simp
    with Inl show ?thesis
      by (simp add: verifySignedNetworkAccessGrant_def verifyInternal_def Some p rejected_not envelope_ok_def)
  next
    case (Inr t)
    then have u: "issuer_ok K ts e t' \<longleftrightarrow> t' = t \<and> public_key K (ti_pem t) = Some True" for t' using m [of t'] by auto
    have v: "iso_time (host_date P) at = Some now \<Longrightarrow>
        validateNetworkAccessGrant U (host_date P) (grant_json (ne_grant e)) m (parse_date P at) = [] \<longleftrightarrow> grant_ok U (host_date P) (ne_grant e) m now" for now
      by (simp add: iso_time_parse validateNetworkAccessGrant_ok)
    show ?thesis
      using Some by (auto simp: verifySignedNetworkAccessGrant_def verifyInternal_def p Inr rejected_not envelope_ok_def u i v Let_def)
  qed
qed (simp add: verifySignedNetworkAccessGrant_def verifyInternal_def rejected_not)

lemma verifier_accepts_iff:
  "createSignedNetworkAccessGrantVerifier P U K resolve issuers j m at aborted = None \<longleftrightarrow>
     \<not> aborted 0 \<and> \<not> aborted 1 \<and> \<not> aborted 2 \<and>
     (\<exists>e env ts t now. parseGrant (host_date P) j = Some (ne_grant e) \<and> resolve (ne_grant e) = Inr env \<and> issuers = Inr ts \<and>
        parseEnvelope (host_date P) env = Some e \<and> iso_time (host_date P) at = Some now \<and> envelope_ok P U K m ts e t now)"
    (is "?l \<longleftrightarrow> ?r")
proof
  assume ?l
  then obtain g env ts g' d who key where "\<not> aborted 0" "\<not> aborted 1" "\<not> aborted 2" "parseGrant (host_date P) j = Some g" "resolve g = Inr env"
    "issuers = Inr ts" "verifySignedNetworkAccessGrant P U K env m at ts = GrantVerified g' d who key" "g' = g"
    by (auto simp: createSignedNetworkAccessGrantVerifier_def same_text_same_grant split: if_splits option.splits sum.splits verification.splits)
  then show ?r by (auto simp: verified_iff)
next
  assume ?r
  then obtain e env ts t now where r: "\<not> aborted 0" "\<not> aborted 1" "\<not> aborted 2" "parseGrant (host_date P) j = Some (ne_grant e)"
    "resolve (ne_grant e) = Inr env" "issuers = Inr ts" "parseEnvelope (host_date P) env = Some e" "iso_time (host_date P) at = Some now"
    "envelope_ok P U K m ts e t now" by blast
  then have "verifySignedNetworkAccessGrant P U K env m at ts = GrantVerified (ne_grant e) (ne_digest e) (ne_by e) (ne_key e)"
    unfolding verified_iff by blast
  with r show ?l by (simp add: createSignedNetworkAccessGrantVerifier_def)
qed

lemma parseEnvelope_json:
  assumes "grant_fields host (ne_grant e)" and "approved_by_pattern (ne_by e)" and "key_id_pattern (ne_key e)"
    and "ne_algorithm e = ED25519" and "length (ne_digest e) \<le> 128" and "1 \<le> length (ne_signature e)" and "length (ne_signature e) \<le> 512"
  shows "parseEnvelope host (envelope_json e) = Some e"
proof -
  have k: "hasExactDataKeys (envelope_json e) ENVELOPE_KEYS" by (simp add: hasExactDataKeys_def envelope_json_def ENVELOPE_KEYS_def)
  have m: "member (envelope_json e) ''grant'' = grant_json (ne_grant e)" "member (envelope_json e) ''approvedBy'' = JStr (ne_by e)"
    "member (envelope_json e) ''keyId'' = JStr (ne_key e)" "member (envelope_json e) ''signatureAlgorithm'' = JStr (ne_algorithm e)"
    "member (envelope_json e) ''grantDigest'' = JStr (ne_digest e)" "member (envelope_json e) ''signature'' = JStr (ne_signature e)"
    by (simp_all add: member_def envelope_json_def)
  have "1 \<le> length (ne_algorithm e) \<and> length (ne_algorithm e) \<le> 32" using assms(4) by (simp add: ED25519_def)
  then show ?thesis
    unfolding parseEnvelope_def Let_def m using k assms by (simp add: parseGrant_json str_ok_def)
qed

lemma sha256_digest: "hex_digest P \<Longrightarrow> sha256_digest_pattern (sha256 P s) \<and> length (sha256 P s) = 71"
  by (auto simp: hex_digest_def sha256_digest_pattern_def sha256_def)

lemma canonical_signature_length: "canonicalEd25519Signature s \<Longrightarrow> 1 \<le> length s \<and> length s \<le> 512"
proof -
  assume c: "canonicalEd25519Signature s"
  have l: "length (chunks n w xs) = n" for n w and xs :: "bool list" by (induction n w xs rule: chunks.induct) auto
  have "length (b64_decode s) = 6 * length s div 8" by (simp add: b64_decode_def l)
  with c show ?thesis by (auto simp: canonicalEd25519Signature_def b64_pattern_def Suc_le_eq)
qed

lemma created_envelope:
  assumes "createSignedNetworkAccessGrant P K j who key pem = Inr e"
  shows "parseGrant (host_date P) j = Some (ne_grant e) \<and> ne_by e = who \<and> ne_key e = key \<and> ne_algorithm e = ED25519 \<and>
    approved_by_pattern who \<and> key_id_pattern key \<and> ne_digest e = sha256 P (payload_text_of P e) \<and>
    ne_signature e = ed25519_sign P pem (payload_text_of P e)"
proof (cases "parseGrant (host_date P) j")
  case (Some g)
  then show ?thesis
    using assms payload_of_envelope [OF parseGrant_sound [OF Some]]
    by (auto simp: createSignedNetworkAccessGrant_def payload_text_of_def signingBinding_def split: option.splits if_splits)
qed (use assms in \<open>simp add: createSignedNetworkAccessGrant_def\<close>)

section \<open>Properties\<close>

text \<open>C21: The verifier accepts a grant exactly when it was not aborted, the grant parses, and the envelope found for it
  carries this very grant under an intact digest, with a canonical Ed25519 signature that the key of the one
  trusted issuer of that name verifies, and the grant is valid under the manifest at the verification time.\<close>

theorem verifier_accepts_exactly:
  "createSignedNetworkAccessGrantVerifier P U K resolve issuers j m at aborted = None \<longleftrightarrow>
     \<not> aborted 0 \<and> \<not> aborted 1 \<and> \<not> aborted 2 \<and>
     (\<exists>e env ts t now. parseGrant (host_date P) j = Some (ne_grant e) \<and> resolve (ne_grant e) = Inr env \<and> issuers = Inr ts \<and>
        parseEnvelope (host_date P) env = Some e \<and> iso_time (host_date P) at = Some now \<and> envelope_ok P U K m ts e t now)"
  by (rule verifier_accepts_iff)

text \<open>A grant signed with the key of the one trusted issuer of that name is accepted by the verifier that looks the
  envelope up, at every moment at which the grant is valid under the manifest.\<close>

lemma signed_grant_accepted:
  assumes "createSignedNetworkAccessGrant P K (grant_json g) who key pem = Inr e"
    and "hex_digest P" and "canonicalEd25519Signature (ed25519_sign P pem (payload_text_of P e))"
    and "ed25519_verify P (ti_pem t) (payload_text_of P e) (ed25519_sign P pem (payload_text_of P e)) = Some True"
    and "issuer_ok K ts e t" and "iso_time (host_date P) at = Some now" and "grant_ok U (host_date P) g m now"
  shows "createSignedNetworkAccessGrantVerifier P U K (\<lambda>_. Inr (envelope_json e)) (Inr ts) (grant_json g) m at (\<lambda>_. False) = None"
proof -
  note c = created_envelope [OF assms(1)] and g = grant_ok_fields [OF assms(7)]
  then have e: "ne_grant e = g" by (simp add: parseGrant_json)
  have "parseEnvelope (host_date P) (envelope_json e) = Some e"
    using c g e assms(3) sha256_digest [OF assms(2)] canonical_signature_length by (intro parseEnvelope_json) auto
  moreover have "envelope_ok P U K m ts e t now"
    using c e assms sha256_digest [OF assms(2)] by (simp add: envelope_ok_def)
  ultimately show ?thesis
    unfolding verifier_accepts_iff using assms(6) g e by (auto simp: parseGrant_json)
qed

definition sample_signing :: platform where
  "sample_signing = sample_platform\<lparr>sha256_hex := \<lambda>s. pad 64 (length s mod 10 ^ 64),
     ed25519_sign := \<lambda>k s. replicate 86 CHR ''A'', ed25519_verify := \<lambda>k s x. Some (x = replicate 86 CHR ''A'')\<rparr>"

definition sample_keys :: key_platform where
  "sample_keys = \<lparr>private_key = \<lambda>_. Some True, public_key = \<lambda>_. Some True\<rparr>"

definition sample_issuer :: trusted_issuer where
  "sample_issuer = \<lparr>ti_by = ''operator'', ti_key = ''KEY-12345678'', ti_pem = ''-----BEGIN PUBLIC KEY-----''\<rparr>"

lemma sample_signature: "canonicalEd25519Signature (replicate 86 CHR ''A'')"
  by code_simp

lemma sample_issuer_patterns: "approved_by_pattern ''operator''" "key_id_pattern ''KEY-12345678''"
  by code_simp+

lemma sample_signing_digest: "hex_digest sample_signing"
proof -
  have "length (pad 64 (n mod 10 ^ 64)) = 64" "list_all is_hex (pad 64 (n mod 10 ^ 64))" for n :: nat
    using pad_length [of "n mod 10 ^ 64" 64] pad_digits [of 64 "n mod 10 ^ 64"] by (auto simp: list_all_iff is_hex_def)
  then show ?thesis by (simp add: hex_digest_def sample_signing_def)
qed

lemma sample_grant_signed:
  "\<exists>e. createSignedNetworkAccessGrant sample_signing sample_keys (grant_json sample_network_grant) ''operator'' ''KEY-12345678'' ''key'' = Inr e"
proof -
  have h: "host_date sample_signing = (\<lambda>_. None)" by (simp add: sample_signing_def sample_platform_def)
  have f: "grant_fields (host_date sample_signing) sample_network_grant" unfolding h by (rule grant_ok_fields [OF sample_grant_ok])
  have b: "signingBinding ''operator'' ''KEY-12345678'' ED25519 = Inr ()" by (simp add: signingBinding_def sample_issuer_patterns)
  show ?thesis
    using f b payload_of_envelope [OF f sample_issuer_patterns] by (simp add: createSignedNetworkAccessGrant_def parseGrant_json sample_keys_def)
qed

end
