(* ===== verification/RateGate.thy ===== *)
theory RateGate
  imports NetworkGrant
begin

text \<open>
  The rate gate of the fetch broker (src/src/discovery/governed-fetch-broker.ts, \<open>InMemoryGovernedRateGate\<close>).
  A gate charges every request it allows to its grant and to the window of its manifest. What a client needs
  of a gate is the locale \<open>request_budget\<close>: an allowed request found budget left and is charged, no other
  grant is. A retry delay of \<open>None\<close> is the NaN of an empty window under a limit below one. Inside the locale the number of allowed requests of a grant is bounded by its budget, for any sequence.
\<close>

record gate_request =
  gr_manifest :: egress_manifest
  gr_grant :: access_grant
  gr_at :: int

record gate_decision =
  gd_allowed :: bool
  gd_reason :: "string option"
  gd_retry :: "int option"

section \<open>The interface\<close>

text \<open>The decisions of a gate on a sequence of requests.\<close>

fun decisions :: "('r \<Rightarrow> 's \<Rightarrow> 's \<times> gate_decision) \<Rightarrow> 'r list \<Rightarrow> 's \<Rightarrow> ('r \<times> gate_decision) list" where
  "decisions consume [] s = []"
| "decisions consume (r # rs) s = (case consume r s of (s', d) \<Rightarrow> (r, d) # decisions consume rs s')"

text \<open>\<open>key\<close> names the grant a request is charged to, \<open>limit\<close> is its budget and \<open>used\<close> what is charged so far.\<close>

locale request_budget =
  fixes consume :: "'r \<Rightarrow> 's \<Rightarrow> 's \<times> gate_decision" and key :: "'r \<Rightarrow> string" and limit :: "'r \<Rightarrow> int"
    and used :: "'s \<Rightarrow> string \<Rightarrow> int"
  assumes charged: "consume r s = (s', d) \<Longrightarrow> gd_allowed d \<Longrightarrow>
      used s (key r) < limit r \<and> used s' = (used s)(key r := used s (key r) + 1)"
    and refused: "consume r s = (s', d) \<Longrightarrow> \<not> gd_allowed d \<Longrightarrow> used s' = used s"
    and same_limit: "key r = key q \<Longrightarrow> limit r = limit q"
begin

lemma allowed_within:
  "int (length (filter (\<lambda>(r, d). key r = key q \<and> gd_allowed d) (decisions consume rs s))) \<le> max 0 (limit q - used s (key q))"
proof (induction rs arbitrary: s)
  case (Cons r rs)
  obtain s' d where c: "consume r s = (s', d)" by fastforce
  show ?case
  proof (cases "gd_allowed d")
    case True
    note u = charged [OF c True]
    show ?thesis
    proof (cases "key r = key q")
      case True
      then have "limit r = limit q" by (rule same_limit)
      with u True Cons.IH [of s'] c \<open>gd_allowed d\<close> show ?thesis by simp
    next
      case False
      with u Cons.IH [of s'] c show ?thesis by simp
    qed
  next
    case False
    with refused [OF c False] Cons.IH [of s'] c show ?thesis by simp
  qed
qed simp

end

section \<open>The gate in memory\<close>

record memory_gate =
  mg_windows :: "string \<rightharpoonup> int list"
  mg_usage :: "string \<rightharpoonup> int"

definition grantUsageKey :: "platform \<Rightarrow> access_grant \<Rightarrow> string" where
  "grantUsageKey P g = stable_stringify (coll_key P) (JObj [(''grantId'', JStr (ng_id g)), (''manifestId'', JStr (ng_manifest g)),
     (''manifestVersion'', JStr (ng_version g)), (''issuedAt'', JStr (ng_issued g)), (''expiresAt'', JStr (ng_expires g)),
     (''requestBudget'', JNum (ng_budget g))])"

definition windowKey :: "egress_manifest \<Rightarrow> string" where
  "windowKey m = eg_id m @ ''@'' @ eg_version m"

definition used_by :: "memory_gate \<Rightarrow> string \<Rightarrow> int" where
  "used_by s k = (case mg_usage s k of None \<Rightarrow> 0 | Some n \<Rightarrow> n)"

definition memory_consume :: "platform \<Rightarrow> gate_request \<Rightarrow> memory_gate \<Rightarrow> memory_gate \<times> gate_decision" where
  "memory_consume P r s = (
     let usage_key = grantUsageKey P (gr_grant r); used = used_by s usage_key in
     if ng_budget (gr_grant r) \<le> used
     then (s, \<lparr>gd_allowed = False, gd_reason = Some ''grant-budget'', gd_retry = Some 0\<rparr>)
     else
       let window = windowKey (gr_manifest r);
           cutoff = gr_at r - eg_rate_window (gr_manifest r);
           active = filter (\<lambda>t. cutoff < t) (case mg_windows s window of None \<Rightarrow> [] | Some ts \<Rightarrow> ts) in
       if eg_rate_max (gr_manifest r) \<le> int (length active)
       then (s\<lparr>mg_windows := (mg_windows s)(window \<mapsto> active)\<rparr>,
         \<lparr>gd_allowed = False, gd_reason = Some ''provider-rate-limit'',
           gd_retry = (case active of [] \<Rightarrow> None | t # _ \<Rightarrow> Some (max 1 (t + eg_rate_window (gr_manifest r) - gr_at r)))\<rparr>)
       else (s\<lparr>mg_windows := (mg_windows s)(window \<mapsto> active @ [gr_at r]), mg_usage := (mg_usage s)(usage_key \<mapsto> used + 1)\<rparr>,
         \<lparr>gd_allowed = True, gd_reason = None, gd_retry = Some 0\<rparr>))"

definition empty_gate :: memory_gate where
  "empty_gate = \<lparr>mg_windows = Map.empty, mg_usage = Map.empty\<rparr>"

lemma grantUsageKey_eq:
  "grantUsageKey P g = grantUsageKey P h \<longleftrightarrow> ng_id g = ng_id h \<and> ng_manifest g = ng_manifest h \<and> ng_version g = ng_version h \<and>
    ng_issued g = ng_issued h \<and> ng_expires g = ng_expires h \<and> ng_budget g = ng_budget h"
proof
  define es where "es g = [(''grantId'', JStr (ng_id g)), (''manifestId'', JStr (ng_manifest g)), (''manifestVersion'', JStr (ng_version g)),
     (''issuedAt'', JStr (ng_issued g)), (''expiresAt'', JStr (ng_expires g)), (''requestBudget'', JNum (ng_budget g))]" for g :: access_grant
  assume "grantUsageKey P g = grantUsageKey P h"
  then have "canon (coll_key P) (JObj (es g)) = canon (coll_key P) (JObj (es h))"
    using stable_stringify_eq_iff [of "JObj (es g)" "JObj (es h)"] by (simp add: grantUsageKey_def es_def)
  then have "list_all2 (\<lambda>e f. canon (coll_key P) (snd e) = canon (coll_key P) (snd f)) (es g) (es h)"
    by (rule canon_obj_eq) (simp_all add: es_def)
  then show "ng_id g = ng_id h \<and> ng_manifest g = ng_manifest h \<and> ng_version g = ng_version h \<and>
    ng_issued g = ng_issued h \<and> ng_expires g = ng_expires h \<and> ng_budget g = ng_budget h" by (simp add: es_def)
qed (simp add: grantUsageKey_def)

interpretation memory_budget: request_budget "memory_consume P" "\<lambda>r. grantUsageKey P (gr_grant r)" "\<lambda>r. ng_budget (gr_grant r)" used_by
  for P
proof
  fix r s s' d assume c: "memory_consume P r s = (s', d)"
  show "used_by s (grantUsageKey P (gr_grant r)) < ng_budget (gr_grant r) \<and>
      used_by s' = (used_by s)(grantUsageKey P (gr_grant r) := used_by s (grantUsageKey P (gr_grant r)) + 1)" if "gd_allowed d"
    using c that by (auto simp: memory_consume_def used_by_def Let_def fun_eq_iff split: if_splits)
  show "used_by s' = used_by s" if "\<not> gd_allowed d"
    using c that by (auto simp: memory_consume_def used_by_def Let_def fun_eq_iff split: if_splits)
qed (simp add: grantUsageKey_eq)

text \<open>Whatever requests reach a new gate, and in whatever order, it never allows more requests of one grant than the
  grant's budget: grants that differ in purpose or hosts only share the budget.\<close>

lemma budget_never_exceeded:
  "int (length (filter (\<lambda>(r, d). grantUsageKey P (gr_grant r) = grantUsageKey P (gr_grant (q :: gate_request)) \<and> gd_allowed d)
     (decisions (memory_consume P) rs empty_gate))) \<le> max 0 (ng_budget (gr_grant q))"
  using memory_budget.allowed_within [of P q rs empty_gate] by (simp add: used_by_def empty_gate_def)

end
