(* ===== verification/IpPolicy.thy ===== *)
theory IpPolicy
  imports Prelude "HOL-Library.Word"
begin

unbundle bit_operations_syntax

text \<open>
  Which network addresses may be contacted (src/src/discovery/ip-policy.ts): the parsers of dotted and of
  colon addresses, the table of denied prefixes, and the check of a resolver's answer. An IPv4 address is a
  32 bit word, an IPv6 address a 128 bit word. \<open>isIP\<close> of \<open>node:net\<close> and the collation order of the final
  sort are parameters. The lemmas give each table entry as an interval of addresses, and show that the
  textual form of an accepted dotted address is unique.
\<close>

record resolved_address =
  ra_address :: string
  ra_family :: nat

section \<open>IPv4\<close>

text \<open>One part: \<open>/^\d{1,3}$/\<close>, at most 255, no leading zero.\<close>

definition octet_ok :: "string \<Rightarrow> bool" where
  "octet_ok p = (p \<noteq> [] \<and> length p \<le> 3 \<and> list_all is_digit p \<and> digits_val p \<le> 255 \<and> nat_str (digits_val p) = p)"

definition parseIpv4 :: "string \<Rightarrow> 32 word option" where
  "parseIpv4 s = (let parts = split_on CHR ''.'' s in
     if length parts \<noteq> 4 \<or> \<not> list_all octet_ok parts then None
     else Some (of_nat (foldl (\<lambda>r p. r * 256 + digits_val p) 0 parts)))"

definition ipv4_mask :: "nat \<Rightarrow> 32 word" where
  "ipv4_mask n = (if n = 0 then 0 else push_bit (32 - n) 0xffffffff)"

definition ipv4InCidr :: "32 word \<Rightarrow> 32 word \<Rightarrow> nat \<Rightarrow> bool" where
  "ipv4InCidr v b n = (v AND ipv4_mask n = b AND ipv4_mask n)"

definition denied_ipv4 :: "(32 word \<times> nat) list" where
  "denied_ipv4 = [(0x00000000, 8), (0x0a000000, 8), (0x64400000, 10), (0x7f000000, 8), (0xa9fe0000, 16),
     (0xac100000, 12), (0xc0000000, 24), (0xc0000200, 24), (0xc0586300, 24), (0xc0a80000, 16),
     (0xc6120000, 15), (0xc6336400, 24), (0xcb007100, 24), (0xe0000000, 4), (0xf0000000, 4)]"

definition public_ipv4 :: "32 word \<Rightarrow> bool" where
  "public_ipv4 a = (\<not> list_ex (\<lambda>(b, n). ipv4InCidr a b n) denied_ipv4)"

definition isPublicIpv4 :: "string \<Rightarrow> bool" where
  "isPublicIpv4 s = (case parseIpv4 s of None \<Rightarrow> False | Some a \<Rightarrow> public_ipv4 a)"

section \<open>IPv6\<close>

fun hex_str :: "nat \<Rightarrow> string" where
  "hex_str n = (if n < 16 then [if n < 10 then char_of (48 + n) else char_of (87 + n)]
     else hex_str (n div 16) @ [if n mod 16 < 10 then char_of (48 + n mod 16) else char_of (87 + n mod 16)])"

declare hex_str.simps [simp del]

definition hex_digit_val :: "char \<Rightarrow> nat" where
  "hex_digit_val c = (if is_digit c then of_char c - 48 else of_char c - 87)"

definition hex_str_val :: "string \<Rightarrow> nat" where
  "hex_str_val s = foldl (\<lambda>n c. 16 * n + hex_digit_val c) 0 s"

text \<open>\<open>split("::")\<close>.\<close>

fun split_colons :: "string \<Rightarrow> string list" where
  "split_colons [] = [[]]"
| "split_colons [c] = [[c]]"
| "split_colons (c # d # s) = (if c = CHR '':'' \<and> d = CHR '':'' then [] # split_colons s
     else case split_colons (d # s) of [] \<Rightarrow> [[c]] | x # xs \<Rightarrow> (c # x) # xs)"

definition before_last :: "char \<Rightarrow> string \<Rightarrow> string" where
  "before_last c s = rev (drop 1 (dropWhile (\<lambda>d. d \<noteq> c) (rev s)))"

definition after_last :: "char \<Rightarrow> string \<Rightarrow> string" where
  "after_last c s = rev (takeWhile (\<lambda>d. d \<noteq> c) (rev s))"

text \<open>The rewriting of an embedded dotted address as two groups.\<close>

definition expand_dotted :: "string \<Rightarrow> string option" where
  "expand_dotted s = (if CHR ''.'' \<notin> set s then Some s
     else if CHR '':'' \<notin> set s then None
     else case parseIpv4 (after_last CHR '':'' s) of None \<Rightarrow> None
       | Some v \<Rightarrow> Some (before_last CHR '':'' s @ '':'' @ hex_str (unat (drop_bit 16 v AND 0xffff)) @ '':'' @
           hex_str (unat (v AND 0xffff))))"

definition strip_brackets :: "string \<Rightarrow> string" where
  "strip_brackets s = (if starts_with ''['' s \<and> ends_with '']'' s then butlast (drop 1 s) else s)"

definition group_ok :: "string \<Rightarrow> bool" where
  "group_ok p = (p \<noteq> [] \<and> length p \<le> 4 \<and> list_all is_hex p)"

definition groups :: "string \<Rightarrow> string list" where
  "groups s = (if s = [] then [] else split_on CHR '':'' s)"

definition combine_groups :: "string list \<Rightarrow> 128 word" where
  "combine_groups ps = foldl (\<lambda>r p. push_bit 16 r OR of_nat (hex_str_val p)) 0 ps"

definition ipv6_parts :: "string \<Rightarrow> string list option" where
  "ipv6_parts s = (let n1 = strip_brackets (to_lower s) in
     if CHR ''%'' \<in> set n1 then None
     else case expand_dotted n1 of None \<Rightarrow> None | Some n2 \<Rightarrow>
     let compressed = split_colons n2 in
     if length compressed > 2 then None
     else let left = groups (hd compressed); right = (if length compressed = 2 then groups (compressed ! 1) else []) in
     if \<not> list_all group_ok (left @ right) then None
     else let missing = 8 - int (length left) - int (length right) in
     if (length compressed = 1 \<and> missing \<noteq> 0) \<or> (length compressed = 2 \<and> missing < 1) then None
     else let parts = left @ replicate (nat missing) ''0'' @ right in
     if length parts \<noteq> 8 then None else Some parts)"

definition parseIpv6 :: "string \<Rightarrow> 128 word option" where
  "parseIpv6 s = map_option combine_groups (ipv6_parts s)"

definition ipv6InCidr :: "128 word \<Rightarrow> 128 word \<Rightarrow> nat \<Rightarrow> bool" where
  "ipv6InCidr v b n = (if n = 0 then True else drop_bit (128 - n) v = drop_bit (128 - n) b)"

definition ipv6Base :: "string \<Rightarrow> 128 word result" where
  "ipv6Base s = (case parseIpv6 s of None \<Rightarrow> throw (''Invalid internal IPv6 prefix: '' @ s) | Some v \<Rightarrow> Inr v)"

definition ipv4FromBigInt :: "128 word \<Rightarrow> string" where
  "ipv4FromBigInt v = joins ''.'' (map (\<lambda>n. nat_str (unat (drop_bit n v AND 0xff))) [24, 16, 8, 0])"

definition denied_ipv6 :: "(string \<times> nat) list" where
  "denied_ipv6 = [(''2001::'', 32), (''2001:2::'', 48), (''2001:10::'', 28), (''2001:20::'', 28), (''2001:db8::'', 32),
     (''2002::'', 16), (''fc00::'', 7), (''fe80::'', 10), (''fec0::'', 10), (''ff00::'', 8)]"

definition isPublicIpv6 :: "string \<Rightarrow> bool result" where
  "isPublicIpv6 s = (case parseIpv6 s of None \<Rightarrow> Inr False | Some a \<Rightarrow>
     let high96 = drop_bit 32 a in
     if high96 = 0 \<or> high96 = 0xffff then Inr (isPublicIpv4 (ipv4FromBigInt a))
     else bindE (ipv6Base ''2000::'') (\<lambda>g. if \<not> ipv6InCidr a g 3 then Inr False
     else bindE (mapE (\<lambda>(p, n). bindE (ipv6Base p) (\<lambda>b. Inr (b, n))) denied_ipv6) (\<lambda>denied.
       Inr (\<not> list_ex (\<lambda>(b, n). ipv6InCidr a b n) denied))))"

section \<open>The answer of a resolver\<close>

definition isPublicNetworkAddress :: "(string \<Rightarrow> nat) \<Rightarrow> string \<Rightarrow> bool result" where
  "isPublicNetworkAddress isIP a = (let family = isIP a in
     if family = 4 then Inr (isPublicIpv4 a) else if family = 6 then isPublicIpv6 a else Inr False)"

text \<open>\<open>Map.set\<close>: a key that is there keeps its place.\<close>

fun map_put :: "'k \<Rightarrow> 'v \<Rightarrow> ('k \<times> 'v) list \<Rightarrow> ('k \<times> 'v) list" where
  "map_put k v [] = [(k, v)]"
| "map_put k v ((j, w) # es) = (if j = k then (j, v) # es else (j, w) # map_put k v es)"

fun collect_addresses :: "(string \<Rightarrow> nat) \<Rightarrow> resolved_address list \<Rightarrow> (string \<times> resolved_address) list \<Rightarrow>
    (string \<times> resolved_address) list result" where
  "collect_addresses isIP [] acc = Inr acc"
| "collect_addresses isIP (e # es) acc = (
     if isIP (ra_address e) \<noteq> ra_family e then throw ''DNS resolution returned an invalid address family''
     else bindE (isPublicNetworkAddress isIP (ra_address e)) (\<lambda>ok.
     if \<not> ok then throw ''DNS resolution returned a non-public address''
     else collect_addresses isIP es (map_put (nat_str (ra_family e) @ '':'' @ to_lower (ra_address e))
       \<lparr>ra_address = to_lower (ra_address e), ra_family = ra_family e\<rparr> acc)))"

definition validateResolvedAddresses ::
  "(string \<Rightarrow> nat) \<Rightarrow> (string \<Rightarrow> string) \<Rightarrow> resolved_address list \<Rightarrow> resolved_address list result" where
  "validateResolvedAddresses isIP coll addresses = (if addresses = [] then throw ''DNS resolution returned no addresses''
     else bindE (collect_addresses isIP addresses []) (\<lambda>m.
       Inr (sort_key ra_family (sort_key (\<lambda>r. coll (ra_address r)) (map snd m)))))"

section \<open>Prefixes are intervals\<close>

lemma mask_eq: "n \<le> 32 \<Longrightarrow> ipv4_mask n = NOT (mask (32 - n))"
proof -
  assume n: "n \<le> 32"
  have a: "(0xffffffff :: 32 word) = - 1" by simp
  show "ipv4_mask n = NOT (mask (32 - n))"
    using n unfolding ipv4_mask_def a
    by (intro bit_word_eqI) (auto simp: bit_simps not_less)
qed

lemma and_not_mask: "(v :: 'a::len word) AND NOT (mask k) = push_bit k (drop_bit k v)"
  by (intro bit_word_eqI) (auto simp: bit_simps)

lemma drop_and_not_mask: "drop_bit k ((v :: 'a::len word) AND NOT (mask k)) = drop_bit k v"
  by (intro bit_word_eqI) (auto simp: bit_simps dest: bit_imp_le_length)

lemma same_prefix: "(v :: 'a::len word) AND NOT (mask k) = b AND NOT (mask k) \<longleftrightarrow> drop_bit k v = drop_bit k b"
  by (metis and_not_mask drop_and_not_mask)

lemma drop_bit_same: "drop_bit k (v :: 'a::len word) = drop_bit k b \<longleftrightarrow> unat v div 2 ^ k = unat b div 2 ^ k"
  unfolding word_unat_eq_iff unat_drop_bit_eq by (simp only: drop_bit_eq_div)

lemma ipv4InCidr_iff: "n \<le> 32 \<Longrightarrow> ipv4InCidr v b n \<longleftrightarrow> unat v div 2 ^ (32 - n) = unat b div 2 ^ (32 - n)"
  by (simp only: ipv4InCidr_def mask_eq same_prefix drop_bit_same)

lemma ipv6InCidr_iff: "n \<le> 128 \<Longrightarrow> ipv6InCidr v b n \<longleftrightarrow> unat v div 2 ^ (128 - n) = unat b div 2 ^ (128 - n)"
proof (cases "n = 0")
  case True
  have "unat v < 2 ^ 128" "unat b < 2 ^ 128" using unsigned_less [of v, where ?'a = nat] unsigned_less [of b, where ?'a = nat] by simp_all
  with True show ?thesis by (simp only: ipv6InCidr_def) simp
qed (simp only: ipv6InCidr_def drop_bit_same if_False)

section \<open>Dotted addresses\<close>

definition dotted :: "nat list \<Rightarrow> string" where
  "dotted ns = joins ''.'' (map nat_str ns)"

definition dotted_val :: "nat list \<Rightarrow> nat" where
  "dotted_val ns = foldl (\<lambda>r n. r * 256 + n) 0 ns"

lemma split_on_none: "c \<notin> set s \<Longrightarrow> split_on c s = [s]"
  by (induction s) auto

lemma split_on_append: "c \<notin> set s \<Longrightarrow> split_on c (s @ c # r) = s # split_on c r"
  by (induction s) auto

lemma split_on_joins: "xs \<noteq> [] \<Longrightarrow> \<forall>x \<in> set xs. c \<notin> set x \<Longrightarrow> split_on c (joins [c] xs) = xs"
proof (induction xs)
  case (Cons x xs)
  then show ?case by (cases xs) (auto simp: split_on_none split_on_append)
qed simp

lemma joins_split_on: "joins [c] (split_on c s) = s"
proof (induction s)
  case (Cons d s)
  have "joins [c] ((d # x) # xs) = d # joins [c] (x # xs)" for x xs by (cases xs) auto
  moreover have "joins [c] ([] # x # xs) = c # joins [c] (x # xs)" for x xs by simp
  moreover have "split_on c s \<noteq> []" by (induction s) (auto split: list.splits)
  ultimately show ?case using Cons by (auto simp: neq_Nil_conv)
qed simp

lemma no_dot_digits: "list_all is_digit s \<Longrightarrow> CHR ''.'' \<notin> set s"
  by (auto simp: list_all_iff is_digit_def)

lemma octet_ok_iff: "octet_ok p \<longleftrightarrow> (\<exists>n \<le> 255. p = nat_str n)"
proof
  assume "octet_ok p"
  then show "\<exists>n \<le> 255. p = nat_str n" unfolding octet_ok_def by metis
next
  assume "\<exists>n \<le> 255. p = nat_str n"
  then obtain n where n: "n \<le> 255" "p = nat_str n" by blast
  then have "length (nat_str n) \<le> 3" by (intro nat_str_length) auto
  with n show "octet_ok p" by (simp add: octet_ok_def nat_str_digits)
qed

lemma parseIpv4_iff:
  "parseIpv4 s = Some w \<longleftrightarrow> (\<exists>ns. length ns = 4 \<and> (\<forall>n \<in> set ns. n \<le> 255) \<and> s = dotted ns \<and> w = of_nat (dotted_val ns))"
  (is "?l \<longleftrightarrow> ?r")
proof
  have fold: "foldl (\<lambda>r p. r * 256 + digits_val p) a (map nat_str ns) = foldl (\<lambda>r n. r * 256 + n) a ns" for a ns
    by (induction ns arbitrary: a) auto
  {
    assume ?l
    then have len: "length (split_on CHR ''.'' s) = 4" and ok: "list_all octet_ok (split_on CHR ''.'' s)"
      and w: "w = of_nat (foldl (\<lambda>r p. r * 256 + digits_val p) 0 (split_on CHR ''.'' s))"
      by (auto simp: parseIpv4_def Let_def split: if_splits)
    define ns where "ns = map digits_val (split_on CHR ''.'' s)"
    have m: "map nat_str ns = split_on CHR ''.'' s"
      unfolding ns_def map_map using ok by (intro map_idI) (auto simp: list_all_iff octet_ok_def)
    have "s = dotted ns" unfolding dotted_def m by (rule joins_split_on [symmetric])
    moreover have "w = of_nat (dotted_val ns)" unfolding w m [symmetric] fold dotted_val_def ..
    moreover have "\<forall>n \<in> set ns. n \<le> 255" using ok by (auto simp: ns_def list_all_iff octet_ok_def)
    moreover have "length ns = 4" using len by (simp add: ns_def)
    ultimately show ?r by blast
  }
  assume ?r
  then obtain ns where ns: "length ns = 4" "\<forall>n \<in> set ns. n \<le> 255" "s = dotted ns" "w = of_nat (dotted_val ns)" by blast
  have "split_on CHR ''.'' s = map nat_str ns"
    unfolding ns(3) dotted_def using ns(1) no_dot_digits nat_str_digits by (intro split_on_joins) auto
  then show ?l using ns octet_ok_iff by (auto simp: parseIpv4_def list_all_iff fold dotted_val_def)
qed

definition public_quad :: "nat \<Rightarrow> nat \<Rightarrow> nat \<Rightarrow> bool" where
  "public_quad a b c = (a \<notin> {0, 10, 127} \<and> a < 224 \<and> \<not> (a = 100 \<and> 64 \<le> b \<and> b < 128) \<and> \<not> (a = 169 \<and> b = 254) \<and>
     \<not> (a = 172 \<and> 16 \<le> b \<and> b < 32) \<and>
     \<not> (a = 192 \<and> ((b = 0 \<and> (c = 0 \<or> c = 2)) \<or> (b = 88 \<and> c = 99) \<or> b = 168)) \<and>
     \<not> (a = 198 \<and> (b = 18 \<or> b = 19 \<or> (b = 51 \<and> c = 100))) \<and> \<not> (a = 203 \<and> b = 0 \<and> c = 113))"

lemma quad_div:
  fixes a b c d :: nat
  assumes "a \<le> 255" "b \<le> 255" "c \<le> 255" "d \<le> 255"
  defines "x \<equiv> dotted_val [a, b, c, d]"
  shows "x div 16777216 = a" "x div 4194304 = a * 4 + b div 64" "x div 65536 = a * 256 + b" "x div 1048576 = a * 16 + b div 16"
    "x div 256 = (a * 256 + b) * 256 + c" "x div 131072 = a * 128 + b div 2" "x div 268435456 = a div 16" "x < 4294967296"
proof -
  have l: "a < 256" "b < 256" "c < 256" "d < 256" using assms(1-4) by simp_all
  have x: "x = ((a * 256 + b) * 256 + c) * 256 + d" by (simp add: x_def dotted_val_def)
  have m: "(q * m + r) div m = q" if "r < m" for q r m :: nat using that by simp
  have 1: "x div 256 = (a * 256 + b) * 256 + c" unfolding x by (rule m [OF l(4)])
  have 2: "x div 65536 = a * 256 + b" using 1 m [OF l(3)] div_mult2_eq [of x 256 256] by simp
  have 3: "x div 16777216 = a" using 2 m [OF l(2)] div_mult2_eq [of x 65536 256] by simp
  have k: "(a * (p * k) + b) div k = a * p + b div k" if "0 < k" for p k :: nat using div_mult_self3 [of k "a * p" b] that by (simp add: ac_simps)
  show "x div 256 = (a * 256 + b) * 256 + c" "x div 65536 = a * 256 + b" "x div 16777216 = a" by fact+
  show "x div 4194304 = a * 4 + b div 64" using 2 k [of 64 4] div_mult2_eq [of x 65536 64] by simp
  show "x div 1048576 = a * 16 + b div 16" using 2 k [of 16 16] div_mult2_eq [of x 65536 16] by simp
  show "x div 131072 = a * 128 + b div 2" using 2 k [of 2 128] div_mult2_eq [of x 65536 2] by simp
  show "x div 268435456 = a div 16" using 3 div_mult2_eq [of x 16777216 16] by simp
  show "x < 4294967296" using l unfolding x by simp
qed

lemma div_eq_interval: "0 < k \<Longrightarrow> (b :: nat) div k = q \<longleftrightarrow> q * k \<le> b \<and> b < (q + 1) * k"
proof -
  assume k: "0 < k"
  then have "b < k + k * (b div k)" using dividend_less_div_times [of k b] by (simp add: algebra_simps)
  with k show ?thesis by (auto simp: algebra_simps intro!: div_nat_eqI)
qed
lemma digits_eq: "y < K \<Longrightarrow> l < K \<Longrightarrow> x * K + y = k * K + l \<longleftrightarrow> x = k \<and> y = (l :: nat)"
proof -
  assume y: "y < K" "l < K"
  then have "(x * K + y) div K = x" "(x * K + y) mod K = y" "(k * K + l) div K = k" "(k * K + l) mod K = l" by simp_all
  then show ?thesis by metis
qed
lemma public_ipv4_quad:
  assumes "a \<le> 255" "b \<le> 255" "c \<le> 255" "d \<le> 255"
  shows "public_ipv4 (of_nat (dotted_val [a, b, c, d])) = public_quad a b c"
proof -
  have "unat (of_nat (dotted_val [a, b, c, d]) :: 32 word) = dotted_val [a, b, c, d]"
    using quad_div(8) [OF assms] by (simp add: unat_of_nat)
  then have "public_ipv4 (of_nat (dotted_val [a, b, c, d])) \<longleftrightarrow>
      a \<noteq> 0 \<and> a \<noteq> 10 \<and> a * 4 + b div 64 \<noteq> 401 \<and> a \<noteq> 127 \<and> a * 256 + b \<noteq> 43518 \<and> a * 16 + b div 16 \<noteq> 2753 \<and>
      (a * 256 + b) * 256 + c \<noteq> 12582912 \<and> (a * 256 + b) * 256 + c \<noteq> 12582914 \<and> (a * 256 + b) * 256 + c \<noteq> 12605539 \<and>
      a * 256 + b \<noteq> 49320 \<and> a * 128 + b div 2 \<noteq> 25353 \<and> (a * 256 + b) * 256 + c \<noteq> 12989284 \<and>
      (a * 256 + b) * 256 + c \<noteq> 13303921 \<and> a div 16 \<noteq> 14 \<and> a div 16 \<noteq> 15"
    by (simp add: public_ipv4_def denied_ipv4_def ipv4InCidr_iff quad_div [OF assms])
  also have "\<dots> \<longleftrightarrow> public_quad a b c"
  proof -
    have three: "(a * 256 + b) * 256 + c = (k * 256 + l) * 256 + m \<longleftrightarrow> a = k \<and> b = l \<and> c = m" if "l \<le> 255" "m \<le> 255" for k l m :: nat
      using that assms digits_eq [of c 256 m "a * 256 + b" "k * 256 + l"] digits_eq [of b 256 l a k] by simp
    have e1: "(a * 256 + b) * 256 + c = 12582912 \<longleftrightarrow> a = 192 \<and> b = 0 \<and> c = 0"
      "(a * 256 + b) * 256 + c = 12582914 \<longleftrightarrow> a = 192 \<and> b = 0 \<and> c = 2"
      "(a * 256 + b) * 256 + c = 12605539 \<longleftrightarrow> a = 192 \<and> b = 88 \<and> c = 99"
      "(a * 256 + b) * 256 + c = 12989284 \<longleftrightarrow> a = 198 \<and> b = 51 \<and> c = 100"
      "(a * 256 + b) * 256 + c = 13303921 \<longleftrightarrow> a = 203 \<and> b = 0 \<and> c = 113"
      using three [of 0 0 192] three [of 0 2 192] three [of 88 99 192] three [of 51 100 198] three [of 0 113 203] by simp_all
    have e2: "a * 4 + b div 64 = 401 \<longleftrightarrow> a = 100 \<and> 64 \<le> b \<and> b < 128" "a * 256 + b = 43518 \<longleftrightarrow> a = 169 \<and> b = 254"
      "a * 16 + b div 16 = 2753 \<longleftrightarrow> a = 172 \<and> 16 \<le> b \<and> b < 32" "a * 256 + b = 49320 \<longleftrightarrow> a = 192 \<and> b = 168"
      using assms digits_eq [of "b div 64" 4 1 a 100] div_eq_interval [of 64 b 1] digits_eq [of b 256 254 a 169]
        digits_eq [of "b div 16" 16 1 a 172] div_eq_interval [of 16 b 1] digits_eq [of b 256 168 a 192] by simp_all
    have e3: "a * 128 + b div 2 = 25353 \<longleftrightarrow> a = 198 \<and> (b = 18 \<or> b = 19)"
      using assms digits_eq [of "b div 2" 128 9 a 198] div_eq_interval [of 2 b 9] by auto
    have e4: "a div 16 \<noteq> 14 \<and> a div 16 \<noteq> 15 \<longleftrightarrow> a < 224"
      using assms div_eq_interval [of 16 a 14] div_eq_interval [of 16 a 15] by auto
    show ?thesis unfolding e1 e2 e3 e4 public_quad_def insert_iff empty_iff by satx
  qed
  finally show ?thesis .
qed

lemma length_four: "length xs = 4 \<longleftrightarrow> (\<exists>a b c d. xs = [a, b, c, d])"
  by (auto simp: length_Suc_conv numeral_eq_Suc)

lemma isPublicIpv4_iff: "isPublicIpv4 s \<longleftrightarrow> (\<exists>a b c d. a \<le> 255 \<and> b \<le> 255 \<and> c \<le> 255 \<and> d \<le> 255 \<and>
    s = dotted [a, b, c, d] \<and> public_quad a b c)"
proof
  assume "isPublicIpv4 s"
  then obtain w where w: "parseIpv4 s = Some w" "public_ipv4 w" by (auto simp: isPublicIpv4_def split: option.splits)
  then obtain ns where ns: "length ns = 4" "\<forall>n \<in> set ns. n \<le> 255" "s = dotted ns" "w = of_nat (dotted_val ns)"
    unfolding parseIpv4_iff by blast
  then obtain a b c d where "ns = [a, b, c, d]" unfolding length_four by blast
  with ns w(2) show "\<exists>a b c d. a \<le> 255 \<and> b \<le> 255 \<and> c \<le> 255 \<and> d \<le> 255 \<and> s = dotted [a, b, c, d] \<and> public_quad a b c"
    using public_ipv4_quad [of a b c d] by auto
next
  assume "\<exists>a b c d. a \<le> 255 \<and> b \<le> 255 \<and> c \<le> 255 \<and> d \<le> 255 \<and> s = dotted [a, b, c, d] \<and> public_quad a b c"
  then obtain a b c d where q: "a \<le> 255" "b \<le> 255" "c \<le> 255" "d \<le> 255" "s = dotted [a, b, c, d]" "public_quad a b c" by blast
  then have "parseIpv4 s = Some (of_nat (dotted_val [a, b, c, d]))"
    unfolding parseIpv4_iff by (intro exI [of _ "[a, b, c, d]"]) simp
  then show "isPublicIpv4 s" using public_ipv4_quad [OF q(1-4)] q(6) by (simp add: isPublicIpv4_def)
qed

section \<open>IPv6 addresses\<close>

lemma combine_groups_nums:
  "combine_groups [''2001'', ''0'', ''0'', ''0'', ''0'', ''0'', ''0'', ''0''] = 0x20010000000000000000000000000000"
  "combine_groups [''2001'', ''2'', ''0'', ''0'', ''0'', ''0'', ''0'', ''0''] = 0x20010002000000000000000000000000"
  "combine_groups [''2001'', ''10'', ''0'', ''0'', ''0'', ''0'', ''0'', ''0''] = 0x20010010000000000000000000000000"
  "combine_groups [''2001'', ''20'', ''0'', ''0'', ''0'', ''0'', ''0'', ''0''] = 0x20010020000000000000000000000000"
  "combine_groups [''2001'', ''db8'', ''0'', ''0'', ''0'', ''0'', ''0'', ''0''] = 0x20010db8000000000000000000000000"
  "combine_groups [''2002'', ''0'', ''0'', ''0'', ''0'', ''0'', ''0'', ''0''] = 0x20020000000000000000000000000000"
  "combine_groups [''fc00'', ''0'', ''0'', ''0'', ''0'', ''0'', ''0'', ''0''] = 0xfc000000000000000000000000000000"
  "combine_groups [''fe80'', ''0'', ''0'', ''0'', ''0'', ''0'', ''0'', ''0''] = 0xfe800000000000000000000000000000"
  "combine_groups [''fec0'', ''0'', ''0'', ''0'', ''0'', ''0'', ''0'', ''0''] = 0xfec00000000000000000000000000000"
  "combine_groups [''ff00'', ''0'', ''0'', ''0'', ''0'', ''0'', ''0'', ''0''] = 0xff000000000000000000000000000000"
  "combine_groups [''2000'', ''0'', ''0'', ''0'', ''0'', ''0'', ''0'', ''0''] = 0x20000000000000000000000000000000"
  by (simp_all add: combine_groups_def hex_str_val_def hex_digit_val_def is_digit_def)

lemma ipv6_prefix_parts:
  "ipv6_parts ''2001::'' = Some [''2001'', ''0'', ''0'', ''0'', ''0'', ''0'', ''0'', ''0'']"
  "ipv6_parts ''2001:2::'' = Some [''2001'', ''2'', ''0'', ''0'', ''0'', ''0'', ''0'', ''0'']"
  "ipv6_parts ''2001:10::'' = Some [''2001'', ''10'', ''0'', ''0'', ''0'', ''0'', ''0'', ''0'']"
  "ipv6_parts ''2001:20::'' = Some [''2001'', ''20'', ''0'', ''0'', ''0'', ''0'', ''0'', ''0'']"
  "ipv6_parts ''2001:db8::'' = Some [''2001'', ''db8'', ''0'', ''0'', ''0'', ''0'', ''0'', ''0'']"
  "ipv6_parts ''2002::'' = Some [''2002'', ''0'', ''0'', ''0'', ''0'', ''0'', ''0'', ''0'']"
  "ipv6_parts ''fc00::'' = Some [''fc00'', ''0'', ''0'', ''0'', ''0'', ''0'', ''0'', ''0'']"
  "ipv6_parts ''fe80::'' = Some [''fe80'', ''0'', ''0'', ''0'', ''0'', ''0'', ''0'', ''0'']"
  "ipv6_parts ''fec0::'' = Some [''fec0'', ''0'', ''0'', ''0'', ''0'', ''0'', ''0'', ''0'']"
  "ipv6_parts ''ff00::'' = Some [''ff00'', ''0'', ''0'', ''0'', ''0'', ''0'', ''0'', ''0'']"
  "ipv6_parts ''2000::'' = Some [''2000'', ''0'', ''0'', ''0'', ''0'', ''0'', ''0'', ''0'']"
  by code_simp+

lemma octet_bits: "unat (drop_bit n (v :: 128 word) AND 0xff) = unat v div 2 ^ n mod 256"
proof -
  have m: "x AND 255 = x mod 256" for x :: nat
    using take_bit_eq_mask [of 8 x] by (simp add: take_bit_eq_mod mask_eq_exp_minus_1)
  show ?thesis by (simp only: unsigned_and_eq unat_drop_bit_eq) (simp add: m drop_bit_eq_div)
qed

lemma base256_digits: "dotted_val [x div 16777216 mod 256, x div 65536 mod 256, x div 256 mod 256, x mod 256] = x mod 4294967296"
proof -
  have "x mod (65536 * 65536) = 65536 * (x div 65536 mod 65536) + x mod 65536" for x :: nat by (rule mod_mult2_eq)
  moreover have "y mod (256 * 256) = 256 * (y div 256 mod 256) + y mod 256" for y :: nat by (rule mod_mult2_eq)
  moreover have "x div 65536 div 256 = x div 16777216" by (simp flip: div_mult2_eq)
  ultimately show ?thesis by (simp add: dotted_val_def)
qed

lemma mod256_le: "(x :: nat) mod 256 \<le> 255"
  using mod_less_divisor [of 256 x] by simp

lemma ipv4FromBigInt_public: "isPublicIpv4 (ipv4FromBigInt a) = public_ipv4 (ucast a)"
proof -
  let ?x = "unat a"
  let ?ns = "[?x div 16777216 mod 256, ?x div 65536 mod 256, ?x div 256 mod 256, ?x mod 256]"
  have d: "ipv4FromBigInt a = dotted ?ns" by (simp add: ipv4FromBigInt_def dotted_def octet_bits)
  have "of_nat (?x mod 4294967296) = (ucast a :: 32 word)"
    by (rule word_unat_eq_iff [THEN iffD2]) (simp add: unat_of_nat unsigned_ucast_eq take_bit_eq_mod)
  then have "parseIpv4 (ipv4FromBigInt a) = Some (ucast a)"
    unfolding parseIpv4_iff by (intro exI [of _ ?ns]) (simp add: d base256_digits mod256_le)
  then show ?thesis by (simp add: isPublicIpv4_def)
qed

text \<open>The addresses of the native space that are public: \<open>2000::/3\<close> without the special prefixes.\<close>

definition public_ipv6 :: "nat \<Rightarrow> bool" where
  "public_ipv6 x = (x div 2 ^ 125 = 1 \<and> x div 2 ^ 96 \<notin> {0x20010000, 0x20010db8} \<and> x div 2 ^ 80 \<noteq> 0x200100020000 \<and>
     x div 2 ^ 100 \<notin> {0x2001001, 0x2001002} \<and> x div 2 ^ 112 \<noteq> 0x2002)"

lemma isPublicIpv6_spec:
  "isPublicIpv6 s = Inr (case parseIpv6 s of None \<Rightarrow> False | Some a \<Rightarrow>
     if unat a div 2 ^ 32 \<in> {0, 0xffff} then public_ipv4 (ucast a) else public_ipv6 (unat a))"
proof (cases "parseIpv6 s")
  case (Some a)
  have h: "drop_bit 32 a = 0 \<longleftrightarrow> unat a div 2 ^ 32 = 0" "drop_bit 32 a = 0xffff \<longleftrightarrow> unat a div 2 ^ 32 = 0xffff"
    by (simp_all only: word_unat_eq_iff unat_drop_bit_eq) (simp_all add: drop_bit_eq_div)
  have base: "ipv6Base p = Inr (combine_groups ps)" if "ipv6_parts p = Some ps" for p ps
    using that by (simp add: ipv6Base_def parseIpv6_def)
  have g: "unat a div 2 ^ 125 = 1 \<Longrightarrow> unat a div 2 ^ 121 \<noteq> 0x7e \<and> unat a div 2 ^ 118 \<noteq> 0x3fa \<and> unat a div 2 ^ 118 \<noteq> 0x3fb \<and> unat a div 2 ^ 120 \<noteq> 0xff"
    by (simp add: div_eq_interval)
  have "(\<not> list_ex (\<lambda>(b, n). ipv6InCidr a b n) [(0x20010000000000000000000000000000, 32), (0x20010002000000000000000000000000, 48),
      (0x20010010000000000000000000000000, 28), (0x20010020000000000000000000000000, 28), (0x20010db8000000000000000000000000, 32),
      (0x20020000000000000000000000000000, 16), (0xfc000000000000000000000000000000, 7), (0xfe800000000000000000000000000000, 10),
      (0xfec00000000000000000000000000000, 10), (0xff000000000000000000000000000000, 8)] \<and>
      ipv6InCidr a 0x20000000000000000000000000000000 3) = public_ipv6 (unat a)"
    using g by (auto simp: ipv6InCidr_iff public_ipv6_def)
  then show ?thesis
    by (simp add: isPublicIpv6_def Some Let_def h ipv4FromBigInt_public denied_ipv6_def base [OF ipv6_prefix_parts(1)] base [OF ipv6_prefix_parts(2)]
      base [OF ipv6_prefix_parts(3)] base [OF ipv6_prefix_parts(4)] base [OF ipv6_prefix_parts(5)] base [OF ipv6_prefix_parts(6)]
      base [OF ipv6_prefix_parts(7)] base [OF ipv6_prefix_parts(8)] base [OF ipv6_prefix_parts(9)] base [OF ipv6_prefix_parts(10)]
      base [OF ipv6_prefix_parts(11)] combine_groups_nums) blast
qed (simp add: isPublicIpv6_def)

section \<open>Checked answers\<close>

definition address_key :: "resolved_address \<Rightarrow> string" where
  "address_key e = nat_str (ra_family e) @ '':'' @ to_lower (ra_address e)"

definition lowered :: "resolved_address \<Rightarrow> resolved_address" where
  "lowered e = \<lparr>ra_address = to_lower (ra_address e), ra_family = ra_family e\<rparr>"

definition address_ok :: "(string \<Rightarrow> nat) \<Rightarrow> resolved_address \<Rightarrow> bool" where
  "address_ok isIP e = (isIP (ra_address e) = ra_family e \<and> isPublicNetworkAddress isIP (ra_address e) = Inr True)"

lemma public_total: "\<exists>b. isPublicNetworkAddress isIP a = Inr b"
  by (cases "isPublicNetworkAddress isIP a") (auto simp: isPublicNetworkAddress_def isPublicIpv6_spec Let_def split: if_splits)

lemma nat_str_colon: "nat_str a @ CHR '':'' # s = nat_str b @ CHR '':'' # t \<Longrightarrow> a = b \<and> s = t"
proof -
  assume eq: "nat_str a @ CHR '':'' # s = nat_str b @ CHR '':'' # t"
  have d: "takeWhile is_digit (nat_str n @ CHR '':'' # r) = nat_str n" "dropWhile is_digit (nat_str n @ CHR '':'' # r) = CHR '':'' # r" for n r
    using nat_str_digits [of n] by (simp_all add: takeWhile_append dropWhile_append list_all_iff is_digit_def)
  from eq have "nat_str a = nat_str b" "CHR '':'' # s = CHR '':'' # t" using d by metis+
  then show ?thesis by (metis digits_val_nat_str list.inject)
qed

lemma address_key_inj: "address_key a = address_key b \<Longrightarrow> lowered a = lowered b"
  using nat_str_colon [of "ra_family a" "to_lower (ra_address a)" "ra_family b" "to_lower (ra_address b)"]
  by (simp add: address_key_def lowered_def)

lemma map_put_keys: "fst ` set (map_put k v m) = insert k (fst ` set m)"
  by (induction k v m rule: map_put.induct) auto

lemma map_put_distinct: "distinct (map fst m) \<Longrightarrow> distinct (map fst (map_put k v m))"
proof (induction k v m rule: map_put.induct)
  case (2 k v j w es)
  then show ?case using map_put_keys [of k v es] by auto
qed simp

lemma map_put_same: "k \<notin> fst ` set m \<or> (k, v) \<in> set m \<Longrightarrow> distinct (map fst m) \<Longrightarrow> set (map_put k v m) = insert (k, v) (set m)"
proof (induction k v m rule: map_put.induct)
  case (2 k v j w es)
  then show ?case by (cases "j = k") (auto simp: image_iff)
qed simp

definition entry_of :: "resolved_address \<Rightarrow> string \<times> resolved_address" where
  "entry_of e = (address_key e, lowered e)"

lemma collect_step: "address_ok isIP e \<Longrightarrow>
    collect_addresses isIP (e # es) acc = collect_addresses isIP es (map_put (address_key e) (lowered e) acc)"
  by (simp add: address_ok_def address_key_def lowered_def)

lemma collect_stop: "\<not> address_ok isIP e \<Longrightarrow> \<exists>x. collect_addresses isIP (e # es) acc = Inl x"
proof -
  obtain b where "isPublicNetworkAddress isIP (ra_address e) = Inr b" using public_total by blast
  then show "\<not> address_ok isIP e \<Longrightarrow> \<exists>x. collect_addresses isIP (e # es) acc = Inl x" by (simp add: address_ok_def)
qed

lemma entry_same: "set acc = entry_of ` A \<Longrightarrow> address_key e \<notin> fst ` set acc \<or> (address_key e, lowered e) \<in> set acc"
proof (cases "address_key e \<in> address_key ` A")
  case True
  then obtain x where x: "x \<in> A" "address_key e = address_key x" by blast
  then have "(address_key e, lowered e) = entry_of x" using address_key_inj [OF x(2)] x(2) by (simp add: entry_of_def)
  with x(1) show "set acc = entry_of ` A \<Longrightarrow> ?thesis" by blast
next
  case False
  then show "set acc = entry_of ` A \<Longrightarrow> ?thesis" by (simp add: image_image entry_of_def)
qed

lemma collect_addresses_spec:
  "distinct (map fst acc) \<Longrightarrow> set acc = entry_of ` A \<Longrightarrow> (case collect_addresses isIP es acc of Inl _ \<Rightarrow> \<not> list_all (address_ok isIP) es
    | Inr m \<Rightarrow> list_all (address_ok isIP) es \<and> distinct (map fst m) \<and> set m = entry_of ` (A \<union> set es))"
proof (induction es arbitrary: acc A)
  case (Cons e es)
  show ?case
  proof (cases "address_ok isIP e")
    case False
    then obtain x where "collect_addresses isIP (e # es) acc = Inl x" using collect_stop by blast
    with False show ?thesis by simp
  next
    case True
    have "set (map_put (address_key e) (lowered e) acc) = entry_of ` (insert e A)"
      using map_put_same [OF entry_same [OF Cons.prems(2)] Cons.prems(1)] Cons.prems(2) by (simp add: entry_of_def)
    from Cons.IH [OF map_put_distinct [OF Cons.prems(1)] this] show ?thesis
      unfolding collect_step [OF True]
      by (cases "collect_addresses isIP es (map_put (address_key e) (lowered e) acc)") (simp_all add: True)
  qed
qed simp

lemma validateResolvedAddresses_spec:
  "if es \<noteq> [] \<and> list_all (address_ok isIP) es
   then \<exists>rs. validateResolvedAddresses isIP coll es = Inr rs \<and> distinct rs \<and> set rs = lowered ` set es \<and> sorted (map ra_family rs)
   else \<exists>e. validateResolvedAddresses isIP coll es = Inl e"
proof -
  have "case collect_addresses isIP es [] of Inl _ \<Rightarrow> \<not> list_all (address_ok isIP) es
    | Inr m \<Rightarrow> list_all (address_ok isIP) es \<and> distinct (map fst m) \<and> set m = entry_of ` ({} \<union> set es)"
    by (rule collect_addresses_spec) simp_all
  moreover have "distinct (map snd m)" if "distinct (map fst m)" "set m = entry_of ` set es" for m
  proof -
    have "inj_on snd (set m)" using that(2) by (auto simp: inj_on_def lowered_def address_key_def entry_of_def)
    moreover have "distinct m" using that(1) by (simp add: distinct_map)
    ultimately show ?thesis by (simp add: distinct_map)
  qed
  ultimately show ?thesis
    by (auto simp: validateResolvedAddresses_def image_image entry_of_def split: sum.splits)
qed


section \<open>Properties\<close>

text \<open>The dotted addresses that may be contacted are exactly those outside the private, loopback, link
  local, shared, documentation, benchmark, multicast and reserved blocks, in canonical form: four numbers up
  to 255 without leading zeros.\<close>

lemma public_dotted_iff:
  "isPublicIpv4 s \<longleftrightarrow> (\<exists>a b c d. a \<le> 255 \<and> b \<le> 255 \<and> c \<le> 255 \<and> d \<le> 255 \<and> s = dotted [a, b, c, d] \<and> public_quad a b c)"
  by (rule isPublicIpv4_iff)

text \<open>C17: The decision on a colon address never throws. An address whose upper 96 bits are zero or those of a mapped
  address is judged by its last 32 bits as an IPv4 address, whatever its spelling; every other one is public
  exactly in \<open>2000::/3\<close> outside the special prefixes.\<close>

theorem public_ipv6_iff:
  "isPublicIpv6 s = Inr (case parseIpv6 s of None \<Rightarrow> False | Some a \<Rightarrow>
     if unat a div 2 ^ 32 \<in> {0, 0xffff} then public_ipv4 (ucast a) else public_ipv6 (unat a))"
  by (rule isPublicIpv6_spec)

text \<open>A resolver's answer is accepted exactly when it is not empty and every address in it has its stated
  family and is public; one private address refuses the whole answer. What is accepted is the set of the
  answer's addresses in lower case, each once, IPv4 first.\<close>

lemma resolver_answer_public:
  "if es \<noteq> [] \<and> list_all (address_ok isIP) es
   then \<exists>rs. validateResolvedAddresses isIP coll es = Inr rs \<and> distinct rs \<and> set rs = lowered ` set es \<and> sorted (map ra_family rs)
   else \<exists>e. validateResolvedAddresses isIP coll es = Inl e"
  by (rule validateResolvedAddresses_spec)

end
