(* ===== verification/Broker.thy ===== *)
theory Broker
  imports RateGate IpPolicy
begin

text \<open>
  The governed fetch broker (src/src/discovery/governed-fetch-broker.ts): verification of the grant, header and URL
  checks, the response cache, the redirect loop and one attempt with its rate gate, address resolution, transport
  and response checks. The clock, verifier, gate, resolver, transport and cache of the broker's dependencies are
  the operations of the record \<open>broker_deps\<close> on a world \<open>'w\<close>; \<open>timer_fired\<close> says whether the timeout of the
  running operation has fired. The state carries a trace of the verifications, charges and transport calls, which
  the code does not have and no decision reads. The lemmas say what every transport call satisfies and what a
  returned response satisfies, fetched or cached.
\<close>

section \<open>Data\<close>

datatype fetch_code = INVALID_MANIFEST | INVALID_GRANT | GRANT_VERIFICATION_FAILED | URL_NOT_AUTHORIZED | HEADER_NOT_AUTHORIZED
  | DNS_FAILURE | SSRF_BLOCKED | RATE_LIMITED | GRANT_BUDGET_EXHAUSTED | FETCH_TIMEOUT | TRANSPORT_FAILURE | INVALID_RESPONSE
  | STATUS_NOT_ALLOWED | CONTENT_TYPE_NOT_ALLOWED | CONTENT_ENCODING_NOT_ALLOWED | RESPONSE_TOO_LARGE | REDIRECT_NOT_ALLOWED
  | REDIRECT_LIMIT_EXCEEDED | REDIRECT_LOOP | CACHE_FAILURE | INVALID_JSON

datatype fetch_error = FetchError fetch_code string

text \<open>What an operation of a dependency throws: an error of the broker itself, or any other.\<close>

datatype failure = Governed fetch_error | Foreign string

record redirect =
  rd_status :: int
  rd_from :: string
  rd_to :: string

record cache_entry =
  ce_key :: string
  ce_manifest :: string
  ce_version :: string
  ce_requested :: string
  ce_final :: string
  ce_status :: int
  ce_headers :: "(string \<times> string) list"
  ce_body :: string
  ce_digest :: string
  ce_redirects :: "redirect list"
  ce_stored :: string
  ce_expires :: string

datatype body_chunk = Chunk string | NotBytes | StreamFailed failure

datatype transport_body = NoBody | BodyBytes string | BodyStream "(bool \<times> body_chunk) list"

record transport_response =
  tr_status :: int
  tr_headers :: "string \<Rightarrow> string option"
  tr_body :: transport_body

record transport_call =
  tc_url :: string
  tc_method :: string
  tc_headers :: "(string \<times> string) list"
  tc_addresses :: "resolved_address list"

datatype cache_mode = CacheDefault | CacheReload | CacheNoStore

record fetch_request =
  fq_url :: string
  fq_manifest :: egress_manifest
  fq_grant :: access_grant
  fq_method :: "string option"
  fq_headers :: "(string \<times> string) list"
  fq_mode :: "cache_mode option"

record fetch_response =
  fr_requested :: string
  fr_final :: string
  fr_status :: int
  fr_headers :: "(string \<times> string) list"
  fr_body :: string
  fr_redirects :: "redirect list"
  fr_from_cache :: bool

text \<open>The URL functions beyond parsing: \<open>new URL(s).toString()\<close> and \<open>new URL(location, base).toString()\<close>.\<close>

record broker_platform =
  bp_platform :: platform
  bp_urls :: url_platform
  bp_href :: "string \<Rightarrow> string"
  bp_resolve :: "string \<Rightarrow> string \<Rightarrow> string option"
  bp_is_ip :: "string \<Rightarrow> nat"

record 'w broker_deps =
  bd_now :: "'w \<Rightarrow> 'w \<times> int"
  timer_fired :: "'w \<Rightarrow> bool"
  bd_verify :: "access_grant \<Rightarrow> egress_manifest \<Rightarrow> string \<Rightarrow> 'w \<Rightarrow> 'w \<times> (failure + string option)"
  bd_consume :: "gate_request \<Rightarrow> 'w \<Rightarrow> 'w \<times> (failure + gate_decision)"
  bd_dns :: "string \<Rightarrow> 'w \<Rightarrow> 'w \<times> (failure + resolved_address list)"
  bd_fetch :: "transport_call \<Rightarrow> 'w \<Rightarrow> 'w \<times> (failure + transport_response)"
  bd_cache_get :: "string \<Rightarrow> 'w \<Rightarrow> 'w \<times> (failure + cache_entry option)"
  bd_cache_set :: "string \<Rightarrow> cache_entry \<Rightarrow> 'w \<Rightarrow> 'w \<times> (failure + unit)"
  bd_cache_delete :: "string \<Rightarrow> 'w \<Rightarrow> 'w \<times> (failure + unit)"

text \<open>What a fetch asked of the verifier and of the rate gate and what they answered, and what it sent.\<close>

datatype broker_event =
    Verified access_grant egress_manifest int "string option"
  | Charged gate_request gate_decision
  | Sent transport_call

record 'w broker_state =
  bs_world :: 'w
  bs_trace :: "broker_event list"

type_synonym ('w, 'a) broker_action = "'w broker_state \<Rightarrow> 'w broker_state \<times> (fetch_error + 'a)"

section \<open>Actions\<close>

definition bindB :: "('w, 'a) broker_action \<Rightarrow> ('a \<Rightarrow> ('w, 'b) broker_action) \<Rightarrow> ('w, 'b) broker_action" where
  "bindB m f s = (case m s of (s', Inl e) \<Rightarrow> (s', Inl e) | (s', Inr x) \<Rightarrow> f x s')"

definition retB :: "'a \<Rightarrow> ('w, 'a) broker_action" where
  "retB x s = (s, Inr x)"

definition failB :: "fetch_code \<Rightarrow> string \<Rightarrow> ('w, 'a) broker_action" where
  "failB c msg s = (s, Inl (FetchError c msg))"

definition whenB :: "bool \<Rightarrow> ('w, unit) broker_action \<Rightarrow> ('w, unit) broker_action" where
  "whenB b m = (if b then m else retB ())"

text \<open>A call of a dependency, its failure turned into an error of the broker by \<open>h\<close>.\<close>

definition callB :: "(failure \<Rightarrow> fetch_error) \<Rightarrow> ('w \<Rightarrow> 'w \<times> (failure + 'a)) \<Rightarrow> ('w, 'a) broker_action" where
  "callB h op s = (case op (bs_world s) of (w, Inl f) \<Rightarrow> (s\<lparr>bs_world := w\<rparr>, Inl (h f)) | (w, Inr x) \<Rightarrow> (s\<lparr>bs_world := w\<rparr>, Inr x))"

definition nowB :: "'w broker_deps \<Rightarrow> ('w, int) broker_action" where
  "nowB D s = (case bd_now D (bs_world s) of (w, t) \<Rightarrow> (s\<lparr>bs_world := w\<rparr>, Inr t))"

definition traceB :: "broker_event \<Rightarrow> ('w, unit) broker_action" where
  "traceB e s = (s\<lparr>bs_trace := bs_trace s @ [e]\<rparr>, Inr ())"

text \<open>A call whose answer goes to the trace, before anything is made of it.\<close>

definition recordB :: "('a \<Rightarrow> broker_event) \<Rightarrow> ('w, 'a) broker_action \<Rightarrow> ('w, 'a) broker_action" where
  "recordB ev m = bindB m (\<lambda>x. bindB (traceB (ev x)) (\<lambda>_. retB x))"

text \<open>\<open>catch (error)\<close> that wraps every error in one of the broker, and the one that lets the broker's own through.\<close>

definition wrap_all :: "fetch_code \<Rightarrow> string \<Rightarrow> failure \<Rightarrow> fetch_error" where
  "wrap_all c msg f = FetchError c msg"

definition wrap_foreign :: "fetch_code \<Rightarrow> string \<Rightarrow> failure \<Rightarrow> fetch_error" where
  "wrap_foreign c msg f = (case f of Governed e \<Rightarrow> e | Foreign _ \<Rightarrow> FetchError c msg)"

text \<open>An operation whose timer has fired by the time it settles is a timeout, whatever its outcome.\<close>

definition withTimeout :: "'w broker_deps \<Rightarrow> ('w, 'a) broker_action \<Rightarrow> ('w, 'a) broker_action" where
  "withTimeout D m s = (case m s of (s', r) \<Rightarrow>
     if timer_fired D (bs_world s') then (s', Inl (FetchError FETCH_TIMEOUT ''Governed fetch timed out'')) else (s', r))"

section \<open>Headers\<close>

definition FORBIDDEN_REQUEST_HEADERS :: "string list" where
  "FORBIDDEN_REQUEST_HEADERS = [''connection'', ''content-length'', ''cookie'', ''forwarded'', ''host'', ''proxy-authorization'', ''te'',
     ''trailer'', ''transfer-encoding'', ''upgrade'', ''via'', ''x-forwarded-for'', ''x-forwarded-host'', ''x-forwarded-proto'']"

definition SENSITIVE_REQUEST_HEADERS :: "string list" where
  "SENSITIVE_REQUEST_HEADERS = [''authorization'', ''authorization-key'', ''x-api-key'']"

definition RETAINED_RESPONSE_HEADERS :: "string list" where
  "RETAINED_RESPONSE_HEADERS = [''cache-control'', ''content-encoding'', ''content-length'', ''content-type'', ''etag'', ''last-modified'',
     ''location'', ''retry-after'']"

definition REDIRECT_STATUSES :: "int list" where
  "REDIRECT_STATUSES = [301, 302, 303, 307, 308]"

definition header_value_ok :: "string \<Rightarrow> bool" where
  "header_value_ok v = (length v \<le> 8192 \<and> CHR 0x0D \<notin> set v \<and> CHR 0x0A \<notin> set v \<and> CHR 0x00 \<notin> set v)"

fun retain_headers :: "string list \<Rightarrow> (string \<Rightarrow> string option) \<Rightarrow> fetch_error + (string \<times> string) list" where
  "retain_headers [] get = Inr []"
| "retain_headers (n # ns) get = (case get n of None \<Rightarrow> retain_headers ns get | Some v \<Rightarrow>
     if \<not> header_value_ok v then Inl (FetchError INVALID_RESPONSE (''Response header is invalid: '' @ n))
     else (case retain_headers ns get of Inl e \<Rightarrow> Inl e | Inr hs \<Rightarrow> Inr ((n, v) # hs)))"

definition responseHeaders :: "transport_response \<Rightarrow> fetch_error + (string \<times> string) list" where
  "responseHeaders r = retain_headers RETAINED_RESPONSE_HEADERS (tr_headers r)"

text \<open>\<open>result\<close> is a plain object, so the inherited member \<open>constructor\<close> counts as a name already taken.\<close>

fun normalize_headers :: "egress_manifest \<Rightarrow> (string \<times> string) list \<Rightarrow> (string \<times> string) list \<Rightarrow> fetch_error + (string \<times> string) list" where
  "normalize_headers m [] result = Inr result"
| "normalize_headers m ((raw, v) # hs) result = (let n = to_lower raw in
     if \<not> header_name_pattern n \<or> trim raw \<noteq> raw then Inl (FetchError HEADER_NOT_AUTHORIZED ''Request contains an invalid header name'')
     else if map_of result n \<noteq> None \<or> n = ''constructor'' then Inl (FetchError HEADER_NOT_AUTHORIZED ''Request contains duplicate header names'')
     else if n \<in> set FORBIDDEN_REQUEST_HEADERS \<or> n \<notin> set (eg_headers m)
       then Inl (FetchError HEADER_NOT_AUTHORIZED (''Request header is not authorized: '' @ n))
     else if \<not> header_value_ok v then Inl (FetchError HEADER_NOT_AUTHORIZED ''Request contains an invalid header value'')
     else normalize_headers m hs (result @ [(n, v)]))"

definition normalizedHeaders :: "(string \<times> string) list \<Rightarrow> egress_manifest \<Rightarrow> fetch_error + (string \<times> string) list" where
  "normalizedHeaders requested m = (case normalize_headers m requested [] of Inl e \<Rightarrow> Inl e
   | Inr hs \<Rightarrow> if map_of hs ''accept'' = None \<and> ''accept'' \<in> set (eg_headers m)
       then Inr (hs @ [(''accept'', joins '', '' (eg_content_types m))]) else Inr hs)"

definition sensitive :: "(string \<times> string) list \<Rightarrow> bool" where
  "sensitive hs = list_ex (\<lambda>h. fst h \<in> set SENSITIVE_REQUEST_HEADERS) hs"

section \<open>Response rules\<close>

definition isStatusAllowed :: "int \<Rightarrow> egress_manifest \<Rightarrow> bool" where
  "isStatusAllowed st m = list_ex (\<lambda>r. sr_min r \<le> st \<and> st \<le> sr_max r) (eg_statuses m)"

definition normalizedContentType :: "string option \<Rightarrow> string option" where
  "normalizedContentType v = (case v of None \<Rightarrow> None | Some s \<Rightarrow>
     let t = to_lower (trim (takeWhile (\<lambda>c. c \<noteq> CHR '';'') s)) in if t = [] then None else Some t)"

definition contentTypeAllowed :: "string \<Rightarrow> egress_manifest \<Rightarrow> bool" where
  "contentTypeAllowed t m = list_ex (\<lambda>a. a = ''*/*'' \<or> a = t \<or> (ends_with ''/*'' a \<and> starts_with (butlast a) t)) (eg_content_types m)"

text \<open>Each chunk carries the state of the abort signal when it arrives.\<close>

fun read_chunks :: "(bool \<times> body_chunk) list \<Rightarrow> int \<Rightarrow> int \<Rightarrow> failure + string" where
  "read_chunks [] limit n = Inr []"
| "read_chunks ((aborted, StreamFailed f) # cs) limit n = Inl f"
| "read_chunks ((aborted, NotBytes) # cs) limit n = Inl (Governed (if aborted then FetchError FETCH_TIMEOUT ''Governed fetch timed out''
     else FetchError INVALID_RESPONSE ''Transport emitted a non-byte response chunk''))"
| "read_chunks ((aborted, Chunk b) # cs) limit n = (
     if aborted then Inl (Governed (FetchError FETCH_TIMEOUT ''Governed fetch timed out''))
     else if limit < n + int (length b)
     then Inl (Governed (FetchError RESPONSE_TOO_LARGE ''Response body exceeds the configured byte limit''))
     else case read_chunks cs limit (n + int (length b)) of Inl e \<Rightarrow> Inl e | Inr rest \<Rightarrow> Inr (b @ rest))"

definition readBoundedBody :: "transport_body \<Rightarrow> int \<Rightarrow> failure + string" where
  "readBoundedBody b limit = (case b of NoBody \<Rightarrow> Inr []
   | BodyBytes s \<Rightarrow> if limit < int (length s)
       then Inl (Governed (FetchError RESPONSE_TOO_LARGE ''Response body exceeds the configured byte limit'')) else Inr s
   | BodyStream cs \<Rightarrow> read_chunks cs limit 0)"

definition cache_directives :: "string \<Rightarrow> string list" where
  "cache_directives s = map (dropWhile is_ws) (s # map (\<lambda>i. drop (Suc i) s) (filter (\<lambda>i. s ! i = CHR '','') [0..<length s]))"

definition forbids_storing :: "string \<Rightarrow> bool" where
  "forbids_storing s = list_ex (\<lambda>d. list_ex (\<lambda>w. starts_with w d \<and>
     (case drop (length w) d of [] \<Rightarrow> True | c # _ \<Rightarrow> is_ws c \<or> c = CHR '','')) [''no-store'', ''private'']) (cache_directives s)"

definition max_age :: "string \<Rightarrow> nat option" where
  "max_age s = (case find (\<lambda>d. starts_with ''max-age='' d \<and> takeWhile is_digit (drop 8 d) \<noteq> []) (cache_directives s) of
     None \<Rightarrow> None | Some d \<Rightarrow> Some (digits_val (takeWhile is_digit (drop 8 d))))"

definition cacheControlTtl :: "(string \<times> string) list \<Rightarrow> int \<Rightarrow> int" where
  "cacheControlTtl hs configured = (case map_option to_lower (map_of hs ''cache-control'') of
     None \<Rightarrow> configured
   | Some cc \<Rightarrow> if cc = [] then configured
       else if forbids_storing cc then 0
       else case max_age cc of None \<Rightarrow> configured
       | Some n \<Rightarrow> if MAX_SAFE < int n then 0 else min configured (int n * 1000))"

definition cacheKey :: "broker_platform \<Rightarrow> fetch_request \<Rightarrow> string \<Rightarrow> (string \<times> string) list \<Rightarrow> string" where
  "cacheKey B q mth hs = (let P = bp_platform B in
     sha256 P (stable_stringify (coll_key P) (JObj [(''manifestId'', JStr (eg_id (fq_manifest q))), (''manifestVersion'', JStr (eg_version (fq_manifest q))),
       (''method'', JStr mth), (''url'', JStr (bp_href B (fq_url q))),
       (''representationHeadersHash'', JStr (sha256 P (stable_stringify (coll_key P) (JObj (map (\<lambda>(n, v). (n, JStr v)) hs)))))])))"

definition makeResponse :: "cache_entry \<Rightarrow> bool \<Rightarrow> fetch_response" where
  "makeResponse e fromCache = \<lparr>fr_requested = ce_requested e, fr_final = ce_final e, fr_status = ce_status e, fr_headers = ce_headers e,
     fr_body = ce_body e, fr_redirects = ce_redirects e, fr_from_cache = fromCache\<rparr>"

section \<open>One attempt\<close>

definition hostname_of :: "broker_platform \<Rightarrow> string \<Rightarrow> string" where
  "hostname_of B url = (case parse_url (bp_urls B) url of None \<Rightarrow> [] | Some u \<Rightarrow> ur_hostname u)"

definition url_authorized :: "broker_platform \<Rightarrow> string \<Rightarrow> string \<Rightarrow> egress_manifest \<Rightarrow> access_grant \<Rightarrow> bool" where
  "url_authorized B url mth m g = (validateUrlAuthorization (bp_urls B) url mth m g = [])"

definition assertUrlAuthorized :: "broker_platform \<Rightarrow> string \<Rightarrow> string \<Rightarrow> egress_manifest \<Rightarrow> access_grant \<Rightarrow> ('w, unit) broker_action" where
  "assertUrlAuthorized B url mth m g = (let errs = validateUrlAuthorization (bp_urls B) url mth m g in
     if errs = [] then retB () else failB URL_NOT_AUTHORIZED (''Request URL is not authorized: '' @ joins ''; '' errs))"

definition liftB :: "fetch_error + 'a \<Rightarrow> ('w, 'a) broker_action" where
  "liftB r s = (s, r)"

definition resolveApprovedAddresses :: "broker_platform \<Rightarrow> 'w broker_deps \<Rightarrow> string \<Rightarrow> ('w, resolved_address list) broker_action" where
  "resolveApprovedAddresses B D hostname = (
     let n = normalizeHostname hostname; family = bp_is_ip B n;
         check = (\<lambda>msg as. case validateResolvedAddresses (bp_is_ip B) (coll_key (bp_platform B)) as of
           Inl _ \<Rightarrow> failB SSRF_BLOCKED msg | Inr rs \<Rightarrow> retB rs) in
     if family = 4 \<or> family = 6 then check ''Request target is not a public network address'' [\<lparr>ra_address = n, ra_family = family\<rparr>]
     else bindB (callB (wrap_all DNS_FAILURE ''DNS resolution failed'') (bd_dns D n))
       (check ''DNS resolution did not produce an exclusively public address set''))"

record attempt_result =
  ar_response :: transport_response
  ar_headers :: "(string \<times> string) list"
  ar_body :: "string option"

text \<open>The checks of a response, in the order of the code.\<close>

definition content_length :: "(string \<times> string) list \<Rightarrow> egress_manifest \<Rightarrow> fetch_error + int option" where
  "content_length hs m = (case map_of hs ''content-length'' of None \<Rightarrow> Inr None | Some t \<Rightarrow>
     if t = [] \<or> \<not> list_all is_digit t then Inl (FetchError INVALID_RESPONSE ''Response Content-Length is invalid'')
     else if MAX_SAFE < int (digits_val t) then Inl (FetchError INVALID_RESPONSE ''Response Content-Length is not safely representable'')
     else if eg_max_body m < int (digits_val t) then Inl (FetchError RESPONSE_TOO_LARGE ''Response Content-Length exceeds the configured byte limit'')
     else Inr (Some (int (digits_val t))))"

definition checkResponse :: "string \<Rightarrow> egress_manifest \<Rightarrow> transport_response \<Rightarrow> ('w, attempt_result) broker_action" where
  "checkResponse mth m r = (let st = tr_status r in
     bindB (whenB (st < 100 \<or> 599 < st) (failB INVALID_RESPONSE ''Transport returned an invalid HTTP status'')) (\<lambda>_.
     bindB (liftB (responseHeaders r)) (\<lambda>hs.
     let isRedirect = (st \<in> set REDIRECT_STATUSES) in
     bindB (whenB (\<not> isRedirect \<and> \<not> isStatusAllowed st m) (failB STATUS_NOT_ALLOWED ''Response status is outside the manifest policy'')) (\<lambda>_.
     let enc = map_option (to_lower \<circ> trim) (map_of hs ''content-encoding'') in
     bindB (whenB (enc \<noteq> None \<and> enc \<noteq> Some [] \<and> enc \<noteq> Some ''identity'')
       (failB CONTENT_ENCODING_NOT_ALLOWED ''Compressed responses are not accepted by this broker'')) (\<lambda>_.
     bindB (liftB (content_length hs m)) (\<lambda>len.
     let noBody = (mth = ''HEAD'' \<or> st = 204 \<or> st = 304); ct = normalizedContentType (map_of hs ''content-type'') in
     bindB (whenB (case ct of None \<Rightarrow> False | Some t \<Rightarrow> \<not> contentTypeAllowed t m)
       (failB CONTENT_TYPE_NOT_ALLOWED ''Response Content-Type is outside the manifest policy'')) (\<lambda>_.
     bindB (whenB (ct = None \<and> eg_require_type m \<and> \<not> noBody \<and> (case len of None \<Rightarrow> False | Some n \<Rightarrow> 0 < n))
       (failB CONTENT_TYPE_NOT_ALLOWED ''Response Content-Type is required by the manifest'')) (\<lambda>_.
     bindB (if noBody then retB [] else case readBoundedBody (tr_body r) (eg_max_body m) of
         Inl f \<Rightarrow> liftB (Inl (wrap_foreign TRANSPORT_FAILURE ''Governed fetch transport failed'' f)) | Inr b \<Rightarrow> retB b) (\<lambda>body.
     bindB (whenB (len \<noteq> None \<and> \<not> noBody \<and> Some (int (length body)) \<noteq> len)
       (failB INVALID_RESPONSE ''Response body length does not match Content-Length'')) (\<lambda>_.
     bindB (whenB (ct = None \<and> eg_require_type m \<and> body \<noteq> [])
       (failB CONTENT_TYPE_NOT_ALLOWED ''Non-empty response is missing Content-Type'')) (\<lambda>_.
     retB \<lparr>ar_response = r, ar_headers = hs, ar_body = (if isRedirect then None else Some body)\<rparr>)))))))))))"

definition executeAttempt ::
  "broker_platform \<Rightarrow> 'w broker_deps \<Rightarrow> string \<Rightarrow> string \<Rightarrow> (string \<times> string) list \<Rightarrow> egress_manifest \<Rightarrow> access_grant \<Rightarrow>
   ('w, attempt_result) broker_action" where
  "executeAttempt B D url mth hs m g = (let failed = wrap_foreign TRANSPORT_FAILURE ''Governed fetch transport failed'' in
     withTimeout D (
     bindB (nowB D) (\<lambda>t.
     let asked = \<lparr>gr_manifest = m, gr_grant = g, gr_at = t\<rparr> in
     bindB (recordB (Charged asked) (callB failed (bd_consume D asked))) (\<lambda>d.
     bindB (whenB (\<not> gd_allowed d) (if gd_reason d = Some ''grant-budget''
         then failB GRANT_BUDGET_EXHAUSTED ''Network access grant request budget is exhausted''
         else failB RATE_LIMITED ''Provider request rate limit is exhausted'')) (\<lambda>_.
     bindB (resolveApprovedAddresses B D (hostname_of B url)) (\<lambda>as.
     bindB (\<lambda>s. whenB (timer_fired D (bs_world s)) (failB FETCH_TIMEOUT ''Governed fetch timed out'') s) (\<lambda>_.
     let call = \<lparr>tc_url = url, tc_method = mth, tc_headers = hs, tc_addresses = as\<rparr> in
     bindB (traceB (Sent call)) (\<lambda>_.
     bindB (callB failed (bd_fetch D call)) (\<lambda>r.
     checkResponse mth m r)))))))))"

definition verifyGrant :: "broker_platform \<Rightarrow> 'w broker_deps \<Rightarrow> access_grant \<Rightarrow> egress_manifest \<Rightarrow> ('w, unit) broker_action" where
  "verifyGrant B D g m = bindB (nowB D) (\<lambda>now.
     bindB (whenB (\<not> isOk (assertValidNetworkAccessGrant (bp_urls B) (host_date (bp_platform B)) (grant_json g) m (Some now)))
       (failB INVALID_GRANT ''Network access grant is invalid or inactive'')) (\<lambda>_.
     bindB (withTimeout D (recordB (Verified g m now) (callB (\<lambda>f. case f of Governed (FetchError FETCH_TIMEOUT msg) \<Rightarrow> FetchError FETCH_TIMEOUT msg
         | _ \<Rightarrow> FetchError GRANT_VERIFICATION_FAILED ''Network access grant verification failed'') (bd_verify D g m (to_iso now))))) (\<lambda>reason.
     case reason of Some r \<Rightarrow> failB GRANT_VERIFICATION_FAILED (if r = [] then ''Network access grant was rejected''
         else ''Network access grant was rejected: '' @ r)
     | None \<Rightarrow> retB ())))"

section \<open>The redirect loop\<close>

text \<open>One redirect response at \<open>url\<close>: the target to follow, or the error. \<open>n\<close> is the number of redirects still allowed.\<close>

definition followRedirect ::
  "broker_platform \<Rightarrow> fetch_request \<Rightarrow> string \<Rightarrow> (string \<times> string) list \<Rightarrow> string \<Rightarrow> string list \<Rightarrow> bool \<Rightarrow> attempt_result \<Rightarrow>
   ('w, string) broker_action" where
  "followRedirect B q mth hs url visited exhausted att = (let m = fq_manifest q in
     if exhausted then failB REDIRECT_LIMIT_EXCEEDED ''Response exceeded the configured redirect limit''
     else let loc = tr_headers (ar_response att) ''location'' in
     if loc = None \<or> loc = Some [] then failB INVALID_RESPONSE ''Redirect response is missing a Location header''
     else case bp_resolve B (the loc) url of
       None \<Rightarrow> failB INVALID_RESPONSE ''Redirect response contains an invalid Location header''
     | Some target \<Rightarrow>
       bindB (assertUrlAuthorized B target mth m (fq_grant q)) (\<lambda>_.
       let previousHost = normalizeHostname (hostname_of B url); targetHost = normalizeHostname (hostname_of B target) in
       if \<not> eg_cross_host m \<and> targetHost \<noteq> previousHost
       then failB REDIRECT_NOT_ALLOWED ''Cross-host redirect is disabled by the manifest''
       else if targetHost \<noteq> previousHost \<and> sensitive hs
       then failB REDIRECT_NOT_ALLOWED ''Sensitive request headers cannot cross hosts''
       else if target \<in> set visited then failB REDIRECT_LOOP ''Redirect loop detected''
       else retB target))"

text \<open>The loop recurses on the redirects left, \<open>maxRedirects - redirects.length\<close>; \<open>visited\<close> is the URLs so far.\<close>

fun attempts ::
  "broker_platform \<Rightarrow> 'w broker_deps \<Rightarrow> fetch_request \<Rightarrow> string \<Rightarrow> (string \<times> string) list \<Rightarrow> nat \<Rightarrow> string \<Rightarrow> redirect list \<Rightarrow> string list \<Rightarrow>
   ('w, attempt_result \<times> string \<times> redirect list) broker_action" where
  "attempts B D q mth hs 0 url rds visited =
     bindB (whenB (rds \<noteq> []) (verifyGrant B D (fq_grant q) (fq_manifest q))) (\<lambda>_.
     bindB (assertUrlAuthorized B url mth (fq_manifest q) (fq_grant q)) (\<lambda>_.
     bindB (executeAttempt B D url mth hs (fq_manifest q) (fq_grant q)) (\<lambda>att.
     if tr_status (ar_response att) \<notin> set REDIRECT_STATUSES then retB (att, url, rds)
     else bindB (followRedirect B q mth hs url visited True att) (\<lambda>_. retB (att, url, rds)))))"
| "attempts B D q mth hs (Suc n) url rds visited =
     bindB (whenB (rds \<noteq> []) (verifyGrant B D (fq_grant q) (fq_manifest q))) (\<lambda>_.
     bindB (assertUrlAuthorized B url mth (fq_manifest q) (fq_grant q)) (\<lambda>_.
     bindB (executeAttempt B D url mth hs (fq_manifest q) (fq_grant q)) (\<lambda>att.
     if tr_status (ar_response att) \<notin> set REDIRECT_STATUSES then retB (att, url, rds)
     else bindB (followRedirect B q mth hs url visited False att) (\<lambda>target.
       attempts B D q mth hs n target (rds @ [\<lparr>rd_status = tr_status (ar_response att), rd_from = url, rd_to = target\<rparr>]) (visited @ [target])))))"

section \<open>The cache\<close>

fun redirects_allowed :: "broker_platform \<Rightarrow> fetch_request \<Rightarrow> string \<Rightarrow> string \<Rightarrow> redirect list \<Rightarrow> string option" where
  "redirects_allowed B q mth expected [] = Some expected"
| "redirects_allowed B q mth expected (r # rs) = (
     if rd_status r \<notin> set REDIRECT_STATUSES \<or> rd_from r \<noteq> expected then None
     else if \<not> url_authorized B (rd_from r) mth (fq_manifest q) (fq_grant q) then None
     else if \<not> url_authorized B (rd_to r) mth (fq_manifest q) (fq_grant q) then None
     else if \<not> eg_cross_host (fq_manifest q) \<and>
       normalizeHostname (hostname_of B (rd_from r)) \<noteq> normalizeHostname (hostname_of B (rd_to r)) then None
     else redirects_allowed B q mth (rd_to r) rs)"

definition cachedEntryAllowed :: "broker_platform \<Rightarrow> cache_entry \<Rightarrow> fetch_request \<Rightarrow> string \<Rightarrow> string \<Rightarrow> bool" where
  "cachedEntryAllowed B e q mth key = (let P = bp_platform B; m = fq_manifest q;
     stored = parse_date P (ce_stored e); expires = parse_date P (ce_expires e);
     ct = normalizedContentType (map_of (ce_headers e) ''content-type'') in
     ce_key e = key \<and> ce_manifest e = eg_id m \<and> ce_version e = eg_version m \<and> ce_requested e = bp_href B (fq_url q) \<and>
     int (length (ce_redirects e)) \<le> eg_max_redirects m \<and> stored \<noteq> None \<and> expires \<noteq> None \<and> \<not> nle expires stored \<and>
     sha256_digest_pattern (ce_digest e) \<and> ce_digest e = sha256 P (ce_body e) \<and>
     list_all (\<lambda>h. fst h \<in> set RETAINED_RESPONSE_HEADERS \<and> header_value_ok (snd h)) (ce_headers e) \<and>
     redirects_allowed B q mth (ce_requested e) (ce_redirects e) = Some (ce_final e) \<and>
     url_authorized B (ce_final e) mth m (fq_grant q) \<and> isStatusAllowed (ce_status e) m \<and>
     int (length (ce_body e)) \<le> eg_max_body m \<and>
     (case ct of None \<Rightarrow> True | Some t \<Rightarrow> contentTypeAllowed t m) \<and>
     \<not> (eg_require_type m \<and> ce_body e \<noteq> [] \<and> ct = None))"

text \<open>The entry to answer from, when the cache holds one that is fresh and allowed; any other entry is deleted.\<close>

definition from_cache :: "broker_platform \<Rightarrow> 'w broker_deps \<Rightarrow> fetch_request \<Rightarrow> string \<Rightarrow> string \<Rightarrow> ('w, cache_entry option) broker_action" where
  "from_cache B D q mth key =
     bindB (callB (wrap_all CACHE_FAILURE ''Governed fetch cache read failed'') (bd_cache_get D key)) (\<lambda>cached.
     case cached of None \<Rightarrow> retB None | Some e \<Rightarrow>
       bindB (nowB D) (\<lambda>t.
       if nlt (Some t) (parse_date (bp_platform B) (ce_expires e)) \<and> cachedEntryAllowed B e q mth key then retB (Some e)
       else bindB (callB (wrap_all CACHE_FAILURE ''Governed fetch cache deletion failed'') (bd_cache_delete D key)) (\<lambda>_. retB None)))"

definition store_entry :: "'w broker_deps \<Rightarrow> fetch_request \<Rightarrow> bool \<Rightarrow> string \<Rightarrow> cache_entry \<Rightarrow> ('w, unit) broker_action" where
  "store_entry D q cacheable key e = (if cacheable \<and> 200 \<le> ce_status e \<and> ce_status e \<le> 299 then
     let ttl = cacheControlTtl (ce_headers e) (eg_cache_ttl (fq_manifest q)) in
     whenB (0 < ttl) (bindB (nowB D) (\<lambda>t.
       callB (wrap_all CACHE_FAILURE ''Governed fetch cache write failed'') (bd_cache_set D key (e\<lparr>ce_expires := to_iso (t + ttl)\<rparr>))))
     else retB ())"

section \<open>The fetch\<close>

definition fetch_network ::
  "broker_platform \<Rightarrow> 'w broker_deps \<Rightarrow> fetch_request \<Rightarrow> string \<Rightarrow> (string \<times> string) list \<Rightarrow> bool \<Rightarrow> string \<Rightarrow> ('w, fetch_response) broker_action" where
  "fetch_network B D q mth hs cacheable key = (let url = bp_href B (fq_url q); m = fq_manifest q in
     bindB (attempts B D q mth hs (nat (eg_max_redirects m)) url [] [url]) (\<lambda>(att, final, rds).
     let body = (case ar_body att of None \<Rightarrow> [] | Some b \<Rightarrow> b) in
     bindB (nowB D) (\<lambda>t1. bindB (nowB D) (\<lambda>t2.
     let e = \<lparr>ce_key = key, ce_manifest = eg_id m, ce_version = eg_version m, ce_requested = url, ce_final = final,
       ce_status = tr_status (ar_response att), ce_headers = ar_headers att, ce_body = body, ce_digest = sha256 (bp_platform B) body,
       ce_redirects = rds, ce_stored = to_iso t1, ce_expires = to_iso t2\<rparr> in
     bindB (store_entry D q cacheable key e) (\<lambda>_. retB (makeResponse e False))))))"

definition broker_fetch :: "broker_platform \<Rightarrow> 'w broker_deps \<Rightarrow> fetch_request \<Rightarrow> ('w, fetch_response) broker_action" where
  "broker_fetch B D q = (let m = fq_manifest q; g = fq_grant q; mth = (case fq_method q of None \<Rightarrow> ''GET'' | Some x \<Rightarrow> x);
     mode = (case fq_mode q of None \<Rightarrow> CacheDefault | Some c \<Rightarrow> c) in
     bindB (whenB (\<not> isOk (assertValidEgressManifest (bp_urls B) (manifest_json m)))
       (failB INVALID_MANIFEST ''Governed fetch manifest is invalid'')) (\<lambda>_.
     bindB (verifyGrant B D g m) (\<lambda>_.
     bindB (liftB (normalizedHeaders (fq_headers q) m)) (\<lambda>hs.
     bindB (assertUrlAuthorized B (fq_url q) mth m g) (\<lambda>_.
     let key = cacheKey B q mth hs;
         cacheable = (mode \<noteq> CacheNoStore \<and> mth \<in> set (eg_cache_methods m) \<and> \<not> sensitive hs) in
     bindB (if cacheable \<and> mode = CacheDefault then from_cache B D q mth key else retB None) (\<lambda>cached.
     case cached of Some e \<Rightarrow> retB (makeResponse e True)
     | None \<Rightarrow> fetch_network B D q mth hs cacheable key))))))"

section \<open>Reasoning about actions\<close>

text \<open>From a trace in \<open>Q\<close>, a successful run of \<open>m\<close> ends in \<open>R\<close> of its result, a failed one in \<open>E\<close>.\<close>

definition outcome :: "('a \<Rightarrow> broker_event list \<Rightarrow> bool) \<Rightarrow> (broker_event list \<Rightarrow> bool) \<Rightarrow> 'w broker_state \<times> (fetch_error + 'a) \<Rightarrow> bool" where
  "outcome R E p = (case snd p of Inl _ \<Rightarrow> E (bs_trace (fst p)) | Inr x \<Rightarrow> R x (bs_trace (fst p)))"

definition runs :: "(broker_event list \<Rightarrow> bool) \<Rightarrow> ('w, 'a) broker_action \<Rightarrow> ('a \<Rightarrow> broker_event list \<Rightarrow> bool) \<Rightarrow>
    (broker_event list \<Rightarrow> bool) \<Rightarrow> bool" where
  "runs Q m R E = (\<forall>s :: 'w broker_state. Q (bs_trace s) \<longrightarrow> outcome R E (m s))"

lemma outcome_simps [simp]:
  "outcome R E (s, Inl e) = E (bs_trace s)" "outcome R E (s, Inr x) = R x (bs_trace s)"
  by (simp_all add: outcome_def)

named_theorems runs_intro "rules for the actions of the broker"

lemma runsI: "(\<And>s. Q (bs_trace s) \<Longrightarrow> outcome R E (m s)) \<Longrightarrow> runs Q m R E"
  by (simp add: runs_def)

lemma runsD: "runs Q m R E \<Longrightarrow> Q (bs_trace s) \<Longrightarrow> outcome R E (m s)"
  by (simp add: runs_def)

lemma outcome_cases:
  fixes p :: "'w broker_state \<times> (fetch_error + 'a)"
  obtains (failed) s e where "p = (s, Inl e)" | (finished) s x where "p = (s, Inr x)"
  by (cases p; cases "snd p") auto

lemma runs_bind [runs_intro]:
  fixes m :: "('w, 'a) broker_action"
  assumes "runs Q m R E" and "\<And>x. runs (R x) (f x) S E"
  shows "runs Q (bindB m f) S E"
proof (rule runsI)
  fix s :: "'w broker_state" assume "Q (bs_trace s)"
  note o = runsD [OF assms(1) this]
  show "outcome S E (bindB m f s)"
  proof (cases "m s" rule: outcome_cases)
    case (failed s' e)
    with o show ?thesis by (simp add: bindB_def)
  next
    case (finished s' x)
    with o runsD [OF assms(2)] show ?thesis by (simp add: bindB_def)
  qed
qed

lemma runs_weaken:
  fixes m :: "('w, 'a) broker_action"
  assumes "runs Q m R E" and "\<And>tr. Q' tr \<Longrightarrow> Q tr" and "\<And>x tr. R x tr \<Longrightarrow> R' x tr" and "\<And>tr. E tr \<Longrightarrow> E' tr"
  shows "runs Q' m R' E'"
proof (rule runsI)
  fix s :: "'w broker_state" assume "Q' (bs_trace s)"
  note o = runsD [OF assms(1) assms(2) [OF this]]
  show "outcome R' E' (m s)" using o assms(3,4) by (cases "m s" rule: outcome_cases) simp_all
qed

lemma runs_ret [runs_intro]: "(\<And>tr. Q tr \<Longrightarrow> R x tr) \<Longrightarrow> runs Q (retB x) R E"
  by (simp add: runs_def retB_def)

lemma runs_fail [runs_intro]: "(\<And>tr. Q tr \<Longrightarrow> E tr) \<Longrightarrow> runs Q (failB c msg) R E"
  by (simp add: runs_def failB_def)

lemma runs_lift [runs_intro]: "(\<And>x tr. r = Inr x \<Longrightarrow> Q tr \<Longrightarrow> R x tr) \<Longrightarrow> (\<And>tr. Q tr \<Longrightarrow> E tr) \<Longrightarrow> runs Q (liftB r) R E"
  by (cases r) (auto simp: runs_def liftB_def)

lemma runs_if [runs_intro]: "(b \<Longrightarrow> runs Q m R E) \<Longrightarrow> (\<not> b \<Longrightarrow> runs Q n R E) \<Longrightarrow> runs Q (if b then m else n) R E"
  by simp

lemma runs_when [runs_intro]: "(b \<Longrightarrow> runs Q m R E) \<Longrightarrow> (\<And>tr. \<not> b \<Longrightarrow> Q tr \<Longrightarrow> R () tr) \<Longrightarrow> runs Q (whenB b m) R E"
  by (simp add: whenB_def runs_ret)

lemma runs_call [runs_intro]: "(\<And>x tr. Q tr \<Longrightarrow> R x tr) \<Longrightarrow> (\<And>tr. Q tr \<Longrightarrow> E tr) \<Longrightarrow> runs Q (callB h op) R E"
  by (auto simp: runs_def callB_def split: prod.split sum.split)

lemma runs_now [runs_intro]: "(\<And>t tr. Q tr \<Longrightarrow> R t tr) \<Longrightarrow> runs Q (nowB D) R E"
  by (simp add: runs_def nowB_def split: prod.split)

lemma runs_trace [runs_intro]: "(\<And>tr. Q tr \<Longrightarrow> R () (tr @ [e])) \<Longrightarrow> runs Q (traceB e) R E"
  by (simp add: runs_def traceB_def)

lemma runs_timeout:
  fixes m :: "('w, 'a) broker_action"
  assumes "runs Q m R E" and "\<And>x tr. R x tr \<Longrightarrow> E tr"
  shows "runs Q (withTimeout D m) R E"
proof (rule runsI)
  fix s :: "'w broker_state" assume "Q (bs_trace s)"
  note o = runsD [OF assms(1) this]
  show "outcome R E (withTimeout D m s)"
    using o assms(2) by (cases "m s" rule: outcome_cases) (auto simp: withTimeout_def)
qed

lemma runs_timer: "(\<And>s. runs Q (f s) R E) \<Longrightarrow> runs Q (\<lambda>s. f s s) R E"
  by (simp add: runs_def)

lemma runs_option [runs_intro]: "(x = None \<Longrightarrow> runs Q m R E) \<Longrightarrow> (\<And>y. x = Some y \<Longrightarrow> runs Q (f y) R E) \<Longrightarrow>
    runs Q (case x of None \<Rightarrow> m | Some y \<Rightarrow> f y) R E"
  by (cases x) simp_all

lemma runs_sum [runs_intro]: "(\<And>y. x = Inl y \<Longrightarrow> runs Q (m y) R E) \<Longrightarrow> (\<And>y. x = Inr y \<Longrightarrow> runs Q (f y) R E) \<Longrightarrow>
    runs Q (case x of Inl y \<Rightarrow> m y | Inr y \<Rightarrow> f y) R E"
  by (cases x) simp_all

section \<open>What the trace of a fetch is\<close>

definition same_host :: "broker_platform \<Rightarrow> string \<Rightarrow> string \<Rightarrow> bool" where
  "same_host B x y = (normalizeHostname (hostname_of B x) = normalizeHostname (hostname_of B y))"

definition header_ok :: "egress_manifest \<Rightarrow> string \<times> string \<Rightarrow> bool" where
  "header_ok m h = (fst h \<in> set (eg_headers m) \<and> fst h \<notin> set FORBIDDEN_REQUEST_HEADERS)"

text \<open>A transport call of the request \<open>q\<close> with method \<open>mth\<close>: its URL is authorised, it is pinned to addresses that are
  public (spelt in lower case), its headers are allowed, and it stays on the first host when the manifest or a
  sensitive header asks for it.\<close>

definition call_ok :: "broker_platform \<Rightarrow> fetch_request \<Rightarrow> string \<Rightarrow> transport_call \<Rightarrow> bool" where
  "call_ok B q mth c = (tc_method c = mth \<and> url_authorized B (tc_url c) mth (fq_manifest q) (fq_grant q) \<and>
     tc_addresses c \<noteq> [] \<and> set (tc_addresses c) \<subseteq> lowered ` {a. address_ok (bp_is_ip B) a} \<and>
     list_all (header_ok (fq_manifest q)) (tc_headers c) \<and>
     (eg_cross_host (fq_manifest q) \<and> \<not> sensitive (tc_headers c) \<or> same_host B (tc_url c) (bp_href B (fq_url q))))"

definition granted :: "broker_platform \<Rightarrow> fetch_request \<Rightarrow> int \<Rightarrow> bool" where
  "granted B q t = grant_ok (bp_urls B) (host_date (bp_platform B)) (fq_grant q) (fq_manifest q) t"

text \<open>What the verifier and the gate are asked about a request, with their answers.\<close>

abbreviation verdict :: "fetch_request \<Rightarrow> int \<Rightarrow> string option \<Rightarrow> broker_event" where
  "verdict q t r \<equiv> Verified (fq_grant q) (fq_manifest q) t r"

abbreviation charge :: "fetch_request \<Rightarrow> int \<Rightarrow> gate_decision \<Rightarrow> broker_event" where
  "charge q u d \<equiv> Charged \<lparr>gr_manifest = fq_manifest q, gr_grant = fq_grant q, gr_at = u\<rparr> d"

text \<open>\<open>n\<close> complete rounds: the verifier accepted the grant, the gate admitted the request, the call was sent.\<close>

inductive rounds :: "broker_platform \<Rightarrow> fetch_request \<Rightarrow> string \<Rightarrow> nat \<Rightarrow> broker_event list \<Rightarrow> bool" for B q mth where
  none: "rounds B q mth 0 []"
| more: "rounds B q mth n tr \<Longrightarrow> granted B q t \<Longrightarrow> gd_allowed d \<Longrightarrow> call_ok B q mth c \<Longrightarrow>
    rounds B q mth (Suc n) (tr @ [verdict q t None, charge q u d, Sent c])"

definition verified_after :: "broker_platform \<Rightarrow> fetch_request \<Rightarrow> string \<Rightarrow> nat \<Rightarrow> broker_event list \<Rightarrow> bool" where
  "verified_after B q mth n tr = (\<exists>tr' t. tr = tr' @ [verdict q t None] \<and> rounds B q mth n tr' \<and> granted B q t)"

definition charged_after :: "broker_platform \<Rightarrow> fetch_request \<Rightarrow> string \<Rightarrow> nat \<Rightarrow> gate_decision \<Rightarrow> broker_event list \<Rightarrow> bool" where
  "charged_after B q mth n d tr = (\<exists>tr' t u. tr = tr' @ [verdict q t None, charge q u d] \<and> rounds B q mth n tr' \<and> granted B q t)"

text \<open>The round a fetch ends in without a call: the verifier answered, and where it accepted, the gate may have.\<close>

definition cut_short :: "broker_platform \<Rightarrow> fetch_request \<Rightarrow> broker_event list \<Rightarrow> bool" where
  "cut_short B q tr = (tr = [] \<or> (\<exists>t. granted B q t \<and>
     ((\<exists>r. tr = [verdict q t r]) \<or> (\<exists>u d. tr = [verdict q t None, charge q u d]))))"

text \<open>At most \<open>k\<close> complete rounds, and perhaps one without a call.\<close>

definition governed :: "broker_platform \<Rightarrow> fetch_request \<Rightarrow> string \<Rightarrow> nat \<Rightarrow> broker_event list \<Rightarrow> bool" where
  "governed B q mth k tr = (\<exists>n full rest. n \<le> k \<and> tr = full @ rest \<and> rounds B q mth n full \<and> cut_short B q rest)"

lemma governed_cut: "rounds B q mth n full \<Longrightarrow> cut_short B q rest \<Longrightarrow> n \<le> k \<Longrightarrow> governed B q mth k (full @ rest)"
  unfolding governed_def by blast

lemma governed_intros:
  "rounds B q mth n tr \<Longrightarrow> n \<le> k \<Longrightarrow> governed B q mth k tr" "verified_after B q mth n tr \<Longrightarrow> n \<le> k \<Longrightarrow> governed B q mth k tr"
  "charged_after B q mth n d tr \<Longrightarrow> n \<le> k \<Longrightarrow> governed B q mth k tr"
  "rounds B q mth n tr \<Longrightarrow> granted B q t \<Longrightarrow> n \<le> k \<Longrightarrow> governed B q mth k (tr @ [verdict q t r])"
  using governed_cut [of B q mth n tr "[]"]
  by (auto simp: verified_after_def charged_after_def cut_short_def intro: governed_cut)

text \<open>Strongest postconditions of the basic actions; every one may fail without touching the trace.\<close>

lemma sp_now: "runs Q (nowB D) (\<lambda>_. Q) E"
  by (rule runs_now)

lemma sp_guard: "(\<And>tr. Q tr \<Longrightarrow> E tr) \<Longrightarrow> runs Q (whenB b (failB c msg)) (\<lambda>_ tr. Q tr \<and> \<not> b) E"
  by (rule runs_when) (auto intro: runs_fail)

lemma sp_call: "(\<And>tr. Q tr \<Longrightarrow> E tr) \<Longrightarrow> runs Q (callB h op) (\<lambda>_. Q) E"
  by (rule runs_call)

lemma sp_lift: "(\<And>tr. Q tr \<Longrightarrow> E tr) \<Longrightarrow> runs Q (liftB r) (\<lambda>x tr. Q tr \<and> r = Inr x) E"
  by (rule runs_lift) auto

lemma sp_trace: "runs Q (traceB e) (\<lambda>_ tr. \<exists>tr'. tr = tr' @ [e] \<and> Q tr') E"
  by (rule runs_trace) auto

lemma sp_authorized: "(\<And>tr. Q tr \<Longrightarrow> E tr) \<Longrightarrow>
    runs Q (assertUrlAuthorized B url mth m g) (\<lambda>_ tr. Q tr \<and> url_authorized B url mth m g) E"
  unfolding assertUrlAuthorized_def Let_def url_authorized_def by (rule runs_if) (auto intro: runs_ret runs_fail)

lemma sp_record: "(\<And>tr. Q tr \<Longrightarrow> E tr) \<Longrightarrow> runs Q (recordB ev (callB h op)) (\<lambda>x tr. \<exists>tr'. tr = tr' @ [ev x] \<and> Q tr') E"
  unfolding recordB_def by (rule runs_bind [OF sp_call]) (auto intro!: runs_bind [OF sp_trace] runs_ret)

lemma sp_verify:
  assumes "\<And>tr. Q tr \<Longrightarrow> E tr" and "\<And>tr t r. Q tr \<Longrightarrow> granted B q t \<Longrightarrow> E (tr @ [verdict q t r])"
  shows "runs Q (verifyGrant B D (fq_grant q) (fq_manifest q)) (\<lambda>_ tr. \<exists>tr' t. tr = tr' @ [verdict q t None] \<and> Q tr' \<and> granted B q t) E"
proof -
  have ok: "isOk (assertValidNetworkAccessGrant (bp_urls B) (host_date (bp_platform B)) (grant_json (fq_grant q)) (fq_manifest q) (Some t))
      \<longleftrightarrow> granted B q t" for t
    by (simp add: assertValidNetworkAccessGrant_def Let_def granted_def validateNetworkAccessGrant_ok)
  show ?thesis
    unfolding verifyGrant_def ok
    apply (rule runs_bind [OF sp_now])
    apply (rule runs_bind [OF sp_guard], erule assms)
    apply (rule runs_bind [OF runs_timeout [OF sp_record]])
    using assms by (auto intro!: runs_option runs_fail runs_ret)
qed

lemma sp_resolve:
  assumes "\<And>tr. Q tr \<Longrightarrow> E tr"
  shows "runs Q (resolveApprovedAddresses B D h) (\<lambda>as tr. Q tr \<and> as \<noteq> [] \<and> set as \<subseteq> lowered ` {a. address_ok (bp_is_ip B) a}) E"
proof -
  have a: "as \<noteq> [] \<and> set as \<subseteq> lowered ` {a. address_ok (bp_is_ip B) a}"
    if "validateResolvedAddresses (bp_is_ip B) coll es = Inr as" for coll es as
    using validateResolvedAddresses_spec [of es "bp_is_ip B" coll] that by (auto simp: list_all_iff split: if_splits)
  show ?thesis
    unfolding resolveApprovedAddresses_def Let_def
    by (rule runs_if) (auto intro!: runs_sum runs_fail runs_ret runs_bind [OF sp_call] assms dest!: a)
qed

definition content_ok :: "egress_manifest \<Rightarrow> (string \<times> string) list \<Rightarrow> string \<Rightarrow> bool" where
  "content_ok m hs b = (int (length b) \<le> eg_max_body m \<and> (case normalizedContentType (map_of hs ''content-type'') of
     None \<Rightarrow> \<not> (eg_require_type m \<and> b \<noteq> []) | Some t \<Rightarrow> contentTypeAllowed t m))"

definition attempt_ok :: "egress_manifest \<Rightarrow> attempt_result \<Rightarrow> bool" where
  "attempt_ok m a = (let st = tr_status (ar_response a) in st \<in> set REDIRECT_STATUSES \<or>
     (isStatusAllowed st m \<and> (case ar_body a of None \<Rightarrow> False | Some b \<Rightarrow> content_ok m (ar_headers a) b)))"

lemma read_chunks_bound: "read_chunks cs limit n = Inr b \<Longrightarrow> n \<le> limit \<Longrightarrow> n + int (length b) \<le> limit"
  by (induction cs limit n arbitrary: b rule: read_chunks.induct) (fastforce split: if_splits sum.splits)+

lemma body_bound: "readBoundedBody t limit = Inr b \<Longrightarrow> 0 \<le> limit \<Longrightarrow> int (length b) \<le> limit"
  using read_chunks_bound [of _ limit 0] by (auto simp: readBoundedBody_def split: transport_body.splits if_splits)

lemma sp_check:
  assumes e: "\<And>tr. Q tr \<Longrightarrow> E tr" and "0 \<le> eg_max_body m"
  shows "runs Q (checkResponse mth m r) (\<lambda>a tr. Q tr \<and> ar_response a = r \<and> attempt_ok m a) E"
  unfolding checkResponse_def Let_def
  apply (rule runs_bind [OF sp_guard], erule e)
  apply (rule runs_bind [OF sp_lift], rule e, erule conjunct1)
  apply (rule runs_bind [OF sp_guard], rule e, blast)
  apply (rule runs_bind [OF sp_guard], rule e, blast)
  apply (rule runs_bind [OF sp_lift], rule e, blast)
  apply (rule runs_bind [OF sp_guard], rule e, blast)
  apply (rule runs_bind [OF sp_guard], rule e, blast)
  subgoal for u hs v w len
    apply (rule runs_bind [where R = "\<lambda>b tr. Q tr \<and> (tr_status r \<notin> set REDIRECT_STATUSES \<longrightarrow> isStatusAllowed (tr_status r) m) \<and>
        (case normalizedContentType (map_of hs ''content-type'') of None \<Rightarrow> True | Some t \<Rightarrow> contentTypeAllowed t m) \<and> int (length b) \<le> eg_max_body m"])
    subgoal
      apply (rule runs_if)
       apply (rule runs_ret)
       using assms(2) apply (auto split: option.splits)[1]
      apply (rule runs_sum)
       apply (rule runs_lift)
        apply simp
       apply (rule e, blast)
      apply (rule runs_ret)
      using body_bound [OF _ assms(2)] by (auto split: option.splits)
    apply (rule runs_bind [OF sp_guard], rule e, blast)
    apply (rule runs_bind [OF sp_guard], rule e, blast)
    apply (rule runs_ret)
    by (auto simp: attempt_ok_def content_ok_def split: option.splits)
  done

text \<open>What the calls and the hosts of the loop at \<open>url\<close> rely on.\<close>

definition loop_ok :: "broker_platform \<Rightarrow> fetch_request \<Rightarrow> (string \<times> string) list \<Rightarrow> string \<Rightarrow> bool" where
  "loop_ok B q hs url = (list_all (header_ok (fq_manifest q)) hs \<and> 0 \<le> eg_max_body (fq_manifest q) \<and>
     (eg_cross_host (fq_manifest q) \<and> \<not> sensitive hs \<or> same_host B url (bp_href B (fq_url q))))"

lemma attempt_runs:
  assumes n: "n < k" and l: "loop_ok B q hs url" and u: "url_authorized B url mth (fq_manifest q) (fq_grant q)"
  shows "runs (verified_after B q mth n) (executeAttempt B D url mth hs (fq_manifest q) (fq_grant q))
    (\<lambda>a tr. rounds B q mth (Suc n) tr \<and> attempt_ok (fq_manifest q) a) (governed B q mth k)"
proof -
  let ?A = "\<lambda>as. as \<noteq> [] \<and> set as \<subseteq> lowered ` {a. address_ok (bp_is_ip B) a}"
  have v: "verified_after B q mth n tr \<Longrightarrow> governed B q mth k tr" "charged_after B q mth n d tr \<Longrightarrow> governed B q mth k tr"
    "rounds B q mth (Suc n) tr \<Longrightarrow> governed B q mth k tr" for tr d
    using n by (auto intro: governed_intros less_imp_le)
  have c: "charged_after B q mth n d tr"
    if "\<exists>tr'. tr = tr' @ [charge q u d] \<and> verified_after B q mth n tr'" for tr u d
    using that by (auto simp: verified_after_def charged_after_def)
  have s: "charged_after B q mth n d tr \<Longrightarrow> gd_allowed d \<Longrightarrow> ?A as \<Longrightarrow>
      rounds B q mth (Suc n) (tr @ [Sent \<lparr>tc_url = url, tc_method = mth, tc_headers = hs, tc_addresses = as\<rparr>])" for tr as d
    using l u rounds.more [of B q mth n _ _ d "\<lparr>tc_url = url, tc_method = mth, tc_headers = hs, tc_addresses = as\<rparr>"]
    by (auto simp: charged_after_def call_ok_def loop_ok_def)
  have body: "0 \<le> eg_max_body (fq_manifest q)" using l by (simp add: loop_ok_def)
  show ?thesis
    unfolding executeAttempt_def Let_def
    apply (rule runs_timeout)
     apply (rule runs_bind [OF sp_now])
    subgoal for t
      apply (rule runs_bind [where R = "charged_after B q mth n"])
       apply (rule runs_weaken [OF sp_record [where Q = "verified_after B q mth n" and E = "governed B q mth k"]])
          apply (erule v, assumption, erule c, assumption)
      subgoal for d
        apply (rule runs_bind [where R = "\<lambda>_ tr. charged_after B q mth n d tr \<and> gd_allowed d"])
         apply (rule runs_when)
          apply (rule runs_if; rule runs_fail; erule v)
         apply simp
        apply (rule runs_bind [OF sp_resolve], erule conjE, erule v)
        subgoal for w as
          apply (rule runs_bind [where R = "\<lambda>_ tr. (charged_after B q mth n d tr \<and> gd_allowed d) \<and> ?A as"])
           apply (rule runs_timer, rule runs_when)
            apply (rule runs_fail, elim conjE, erule v)
           apply assumption
          apply (rule runs_bind [where R = "\<lambda>_. rounds B q mth (Suc n)"])
           apply (rule runs_trace, elim conjE, rule s, assumption, assumption, rule conjI, assumption, assumption)
          apply (rule runs_bind [OF sp_call], erule v)
          apply (rule runs_weaken [OF sp_check [where Q = "rounds B q mth (Suc n)" and E = "governed B q mth k"]])
          using v body by auto
        done
      done
    using v by blast
qed

lemma sp_exhausted: "(\<And>tr. Q tr \<Longrightarrow> E tr) \<Longrightarrow> runs Q (followRedirect B q mth hs url visited True a) (\<lambda>_ _. False) E"
  unfolding followRedirect_def Let_def by (simp add: runs_fail)

lemma sp_follow:
  assumes e: "\<And>tr. Q tr \<Longrightarrow> E tr" and l: "loop_ok B q hs url"
  shows "runs Q (followRedirect B q mth hs url visited x a) (\<lambda>target tr. Q tr \<and> loop_ok B q hs target) E"
  unfolding followRedirect_def Let_def
  apply (rule runs_if, rule runs_fail, erule e)
  apply (rule runs_if, rule runs_fail, erule e)
  apply (rule runs_option, rule runs_fail, erule e)
  apply (rule runs_bind [OF sp_authorized], erule e)
  apply (rule runs_if, rule runs_fail, rule e, erule conjunct1)
  apply (rule runs_if, rule runs_fail, rule e, erule conjunct1)
  apply (rule runs_if, rule runs_fail, rule e, erule conjunct1)
  apply (rule runs_ret)
  using l by (auto simp: loop_ok_def same_host_def)

text \<open>The result of the loop: an attempt that is no redirect, at an authorised URL.\<close>

definition loop_result_ok :: "broker_platform \<Rightarrow> fetch_request \<Rightarrow> string \<Rightarrow> nat \<Rightarrow> attempt_result \<times> string \<times> redirect list \<Rightarrow> bool" where
  "loop_result_ok B q mth k = (\<lambda>(a, final, rds). tr_status (ar_response a) \<notin> set REDIRECT_STATUSES \<and> attempt_ok (fq_manifest q) a \<and>
     url_authorized B final mth (fq_manifest q) (fq_grant q) \<and> length rds < k)"

text \<open>One pass of the loop, whatever it does with a redirect.\<close>

lemma verify_pass:
  assumes "length rds \<le> k"
  shows "runs (if rds = [] then verified_after B q mth 0 else rounds B q mth (length rds))
      (whenB (rds \<noteq> []) (verifyGrant B D (fq_grant q) (fq_manifest q))) (\<lambda>_. verified_after B q mth (length rds)) (governed B q mth k)"
proof (cases rds)
  case Nil
  then show ?thesis by (simp add: whenB_def runs_ret)
next
  case (Cons r rs)
  have "runs (rounds B q mth (length rds)) (verifyGrant B D (fq_grant q) (fq_manifest q))
      (\<lambda>_ tr. \<exists>tr' t. tr = tr' @ [verdict q t None] \<and> rounds B q mth (length rds) tr' \<and> granted B q t) (governed B q mth k)"
    using assms by (intro sp_verify) (auto intro: governed_intros(1,4))
  then show ?thesis using Cons by (simp add: whenB_def verified_after_def [abs_def])
qed

lemma attempt_pass:
  assumes "length rds < k" and "loop_ok B q hs url"
  shows "runs (\<lambda>tr. verified_after B q mth (length rds) tr \<and> url_authorized B url mth (fq_manifest q) (fq_grant q))
      (executeAttempt B D url mth hs (fq_manifest q) (fq_grant q))
      (\<lambda>a tr. (rounds B q mth (Suc (length rds)) tr \<and> attempt_ok (fq_manifest q) a) \<and> url_authorized B url mth (fq_manifest q) (fq_grant q))
      (governed B q mth k)"
proof (cases "url_authorized B url mth (fq_manifest q) (fq_grant q)")
  case True
  then show ?thesis using attempt_runs [OF assms True] by simp
qed (simp add: runs_def)

lemma finish_pass:
  assumes "\<And>a. tr_status (ar_response a) \<in> set REDIRECT_STATUSES \<Longrightarrow> runs Q (f a) (\<lambda>x tr. G tr \<and> loop_result_ok B q mth k x) E"
    and "\<And>tr. Q tr \<Longrightarrow> G tr" and "length rds < k"
  shows "runs (\<lambda>tr. (Q tr \<and> attempt_ok (fq_manifest q) a) \<and> url_authorized B url mth (fq_manifest q) (fq_grant q))
      (if tr_status (ar_response a) \<notin> set REDIRECT_STATUSES then retB (a, url, rds) else f a)
      (\<lambda>x tr. G tr \<and> loop_result_ok B q mth k x) E"
proof (cases "tr_status (ar_response a) \<in> set REDIRECT_STATUSES")
  case True
  note w = runs_weaken [OF assms(1) [OF True], where Q' = "\<lambda>tr. (Q tr \<and> attempt_ok (fq_manifest q) a) \<and> url_authorized B url mth (fq_manifest q) (fq_grant q)"
      and R' = "\<lambda>x tr. G tr \<and> loop_result_ok B q mth k x" and E' = E]
  have "runs (\<lambda>tr. (Q tr \<and> attempt_ok (fq_manifest q) a) \<and> url_authorized B url mth (fq_manifest q) (fq_grant q)) (f a)
      (\<lambda>x tr. G tr \<and> loop_result_ok B q mth k x) E"
    by (rule w) (simp_all only: conj_assoc)
  with True show ?thesis by simp
next
  case False
  have "runs (\<lambda>tr. (Q tr \<and> attempt_ok (fq_manifest q) a) \<and> url_authorized B url mth (fq_manifest q) (fq_grant q)) (retB (a, url, rds))
      (\<lambda>x tr. G tr \<and> loop_result_ok B q mth k x) E"
    by (rule runs_ret) (use assms(2,3) False in \<open>auto simp: loop_result_ok_def\<close>)
  with False show ?thesis by simp
qed

text \<open>One pass of the loop, whatever it does with a redirect.\<close>

lemma pass_runs:
  assumes l: "loop_ok B q hs url" and k: "length rds < k"
    and f: "\<And>a. tr_status (ar_response a) \<in> set REDIRECT_STATUSES \<Longrightarrow>
      runs (rounds B q mth (Suc (length rds))) (f a) (\<lambda>x tr. governed B q mth k tr \<and> loop_result_ok B q mth k x) (governed B q mth k)"
  shows "runs (if rds = [] then verified_after B q mth 0 else rounds B q mth (length rds))
    (bindB (whenB (rds \<noteq> []) (verifyGrant B D (fq_grant q) (fq_manifest q))) (\<lambda>_.
     bindB (assertUrlAuthorized B url mth (fq_manifest q) (fq_grant q)) (\<lambda>_.
     bindB (executeAttempt B D url mth hs (fq_manifest q) (fq_grant q)) (\<lambda>att.
     if tr_status (ar_response att) \<notin> set REDIRECT_STATUSES then retB (att, url, rds) else f att))))
    (\<lambda>x tr. governed B q mth k tr \<and> loop_result_ok B q mth k x) (governed B q mth k)"
proof -
  have u: "runs (verified_after B q mth (length rds)) (assertUrlAuthorized B url mth (fq_manifest q) (fq_grant q))
      (\<lambda>_ tr. verified_after B q mth (length rds) tr \<and> url_authorized B url mth (fq_manifest q) (fq_grant q)) (governed B q mth k)"
    using k by (intro sp_authorized) (simp add: governed_intros(2))
  have g: "rounds B q mth (Suc (length rds)) tr \<Longrightarrow> governed B q mth k tr" for tr
    using k by (simp add: governed_intros(1))
  show ?thesis
    by (rule runs_bind [OF verify_pass], use k in simp, rule runs_bind [OF u], rule runs_bind [OF attempt_pass [OF k l]],
        rule finish_pass [where G = "governed B q mth k", OF f g k])
qed

lemma attempts_runs:
  "loop_ok B q hs url \<Longrightarrow> length rds + n < k \<Longrightarrow>
   runs (if rds = [] then verified_after B q mth 0 else rounds B q mth (length rds)) (attempts B D q mth hs n url rds visited)
     (\<lambda>x tr. governed B q mth k tr \<and> loop_result_ok B q mth k x) (governed B q mth k)"
proof (induction n arbitrary: url rds visited)
  case 0
  have g: "rounds B q mth (Suc (length rds)) tr \<Longrightarrow> governed B q mth k tr" for tr
    using 0(2) by (auto intro: governed_intros)
  show ?case
    unfolding attempts.simps
    by (rule pass_runs [OF 0(1)]) (use 0(2) in simp, rule runs_bind [OF sp_exhausted], erule g, rule runs_ret, simp)
next
  case (Suc n)
  have g: "rounds B q mth (Suc (length rds)) tr \<Longrightarrow> governed B q mth k tr" for tr
    using Suc.prems(2) by (auto intro: governed_intros)
  have n: "runs (\<lambda>tr. rounds B q mth (Suc (length rds)) tr \<and> loop_ok B q hs target)
      (attempts B D q mth hs n target (rds @ [\<lparr>rd_status = st, rd_from = url, rd_to = target\<rparr>]) vs)
      (\<lambda>x tr. governed B q mth k tr \<and> loop_result_ok B q mth k x) (governed B q mth k)" for target st vs
  proof (cases "loop_ok B q hs target")
    case True
    with Suc.IH [OF True, of "rds @ [\<lparr>rd_status = st, rd_from = url, rd_to = target\<rparr>]" vs] Suc.prems(2) show ?thesis by simp
  qed (simp add: runs_def)
  show ?case
    unfolding attempts.simps
    by (rule pass_runs [OF Suc.prems(1)]) (use Suc.prems(2) in simp, rule runs_bind [OF sp_follow [OF _ Suc.prems(1)]], erule g, rule n)
qed

section \<open>The whole fetch\<close>

lemma normalize_headers_ok:
  "normalize_headers m hs acc = Inr r \<Longrightarrow> list_all (header_ok m) acc \<Longrightarrow> list_all (header_ok m) r"
  by (induction m hs acc rule: normalize_headers.induct) (auto simp: Let_def header_ok_def split: if_splits)

lemma normalizedHeaders_ok: "normalizedHeaders hs m = Inr r \<Longrightarrow> list_all (header_ok m) r"
  using normalize_headers_ok [of m hs "[]"]
  by (auto simp: normalizedHeaders_def header_ok_def FORBIDDEN_REQUEST_HEADERS_def split: sum.splits if_splits)

definition response_ok :: "broker_platform \<Rightarrow> fetch_request \<Rightarrow> string \<Rightarrow> fetch_response \<Rightarrow> bool" where
  "response_ok B q mth r = (url_authorized B (fr_final r) mth (fq_manifest q) (fq_grant q) \<and>
     isStatusAllowed (fr_status r) (fq_manifest q) \<and> content_ok (fq_manifest q) (fr_headers r) (fr_body r) \<and>
     int (length (fr_redirects r)) \<le> eg_max_redirects (fq_manifest q))"

lemma cached_response_ok: "cachedEntryAllowed B e q mth key \<Longrightarrow> response_ok B q mth (makeResponse e True)"
  by (auto simp: cachedEntryAllowed_def Let_def response_ok_def makeResponse_def content_ok_def split: option.splits)

lemma sp_from_cache: "(\<And>tr. Q tr \<Longrightarrow> E tr) \<Longrightarrow>
    runs Q (from_cache B D q mth key) (\<lambda>c tr. Q tr \<and> (case c of None \<Rightarrow> True | Some e \<Rightarrow> cachedEntryAllowed B e q mth key)) E"
  unfolding from_cache_def
  by (rule runs_bind [OF sp_call], assumption)
    (auto intro!: runs_option runs_ret runs_if runs_bind [OF sp_now] runs_bind [OF sp_call])

lemma store_runs: "(\<And>tr. Q tr \<Longrightarrow> E tr) \<Longrightarrow> runs Q (store_entry D q c key e) (\<lambda>_. Q) E"
  unfolding store_entry_def Let_def
  by (auto intro!: runs_if runs_when runs_ret runs_bind [OF sp_now] runs_call)

lemma network_runs:
  assumes "loop_ok B q hs (bp_href B (fq_url q))" and "0 \<le> eg_max_redirects (fq_manifest q)"
  defines "k \<equiv> Suc (nat (eg_max_redirects (fq_manifest q)))"
  shows "runs (verified_after B q mth 0) (fetch_network B D q mth hs c key)
    (\<lambda>r tr. governed B q mth k tr \<and> response_ok B q mth r) (governed B q mth k)"
proof -
  have a: "runs (verified_after B q mth 0) (attempts B D q mth hs (nat (eg_max_redirects (fq_manifest q))) (bp_href B (fq_url q)) [] [bp_href B (fq_url q)])
      (\<lambda>x tr. governed B q mth k tr \<and> loop_result_ok B q mth k x) (governed B q mth k)"
    using attempts_runs [OF assms(1), where rds = "[]" and n = "nat (eg_max_redirects (fq_manifest q))" and k = k and D = D and mth = mth
        and visited = "[bp_href B (fq_url q)]"] by (simp add: k_def)
  have r: "loop_result_ok B q mth k (att, final, rds) \<Longrightarrow> response_ok B q mth (makeResponse \<lparr>ce_key = x1, ce_manifest = x2, ce_version = x3,
      ce_requested = x4, ce_final = final, ce_status = tr_status (ar_response att), ce_headers = ar_headers att,
      ce_body = (case ar_body att of None \<Rightarrow> [] | Some b \<Rightarrow> b), ce_digest = x5, ce_redirects = rds, ce_stored = x6, ce_expires = x7\<rparr> False)"
    for att final rds x1 x2 x3 x4 x5 x6 x7
    using assms(2) by (auto simp: loop_result_ok_def response_ok_def makeResponse_def attempt_ok_def k_def split: option.splits)
  show ?thesis
    unfolding fetch_network_def Let_def
    apply (rule runs_bind [OF a])
    subgoal for x
      apply (cases x)
      apply simp
      apply (rule runs_bind [OF sp_now], rule runs_bind [OF sp_now])
      apply (rule runs_bind [OF store_runs], erule conjunct1)
      apply (rule runs_ret)
      using r by auto
    done
qed

lemma fetch_runs:
  fixes q :: fetch_request
  defines "mth \<equiv> (case fq_method q of None \<Rightarrow> ''GET'' | Some x \<Rightarrow> x)" and "k \<equiv> Suc (nat (eg_max_redirects (fq_manifest q)))"
  shows "runs (\<lambda>tr. tr = []) (broker_fetch B D q) (\<lambda>r tr. governed B q mth k tr \<and> response_ok B q mth r) (governed B q mth k)"
proof -
  have m: "isOk (assertValidEgressManifest (bp_urls B) (manifest_json (fq_manifest q))) \<longleftrightarrow> manifest_ok (bp_urls B) (fq_manifest q)"
    by (simp add: assertValidEgressManifest_def Let_def validateEgressManifest_ok)
  have e: "governed B q mth k []" by (rule governed_intros(1) [OF rounds.none]) simp
  have v: "verified_after B q mth 0 tr \<Longrightarrow> governed B q mth k tr" for tr by (auto intro: governed_intros)
  have g: "runs (\<lambda>tr. tr = [] \<and> \<not> \<not> manifest_ok (bp_urls B) (fq_manifest q)) (verifyGrant B D (fq_grant q) (fq_manifest q))
      (\<lambda>_ tr. verified_after B q mth 0 tr \<and> manifest_ok (bp_urls B) (fq_manifest q)) (governed B q mth k)"
    by (rule runs_weaken [OF sp_verify [where Q = "\<lambda>tr. tr = [] \<and> manifest_ok (bp_urls B) (fq_manifest q)" and E = "governed B q mth k"]])
      (use e governed_intros(4) [OF rounds.none, where B = B and q = q and mth = mth and k = k]
        in \<open>auto simp: verified_after_def intro: rounds.none\<close>)
  have n: "runs (\<lambda>tr. verified_after B q mth 0 tr \<and> manifest_ok (bp_urls B) (fq_manifest q) \<and> list_all (header_ok (fq_manifest q)) hs)
      (fetch_network B D q mth hs c key) (\<lambda>r tr. governed B q mth k tr \<and> response_ok B q mth r) (governed B q mth k)" for hs c key
  proof (cases "manifest_ok (bp_urls B) (fq_manifest q) \<and> list_all (header_ok (fq_manifest q)) hs")
    case True
    then have "loop_ok B q hs (bp_href B (fq_url q))" "0 \<le> eg_max_redirects (fq_manifest q)"
      by (auto simp: loop_ok_def same_host_def manifest_ok_def bounded_def)
    from network_runs [OF this] True show ?thesis by (simp add: k_def)
  qed (auto simp: runs_def)
  show ?thesis
    unfolding broker_fetch_def Let_def m mth_def [symmetric]
    apply (rule runs_bind [OF sp_guard], use e in simp)
    apply (rule runs_bind [OF g])
    apply (rule runs_bind [OF sp_lift], rule v, erule conjunct1)
    apply (rule runs_bind [OF sp_authorized], rule v, blast)
    subgoal for u w hs z
      apply (rule runs_bind [where R = "\<lambda>c tr. (verified_after B q mth 0 tr \<and> manifest_ok (bp_urls B) (fq_manifest q) \<and> list_all (header_ok (fq_manifest q)) hs) \<and>
          (case c of None \<Rightarrow> True | Some e \<Rightarrow> \<exists>key. cachedEntryAllowed B e q mth key)"])
      subgoal
        apply (rule runs_if)
         apply (rule runs_weaken [OF sp_from_cache [where Q = "\<lambda>tr. verified_after B q mth 0 tr \<and> manifest_ok (bp_urls B) (fq_manifest q) \<and> list_all (header_ok (fq_manifest q)) hs"
              and E = "governed B q mth k"]])
        using v normalizedHeaders_ok by (auto intro!: runs_ret split: option.splits)
      subgoal for c
        apply (rule runs_option)
         apply (rule runs_weaken [OF n])
        using v by (auto intro!: runs_ret dest: cached_response_ok)
      done
    done
qed

section \<open>Properties\<close>

text \<open>C19: Whatever its dependencies do, a fetch hands a request to the transport only after the verifier was asked about
  this grant and manifest and accepted, at a time when the grant is valid under the manifest, and after the rate gate was
  then asked about them and allowed the request; after a rejection or a refusal nothing follows. Every call
  goes to an authorised URL, is pinned to public addresses, carries allowed headers only, and stays on the first host
  where the manifest or a sensitive header demands it. There are at most \<open>maxRedirects + 1\<close> calls.\<close>

theorem transport_calls_governed:
  "governed B q (case fq_method q of None \<Rightarrow> ''GET'' | Some mth \<Rightarrow> mth) (Suc (nat (eg_max_redirects (fq_manifest q))))
     (bs_trace (fst (broker_fetch B D q \<lparr>bs_world = w, bs_trace = []\<rparr>)))"
  using runsD [OF fetch_runs [where B = B and D = D and q = q], of "\<lparr>bs_world = w, bs_trace = []\<rparr>"]
  by (cases "broker_fetch B D q \<lparr>bs_world = w, bs_trace = []\<rparr>" rule: outcome_cases) auto

text \<open>C20: Every response a fetch returns, from the network or from the cache, comes from an authorised URL after at most
  \<open>maxRedirects\<close> redirects, has an allowed status, a body within the byte limit, and an allowed content type, which
  may be missing only where the manifest does not require one or the body is empty.\<close>

theorem returned_response_conforms:
  "case snd (broker_fetch B D q \<lparr>bs_world = w, bs_trace = []\<rparr>) of
     Inl _ \<Rightarrow> True
   | Inr r \<Rightarrow> response_ok B q (case fq_method q of None \<Rightarrow> ''GET'' | Some mth \<Rightarrow> mth) r"
  using runsD [OF fetch_runs [where B = B and D = D and q = q], of "\<lparr>bs_world = w, bs_trace = []\<rparr>"]
  by (cases "broker_fetch B D q \<lparr>bs_world = w, bs_trace = []\<rparr>" rule: outcome_cases) auto

section \<open>A fetch that succeeds\<close>

definition sample_broker :: broker_platform where
  "sample_broker = \<lparr>bp_platform = sample_signing, bp_urls = \<lparr>parse_url = (\<lambda>_. Some \<lparr>ur_protocol = ''https:'', ur_username = [],
     ur_password = [], ur_hash = [], ur_hostname = ''api.jobs.org'', ur_port = [], ur_path = ''/api/jobs''\<rparr>), decode_component = Some\<rparr>,
     bp_href = (\<lambda>s. s), bp_resolve = (\<lambda>_ _. None), bp_is_ip = (\<lambda>s. if CHR ''a'' \<in> set s then 0 else 4)\<rparr>"

definition sample_deps :: "unit broker_deps" where
  "sample_deps = \<lparr>bd_now = (\<lambda>w. (w, 5)), timer_fired = (\<lambda>_. False), bd_verify = (\<lambda>g m t w. (w, Inr None)),
     bd_consume = (\<lambda>r w. (w, Inr \<lparr>gd_allowed = True, gd_reason = None, gd_retry = Some 0\<rparr>)),
     bd_dns = (\<lambda>h w. (w, Inr [\<lparr>ra_address = ''93.184.216.34'', ra_family = 4\<rparr>])),
     bd_fetch = (\<lambda>c w. (w, Inr \<lparr>tr_status = 200, tr_headers = Map.empty(''content-type'' \<mapsto> ''text/html; charset=utf-8''), tr_body = BodyBytes ''ok''\<rparr>)),
     bd_cache_get = (\<lambda>k w. (w, Inr None)), bd_cache_set = (\<lambda>k e w. (w, Inr ())), bd_cache_delete = (\<lambda>k w. (w, Inr ()))\<rparr>"

definition sample_request :: fetch_request where
  "sample_request = \<lparr>fq_url = ''https://api.jobs.org/api/jobs'', fq_manifest = sample_manifest, fq_grant = sample_network_grant,
     fq_method = None, fq_headers = [], fq_mode = None\<rparr>"


lemma decode_cong: "decode_component U = decode_component V \<Longrightarrow> decode_passes U n s = decode_passes V n s"
  by (induction U n s rule: decode_passes.induct) (auto split: option.split)

lemma path_cong: "decode_component U = decode_component V \<Longrightarrow> isPathPrefix U = isPathPrefix V"
  by (auto simp: isPathPrefix_def fullyDecodePath_def fun_eq_iff decode_cong [of U V])

lemma manifest_cong: "decode_component U = decode_component V \<Longrightarrow> manifest_ok U m = manifest_ok V m"
  using path_cong [of U V] by (simp add: manifest_ok_def)

lemma sample_broker_manifest: "manifest_ok (bp_urls sample_broker) sample_manifest"
  using sample_manifest_ok manifest_cong [of "bp_urls sample_broker" sample_urls] by (simp add: sample_broker_def sample_urls_def)

lemma sample_broker_grant: "grant_ok (bp_urls sample_broker) (\<lambda>_. None) sample_network_grant sample_manifest 5"
  using sample_grant_ok sample_broker_manifest by (simp add: grant_ok_def)

lemma sample_hosts: "hostMatchesPattern ''api.jobs.org'' ''*.jobs.org''" "hostMatchesPattern ''api.jobs.org'' ''api.jobs.org''"
  "normalizeHostname ''api.jobs.org'' = ''api.jobs.org''" "normalizeHostname [] = []"
  by (simp_all add: hostMatchesPattern_def normalizeHostname_def strip_dot_def ends_with_def starts_with_def trim_def trim_left_def is_ws_def to_lower_def lower_char_def Let_def)

lemma sample_broker_url: "url_authorized sample_broker u ''GET'' sample_manifest sample_network_grant"
  unfolding url_authorized_def validateUrlAuthorization_ok
  by (simp add: sample_broker_def url_ok_def sample_manifest_def sample_network_grant_def url_port_def sample_hosts ends_with_def
     fullyDecodePath_def numeral_eq_Suc path_segments_ok_def pathMatchesPrefix_def starts_with_def)

lemma sample_address: "address_ok (bp_is_ip sample_broker) \<lparr>ra_address = ''93.184.216.34'', ra_family = 4\<rparr>"
proof -
  have "isPublicIpv4 (dotted [93, 184, 216, 34])" unfolding isPublicIpv4_iff by (intro exI [of _ 93] exI [of _ 184] exI [of _ 216] exI [of _ 34]) (simp add: public_quad_def)
  moreover have "dotted [93, 184, 216, 34] = ''93.184.216.34''" by (simp add: dotted_def nat_str.simps digit_char_def char_of_def bit_0)
  ultimately show ?thesis by (simp add: address_ok_def isPublicNetworkAddress_def sample_broker_def)
qed

lemma sample_resolve: "\<exists>as. validateResolvedAddresses (bp_is_ip sample_broker) c [\<lparr>ra_address = ''93.184.216.34'', ra_family = 4\<rparr>] = Inr as"
  using validateResolvedAddresses_spec [of "[\<lparr>ra_address = ''93.184.216.34'', ra_family = 4\<rparr>]" "bp_is_ip sample_broker" c] sample_address by auto

lemma sample_checks: "isOk (assertValidEgressManifest (bp_urls sample_broker) (manifest_json sample_manifest))"
  "isOk (assertValidNetworkAccessGrant (bp_urls sample_broker) (host_date (bp_platform sample_broker)) (grant_json sample_network_grant) sample_manifest (Some 5))"
  "validateUrlAuthorization (bp_urls sample_broker) u ''GET'' sample_manifest sample_network_grant = []"
proof -
  have h: "host_date (bp_platform sample_broker) = (\<lambda>_. None)" by (simp add: sample_broker_def sample_signing_def sample_platform_def)
  show "isOk (assertValidEgressManifest (bp_urls sample_broker) (manifest_json sample_manifest))"
    by (simp add: assertValidEgressManifest_def Let_def validateEgressManifest_ok sample_broker_manifest)
  show "isOk (assertValidNetworkAccessGrant (bp_urls sample_broker) (host_date (bp_platform sample_broker)) (grant_json sample_network_grant) sample_manifest (Some 5))"
    by (simp add: assertValidNetworkAccessGrant_def Let_def validateNetworkAccessGrant_ok h sample_broker_grant)
  show "validateUrlAuthorization (bp_urls sample_broker) u ''GET'' sample_manifest sample_network_grant = []"
    using sample_broker_url by (simp add: url_authorized_def)
qed

lemma sample_ct: "normalizedContentType (Some ''text/html; charset=utf-8'') = Some ''text/html''"
  by (simp add: normalizedContentType_def trim_def trim_left_def is_ws_def to_lower_def lower_char_def Let_def)

text \<open>A fetch that succeeds, with its trace.\<close>

lemma sample_fetch_succeeds:
  "\<exists>s r as. broker_fetch sample_broker sample_deps sample_request \<lparr>bs_world = (), bs_trace = []\<rparr> = (s, Inr r) \<and> fr_body r = ''ok'' \<and>
     bs_trace s = [verdict sample_request 5 None, charge sample_request 5 \<lparr>gd_allowed = True, gd_reason = None, gd_retry = Some 0\<rparr>,
       Sent \<lparr>tc_url = ''https://api.jobs.org/api/jobs'', tc_method = ''GET'', tc_headers = [], tc_addresses = as\<rparr>]"
proof -
  obtain as where a: "validateResolvedAddresses (bp_is_ip sample_broker) (coll_key (bp_platform sample_broker)) [\<lparr>ra_address = ''93.184.216.34'', ra_family = 4\<rparr>] = Inr as"
    using sample_resolve by blast
  have n: "normalizeHostname (hostname_of sample_broker u) = ''api.jobs.org''" "bp_is_ip sample_broker ''api.jobs.org'' = 0" "bp_href sample_broker u = u" for u
    by (simp_all add: hostname_of_def sample_broker_def sample_hosts)
  have m: "eg_max_redirects sample_manifest = 1" "eg_headers sample_manifest = []" "eg_max_body sample_manifest = 1000" "eg_cache_methods sample_manifest = [''GET'']"
    "eg_statuses sample_manifest = [\<lparr>sr_min = 200, sr_max = 299\<rparr>]" "eg_content_types sample_manifest = [''text/html'']" "eg_cache_ttl sample_manifest = 0"
    by (simp_all add: sample_manifest_def)
  show ?thesis
    by (simp add: broker_fetch_def sample_request_def sample_checks bindB_def whenB_def retB_def verifyGrant_def nowB_def sample_deps_def withTimeout_def callB_def
      recordB_def traceB_def liftB_def normalizedHeaders_def m assertUrlAuthorized_def from_cache_def sensitive_def fetch_network_def n attempts.simps executeAttempt_def
      resolveApprovedAddresses_def a checkResponse_def responseHeaders_def RETAINED_RESPONSE_HEADERS_def header_value_ok_def REDIRECT_STATUSES_def isStatusAllowed_def
      content_length_def sample_ct contentTypeAllowed_def readBoundedBody_def store_entry_def cacheControlTtl_def makeResponse_def Let_def)
qed

end
