(* ===== verification/Ipc.thy ===== *)
theory Ipc
  imports JsonParse Governance
begin

text \<open>
  The protocol between clients and the daemon: framing, the frame channel and the message authentication codes
  (src/src/ipc/protocol.ts), and the session of one connection of the server (src/src/daemon/server.ts). A byte is a
  character and a text its UTF-8 bytes. The socket's events and the timers are operations on the channel; the settled
  receives are recorded in order. HMAC-SHA256 is the parameter \<open>ipc_crypto\<close>, the authority that executes a request is
  a parameter of the session. The lemmas say that frames survive any chunking of the byte stream, and what a
  session lets through to the authority.
\<close>

definition MAX_IPC_FRAME_BYTES :: nat where
  "MAX_IPC_FRAME_BYTES = 1024 * 1024"

definition MAX_IPC_BUFFER_BYTES :: nat where
  "MAX_IPC_BUFFER_BYTES = (MAX_IPC_FRAME_BYTES + 4) * 2"

definition MAX_IPC_QUEUED_FRAMES :: nat where
  "MAX_IPC_QUEUED_FRAMES = 16"

section \<open>Frames\<close>

text \<open>\<open>JSON.stringify\<close>: undefined items of an array become null, undefined members are dropped, the order of the
  members is kept (a constant collation key does not reorder).\<close>

fun array_nulls :: "json \<Rightarrow> json" where
  "array_nulls (JArr vs) = JArr (map (\<lambda>v. if v = JUndef then JNull else array_nulls v) vs)"
| "array_nulls (JObj es) = JObj (map (\<lambda>(k, v). (k, array_nulls v)) es)"
| "array_nulls j = j"

definition json_stringify :: "json \<Rightarrow> string" where
  "json_stringify j = stable_stringify (\<lambda>_. []) (array_nulls j)"

definition be32 :: "nat \<Rightarrow> string" where
  "be32 n = map char_of [n div 16777216 mod 256, n div 65536 mod 256, n div 256 mod 256, n mod 256]"

definition be32_val :: "string \<Rightarrow> nat" where
  "be32_val s = foldl (\<lambda>n c. n * 256 + of_char c) 0 s"

definition encodeFrame :: "json \<Rightarrow> string result" where
  "encodeFrame v = (if v = JUndef then throw ''The first argument must be of type string'' else
     let body = json_stringify v in
     if MAX_IPC_FRAME_BYTES < length body then throw ''IPC frame exceeds the maximum size''
     else Inr (be32 (length body) @ body))"

record channel =
  ch_buffer :: string
  ch_queue :: "json list"
  ch_waiters :: "nat list"
  ch_failure :: "string option"
  ch_destroyed :: bool
  ch_settled :: "(nat \<times> (string + json)) list"

definition open_channel :: channel where
  "open_channel = \<lparr>ch_buffer = [], ch_queue = [], ch_waiters = [], ch_failure = None, ch_destroyed = False, ch_settled = []\<rparr>"

definition fail :: "string \<Rightarrow> channel \<Rightarrow> channel" where
  "fail msg c = (if ch_failure c \<noteq> None then c
     else c\<lparr>ch_failure := Some msg, ch_waiters := [], ch_settled := ch_settled c @ map (\<lambda>w. (w, Inl msg)) (ch_waiters c)\<rparr>)"

definition fail_destroy :: "string \<Rightarrow> channel \<Rightarrow> channel" where
  "fail_destroy msg c = (fail msg c)\<lparr>ch_destroyed := True\<rparr>"

definition deliver :: "nat \<Rightarrow> json \<Rightarrow> channel \<Rightarrow> channel" where
  "deliver maxQueued v c = (case ch_waiters c of
     w # ws \<Rightarrow> c\<lparr>ch_waiters := ws, ch_settled := ch_settled c @ [(w, Inr v)]\<rparr>
   | [] \<Rightarrow> if length (ch_queue c) < maxQueued then c\<lparr>ch_queue := ch_queue c @ [v]\<rparr>
       else fail_destroy ''IPC queued frame limit exceeded'' c)"

lemma deliver_buffer [simp]: "ch_buffer (deliver q v c) = ch_buffer c"
  by (simp add: deliver_def fail_destroy_def fail_def split: list.split)

text \<open>The loop over the buffered bytes.\<close>

function drain :: "nat \<Rightarrow> channel \<Rightarrow> channel" where
  "drain q c = (if length (ch_buffer c) < 4 then c else
     let len = be32_val (take 4 (ch_buffer c)) in
     if MAX_IPC_FRAME_BYTES < len then fail_destroy ''IPC frame exceeds the maximum size'' c
     else if length (ch_buffer c) < len + 4 then c
     else let c' = c\<lparr>ch_buffer := drop (len + 4) (ch_buffer c)\<rparr> in
       case json_parse (take len (drop 4 (ch_buffer c))) of
         None \<Rightarrow> fail_destroy ''IPC frame contains invalid JSON'' c'
       | Some v \<Rightarrow> drain q (deliver q v c'))"
  by pat_completeness auto
termination
  by (relation "measure (\<lambda>(q, c). length (ch_buffer c))") auto

declare drain.simps [simp del]

definition accept :: "nat \<Rightarrow> string \<Rightarrow> channel \<Rightarrow> channel" where
  "accept q chunk c = (if ch_failure c \<noteq> None then c
     else if MAX_IPC_BUFFER_BYTES < length (ch_buffer c) + length chunk
     then fail_destroy ''IPC buffered data exceeds the maximum size'' c
     else drain q (c\<lparr>ch_buffer := ch_buffer c @ chunk\<rparr>))"

text \<open>A receive settles at once from the queue or the failure, or waits; the identifier names the promise.\<close>

definition receive :: "nat \<Rightarrow> channel \<Rightarrow> channel" where
  "receive w c = (case ch_queue c of
     v # vs \<Rightarrow> c\<lparr>ch_queue := vs, ch_settled := ch_settled c @ [(w, Inr v)]\<rparr>
   | [] \<Rightarrow> (case ch_failure c of
       Some msg \<Rightarrow> c\<lparr>ch_settled := ch_settled c @ [(w, Inl msg)]\<rparr>
     | None \<Rightarrow> c\<lparr>ch_waiters := ch_waiters c @ [w]\<rparr>))"

definition receive_timeout :: "nat \<Rightarrow> channel \<Rightarrow> channel" where
  "receive_timeout w c = (if w \<in> set (ch_waiters c)
     then c\<lparr>ch_waiters := remove1 w (ch_waiters c), ch_settled := ch_settled c @ [(w, Inl ''IPC receive timed out'')]\<rparr> else c)"

definition send_frame :: "channel \<Rightarrow> json \<Rightarrow> string result" where
  "send_frame c v = (case ch_failure c of Some msg \<Rightarrow> throw msg | None \<Rightarrow> encodeFrame v)"

inductive channel_step :: "nat \<Rightarrow> channel \<Rightarrow> channel \<Rightarrow> bool" for q where
  data: "channel_step q c (accept q chunk c)"
| error: "channel_step q c (fail msg c)"
| receive: "channel_step q c (receive w c)"
| timeout: "channel_step q c (receive_timeout w c)"

section \<open>Authentication codes\<close>

record ipc_crypto =
  hmac :: "string \<Rightarrow> string \<Rightarrow> string"
  hmac_key :: "string \<Rightarrow> string \<Rightarrow> string"

definition handshake_json :: "string \<Rightarrow> string \<Rightarrow> string \<Rightarrow> json" where
  "handshake_json client server cid = JObj [(''protocol'', JNum 1), (''clientNonce'', JStr client), (''serverNonce'', JStr server), (''challengeId'', JStr cid)]"

definition handshakeProof :: "platform \<Rightarrow> ipc_crypto \<Rightarrow> string \<Rightarrow> string \<Rightarrow> string \<Rightarrow> string \<Rightarrow> string" where
  "handshakeProof P H secret client server cid = hmac H secret (stable_stringify (coll_key P) (handshake_json client server cid))"

definition deriveSessionKey :: "platform \<Rightarrow> ipc_crypto \<Rightarrow> string \<Rightarrow> string \<Rightarrow> string \<Rightarrow> string \<Rightarrow> string" where
  "deriveSessionKey P H secret client server cid = hmac_key H secret (stable_stringify (coll_key P)
     (JObj [(''purpose'', JStr ''vocation-os-ipc-session-v1''), (''clientNonce'', JStr client), (''serverNonce'', JStr server), (''challengeId'', JStr cid)]))"

definition readyMac :: "platform \<Rightarrow> ipc_crypto \<Rightarrow> string \<Rightarrow> string \<Rightarrow> string" where
  "readyMac P H key cid = hmac H key (stable_stringify (coll_key P) (JObj [(''type'', JStr ''ready''), (''challengeId'', JStr cid)]))"

definition requestMac :: "platform \<Rightarrow> ipc_crypto \<Rightarrow> string \<Rightarrow> json \<Rightarrow> string" where
  "requestMac P H key unsigned = hmac H key (stable_stringify (coll_key P) unsigned)"

definition responseMac :: "platform \<Rightarrow> ipc_crypto \<Rightarrow> string \<Rightarrow> json \<Rightarrow> string" where
  "responseMac P H key unsigned = hmac H key (stable_stringify (coll_key P) unsigned)"

definition secureEqual :: "string \<Rightarrow> string \<Rightarrow> bool" where
  "secureEqual a b = (length a = length b \<and> list_all2 (=) a b)"

section \<open>The session of a connection\<close>

definition isHello :: "json \<Rightarrow> bool" where
  "isHello f = (member f ''type'' = JStr ''hello'' \<and> (case jstr (member f ''clientNonce'') of None \<Rightarrow> False
     | Some n \<Rightarrow> 32 \<le> length n \<and> length n \<le> 100 \<and> list_all (\<lambda>c. is_alnum c \<or> c = CHR ''_'' \<or> c = CHR ''-'') n))"

definition isAuth :: "json \<Rightarrow> bool" where
  "isAuth f = (member f ''type'' = JStr ''auth'' \<and> jstr (member f ''challengeId'') \<noteq> None \<and> jstr (member f ''proof'') \<noteq> None)"

definition has_member :: "json \<Rightarrow> string \<Rightarrow> bool" where
  "has_member f k = (case f of JObj es \<Rightarrow> k \<in> fst ` set es | _ \<Rightarrow> False)"

definition isRequest :: "json \<Rightarrow> bool" where
  "isRequest f = (member f ''type'' = JStr ''request'' \<and> jstr (member f ''id'') \<noteq> None \<and> jint (member f ''sequence'') \<noteq> None \<and>
     jstr (member f ''operation'') \<noteq> None \<and> has_member f ''payload'' \<and> jstr (member f ''mac'') \<noteq> None)"

definition text_at :: "json \<Rightarrow> string \<Rightarrow> string" where
  "text_at f k = the (jstr (member f k))"

definition without_mac :: "json \<Rightarrow> json" where
  "without_mac f = (case f of JObj es \<Rightarrow> JObj (filter (\<lambda>e. fst e \<noteq> ''mac'') es) | _ \<Rightarrow> f)"

datatype session_phase = AwaitHello | AwaitAuth string | Serving string int | Ended

text \<open>The environment of a connection: the secret, the challenge it will issue, whether there is capacity for one more
  authenticated connection, and the authority.\<close>

record 'w session_env =
  en_platform :: platform
  en_crypto :: ipc_crypto
  en_secret :: string
  en_challenge :: string
  en_nonce :: string
  en_capacity :: bool
  en_execute :: "string \<Rightarrow> string \<Rightarrow> json \<Rightarrow> 'w \<Rightarrow> 'w \<times> (string + json)"

record 'w session =
  se_phase :: session_phase
  se_world :: 'w
  se_sent :: "json list"
  se_dispatched :: "json list"

definition open_session :: "'w \<Rightarrow> 'w session" where
  "open_session w = \<lparr>se_phase = AwaitHello, se_world = w, se_sent = [], se_dispatched = []\<rparr>"

definition send_to :: "json \<Rightarrow> 'w session \<Rightarrow> 'w session" where
  "send_to v s = (case encodeFrame v of Inl _ \<Rightarrow> s\<lparr>se_phase := Ended\<rparr> | Inr _ \<Rightarrow> s\<lparr>se_sent := se_sent s @ [v]\<rparr>)"

definition answer :: "'w session_env \<Rightarrow> string \<Rightarrow> json \<Rightarrow> string + json \<Rightarrow> json" where
  "answer E key f r = (let body = [(''type'', JStr ''response''), (''id'', member f ''id''), (''sequence'', member f ''sequence''),
       (''ok'', JBool (\<not> isl r))] @ (case r of Inr v \<Rightarrow> [(''result'', v)] | Inl msg \<Rightarrow> [(''error'', JStr msg)]) in
     JObj (body @ [(''mac'', JStr (responseMac (en_platform E) (en_crypto E) key (JObj body)))]))"

definition serve :: "'w session_env \<Rightarrow> string \<Rightarrow> int \<Rightarrow> json \<Rightarrow> 'w session \<Rightarrow> 'w session" where
  "serve E key expected f s = (
     if \<not> isRequest f then s\<lparr>se_phase := Ended\<rparr>
     else if member f ''sequence'' \<noteq> JNum expected \<or>
       \<not> secureEqual (text_at f ''mac'') (requestMac (en_platform E) (en_crypto E) key (without_mac f)) then s\<lparr>se_phase := Ended\<rparr>
     else case en_execute E (text_at f ''id'') (text_at f ''operation'') (member f ''payload'') (se_world s) of (w, r) \<Rightarrow>
       let s1 = s\<lparr>se_world := w, se_dispatched := se_dispatched s @ [f], se_phase := Serving key (expected + 1)\<rparr>;
           s2 = send_to (answer E key f r) s1 in
       if se_phase s2 \<noteq> Ended \<and> \<not> isl r \<and> text_at f ''operation'' = ''daemon-stop'' then s2\<lparr>se_phase := Ended\<rparr> else s2)"

text \<open>What the handler does with the outcome of its next receive; \<open>None\<close> is a failed or timed-out one.\<close>

definition session_step :: "'w session_env \<Rightarrow> 'w session \<Rightarrow> json option \<Rightarrow> 'w session" where
  "session_step E s frame = (case se_phase s of Ended \<Rightarrow> s | ph \<Rightarrow> (case frame of None \<Rightarrow> s\<lparr>se_phase := Ended\<rparr> | Some f \<Rightarrow>
     (case ph of
       AwaitHello \<Rightarrow> if \<not> isHello f then s\<lparr>se_phase := Ended\<rparr>
         else send_to (JObj [(''type'', JStr ''challenge''), (''challengeId'', JStr (en_challenge E)), (''serverNonce'', JStr (en_nonce E))])
           (s\<lparr>se_phase := AwaitAuth (text_at f ''clientNonce'')\<rparr>)
     | AwaitAuth nonce \<Rightarrow>
         if \<not> isAuth f \<or> text_at f ''challengeId'' \<noteq> en_challenge E then s\<lparr>se_phase := Ended\<rparr>
         else if \<not> secureEqual (text_at f ''proof'') (handshakeProof (en_platform E) (en_crypto E) (en_secret E) nonce (en_nonce E) (en_challenge E))
           then s\<lparr>se_phase := Ended\<rparr>
         else if \<not> en_capacity E then s\<lparr>se_phase := Ended\<rparr>
         else let key = deriveSessionKey (en_platform E) (en_crypto E) (en_secret E) nonce (en_nonce E) (en_challenge E) in
           send_to (JObj [(''type'', JStr ''ready''), (''challengeId'', JStr (en_challenge E)),
               (''mac'', JStr (readyMac (en_platform E) (en_crypto E) key (en_challenge E)))]) (s\<lparr>se_phase := Serving key 1\<rparr>)
     | Serving key expected \<Rightarrow> serve E key expected f s
     | Ended \<Rightarrow> s)))"

definition run_session :: "'w session_env \<Rightarrow> 'w \<Rightarrow> json option list \<Rightarrow> 'w session" where
  "run_session E w frames = foldl (session_step E) (open_session w) frames"

section \<open>Framing\<close>

lemma be32_length [simp]: "length (be32 n) = 4"
  by (simp add: be32_def)

lemma be32_round: "n < 2 ^ 32 \<Longrightarrow> be32_val (be32 n) = n"
proof -
  assume n: "n < 2 ^ 32"
  have "n div 16777216 mod 256 = n div 16777216" using n by simp
  moreover have "n div 65536 = n div 16777216 * 256 + n div 65536 mod 256" using div_mult_mod_eq [of "n div 65536" 256] div_mult2_eq [of n 65536 256] by simp
  moreover have "n div 256 = n div 65536 * 256 + n div 256 mod 256" using div_mult_mod_eq [of "n div 256" 256] div_mult2_eq [of n 256 256] by simp
  moreover have "n = n div 256 * 256 + n mod 256" by simp
  ultimately show ?thesis by (simp add: be32_val_def be32_def)
qed

text \<open>A value that can be sent, and what the receiver gets for it.\<close>

definition sendable :: "json \<Rightarrow> bool" where
  "sendable v = (array_safe v \<and> v \<noteq> JUndef \<and> wf_keys v \<and> length (stable_stringify (\<lambda>_. []) v) \<le> MAX_IPC_FRAME_BYTES)"

definition received :: "json \<Rightarrow> json" where
  "received v = canon (\<lambda>_. []) v"

definition frame_of :: "json \<Rightarrow> string" where
  "frame_of v = be32 (length (stable_stringify (\<lambda>_. []) v)) @ stable_stringify (\<lambda>_. []) v"

lemma array_nulls_safe: "array_safe v \<Longrightarrow> array_nulls v = v"
proof (induction v rule: array_nulls.induct)
  case (2 es)
  have "map (\<lambda>(k, v). (k, array_nulls v)) es = es" by (rule map_idI) (use 2 in force)
  then show ?case by simp
qed (auto simp: map_idI)

lemma encodeFrame_sendable: "sendable v \<Longrightarrow> encodeFrame v = Inr (frame_of v)"
  by (simp add: sendable_def encodeFrame_def json_stringify_def array_nulls_safe frame_of_def Let_def not_less)

lemma frame_header: "sendable v \<Longrightarrow> be32_val (be32 (length (stable_stringify (\<lambda>_. []) v))) = length (stable_stringify (\<lambda>_. []) v)"
  by (rule be32_round) (simp add: sendable_def MAX_IPC_FRAME_BYTES_def)

lemma drain_short: "sendable v \<Longrightarrow> frame_of v = ch_buffer c @ x \<Longrightarrow> x \<noteq> [] \<Longrightarrow> drain q c = c"
proof -
  assume v: "sendable v" and f: "frame_of v = ch_buffer c @ x" "x \<noteq> []"
  show "drain q c = c"
  proof (cases "length (ch_buffer c) < 4")
    case False
    then have "take 4 (ch_buffer c) = take 4 (frame_of v)" using f by simp
    then have t: "take 4 (ch_buffer c) = be32 (length (stable_stringify (\<lambda>_. []) v))" by (simp add: frame_of_def)
    have "length (frame_of v) = length (ch_buffer c) + length x" using f by simp
    then have "length (ch_buffer c) < length (stable_stringify (\<lambda>_. []) v) + 4" using f(2) by (cases x) (simp_all add: frame_of_def)
    then show ?thesis
      using v by (subst drain.simps) (simp add: t frame_header Let_def sendable_def not_less)
  qed (simp add: drain.simps)
qed

lemma drain_frame:
  assumes "sendable v" and "ch_buffer c = frame_of v @ rest"
  shows "drain q c = drain q (deliver q (received v) (c\<lparr>ch_buffer := rest\<rparr>))"
proof -
  let ?b = "stable_stringify (\<lambda>_. []) v"
  have t: "take 4 (ch_buffer c) = be32 (length ?b)" "drop (length ?b + 4) (ch_buffer c) = rest" "take (length ?b) (drop 4 (ch_buffer c)) = ?b"
    using assms(2) by (simp_all add: frame_of_def)
  have p: "json_parse ?b = Some (received v)"
    using assms(1) by (simp add: sendable_def received_def json_parse_stringify)
  show ?thesis
    using assms by (subst drain.simps) (simp add: t frame_header p Let_def sendable_def not_less frame_of_def)
qed

text \<open>Buffered bytes that start a sequence of frames are drained to the last complete one.\<close>

lemma drain_frames:
  assumes "list_all sendable vs" and "ch_buffer c @ x = concat (map frame_of vs)" and "ch_waiters c = []"
    and "length (ch_queue c) + length vs \<le> q"
  shows "\<exists>us ws b. vs = us @ ws \<and> drain q c = c\<lparr>ch_buffer := b, ch_queue := ch_queue c @ map received us\<rparr> \<and>
    b @ x = concat (map frame_of ws) \<and> (case ws of [] \<Rightarrow> b = [] | w # _ \<Rightarrow> length b < length (frame_of w))"
  using assms
proof (induction vs arbitrary: c)
  case Nil
  then have "ch_buffer c = []" by simp
  then have "drain q c = c\<lparr>ch_buffer := [], ch_queue := ch_queue c @ map received []\<rparr>" by (simp add: drain.simps)
  with Nil show ?case by (intro exI [of _ "[]"]) auto
next
  case (Cons v vs)
  show ?case
  proof (cases "length (ch_buffer c) < length (frame_of v)")
    case True
    have "take (length (ch_buffer c)) (frame_of v) = ch_buffer c"
      using arg_cong [OF Cons.prems(2), of "take (length (ch_buffer c))"] True by simp
    then have "frame_of v = ch_buffer c @ drop (length (ch_buffer c)) (frame_of v)" by (metis append_take_drop_id)
    then have "drain q c = c" using drain_short [of v c] Cons.prems(1) True by simp
    with Cons.prems(2) True show ?thesis by (intro exI [of _ "[]"] exI [of _ "v # vs"] exI [of _ "ch_buffer c"]) simp
  next
    case False
    then have "take (length (frame_of v)) (ch_buffer c) = frame_of v"
      using arg_cong [OF Cons.prems(2), of "take (length (frame_of v))"] by simp
    then obtain rest where r: "ch_buffer c = frame_of v @ rest" by (metis append_take_drop_id)
    define c' where "c' = c\<lparr>ch_buffer := rest, ch_queue := ch_queue c @ [received v]\<rparr>"
    have d: "drain q c = drain q c'"
      using drain_frame [OF _ r] Cons.prems(1,3,4) by (simp add: deliver_def c'_def)
    obtain us ws b where "vs = us @ ws" "drain q c' = c'\<lparr>ch_buffer := b, ch_queue := ch_queue c' @ map received us\<rparr>"
      "b @ x = concat (map frame_of ws)" "case ws of [] \<Rightarrow> b = [] | w # _ \<Rightarrow> length b < length (frame_of w)"
      using Cons.IH [of c'] Cons.prems r by (auto simp: c'_def)
    then show ?thesis
      unfolding d by (intro exI [of _ "v # us"] exI [of _ ws] exI [of _ b]) (simp add: c'_def)
  qed
qed

text \<open>So the chunks of a stream of frames leave the received values in the queue, however the stream was cut.\<close>

lemma accept_stream:
  assumes "list_all sendable vs" and "ch_buffer c @ concat chunks = concat (map frame_of vs)" and "ch_waiters c = []" and "ch_failure c = None"
    and "length (ch_queue c) + length vs \<le> q" and "case vs of [] \<Rightarrow> ch_buffer c = [] | v # _ \<Rightarrow> length (ch_buffer c) < length (frame_of v)"
    and "list_all (\<lambda>b. length b \<le> MAX_IPC_FRAME_BYTES + 4) chunks"
  shows "foldl (\<lambda>c b. accept q b c) c chunks = c\<lparr>ch_buffer := [], ch_queue := ch_queue c @ map received vs\<rparr>"
  using assms
proof (induction chunks arbitrary: c vs)
  case Nil
  have "vs = []"
  proof (cases vs)
    case (Cons v us)
    then show ?thesis using Nil.prems(2,6) by simp
  qed
  with Nil.prems show ?case by simp
next
  case (Cons b chunks)
  have l: "length (ch_buffer c) \<le> MAX_IPC_FRAME_BYTES + 4"
  proof (cases vs)
    case (Cons v us)
    then show ?thesis using Cons.prems(1,6) by (simp add: sendable_def frame_of_def)
  qed (use Cons.prems(6) in simp)
  let ?c = "c\<lparr>ch_buffer := ch_buffer c @ b\<rparr>"
  have a: "accept q b c = drain q ?c"
    using l Cons.prems(4,7) by (simp add: accept_def MAX_IPC_BUFFER_BYTES_def)
  obtain us ws b' where d: "vs = us @ ws" "drain q ?c = ?c\<lparr>ch_buffer := b', ch_queue := ch_queue ?c @ map received us\<rparr>"
    "b' @ concat chunks = concat (map frame_of ws)" "case ws of [] \<Rightarrow> b' = [] | w # _ \<Rightarrow> length b' < length (frame_of w)"
    using drain_frames [of vs ?c "concat chunks" q] Cons.prems by auto
  have "foldl (\<lambda>c b. accept q b c) (c\<lparr>ch_buffer := b', ch_queue := ch_queue c @ map received us\<rparr>) chunks =
      c\<lparr>ch_buffer := [], ch_queue := (ch_queue c @ map received us) @ map received ws\<rparr>"
    using d(4) Cons.IH [of ws "c\<lparr>ch_buffer := b', ch_queue := ch_queue c @ map received us\<rparr>"] Cons.prems d
    by (cases ws) simp_all
  then show ?case using a d by simp
qed

section \<open>Bounds of a channel\<close>

definition channel_inv :: "nat \<Rightarrow> channel \<Rightarrow> bool" where
  "channel_inv q c = (length (ch_buffer c) \<le> MAX_IPC_BUFFER_BYTES \<and> length (ch_queue c) \<le> q \<and>
     (ch_queue c \<noteq> [] \<longrightarrow> ch_waiters c = []) \<and> (ch_failure c \<noteq> None \<longrightarrow> ch_waiters c = []))"

lemma fail_inv: "channel_inv q c \<Longrightarrow> channel_inv q (fail msg c)" "channel_inv q c \<Longrightarrow> channel_inv q (fail_destroy msg c)"
  by (auto simp: channel_inv_def fail_def fail_destroy_def)

lemma deliver_inv: "channel_inv q c \<Longrightarrow> channel_inv q (deliver q v c)"
  using fail_inv(2) [of q c] by (auto simp: deliver_def channel_inv_def split: list.split)

lemma drain_inv: "channel_inv q c \<Longrightarrow> channel_inv q (drain q c)"
proof (induction q c rule: drain.induct)
  case (1 q c)
  have b: "channel_inv q (c\<lparr>ch_buffer := drop n (ch_buffer c)\<rparr>)" for n using 1(2) by (auto simp: channel_inv_def)
  show ?case
    using 1 fail_inv b deliver_inv by (subst drain.simps) (simp add: Let_def split: option.split)
qed

lemma accept_inv: "channel_inv q c \<Longrightarrow> channel_inv q (accept q chunk c)"
  by (auto simp: accept_def fail_inv intro!: drain_inv) (auto simp: channel_inv_def)

lemma channel_step_inv: "channel_step q c c' \<Longrightarrow> channel_inv q c \<Longrightarrow> channel_inv q c'"
proof (induction rule: channel_step.induct)
  case (receive c w)
  then show ?case by (auto simp: receive_def channel_inv_def split: list.split option.split)
next
  case (timeout c w)
  then show ?case by (auto simp: receive_timeout_def channel_inv_def)
qed (simp_all add: accept_inv fail_inv)

lemma channel_reachable_inv: "(channel_step q)\<^sup>*\<^sup>* open_channel c \<Longrightarrow> channel_inv q c"
  by (induction rule: rtranclp_induct) (auto simp: channel_step_inv, simp add: channel_inv_def open_channel_def)

section \<open>What a session lets through\<close>

lemma secureEqual_iff [simp]: "secureEqual a b \<longleftrightarrow> a = b"
  by (auto simp: secureEqual_def list.rel_eq)

text \<open>The handshake in a sequence of frames: a hello with the nonce, and an authentication that proves the secret.\<close>

definition handshake_done :: "'w session_env \<Rightarrow> json option list \<Rightarrow> string \<Rightarrow> bool" where
  "handshake_done E frames nonce = (\<exists>h a. Some h \<in> set frames \<and> Some a \<in> set frames \<and> isHello h \<and> text_at h ''clientNonce'' = nonce \<and>
     isAuth a \<and> text_at a ''challengeId'' = en_challenge E \<and>
     text_at a ''proof'' = handshakeProof (en_platform E) (en_crypto E) (en_secret E) nonce (en_nonce E) (en_challenge E))"

definition session_key :: "'w session_env \<Rightarrow> string \<Rightarrow> string" where
  "session_key E nonce = deriveSessionKey (en_platform E) (en_crypto E) (en_secret E) nonce (en_nonce E) (en_challenge E)"

text \<open>A request that came after the handshake, under its key.\<close>

definition authentic :: "'w session_env \<Rightarrow> json option list \<Rightarrow> json \<Rightarrow> bool" where
  "authentic E frames f = (Some f \<in> set frames \<and> isRequest f \<and> (\<exists>nonce. handshake_done E frames nonce \<and>
     text_at f ''mac'' = requestMac (en_platform E) (en_crypto E) (session_key E nonce) (without_mac f)))"

definition phase_inv :: "'w session_env \<Rightarrow> json option list \<Rightarrow> 'w session \<Rightarrow> bool" where
  "phase_inv E frames s = (case se_phase s of AwaitHello \<Rightarrow> se_dispatched s = []
   | AwaitAuth nonce \<Rightarrow> se_dispatched s = [] \<and> (\<exists>h. Some h \<in> set frames \<and> isHello h \<and> text_at h ''clientNonce'' = nonce)
   | Serving key e \<Rightarrow> e = int (length (se_dispatched s)) + 1 \<and> (\<exists>nonce. handshake_done E frames nonce \<and> key = session_key E nonce)
   | Ended \<Rightarrow> True)"

definition session_inv :: "'w session_env \<Rightarrow> json option list \<Rightarrow> 'w session \<Rightarrow> bool" where
  "session_inv E frames s = (list_all (authentic E frames) (se_dispatched s) \<and>
     map (\<lambda>f. member f ''sequence'') (se_dispatched s) = map JNum [1..int (length (se_dispatched s))] \<and> phase_inv E frames s)"

lemma frames_mono: "authentic E frames f \<Longrightarrow> authentic E (frames @ fs) f" "handshake_done E frames n \<Longrightarrow> handshake_done E (frames @ fs) n"
  by (auto simp: authentic_def handshake_done_def)

lemma list_authentic_mono: "list_all (authentic E frames) fs \<Longrightarrow> list_all (authentic E (frames @ gs)) fs"
  by (auto simp: list_all_iff intro: frames_mono)

lemma ended_inv: "session_inv E frames s \<Longrightarrow> session_inv E (frames @ fs) (s\<lparr>se_phase := Ended\<rparr>)"
  by (simp add: session_inv_def phase_inv_def list_authentic_mono)

lemma send_to_inv: "session_inv E frames s \<Longrightarrow> session_inv E frames (send_to v s)"
  using ended_inv [of E frames s "[]"] by (auto simp: send_to_def session_inv_def phase_inv_def split: sum.split session_phase.split)

lemma next_sequence: "[1..1 + int n] = [1..int n] @ [int n + 1]"
  using upto_rec2 [of 1 "1 + int n"] by simp

lemma serve_inv:
  assumes "session_inv E frames s" and "se_phase s = Serving key e"
  shows "session_inv E (frames @ [Some f]) (serve E key e f s)"
proof (cases "isRequest f \<and> member f ''sequence'' = JNum e \<and> text_at f ''mac'' = requestMac (en_platform E) (en_crypto E) key (without_mac f)")
  case True
  obtain nonce where n: "e = int (length (se_dispatched s)) + 1" "handshake_done E frames nonce" "key = session_key E nonce"
    using assms by (auto simp: session_inv_def phase_inv_def)
  obtain w r where x: "en_execute E (text_at f ''id'') (text_at f ''operation'') (member f ''payload'') (se_world s) = (w, r)" by fastforce
  define s1 where "s1 = s\<lparr>se_world := w, se_dispatched := se_dispatched s @ [f], se_phase := Serving key (e + 1)\<rparr>"
  have "authentic E (frames @ [Some f]) f" using True n(1,3) frames_mono(2) [OF n(2), of "[Some f]"] by (auto simp: authentic_def)
  then have "session_inv E (frames @ [Some f]) s1"
    using assms(1) True n frames_mono(2) [OF n(2)]
    by (auto simp: session_inv_def phase_inv_def s1_def list_authentic_mono next_sequence simp del: upto.simps)
  then have i: "session_inv E (frames @ [Some f]) (send_to (answer E key f r) s1)" by (rule send_to_inv)
  show ?thesis
    using True i ended_inv [OF i, of "[]"] by (simp add: serve_def x s1_def [symmetric] Let_def)
next
  case False
  then have "serve E key e f s = s\<lparr>se_phase := Ended\<rparr>" by (auto simp: serve_def)
  with ended_inv [OF assms(1)] show ?thesis by simp
qed

lemma session_step_inv: "session_inv E frames s \<Longrightarrow> session_inv E (frames @ [x]) (session_step E s x)"
proof -
  assume i: "session_inv E frames s"
  note e = ended_inv [OF i, of "[x]"]
  show ?thesis
  proof (cases x)
    case None
    then show ?thesis using i e by (auto simp: session_step_def session_inv_def phase_inv_def list_authentic_mono split: session_phase.split)
  next
    case (Some f)
    show ?thesis
    proof (cases "se_phase s")
      case AwaitHello
      have "session_inv E (frames @ [x]) (s\<lparr>se_phase := AwaitAuth (text_at f ''clientNonce'')\<rparr>)" if "isHello f"
        using i AwaitHello Some that by (auto simp: session_inv_def phase_inv_def)
      then show ?thesis using AwaitHello Some e by (auto simp: session_step_def intro!: send_to_inv)
    next
      case (AwaitAuth nonce)
      have "session_inv E (frames @ [x]) (s\<lparr>se_phase := Serving (session_key E nonce) 1\<rparr>)"
        if "isAuth f" "text_at f ''challengeId'' = en_challenge E"
          "text_at f ''proof'' = handshakeProof (en_platform E) (en_crypto E) (en_secret E) nonce (en_nonce E) (en_challenge E)"
        using i AwaitAuth Some that by (auto simp: session_inv_def phase_inv_def handshake_done_def)
      then show ?thesis using AwaitAuth Some e by (auto simp: session_step_def session_key_def [symmetric] Let_def intro!: send_to_inv)
    next
      case (Serving key n)
      with serve_inv [OF i Serving] Some show ?thesis by (simp add: session_step_def)
    next
      case Ended
      with i show ?thesis by (auto simp: session_step_def session_inv_def phase_inv_def list_authentic_mono)
    qed
  qed
qed

lemma run_session_inv: "session_inv E frames (run_session E w frames)"
proof (induction frames rule: rev_induct)
  case Nil
  then show ?case by (simp add: run_session_def open_session_def session_inv_def phase_inv_def)
next
  case (snoc x frames)
  from session_step_inv [OF this] show ?case by (simp add: run_session_def)
qed

section \<open>Properties\<close>

text \<open>C22: Whatever frames reach a connection, every request it passes to the authority was received after a handshake that
  proves the secret for the challenge of this connection, carries the authentication code of that session over all
  its other members, and the passed requests are numbered 1, 2, 3 and so on, so none is repeated, dropped or
  reordered.\<close>

theorem dispatched_requests_authentic:
  "list_all (authentic E frames) (se_dispatched (run_session E w frames)) \<and>
   map (\<lambda>f. member f ''sequence'') (se_dispatched (run_session E w frames)) =
     map JNum [1..int (length (se_dispatched (run_session E w frames)))]"
  using run_session_inv [of E frames w] by (simp add: session_inv_def)

text \<open>C23: Values sent over a connection arrive complete and in order, wherever the byte stream is cut into chunks of up to
  the frame limit: after the last chunk the queue holds the received value of each, and the buffer is empty.\<close>

theorem frames_survive_chunking:
  assumes "list_all sendable vs" and "concat chunks = concat (map frame_of vs)" and "length vs \<le> q"
    and "list_all (\<lambda>b. length b \<le> MAX_IPC_FRAME_BYTES + 4) chunks"
  shows "map encodeFrame vs = map (Inr \<circ> frame_of) vs \<and>
    foldl (\<lambda>c b. accept q b c) open_channel chunks = open_channel\<lparr>ch_queue := map received vs\<rparr>"
proof
  show "map encodeFrame vs = map (Inr \<circ> frame_of) vs" using assms(1) by (simp add: encodeFrame_sendable list_all_iff)
  show "foldl (\<lambda>c b. accept q b c) open_channel chunks = open_channel\<lparr>ch_queue := map received vs\<rparr>"
    using accept_stream [OF assms(1), of open_channel chunks q] assms(2-4)
    by (cases vs) (simp_all add: open_channel_def frame_of_def)
qed

definition sample_values :: "json list" where
  "sample_values = [JNum 7, JObj [(''b'', JBool True), (''a'', JStr ''x'')]]"

lemma sample_texts: "list_all (\<lambda>v. length (stable_stringify (\<lambda>_. []) v) \<le> 100 \<and> array_safe v \<and> v \<noteq> JUndef \<and> wf_keys v) sample_values"
  by code_simp

lemma sample_values_sendable: "list_all sendable sample_values"
  using sample_texts by (auto simp: list_all_iff sendable_def MAX_IPC_FRAME_BYTES_def)

lemma sample_values_length: "length (concat (map frame_of sample_values)) \<le> MAX_IPC_FRAME_BYTES + 4"
  using sample_texts by (simp add: sample_values_def frame_of_def MAX_IPC_FRAME_BYTES_def del: stable_stringify.simps)

theorem frames_survive_chunking_witness:
  "foldl (\<lambda>c b. accept 16 b c) open_channel [take 3 (concat (map frame_of sample_values)), drop 3 (concat (map frame_of sample_values))] =
     open_channel\<lparr>ch_queue := sample_values\<rparr>"
proof -
  have r: "map received sample_values = sample_values" by (simp add: received_def sample_values_def live_entries_def)
  have l: "length sample_values \<le> 16" by (simp add: sample_values_def)
  show ?thesis
    using frames_survive_chunking [OF sample_values_sendable, of "[take 3 (concat (map frame_of sample_values)), drop 3 (concat (map frame_of sample_values))]" 16]
      sample_values_length by (auto simp: r l min_le_iff_disj simp del: length_concat)
qed

end
