(* ===== verification/JsonClone.thy ===== *)
theory JsonClone
  imports EventStore Governance
begin

text \<open>
  Canonical copies of untrusted JSON (\<open>canonicalJsonClone\<close> of src/src/storage/network-access-grant-repository.ts and
  \<open>assertCanonicalJson\<close> of src/src/storage/decision-intelligence-repositories.ts). A visit counts the nodes, bounds
  their number and depth and refuses undefined values; the clone visits members in the order of their sorted keys, so it is
  the visit of the sorted value. Prototypes, accessors, symbols and cycles have no counterpart in JSON values.
  The lemmas say that the canonical form written by the store and the clone of it lose nothing.
\<close>

record json_limits =
  jl_nodes :: nat
  jl_depth :: nat
  jl_node_msg :: string
  jl_depth_msg :: string
  jl_value_msg :: string

fun visit_json :: "json_limits \<Rightarrow> nat \<Rightarrow> json \<Rightarrow> nat \<Rightarrow> nat result"
  and visit_items :: "json_limits \<Rightarrow> nat \<Rightarrow> json list \<Rightarrow> nat \<Rightarrow> nat result"
  and visit_members :: "json_limits \<Rightarrow> nat \<Rightarrow> (string \<times> json) list \<Rightarrow> nat \<Rightarrow> nat result" where
  "visit_json L d v n = (if jl_nodes L < n + 1 then throw (jl_node_msg L) else if jl_depth L < d then throw (jl_depth_msg L)
     else case v of JUndef \<Rightarrow> throw (jl_value_msg L) | JArr vs \<Rightarrow> visit_items L (d + 1) vs (n + 1)
       | JObj es \<Rightarrow> visit_members L (d + 1) es (n + 1) | _ \<Rightarrow> Inr (n + 1))"
| "visit_items L d [] n = Inr n"
| "visit_items L d (v # vs) n = bindE (visit_json L d v n) (visit_items L d vs)"
| "visit_members L d [] n = Inr n"
| "visit_members L d (e # es) n = bindE (visit_json L d (snd e) n) (visit_members L d es)"

fun sort_json :: "json \<Rightarrow> json" where
  "sort_json (JArr vs) = JArr (map sort_json vs)"
| "sort_json (JObj es) = JObj (sort_key fst (map (\<lambda>(k, v). (k, sort_json v)) es))"
| "sort_json j = j"

definition clone_limits :: "string \<Rightarrow> json_limits" where
  "clone_limits label = \<lparr>jl_nodes = 10000, jl_depth = 32, jl_node_msg = label @ '' exceeds the JSON node limit'',
     jl_depth_msg = label @ '' exceeds the JSON depth limit'', jl_value_msg = label @ '' must contain only JSON-compatible values''\<rparr>"

definition canonicalJsonClone :: "string \<Rightarrow> json \<Rightarrow> json result" where
  "canonicalJsonClone label j = bindE (visit_json (clone_limits label) 0 (sort_json j) 0) (\<lambda>_. Inr (sort_json j))"

definition hasExactKeys :: "json \<Rightarrow> string list \<Rightarrow> bool" where
  "hasExactKeys j keys = (case j of JObj es \<Rightarrow> sort (map fst es) = sort keys | _ \<Rightarrow> False)"

section \<open>What a visit accepts\<close>

fun nodes :: "json \<Rightarrow> nat" where
  "nodes (JArr vs) = 1 + sum_list (map nodes vs)"
| "nodes (JObj es) = 1 + sum_list (map (\<lambda>(k, v). nodes v) es)"
| "nodes j = 1"

fun nested :: "nat \<Rightarrow> json \<Rightarrow> bool" where
  "nested d (JArr vs) = (case d of 0 \<Rightarrow> vs = [] | Suc n \<Rightarrow> (\<forall>v \<in> set vs. nested n v))"
| "nested d (JObj es) = (case d of 0 \<Rightarrow> es = [] | Suc n \<Rightarrow> (\<forall>(k, v) \<in> set es. nested n v))"
| "nested d j = True"

lemma nested_Suc: "nested d j \<Longrightarrow> nested (Suc d) j"
  by (induction d j rule: nested.induct) (auto split: nat.splits)

lemma nodes_pos [simp]: "0 < nodes j"
  by (cases j) auto

lemma visit_iff:
  "visit_json L d v n = Inr n' \<longleftrightarrow> d \<le> jl_depth L \<and> defined v \<and> nested (jl_depth L - d) v \<and> n' = n + nodes v \<and> n' \<le> jl_nodes L"
  "visit_items L d vs n = Inr n' \<longleftrightarrow> n' = n + sum_list (map nodes vs) \<and>
     (vs = [] \<or> d \<le> jl_depth L \<and> (\<forall>v \<in> set vs. defined v \<and> nested (jl_depth L - d) v) \<and> n' \<le> jl_nodes L)"
  "visit_members L d es n = Inr n' \<longleftrightarrow> n' = n + sum_list (map (\<lambda>(k, v). nodes v) es) \<and>
     (es = [] \<or> d \<le> jl_depth L \<and> (\<forall>(k, v) \<in> set es. defined v \<and> nested (jl_depth L - d) v) \<and> n' \<le> jl_nodes L)"
proof (induction L d v n and L d vs n and L d es n arbitrary: n' and n' and n' rule: visit_json_visit_items_visit_members.induct)
  case (1 L d v n)
  have s: "jl_depth L - d = Suc (jl_depth L - Suc d)" if "Suc d \<le> jl_depth L" using that by simp
  show ?case
  proof (cases v)
    case (JArr vs)
    show ?thesis
    proof (cases "Suc d \<le> jl_depth L")
      case True
      with JArr 1(1) [of vs n'] show ?thesis by (auto simp: s [OF True] Suc_le_eq)
    next
      case False
      with JArr 1(1) [of vs n'] show ?thesis by (auto simp: Suc_le_eq)
    qed
  next
    case (JObj es)
    show ?thesis
    proof (cases "Suc d \<le> jl_depth L")
      case True
      with JObj 1(2) [of es n'] show ?thesis by (auto simp: s [OF True] Suc_le_eq)
    next
      case False
      with JObj 1(2) [of es n'] show ?thesis by (auto simp: Suc_le_eq)
    qed
  qed (auto simp: Suc_le_eq)
next
  case (3 L d v vs n)
  show ?case
  proof (cases "visit_json L d v n")
    case (Inl x)
    with 3(1) [of "n + nodes v"] show ?thesis by (auto simp del: visit_json.simps)
  next
    case (Inr b)
    from Inr 3(1) [of b] 3(2) [of b n'] show ?thesis by (auto simp del: visit_json.simps)
  qed
next
  case (5 L d e es n)
  show ?case
  proof (cases "visit_json L d (snd e) n")
    case (Inl x)
    with 5(1) [of "n + nodes (snd e)"] show ?thesis by (cases e) (auto simp del: visit_json.simps)
  next
    case (Inr b)
    from Inr 5(1) [of b] 5(2) [of b n'] show ?thesis by (cases e) (auto simp del: visit_json.simps)
  qed
qed auto

section \<open>Sorting\<close>

lemma sum_list_sort_key: "sum_list (map (f :: 'a \<Rightarrow> nat) (sort_key k xs)) = sum_list (map f xs)"
  by (metis mset_map mset_sort sum_mset_sum_list)

lemma nodes_sort [simp]: "nodes (sort_json j) = nodes j"
proof (induction j rule: sort_json.induct)
  case (2 es)
  then have "\<forall>e \<in> set es. nodes (sort_json (snd e)) = nodes (snd e)" by force
  then show ?case by (simp add: sum_list_sort_key comp_def split_def cong: map_cong)
qed (simp_all add: comp_def cong: map_cong)

lemma sort_Nil [simp]: "sort_key f xs = [] \<longleftrightarrow> xs = []"
  by (metis length_0_conv length_sort)

lemma nested_sort [simp]: "nested d (sort_json j) = nested d j"
proof (induction j arbitrary: d rule: sort_json.induct)
  case (2 es)
  then show ?case by (cases d) (auto simp: split_def)
next
  case (1 vs)
  then show ?case by (cases d) auto
qed simp_all

lemma sort_undef [simp]: "sort_json j = JUndef \<longleftrightarrow> j = JUndef"
  by (cases j) simp_all

lemma defined_sort [simp]: "defined (sort_json j) = defined j"
  by (induction j rule: sort_json.induct) (auto simp: split_def)

lemma sort_keys: "map fst (sort_key fst (map (\<lambda>(k, v). (k, f v)) es)) = sort (map fst es)"
proof -
  have "sorted (map fst (sort_key fst (map (\<lambda>(k, v). (k, f v)) es)))" by (rule sorted_sort_key)
  moreover have "mset (map fst (sort_key fst (map (\<lambda>(k, v). (k, f v)) es))) = mset (map fst (map (\<lambda>(k, v). (k, f v)) es))"
    by (simp only: mset_map mset_sort)
  moreover have "map fst (map (\<lambda>(k, v). (k, f v)) es) = map fst es" by (simp add: comp_def split_def)
  ultimately show ?thesis by (metis properties_for_sort)
qed

lemma wf_sort [simp]: "wf_keys (sort_json j) = wf_keys j"
  by (induction j rule: sort_json.induct) (auto simp: split_def sort_keys [unfolded split_def])

lemma sort_by_perm:
  assumes "mset es = mset fs" and "distinct (map fst es)"
  shows "sort_key fst es = sort_key fst (fs :: (string \<times> json) list)"
proof (rule sort_key_inj_key_eq)
  show "inj_on fst (set es)" using assms(2) by (simp add: distinct_map)
qed (use assms(1) in simp_all)

lemma sort_sort [simp]: "wf_keys j \<Longrightarrow> sort_json (sort_json j) = sort_json j"
proof (induction j rule: sort_json.induct)
  case (2 es)
  let ?g = "\<lambda>(k, v). (k, sort_json v)"
  have "mset (map ?g (sort_key fst (map ?g es))) = mset (map ?g (map ?g es))" by (simp only: mset_map mset_sort)
  also have "map ?g (map ?g es) = map ?g es" using 2 by auto
  finally have "sort_key fst (map ?g (sort_key fst (map ?g es))) = sort_key fst (map ?g es)"
    using 2(2) by (intro sort_by_perm) (simp_all add: comp_def split_def sort_keys [unfolded split_def])
  then show ?case by simp
qed auto

lemma sort_canon: "defined j \<Longrightarrow> wf_keys j \<Longrightarrow> sort_json (canon ck j) = sort_json j"
proof (induction ck j rule: canon.induct)
  case (7 ck es)
  let ?g = "\<lambda>(k, v). (k, sort_json v)" and ?c = "\<lambda>(k, v). (k, canon ck v)"
  have l: "filter (\<lambda>e. snd e \<noteq> JUndef) es = es" using 7(2) by (auto simp: filter_id_conv)
  have "mset (map ?g (map ?c (live_entries ck es))) = mset (map ?g (map ?c es))" by (simp only: mset_map mset_sort live_entries_def l)
  also have "map ?g (map ?c es) = map ?g es"
  proof -
    have "sort_json (canon ck v) = sort_json v" if "(k, v) \<in> set es" for k v
    proof -
      have "defined v" "wf_keys v" using that 7(2,3) by auto
      then show ?thesis using 7(1) [of "(k, v)" k v] that by (cases v) auto
    qed
    then show ?thesis by auto
  qed
  finally have "sort_key fst (map ?g (map ?c (live_entries ck es))) = sort_key fst (map ?g es)"
    using 7(3) by (intro sort_by_perm) (auto simp: comp_def split_def live_entries_distinct)
  then show ?case by simp
qed auto

lemma defined_canon: "defined j \<Longrightarrow> defined (canon ck j)"
proof (induction ck j rule: canon.induct)
  case (7 ck es)
  then show ?case by fastforce
qed auto

lemma defined_safe: "defined j \<Longrightarrow> array_safe j \<and> j \<noteq> JUndef"
  by (induction j rule: defined.induct) fastforce+

lemma member_sort: "wf_keys j \<Longrightarrow> member (sort_json j) k = sort_json (member j k)"
proof (cases j)
  case (JObj es)
  assume w: "wf_keys j"
  let ?fs = "map (\<lambda>(k, v). (k, sort_json v)) es"
  have "map_of (sort_key fst ?fs) k = map_of ?fs k"
    using w JObj by (intro fun_cong [OF iffD2 [OF map_of_inject_set]])
      (simp_all add: comp_def split_def sort_keys [unfolded split_def])
  then show ?thesis using JObj by (simp add: member_def map_of_map split: option.split)
qed (simp_all add: member_def)

section \<open>What a parse returns\<close>

definition sound_json :: "json \<Rightarrow> bool" where
  "sound_json j = (defined j \<and> wf_keys j)"

lemma sound_obj_of:
  assumes "list_all (\<lambda>e. sound_json (snd e)) es"
  shows "sound_json (obj_of es)"
proof -
  have "distinct (map fst acc) \<Longrightarrow> list_all (\<lambda>e. sound_json (snd e)) acc \<Longrightarrow>
     distinct (map fst (foldl (\<lambda>acc (k, v). upsert k v acc) acc es)) \<and>
     list_all (\<lambda>e. sound_json (snd e)) (foldl (\<lambda>acc (k, v). upsert k v acc) acc es)" for acc
    using assms
  proof (induction es arbitrary: acc)
    case (Cons e es)
    have "list_all (\<lambda>e. sound_json (snd e)) (upsert (fst e) (snd e) acc)"
      using Cons.prems(2,3) by (auto simp: list_all_iff dest: upsert_set)
    with Cons.IH [of "upsert (fst e) (snd e) acc"] Cons.prems show ?case by (simp add: upsert_distinct split_def)
  qed simp
  from this [of "[]"] show ?thesis by (auto simp: obj_of_def sound_json_def list_all_iff)
qed

lemma sound_simps [simp]:
  "sound_json JNull" "sound_json (JBool b)" "sound_json (JNum n)" "sound_json (JStr s)" "sound_json (JArr vs) \<longleftrightarrow> list_all sound_json vs"
  "sound_json (JObj [])"
  by (auto simp: sound_json_def list_all_iff)

lemma number_sound: "parse_number t = Some (j, r) \<Longrightarrow> sound_json j"
  by (auto simp: parse_number_def split: if_splits)

lemma parse_sound:
  "(pv n s = Some (j, r) \<longrightarrow> sound_json j) \<and> (pitems n s = Some (vs, r) \<longrightarrow> list_all sound_json vs) \<and>
   (pmembers n s = Some (es, r) \<longrightarrow> list_all (\<lambda>e. sound_json (snd e)) es)"
proof (induction n arbitrary: s j r vs es)
  case (Suc n)
  have v: "sound_json j" if "pv n s = Some (j, r)" for s j r using Suc that by blast
  have i: "list_all sound_json vs" if "pitems n s = Some (vs, r)" for s vs r using Suc that by blast
  have m: "list_all (\<lambda>e. sound_json (snd e)) es" if "pmembers n s = Some (es, r)" for s es r using Suc that by blast
  have "pv (Suc n) s = Some (j, r) \<Longrightarrow> sound_json j"
    by (auto simp: Let_def sound_obj_of split: if_splits dest: number_sound i m)
  moreover have "pitems (Suc n) s = Some (vs, r) \<Longrightarrow> list_all sound_json vs"
    by (auto simp: Let_def split: if_splits option.splits) (erule v i)+
  moreover have "pmembers (Suc n) s = Some (es, r) \<Longrightarrow> list_all (\<lambda>e. sound_json (snd e)) es"
    by (auto simp: Let_def split: if_splits option.splits) (erule v m)+
  ultimately show ?case by blast
qed simp

lemma json_parse_sound: "json_parse s = Some j \<Longrightarrow> sound_json j"
  using parse_sound by (auto simp: json_parse_def simp del: pv.simps split: option.splits prod.splits if_splits)

lemma row_payload_sound: "row_payload P C k r = Some j \<Longrightarrow> sound_json j"
  by (auto simp: row_payload_def Option.bind_eq_Some_conv intro: json_parse_sound)

lemma verify_rows_sound: "verify_rows P C k e rs = Inr (es, h) \<Longrightarrow> list_all (\<lambda>e. sound_json (se_payload e)) es"
proof (induction rs arbitrary: e es)
  case (Cons r rs)
  then obtain fs p where "verify_rows P C k (er_hash r) rs = Inr (fs, h)" "es = event_of_row r p # fs" "row_payload P C k r = Some p"
    by (auto split: if_splits option.splits prod.splits)
  with Cons.IH [of "er_hash r" fs] show ?case by (simp add: event_of_row_def row_payload_sound)
qed simp

lemma readAll_sound: "readAll P C st = Inr es \<Longrightarrow> list_all (\<lambda>e. sound_json (se_payload e)) es"
  by (auto simp: readAll_iff intro: verify_rows_sound)

section \<open>Clones\<close>

definition clonable :: "json \<Rightarrow> bool" where
  "clonable j = (defined j \<and> nested 32 j \<and> nodes j \<le> 10000)"

lemma clone_iff: "canonicalJsonClone label j = Inr c \<longleftrightarrow> clonable j \<and> c = sort_json j"
  by (auto simp: canonicalJsonClone_def visit_iff clone_limits_def clonable_def simp del: visit_json.simps)

lemma sound_canon: "sound_json j \<Longrightarrow> sort_json (canon ck j) = sort_json j"
  by (simp add: sound_json_def sort_canon)

lemma clonable_sort [simp]: "clonable (sort_json j) = clonable j"
  by (simp add: clonable_def)

lemma clonable_canon: "sound_json j \<Longrightarrow> clonable (canon ck j) = clonable j"
  by (metis clonable_sort sound_canon)

lemma sound_sort [simp]: "sound_json (sort_json j) = sound_json j"
  by (simp add: sound_json_def)

text \<open>Two values with one canonical text have one sorted form.\<close>

lemma stringify_sorted:
  assumes "stable_stringify ck a = stable_stringify ck b" and "sound_json a" and "sound_json b"
  shows "sort_json a = sort_json b"
proof -
  have "array_safe a \<and> a \<noteq> JUndef" "array_safe b \<and> b \<noteq> JUndef" using assms(2,3) defined_safe by (auto simp: sound_json_def)
  then have "canon ck a = canon ck b" using assms(1) stable_stringify_eq_iff by metis
  then show ?thesis using assms(2,3) sound_canon by metis
qed

lemma sound_member: "sound_json j \<Longrightarrow> member j k \<noteq> JUndef \<Longrightarrow> sound_json (member j k)"
  by (cases j) (auto simp: member_def sound_json_def dest!: map_of_SomeD split: option.splits)

lemma exact_keys_sort [simp]: "hasExactKeys (sort_json j) keys = hasExactKeys j keys"
  by (cases j) (simp_all add: hasExactKeys_def sort_keys sorted_sort_id)

lemma exact_keys_canon: "sound_json j \<Longrightarrow> hasExactKeys (canon ck j) keys = hasExactKeys j keys"
  by (metis exact_keys_sort sound_canon)

lemma member_sound: "sound_json j \<Longrightarrow> member (sort_json j) k = sort_json (member j k)"
  by (simp add: sound_json_def member_sort)

section \<open>What the store reads after a step\<close>

text \<open>What an append adds to what is read.\<close>

lemma store_append_reads:
  assumes "aead_ok C" and "hex_digest P" and "readAll P C st = Inr es" and "append_event P C st i uuid n n' = Inr (st', ev)"
    and "sound_json (ae_payload i)"
  obtains e where "readAll P C st' = Inr (es @ [e])" and "e = ev\<lparr>se_payload := canon (coll_key P) (ae_payload i)\<rparr>"
    and "se_payload ev = ae_payload i" and "se_aggregate_type e = ae_aggregate_type i" and "se_type e = ae_type i"
    and "se_version e = ae_version i" and "se_aggregate e = ae_aggregate i" and "se_time e = to_iso (ae_time i)"
    and "\<forall>x. ae_id i = Some x \<longrightarrow> se_id e = x" and "sound_json (se_payload e)" and "sort_json (se_payload e) = sort_json (ae_payload i)"
proof -
  let ?e = "ev\<lparr>se_payload := canon (coll_key P) (ae_payload i)\<rparr>"
  have safe: "array_safe (ae_payload i)" "ae_payload i \<noteq> JUndef" "wf_keys (ae_payload i)"
    using assms(5) defined_safe by (auto simp: sound_json_def)
  have r: "readAll P C st' = Inr (es @ [?e])" by (rule append_readAll [OF assms(1-4) safe])
  note ok = append_event_ok [OF assms(4)]
  have f: "se_payload ev = ae_payload i" "se_aggregate_type ev = ae_aggregate_type i" "se_type ev = ae_type i" "se_version ev = ae_version i"
    "se_aggregate ev = ae_aggregate i" "se_time ev = to_iso (ae_time i)" "\<forall>x. ae_id i = Some x \<longrightarrow> se_id ev = x"
    using ok by (auto simp: event_of_row_def sealed_row_def row_of_input_def Let_def)
  have "sound_json (canon (coll_key P) (ae_payload i))"
    using readAll_sound [OF r] by simp
  then show ?thesis using that [OF r] f sound_canon [OF assms(5)] by simp
qed

lemma keep_reads: "store_step P C st st' \<Longrightarrow> st_events st' = st_events st \<Longrightarrow> readAll P C st' = readAll P C st"
proof (erule store_stepE, goal_cases)
  case (1 i uuid n n' ev)
  then show ?case using append_event_ok [OF 1(2)] by simp
next
  case (2 ty ag v lh payload now n)
  then obtain x where "st' = st\<lparr>st_snapshots := x\<rparr>" using saveSnapshot_ok [OF 2(2)] by blast
  then show ?case by (simp add: readAll_snapshots)
next
  case (3 r)
  then show ?case by (intro readAll_frame) (auto simp: recordLegacyImportReceipt_def split: if_splits)
next
  case (4 a)
  then show ?case by (intro readAll_frame) (auto simp: recordAuthorityReceipt_def split: if_splits)
next
  case (5 c)
  then show ?case by (intro readAll_frame) (auto simp: saveSignedCheckpoint_def split: if_splits)
qed

lemma created_reads:
  assumes "aead_ok C" and "hex_digest P" and "salt \<noteq> []" and "create_store P C ms pass salt n1 n2 uuid = Inr st"
  shows "readAll P C st = Inr []"
proof -
  have "store_inv P C pass st" by (rule create_store_inv [OF assms])
  moreover have "st_events st = []" using assms(4) by (auto simp: create_store_def)
  ultimately show ?thesis by (auto simp: store_inv_def readAll_iff)
qed

end
