(* ===== verification/GrantStore.thy ===== *)
theory GrantStore
  imports JsonClone RateGate
begin

text \<open>
  Stored network access grants and the persistent rate gate (src/src/storage/network-access-grant-repository.ts) over the
  encrypted event store: a grant is recorded once under a derived event identifier, and every request the gate allows
  is an event of its own, so that budgets and windows survive a restart. Operations are serialised by the code's mutation
  coordinator, so each is one step on the store. The gate refines an abstract ledger of consumptions, whose invariant is
  the budget of every grant and the window of every manifest.
\<close>

definition NETWORK_ACCESS_GRANT_AGGREGATE_TYPE :: string where
  "NETWORK_ACCESS_GRANT_AGGREGATE_TYPE = ''network-access-grant''"

definition NETWORK_ACCESS_GRANT_EVENT_TYPE :: string where
  "NETWORK_ACCESS_GRANT_EVENT_TYPE = ''network-access-grant-recorded''"

definition NETWORK_ACCESS_CONSUMPTION_AGGREGATE_TYPE :: string where
  "NETWORK_ACCESS_CONSUMPTION_AGGREGATE_TYPE = ''network-access-consumption''"

definition NETWORK_ACCESS_CONSUMPTION_EVENT_TYPE :: string where
  "NETWORK_ACCESS_CONSUMPTION_EVENT_TYPE = ''network-access-consumed''"

definition EVENT_SCHEMA_VERSION :: int where
  "EVENT_SCHEMA_VERSION = 1"

definition CONSUMPTION_CONTEXT :: string where
  "CONSUMPTION_CONTEXT = ''vocation-os/network-access-consumption/v1''"

definition CONSUMPTION_KEYS :: "string list" where
  "CONSUMPTION_KEYS = [''consumptionId'', ''authorityRequestId'', ''attemptIndex'', ''grantId'', ''grantDigest'', ''manifest'',
     ''manifestHash'', ''consumedAt'']"

definition authority_request_id_pattern :: "string \<Rightarrow> bool" where
  "authority_request_id_pattern s = (starts_with ''REQ-'' s \<and> (let r = drop 4 s in r \<noteq> [] \<and> is_alnum (hd r) \<and>
     7 \<le> length (tl r) \<and> length (tl r) \<le> 119 \<and> list_all (\<lambda>c. is_alnum c \<or> c \<in> set ''._:-'') (tl r)))"

definition consumption_id_pattern :: "string \<Rightarrow> bool" where
  "consumption_id_pattern s = (starts_with ''NAC-'' s \<and> length (drop 4 s) = 64 \<and> list_all is_hex (drop 4 s))"

record stored_grant =
  sg_id :: string
  sg_digest :: string
  sg_envelope :: json
  sg_hash :: string
  sg_recorded :: string
  sg_event :: string
  sg_event_hash :: string

record consumption =
  co_id :: string
  co_request :: string
  co_attempt :: int
  co_grant :: string
  co_digest :: string
  co_manifest :: json
  co_manifest_hash :: string
  co_at :: int

record grant_request = gate_request +
  gq_request :: "string option"
  gq_attempt :: "int option"
  gq_digest :: "string option"
  gq_id :: "string option"

section \<open>Checks\<close>

definition assertGrantTimestamp :: "platform \<Rightarrow> string \<Rightarrow> string \<Rightarrow> unit result" where
  "assertGrantTimestamp P s label = (case parse_date P s of
     None \<Rightarrow> throw (label @ '' must be a canonical ISO date-time'')
   | Some t \<Rightarrow> if to_iso t \<noteq> s then throw (label @ '' must be a canonical ISO date-time'') else Inr ())"

definition assertGrantId :: "string \<Rightarrow> unit result" where
  "assertGrantId s = (if grant_id_pattern s then Inr () else throw ''Network access grant id is invalid'')"

definition assertAuthorityRequestId :: "string \<Rightarrow> unit result" where
  "assertAuthorityRequestId s = (if authority_request_id_pattern s then Inr ()
     else throw ''Network access consumption authority request id is invalid'')"

definition assertAttemptIndex :: "int \<Rightarrow> unit result" where
  "assertAttemptIndex n = (if \<bar>n\<bar> \<le> MAX_SAFE \<and> 0 \<le> n then Inr () else throw ''Network access consumption attempt index is invalid'')"

definition assertConsumedAt :: "int \<Rightarrow> unit result" where
  "assertConsumedAt n = (if \<bar>n\<bar> \<le> MAX_SAFE \<and> 0 \<le> n \<and> n \<le> max_time then Inr () else throw ''Network access consumption time is invalid'')"

definition assertCanonicalSignature :: "string \<Rightarrow> unit result" where
  "assertCanonicalSignature s = (if \<not> b64_pattern s then throw ''Network access grant signature encoding is invalid''
     else if length (b64_decode s) \<noteq> 64 \<or> b64_encode (b64_decode s) \<noteq> s
     then throw ''Network access grant signature encoding is invalid'' else Inr ())"

definition text_of :: "json \<Rightarrow> string \<Rightarrow> string" where
  "text_of j k = the (jstr (member j k))"

definition canonicalEnvelope :: "platform \<Rightarrow> json \<Rightarrow> json result" where
  "canonicalEnvelope P v = bindE (canonicalJsonClone ''Signed network access grant envelope'' v) (\<lambda>c.
     if \<not> hasExactKeys c ENVELOPE_KEYS then throw ''Signed network access grant envelope is malformed''
     else if jstr (member c ''approvedBy'') = None \<or> jstr (member c ''keyId'') = None \<or>
       member c ''signatureAlgorithm'' \<noteq> JStr ED25519 \<or> \<not> str_ok (member c ''grantDigest'') sha256_digest_pattern \<or>
       jstr (member c ''signature'') = None
     then throw ''Signed network access grant envelope fields are invalid''
     else bindE (assertCanonicalSignature (text_of c ''signature'')) (\<lambda>_.
       bindE (computeNetworkAccessGrantDigest P (member c ''grant'') (text_of c ''approvedBy'') (text_of c ''keyId'') ED25519) (\<lambda>digest.
       if text_of c ''grantDigest'' \<noteq> digest then throw ''Signed network access grant digest does not match its canonical envelope''
       else Inr c)))"

definition grantEventId :: "platform \<Rightarrow> string \<Rightarrow> string result" where
  "grantEventId P g = bindE (assertGrantId g) (\<lambda>_. Inr (''EVT-NAG-'' @ drop 7 (hash_json P (JObj [(''grantId'', JStr g)]))))"

definition identity_json :: "string \<Rightarrow> int \<Rightarrow> string \<Rightarrow> json" where
  "identity_json q n d = JObj [(''context'', JStr CONSUMPTION_CONTEXT), (''authorityRequestId'', JStr q), (''attemptIndex'', JNum n),
     (''grantDigest'', JStr d)]"

definition computeNetworkAccessConsumptionId :: "platform \<Rightarrow> string \<Rightarrow> int \<Rightarrow> string \<Rightarrow> string result" where
  "computeNetworkAccessConsumptionId P q n d = bindE (assertAuthorityRequestId q) (\<lambda>_. bindE (assertAttemptIndex n) (\<lambda>_.
     if \<not> sha256_digest_pattern d then throw ''Network access consumption grant digest is invalid''
     else Inr (''NAC-'' @ drop 7 (hash_json P (identity_json q n d)))))"

definition consumptionEventId :: "string \<Rightarrow> string result" where
  "consumptionEventId c = (if consumption_id_pattern c then Inr (''EVT-'' @ c) else throw ''Network access consumption id is invalid'')"

section \<open>Reading events\<close>

definition is_grant_event :: "stored_event \<Rightarrow> bool" where
  "is_grant_event e = (se_aggregate_type e = NETWORK_ACCESS_GRANT_AGGREGATE_TYPE \<or> se_type e = NETWORK_ACCESS_GRANT_EVENT_TYPE)"

definition is_consumption_event :: "stored_event \<Rightarrow> bool" where
  "is_consumption_event e = (se_aggregate_type e = NETWORK_ACCESS_CONSUMPTION_AGGREGATE_TYPE \<or>
     se_type e = NETWORK_ACCESS_CONSUMPTION_EVENT_TYPE)"

definition grantRecordFromEvent :: "platform \<Rightarrow> stored_event \<Rightarrow> stored_grant result" where
  "grantRecordFromEvent P e = (
     if se_aggregate_type e \<noteq> NETWORK_ACCESS_GRANT_AGGREGATE_TYPE \<or> se_type e \<noteq> NETWORK_ACCESS_GRANT_EVENT_TYPE \<or>
       se_version e \<noteq> EVENT_SCHEMA_VERSION then throw ''Stored network access grant event contract is invalid''
     else if \<not> hasExactKeys (se_payload e) [''envelope'', ''envelopeHash'']
     then throw ''Stored network access grant event payload is malformed''
     else bindE (canonicalEnvelope P (member (se_payload e) ''envelope'')) (\<lambda>env.
       if \<not> str_ok (member (se_payload e) ''envelopeHash'') (\<lambda>h. sha256_digest_pattern h \<and> h = hash_json P env)
       then throw ''Stored network access grant envelope hash is invalid''
       else let g = text_of (member env ''grant'') ''grantId'' in
         if se_aggregate e \<noteq> g then throw ''Stored network access grant event is not bound to its grant id''
         else bindE (grantEventId P g) (\<lambda>eid.
           if se_id e \<noteq> eid then throw ''Stored network access grant event is not bound to its grant id''
           else bindE (assertGrantTimestamp P (se_time e) ''Stored network access grant event time'') (\<lambda>_.
             Inr \<lparr>sg_id = g, sg_digest = text_of env ''grantDigest'', sg_envelope = env, sg_hash = text_of (se_payload e) ''envelopeHash'',
               sg_recorded = se_time e, sg_event = se_id e, sg_event_hash = se_hash e\<rparr>))))"

text \<open>A validated manifest, read member by member.\<close>

definition strings_at :: "json \<Rightarrow> string \<Rightarrow> string list" where
  "strings_at j k = map (\<lambda>v. the (jstr v)) (items (member j k))"

definition int_at :: "json \<Rightarrow> string \<Rightarrow> int" where
  "int_at j k = the (jint (member j k))"

definition bool_at :: "json \<Rightarrow> string \<Rightarrow> bool" where
  "bool_at j k = (member j k = JBool True)"

definition manifest_view :: "json \<Rightarrow> egress_manifest" where
  "manifest_view j = \<lparr>eg_id = text_of j ''manifestId'', eg_provider = text_of j ''providerId'', eg_version = text_of j ''version'',
     eg_hosts = strings_at j ''allowedHosts'', eg_ports = map (\<lambda>v. the (jint v)) (items (member j ''allowedPorts'')),
     eg_prefixes = strings_at j ''allowedPathPrefixes'', eg_methods = strings_at j ''allowedMethods'',
     eg_headers = strings_at j ''allowedRequestHeaders'',
     eg_max_redirects = int_at (member j ''redirectPolicy'') ''maxRedirects'', eg_cross_host = bool_at (member j ''redirectPolicy'') ''allowCrossHost'',
     eg_statuses = map (\<lambda>v. \<lparr>sr_min = int_at v ''min'', sr_max = int_at v ''max''\<rparr>) (items (member (member j ''responsePolicy'') ''allowedStatusRanges'')),
     eg_content_types = strings_at (member j ''responsePolicy'') ''allowedContentTypes'',
     eg_require_type = bool_at (member j ''responsePolicy'') ''requireContentType'', eg_max_body = int_at (member j ''responsePolicy'') ''maxBodyBytes'',
     eg_timeout = int_at (member j ''responsePolicy'') ''timeoutMs'',
     eg_rate_max = int_at (member j ''ratePolicy'') ''maxRequests'', eg_rate_window = int_at (member j ''ratePolicy'') ''windowMs'',
     eg_cache_ttl = int_at (member j ''cachePolicy'') ''ttlMs'', eg_cache_methods = strings_at (member j ''cachePolicy'') ''methods'',
     eg_grant_ttl = int_at (member j ''grantPolicy'') ''maxTtlMs'', eg_grant_max = int_at (member j ''grantPolicy'') ''maxRequests'',
     eg_exact_hosts = bool_at (member j ''grantPolicy'') ''requireExactHosts''\<rparr>"

definition manifestIdentity :: "platform \<Rightarrow> json \<Rightarrow> string" where
  "manifestIdentity P m = stable_stringify (coll_key P) (JObj [(''providerId'', member m ''providerId''),
     (''manifestId'', member m ''manifestId''), (''manifestVersion'', member m ''version'')])"

definition assertGrantManifestBinding ::
  "platform \<Rightarrow> url_platform \<Rightarrow> json \<Rightarrow> json \<Rightarrow> int \<Rightarrow> string \<Rightarrow> unit result" where
  "assertGrantManifestBinding P U g m t label = (case validateNetworkAccessGrant U (host_date P) g (manifest_view m) (Some t) of
     [] \<Rightarrow> Inr () | es \<Rightarrow> throw (label @ '' is invalid: '' @ joins ''; '' es))"

definition consumption_json :: "consumption \<Rightarrow> json" where
  "consumption_json c = JObj [(''consumptionId'', JStr (co_id c)), (''authorityRequestId'', JStr (co_request c)),
     (''attemptIndex'', JNum (co_attempt c)), (''grantId'', JStr (co_grant c)), (''grantDigest'', JStr (co_digest c)),
     (''manifest'', co_manifest c), (''manifestHash'', JStr (co_manifest_hash c)), (''consumedAt'', JNum (co_at c))]"

text \<open>The checks of the fields of a stored consumption, in the code's order.\<close>

definition consumption_fields :: "platform \<Rightarrow> url_platform \<Rightarrow> json \<Rightarrow> consumption result" where
  "consumption_fields P U j = (
     if jstr (member j ''consumptionId'') = None \<or> jstr (member j ''authorityRequestId'') = None \<or> jint (member j ''attemptIndex'') = None \<or>
       jstr (member j ''grantId'') = None \<or> jstr (member j ''grantDigest'') = None \<or> jstr (member j ''manifestHash'') = None \<or>
       jint (member j ''consumedAt'') = None
     then throw ''Stored network access consumption fields are invalid''
     else bindE (assertAuthorityRequestId (text_of j ''authorityRequestId'')) (\<lambda>_.
       bindE (assertAttemptIndex (int_at j ''attemptIndex'')) (\<lambda>_.
       bindE (assertGrantId (text_of j ''grantId'')) (\<lambda>_.
       if \<not> sha256_digest_pattern (text_of j ''grantDigest'') then throw ''Stored network access consumption grant digest is invalid''
       else bindE (assertConsumedAt (int_at j ''consumedAt'')) (\<lambda>_.
       bindE (canonicalJsonClone ''Stored network access consumption manifest'' (member j ''manifest'')) (\<lambda>m.
       bindE (assertValidEgressManifest U m) (\<lambda>_.
       if \<not> sha256_digest_pattern (text_of j ''manifestHash'') \<or> text_of j ''manifestHash'' \<noteq> hash_json P m
       then throw ''Stored network access consumption manifest hash is invalid''
       else Inr \<lparr>co_id = text_of j ''consumptionId'', co_request = text_of j ''authorityRequestId'', co_attempt = int_at j ''attemptIndex'',
         co_grant = text_of j ''grantId'', co_digest = text_of j ''grantDigest'', co_manifest = m,
         co_manifest_hash = text_of j ''manifestHash'', co_at = int_at j ''consumedAt''\<rparr>)))))))"

definition consumptionFromEvent :: "platform \<Rightarrow> url_platform \<Rightarrow> stored_event \<Rightarrow> consumption result" where
  "consumptionFromEvent P U e = (
     if se_aggregate_type e \<noteq> NETWORK_ACCESS_CONSUMPTION_AGGREGATE_TYPE \<or> se_type e \<noteq> NETWORK_ACCESS_CONSUMPTION_EVENT_TYPE \<or>
       se_version e \<noteq> EVENT_SCHEMA_VERSION then throw ''Stored network access consumption event contract is invalid''
     else if \<not> hasExactKeys (se_payload e) [''consumption'']
     then throw ''Stored network access consumption event payload is malformed''
     else bindE (canonicalJsonClone ''Stored network access consumption'' (member (se_payload e) ''consumption'')) (\<lambda>j.
       if \<not> hasExactKeys j CONSUMPTION_KEYS then throw ''Stored network access consumption is malformed''
       else bindE (consumption_fields P U j) (\<lambda>c.
         bindE (computeNetworkAccessConsumptionId P (co_request c) (co_attempt c) (co_digest c)) (\<lambda>expected.
         if co_id c \<noteq> expected \<or> se_aggregate e \<noteq> co_id c
         then throw ''Stored network access consumption event identity is invalid''
         else bindE (consumptionEventId (co_id c)) (\<lambda>eid.
           if se_id e \<noteq> eid then throw ''Stored network access consumption event identity is invalid''
           else if se_time e \<noteq> to_iso (co_at c) then throw ''Stored network access consumption event time is invalid''
           else Inr c)))))"

definition consumptionReplayBinding :: "consumption \<Rightarrow> json" where
  "consumptionReplayBinding c = JObj [(''consumptionId'', JStr (co_id c)), (''authorityRequestId'', JStr (co_request c)),
     (''attemptIndex'', JNum (co_attempt c)), (''grantId'', JStr (co_grant c)), (''grantDigest'', JStr (co_digest c)),
     (''manifest'', co_manifest c), (''manifestHash'', JStr (co_manifest_hash c))]"

section \<open>The repository of grants\<close>

fun grant_records :: "platform \<Rightarrow> string list \<Rightarrow> stored_event list \<Rightarrow> stored_grant list result" where
  "grant_records P seen [] = Inr []"
| "grant_records P seen (e # es) = bindE (grantRecordFromEvent P e) (\<lambda>r.
     if sg_id r \<in> set seen then throw (''Immutable network access grant '' @ sg_id r @ '' has multiple stored events'')
     else bindE (grant_records P (sg_id r # seen) es) (\<lambda>rs. Inr (r # rs)))"

definition records :: "platform \<Rightarrow> crypto \<Rightarrow> store \<Rightarrow> stored_grant list result" where
  "records P C st = bindE (readAll P C st) (\<lambda>es. grant_records P [] (filter is_grant_event es))"

definition get_grant :: "platform \<Rightarrow> crypto \<Rightarrow> string \<Rightarrow> store \<Rightarrow> stored_grant option result" where
  "get_grant P C g st = bindE (assertGrantId g) (\<lambda>_. bindE (records P C st) (\<lambda>rs. Inr (find (\<lambda>r. sg_id r = g) rs)))"

definition getEnvelope :: "platform \<Rightarrow> crypto \<Rightarrow> string \<Rightarrow> store \<Rightarrow> json option result" where
  "getEnvelope P C g st = bindE (get_grant P C g st) (\<lambda>r. Inr (map_option sg_envelope r))"

definition list_grants :: "platform \<Rightarrow> crypto \<Rightarrow> store \<Rightarrow> stored_grant list result" where
  "list_grants P C st = bindE (records P C st) (\<lambda>rs. Inr (sort_key (\<lambda>r. coll_key P (sg_id r)) rs))"

definition grant_event_input :: "platform \<Rightarrow> json \<Rightarrow> string \<Rightarrow> int \<Rightarrow> append_input" where
  "grant_event_input P env eid t = \<lparr>ae_id = Some eid, ae_aggregate_type = NETWORK_ACCESS_GRANT_AGGREGATE_TYPE,
     ae_aggregate = text_of (member env ''grant'') ''grantId'', ae_type = NETWORK_ACCESS_GRANT_EVENT_TYPE, ae_version = EVENT_SCHEMA_VERSION,
     ae_payload = JObj [(''envelope'', env), (''envelopeHash'', JStr (hash_json P env))], ae_time = t\<rparr>"

definition save_grant ::
  "platform \<Rightarrow> crypto \<Rightarrow> json \<Rightarrow> int \<Rightarrow> string \<Rightarrow> string \<Rightarrow> string \<Rightarrow> store \<Rightarrow> (store \<times> stored_grant) result" where
  "save_grant P C v now uuid n n' st = bindE (canonicalEnvelope P v) (\<lambda>env.
     if max_time < \<bar>now\<bar> then throw ''Network access grant record time is invalid'' else
     bindE (records P C st) (\<lambda>rs.
     case find (\<lambda>r. sg_id r = text_of (member env ''grant'') ''grantId'') rs of
       Some r \<Rightarrow> if stable_stringify (coll_key P) (sg_envelope r) \<noteq> stable_stringify (coll_key P) env
         then throw ''Network access grant id was reused with a different digest or envelope'' else Inr (st, r)
     | None \<Rightarrow> bindE (grantEventId P (text_of (member env ''grant'') ''grantId'')) (\<lambda>eid.
         bindE (readEvent P C st eid) (\<lambda>e.
         if e \<noteq> None then throw ''Network access grant deterministic event id is already bound to another event''
         else bindE (append_event P C st (grant_event_input P env eid now) uuid n n') (\<lambda>(st', ev).
           bindE (grantRecordFromEvent P ev) (\<lambda>r. Inr (st', r)))))))"

section \<open>The persistent gate\<close>

text \<open>The loop over the consumption events, with the identifiers seen and the manifest hash of each identity.\<close>

fun consumption_records ::
  "platform \<Rightarrow> url_platform \<Rightarrow> stored_grant list \<Rightarrow> string list \<Rightarrow> (string \<rightharpoonup> string) \<Rightarrow> stored_event list \<Rightarrow> consumption list result" where
  "consumption_records P U gs seen hashes [] = Inr []"
| "consumption_records P U gs seen hashes (e # es) = bindE (consumptionFromEvent P U e) (\<lambda>c.
     if co_id c \<in> set seen then throw (''Network access consumption '' @ co_id c @ '' has multiple stored events'')
     else case find (\<lambda>g. sg_id g = co_grant c) gs of
       None \<Rightarrow> throw ''Stored network access consumption is not bound to an immutable grant envelope''
     | Some g \<Rightarrow> if sg_digest g \<noteq> co_digest c then throw ''Stored network access consumption is not bound to an immutable grant envelope''
       else bindE (assertGrantManifestBinding P U (member (sg_envelope g) ''grant'') (co_manifest c) (co_at c)
           ''Stored network access consumption grant binding'') (\<lambda>_.
         let key = manifestIdentity P (co_manifest c) in
         if (case hashes key of None \<Rightarrow> False | Some h \<Rightarrow> h \<noteq> [] \<and> h \<noteq> co_manifest_hash c)
         then throw ''Stored network access consumptions rebind a provider manifest version''
         else bindE (consumption_records P U gs (co_id c # seen) (hashes(key \<mapsto> co_manifest_hash c)) es) (\<lambda>cs. Inr (c # cs))))"

definition consumptions :: "platform \<Rightarrow> url_platform \<Rightarrow> crypto \<Rightarrow> stored_grant list \<Rightarrow> store \<Rightarrow> consumption list result" where
  "consumptions P U C gs st = bindE (readAll P C st) (\<lambda>es. consumption_records P U gs [] Map.empty (filter is_consumption_event es))"

text \<open>The checks of a request up to the record it would store.\<close>

definition authorize ::
  "platform \<Rightarrow> url_platform \<Rightarrow> crypto \<Rightarrow> grant_request \<Rightarrow> store \<Rightarrow> (stored_grant list \<times> stored_grant \<times> consumption) result" where
  "authorize P U C r st = (case gq_request r of None \<Rightarrow> throw ''Persistent network access consumption requires an outer authority request id''
     | Some q \<Rightarrow> (case gq_attempt r of None \<Rightarrow> throw ''Persistent network access consumption requires an attempt index'' | Some n \<Rightarrow>
     bindE (assertAuthorityRequestId q) (\<lambda>_. bindE (assertAttemptIndex n) (\<lambda>_. bindE (assertConsumedAt (gr_at r)) (\<lambda>_.
     bindE (canonicalJsonClone ''Network access consumption manifest'' (manifest_json (gr_manifest r))) (\<lambda>m.
     bindE (assertValidEgressManifest U m) (\<lambda>_.
     bindE (canonicalJsonClone ''Network access consumption grant'' (grant_json (gr_grant r))) (\<lambda>g.
     bindE (assertGrantId (text_of g ''grantId'')) (\<lambda>_.
     bindE (list_grants P C st) (\<lambda>gs.
     case find (\<lambda>s. sg_id s = text_of g ''grantId'') gs of
       None \<Rightarrow> throw ''Network access consumption requires a stored signed grant envelope''
     | Some s \<Rightarrow>
       if (case gq_digest r of None \<Rightarrow> False | Some d \<Rightarrow> d \<noteq> sg_digest s)
       then throw ''Network access consumption grant digest does not match the stored envelope''
       else if stable_stringify (coll_key P) g \<noteq> stable_stringify (coll_key P) (member (sg_envelope s) ''grant'')
       then throw ''Network access consumption grant does not match the stored envelope''
       else bindE (assertGrantManifestBinding P U g m (gr_at r) ''Network access consumption grant binding'') (\<lambda>_.
         bindE (computeNetworkAccessConsumptionId P q n (sg_digest s)) (\<lambda>cid.
         if (case gq_id r of None \<Rightarrow> False | Some i \<Rightarrow> i \<noteq> cid)
         then throw ''Network access consumption id is not bound to its authority request, attempt, and grant digest''
         else Inr (gs, s, \<lparr>co_id = cid, co_request = q, co_attempt = n, co_grant = text_of g ''grantId'', co_digest = sg_digest s,
           co_manifest = m, co_manifest_hash = hash_json P m, co_at = gr_at r\<rparr>)))))))))))))"

definition allow :: gate_decision where
  "allow = \<lparr>gd_allowed = True, gd_reason = None, gd_retry = Some 0\<rparr>"

definition refuse :: "string \<Rightarrow> int \<Rightarrow> gate_decision" where
  "refuse reason retry = \<lparr>gd_allowed = False, gd_reason = Some reason, gd_retry = Some retry\<rparr>"

definition same_manifest :: "platform \<Rightarrow> json \<Rightarrow> consumption list \<Rightarrow> consumption list" where
  "same_manifest P m cs = filter (\<lambda>c. manifestIdentity P (co_manifest c) = manifestIdentity P m) cs"

definition active_times :: "platform \<Rightarrow> consumption \<Rightarrow> consumption list \<Rightarrow> int list" where
  "active_times P c cs = sort (filter (\<lambda>t. co_at c - eg_rate_window (manifest_view (co_manifest c)) < t)
     (map co_at (same_manifest P (co_manifest c) cs)))"

definition consumption_input :: "consumption \<Rightarrow> string \<Rightarrow> append_input" where
  "consumption_input c eid = \<lparr>ae_id = Some eid, ae_aggregate_type = NETWORK_ACCESS_CONSUMPTION_AGGREGATE_TYPE, ae_aggregate = co_id c,
     ae_type = NETWORK_ACCESS_CONSUMPTION_EVENT_TYPE, ae_version = EVENT_SCHEMA_VERSION,
     ae_payload = JObj [(''consumption'', consumption_json c)], ae_time = co_at c\<rparr>"

text \<open>Recording an allowed consumption, with the check of what was recorded.\<close>

definition persist_consumption ::
  "platform \<Rightarrow> url_platform \<Rightarrow> crypto \<Rightarrow> consumption \<Rightarrow> string \<Rightarrow> string \<Rightarrow> string \<Rightarrow> string \<Rightarrow> store \<Rightarrow> (store \<times> gate_decision) result" where
  "persist_consumption P U C c eid uuid n n' st = bindE (append_event P C st (consumption_input c eid) uuid n n') (\<lambda>(st', ev).
     bindE (consumptionFromEvent P U ev) (\<lambda>persisted.
     if stable_stringify (coll_key P) (consumption_json persisted) \<noteq> stable_stringify (coll_key P) (consumption_json c)
     then throw ''Persisted network access consumption does not match the authorized binding''
     else Inr (st', allow)))"

definition consumeSerialized ::
  "platform \<Rightarrow> url_platform \<Rightarrow> crypto \<Rightarrow> grant_request \<Rightarrow> string \<Rightarrow> string \<Rightarrow> string \<Rightarrow> store \<Rightarrow> (store \<times> gate_decision) result" where
  "consumeSerialized P U C r uuid n n' st = bindE (authorize P U C r st) (\<lambda>(gs, s, c).
     bindE (consumptions P U C gs st) (\<lambda>cs.
     case find (\<lambda>d. co_id d = co_id c) cs of
       Some d \<Rightarrow> if stable_stringify (coll_key P) (consumptionReplayBinding d) \<noteq> stable_stringify (coll_key P) (consumptionReplayBinding c)
         then throw ''Network access consumption id was reused with a different binding'' else Inr (st, allow)
     | None \<Rightarrow> bindE (consumptionEventId (co_id c)) (\<lambda>eid. bindE (readEvent P C st eid) (\<lambda>e.
       if e \<noteq> None then throw ''Network access consumption deterministic event id is already bound to another event''
       else if (case same_manifest P (co_manifest c) cs of [] \<Rightarrow> False | b # _ \<Rightarrow> co_manifest_hash b \<noteq> co_manifest_hash c)
       then throw ''Network access consumption cannot rebind a provider manifest version''
       else if co_at c < foldl (\<lambda>latest d. max latest (co_at d)) (-1) (same_manifest P (co_manifest c) cs)
       then throw ''Network access consumption time moved backwards for the provider manifest''
       else if int_at (member (sg_envelope s) ''grant'') ''requestBudget'' \<le> int (length (filter (\<lambda>d. co_digest d = sg_digest s) cs))
       then Inr (st, refuse ''grant-budget'' 0)
       else if eg_rate_max (manifest_view (co_manifest c)) \<le> int (length (active_times P c cs))
       then Inr (st, refuse ''provider-rate-limit'' (max 1 (hd (active_times P c cs) + eg_rate_window (manifest_view (co_manifest c)) - co_at c)))
       else persist_consumption P U C c eid uuid n n' st))))"

end
