(* ===== verification/GrantEvents.thy ===== *)
theory GrantEvents
  imports GrantStore
begin

text \<open>
  What reads of the grant and consumption events return: an accepted envelope, record or consumption is well formed, and
  an event with the payload that is written, or the canonical form the store keeps of it, reads back as the same record.
  The checks of a manifest do not depend on the order of its members.
\<close>

section \<open>Envelopes\<close>

lemma text_of_sort: "sound_json j \<Longrightarrow> jstr (member j k) \<noteq> None \<Longrightarrow> text_of (sort_json j) k = text_of j k"
  by (cases "member j k") (simp_all add: text_of_def member_sound)

lemma if_None_Some: "(if b then None else x) = Some y \<longleftrightarrow> \<not> b \<and> x = Some y"
  by simp

lemma parseGrant_view: "parseGrant host j = Some g \<Longrightarrow> text_of j ''grantId'' = ng_id g \<and> int_at j ''requestBudget'' = ng_budget g"
  unfolding parseGrant_def Let_def if_None_Some by (auto simp: text_of_def int_at_def)

text \<open>What an accepted envelope is: the sorted value itself, with the grant that parses.\<close>

definition envelope_of :: "platform \<Rightarrow> json \<Rightarrow> access_grant \<Rightarrow> bool" where
  "envelope_of P env g = (hasExactKeys env ENVELOPE_KEYS \<and> str_ok (member env ''grantDigest'') sha256_digest_pattern \<and>
     parseGrant (host_date P) (member env ''grant'') = Some g)"

lemma computeDigest_parses: "computeNetworkAccessGrantDigest P j who key alg = Inr d \<Longrightarrow> \<exists>g. parseGrant (host_date P) j = Some g"
  by (auto simp: computeNetworkAccessGrantDigest_def canonicalNetworkAccessGrantPayload_def split: option.splits)

lemma if_Inl_Inr: "(if b then Inl e else x) = Inr y \<longleftrightarrow> \<not> b \<and> x = Inr y"
  by simp

lemma canonicalEnvelope_iff:
  "canonicalEnvelope P v = Inr env \<longleftrightarrow> clonable v \<and> env = sort_json v \<and> canonicalEnvelope P (sort_json v) = Inr env" if "sound_json v"
  using that unfolding canonicalEnvelope_def bindE_Inr_iff clone_iff by (auto simp: sound_json_def)

lemma canonicalEnvelope_ok:
  assumes "canonicalEnvelope P v = Inr env"
  shows "env = sort_json v \<and> clonable v \<and> (\<exists>g. envelope_of P env g)"
proof -
  from assms have "clonable v" "env = sort_json v" "hasExactKeys env ENVELOPE_KEYS" "str_ok (member env ''grantDigest'') sha256_digest_pattern"
    "\<exists>g. parseGrant (host_date P) (member env ''grant'') = Some g"
    unfolding canonicalEnvelope_def bindE_Inr_iff clone_iff if_Inl_Inr using computeDigest_parses by blast+
  then show ?thesis by (auto simp: envelope_of_def)
qed

lemma canonicalEnvelope_sort:
  assumes "sound_json v" and "sort_json w = sort_json v"
  shows "canonicalEnvelope P w = Inr env \<longleftrightarrow> canonicalEnvelope P v = Inr env"
proof -
  have "clonable w = clonable v" using assms(2) clonable_sort by metis
  then show ?thesis using assms(2) by (simp add: canonicalEnvelope_def clone_iff)
qed

lemma envelope_grant: "envelope_of P env g \<Longrightarrow> text_of (member env ''grant'') ''grantId'' = ng_id g \<and>
    int_at (member env ''grant'') ''requestBudget'' = ng_budget g \<and> grant_fields (host_date P) g"
  using parseGrant_view parseGrant_sound by (auto simp: envelope_of_def)

section \<open>Grant events\<close>

lemma grantRecordFromEvent_ok:
  assumes "grantRecordFromEvent P e = Inr r" and "sound_json (se_payload e)"
  shows "is_grant_event e \<and> sound_json (sg_envelope r) \<and> (\<exists>g. envelope_of P (sg_envelope r) g \<and> sg_id r = ng_id g) \<and>
    sg_digest r = text_of (sg_envelope r) ''grantDigest'' \<and> sort_json (sg_envelope r) = sg_envelope r \<and>
    canonicalEnvelope P (sg_envelope r) = Inr (sg_envelope r) \<and> sha256_digest_pattern (sg_digest r)"
proof -
  let ?v = "member (se_payload e) ''envelope''"
  from assms(1) obtain env where env: "canonicalEnvelope P ?v = Inr env"
    and r: "sg_envelope r = env" "sg_id r = text_of (member env ''grant'') ''grantId''" "sg_digest r = text_of env ''grantDigest''"
    and e: "se_aggregate_type e = NETWORK_ACCESS_GRANT_AGGREGATE_TYPE"
    by (auto simp: grantRecordFromEvent_def Let_def split: if_splits)
  note ok = canonicalEnvelope_ok [OF env]
  have s: "sound_json ?v" using assms(2) ok by (intro sound_member) (auto simp: clonable_def)
  obtain g where g: "envelope_of P env g" using ok by blast
  have "sg_id r = ng_id g" using envelope_grant [OF g] r by simp
  moreover have "sort_json env = env" using ok s by (auto simp: sound_json_def)
  moreover have "sound_json env" using ok s by simp
  moreover have "canonicalEnvelope P env = Inr env"
    using canonicalEnvelope_sort [OF s, of env] env ok \<open>sort_json env = env\<close> by simp
  moreover have "sha256_digest_pattern (sg_digest r)"
    using g r by (auto simp: envelope_of_def str_ok_iff text_of_def)
  ultimately show ?thesis using r e g by (auto simp: is_grant_event_def)
qed

lemma exact_keys_of: "sort_json p = sort_json q \<Longrightarrow> hasExactKeys p keys = hasExactKeys q keys"
  by (metis exact_keys_sort)

lemma member_of_sort: "sound_json p \<Longrightarrow> sort_json p = sort_json q \<Longrightarrow> sound_json q \<Longrightarrow> sort_json (member p k) = sort_json (member q k)"
  by (metis member_sound)

lemma sort_json_str: "sort_json j = JStr s \<longleftrightarrow> j = JStr s"
  by (cases j) simp_all

lemma sort_json_num: "sort_json j = JNum s \<longleftrightarrow> j = JNum s"
  by (cases j) simp_all

definition grant_payload :: "platform \<Rightarrow> json \<Rightarrow> json" where
  "grant_payload P env = JObj [(''envelope'', env), (''envelopeHash'', JStr (hash_json P env))]"

lemma sound_two: "sound_json (JObj [(k, v), (l, w)]) \<longleftrightarrow> k \<noteq> l \<and> sound_json v \<and> sound_json w"
  by (auto simp: sound_json_def)

lemma sound_one: "sound_json (JObj [(k, v)]) \<longleftrightarrow> sound_json v"
  by (auto simp: sound_json_def)

text \<open>An event with the payload that is saved, or its canonical form, reads back as the record.\<close>

lemma grant_event_read:
  assumes "canonicalEnvelope P env = Inr env" and "sound_json env" and "envelope_of P env g" and "hex_digest P"
    and "grantEventId P (ng_id g) = Inr eid" and "\<bar>t\<bar> \<le> max_time"
    and e: "se_aggregate_type e = NETWORK_ACCESS_GRANT_AGGREGATE_TYPE" "se_type e = NETWORK_ACCESS_GRANT_EVENT_TYPE"
      "se_version e = EVENT_SCHEMA_VERSION" "se_aggregate e = ng_id g" "se_id e = eid" "se_time e = to_iso t"
    and p: "sound_json (se_payload e)" "sort_json (se_payload e) = sort_json (grant_payload P env)"
  shows "grantRecordFromEvent P e = Inr \<lparr>sg_id = ng_id g, sg_digest = text_of env ''grantDigest'', sg_envelope = env,
    sg_hash = hash_json P env, sg_recorded = to_iso t, sg_event = eid, sg_event_hash = se_hash e\<rparr>"
proof -
  have q: "sound_json (grant_payload P env)" using assms(2) by (simp add: grant_payload_def sound_two)
  have k: "hasExactKeys (se_payload e) [''envelope'', ''envelopeHash'']"
    unfolding exact_keys_of [OF p(2)] by (simp add: grant_payload_def hasExactKeys_def)
  have "sort_json (member (se_payload e) ''envelope'') = sort_json (member (grant_payload P env) ''envelope'')"
    by (rule member_of_sort [OF p q])
  then have "sort_json (member (se_payload e) ''envelope'') = sort_json env" by (simp add: grant_payload_def member_def)
  from canonicalEnvelope_sort [OF assms(2) this] assms(1) have v: "canonicalEnvelope P (member (se_payload e) ''envelope'') = Inr env" by blast
  have "sort_json (member (se_payload e) ''envelopeHash'') = sort_json (member (grant_payload P env) ''envelopeHash'')"
    by (rule member_of_sort [OF p q])
  then have h: "member (se_payload e) ''envelopeHash'' = JStr (hash_json P env)"
    by (simp add: grant_payload_def member_def sort_json_str)
  have dig: "sha256_digest_pattern (hash_json P env)" using sha256_text_ok [OF assms(4)] by (simp add: sha256_text_def sha256_digest_pattern_def)
  from dig have h': "str_ok (member (se_payload e) ''envelopeHash'') (\<lambda>h. sha256_digest_pattern h \<and> h = hash_json P env)"
    "text_of (se_payload e) ''envelopeHash'' = hash_json P env"
    by (simp_all add: h str_ok_def text_of_def)
  have d: "assertGrantTimestamp P (to_iso t) label = Inr ()" for label
    using assms(6) by (simp add: assertGrantTimestamp_def date_parse_to_iso)
  have g: "text_of (member env ''grant'') ''grantId'' = ng_id g" using envelope_grant [OF assms(3)] by simp
  show ?thesis unfolding grantRecordFromEvent_def Let_def v bindE.simps g e assms(5) d by (simp only: k h' simp_thms if_True if_False)
qed

section \<open>Consumption events\<close>

definition good_consumption :: "platform \<Rightarrow> url_platform \<Rightarrow> consumption \<Rightarrow> bool" where
  "good_consumption P U c = (authority_request_id_pattern (co_request c) \<and> 0 \<le> co_attempt c \<and> co_attempt c \<le> MAX_SAFE \<and>
     grant_id_pattern (co_grant c) \<and> sha256_digest_pattern (co_digest c) \<and> 0 \<le> co_at c \<and> co_at c \<le> max_time \<and>
     sound_json (co_manifest c) \<and> sort_json (co_manifest c) = co_manifest c \<and> clonable (co_manifest c) \<and>
     validateEgressManifest U (co_manifest c) = [] \<and> co_manifest_hash c = hash_json P (co_manifest c) \<and>
     sha256_digest_pattern (co_manifest_hash c) \<and>
     computeNetworkAccessConsumptionId P (co_request c) (co_attempt c) (co_digest c) = Inr (co_id c) \<and> consumption_id_pattern (co_id c))"

lemma assert_iffs [simp]:
  "assertAuthorityRequestId s = Inr u \<longleftrightarrow> authority_request_id_pattern s"
  "assertAttemptIndex n = Inr u \<longleftrightarrow> 0 \<le> n \<and> n \<le> MAX_SAFE"
  "assertGrantId s = Inr u \<longleftrightarrow> grant_id_pattern s"
  "assertConsumedAt n = Inr u \<longleftrightarrow> 0 \<le> n \<and> n \<le> max_time"
  "consumptionEventId s = Inr i \<longleftrightarrow> consumption_id_pattern s \<and> i = ''EVT-'' @ s"
  "assertValidEgressManifest U m = Inr u \<longleftrightarrow> validateEgressManifest U m = []"
  by (auto simp: assertAuthorityRequestId_def assertAttemptIndex_def assertGrantId_def assertConsumedAt_def consumptionEventId_def
    assertValidEgressManifest_def Let_def max_time_def MAX_SAFE_def split: if_splits)

lemma clone_sound: "canonicalJsonClone label (member p k) = Inr j \<Longrightarrow> sound_json p \<Longrightarrow> sound_json j"
  using sound_member [of p k] by (cases "member p k = JUndef") (simp_all add: clone_iff clonable_def)

lemma consumption_fields_ok:
  assumes "consumption_fields P U j = Inr c" and "sound_json j"
  shows "authority_request_id_pattern (co_request c) \<and> 0 \<le> co_attempt c \<and> co_attempt c \<le> MAX_SAFE \<and>
     grant_id_pattern (co_grant c) \<and> sha256_digest_pattern (co_digest c) \<and> 0 \<le> co_at c \<and> co_at c \<le> max_time \<and>
     sound_json (co_manifest c) \<and> sort_json (co_manifest c) = co_manifest c \<and> clonable (co_manifest c) \<and>
     validateEgressManifest U (co_manifest c) = [] \<and> co_manifest_hash c = hash_json P (co_manifest c) \<and>
     sha256_digest_pattern (co_manifest_hash c)"
proof -
  from assms(1) obtain m where m: "canonicalJsonClone ''Stored network access consumption manifest'' (member j ''manifest'') = Inr m"
    and c: "co_manifest c = m" "authority_request_id_pattern (co_request c)" "0 \<le> co_attempt c" "co_attempt c \<le> MAX_SAFE"
      "grant_id_pattern (co_grant c)" "sha256_digest_pattern (co_digest c)" "0 \<le> co_at c" "co_at c \<le> max_time"
      "validateEgressManifest U m = []" "co_manifest_hash c = hash_json P m" "sha256_digest_pattern (co_manifest_hash c)"
    unfolding consumption_fields_def if_Inl_Inr bindE_Inr_iff by auto
  from m have "clonable (member j ''manifest'')" "m = sort_json (member j ''manifest'')" by (simp_all add: clone_iff)
  then show ?thesis using c clone_sound [OF m assms(2)] by (auto simp: sound_json_def)
qed

lemma consumptionFromEvent_ok:
  assumes "consumptionFromEvent P U e = Inr c" and "sound_json (se_payload e)"
  shows "good_consumption P U c \<and> is_consumption_event e"
proof -
  let ?v = "member (se_payload e) ''consumption''"
  from assms(1) obtain j eid where j: "canonicalJsonClone ''Stored network access consumption'' ?v = Inr j" "consumption_fields P U j = Inr c"
    and i: "computeNetworkAccessConsumptionId P (co_request c) (co_attempt c) (co_digest c) = Inr (co_id c)" "consumptionEventId (co_id c) = Inr eid"
    and e: "se_aggregate_type e = NETWORK_ACCESS_CONSUMPTION_AGGREGATE_TYPE"
    unfolding consumptionFromEvent_def if_Inl_Inr bindE_Inr_iff by auto
  from consumption_fields_ok [OF j(2) clone_sound [OF j(1) assms(2)]] i e show ?thesis by (auto simp: good_consumption_def is_consumption_event_def)
qed

lemma consumption_keys: "hasExactKeys (consumption_json c) CONSUMPTION_KEYS"
  by (simp add: consumption_json_def hasExactKeys_def CONSUMPTION_KEYS_def)

lemma consumption_sound: "sound_json (co_manifest c) \<Longrightarrow> sound_json (consumption_json c)"
  by (simp add: consumption_json_def sound_json_def)

lemma consumption_members:
  "member (consumption_json c) ''consumptionId'' = JStr (co_id c)" "member (consumption_json c) ''authorityRequestId'' = JStr (co_request c)"
  "member (consumption_json c) ''attemptIndex'' = JNum (co_attempt c)" "member (consumption_json c) ''grantId'' = JStr (co_grant c)"
  "member (consumption_json c) ''grantDigest'' = JStr (co_digest c)" "member (consumption_json c) ''manifest'' = co_manifest c"
  "member (consumption_json c) ''manifestHash'' = JStr (co_manifest_hash c)" "member (consumption_json c) ''consumedAt'' = JNum (co_at c)"
  by (simp_all add: member_def consumption_json_def)

text \<open>The fields of the sorted record are read back.\<close>

lemma consumption_fields_read:
  assumes "good_consumption P U c"
  shows "consumption_fields P U (sort_json (consumption_json c)) = Inr c"
proof -
  let ?j = "sort_json (consumption_json c)"
  have s: "sound_json (consumption_json c)" using assms by (intro consumption_sound) (simp add: good_consumption_def)
  note m = member_sound [OF s, unfolded consumption_members] consumption_members
  have j: "member ?j ''consumptionId'' = JStr (co_id c)" "member ?j ''authorityRequestId'' = JStr (co_request c)"
    "member ?j ''attemptIndex'' = JNum (co_attempt c)" "member ?j ''grantId'' = JStr (co_grant c)"
    "member ?j ''grantDigest'' = JStr (co_digest c)" "member ?j ''manifest'' = co_manifest c"
    "member ?j ''manifestHash'' = JStr (co_manifest_hash c)" "member ?j ''consumedAt'' = JNum (co_at c)"
    using assms by (simp_all only: member_sound [OF s] consumption_members sort_json.simps) (simp add: good_consumption_def)
  have cl: "canonicalJsonClone ''Stored network access consumption manifest'' (co_manifest c) = Inr (co_manifest c)"
    using assms by (simp add: clone_iff good_consumption_def)
  have asserts: "assertAuthorityRequestId (co_request c) = Inr ()" "assertAttemptIndex (co_attempt c) = Inr ()"
    "assertGrantId (co_grant c) = Inr ()" "assertConsumedAt (co_at c) = Inr ()" "assertValidEgressManifest U (co_manifest c) = Inr ()"
    using assms by (simp_all add: good_consumption_def)
  show ?thesis using assms unfolding consumption_fields_def text_of_def int_at_def j jstr.simps jint.simps option.sel asserts cl bindE.simps
    by (simp add: good_consumption_def) metis
qed

definition consumption_payload :: "consumption \<Rightarrow> json" where
  "consumption_payload c = JObj [(''consumption'', consumption_json c)]"

lemma consumption_event_read:
  assumes good: "good_consumption P U c" and "clonable (consumption_json c)"
    and e: "se_aggregate_type e = NETWORK_ACCESS_CONSUMPTION_AGGREGATE_TYPE" "se_type e = NETWORK_ACCESS_CONSUMPTION_EVENT_TYPE"
      "se_version e = EVENT_SCHEMA_VERSION" "se_aggregate e = co_id c" "se_id e = ''EVT-'' @ co_id c" "se_time e = to_iso (co_at c)"
    and p: "sound_json (se_payload e)" "sort_json (se_payload e) = sort_json (consumption_payload c)"
  shows "consumptionFromEvent P U e = Inr c"
proof -
  have s: "sound_json (consumption_json c)" using good by (intro consumption_sound) (simp add: good_consumption_def)
  then have q: "sound_json (consumption_payload c)" by (simp add: consumption_payload_def sound_one)
  have k: "hasExactKeys (se_payload e) [''consumption'']"
    unfolding exact_keys_of [OF p(2)] by (simp add: consumption_payload_def hasExactKeys_def)
  have m: "sort_json (member (se_payload e) ''consumption'') = sort_json (consumption_json c)"
    using member_of_sort [OF p q, of "''consumption''"] by (simp add: consumption_payload_def member_def)
  then have "clonable (member (se_payload e) ''consumption'')" using assms(2) clonable_sort by metis
  with m have cl: "canonicalJsonClone ''Stored network access consumption'' (member (se_payload e) ''consumption'') = Inr (sort_json (consumption_json c))"
    by (simp add: clone_iff)
  have i: "computeNetworkAccessConsumptionId P (co_request c) (co_attempt c) (co_digest c) = Inr (co_id c)"
    "consumptionEventId (co_id c) = Inr (''EVT-'' @ co_id c)" using good by (simp_all add: good_consumption_def)
  show ?thesis unfolding consumptionFromEvent_def cl bindE.simps consumption_fields_read [OF good] i e exact_keys_sort
    by (simp add: k consumption_keys)
qed

section \<open>The lists of records\<close>

lemma fresh_Cons:
  "f x \<notin> set seen \<and> distinct (map f xs) \<and> (\<forall>y \<in> set xs. f y \<notin> set (f x # seen)) \<longleftrightarrow>
    distinct (map f (x # xs)) \<and> (\<forall>y \<in> set (x # xs). f y \<notin> set seen)"
  by (auto simp: image_iff)

lemma grant_records_iff:
  "grant_records P seen es = Inr rs \<longleftrightarrow> list_all2 (\<lambda>e r. grantRecordFromEvent P e = Inr r) es rs \<and> distinct (map sg_id rs) \<and>
     (\<forall>r \<in> set rs. sg_id r \<notin> set seen)"
proof (induction es arbitrary: seen rs)
  case (Cons e es)
  show ?case
  proof (cases "grantRecordFromEvent P e")
    case (Inr r)
    have "grant_records P seen (e # es) = Inr rs \<longleftrightarrow> sg_id r \<notin> set seen \<and> (\<exists>qs. grant_records P (sg_id r # seen) es = Inr qs \<and> rs = r # qs)"
      using Inr by auto
    also have "\<dots> \<longleftrightarrow> list_all2 (\<lambda>e r. grantRecordFromEvent P e = Inr r) (e # es) rs \<and> distinct (map sg_id rs) \<and> (\<forall>r \<in> set rs. sg_id r \<notin> set seen)"
      unfolding Cons.IH using Inr by (auto simp: list_all2_Cons1 image_iff) metis+
    finally show ?thesis .
  qed (auto simp: list_all2_Cons1)
qed auto

text \<open>A stored consumption is bound to a stored grant, and consumptions of one manifest version carry one manifest hash.\<close>

definition bound_to :: "platform \<Rightarrow> url_platform \<Rightarrow> stored_grant list \<Rightarrow> consumption \<Rightarrow> bool" where
  "bound_to P U gs c = (case find (\<lambda>g. sg_id g = co_grant c) gs of None \<Rightarrow> False | Some g \<Rightarrow> sg_digest g = co_digest c \<and>
     validateNetworkAccessGrant U (host_date P) (member (sg_envelope g) ''grant'') (manifest_view (co_manifest c)) (Some (co_at c)) = [])"

abbreviation identity_of :: "platform \<Rightarrow> consumption \<Rightarrow> string" where
  "identity_of P c \<equiv> manifestIdentity P (co_manifest c)"

definition one_hash :: "platform \<Rightarrow> consumption list \<Rightarrow> bool" where
  "one_hash P cs = (\<forall>c \<in> set cs. \<forall>d \<in> set cs. identity_of P c = identity_of P d \<longrightarrow> co_manifest_hash c = co_manifest_hash d)"

lemma one_hash_Cons: "one_hash P (c # ds) \<longleftrightarrow> one_hash P ds \<and>
    (\<forall>d \<in> set ds. identity_of P d = identity_of P c \<longrightarrow> co_manifest_hash d = co_manifest_hash c)"
  by (auto simp: one_hash_def)

lemma binding_iff: "assertGrantManifestBinding P U g m t label = Inr u \<longleftrightarrow> validateNetworkAccessGrant U (host_date P) g (manifest_view m) (Some t) = []"
  by (auto simp: assertGrantManifestBinding_def split: list.splits)

lemma consumption_records_iff:
  assumes "\<forall>e \<in> set es. sound_json (se_payload e)" and "\<forall>h \<in> ran hs. h \<noteq> []"
  shows "consumption_records P U gs seen hs es = Inr cs \<longleftrightarrow> list_all2 (\<lambda>e c. consumptionFromEvent P U e = Inr c) es cs \<and>
     distinct (map co_id cs) \<and> (\<forall>c \<in> set cs. co_id c \<notin> set seen) \<and> (\<forall>c \<in> set cs. bound_to P U gs c) \<and> one_hash P cs \<and>
     (\<forall>c \<in> set cs. case hs (identity_of P c) of None \<Rightarrow> True | Some h \<Rightarrow> h = co_manifest_hash c)"
  using assms
proof (induction es arbitrary: seen hs cs)
  case Nil
  then show ?case by (auto simp: one_hash_def)
next
  case (Cons e es)
  show ?case
  proof (cases "consumptionFromEvent P U e")
    case (Inl x)
    then show ?thesis by (auto simp: list_all2_Cons1)
  next
    case (Inr c)
    let ?k = "identity_of P c" and ?hs = "hs(identity_of P c \<mapsto> co_manifest_hash c)"
    have "good_consumption P U c" using consumptionFromEvent_ok [OF Inr] Cons.prems(1) by simp
    then have ne: "co_manifest_hash c \<noteq> []" by (auto simp: good_consumption_def sha256_digest_pattern_def)
    have r: "\<forall>h \<in> ran ?hs. h \<noteq> []" using Cons.prems(2) ne by (auto simp: ran_def)
    have es: "\<forall>e \<in> set es. sound_json (se_payload e)" using Cons.prems(1) by simp
    have old: "(case hs ?k of None \<Rightarrow> False | Some h \<Rightarrow> h \<noteq> [] \<and> h \<noteq> co_manifest_hash c) \<longleftrightarrow>
        \<not> (case hs ?k of None \<Rightarrow> True | Some h \<Rightarrow> h = co_manifest_hash c)"
      using Cons.prems(2) by (auto simp: ran_def split: option.split)
    note IH = Cons.IH [OF es r]
    show ?thesis
    proof (cases cs)
      case Nil
      then show ?thesis using Inr by (auto simp: Let_def split: option.splits)
    next
      case cs: (Cons d ds)
      let ?all = "list_all2 (\<lambda>e c. consumptionFromEvent P U e = Inr c) es ds"
        and ?agree = "\<lambda>hs cs. \<forall>c \<in> set cs. case hs (identity_of P c) of None \<Rightarrow> True | Some h \<Rightarrow> h = co_manifest_hash c"
      have h: "one_hash P ds \<and> ?agree ?hs ds \<and> (case hs ?k of None \<Rightarrow> True | Some h \<Rightarrow> h = co_manifest_hash c) \<longleftrightarrow>
          one_hash P (c # ds) \<and> ?agree hs (c # ds)"
      proof (cases "case hs ?k of None \<Rightarrow> True | Some h \<Rightarrow> h = co_manifest_hash c")
        case True
        have "(case ?hs (identity_of P d) of None \<Rightarrow> True | Some h \<Rightarrow> h = co_manifest_hash d) \<longleftrightarrow>
            (identity_of P d = ?k \<longrightarrow> co_manifest_hash d = co_manifest_hash c) \<and>
            (case hs (identity_of P d) of None \<Rightarrow> True | Some h \<Rightarrow> h = co_manifest_hash d)" for d
          using True by (cases "identity_of P d = ?k") (auto split: option.splits)
        then show ?thesis using True unfolding one_hash_Cons by auto
      qed simp
      note f = fresh_Cons [of co_id c seen ds]
      have b: "bound_to P U gs c \<and> (\<forall>d \<in> set ds. bound_to P U gs d) \<longleftrightarrow> (\<forall>d \<in> set (c # ds). bound_to P U gs d)" by simp
      have "consumption_records P U gs seen hs (e # es) = Inr cs \<longleftrightarrow> d = c \<and> co_id c \<notin> set seen \<and> bound_to P U gs c \<and>
          (case hs ?k of None \<Rightarrow> True | Some h \<Rightarrow> h = co_manifest_hash c) \<and> consumption_records P U gs (co_id c # seen) ?hs es = Inr ds"
      proof (cases "find (\<lambda>g. sg_id g = co_grant c) gs")
        case None
        show ?thesis unfolding consumption_records.simps Inr bindE.simps if_Inl_Inr None option.case bound_to_def by simp
      next
        case (Some g)
        show ?thesis unfolding consumption_records.simps Inr bindE.simps if_Inl_Inr Some option.case bound_to_def Let_def old bindE_Inr_iff
            binding_iff not_not cs by blast
      qed
      also have "\<dots> \<longleftrightarrow> d = c \<and> ?all \<and> (co_id c \<notin> set seen \<and> distinct (map co_id ds) \<and> (\<forall>d \<in> set ds. co_id d \<notin> set (co_id c # seen))) \<and>
          (bound_to P U gs c \<and> (\<forall>d \<in> set ds. bound_to P U gs d)) \<and>
          (one_hash P ds \<and> ?agree ?hs ds \<and> (case hs ?k of None \<Rightarrow> True | Some h \<Rightarrow> h = co_manifest_hash c))"
        unfolding IH by argo
      also have "\<dots> \<longleftrightarrow> d = c \<and> ?all \<and> (distinct (map co_id (c # ds)) \<and> (\<forall>d \<in> set (c # ds). co_id d \<notin> set seen)) \<and>
          (\<forall>d \<in> set (c # ds). bound_to P U gs d) \<and> one_hash P (c # ds) \<and> ?agree hs (c # ds)"
        unfolding f h b ..
      finally show ?thesis using cs Inr by (cases "d = c") simp_all
    qed
  qed
qed

section \<open>The sorted form of a manifest\<close>

lemma sort_jstrs [simp]: "sort_json (jstrs xs) = jstrs xs" "sort_json (JArr (map JNum ns)) = JArr (map JNum ns)"
  by (simp_all add: jstrs_def comp_def)

lemma reject_sort: "rejectUnexpectedKeys (sort_json j) ks path = [] \<longleftrightarrow> rejectUnexpectedKeys j ks path = []"
proof (cases j)
  case (JObj es)
  have "fst ` set (sort_key fst (map (\<lambda>(k, v). (k, sort_json v)) es)) = fst ` set es" by force
  then show ?thesis using JObj by (simp add: rejectUnexpectedKeys_def filter_empty_conv)
qed (simp_all add: rejectUnexpectedKeys_def)

lemma manifest_sound: "sound_json (manifest_json m)"
  by (simp add: sound_json_def manifest_json_def jstrs_def)

lemma record_sort: "isRecord (sort_json j) = isRecord j"
  by (cases j) simp_all

lemma sorted_member: "distinct (map fst es) \<Longrightarrow> member (sort_json (JObj es)) k = sort_json (member (JObj es) k)"
proof -
  assume d: "distinct (map fst es)"
  let ?fs = "map (\<lambda>(k, v). (k, sort_json v)) es"
  have "map_of (sort_key fst ?fs) k = map_of ?fs k"
    using d by (intro fun_cong [OF iffD2 [OF map_of_inject_set]]) (simp_all add: comp_def split_def sort_keys [unfolded split_def])
  then show ?thesis by (simp add: member_def map_of_map split: option.split)
qed

lemma member_obj: "member (JObj es) k = (case map_of es k of Some v \<Rightarrow> v | None \<Rightarrow> JUndef)"
  by (simp add: member_def)

lemmas sorted_members = member_sound [OF manifest_sound] manifest_members sorted_member member_obj

lemma sorted_statuses: "sort_json (JArr (map (\<lambda>r. JObj [(''min'', JNum (sr_min r)), (''max'', JNum (sr_max r))]) rs)) =
    JArr (map (\<lambda>r. sort_json (JObj [(''min'', JNum (sr_min r)), (''max'', JNum (sr_max r))])) rs)"
  by (simp only: sort_json.simps list.map_comp comp_def)

lemma status_eta: "\<lparr>sr_min = sr_min r, sr_max = sr_max r\<rparr> = (r :: status_range)"
  by simp

lemma manifest_view_sorted: "manifest_view (sort_json (manifest_json m)) = m"
  by (simp add: manifest_view_def text_of_def strings_at_def int_at_def bool_at_def sorted_members sorted_statuses items_def jstrs_def comp_def
    del: sort_json.simps(2) sort_json.simps(1)) (simp add: jstrs_def comp_def status_eta)

text \<open>The checks of an object do not depend on the order of its members.\<close>

definition flat :: "json \<Rightarrow> bool" where
  "flat j = (sound_json j \<and> (\<forall>k. sort_json (member j k) = member j k))"

lemma flat_member: "flat j \<Longrightarrow> member (sort_json j) k = member j k"
  by (simp add: flat_def member_sound)

lemma flat_obj: "flat (JObj es) \<longleftrightarrow> sound_json (JObj es) \<and> (\<forall>(k, v) \<in> set es. sort_json v = v)"
  if "distinct (map fst es)"
  using that by (force simp: flat_def member_obj dest: map_of_SomeD split: option.split)

lemma checks_sorted:
  assumes "flat j"
  shows "redirect_errors (sort_json j) = [] \<longleftrightarrow> redirect_errors j = []" "rate_errors (sort_json j) = [] \<longleftrightarrow> rate_errors j = []"
    "grant_policy_errors (sort_json j) = [] \<longleftrightarrow> grant_policy_errors j = []" "cache_errors ms (sort_json j) = [] \<longleftrightarrow> cache_errors ms j = []"
    "range_errors (sort_json j) = [] \<longleftrightarrow> range_errors j = []" "range_of (sort_json j) = range_of j"
  using assms by (simp_all add: redirect_errors_def rate_errors_def grant_policy_errors_def cache_errors_def range_errors_def range_of_def
      reject_sort flat_member record_sort Let_def split: prod.split)

lemma statuses_sorted: "list_all flat vs \<Longrightarrow> validateStatusRanges (JArr (map sort_json vs)) = [] \<longleftrightarrow> validateStatusRanges (JArr vs) = []"
proof -
  assume f: "list_all flat vs"
  have r: "List.map_filter range_of (map sort_json vs) = List.map_filter range_of vs"
    using f by (induction vs) (auto simp: map_filter_simps checks_sorted(6) split: option.split)
  have "concat (map range_errors (map sort_json vs)) = [] \<longleftrightarrow> concat (map range_errors vs) = []"
    using f checks_sorted(5) by (auto simp: list_all_iff)
  then show ?thesis by (simp add: validateStatusRanges_def r)
qed

lemma objectAt_sorted: "(checks (sort_json j) = [] \<longleftrightarrow> checks j = []) \<Longrightarrow> objectAt (sort_json j) path checks = [] \<longleftrightarrow> objectAt j path checks = []"
  by (simp add: objectAt_def record_sort)

lemma sort_items: "sort_json (JArr (map f xs)) = JArr (map sort_json (map f xs))"
  by simp

lemma response_sorted:
  "response_errors (sort_json (member (manifest_json m) ''responsePolicy'')) = [] \<longleftrightarrow> response_errors (member (manifest_json m) ''responsePolicy'') = []"
proof -
  have f: "list_all flat (map (\<lambda>r. JObj [(''min'', JNum (sr_min r)), (''max'', JNum (sr_max r))]) (eg_statuses m))"
    by (simp add: list_all_iff flat_obj sound_json_def)
  let ?j = "member (manifest_json m) ''responsePolicy''"
  have s: "sound_json ?j" by (simp add: manifest_members sound_json_def jstrs_def)
  have m: "member (sort_json ?j) ''allowedStatusRanges'' = JArr (map sort_json (map (\<lambda>r. JObj [(''min'', JNum (sr_min r)), (''max'', JNum (sr_max r))]) (eg_statuses m)))"
    "member (sort_json ?j) ''allowedContentTypes'' = member ?j ''allowedContentTypes''"
    "member (sort_json ?j) ''requireContentType'' = member ?j ''requireContentType''"
    "member (sort_json ?j) ''maxBodyBytes'' = member ?j ''maxBodyBytes''" "member (sort_json ?j) ''timeoutMs'' = member ?j ''timeoutMs''"
    unfolding member_sound [OF s] by (simp_all add: manifest_members member_obj del: sort_json.simps(2))
  have a: "member ?j ''allowedStatusRanges'' = JArr (map (\<lambda>r. JObj [(''min'', JNum (sr_min r)), (''max'', JNum (sr_max r))]) (eg_statuses m))"
    by (simp add: manifest_members member_obj)
  show ?thesis unfolding response_errors_def m append_is_Nil_conv reject_sort statuses_sorted [OF f] a ..
qed

lemma validate_sorted: "validateEgressManifest U (sort_json (manifest_json m)) = [] \<longleftrightarrow> manifest_ok U m"
proof -
  let ?k = "\<lambda>k. member (manifest_json m) k"
  note s = member_sound [OF manifest_sound [of m]]
  have m: "sort_json (?k k) = ?k k" if "k \<in> {''manifestId'', ''providerId'', ''version'', ''allowedHosts'', ''allowedPorts'', ''allowedPathPrefixes'',
      ''allowedMethods'', ''allowedRequestHeaders''}" for k
    using that by (auto simp: manifest_members)
  have f: "flat (?k k)" if "k \<in> {''redirectPolicy'', ''ratePolicy'', ''cachePolicy'', ''grantPolicy''}" for k
    using that by (auto simp: manifest_members flat_obj sound_json_def) (auto simp: jstrs_def)
  have o: "objectAt (sort_json (?k ''redirectPolicy'')) path redirect_errors = [] \<longleftrightarrow> objectAt (?k ''redirectPolicy'') path redirect_errors = []"
    "objectAt (sort_json (?k ''responsePolicy'')) path response_errors = [] \<longleftrightarrow> objectAt (?k ''responsePolicy'') path response_errors = []"
    "objectAt (sort_json (?k ''ratePolicy'')) path rate_errors = [] \<longleftrightarrow> objectAt (?k ''ratePolicy'') path rate_errors = []"
    "objectAt (sort_json (?k ''cachePolicy'')) path (cache_errors ms) = [] \<longleftrightarrow> objectAt (?k ''cachePolicy'') path (cache_errors ms) = []"
    "objectAt (sort_json (?k ''grantPolicy'')) path grant_policy_errors = [] \<longleftrightarrow> objectAt (?k ''grantPolicy'') path grant_policy_errors = []"
    for path ms
    by (simp_all add: objectAt_sorted checks_sorted [OF f] response_sorted)
  show ?thesis unfolding validateEgressManifest_ok [symmetric] validateEgressManifest_def record_sort s
    by (simp only: m insert_iff simp_thms split_def manifest_members(14) if_False append_is_Nil_conv reject_sort o Let_def)
qed

end
