(* ===== verification/GrantLedger.thy ===== *)
theory GrantLedger
  imports GrantEvents
begin

text \<open>
  The abstract ledger behind the persistent gate: the grants by identifier and the consumptions in order, with the steps
  a ledger may take. \<open>ledger_at\<close> abstracts a store to its ledger; the lemmas say how appended events change it.
\<close>

section \<open>Requests\<close>

lemma nested_mono: "nested d j \<Longrightarrow> nested (d + k) j"
  by (induction k) (simp_all add: nested_Suc)

lemma manifest_nested: "nested 28 (manifest_json m)"
proof -
  have "nested (Suc (Suc (Suc (Suc 0)))) (manifest_json m)" by (simp add: manifest_json_def jstrs_def)
  from nested_mono [OF this, of 24] show ?thesis by simp
qed

lemma nodes_lists:
  "nodes (jstrs xs) = 1 + length xs" "sum_list (map (nodes \<circ> JNum) ns) = length ns"
  "sum_list (map (nodes \<circ> (\<lambda>r. JObj [(''min'', JNum (sr_min r)), (''max'', JNum (sr_max r))])) rs) = 3 * length rs"
proof -
  show "nodes (jstrs xs) = 1 + length xs" by (induction xs) (simp_all add: jstrs_def)
  show "sum_list (map (nodes \<circ> JNum) ns) = length ns" by (induction ns) simp_all
  show "sum_list (map (nodes \<circ> (\<lambda>r. JObj [(''min'', JNum (sr_min r)), (''max'', JNum (sr_max r))])) rs) = 3 * length rs"
    by (induction rs) simp_all
qed

lemma manifest_nodes: "manifest_ok U m \<Longrightarrow> nodes (manifest_json m) \<le> 600"
proof -
  assume "manifest_ok U m"
  then have "length (eg_hosts m) \<le> 128" "length (eg_ports m) \<le> 32" "length (eg_prefixes m) \<le> 128" "length (eg_methods m) \<le> 2"
    "length (eg_headers m) \<le> 32" "length (eg_statuses m) \<le> 16" "length (eg_content_types m) \<le> 32" "length (eg_cache_methods m) \<le> 2"
    unfolding manifest_ok_def strings_ok_def statuses_ok_def by blast+
  then show ?thesis
    by (simp add: manifest_json_def nodes_lists)
qed

lemma consumption_clonable:
  assumes "manifest_ok U m" and "co_manifest c = sort_json (manifest_json m)"
  shows "clonable (consumption_json c)" "clonable (co_manifest c)"
proof -
  have n: "nested 32 (sort_json (manifest_json m))" "nested 31 (sort_json (manifest_json m))"
    using nested_mono [OF manifest_nested, of 4] nested_mono [OF manifest_nested, of 3] by simp_all
  moreover have d: "defined (sort_json (manifest_json m))" using manifest_sound [of m] by (simp add: sound_json_def)
  ultimately show "clonable (co_manifest c)" using manifest_nodes [OF assms(1)] assms(2) by (simp add: clonable_def del: sort_json.simps)
  have "nested (Suc 31) (consumption_json c)" using n assms(2) by (simp add: consumption_json_def del: sort_json.simps)
  moreover have "nodes (consumption_json c) \<le> 10000" using manifest_nodes [OF assms(1)] assms(2) by (simp add: consumption_json_def del: sort_json.simps)
  ultimately show "clonable (consumption_json c)" using d assms(2) by (simp add: clonable_def consumption_json_def del: sort_json.simps nested.simps)
qed

section \<open>The ledger\<close>

text \<open>The abstract state of a store: its grants and its consumptions in the order they were recorded.\<close>

definition ledger_of :: "platform \<Rightarrow> url_platform \<Rightarrow> crypto \<Rightarrow> store \<Rightarrow> (stored_grant list \<times> consumption list) result" where
  "ledger_of P U C st = bindE (list_grants P C st) (\<lambda>gs. bindE (consumptions P U C gs st) (\<lambda>cs. Inr (gs, cs)))"

definition sort_grants :: "platform \<Rightarrow> stored_grant list \<Rightarrow> stored_grant list" where
  "sort_grants P rs = sort_key (\<lambda>r. coll_key P (sg_id r)) rs"

abbreviation grants_read :: "platform \<Rightarrow> stored_event list \<Rightarrow> stored_grant list \<Rightarrow> bool" where
  "grants_read P es rs \<equiv> list_all2 (\<lambda>e r. grantRecordFromEvent P e = Inr r) (filter is_grant_event es) rs"

abbreviation uses_read :: "platform \<Rightarrow> url_platform \<Rightarrow> stored_event list \<Rightarrow> consumption list \<Rightarrow> bool" where
  "uses_read P U es cs \<equiv> list_all2 (\<lambda>e c. consumptionFromEvent P U e = Inr c) (filter is_consumption_event es) cs"

lemma list_grants_iff: "readAll P C st = Inr es \<Longrightarrow> list_grants P C st = Inr gs \<longleftrightarrow>
    (\<exists>rs. grants_read P es rs \<and> distinct (map sg_id rs) \<and> gs = sort_grants P rs)"
  by (auto simp: list_grants_def records_def grant_records_iff sort_grants_def)

lemma consumptions_iff: "readAll P C st = Inr es \<Longrightarrow> consumptions P U C gs st = Inr cs \<longleftrightarrow>
    uses_read P U es cs \<and> distinct (map co_id cs) \<and> (\<forall>c \<in> set cs. bound_to P U gs c) \<and> one_hash P cs"
  using readAll_sound [of P C st es] unfolding consumptions_def
  by (simp add: consumption_records_iff list_all_iff)

lemma ledger_iff: "readAll P C st = Inr es \<Longrightarrow> ledger_of P U C st = Inr (gs, cs) \<longleftrightarrow>
    (\<exists>rs. grants_read P es rs \<and> distinct (map sg_id rs) \<and> gs = sort_grants P rs) \<and>
    uses_read P U es cs \<and> distinct (map co_id cs) \<and> (\<forall>c \<in> set cs. bound_to P U gs c) \<and> one_hash P cs"
  by (auto simp: ledger_of_def list_grants_iff consumptions_iff)

lemma ledger_readable: "ledger_of P U C st = Inr l \<Longrightarrow> \<exists>es. readAll P C st = Inr es"
  by (auto simp: ledger_of_def list_grants_def records_def)

lemma find_unique: "distinct (map f xs) \<Longrightarrow> find (\<lambda>x. f x = i) xs = Some x \<longleftrightarrow> x \<in> set xs \<and> f x = i"
proof (induction xs)
  case (Cons y ys)
  then show ?case by (cases "f y = i") (auto simp: image_iff)
qed simp

lemma distinct_sorted_grants: "distinct (map sg_id (sort_grants P rs)) = distinct (map sg_id rs)"
  by (simp add: sort_grants_def distinct_map)

lemma find_grants: "distinct (map sg_id rs) \<Longrightarrow> find (\<lambda>r. sg_id r = i) (sort_grants P rs) = find (\<lambda>r. sg_id r = i) rs"
proof -
  assume d: "distinct (map sg_id rs)"
  have s: "set (sort_grants P rs) = set rs" by (simp add: sort_grants_def)
  have "find (\<lambda>r. sg_id r = i) (sort_grants P rs) = Some r \<longleftrightarrow> find (\<lambda>r. sg_id r = i) rs = Some r" for r
    unfolding find_unique [OF d] using find_unique [of sg_id "sort_grants P rs" i r] d s by (simp add: distinct_sorted_grants)
  then show ?thesis by (metis not_Some_eq)
qed

text \<open>Grants that were read are well formed.\<close>

definition good_grant :: "platform \<Rightarrow> stored_grant \<Rightarrow> bool" where
  "good_grant P r = (sound_json (sg_envelope r) \<and> (\<exists>g. envelope_of P (sg_envelope r) g \<and> sg_id r = ng_id g) \<and>
     sort_json (sg_envelope r) = sg_envelope r \<and> canonicalEnvelope P (sg_envelope r) = Inr (sg_envelope r) \<and>
     sg_digest r = text_of (sg_envelope r) ''grantDigest'' \<and> sha256_digest_pattern (sg_digest r))"

lemma grants_good: "list_all2 (\<lambda>e r. grantRecordFromEvent P e = Inr r) es rs \<Longrightarrow> \<forall>e \<in> set es. sound_json (se_payload e) \<Longrightarrow>
    list_all (good_grant P) rs"
proof (induction rule: list_all2_induct)
  case (Cons e es r rs)
  then show ?case using grantRecordFromEvent_ok [of P e r] by (auto simp: good_grant_def)
qed simp

lemma uses_good: "list_all2 (\<lambda>e c. consumptionFromEvent P U e = Inr c) es cs \<Longrightarrow> \<forall>e \<in> set es. sound_json (se_payload e) \<Longrightarrow>
    list_all (good_consumption P U) cs"
proof (induction rule: list_all2_induct)
  case (Cons e es c cs)
  then show ?case using consumptionFromEvent_ok [of P U e c] by auto
qed simp

lemma list_grants_good: "list_grants P C st = Inr gs \<Longrightarrow> list_all (good_grant P) gs \<and> distinct (map sg_id gs)"
proof -
  assume l: "list_grants P C st = Inr gs"
  then obtain es where es: "readAll P C st = Inr es" by (auto simp: list_grants_def records_def)
  with l obtain rs where rs: "grants_read P es rs" "distinct (map sg_id rs)" "gs = sort_grants P rs" by (auto simp: list_grants_iff)
  have "list_all (good_grant P) rs" using readAll_sound [OF es] by (intro grants_good [OF rs(1)]) (auto simp: list_all_iff)
  with rs(2,3) show ?thesis by (simp add: distinct_sorted_grants) (simp add: sort_grants_def list_all_iff)
qed

lemma grant_json_sound: "sound_json (grant_json g)"
  by (simp add: sound_json_def grant_json_def jstrs_def)

lemma consumption_id_ok: "computeNetworkAccessConsumptionId P q n d = Inr cid \<Longrightarrow> hex_digest P \<Longrightarrow> consumption_id_pattern cid"
  by (auto simp: computeNetworkAccessConsumptionId_def consumption_id_pattern_def sha256_def hex_digest_def split: if_splits)

lemma grant_text: "text_of (sort_json (grant_json g)) ''grantId'' = ng_id g"
  by (simp add: text_of_def member_sound [OF grant_json_sound] grant_members)

lemma gate_authorized:
  assumes "authorize P U C r st = Inr (gs, s, c)" and "hex_digest P"
  shows "list_grants P C st = Inr gs \<and> find (\<lambda>s. sg_id s = co_grant c) gs = Some s \<and> co_digest c = sg_digest s \<and>
    good_consumption P U c \<and> clonable (consumption_json c) \<and> bound_to P U gs c \<and> co_at c = gr_at r \<and>
    co_manifest c = sort_json (manifest_json (gr_manifest r)) \<and> manifest_ok U (gr_manifest r) \<and>
    member (sg_envelope s) ''grant'' = sort_json (grant_json (gr_grant r)) \<and> co_grant c = ng_id (gr_grant r) \<and>
    gq_request r = Some (co_request c) \<and> gq_attempt r = Some (co_attempt c)"
proof -
  from assms(1) obtain q n where q: "gq_request r = Some q" "gq_attempt r = Some n" by (auto simp: authorize_def split: option.splits)
  let ?m = "sort_json (manifest_json (gr_manifest r))" and ?g = "sort_json (grant_json (gr_grant r))"
  let ?find = "\<lambda>gs. find (\<lambda>s. sg_id s = text_of ?g ''grantId'') gs"
  from assms(1) obtain gs' where a: "authority_request_id_pattern q" "0 \<le> n" "n \<le> MAX_SAFE" "0 \<le> gr_at r" "gr_at r \<le> max_time"
      "clonable (manifest_json (gr_manifest r))" "validateEgressManifest U ?m = []" "grant_id_pattern (text_of ?g ''grantId'')"
    and gs': "list_grants P C st = Inr gs'" and rest: "(case ?find gs' of
       None \<Rightarrow> throw ''Network access consumption requires a stored signed grant envelope''
     | Some s \<Rightarrow>
       if (case gq_digest r of None \<Rightarrow> False | Some d \<Rightarrow> d \<noteq> sg_digest s)
       then throw ''Network access consumption grant digest does not match the stored envelope''
       else if stable_stringify (coll_key P) ?g \<noteq> stable_stringify (coll_key P) (member (sg_envelope s) ''grant'')
       then throw ''Network access consumption grant does not match the stored envelope''
       else bindE (assertGrantManifestBinding P U ?g ?m (gr_at r) ''Network access consumption grant binding'') (\<lambda>_.
         bindE (computeNetworkAccessConsumptionId P q n (sg_digest s)) (\<lambda>cid.
         if (case gq_id r of None \<Rightarrow> False | Some i \<Rightarrow> i \<noteq> cid)
         then throw ''Network access consumption id is not bound to its authority request, attempt, and grant digest''
         else Inr (gs', s, \<lparr>co_id = cid, co_request = q, co_attempt = n, co_grant = text_of ?g ''grantId'', co_digest = sg_digest s,
           co_manifest = ?m, co_manifest_hash = hash_json P ?m, co_at = gr_at r\<rparr>)))) = Inr (gs, s, c)"
    unfolding authorize_def q option.case bindE_Inr_iff clone_iff assert_iffs by blast
  obtain s' where s': "?find gs' = Some s'" using rest by (cases "?find gs'") auto
  have e: "stable_stringify (coll_key P) ?g = stable_stringify (coll_key P) (member (sg_envelope s') ''grant'')"
    and b: "validateNetworkAccessGrant U (host_date P) ?g (manifest_view ?m) (Some (gr_at r)) = []"
    and "\<exists>cid. computeNetworkAccessConsumptionId P q n (sg_digest s') = Inr cid \<and> gs' = gs \<and> s' = s \<and>
      c = \<lparr>co_id = cid, co_request = q, co_attempt = n, co_grant = text_of ?g ''grantId'', co_digest = sg_digest s',
       co_manifest = ?m, co_manifest_hash = hash_json P ?m, co_at = gr_at r\<rparr>"
    using rest unfolding s' option.case if_Inl_Inr bindE_Inr_iff binding_iff by (blast, blast, auto)
  then obtain cid where i: "computeNetworkAccessConsumptionId P q n (sg_digest s) = Inr cid"
    and c: "c = \<lparr>co_id = cid, co_request = q, co_attempt = n, co_grant = text_of ?g ''grantId'', co_digest = sg_digest s,
       co_manifest = ?m, co_manifest_hash = hash_json P ?m, co_at = gr_at r\<rparr>"
    and l: "list_grants P C st = Inr gs" "?find gs = Some s" and s'': "s' = s" using gs' s' by blast
  note e = e [unfolded s'']
  have ok: "manifest_ok U (gr_manifest r)" using a(7) validate_sorted by blast
  have m: "co_manifest c = ?m" using c by simp
  note cl = consumption_clonable [OF ok m]
  have "good_grant P s" using list_grants_good [OF l(1)] find_Some_mem [OF l(2)] by (auto simp: list_all_iff)
  then obtain g where s: "sound_json (sg_envelope s)" "envelope_of P (sg_envelope s) g" "sort_json (sg_envelope s) = sg_envelope s"
    "sha256_digest_pattern (sg_digest s)" by (auto simp: good_grant_def)
  have "member (sg_envelope s) ''grant'' \<noteq> JUndef" using s(2) by (auto simp: envelope_of_def parseGrant_def hasExactDataKeys_def Let_def)
  then have sg: "sound_json (member (sg_envelope s) ''grant'')" using s(1) by (intro sound_member)
  have "sort_json ?g = sort_json (member (sg_envelope s) ''grant'')"
    by (rule stringify_sorted [OF e _ sg]) (simp add: grant_json_sound)
  moreover have "sort_json (member (sg_envelope s) ''grant'') = member (sg_envelope s) ''grant''"
    using member_sound [OF s(1), of "''grant''"] s(3) by simp
  moreover have "sort_json ?g = ?g" using grant_json_sound [of "gr_grant r"] by (simp add: sound_json_def)
  ultimately have eq: "member (sg_envelope s) ''grant'' = ?g" by simp
  have "sha256_digest_pattern (hash_json P ?m)" using sha256_text_ok [OF assms(2)] by (simp add: sha256_text_def sha256_digest_pattern_def)
  moreover have "sound_json ?m" "sort_json ?m = ?m" using manifest_sound [of "gr_manifest r"] by (simp, simp add: sound_json_def)
  moreover have "consumption_id_pattern cid" by (rule consumption_id_ok [OF i assms(2)])
  ultimately have "good_consumption P U c" unfolding good_consumption_def using a i s(4) c m cl(2) by simp
  moreover have "bound_to P U gs c" using l(2) c b eq by (simp add: bound_to_def)
  ultimately show ?thesis using l c ok eq q cl(1) m by (simp add: grant_text)
qed

section \<open>The abstract ledger\<close>

record ledger =
  lg_grants :: "string \<rightharpoonup> stored_grant"
  lg_uses :: "consumption list"

definition grant_map :: "stored_grant list \<Rightarrow> string \<rightharpoonup> stored_grant" where
  "grant_map gs i = find (\<lambda>g. sg_id g = i) gs"

text \<open>The abstraction function, from a store to its ledger.\<close>

definition ledger_at :: "platform \<Rightarrow> url_platform \<Rightarrow> crypto \<Rightarrow> store \<Rightarrow> ledger option" where
  "ledger_at P U C st = (case ledger_of P U C st of Inl _ \<Rightarrow> None | Inr (gs, cs) \<Rightarrow> Some \<lparr>lg_grants = grant_map gs, lg_uses = cs\<rparr>)"

definition budget_of :: "stored_grant \<Rightarrow> int" where
  "budget_of g = int_at (member (sg_envelope g) ''grant'') ''requestBudget''"

definition max_of :: "consumption \<Rightarrow> int" where
  "max_of c = eg_rate_max (manifest_view (co_manifest c))"

definition window_of :: "consumption \<Rightarrow> int" where
  "window_of c = eg_rate_window (manifest_view (co_manifest c))"

definition charged_to :: "string \<Rightarrow> consumption list \<Rightarrow> int" where
  "charged_to d cs = int (length (filter (\<lambda>c. co_digest c = d) cs))"

text \<open>What the gate promises for one authorised consumption: a known identifier is allowed again and costs nothing, an
  exhausted budget or a full window refuses, and everything else is allowed and recorded.\<close>

definition ledger_consume :: "platform \<Rightarrow> stored_grant \<Rightarrow> consumption \<Rightarrow> ledger \<Rightarrow> ledger \<times> gate_decision" where
  "ledger_consume P g c L = (
     if co_id c \<in> co_id ` set (lg_uses L) then (L, allow)
     else if budget_of g \<le> charged_to (sg_digest g) (lg_uses L) then (L, refuse ''grant-budget'' 0)
     else if max_of c \<le> int (length (active_times P c (lg_uses L)))
     then (L, refuse ''provider-rate-limit'' (max 1 (hd (active_times P c (lg_uses L)) + window_of c - co_at c)))
     else (L\<lparr>lg_uses := lg_uses L @ [c]\<rparr>, allow))"

text \<open>The clock of a manifest does not run backwards, and one version of it has one content.\<close>

definition orderly :: "platform \<Rightarrow> consumption \<Rightarrow> consumption list \<Rightarrow> bool" where
  "orderly P c cs = (\<forall>d \<in> set (same_manifest P (co_manifest c) cs). co_manifest_hash d = co_manifest_hash c \<and> co_at d \<le> co_at c)"

inductive ledger_step :: "platform \<Rightarrow> url_platform \<Rightarrow> ledger \<Rightarrow> ledger \<Rightarrow> bool" for P :: platform and U :: url_platform where
  l_grant: "lg_grants L (sg_id g) = None \<Longrightarrow> good_grant P g \<Longrightarrow> ledger_step P U L (L\<lparr>lg_grants := (lg_grants L)(sg_id g \<mapsto> g)\<rparr>)"
| l_consume: "lg_grants L (co_grant c) = Some g \<Longrightarrow> co_digest c = sg_digest g \<Longrightarrow> good_consumption P U c \<Longrightarrow>
    co_id c \<in> co_id ` set (lg_uses L) \<or> orderly P c (lg_uses L) \<Longrightarrow> ledger_consume P g c L = (L', d) \<Longrightarrow> ledger_step P U L L'"
| l_stay: "ledger_step P U L L"

section \<open>One step of the store\<close>

lemma ledger_foreign:
  assumes "readAll P C st = Inr es" and "readAll P C st' = Inr (es @ [e])" and "\<not> is_grant_event e" and "\<not> is_consumption_event e"
  shows "ledger_of P U C st' = ledger_of P U C st"
  using assms by (simp add: ledger_of_def list_grants_def records_def consumptions_def)

lemma ledger_same: "readAll P C st' = readAll P C st \<Longrightarrow> ledger_of P U C st' = ledger_of P U C st"
  by (simp add: ledger_of_def list_grants_def records_def consumptions_def)

lemma consumption_not_grant: "se_aggregate_type e = NETWORK_ACCESS_CONSUMPTION_AGGREGATE_TYPE \<Longrightarrow>
    se_type e = NETWORK_ACCESS_CONSUMPTION_EVENT_TYPE \<Longrightarrow> is_consumption_event e \<and> \<not> is_grant_event e"
  by (simp add: is_consumption_event_def is_grant_event_def NETWORK_ACCESS_CONSUMPTION_AGGREGATE_TYPE_def NETWORK_ACCESS_GRANT_AGGREGATE_TYPE_def
    NETWORK_ACCESS_CONSUMPTION_EVENT_TYPE_def NETWORK_ACCESS_GRANT_EVENT_TYPE_def)

lemma grant_not_consumption: "se_aggregate_type e = NETWORK_ACCESS_GRANT_AGGREGATE_TYPE \<Longrightarrow>
    se_type e = NETWORK_ACCESS_GRANT_EVENT_TYPE \<Longrightarrow> is_grant_event e \<and> \<not> is_consumption_event e"
  by (simp add: is_consumption_event_def is_grant_event_def NETWORK_ACCESS_CONSUMPTION_AGGREGATE_TYPE_def NETWORK_ACCESS_GRANT_AGGREGATE_TYPE_def
    NETWORK_ACCESS_CONSUMPTION_EVENT_TYPE_def NETWORK_ACCESS_GRANT_EVENT_TYPE_def)

lemma one_hash_snoc: "one_hash P (cs @ [c]) \<longleftrightarrow> one_hash P cs \<and>
    (\<forall>d \<in> set cs. identity_of P d = identity_of P c \<longrightarrow> co_manifest_hash d = co_manifest_hash c)"
proof -
  have "one_hash P (cs @ [c]) = one_hash P (c # cs)" by (simp only: one_hash_def set_append list.set Un_insert_right Un_empty_right)
  then show ?thesis by (simp only: one_hash_Cons)
qed

lemma ledger_charge:
  assumes "readAll P C st = Inr es" and "readAll P C st' = Inr (es @ [e])" and "ledger_of P U C st = Inr (gs, cs)"
    and "consumptionFromEvent P U e = Inr c" and "is_consumption_event e \<and> \<not> is_grant_event e" and "co_id c \<notin> co_id ` set cs"
    and "bound_to P U gs c" and "orderly P c cs"
  shows "ledger_of P U C st' = Inr (gs, cs @ [c])"
proof -
  obtain rs where rs: "grants_read P es rs" "distinct (map sg_id rs)" "gs = sort_grants P rs"
    and cs: "uses_read P U es cs" "distinct (map co_id cs)" "\<forall>c \<in> set cs. bound_to P U gs c" "one_hash P cs"
    using assms(3) unfolding ledger_iff [OF assms(1)] by blast
  have "one_hash P (cs @ [c])"
    unfolding one_hash_snoc using cs(4) assms(8) by (simp add: orderly_def same_manifest_def)
  moreover have "uses_read P U (es @ [e]) (cs @ [c])" using cs(1) assms(4,5) by (simp add: list_all2_appendI)
  moreover have "grants_read P (es @ [e]) rs" using rs(1) assms(5) by simp
  moreover have "distinct (map co_id (cs @ [c]))" using cs(2) assms(6) by simp
  moreover have "\<forall>c \<in> set (cs @ [c]). bound_to P U gs c" using cs(3) assms(7) by simp
  ultimately show ?thesis unfolding ledger_iff [OF assms(2)] using rs(2,3) by blast
qed

lemma ledger_record:
  assumes "readAll P C st = Inr es" and "readAll P C st' = Inr (es @ [e])" and "ledger_of P U C st = Inr (gs, cs)"
    and "grantRecordFromEvent P e = Inr r" and "is_grant_event e \<and> \<not> is_consumption_event e" and "grant_map gs (sg_id r) = None"
  shows "\<exists>gs'. ledger_of P U C st' = Inr (gs', cs) \<and> grant_map gs' = (grant_map gs)(sg_id r \<mapsto> r)"
proof -
  obtain rs where rs: "grants_read P es rs" "distinct (map sg_id rs)" "gs = sort_grants P rs"
    and cs: "uses_read P U es cs" "distinct (map co_id cs)" "\<forall>c \<in> set cs. bound_to P U gs c" "one_hash P cs"
    using assms(3) unfolding ledger_iff [OF assms(1)] by blast
  have new: "sg_id r \<notin> sg_id ` set rs"
    using assms(6) rs(2,3) by (auto simp: grant_map_def find_grants find_None_none)
  then have d: "distinct (map sg_id (rs @ [r]))" using rs(2) by simp
  have "grant_map (sort_grants P (rs @ [r])) i = ((grant_map gs)(sg_id r \<mapsto> r)) i" for i
  proof (cases "i = sg_id r")
    case True
    have "find (\<lambda>g. sg_id g = sg_id r) rs = None" unfolding find_None_none using new by (metis imageI)
    then show ?thesis using True by (simp add: grant_map_def find_grants [OF d] find_append_one)
  next
    case False
    then show ?thesis
      by (simp add: grant_map_def find_grants [OF d] rs(3) find_grants [OF rs(2)] find_append_one split: option.split)
  qed
  then have m: "grant_map (sort_grants P (rs @ [r])) = (grant_map gs)(sg_id r \<mapsto> r)" by (rule ext)
  have "bound_to P U (sort_grants P (rs @ [r])) c" if "bound_to P U gs c" for c
  proof -
    have "co_grant c \<noteq> sg_id r" using that assms(6) by (auto simp: bound_to_def grant_map_def)
    then show ?thesis using that fun_cong [OF m, of "co_grant c"] by (simp add: bound_to_def grant_map_def)
  qed
  then have "\<forall>c \<in> set cs. bound_to P U (sort_grants P (rs @ [r])) c" using cs(3) by blast
  moreover have "grants_read P (es @ [e]) (rs @ [r])" using rs(1) assms(4,5) by (simp add: list_all2_appendI)
  moreover have "uses_read P U (es @ [e]) cs" using cs(1) assms(5) by simp
  ultimately have "ledger_of P U C st' = Inr (sort_grants P (rs @ [r]), cs)"
    unfolding ledger_iff [OF assms(2)] using d cs by blast
  then show ?thesis using m by blast
qed

end
