(* ===== verification/GrantGate.thy ===== *)
theory GrantGate
  imports GrantLedger
begin

text \<open>
  The persistent gate and the repository of grants refine the ledger: every step of a store is a step of its ledger,
  which keeps each grant within its budget and each manifest within its window.
\<close>

section \<open>The gate in terms of the ledger\<close>

lemma foldl_max_less: "x < foldl (\<lambda>latest d. max latest (f d)) a ds \<longleftrightarrow> x < (a :: int) \<or> (\<exists>d \<in> set ds. x < f d)"
  by (induction ds arbitrary: a) auto

lemma grant_budget: "member (sg_envelope s) ''grant'' = sort_json (grant_json g) \<Longrightarrow> budget_of s = ng_budget g"
  by (simp add: budget_of_def int_at_def member_sound [OF grant_json_sound] grant_members)

lemma same_manifest_hd:
  assumes "one_hash P cs" and "case same_manifest P m cs of [] \<Rightarrow> True | b # _ \<Rightarrow> co_manifest_hash b = h"
  shows "\<forall>d \<in> set (same_manifest P m cs). co_manifest_hash d = h"
proof (cases "same_manifest P m cs")
  case (Cons b bs)
  then have b: "b \<in> set (same_manifest P m cs)" "co_manifest_hash b = h" using assms(2) by simp_all
  have "co_manifest_hash d = co_manifest_hash b" if "d \<in> set (same_manifest P m cs)" for d
  proof -
    have "d \<in> set cs" "b \<in> set cs" "identity_of P d = identity_of P b" using that b(1) by (simp_all add: same_manifest_def)
    then show ?thesis using assms(1) unfolding one_hash_def by blast
  qed
  with b(2) show ?thesis by simp
qed simp

definition replays :: "platform \<Rightarrow> consumption \<Rightarrow> consumption list \<Rightarrow> bool" where
  "replays P c cs = (\<exists>d \<in> set cs. co_id d = co_id c \<and>
     stable_stringify (coll_key P) (consumptionReplayBinding d) = stable_stringify (coll_key P) (consumptionReplayBinding c))"

lemma find_id: "find (\<lambda>d. co_id d = i) cs = None \<longleftrightarrow> i \<notin> co_id ` set cs"
  by (auto simp: find_None_none)

text \<open>The gate after its checks, in terms of the ledger: the store is untouched or one event longer.\<close>

lemma consume_outcome:
  assumes "hex_digest P" and "ledger_of P U C st = Inr (gs, cs)" and "authorize P U C r st = Inr (gs', s, c)"
    and "consumeSerialized P U C r uuid n n' st = Inr (st', d)"
  shows "gs' = gs \<and> (let (L', d') = ledger_consume P s c \<lparr>lg_grants = grant_map gs, lg_uses = cs\<rparr> in d = d' \<and>
      (if co_id c \<in> co_id ` set cs then replays P c cs else orderly P c cs) \<and>
      (if lg_uses L' = cs then st' = st else
         co_id c \<notin> co_id ` set cs \<and> lg_uses L' = cs @ [c] \<and> (\<exists>ev. append_event P C st (consumption_input c (''EVT-'' @ co_id c)) uuid n n' = Inr (st', ev))))"
proof -
  have l: "list_grants P C st = Inr gs" "consumptions P U C gs st = Inr cs" using assms(2) by (auto simp: ledger_of_def)
  note ok = gate_authorized [OF assms(3,1)]
  have gs: "gs' = gs" using l(1) ok by simp
  obtain es where es: "readAll P C st = Inr es" using ledger_readable [OF assms(2)] by blast
  have oh: "one_hash P cs" using assms(2) unfolding ledger_iff [OF es] by blast
  show ?thesis
  proof (cases "find (\<lambda>d. co_id d = co_id c) cs")
    case (Some e)
    have e: "e \<in> set cs" "co_id e = co_id c" using find_Some_mem [OF Some] by auto
    have "stable_stringify (coll_key P) (consumptionReplayBinding e) = stable_stringify (coll_key P) (consumptionReplayBinding c) \<and> st' = st \<and> d = allow"
      using assms(4) unfolding consumeSerialized_def assms(3) bindE.simps prod.case gs l(2) Some option.case if_Inl_Inr by simp
    moreover have "co_id c \<in> co_id ` set cs" using e(1) e(2) [symmetric] by (rule image_eqI [rotated])
    ultimately show ?thesis using gs e by (simp add: ledger_consume_def) (auto simp: replays_def)
  next
    case None
    then have new: "co_id c \<notin> co_id ` set cs" by (simp add: find_id)
    let ?ds = "same_manifest P (co_manifest c) cs"
    have rest: "(case ?ds of [] \<Rightarrow> True | b # _ \<Rightarrow> co_manifest_hash b = co_manifest_hash c)"
        "\<not> co_at c < foldl (\<lambda>latest d. max latest (co_at d)) (-1) ?ds"
      and out: "(if int_at (member (sg_envelope s) ''grant'') ''requestBudget'' \<le> int (length (filter (\<lambda>d. co_digest d = sg_digest s) cs))
       then Inr (st, refuse ''grant-budget'' 0)
       else if eg_rate_max (manifest_view (co_manifest c)) \<le> int (length (active_times P c cs))
       then Inr (st, refuse ''provider-rate-limit'' (max 1 (hd (active_times P c cs) + eg_rate_window (manifest_view (co_manifest c)) - co_at c)))
       else persist_consumption P U C c (''EVT-'' @ co_id c) uuid n n' st) = Inr (st', d)"
      using assms(4) unfolding consumeSerialized_def assms(3) bindE.simps prod.case gs l(2) None option.case if_Inl_Inr bindE_Inr_iff assert_iffs
      by (auto split: list.splits)
    have ord: "orderly P c cs"
      using same_manifest_hd [OF oh rest(1)] rest(2) by (auto simp: orderly_def foldl_max_less not_less)
    show ?thesis
    proof (cases "budget_of s \<le> charged_to (sg_digest s) cs")
      case True
      then show ?thesis using out gs new ord
        by (simp add: ledger_consume_def budget_of_def charged_to_def)
    next
      case b: False
      show ?thesis
      proof (cases "max_of c \<le> int (length (active_times P c cs))")
        case True
        then show ?thesis using out gs new ord b
          by (simp add: ledger_consume_def budget_of_def charged_to_def max_of_def window_of_def)
      next
        case False
        then have "\<exists>ev. append_event P C st (consumption_input c (''EVT-'' @ co_id c)) uuid n n' = Inr (st', ev)" "d = allow"
          using out b unfolding budget_of_def charged_to_def max_of_def persist_consumption_def by (auto split: if_splits)
        then show ?thesis using gs new ord b False by (simp add: ledger_consume_def)
      qed
    qed
  qed
qed

lemma ledger_at_iff: "ledger_at P U C st = Some L \<longleftrightarrow> (\<exists>gs cs. ledger_of P U C st = Inr (gs, cs) \<and> L = \<lparr>lg_grants = grant_map gs, lg_uses = cs\<rparr>)"
  by (auto simp: ledger_at_def split: sum.splits)

lemma consumption_appended:
  assumes "aead_ok C" and "hex_digest P" and "readAll P C st = Inr es"
    and ap: "append_event P C st (consumption_input c (''EVT-'' @ co_id c)) uuid n n' = Inr (st', ev)"
    and good: "good_consumption P U c" and cl: "clonable (consumption_json c)"
  shows "\<exists>e. readAll P C st' = Inr (es @ [e]) \<and> consumptionFromEvent P U e = Inr c \<and> consumptionFromEvent P U ev = Inr c \<and>
    is_consumption_event e \<and> \<not> is_grant_event e"
proof -
  define i where "i = consumption_input c (''EVT-'' @ co_id c)"
  have i: "ae_payload i = consumption_payload c" "ae_aggregate_type i = NETWORK_ACCESS_CONSUMPTION_AGGREGATE_TYPE"
    "ae_type i = NETWORK_ACCESS_CONSUMPTION_EVENT_TYPE" "ae_version i = EVENT_SCHEMA_VERSION" "ae_aggregate i = co_id c"
    "ae_time i = co_at c" "ae_id i = Some (''EVT-'' @ co_id c)"
    by (simp_all add: i_def consumption_input_def consumption_payload_def)
  have "sound_json (co_manifest c)" using good by (simp add: good_consumption_def)
  then have s: "sound_json (consumption_payload c)" by (simp add: consumption_payload_def sound_one consumption_sound)
  show ?thesis
  proof (rule store_append_reads [OF assms(1-3) ap [folded i_def]])
    show "sound_json (ae_payload i)" using s i(1) by simp
    fix e assume r: "readAll P C st' = Inr (es @ [e])" and e: "e = ev\<lparr>se_payload := canon (coll_key P) (ae_payload i)\<rparr>"
      and f: "se_payload ev = ae_payload i" "se_aggregate_type e = ae_aggregate_type i" "se_type e = ae_type i"
      "se_version e = ae_version i" "se_aggregate e = ae_aggregate i" "se_time e = to_iso (ae_time i)"
      "\<forall>x. ae_id i = Some x \<longrightarrow> se_id e = x" and q: "sound_json (se_payload e)" "sort_json (se_payload e) = sort_json (ae_payload i)"
  have d: "se_id e = ''EVT-'' @ co_id c" using f(7) i(7) by blast
  have "consumptionFromEvent P U e = Inr c"
    using consumption_event_read [OF good cl f(2-5) [unfolded i] d f(6) [unfolded i] q [unfolded i]] .
  moreover have "consumptionFromEvent P U ev = Inr c"
  proof (rule consumption_event_read [OF good cl])
    show "sound_json (se_payload ev)" "sort_json (se_payload ev) = sort_json (consumption_payload c)" using f(1) s i(1) by simp_all
  qed (use e f i d in simp_all)
  ultimately show ?thesis using r consumption_not_grant [of e] f(2,3) i(2,3) by metis
  qed
qed

lemma ledger_consume_grants: "ledger_consume P s c L = (L', d) \<Longrightarrow> lg_grants L' = lg_grants L"
  by (auto simp: ledger_consume_def split: if_splits)

lemma consume_step:
  assumes "aead_ok C" and "hex_digest P" and "ledger_at P U C st = Some L" and "consumeSerialized P U C r uuid n n' st = Inr (st', d)"
  shows "\<exists>gs s c L'. authorize P U C r st = Inr (gs, s, c) \<and> lg_grants L (co_grant c) = Some s \<and> ledger_consume P s c L = (L', d) \<and>
    ledger_at P U C st' = Some L' \<and> (if co_id c \<in> co_id ` set (lg_uses L) then replays P c (lg_uses L) else orderly P c (lg_uses L))"
proof -
  obtain gs cs where l: "ledger_of P U C st = Inr (gs, cs)" and L: "L = \<lparr>lg_grants = grant_map gs, lg_uses = cs\<rparr>"
    using assms(3) by (auto simp: ledger_at_iff)
  obtain es where es: "readAll P C st = Inr es" using ledger_readable [OF l] by blast
  obtain gs' s c where a: "authorize P U C r st = Inr (gs', s, c)" using assms(4) by (auto simp: consumeSerialized_def)
  note o = consume_outcome [OF assms(2) l a assms(4)] and ok = gate_authorized [OF a assms(2)]
  obtain L' d' where L': "ledger_consume P s c L = (L', d')" by fastforce
  note o' = o [unfolded L' [unfolded L] Let_def prod.case]
  have g: "lg_grants L' = grant_map gs" "d = d'" "gs' = gs"
    using o' ledger_consume_grants [OF L'] by (simp_all only: L ledger.select_convs)
  note k = o' [THEN conjunct2, THEN conjunct2, THEN conjunct1] and u = o' [THEN conjunct2, THEN conjunct2, THEN conjunct2]
  have "ledger_of P U C st' = Inr (gs, lg_uses L')"
  proof (cases "lg_uses L' = cs")
    case True
    from u [unfolded if_P [OF True]] l True show ?thesis by metis
  next
    case False
    from u [unfolded if_not_P [OF False]] obtain ev where ev: "append_event P C st (consumption_input c (''EVT-'' @ co_id c)) uuid n n' = Inr (st', ev)"
      and new: "co_id c \<notin> co_id ` set cs" and cs': "lg_uses L' = cs @ [c]" by blast
    obtain e where e: "readAll P C st' = Inr (es @ [e])" "consumptionFromEvent P U e = Inr c" "is_consumption_event e \<and> \<not> is_grant_event e"
      using consumption_appended [OF assms(1,2) es ev, of U] ok by blast
    have b: "bound_to P U gs c" "orderly P c cs" using ok g(3) k new by simp_all
    show ?thesis unfolding cs'
      by (rule ledger_charge [OF es e(1) l e(2,3) new b])
  qed
  then have "ledger_at P U C st' = Some L'" using g(1) by (simp add: ledger_at_iff)
  moreover have "lg_grants L (co_grant c) = Some s" unfolding L ledger.select_convs grant_map_def using ok g(3) by blast
  ultimately show ?thesis using a L' g(2) k L by fastforce
qed

text \<open>Conversely, the gate answers whenever the ledger does: its own checks of what it records cannot fail.\<close>

lemma consume_total:
  assumes "aead_ok C" and "hex_digest P" and "ledger_of P U C st = Inr (gs, cs)" and "authorize P U C r st = Inr (gs, s, c)"
    and "if co_id c \<in> co_id ` set cs then replays P c cs else orderly P c cs"
    and "co_id c \<in> co_id ` set cs \<or> (''EVT-'' @ co_id c \<notin> er_id ` set (st_events st) \<and>
      er_hash (sealed_row P C st (consumption_input c (''EVT-'' @ co_id c)) uuid n) \<notin> er_hash ` set (st_events st))"
  shows "\<exists>st' d. consumeSerialized P U C r uuid n n' st = Inr (st', d)"
proof -
  have l: "list_grants P C st = Inr gs" "consumptions P U C gs st = Inr cs" using assms(3) by (auto simp: ledger_of_def)
  obtain es where es: "readAll P C st = Inr es" using ledger_readable [OF assms(3)] by blast
  note ok = gate_authorized [OF assms(4,2)]
  have good: "good_consumption P U c" using ok by blast
  show ?thesis
  proof (cases "find (\<lambda>d. co_id d = co_id c) cs")
    case (Some e)
    then have e: "e \<in> set cs" "co_id e = co_id c" using find_Some_mem [OF Some] by auto
    then have "co_id c \<in> co_id ` set cs" by (metis imageI)
    then obtain d where d: "d \<in> set cs" "co_id d = co_id c"
      "stable_stringify (coll_key P) (consumptionReplayBinding d) = stable_stringify (coll_key P) (consumptionReplayBinding c)"
      using assms(5) by (auto simp: replays_def)
    have "distinct (map co_id cs)" using assms(3) unfolding ledger_iff [OF es] by blast
    with d(1,2) e have "d = e" by (auto simp: distinct_map inj_on_def)
    then show ?thesis using d(3) unfolding consumeSerialized_def assms(4) bindE.simps prod.case l(2) Some option.case by simp
  next
    case None
    then have new: "co_id c \<notin> co_id ` set cs" by (simp add: find_id)
    let ?i = "consumption_input c (''EVT-'' @ co_id c)" and ?eid = "''EVT-'' @ co_id c"
    have pat: "consumption_id_pattern (co_id c)" using good by (simp add: good_consumption_def)
    then obtain h where h: "co_id c = ''NAC-'' @ h" "length h = 64" "list_all is_hex h"
      by (auto simp: consumption_id_pattern_def starts_with_iff)
    have hx: "list_all (\<lambda>c. is_alnum c \<or> c \<in> set ''._:-'') h"
      using h(3) by (auto simp: list_all_iff is_hex_def is_alnum_def is_lower_def)
    have i: "identifier_ok ?eid" "identifier_ok (co_id c)"
      using h(2) hx by (simp_all add: identifier_ok_def h(1) is_alnum_def is_digit_def is_lower_def is_upper_def)
    have t: "identifier_ok NETWORK_ACCESS_CONSUMPTION_AGGREGATE_TYPE" "identifier_ok NETWORK_ACCESS_CONSUMPTION_EVENT_TYPE"
      by code_simp+
    have fresh: "?eid \<notin> er_id ` set (st_events st)" "er_hash (sealed_row P C st ?i uuid n) \<notin> er_hash ` set (st_events st)"
      using assms(6) new by blast+
    have "se_id ` set es = er_id ` set (st_events st)"
      using es verify_rows_map [of P C "st_key st" "GENESIS_HASH P" "st_events st" es] unfolding readAll_iff by (metis list.set_map)
    then have "find (\<lambda>e. se_id e = ?eid) es = None" unfolding find_None_none using fresh(1) by (metis imageI)
    then have re: "readEvent P C st ?eid = Inr None" using i(1) es by (simp add: readEvent_def assertIdentifier_def)
    have ord: "orderly P c cs" using assms(5) new by simp
    have "case same_manifest P (co_manifest c) cs of [] \<Rightarrow> True | b # _ \<Rightarrow> co_manifest_hash b = co_manifest_hash c"
      using ord by (auto simp: orderly_def split: list.split)
    moreover have "\<not> co_at c < foldl (\<lambda>latest d. max latest (co_at d)) (-1) (same_manifest P (co_manifest c) cs)"
      using ord good by (auto simp: foldl_max_less orderly_def good_consumption_def not_less)
    moreover obtain st' ev where ap: "append_event P C st ?i uuid n n' = Inr (st', ev)"
      using append_total [OF es, of ?i uuid n n'] i t fresh
      by (auto simp: consumption_input_def row_of_input_def EVENT_SCHEMA_VERSION_def)
    moreover have "consumptionFromEvent P U ev = Inr c"
      using consumption_appended [OF assms(1,2) es ap good] ok by blast
    ultimately have "persist_consumption P U C c ?eid uuid n n' st = Inr (st', allow)"
      by (simp add: persist_consumption_def)
    moreover have "consumptionEventId (co_id c) = Inr ?eid" using pat by simp
    ultimately show ?thesis
      unfolding consumeSerialized_def assms(4) bindE.simps prod.case l(2) None option.case re
      using \<open>case same_manifest P (co_manifest c) cs of [] \<Rightarrow> True | b # _ \<Rightarrow> co_manifest_hash b = co_manifest_hash c\<close>
        \<open>\<not> co_at c < foldl (\<lambda>latest d. max latest (co_at d)) (-1) (same_manifest P (co_manifest c) cs)\<close> re
      by (auto split: list.splits)
  qed
qed

section \<open>Saving a grant\<close>

lemma grant_appended:
  assumes "aead_ok C" and "hex_digest P" and "readAll P C st = Inr es"
    and ap: "append_event P C st (grant_event_input P env eid t) uuid n n' = Inr (st', ev)"
    and env: "canonicalEnvelope P env = Inr env" "sound_json env" "envelope_of P env g"
    and "grantEventId P (ng_id g) = Inr eid" and "\<bar>t\<bar> \<le> max_time"
  shows "\<exists>e r. readAll P C st' = Inr (es @ [e]) \<and> grantRecordFromEvent P e = Inr r \<and> grantRecordFromEvent P ev = Inr r \<and>
    sg_id r = ng_id g \<and> sg_envelope r = env \<and> good_grant P r \<and> is_grant_event e \<and> \<not> is_consumption_event e"
proof -
  define i where "i = grant_event_input P env eid t"
  have i: "ae_payload i = grant_payload P env" "ae_aggregate_type i = NETWORK_ACCESS_GRANT_AGGREGATE_TYPE"
    "ae_type i = NETWORK_ACCESS_GRANT_EVENT_TYPE" "ae_version i = EVENT_SCHEMA_VERSION" "ae_aggregate i = ng_id g"
    "ae_time i = t" "ae_id i = Some eid"
    using envelope_grant [OF env(3)] by (simp_all add: i_def grant_event_input_def grant_payload_def)
  have s: "sound_json (grant_payload P env)" using env(2) by (simp add: grant_payload_def sound_two)
  show ?thesis
  proof (rule store_append_reads [OF assms(1-3) ap [folded i_def]])
    show "sound_json (ae_payload i)" using s i(1) by simp
    fix e assume r: "readAll P C st' = Inr (es @ [e])" and e: "e = ev\<lparr>se_payload := canon (coll_key P) (ae_payload i)\<rparr>"
      and f: "se_payload ev = ae_payload i" "se_aggregate_type e = ae_aggregate_type i" "se_type e = ae_type i"
      "se_version e = ae_version i" "se_aggregate e = ae_aggregate i" "se_time e = to_iso (ae_time i)"
      "\<forall>x. ae_id i = Some x \<longrightarrow> se_id e = x" and q: "sound_json (se_payload e)" "sort_json (se_payload e) = sort_json (ae_payload i)"
    let ?r = "\<lparr>sg_id = ng_id g, sg_digest = text_of env ''grantDigest'', sg_envelope = env,
      sg_hash = hash_json P env, sg_recorded = to_iso t, sg_event = eid, sg_event_hash = se_hash e\<rparr>"
    have d: "se_id e = eid" using f(7) i(7) by blast
    have re: "grantRecordFromEvent P e = Inr ?r"
      by (rule grant_event_read [OF env assms(2,8,9) f(2-5) [unfolded i] d f(6) [unfolded i] q [unfolded i]])
    have h: "se_hash ev = se_hash e" using e by simp
    have "grantRecordFromEvent P ev = Inr ?r" unfolding h [symmetric]
    proof (rule grant_event_read [OF env assms(2,8,9)])
      show "sound_json (se_payload ev)" "sort_json (se_payload ev) = sort_json (grant_payload P env)" using f(1) s i(1) by simp_all
    qed (use e f i d in simp_all)
    moreover have "good_grant P ?r"
      using grantRecordFromEvent_ok [OF re q(1)] by (simp add: good_grant_def)
    ultimately show ?thesis using r re grant_not_consumption [of e] f(2,3) i(2,3)
      by (intro exI [of _ e] exI [of _ ?r]) simp
  qed
qed

lemma save_step:
  assumes "aead_ok C" and "hex_digest P" and "ledger_at P U C st = Some L" and "save_grant P C v now uuid n n' st = Inr (st', g)"
    and "sound_json v"
  shows "(lg_grants L (sg_id g) = Some g \<and> st' = st \<or>
     lg_grants L (sg_id g) = None \<and> ledger_at P U C st' = Some (L\<lparr>lg_grants := (lg_grants L)(sg_id g \<mapsto> g)\<rparr>)) \<and>
     good_grant P g \<and> sg_envelope g = sort_json v"
proof -
  obtain gs cs where l: "ledger_of P U C st = Inr (gs, cs)" and L: "L = \<lparr>lg_grants = grant_map gs, lg_uses = cs\<rparr>"
    using assms(3) by (auto simp: ledger_at_iff)
  obtain es where es: "readAll P C st = Inr es" using ledger_readable [OF l] by blast
  obtain rs where rs: "grants_read P es rs" "distinct (map sg_id rs)" "gs = sort_grants P rs"
    using l unfolding ledger_iff [OF es] by blast
  have rec: "records P C st = Inr rs" using rs(1,2) es by (simp add: records_def grant_records_iff)
  have m: "grant_map gs i = find (\<lambda>r. sg_id r = i) rs" for i using find_grants [OF rs(2)] by (simp add: grant_map_def rs(3))
  obtain env where env: "canonicalEnvelope P v = Inr env" using assms(4) by (auto simp: save_grant_def)
  note ok = canonicalEnvelope_ok [OF env]
  obtain a where a: "envelope_of P env a" using ok by blast
  note eg = envelope_grant [OF a]
  have s: "sound_json env" "sort_json env = env" using ok assms(5) by (simp, auto simp: sound_json_def)
  have again: "canonicalEnvelope P env = Inr env" using canonicalEnvelope_sort [OF assms(5), of env] env ok s(2) by simp
  note gid = eg [THEN conjunct1]
  show ?thesis
  proof (cases "find (\<lambda>r. sg_id r = ng_id a) rs")
    case (Some r)
    note r = find_Some_mem [OF Some, THEN conjunct2] find_Some_mem [OF Some, THEN conjunct1]
    have out: "st' = st" "g = r" and eq: "stable_stringify (coll_key P) (sg_envelope r) = stable_stringify (coll_key P) env"
      using assms(4) unfolding save_grant_def env bindE.simps rec gid Some option.case by (auto split: if_splits)
    have "list_all (good_grant P) rs" using readAll_sound [OF es] by (intro grants_good [OF rs(1)]) (auto simp: list_all_iff)
    then have good: "good_grant P r" using r(2) by (simp add: list_all_iff)
    then have "sort_json (sg_envelope r) = sort_json env" by (intro stringify_sorted [OF eq _ s(1)]) (simp add: good_grant_def)
    then have "sg_envelope r = sort_json v" using good s(2) ok by (simp add: good_grant_def)
    moreover have "lg_grants L (sg_id g) = Some g" unfolding L ledger.select_convs m out(2) r(1) by (rule Some)
    ultimately show ?thesis using out good by blast
  next
    case None
    obtain eid ev where eid: "grantEventId P (ng_id a) = Inr eid" and now: "\<bar>now\<bar> \<le> max_time"
      and ap: "append_event P C st (grant_event_input P env eid now) uuid n n' = Inr (st', ev)" and ge: "grantRecordFromEvent P ev = Inr g"
      using assms(4) unfolding save_grant_def env bindE.simps rec gid None option.case by (auto split: if_splits)
    obtain e where e: "readAll P C st' = Inr (es @ [e])" "grantRecordFromEvent P e = Inr g" "sg_id g = ng_id a" "sg_envelope g = env"
        "good_grant P g" "is_grant_event e \<and> \<not> is_consumption_event e"
      using grant_appended [OF assms(1,2) es ap again s(1) a eid now] ge by auto
    have n: "grant_map gs (sg_id g) = None" unfolding m e(3) by (rule None)
    obtain gs' where gs': "ledger_of P U C st' = Inr (gs', cs)" "grant_map gs' = (grant_map gs)(sg_id g \<mapsto> g)"
      using ledger_record [OF es e(1) l e(2,6) n] by blast
    then have "ledger_at P U C st' = Some (L\<lparr>lg_grants := (lg_grants L)(sg_id g \<mapsto> g)\<rparr>)"
      by (simp add: ledger_at_def L)
    then show ?thesis using n e(4,5) ok by (simp add: L)
  qed
qed

section \<open>Steps of a store\<close>

inductive gate_step :: "platform \<Rightarrow> url_platform \<Rightarrow> crypto \<Rightarrow> store \<Rightarrow> store \<Rightarrow> bool" for P :: platform and U :: url_platform and C :: crypto where
  g_save: "save_grant P C v now uuid n n' st = Inr (st', g) \<Longrightarrow> sound_json v \<Longrightarrow> gate_step P U C st st'"
| g_consume: "consumeSerialized P U C r uuid n n' st = Inr (st', d) \<Longrightarrow> gate_step P U C st st'"
| g_other: "append_event P C st i uuid n n' = Inr (st', ev) \<Longrightarrow> sound_json (ae_payload i) \<Longrightarrow> \<not> is_grant_event ev \<Longrightarrow>
    \<not> is_consumption_event ev \<Longrightarrow> gate_step P U C st st'"
| g_keep: "store_step P C st st' \<Longrightarrow> st_events st' = st_events st \<Longrightarrow> gate_step P U C st st'"

inductive_cases gate_stepE: "gate_step P U C st st'"

lemma gate_simulates:
  assumes "aead_ok C" and "hex_digest P" and "ledger_at P U C st = Some L" and "gate_step P U C st st'"
  shows "\<exists>L'. ledger_at P U C st' = Some L' \<and> ledger_step P U L L'"
  using assms(4)
proof cases
  case (g_save v now uuid n n' g)
  from save_step [OF assms(1-3) this] assms(3) show ?thesis by (auto intro: ledger_step.intros)
next
  case (g_consume r uuid n n' d)
  from consume_step [OF assms(1-3) this] obtain gs s c L' where a: "authorize P U C r st = Inr (gs, s, c)"
    and c: "lg_grants L (co_grant c) = Some s" "ledger_consume P s c L = (L', d)" "ledger_at P U C st' = Some L'"
    and k: "if co_id c \<in> co_id ` set (lg_uses L) then replays P c (lg_uses L) else orderly P c (lg_uses L)" by blast
  have "co_id c \<in> co_id ` set (lg_uses L) \<or> orderly P c (lg_uses L)" using k by argo
  moreover have "co_digest c = sg_digest s" "good_consumption P U c" using gate_authorized [OF a assms(2)] by blast+
  ultimately show ?thesis using c l_consume by metis
next
  case (g_other i uuid n n' ev)
  obtain gs cs where l: "ledger_of P U C st = Inr (gs, cs)" using assms(3) by (auto simp: ledger_at_iff)
  obtain es where es: "readAll P C st = Inr es" using ledger_readable [OF l] by blast
  show ?thesis
  proof (rule store_append_reads [OF assms(1,2) es g_other(1,2)])
    fix e assume r: "readAll P C st' = Inr (es @ [e])" and e: "e = ev\<lparr>se_payload := canon (coll_key P) (ae_payload i)\<rparr>"
    have "\<not> is_grant_event e" "\<not> is_consumption_event e" using g_other(3,4) e by (simp_all add: is_grant_event_def is_consumption_event_def)
    then have "ledger_of P U C st' = ledger_of P U C st" by (rule ledger_foreign [OF es r])
    then show ?thesis using assms(3) l_stay by (auto simp: ledger_at_def)
  qed
next
  case g_keep
  then have "ledger_of P U C st' = ledger_of P U C st" by (intro ledger_same keep_reads)
  then show ?thesis using assms(3) l_stay by (auto simp: ledger_at_def)
qed

end
