(* ===== verification/GrantTotal.thy ===== *)
theory GrantTotal
  imports GrantGate
begin

text \<open>
  Requests that the repository and the gate accept: a grant signed by the operator is stored, and a request that is
  valid under its manifest is authorised. A sample store carries one grant and one consumption.
\<close>

section \<open>Requests that are accepted\<close>

lemma grant_flat: "flat (grant_json g)"
proof -
  have "distinct (map fst [(''grantId'', JStr (ng_id g)), (''subject'', JStr (ng_subject g)), (''purpose'', JStr (ng_purpose g)),
     (''providerId'', JStr (ng_provider g)), (''manifestId'', JStr (ng_manifest g)), (''manifestVersion'', JStr (ng_version g)),
     (''issuedAt'', JStr (ng_issued g)), (''expiresAt'', JStr (ng_expires g)), (''allowedHosts'', jstrs (ng_hosts g)),
     (''allowedMethods'', jstrs (ng_methods g)), (''requestBudget'', JNum (ng_budget g))])" by simp
  then show ?thesis using grant_json_sound [of g] unfolding grant_json_def by (simp add: flat_obj)
qed

lemma parse_grant_sorted: "parseGrant host (sort_json (grant_json g)) = parseGrant host (grant_json g)"
proof -
  have "hasExactDataKeys (sort_json (grant_json g)) GRANT_KEYS = hasExactDataKeys (grant_json g) GRANT_KEYS"
    by (simp add: hasExactDataKeys_def grant_json_def list_all_iff GRANT_KEYS_def)
  then show ?thesis unfolding parseGrant_def flat_member [OF grant_flat] by simp
qed

lemma validate_grant_sorted: "validateNetworkAccessGrant U host (sort_json (grant_json g)) m t = [] \<longleftrightarrow>
    validateNetworkAccessGrant U host (grant_json g) m t = []"
proof -
  have r: "isRecord (grant_json g) = True" by (simp add: grant_json_def)
  have w: "window_errors host (sort_json (grant_json g)) m t = window_errors host (grant_json g) m t"
    unfolding window_errors_def flat_member [OF grant_flat] ..
  show ?thesis
  proof (cases "validateEgressManifest U (manifest_json m) = []")
    case True
    have s: "isRecord (sort_json (grant_json g)) = True" unfolding record_sort by (rule r)
    show ?thesis unfolding validateNetworkAccessGrant_def True r s w flat_member [OF grant_flat] Let_def split_def
        simp_thms if_False append_is_Nil_conv reject_sort ..
  qed (simp add: validateNetworkAccessGrant_def)
qed

lemma signature_iff: "assertCanonicalSignature s = Inr u \<longleftrightarrow> canonicalEd25519Signature s"
  by (auto simp: assertCanonicalSignature_def canonicalEd25519Signature_def)

lemma digest_sorted: "computeNetworkAccessGrantDigest P (sort_json (grant_json g)) who key alg = computeNetworkAccessGrantDigest P (grant_json g) who key alg"
  by (simp add: computeNetworkAccessGrantDigest_def canonicalNetworkAccessGrantPayload_def parse_grant_sorted del: sort_json.simps)

lemma envelope_members:
  "member (envelope_json e) ''grant'' = grant_json (ne_grant e)" "member (envelope_json e) ''approvedBy'' = JStr (ne_by e)"
  "member (envelope_json e) ''keyId'' = JStr (ne_key e)" "member (envelope_json e) ''signatureAlgorithm'' = JStr (ne_algorithm e)"
  "member (envelope_json e) ''grantDigest'' = JStr (ne_digest e)" "member (envelope_json e) ''signature'' = JStr (ne_signature e)"
  by (simp_all add: member_def envelope_json_def)

lemma envelope_sound: "sound_json (envelope_json e)"
  using grant_json_sound [of "ne_grant e"] by (simp add: envelope_json_def sound_json_def)

lemma envelope_clonable: "grant_fields host (ne_grant e) \<Longrightarrow> clonable (envelope_json e)"
proof -
  assume "grant_fields host (ne_grant e)"
  then have "length (ng_hosts (ne_grant e)) \<le> 128" "length (ng_methods (ne_grant e)) \<le> 2"
    unfolding grant_fields_def strings_ok_def by blast+
  then have "nodes (envelope_json e) \<le> 10000" by (simp add: envelope_json_def grant_json_def nodes_lists)
  moreover have "nested (Suc (Suc (Suc 0))) (envelope_json e)" by (simp add: envelope_json_def grant_json_def jstrs_def)
  from nested_mono [OF this, of 29] have "nested 32 (envelope_json e)" by simp
  ultimately show ?thesis using envelope_sound [of e] by (simp add: clonable_def sound_json_def)
qed

lemma created_envelope_canonical:
  assumes "createSignedNetworkAccessGrant P K j who key pem = Inr e" and "hex_digest P" and "canonicalEd25519Signature (ne_signature e)"
  shows "canonicalEnvelope P (envelope_json e) = Inr (sort_json (envelope_json e))"
proof -
  note e = created_envelope [OF assms(1)]
  have f: "grant_fields (host_date P) (ne_grant e)" using e parseGrant_sound by blast
  have "computeNetworkAccessGrantDigest P (sort_json (grant_json (ne_grant e))) (ne_by e) (ne_key e) ED25519 = Inr (ne_digest e)"
    unfolding digest_sorted using e payload_of_envelope [OF f] by (simp add: computeNetworkAccessGrantDigest_def payload_text_of_def)
  moreover have "hasExactKeys (sort_json (envelope_json e)) ENVELOPE_KEYS"
    unfolding exact_keys_sort by (simp add: hasExactKeys_def envelope_json_def ENVELOPE_KEYS_def)
  moreover have "sha256_digest_pattern (ne_digest e)" using e sha256_digest [OF assms(2)] by simp
  moreover have "canonicalJsonClone ''Signed network access grant envelope'' (envelope_json e) = Inr (sort_json (envelope_json e))"
    unfolding clone_iff using envelope_clonable [OF f] by simp
  moreover have "assertCanonicalSignature (ne_signature e) = Inr ()" unfolding signature_iff by (rule assms(3))
  ultimately show ?thesis using e
    by (simp add: canonicalEnvelope_def member_sound [OF envelope_sound] envelope_members text_of_def str_ok_def del: sort_json.simps(2))
qed

lemma authorize_total:
  assumes "hex_digest P" and "list_grants P C st = Inr gs" and "find (\<lambda>s. sg_id s = ng_id (gr_grant r)) gs = Some s"
    and "member (sg_envelope s) ''grant'' = sort_json (grant_json (gr_grant r))" and "sha256_digest_pattern (sg_digest s)"
    and "gq_request r = Some q" and "gq_attempt r = Some n" and "gq_digest r = None" and "gq_id r = None"
    and "authority_request_id_pattern q" and "0 \<le> n" and "n \<le> MAX_SAFE" and "0 \<le> gr_at r" and "gr_at r \<le> max_time"
    and "grant_ok U (host_date P) (gr_grant r) (gr_manifest r) (gr_at r)"
  shows "\<exists>c. authorize P U C r st = Inr (gs, s, c)"
proof -
  let ?m = "manifest_json (gr_manifest r)" and ?g = "grant_json (gr_grant r)"
  have ok: "manifest_ok U (gr_manifest r)" using assms(15) by (simp add: grant_ok_def)
  have f: "grant_fields (host_date P) (gr_grant r)" by (rule grant_ok_fields [OF assms(15)])
  have "nested 32 ?m" using nested_mono [OF manifest_nested, of 4] by simp
  then have cm: "clonable ?m" using manifest_nodes [OF ok] manifest_sound [of "gr_manifest r"] by (simp add: clonable_def sound_json_def)
  have "length (ng_hosts (gr_grant r)) \<le> 128" "length (ng_methods (gr_grant r)) \<le> 2"
    using f unfolding grant_fields_def strings_ok_def by blast+
  then have "nodes ?g \<le> 10000" by (simp add: grant_json_def nodes_lists)
  moreover have "nested (Suc (Suc 0)) ?g" by (simp add: grant_json_def jstrs_def)
  from nested_mono [OF this, of 30] have "nested 32 ?g" by simp
  ultimately have cg: "clonable ?g" using grant_json_sound [of "gr_grant r"] by (simp add: clonable_def sound_json_def)
  have vm: "assertValidEgressManifest U (sort_json ?m) = Inr ()" using validate_sorted ok by (simp add: assertValidEgressManifest_def Let_def)
  have "validateNetworkAccessGrant U (host_date P) ?g (gr_manifest r) (Some (gr_at r)) = []" using validateNetworkAccessGrant_ok assms(15) by blast
  then have vg: "assertGrantManifestBinding P U (sort_json ?g) (sort_json ?m) (gr_at r) l = Inr ()" for l
    unfolding binding_iff manifest_view_sorted validate_grant_sorted .
  have id: "grant_id_pattern (ng_id (gr_grant r))" using f by (simp add: grant_fields_def)
  have "max_time \<le> MAX_SAFE" by (simp add: max_time_def MAX_SAFE_def)
  then show ?thesis using assms(2-14) cm cg vm vg id
    by (simp add: authorize_def clone_iff [THEN iffD2] grant_text computeNetworkAccessConsumptionId_def assertAuthorityRequestId_def
      assertAttemptIndex_def assertConsumedAt_def assertGrantId_def del: sort_json.simps)
qed

lemma grant_id_split: "grant_id_pattern s \<Longrightarrow> \<exists>r. s = CHR ''N'' # r \<and> list_all (\<lambda>c. is_alnum c \<or> c \<in> set ''._:-'') r"
proof -
  assume "grant_id_pattern s"
  then obtain c r where "s = ''NAG-'' @ c # r" "is_upper_slug c" "list_all (\<lambda>c. is_upper_slug c \<or> c = CHR ''-'') r"
    unfolding grant_id_pattern_def Let_def starts_with_iff by (auto simp: neq_Nil_conv)
  moreover have "is_alnum c" if "is_upper_slug c" for c using that by (auto simp: is_upper_slug_def is_alnum_def)
  ultimately show ?thesis by (auto simp: list_all_iff is_alnum_def is_upper_def)
qed

text \<open>An identifier the grant pattern allows can be too long for the store.\<close>

lemma long_grant_id_unsaved:
  assumes "canonicalEnvelope P v = Inr env" and "envelope_of P env a" and "128 < length (ng_id a)" and "sound_json v"
    and "records P C st = Inr rs" and "find (\<lambda>r. sg_id r = ng_id a) rs = None"
  shows "\<exists>e. save_grant P C v now uuid n n' st = Inl e"
proof -
  note gid = envelope_grant [OF assms(2), THEN conjunct1]
  have "\<not> identifier_ok (ng_id a)" using assms(3) by (auto simp: identifier_ok_def)
  then have "append_event P C st (grant_event_input P env eid now) uuid n n' \<noteq> Inr x" for eid x
    unfolding append_event_def bindE_Inr_iff by (simp add: grant_event_input_def gid assertIdentifier_def)
  then have "save_grant P C v now uuid n n' st \<noteq> Inr x" for x
    unfolding save_grant_def assms(1) bindE.simps assms(5) gid assms(6) option.case by (auto split: if_splits)
  then show ?thesis by (cases "save_grant P C v now uuid n n' st") auto
qed

lemma save_total:
  assumes "readAll P C st = Inr es" and "ledger_of P U C st = Inr (gs, cs)" and "aead_ok C" and "hex_digest P"
    and env: "canonicalEnvelope P v = Inr env" "sound_json v" "envelope_of P env a" and "grant_map gs (ng_id a) = None" and "\<bar>now\<bar> \<le> max_time"
    and "length (ng_id a) \<le> 128"
    and fresh: "\<forall>eid. grantEventId P (ng_id a) = Inr eid \<longrightarrow> eid \<notin> er_id ` set (st_events st) \<and>
      er_hash (sealed_row P C st (grant_event_input P env eid now) uuid n) \<notin> er_hash ` set (st_events st)"
  shows "\<exists>st' g. save_grant P C v now uuid n n' st = Inr (st', g)"
proof -
  obtain rs where rs: "grants_read P es rs" "distinct (map sg_id rs)" "gs = sort_grants P rs"
    using assms(2) unfolding ledger_iff [OF assms(1)] by blast
  have rec: "records P C st = Inr rs" using rs(1,2) assms(1) by (simp add: records_def grant_records_iff)
  have none: "find (\<lambda>r. sg_id r = ng_id a) rs = None" using assms(8) find_grants [OF rs(2)] by (simp add: grant_map_def rs(3))
  note eg = envelope_grant [OF env(3)]
  note gid = eg [THEN conjunct1]
  note ok = canonicalEnvelope_ok [OF env(1)]
  have s: "sound_json env" "sort_json env = env" using ok env(2) by (simp, auto simp: sound_json_def)
  have again: "canonicalEnvelope P env = Inr env" using canonicalEnvelope_sort [OF env(2), of env] env(1) ok s(2) by simp
  have pat: "grant_id_pattern (ng_id a)" using eg by (simp add: grant_fields_def)
  define h where "h = hash_json P (JObj [(''grantId'', JStr (ng_id a))])"
  define eid where "eid = ''EVT-NAG-'' @ drop 7 h"
  have eid: "grantEventId P (ng_id a) = Inr eid" using pat by (simp add: grantEventId_def assertGrantId_def eid_def h_def)
  have h: "length (drop 7 h) = 64" "list_all is_hex (drop 7 h)"
    using assms(4) by (simp_all add: h_def sha256_def hex_digest_def)
  have hx: "list_all (\<lambda>c. is_alnum c \<or> c \<in> set ''._:-'') (drop 7 h)"
    using h(2) by (auto simp: list_all_iff is_hex_def is_alnum_def is_lower_def)
  have i: "identifier_ok eid" "identifier_ok NETWORK_ACCESS_GRANT_AGGREGATE_TYPE" "identifier_ok NETWORK_ACCESS_GRANT_EVENT_TYPE"
    using h(1) hx by (simp_all add: identifier_ok_def eid_def is_alnum_def is_digit_def is_lower_def is_upper_def
      NETWORK_ACCESS_GRANT_AGGREGATE_TYPE_def NETWORK_ACCESS_GRANT_EVENT_TYPE_def)
  have j: "identifier_ok (ng_id a)"
    using assms(10) grant_id_split [OF pat] by (auto simp: identifier_ok_def is_alnum_def is_digit_def is_upper_def)
  have f: "eid \<notin> er_id ` set (st_events st)" using fresh eid by blast
  have "se_id ` set es = er_id ` set (st_events st)"
    using assms(1) verify_rows_map [of P C "st_key st" "GENESIS_HASH P" "st_events st" es] unfolding readAll_iff by (metis list.set_map)
  then have "find (\<lambda>e. se_id e = eid) es = None" unfolding find_None_none using f by (metis imageI)
  then have re: "readEvent P C st eid = Inr None" using i(1) assms(1) by (simp add: readEvent_def assertIdentifier_def)
  obtain st' ev where ap: "append_event P C st (grant_event_input P env eid now) uuid n n' = Inr (st', ev)"
    using append_total [OF assms(1), of "grant_event_input P env eid now" uuid n n'] i j f fresh eid gid
    by (auto simp: grant_event_input_def row_of_input_def EVENT_SCHEMA_VERSION_def)
  obtain r where "grantRecordFromEvent P ev = Inr r"
    using grant_appended [OF assms(3,4,1) ap again s(1) env(3) eid assms(9)] by blast
  then show ?thesis using assms(9) unfolding save_grant_def env(1) bindE.simps rec gid none option.case eid re ap prod.case by simp
qed

section \<open>A nonce that keeps digests apart\<close>

lemma joins_length: "xs \<noteq> [] \<Longrightarrow> length (joins sep xs) = sum_list (map length xs) + length sep * (length xs - 1)"
  by (induction sep xs rule: joins.induct) auto

lemma object_length:
  assumes "list_all (\<lambda>(k, v). v \<noteq> JUndef) es" and "es \<noteq> []"
  shows "length (stable_stringify ck (JObj es)) =
    Suc (length es) + sum_list (map (\<lambda>(k, v). length (json_str k) + 1 + length (stable_stringify ck v)) es)"
proof -
  have f: "filter (\<lambda>e. snd e \<noteq> JUndef) es = es" using assms(1) by (auto simp: list_all_iff filter_id_conv)
  have l: "length (live_entries ck es) = length es" "live_entries ck es \<noteq> []" using assms(2) unfolding live_entries_def f by simp_all
  have s: "sum_list (map g (live_entries ck es)) = sum_list (map g es)" for g :: "string \<times> json \<Rightarrow> nat"
    unfolding live_entries_def f by (rule sum_list_sort_key)
  show ?thesis using assms(2) l
    by (simp add: joins_length comp_def split_def s [unfolded comp_def] flip: sum_list_addf)
qed

definition sealed_text :: "store \<Rightarrow> append_input \<Rightarrow> string \<Rightarrow> string \<Rightarrow> string" where
  "sealed_text st i uuid n = stable_stringify (coll_key sample_signing) (JObj (row_members (sealed_row sample_signing sample_crypto st i uuid n)))"

lemma sample_seal: "er_hash (sealed_row sample_signing sample_crypto st i uuid n) = ''sha256:'' @ pad 64 (length (sealed_text st i uuid n) mod 10 ^ 64)"
proof -
  have "er_hash (sealed_row P C st i uuid n) = hash_json P (JObj (row_members (sealed_row P C st i uuid n)))" for P C
    by (simp add: sealed_row_def Let_def computeEventHash_def row_members_def)
  then show ?thesis by (simp add: sha256_def sealed_text_def) (simp add: sample_signing_def)
qed

lemma sealed_text_length: "length (sealed_text st i uuid ''a'') = length (sealed_text st i uuid []) + 2"
proof -
  define q where "q s = length (json_str s)" for s
  have j: "q (s @ ''a'' @ t) = Suc (q (s @ [] @ t))" "q ''a'' = Suc (q [])" for s t by (simp_all add: q_def json_str_def esc_char_def)
  let ?r0 = "row_of_input i uuid"
  have r: "er_nonce (sealed_row sample_signing sample_crypto st i uuid n) = n" "er_tag (sealed_row sample_signing sample_crypto st i uuid n) = st_key st @ n @ eventAad sample_signing ?r0"
    "er_cipher (sealed_row sample_signing sample_crypto st i uuid n) = stable_stringify (coll_key sample_signing) (ae_payload i)" "er_id (sealed_row sample_signing sample_crypto st i uuid n) = er_id ?r0" "er_aggregate_type (sealed_row sample_signing sample_crypto st i uuid n) = er_aggregate_type ?r0" "er_aggregate (sealed_row sample_signing sample_crypto st i uuid n) = er_aggregate ?r0"
    "er_type (sealed_row sample_signing sample_crypto st i uuid n) = er_type ?r0" "er_version (sealed_row sample_signing sample_crypto st i uuid n) = er_version ?r0" "er_time (sealed_row sample_signing sample_crypto st i uuid n) = er_time ?r0" "er_previous (sealed_row sample_signing sample_crypto st i uuid n) = last_hash sample_signing (st_events st)" for n
    by (simp_all add: sealed_row_def Let_def encrypt_def sample_crypto_def)
  have l: "list_all (\<lambda>(k, v). v \<noteq> JUndef) (row_members x)" "row_members x \<noteq> []" for x by (simp_all add: row_members_def)
  show ?thesis
    unfolding sealed_text_def object_length [OF l] unfolding row_members_def list.map sum_list.Cons sum_list.Nil prod.case
      stable_stringify.simps(4,5) q_def [symmetric] r j list.size by presburger
qed

lemma sample_hashes_differ: "er_hash (sealed_row sample_signing sample_crypto st i uuid []) \<noteq> er_hash (sealed_row sample_signing sample_crypto st i uuid ''a'')"
proof -
  define k where "k = length (sealed_text st i uuid [])"
  have "\<not> (10 :: nat) ^ 64 dvd 2" by (simp add: nat_dvd_not_less)
  then have "(k + 2) mod 10 ^ 64 \<noteq> k mod 10 ^ 64" using mod_eq_dvd_iff_nat [of k "k + 2" "10 ^ 64"] by simp
  then have "pad 64 ((k + 2) mod 10 ^ 64) \<noteq> pad 64 (k mod 10 ^ 64)" by (metis digits_val_pad)
  then show ?thesis unfolding sample_seal sealed_text_length k_def [symmetric] by simp
qed

lemma created_ledger:
  assumes "aead_ok C" and "hex_digest P" and "salt \<noteq> []" and "create_store P C ms pass salt n1 n2 uuid = Inr st"
  shows "ledger_at P U C st = Some \<lparr>lg_grants = Map.empty, lg_uses = []\<rparr>"
proof -
  note r = created_reads [OF assms]
  have "ledger_of P U C st = Inr ([], [])" unfolding ledger_iff [OF r] by (simp add: sort_grants_def one_hash_def)
  then show ?thesis by (simp add: ledger_at_def grant_map_def fun_eq_iff)
qed

lemma save_grows:
  assumes "save_grant P C v now uuid n n' st = Inr (st', g)"
  shows "\<exists>rs. st_events st' = st_events st @ rs \<and> length rs \<le> 1 \<and> (\<forall>r \<in> set rs. starts_with ''EVT-NAG-'' (er_id r))"
proof -
  from assms obtain env rs where rs: "(case find (\<lambda>r. sg_id r = text_of (member env ''grant'') ''grantId'') rs of
       Some r \<Rightarrow> if stable_stringify (coll_key P) (sg_envelope r) \<noteq> stable_stringify (coll_key P) env
         then throw ''Network access grant id was reused with a different digest or envelope'' else Inr (st, r)
     | None \<Rightarrow> bindE (grantEventId P (text_of (member env ''grant'') ''grantId'')) (\<lambda>eid.
         bindE (readEvent P C st eid) (\<lambda>e.
         if e \<noteq> None then throw ''Network access grant deterministic event id is already bound to another event''
         else bindE (append_event P C st (grant_event_input P env eid now) uuid n n') (\<lambda>(st', ev).
           bindE (grantRecordFromEvent P ev) (\<lambda>r. Inr (st', r)))))) = Inr (st', g)"
    unfolding save_grant_def bindE_Inr_iff if_Inl_Inr by blast
  show ?thesis
  proof (cases "find (\<lambda>r. sg_id r = text_of (member env ''grant'') ''grantId'') rs")
    case None
    with rs obtain eid ev where ap: "append_event P C st (grant_event_input P env eid now) uuid n n' = Inr (st', ev)"
      and id: "grantEventId P (text_of (member env ''grant'') ''grantId'') = Inr eid"
      unfolding bindE_Inr_iff if_Inl_Inr None option.case by auto
    let ?row = "sealed_row P C st (grant_event_input P env eid now) uuid n"
    have "st_events st' = st_events st @ [?row]" using append_event_ok [OF ap, THEN conjunct1] by simp
    moreover have "er_id ?row = eid" by (simp add: sealed_row_def Let_def row_of_input_def grant_event_input_def)
    moreover have "starts_with ''EVT-NAG-'' eid" using id by (auto simp: grantEventId_def starts_with_iff)
    ultimately show ?thesis by simp
  next
    case (Some r)
    show ?thesis using rs unfolding Some option.case if_Inl_Inr by simp
  qed
qed

section \<open>A sample run\<close>

definition sample_request :: grant_request where
  "sample_request = \<lparr>gr_manifest = sample_manifest, gr_grant = sample_network_grant, gr_at = 5, gq_request = Some ''REQ-12345678'',
     gq_attempt = Some 0, gq_digest = None, gq_id = None\<rparr>"

lemma sample_host: "host_date sample_signing = (\<lambda>_. None)"
  by (simp add: sample_signing_def sample_platform_def)

lemma sample_saved:
  "\<exists>st0 e st g. create_store sample_signing sample_crypto [1] ''correct horse'' '' salt'' ''n1'' ''n2'' ''u'' = Inr st0 \<and>
     save_grant sample_signing sample_crypto (envelope_json e) 0 [] [] [] st0 = Inr (st, g) \<and>
     sg_id g = ''NAG-12345678'' \<and> length (st_events st) \<le> 1 \<and> (\<forall>r \<in> set (st_events st). starts_with ''EVT-NAG-'' (er_id r)) \<and> good_grant sample_signing g \<and>
     member (sg_envelope g) ''grant'' = sort_json (grant_json sample_network_grant) \<and> budget_of g = 2 \<and>
     ledger_at sample_signing sample_urls sample_crypto st = Some \<lparr>lg_grants = [''NAG-12345678'' \<mapsto> g], lg_uses = []\<rparr> \<and>
     gate_step sample_signing sample_urls sample_crypto st0 st"
proof -
  let ?P = sample_signing and ?C = sample_crypto
  obtain st0 where st0: "create_store ?P ?C [1] ''correct horse'' '' salt'' ''n1'' ''n2'' ''u'' = Inr st0" "st_events st0 = []"
    by (auto simp: create_store_def deriveKey_def)
  have salt: "'' salt'' \<noteq> []" by simp
  note c = created_ledger [OF sample_aead sample_signing_digest salt st0(1)]
  obtain e where e: "createSignedNetworkAccessGrant ?P sample_keys (grant_json sample_network_grant) ''operator'' ''KEY-12345678'' ''key'' = Inr e"
    using sample_grant_signed by blast
  note ce = created_envelope [OF e]
  have "grant_fields (host_date ?P) sample_network_grant" unfolding sample_host by (rule grant_ok_fields [OF sample_grant_ok])
  then have g: "ne_grant e = sample_network_grant" using ce by (simp add: parseGrant_json)
  have "canonicalEd25519Signature (ne_signature e)" using ce sample_signature by (simp add: sample_signing_def)
  note env = created_envelope_canonical [OF e sample_signing_digest this]
  obtain a where a: "envelope_of ?P (sort_json (envelope_json e)) a" using canonicalEnvelope_ok [OF env] by blast
  have m: "member (sort_json (envelope_json e)) ''grant'' = sort_json (grant_json sample_network_grant)"
    by (simp add: member_sound [OF envelope_sound] envelope_members g del: sort_json.simps)
  have "parseGrant (host_date ?P) (sort_json (grant_json sample_network_grant)) = Some a" using a unfolding envelope_of_def m by blast
  then have "a = sample_network_grant" using ce g unfolding parse_grant_sorted by (simp add: parseGrant_json split: if_splits)
  then have id: "ng_id a = ''NAG-12345678''" by (simp add: sample_network_grant_def)
  note r = created_reads [OF sample_aead sample_signing_digest salt st0(1)]
  have l: "ledger_of ?P sample_urls ?C st0 = Inr ([], [])" unfolding ledger_iff [OF r] by (simp add: sort_grants_def one_hash_def)
  obtain st g where s: "save_grant ?P ?C (envelope_json e) 0 [] [] [] st0 = Inr (st, g)"
    using save_total [OF r l sample_aead sample_signing_digest env envelope_sound a, of 0 "[]" "[]" "[]"] st0(2) id
    by (auto simp: grant_map_def max_time_def)
  note sv = save_step [OF sample_aead sample_signing_digest c s envelope_sound, of sample_urls]
  have good: "good_grant ?P g" "sg_envelope g = sort_json (envelope_json e)" using sv by blast+
  obtain b where b: "envelope_of ?P (sg_envelope g) b" "sg_id g = ng_id b" using good(1) by (auto simp: good_grant_def)
  have "b = a" using a b(1) unfolding good(2) by (simp add: envelope_of_def)
  then have sid: "sg_id g = ''NAG-12345678''" using b(2) id by simp
  have L: "ledger_at ?P sample_urls ?C st = Some \<lparr>lg_grants = [''NAG-12345678'' \<mapsto> g], lg_uses = []\<rparr>" using sv sid by simp
  have mg: "member (sg_envelope g) ''grant'' = sort_json (grant_json sample_network_grant)" unfolding good(2) by (rule m)
  have "budget_of g = 2" using grant_budget [OF mg] by (simp add: sample_network_grant_def)
  moreover have "length (st_events st) \<le> 1" "\<forall>r \<in> set (st_events st). starts_with ''EVT-NAG-'' (er_id r)" using save_grows [OF s] st0(2) by auto
  ultimately show ?thesis using st0(1) s sid good(1) mg L g_save [OF s envelope_sound] by blast
qed

end
