(* ===== verification/GrantProps.thy ===== *)
theory GrantProps
  imports GrantTotal
begin

text \<open>
  What the persistent gate and the repository promise over any sequence of operations on a store, and over restarts: budgets and
  windows are kept, a replayed request costs nothing, and a recorded grant never changes.
\<close>

section \<open>The invariant of the ledger\<close>

text \<open>Every consumption was orderly and within its window when it was recorded.\<close>

definition recorded_orderly :: "platform \<Rightarrow> consumption list \<Rightarrow> bool" where
  "recorded_orderly P cs = (\<forall>xs c ys. cs = xs @ c # ys \<longrightarrow> orderly P c xs \<and> int (length (active_times P c (xs @ [c]))) \<le> max_of c)"

definition spent_on :: "string \<Rightarrow> consumption list \<Rightarrow> int" where
  "spent_on i cs = int (length (filter (\<lambda>c. co_grant c = i) cs))"

definition ledger_inv :: "platform \<Rightarrow> url_platform \<Rightarrow> ledger \<Rightarrow> bool" where
  "ledger_inv P U L = (
     (\<forall>i g. lg_grants L i = Some g \<longrightarrow> sg_id g = i \<and> good_grant P g \<and> spent_on i (lg_uses L) \<le> budget_of g) \<and>
     (\<forall>c \<in> set (lg_uses L). good_consumption P U c \<and> (\<exists>g. lg_grants L (co_grant c) = Some g \<and> sg_digest g = co_digest c)) \<and>
     distinct (map co_id (lg_uses L)) \<and> recorded_orderly P (lg_uses L))"

lemma recorded_snoc: "recorded_orderly P cs \<Longrightarrow> orderly P c cs \<Longrightarrow> int (length (active_times P c (cs @ [c]))) \<le> max_of c \<Longrightarrow>
    recorded_orderly P (cs @ [c])"
  unfolding recorded_orderly_def
proof (intro allI impI)
  fix xs d ys
  assume r: "\<forall>xs c ys. cs = xs @ c # ys \<longrightarrow> orderly P c xs \<and> int (length (active_times P c (xs @ [c]))) \<le> max_of c"
    and c: "orderly P c cs" "int (length (active_times P c (cs @ [c]))) \<le> max_of c" and e: "cs @ [c] = xs @ d # ys"
  show "orderly P d xs \<and> int (length (active_times P d (xs @ [d]))) \<le> max_of d"
  proof (cases ys rule: rev_cases)
    case Nil
    then show ?thesis using e c by simp
  next
    case (snoc zs z)
    then have "cs = xs @ d # zs" using e by simp
    then show ?thesis using r by blast
  qed
qed

lemma active_snoc: "int (length (active_times P c (cs @ [c]))) \<le> int (length (active_times P c cs)) + 1"
  by (simp add: active_times_def same_manifest_def)

lemma good_grant_budget: "good_grant P g \<Longrightarrow> 1 \<le> budget_of g"
proof -
  assume "good_grant P g"
  then obtain a where "envelope_of P (sg_envelope g) a" by (auto simp: good_grant_def)
  then show ?thesis using envelope_grant [of P "sg_envelope g" a] by (auto simp: budget_of_def grant_fields_def bounded_def)
qed

lemma spent_le_charged:
  assumes "\<forall>c \<in> set cs. co_grant c = i \<longrightarrow> co_digest c = d"
  shows "spent_on i cs \<le> charged_to d cs"
  using assms by (induction cs) (auto simp: spent_on_def charged_to_def)

lemma ledger_step_inv:
  assumes "ledger_step P U L L'" and "ledger_inv P U L"
  shows "ledger_inv P U L'"
  using assms(1)
proof cases
  case (l_grant g)
  have u: "lg_grants L (co_grant c) \<noteq> None" if "c \<in> set (lg_uses L)" for c using assms(2) that by (auto simp: ledger_inv_def)
  have "co_grant c \<noteq> sg_id g" if "c \<in> set (lg_uses L)" for c using u [OF that] l_grant(2) by auto
  then have "spent_on (sg_id g) (lg_uses L) = 0" by (simp add: spent_on_def filter_empty_conv)
  then have "spent_on (sg_id g) (lg_uses L) \<le> budget_of g" using good_grant_budget [OF l_grant(3)] by simp
  then show ?thesis using assms(2) u l_grant by (auto simp: ledger_inv_def)
next
  case (l_consume c g d)
  show ?thesis
  proof (cases "L' = L")
    case False
    then have L': "L' = L\<lparr>lg_uses := lg_uses L @ [c]\<rparr>" and new: "co_id c \<notin> co_id ` set (lg_uses L)"
      and b: "charged_to (sg_digest g) (lg_uses L) < budget_of g" and w: "int (length (active_times P c (lg_uses L))) < max_of c"
      using l_consume(5) by (auto simp: ledger_consume_def split: if_splits)
    have o: "orderly P c (lg_uses L)" using l_consume(4) new by blast
    have bound: "co_digest x = sg_digest g" if "x \<in> set (lg_uses L)" "co_grant x = co_grant c" for x
      using assms(2) that l_consume(1) by (auto simp: ledger_inv_def)
    have "spent_on (co_grant c) (lg_uses L) < budget_of g"
      using spent_le_charged [of "lg_uses L" "co_grant c" "sg_digest g"] bound b by fastforce
    moreover have "recorded_orderly P (lg_uses L @ [c])"
      using assms(2) w active_snoc [of P c "lg_uses L"] by (intro recorded_snoc [OF _ o]) (simp_all add: ledger_inv_def)
    moreover have "spent_on i (lg_uses L @ [c]) = spent_on i (lg_uses L) + (if co_grant c = i then 1 else 0)" for i
      by (simp add: spent_on_def)
    ultimately show ?thesis using assms(2) L' new l_consume(1-3) unfolding ledger_inv_def by auto
  qed (use assms(2) in simp)
qed (use assms(2) in simp)

text \<open>The grants of a ledger only grow and its consumptions are only appended.\<close>

definition ledger_le :: "ledger \<Rightarrow> ledger \<Rightarrow> bool" where
  "ledger_le L L' = (lg_grants L \<subseteq>\<^sub>m lg_grants L' \<and> (\<exists>cs. lg_uses L' = lg_uses L @ cs))"

lemma ledger_step_le: "ledger_step P U L L' \<Longrightarrow> ledger_le L L'"
proof (induction rule: ledger_step.induct)
  case (l_grant L g)
  then show ?case by (auto simp: ledger_le_def map_le_def)
next
  case (l_consume L c g L' d)
  then show ?case by (auto simp: ledger_le_def ledger_consume_def split: if_splits)
qed (simp add: ledger_le_def)

lemma ledger_le_trans: "ledger_le L L' \<Longrightarrow> ledger_le L' L'' \<Longrightarrow> ledger_le L L''"
  by (auto simp: ledger_le_def intro: map_le_trans)

lemma gate_steps:
  assumes "aead_ok C" and "hex_digest P" and "(gate_step P U C)\<^sup>*\<^sup>* st st'" and "ledger_at P U C st = Some L"
  shows "\<exists>L'. ledger_at P U C st' = Some L' \<and> ledger_le L L' \<and> (ledger_inv P U L \<longrightarrow> ledger_inv P U L')"
  using assms(3)
proof (induction rule: rtranclp_induct)
  case base
  then show ?case using assms(4) by (auto simp: ledger_le_def)
next
  case (step st1 st2)
  then obtain L1 where L1: "ledger_at P U C st1 = Some L1" "ledger_le L L1" "ledger_inv P U L \<longrightarrow> ledger_inv P U L1" by blast
  obtain L2 where "ledger_at P U C st2 = Some L2" "ledger_step P U L1 L2" using gate_simulates [OF assms(1,2) L1(1) step(2)] by blast
  then show ?case using L1 ledger_step_le ledger_step_inv ledger_le_trans by blast
qed

lemma empty_ledger_inv: "ledger_inv P U \<lparr>lg_grants = Map.empty, lg_uses = []\<rparr>"
  by (simp add: ledger_inv_def recorded_orderly_def)

section \<open>Properties\<close>

text \<open>C24: The persistent gate implements its ledger. For an authorised request, with no foreign row under the derived
  event identifier and no digest collision in the store, it answers exactly when the request is a faithful replay or orderly
  (one content per manifest version, a clock that does not go back); the answer is that of the ledger, and the ledger of the next
  store is the next ledger. Otherwise it throws.\<close>

theorem persistent_gate_refines_ledger:
  assumes "aead_ok C" and "hex_digest P" and "ledger_at P U C st = Some L" and "authorize P U C r st = Inr (gs, s, c)"
    and "co_id c \<in> co_id ` set (lg_uses L) \<or> (''EVT-'' @ co_id c \<notin> er_id ` set (st_events st) \<and>
      er_hash (sealed_row P C st (consumption_input c (''EVT-'' @ co_id c)) uuid n) \<notin> er_hash ` set (st_events st))"
  shows "if if co_id c \<in> co_id ` set (lg_uses L) then replays P c (lg_uses L) else orderly P c (lg_uses L)
    then \<exists>st'. consumeSerialized P U C r uuid n n' st = Inr (st', snd (ledger_consume P s c L)) \<and>
      ledger_at P U C st' = Some (fst (ledger_consume P s c L))
    else \<exists>e. consumeSerialized P U C r uuid n n' st = Inl e"
proof -
  obtain gs' cs where l: "ledger_of P U C st = Inr (gs', cs)" "L = \<lparr>lg_grants = grant_map gs', lg_uses = cs\<rparr>"
    using assms(3) by (auto simp: ledger_at_iff)
  have cs: "lg_uses L = cs" using l(2) by simp
  have gs: "gs' = gs" using gate_authorized [OF assms(4,2)] l(1) by (auto simp: ledger_of_def)
  let ?ok = "if co_id c \<in> co_id ` set (lg_uses L) then replays P c (lg_uses L) else orderly P c (lg_uses L)"
  have out: "?ok \<and> d = snd (ledger_consume P s c L) \<and> ledger_at P U C st' = Some (fst (ledger_consume P s c L))"
    if "consumeSerialized P U C r uuid n n' st = Inr (st', d)" for st' d
    using consume_step [OF assms(1-3) that] assms(4) by auto
  show ?thesis
  proof (cases ?ok)
    case True
    obtain st' d where "consumeSerialized P U C r uuid n n' st = Inr (st', d)"
      using consume_total [OF assms(1,2) l(1) [unfolded gs] assms(4) True [unfolded cs] assms(5) [unfolded cs]] by blast
    with out [OF this] True show ?thesis by metis
  next
    case False
    then have "\<nexists>st' d. consumeSerialized P U C r uuid n n' st = Inr (st', d)" using out by blast
    then have "\<exists>e. consumeSerialized P U C r uuid n n' st = Inl e" by (cases "consumeSerialized P U C r uuid n n' st") auto
    then show ?thesis unfolding if_not_P [OF False] .
  qed
qed

text \<open>C26: Whatever rows a store holds, what the repository and the gate read from it is well formed: every grant is a
  canonical signed envelope under its own identifier, every consumption has the fields, identifier, manifest and hash
  the code demands, identifiers are not repeated, and each consumption is bound to a grant that allows its manifest at its time.\<close>

theorem gate_reads_well_formed:
  "case ledger_of P U C st of Inl _ \<Rightarrow> True | Inr (gs, cs) \<Rightarrow>
     list_all (good_grant P) gs \<and> distinct (map sg_id gs) \<and> list_all (good_consumption P U) cs \<and> distinct (map co_id cs) \<and>
     list_all (bound_to P U gs) cs"
proof (cases "ledger_of P U C st")
  case (Inr r)
  then obtain gs cs where r: "ledger_of P U C st = Inr (gs, cs)" by (cases r) simp
  obtain es where es: "readAll P C st = Inr es" using ledger_readable [OF r] by blast
  have "uses_read P U es cs" "distinct (map co_id cs)" "\<forall>c \<in> set cs. bound_to P U gs c" using r unfolding ledger_iff [OF es] by blast+
  moreover have "list_all (good_consumption P U) cs"
    using readAll_sound [OF es] by (intro uses_good [OF \<open>uses_read P U es cs\<close>]) (auto simp: list_all_iff)
  moreover have "list_grants P C st = Inr gs" using r by (auto simp: ledger_of_def)
  ultimately show ?thesis using list_grants_good by (auto simp: r list_all_iff)
qed simp

text \<open>C25: In every store reached from a created one by saving grants, consuming requests, appending other events, and writing
  snapshots, receipts and checkpoints, over any number of restarts: the consumptions of a grant are within its
  budget, and at each recorded consumption the window of its manifest, ending there, held at most the allowed number of
  requests, with recording times that never went backwards for that manifest.\<close>

theorem recorded_requests_within_limits:
  assumes "aead_ok C" and "hex_digest P" and "salt \<noteq> []" and "create_store P C ms pass salt n1 n2 uuid = Inr st0"
    and "(gate_step P U C)\<^sup>*\<^sup>* st0 st"
  shows "\<exists>L. ledger_at P U C st = Some L \<and>
    (\<forall>i g. lg_grants L i = Some g \<longrightarrow> spent_on i (lg_uses L) \<le> budget_of g) \<and>
    (\<forall>xs c ys. lg_uses L = xs @ c # ys \<longrightarrow> int (length (active_times P c (xs @ [c]))) \<le> max_of c \<and>
       (\<forall>d \<in> set (same_manifest P (co_manifest c) xs). co_at d \<le> co_at c))"
proof -
  note c = created_ledger [OF assms(1-4)]
  obtain L where L: "ledger_at P U C st = Some L" "ledger_inv P U L"
    using gate_steps [OF assms(1,2,5) c] empty_ledger_inv by blast
  then show ?thesis by (intro exI [of _ L]) (auto simp: ledger_inv_def recorded_orderly_def orderly_def)
qed

text \<open>A consumption is charged once. After a request was allowed, the same request (its authority request, attempt, grant
  and manifest), whenever it is authorised again in a later store, is allowed and leaves the store untouched.\<close>

lemma replayed_request_is_free:
  assumes "aead_ok C" and "hex_digest P" and "ledger_at P U C st = Some L"
    and "consumeSerialized P U C r uuid n n' st = Inr (st1, allow)" and "(gate_step P U C)\<^sup>*\<^sup>* st1 st2"
    and "authorize P U C q st2 = Inr (gs, s, c)" and "gq_request q = gq_request r" and "gq_attempt q = gq_attempt r"
    and "gr_grant q = gr_grant r" and "gr_manifest q = gr_manifest r"
  shows "consumeSerialized P U C q uuid' n3 n4 st2 = Inr (st2, allow)"
proof -
  obtain gs1 s1 c1 L1 where a: "authorize P U C r st = Inr (gs1, s1, c1)" and g1: "lg_grants L (co_grant c1) = Some s1"
    and k: "ledger_consume P s1 c1 L = (L1, allow)" "ledger_at P U C st1 = Some L1"
      "if co_id c1 \<in> co_id ` set (lg_uses L) then replays P c1 (lg_uses L) else orderly P c1 (lg_uses L)"
    using consume_step [OF assms(1-4)] by blast
  note ok1 = gate_authorized [OF a assms(2)] and ok = gate_authorized [OF assms(6,2)]
  obtain L2 where L2: "ledger_at P U C st2 = Some L2" "ledger_le L1 L2" using gate_steps [OF assms(1,2,5) k(2)] by blast
  have rec: "replays P c1 (lg_uses L1)"
    using k(1,3) by (auto simp: ledger_consume_def allow_def refuse_def replays_def split: if_splits)
  then have rep: "replays P c1 (lg_uses L2)" using L2(2) by (auto simp: ledger_le_def replays_def)
  obtain gs2 cs2 where l2: "ledger_of P U C st2 = Inr (gs2, cs2)" "L2 = \<lparr>lg_grants = grant_map gs2, lg_uses = cs2\<rparr>"
    using L2(1) by (auto simp: ledger_at_iff)
  have gs: "gs2 = gs" using ok l2(1) by (auto simp: ledger_of_def)
  have "lg_grants L2 (co_grant c1) = Some s1"
    using g1 L2(2) ledger_consume_grants [OF k(1)] by (auto simp: ledger_le_def map_le_def dom_def)
  moreover have "co_grant c = co_grant c1" using ok ok1 assms(9) by metis
  moreover have "grant_map gs2 (co_grant c) = Some s" unfolding grant_map_def gs using ok by blast
  ultimately have s: "s = s1" using l2(2) by simp
  have req: "co_request c = co_request c1" "co_attempt c = co_attempt c1" "co_manifest c = co_manifest c1"
    using ok ok1 assms(7,8,10) by (metis option.inject)+
  have d: "co_digest c = co_digest c1" using ok ok1 s by metis
  have "co_id c = co_id c1" "co_manifest_hash c = co_manifest_hash c1"
    using ok ok1 req d unfolding good_consumption_def by (metis sum.inject(2))+
  then have "replays P c cs2" using rep req d \<open>co_grant c = co_grant c1\<close> l2(2) by (simp add: replays_def consumptionReplayBinding_def)
  then have known: "if co_id c \<in> co_id ` set cs2 then replays P c cs2 else orderly P c cs2" "co_id c \<in> co_id ` set cs2"
    by (auto simp: replays_def image_iff intro: sym)
  obtain st3 e where o: "consumeSerialized P U C q uuid' n3 n4 st2 = Inr (st3, e)"
    using consume_total [OF assms(1,2) l2(1) [unfolded gs] assms(6) known(1) disjI1 [OF known(2)]] by blast
  from consume_outcome [OF assms(2) l2(1) assms(6) o] known(2) show ?thesis unfolding o by (simp add: ledger_consume_def)
qed

text \<open>C27: A recorded grant is immutable: in every later store it is found under its identifier as it was returned, and saving
  under that identifier again changes nothing and succeeds only for the same envelope.\<close>

theorem recorded_grant_immutable:
  assumes "aead_ok C" and "hex_digest P" and "ledger_at P U C st = Some L" and "save_grant P C v now uuid n n' st = Inr (st1, g)"
    and "sound_json v" and "(gate_step P U C)\<^sup>*\<^sup>* st1 st2"
  shows "get_grant P C (sg_id g) st2 = Inr (Some g) \<and>
    (case save_grant P C w now2 uuid2 n3 n4 st2 of Inl _ \<Rightarrow> True
     | Inr (st3, h) \<Rightarrow> if sound_json w \<and> sg_id h = sg_id g then h = g \<and> st3 = st2 \<and> sort_json w = sort_json v else True)"
proof -
  note sv = save_step [OF assms(1-5)]
  obtain L1 where L1: "ledger_at P U C st1 = Some L1" "lg_grants L1 (sg_id g) = Some g" using sv assms(3) by auto
  obtain L2 where L2: "ledger_at P U C st2 = Some L2" "ledger_le L1 L2" using gate_steps [OF assms(1,2,6) L1(1)] by blast
  have g2: "lg_grants L2 (sg_id g) = Some g" using L1(2) L2(2) by (auto simp: ledger_le_def map_le_def dom_def)
  obtain gs cs where l: "ledger_of P U C st2 = Inr (gs, cs)" "L2 = \<lparr>lg_grants = grant_map gs, lg_uses = cs\<rparr>"
    using L2(1) by (auto simp: ledger_at_iff)
  obtain rs where rs: "records P C st2 = Inr rs" "gs = sort_grants P rs" "distinct (map sg_id rs)"
    using l(1) by (auto simp: ledger_of_def list_grants_def records_def grant_records_iff sort_grants_def)
  have "find (\<lambda>r. sg_id r = sg_id g) rs = Some g" using g2 l(2) find_grants [OF rs(3)] by (simp add: grant_map_def rs(2))
  moreover obtain a where a: "envelope_of P (sg_envelope g) a" "sg_id g = ng_id a" using sv by (auto simp: good_grant_def)
  then have "grant_id_pattern (sg_id g)" using envelope_grant [OF a(1)] by (simp add: grant_fields_def)
  ultimately have "get_grant P C (sg_id g) st2 = Inr (Some g)" using rs(1) by (simp add: get_grant_def)
  moreover have "h = g \<and> st3 = st2 \<and> sort_json w = sort_json v"
    if "save_grant P C w now2 uuid2 n3 n4 st2 = Inr (st3, h)" "sound_json w" "sg_id h = sg_id g" for st3 h
    using save_step [OF assms(1,2) L2(1) that(1,2)] that(3) g2 sv by auto
  ultimately show ?thesis by (auto split: sum.split)
qed

section \<open>Witnesses\<close>

lemma sample_gate_authorized:
  assumes "ledger_at sample_signing sample_urls sample_crypto st = Some L" and "lg_grants L ''NAG-12345678'' = Some g"
    and "member (sg_envelope g) ''grant'' = sort_json (grant_json sample_network_grant)" and "good_grant sample_signing g"
  shows "\<exists>gs c. authorize sample_signing sample_urls sample_crypto sample_request st = Inr (gs, g, c)"
proof -
  obtain gs cs where l: "ledger_of sample_signing sample_urls sample_crypto st = Inr (gs, cs)" "L = \<lparr>lg_grants = grant_map gs, lg_uses = cs\<rparr>"
    using assms(1) by (auto simp: ledger_at_iff)
  have "list_grants sample_signing sample_crypto st = Inr gs" using l(1) by (auto simp: ledger_of_def)
  moreover have "find (\<lambda>s. sg_id s = ng_id (gr_grant sample_request)) gs = Some g"
    using assms(2) l(2) by (simp add: grant_map_def sample_request_def sample_network_grant_def)
  moreover have "authority_request_id_pattern ''REQ-12345678''" by code_simp
  ultimately show ?thesis
    using authorize_total [OF sample_signing_digest, of sample_crypto st gs sample_request g "''REQ-12345678''" 0 sample_urls]
      assms(3,4) sample_grant_ok by (auto simp: sample_request_def good_grant_def sample_host MAX_SAFE_def max_time_def)
qed

lemma sample_fresh: "length (st_events st) \<le> 1 \<Longrightarrow>
    \<exists>n. er_hash (sealed_row sample_signing sample_crypto st i uuid n) \<notin> er_hash ` set (st_events st)"
proof -
  assume l: "length (st_events st) \<le> 1"
  show ?thesis
  proof (cases "st_events st")
    case (Cons r rs)
    then have "er_hash ` set (st_events st) = {er_hash r}" using l by simp
    moreover have "\<exists>n. er_hash (sealed_row sample_signing sample_crypto st i uuid n) \<noteq> er_hash r"
      using sample_hashes_differ [of st i uuid] by metis
    ultimately show ?thesis by simp
  qed simp
qed

text \<open>A store with one grant, which allows a request.\<close>

lemma sample_gate_allowed:
  "\<exists>st0 e st g L gs c n. create_store sample_signing sample_crypto [1] ''correct horse'' '' salt'' ''n1'' ''n2'' ''u'' = Inr st0 \<and>
     save_grant sample_signing sample_crypto (envelope_json e) 0 [] [] [] st0 = Inr (st, g) \<and>
     gate_step sample_signing sample_urls sample_crypto st0 st \<and>
     ledger_at sample_signing sample_urls sample_crypto st = Some L \<and> lg_grants L = [''NAG-12345678'' \<mapsto> g] \<and> lg_uses L = [] \<and>
     good_grant sample_signing g \<and> member (sg_envelope g) ''grant'' = sort_json (grant_json sample_network_grant) \<and> budget_of g = 2 \<and>
     sg_id g = ''NAG-12345678'' \<and> authorize sample_signing sample_urls sample_crypto sample_request st = Inr (gs, g, c) \<and>
     ''EVT-'' @ co_id c \<notin> er_id ` set (st_events st) \<and>
     er_hash (sealed_row sample_signing sample_crypto st (consumption_input c (''EVT-'' @ co_id c)) [] n) \<notin> er_hash ` set (st_events st) \<and>
     ledger_consume sample_signing g c L = (L\<lparr>lg_uses := [c]\<rparr>, allow)"
proof -
  let ?P = sample_signing and ?C = sample_crypto
  obtain st0 e st g where r: "create_store ?P ?C [1] ''correct horse'' '' salt'' ''n1'' ''n2'' ''u'' = Inr st0"
    "save_grant ?P ?C (envelope_json e) 0 [] [] [] st0 = Inr (st, g)" "gate_step ?P sample_urls ?C st0 st"
    and l: "length (st_events st) \<le> 1" "\<forall>r \<in> set (st_events st). starts_with ''EVT-NAG-'' (er_id r)"
    and g: "good_grant ?P g" "member (sg_envelope g) ''grant'' = sort_json (grant_json sample_network_grant)" "budget_of g = 2" "sg_id g = ''NAG-12345678''"
    and L: "ledger_at ?P sample_urls ?C st = Some \<lparr>lg_grants = [''NAG-12345678'' \<mapsto> g], lg_uses = []\<rparr>"
    using sample_saved by blast
  obtain gs c where a: "authorize ?P sample_urls ?C sample_request st = Inr (gs, g, c)"
    using sample_gate_authorized [OF L _ g(2,1)] by auto
  note ok = gate_authorized [OF a sample_signing_digest]
  obtain n where n: "er_hash (sealed_row ?P ?C st (consumption_input c (''EVT-'' @ co_id c)) [] n) \<notin> er_hash ` set (st_events st)"
    using sample_fresh [OF l(1)] by blast
  have "consumption_id_pattern (co_id c)" using ok by (simp add: good_consumption_def)
  then have "\<not> starts_with ''EVT-NAG-'' (''EVT-'' @ co_id c)" by (auto simp: consumption_id_pattern_def starts_with_iff)
  then have i: "''EVT-'' @ co_id c \<notin> er_id ` set (st_events st)" using l(2) by (metis imageE)
  have "co_manifest c = sort_json (manifest_json sample_manifest)" using ok by (simp add: sample_request_def del: sort_json.simps)
  then have "max_of c = 2" by (simp add: max_of_def manifest_view_sorted) (simp add: sample_manifest_def)
  then have "ledger_consume ?P g c \<lparr>lg_grants = [''NAG-12345678'' \<mapsto> g], lg_uses = []\<rparr> =
      (\<lparr>lg_grants = [''NAG-12345678'' \<mapsto> g], lg_uses = []\<rparr>\<lparr>lg_uses := [c]\<rparr>, allow)"
    by (simp add: ledger_consume_def g(3) charged_to_def active_times_def same_manifest_def)
  then show ?thesis using r L a n i g by fastforce
qed

theorem persistent_gate_refines_ledger_witness:
  "\<exists>st st' L gs g c n. authorize sample_signing sample_urls sample_crypto sample_request st = Inr (gs, g, c) \<and>
     consumeSerialized sample_signing sample_urls sample_crypto sample_request [] n [] st = Inr (st', allow) \<and>
     ledger_at sample_signing sample_urls sample_crypto st = Some L \<and>
     ledger_at sample_signing sample_urls sample_crypto st' = Some (L\<lparr>lg_uses := [c]\<rparr>)"
proof -
  obtain st L gs g c n where a: "ledger_at sample_signing sample_urls sample_crypto st = Some L"
    "authorize sample_signing sample_urls sample_crypto sample_request st = Inr (gs, g, c)" "lg_uses L = []"
    "ledger_consume sample_signing g c L = (L\<lparr>lg_uses := [c]\<rparr>, allow)"
    and f: "''EVT-'' @ co_id c \<notin> er_id ` set (st_events st)"
      "er_hash (sealed_row sample_signing sample_crypto st (consumption_input c (''EVT-'' @ co_id c)) [] n) \<notin> er_hash ` set (st_events st)"
    using sample_gate_allowed by blast
  have "orderly sample_signing c (lg_uses L)" using a(3) by (simp add: orderly_def same_manifest_def)
  with persistent_gate_refines_ledger [OF sample_aead sample_signing_digest a(1,2) disjI2 [OF conjI [OF f]], of "[]"] a
  obtain st' where "consumeSerialized sample_signing sample_urls sample_crypto sample_request [] n [] st = Inr (st', allow)"
    "ledger_at sample_signing sample_urls sample_crypto st' = Some (L\<lparr>lg_uses := [c]\<rparr>)" by auto
  with a(1,2) show ?thesis by blast
qed

lemma sample_consumed:
  "\<exists>st0 e st g st' L gs c d n. create_store sample_signing sample_crypto [1] ''correct horse'' '' salt'' ''n1'' ''n2'' ''u'' = Inr st0 \<and>
     save_grant sample_signing sample_crypto (envelope_json e) 0 [] [] [] st0 = Inr (st, g) \<and>
     gate_step sample_signing sample_urls sample_crypto st0 st \<and>
     consumeSerialized sample_signing sample_urls sample_crypto sample_request [] n [] st = Inr (st', allow) \<and>
     gate_step sample_signing sample_urls sample_crypto st st' \<and>
     ledger_at sample_signing sample_urls sample_crypto st = Some L \<and>
     ledger_at sample_signing sample_urls sample_crypto st' = Some \<lparr>lg_grants = [''NAG-12345678'' \<mapsto> g], lg_uses = [c]\<rparr> \<and>
     authorize sample_signing sample_urls sample_crypto sample_request st' = Inr (gs, g, d) \<and>
     sg_id g = ''NAG-12345678'' \<and> co_grant c = ''NAG-12345678'' \<and> budget_of g = 2"
proof -
  let ?P = sample_signing and ?C = sample_crypto
  obtain st0 e st g L gs c n where r: "create_store ?P ?C [1] ''correct horse'' '' salt'' ''n1'' ''n2'' ''u'' = Inr st0"
    "save_grant ?P ?C (envelope_json e) 0 [] [] [] st0 = Inr (st, g)" "gate_step ?P sample_urls ?C st0 st"
    and g: "good_grant ?P g" "member (sg_envelope g) ''grant'' = sort_json (grant_json sample_network_grant)" "budget_of g = 2" "sg_id g = ''NAG-12345678''"
    and L: "ledger_at ?P sample_urls ?C st = Some L" "lg_grants L = [''NAG-12345678'' \<mapsto> g]" "lg_uses L = []"
    and a: "authorize ?P sample_urls ?C sample_request st = Inr (gs, g, c)"
    and f: "''EVT-'' @ co_id c \<notin> er_id ` set (st_events st)"
      "er_hash (sealed_row ?P ?C st (consumption_input c (''EVT-'' @ co_id c)) [] n) \<notin> er_hash ` set (st_events st)"
    and k: "ledger_consume ?P g c L = (L\<lparr>lg_uses := [c]\<rparr>, allow)"
    using sample_gate_allowed by blast
  obtain gs' cs where l: "ledger_of ?P sample_urls ?C st = Inr (gs', cs)" "L = \<lparr>lg_grants = grant_map gs', lg_uses = cs\<rparr>"
    using L(1) by (auto simp: ledger_at_iff)
  note ok = gate_authorized [OF a sample_signing_digest]
  have gs: "gs' = gs" using ok l(1) by (auto simp: ledger_of_def)
  have cs: "cs = []" using l(2) L(3) by simp
  obtain st' d where o: "consumeSerialized ?P sample_urls ?C sample_request [] n [] st = Inr (st', d)"
    using consume_total [OF sample_aead sample_signing_digest l(1) [unfolded gs] a, of "[]" n "[]"] f
    by (auto simp: cs orderly_def same_manifest_def)
  have d: "d = allow" "ledger_at ?P sample_urls ?C st' = Some (L\<lparr>lg_uses := [c]\<rparr>)"
    using consume_step [OF sample_aead sample_signing_digest L(1) o] a k by auto
  obtain gs2 d2 where a2: "authorize ?P sample_urls ?C sample_request st' = Inr (gs2, g, d2)"
    using sample_gate_authorized [OF d(2) _ g(2,1)] L(2) by auto
  have "co_grant c = ''NAG-12345678''" using ok by (simp add: sample_request_def sample_network_grant_def)
  moreover have "L\<lparr>lg_uses := [c]\<rparr> = \<lparr>lg_grants = [''NAG-12345678'' \<mapsto> g], lg_uses = [c]\<rparr>" using L(2) by simp
  moreover have "gate_step ?P sample_urls ?C st st'" by (rule g_consume [OF o])
  ultimately show ?thesis using r g(3,4) L(1) o [unfolded d(1)] d(2) a2
    by (intro exI [of _ st0] exI [of _ e] exI [of _ st] exI [of _ g] exI [of _ st'] exI [of _ L] exI [of _ gs2] exI [of _ c] exI [of _ d2] exI [of _ n]) simp
qed

theorem recorded_requests_within_limits_witness:
  "\<exists>st L c. ledger_at sample_signing sample_urls sample_crypto st = Some L \<and> lg_uses L = [c] \<and> spent_on ''NAG-12345678'' [c] = 1 \<and>
     spent_on ''NAG-12345678'' (lg_uses L) \<le> 2 \<and> int (length (active_times sample_signing c [c])) \<le> max_of c"
proof -
  obtain st0 e st g st' c where r: "create_store sample_signing sample_crypto [1] ''correct horse'' '' salt'' ''n1'' ''n2'' ''u'' = Inr st0"
    "gate_step sample_signing sample_urls sample_crypto st0 st" "gate_step sample_signing sample_urls sample_crypto st st'"
    and L: "ledger_at sample_signing sample_urls sample_crypto st' = Some \<lparr>lg_grants = [''NAG-12345678'' \<mapsto> g], lg_uses = [c]\<rparr>"
    and g: "budget_of g = 2" "co_grant c = ''NAG-12345678''"
    using sample_consumed by blast
  have salt: "'' salt'' \<noteq> []" by simp
  have t: "(gate_step sample_signing sample_urls sample_crypto)\<^sup>*\<^sup>* st0 st'" using r(2,3) by simp
  note limits = recorded_requests_within_limits [OF sample_aead sample_signing_digest salt r(1) t]
  then obtain L' where
    w: "ledger_at sample_signing sample_urls sample_crypto st' = Some L'"
      "\<forall>xs c ys. lg_uses L' = xs @ c # ys \<longrightarrow> int (length (active_times sample_signing c (xs @ [c]))) \<le> max_of c" by blast
  have u: "lg_uses L' = [c]" using w(1) L by auto
  have "lg_uses L' = [] @ c # []" using u by simp
  then have "int (length (active_times sample_signing c ([] @ [c]))) \<le> max_of c" using w(2) by blast
  then show ?thesis using w(1) u g by (intro exI [of _ st'] exI [of _ L'] exI [of _ c]) (simp add: spent_on_def)
qed

theorem recorded_grant_immutable_witness:
  "\<exists>e st st' g. save_grant sample_signing sample_crypto (envelope_json e) 0 [] [] [] st = Inr (st', g) \<and>
     get_grant sample_signing sample_crypto ''NAG-12345678'' st' = Inr (Some g)"
proof -
  obtain st0 e st g where r: "create_store sample_signing sample_crypto [1] ''correct horse'' '' salt'' ''n1'' ''n2'' ''u'' = Inr st0"
    "save_grant sample_signing sample_crypto (envelope_json e) 0 [] [] [] st0 = Inr (st, g)" "sg_id g = ''NAG-12345678''"
    using sample_consumed by blast
  have salt: "'' salt'' \<noteq> []" by simp
  from recorded_grant_immutable [OF sample_aead sample_signing_digest
      created_ledger [OF sample_aead sample_signing_digest salt r(1)] r(2) envelope_sound rtranclp.rtrancl_refl] r(3)
  have "get_grant sample_signing sample_crypto ''NAG-12345678'' st = Inr (Some g)" by simp
  with r(2) show ?thesis by blast
qed

end
