(* ===== verification/VersionedLog.thy ===== *)
theory VersionedLog
  imports JsonClone
begin

text \<open>
  Histories of versioned records over the event store: the events of one aggregate, each read as the record of its
  place. Both families of repositories (src/src/storage/product-repositories.ts, src/src/storage/decision-intelligence-repositories.ts)
  keep their records this way; the lemmas say how a history grows with the store, and that what JSON.parse gives back
  for a canonical text is its canonical form.
\<close>

text \<open>\<open>xs.map((x, index) => ...)\<close> for a function that may throw.\<close>

fun mapiE :: "(int \<Rightarrow> 'a \<Rightarrow> 'b result) \<Rightarrow> int \<Rightarrow> 'a list \<Rightarrow> 'b list result" where
  "mapiE f i [] = Inr []"
| "mapiE f i (x # xs) = bindE (f i x) (\<lambda>y. bindE (mapiE f (i + 1) xs) (\<lambda>ys. Inr (y # ys)))"

lemma mapiE_append: "mapiE f i (xs @ ys) = bindE (mapiE f i xs) (\<lambda>us. bindE (mapiE f (i + int (length xs)) ys) (\<lambda>vs. Inr (us @ vs)))"
proof (induction xs arbitrary: i)
  case Nil
  then show ?case by (cases "mapiE f i ys") simp_all
next
  case (Cons x xs)
  show ?case
  proof (cases "f i x")
    case (Inr y)
    have e: "i + (1 + int (length xs)) = i + 1 + int (length xs)" by simp
    show ?thesis using Inr Cons.IH [of "i + 1"]
      by (cases "mapiE f (i + 1) xs"; cases "mapiE f (i + 1 + int (length xs)) ys") (simp_all add: e)
  qed simp
qed

lemma mapiE_length: "mapiE f i xs = Inr ys \<Longrightarrow> length ys = length xs"
  by (induction xs arbitrary: i ys) auto

lemma mapiE_snoc: "mapiE f i xs = Inr us \<Longrightarrow> mapiE f i (xs @ [x]) = bindE (f (i + int (length us)) x) (\<lambda>v. Inr (us @ [v]))"
  using mapiE_length [of f i xs us] by (cases "f (i + int (length us)) x") (simp_all add: mapiE_append)

lemma mapiE_nth: "mapiE f i xs = Inr ys \<Longrightarrow> k < length xs \<Longrightarrow> f (i + int k) (xs ! k) = Inr (ys ! k)"
proof (induction xs arbitrary: i ys k)
  case (Cons x xs)
  then obtain z zs where z: "f i x = Inr z" "mapiE f (i + 1) xs = Inr zs" "ys = z # zs" by auto
  show ?case
  proof (cases k)
    case (Suc m)
    have e: "i + (1 + int m) = i + 1 + int m" by simp
    from Cons.IH [OF z(2), of m] Cons.prems(2) Suc z(3) show ?thesis by (simp add: e)
  qed (use z in simp)
qed simp

section \<open>Histories\<close>

definition history_of :: "(int \<Rightarrow> stored_event \<Rightarrow> 'r result) \<Rightarrow> string \<Rightarrow> string \<Rightarrow> stored_event list \<Rightarrow> 'r list result" where
  "history_of f ty ag es = mapiE f 0 (filter (\<lambda>e. se_aggregate_type e = ty \<and> se_aggregate e = ag) es)"

lemma history_snoc: "history_of f ty ag es = Inr rs \<Longrightarrow> history_of f ty ag (es @ [e]) =
    (if se_aggregate_type e = ty \<and> se_aggregate e = ag then bindE (f (int (length rs)) e) (\<lambda>r. Inr (rs @ [r])) else Inr rs)"
  by (simp add: history_of_def mapiE_snoc)

text \<open>Every history of a type can be read.\<close>

definition readable :: "(int \<Rightarrow> stored_event \<Rightarrow> 'r result) \<Rightarrow> string \<Rightarrow> stored_event list \<Rightarrow> bool" where
  "readable f ty es = (\<forall>ag. \<exists>rs. history_of f ty ag es = Inr rs)"

lemma readable_nil: "readable f ty []"
  by (simp add: readable_def history_of_def)

lemma readable_other: "se_aggregate_type e \<noteq> ty \<Longrightarrow> readable f ty es \<Longrightarrow> readable f ty (es @ [e])"
  unfolding readable_def by (metis history_snoc)

lemma history_grows:
  assumes "history_of f ty (se_aggregate e) es = Inr rs" and "f (int (length rs)) e = Inr r" and "se_aggregate_type e = ty"
  shows "history_of f ty (se_aggregate e) (es @ [e]) = Inr (rs @ [r])"
  using history_snoc [OF assms(1), of e] assms(2,3) by simp

lemma readable_grows:
  assumes "readable f ty es" and "history_of f ty (se_aggregate e) es = Inr rs" and "f (int (length rs)) e = Inr r"
    and "se_aggregate_type e = ty"
  shows "readable f ty (es @ [e])"
  unfolding readable_def
proof
  fix ag
  show "\<exists>qs. history_of f ty ag (es @ [e]) = Inr qs"
  proof (cases "ag = se_aggregate e")
    case True
    then show ?thesis using history_grows [OF assms(2-4)] by blast
  next
    case False
    obtain qs where "history_of f ty ag es = Inr qs" using assms(1) by (auto simp: readable_def)
    from history_snoc [OF this, of e] False show ?thesis by simp
  qed
qed

text \<open>What a repository promises of the records it reads: each carries the number of its place. Its histories then have
  the versions 1, 2, 3 and so on, and the version of the last record counts them.\<close>

locale numbered_log =
  fixes read :: "int \<Rightarrow> stored_event \<Rightarrow> json result"
  assumes numbered: "read i e = Inr r \<Longrightarrow> member r ''version'' = JNum (i + 1)"
begin

lemma versions: "history_of read ty ag es = Inr rs \<Longrightarrow> k < length rs \<Longrightarrow> member (rs ! k) ''version'' = JNum (int k + 1)"
  unfolding history_of_def using mapiE_nth [of read 0] mapiE_length [of read 0]
  by (metis (no_types, lifting) add_0 numbered)

lemma dense: "history_of read ty ag es = Inr rs \<Longrightarrow> map (\<lambda>r. member r ''version'') rs = map (\<lambda>k. JNum (int k + 1)) [0..<length rs]"
  using versions by (intro nth_equalityI) simp_all

lemma current: "history_of read ty ag es = Inr rs \<Longrightarrow>
    (case last_opt rs of None \<Rightarrow> 0 | Some r \<Rightarrow> the (jint (member r ''version''))) = int (length rs)"
proof (cases "rs = []")
  case False
  assume h: "history_of read ty ag es = Inr rs"
  have "member (last rs) ''version'' = JNum (int (length rs - 1) + 1)"
    using versions [OF h, of "length rs - 1"] False by (simp add: last_conv_nth)
  then show ?thesis using False by (simp add: last_opt_def Suc_leI)
qed (simp add: last_opt_def)

end

section \<open>Canonical values\<close>

lemma canon_undef: "canon ck j = JUndef \<longleftrightarrow> j = JUndef"
  by (cases j) simp_all

lemma canon_canon: "canon ck (canon ck j) = canon ck j"
proof (induction ck j rule: canon.induct)
  case (7 ck es)
  let ?f = "\<lambda>(k, v). (k, canon ck v)" and ?es = "live_entries ck es"
  have f: "filter (\<lambda>e. snd e \<noteq> JUndef) (map ?f ?es) = map ?f ?es"
    by (auto simp: filter_id_conv canon_undef)
  have "sorted (map (\<lambda>e. ck (fst e)) ?es)" by (simp add: live_entries_def)
  then have "sorted (map (\<lambda>e. ck (fst e)) (map ?f ?es))" by (simp add: comp_def split_def)
  then have "live_entries ck (map ?f ?es) = map ?f ?es" unfolding live_entries_def [of ck "map ?f ?es"] f by (rule sort_key_id_if_sorted)
  moreover have "map ?f (map ?f ?es) = map ?f ?es" using 7 by auto
  ultimately show ?case by simp
qed (simp_all add: comp_def)

lemma member_canon: "sound_json j \<Longrightarrow> member (canon ck j) k = canon ck (member j k)"
proof (cases j)
  case (JObj es)
  assume s: "sound_json j"
  then have d: "distinct (map fst es)" and u: "\<forall>e \<in> set es. snd e \<noteq> JUndef" using JObj by (auto simp: sound_json_def)
  have f: "filter (\<lambda>e. snd e \<noteq> JUndef) es = es" using u by (simp add: filter_id_conv)
  have "map_of (live_entries ck es) k = map_of es k" unfolding live_entries_def f
    using d by (intro fun_cong [OF iffD2 [OF map_of_inject_set]]) (simp_all add: distinct_map)
  then show ?thesis using JObj by (simp add: member_def map_of_map split: option.split)
qed (simp_all add: member_def)

end
