(* ===== verification/CredentialMapping.thy ===== *)
theory CredentialMapping
  imports VersionedLog
begin

text \<open>
  Claims drawn from verified credentials (src/src/credentials/mapping.ts), and the checks of the repository that records
  them (\<open>assertCredentialMappingPlan\<close> and \<open>assertCredentialPassport\<close> of src/src/storage/decision-intelligence-repositories.ts).
  A mapping is drafted, approved by the operator for public or automatic use, and attached to the passport of its credential.
  The schema of a contract is a parameter (\<open>schema_errors\<close>), as everywhere.
\<close>

datatype check_status = CheckPass | CheckFail | CheckNotChecked | CheckNotApplicable

datatype overall_status = OverallVerified | OverallRejected | OverallIncomplete

datatype mapping_status = MappingPending | MappingApproved

record original_artifact =
  oa_hash :: string
  oa_length :: int
  oa_format :: string
  oa_media :: string

record credential_check =
  cc_status :: check_status
  cc_code :: string
  cc_at :: string
  cc_details :: "string list"

record verification_report =
  vr_schema :: credential_check
  vr_signature :: credential_check
  vr_issuer :: credential_check
  vr_subject :: credential_check
  vr_time :: credential_check
  vr_revocation :: credential_check
  vr_refresh :: credential_check
  vr_overall :: overall_status
  vr_eligible :: bool

record credential_summary =
  cs_credential :: "string option"
  cs_issuer :: "string option"
  cs_subject :: "string option"
  cs_achievement :: "string option"
  cs_name :: "string option"
  cs_from :: "string option"
  cs_until :: "string option"

record mapping_approval =
  ma_id :: string
  ma_approver :: string
  ma_approved :: string
  ma_expires :: string
  ma_hash :: string
  ma_public :: bool
  ma_auto :: bool
  ma_receipt :: string

record claim_mapping =
  mp_id :: string
  mp_credential :: string
  mp_credential_hash :: string
  mp_type :: string
  mp_text :: string
  mp_pointer :: string
  mp_request_public :: bool
  mp_request_auto :: bool
  mp_public :: bool
  mp_auto :: bool
  mp_status :: mapping_status
  mp_hash :: string
  mp_approval :: "mapping_approval option"

record mapping_draft =
  md_id :: string
  md_type :: string
  md_text :: string
  md_public :: "bool option"
  md_auto :: "bool option"

record passport_entry =
  pe_id :: string
  pe_imported :: string
  pe_original :: original_artifact
  pe_format :: string
  pe_hash :: string
  pe_credential :: json
  pe_summary :: credential_summary
  pe_verification :: verification_report
  pe_mappings :: "claim_mapping list"

section \<open>As JSON\<close>

fun check_status_str :: "check_status \<Rightarrow> string" where
  "check_status_str CheckPass = ''pass''"
| "check_status_str CheckFail = ''fail''"
| "check_status_str CheckNotChecked = ''not-checked''"
| "check_status_str CheckNotApplicable = ''not-applicable''"

fun overall_str :: "overall_status \<Rightarrow> string" where
  "overall_str OverallVerified = ''verified''"
| "overall_str OverallRejected = ''rejected''"
| "overall_str OverallIncomplete = ''incomplete''"

fun mapping_status_str :: "mapping_status \<Rightarrow> string" where
  "mapping_status_str MappingPending = ''pending''"
| "mapping_status_str MappingApproved = ''approved''"

definition mapping_approval_json :: "mapping_approval \<Rightarrow> json" where
  "mapping_approval_json a = JObj [(''approvalId'', JStr (ma_id a)), (''approverPrincipalId'', JStr (ma_approver a)),
     (''approvedAt'', JStr (ma_approved a)), (''expiresAt'', JStr (ma_expires a)), (''mappingHash'', JStr (ma_hash a)),
     (''allowPublic'', JBool (ma_public a)), (''allowAutoApply'', JBool (ma_auto a)), (''signatureReceiptHash'', JStr (ma_receipt a))]"

definition mapping_json :: "claim_mapping \<Rightarrow> json" where
  "mapping_json m = JObj [(''mappingId'', JStr (mp_id m)), (''credentialId'', JStr (mp_credential m)),
     (''credentialHash'', JStr (mp_credential_hash m)), (''claimType'', JStr (mp_type m)), (''claimText'', JStr (mp_text m)),
     (''sourcePointer'', JStr (mp_pointer m)), (''requestedPublic'', JBool (mp_request_public m)),
     (''requestedAutoApply'', JBool (mp_request_auto m)), (''publiclyAssertable'', JBool (mp_public m)),
     (''allowedInAutoApply'', JBool (mp_auto m)), (''status'', JStr (mapping_status_str (mp_status m))),
     (''mappingHash'', JStr (mp_hash m)), (''approval'', jnull mapping_approval_json (mp_approval m))]"

definition check_json :: "credential_check \<Rightarrow> json" where
  "check_json c = JObj [(''status'', JStr (check_status_str (cc_status c))), (''code'', JStr (cc_code c)), (''checkedAt'', JStr (cc_at c)),
     (''details'', jstrs (cc_details c))]"

definition passport_json :: "passport_entry \<Rightarrow> json" where
  "passport_json e = (let v = pe_verification e; s = pe_summary e; o1 = pe_original e in
     JObj [(''schemaVersion'', JNum 1), (''passportEntryId'', JStr (pe_id e)), (''importedAt'', JStr (pe_imported e)),
     (''original'', JObj [(''hash'', JStr (oa_hash o1)), (''byteLength'', JNum (oa_length o1)), (''format'', JStr (oa_format o1)),
        (''mediaType'', JStr (oa_media o1))]),
     (''envelopeFormat'', JStr (pe_format e)), (''canonicalCredentialHash'', JStr (pe_hash e)), (''credential'', pe_credential e),
     (''summary'', JObj [(''credentialId'', jnull JStr (cs_credential s)), (''issuerId'', jnull JStr (cs_issuer s)),
        (''subjectId'', jnull JStr (cs_subject s)), (''achievementId'', jnull JStr (cs_achievement s)),
        (''achievementName'', jnull JStr (cs_name s)), (''validFrom'', jnull JStr (cs_from s)), (''validUntil'', jnull JStr (cs_until s))]),
     (''verification'', JObj [(''schema'', check_json (vr_schema v)), (''signature'', check_json (vr_signature v)),
        (''issuer'', check_json (vr_issuer v)), (''subject'', check_json (vr_subject v)), (''time'', check_json (vr_time v)),
        (''revocation'', check_json (vr_revocation v)), (''refresh'', check_json (vr_refresh v)),
        (''overall'', JStr (overall_str (vr_overall v))), (''eligibleForMapping'', JBool (vr_eligible v))]),
     (''mappings'', JArr (map mapping_json (pe_mappings e)))])"

section \<open>Checks\<close>

definition assertCredentialContract :: "platform \<Rightarrow> string \<Rightarrow> json \<Rightarrow> unit result" where
  "assertCredentialContract P name j = (case schema_errors P name j of [] \<Rightarrow> Inr ()
     | es \<Rightarrow> throw (name @ '' validation failed: '' @ joins ''; '' es))"

definition is_control :: "char \<Rightarrow> bool" where
  "is_control c = ((of_char c :: nat) < 32 \<or> (of_char c :: nat) = 127)"

definition validIdentifier :: "string \<Rightarrow> bool" where
  "validIdentifier s = (s \<noteq> [] \<and> length s \<le> 200 \<and> s \<notin> {''__proto__'', ''constructor'', ''prototype''} \<and> \<not> list_ex is_control s)"

definition validClaimText :: "string \<Rightarrow> bool" where
  "validClaimText s = (trim s \<noteq> [] \<and> length s \<le> 4000 \<and> \<not> list_ex (\<lambda>c. is_control c \<and> (of_char c :: nat) \<notin> {9, 10, 13}) s)"

definition receipt_hash_pattern :: "string \<Rightarrow> bool" where
  "receipt_hash_pattern s = (starts_with ''sha256:'' s \<and> length (drop 7 s) = 64 \<and> list_all is_hex (drop 7 s))"

definition mappingPayload :: "claim_mapping \<Rightarrow> json" where
  "mappingPayload m = JObj [(''mappingId'', JStr (mp_id m)), (''credentialId'', JStr (mp_credential m)),
     (''credentialHash'', JStr (mp_credential_hash m)), (''claimType'', JStr (mp_type m)), (''claimText'', JStr (mp_text m)),
     (''sourcePointer'', JStr (mp_pointer m)), (''requestedPublic'', JBool (mp_request_public m)),
     (''requestedAutoApply'', JBool (mp_request_auto m))]"

definition computeCredentialMappingHash :: "platform \<Rightarrow> claim_mapping \<Rightarrow> string" where
  "computeCredentialMappingHash P m = hash_json P (mappingPayload m)"

definition hasAudienceRestriction :: "passport_entry \<Rightarrow> bool" where
  "hasAudienceRestriction e = (if member (pe_credential e) ''termsOfUse'' \<noteq> JUndef then True
     else let subject = member (pe_credential e) ''credentialSubject'' in
       if \<not> isRecord subject then False
       else isRecord (member subject ''achievement'') \<and> member (member subject ''achievement'') ''audience'' \<noteq> JUndef)"

definition uppercase :: "string \<Rightarrow> string" where
  "uppercase s = map (\<lambda>c. if is_lower c then char_of ((of_char c :: nat) - 32) else c) s"

definition expected_passport_id :: "passport_entry \<Rightarrow> string" where
  "expected_passport_id e = ''CREDENTIAL-'' @ uppercase (drop 7 (oa_hash (pe_original e)))"

definition assertPassportEntryEligible :: "platform \<Rightarrow> passport_entry \<Rightarrow> unit result" where
  "assertPassportEntryEligible P e = bindE (assertCredentialContract P ''credential-passport'' (passport_json e)) (\<lambda>_.
     if \<not> vr_eligible (pe_verification e) \<or> vr_overall (pe_verification e) \<noteq> OverallVerified
     then throw ''Credential is not eligible for claim mapping''
     else if pe_hash e \<noteq> hash_json P (pe_credential e) then throw ''Credential passport canonical hash is invalid''
     else if pe_id e \<noteq> expected_passport_id e then throw ''Credential passport entry id is not bound to the original hash''
     else Inr ())"

definition assertMappingBound :: "platform \<Rightarrow> passport_entry \<Rightarrow> claim_mapping \<Rightarrow> unit result" where
  "assertMappingBound P e m = bindE (assertCredentialContract P ''credential-mapping'' (mapping_json m)) (\<lambda>_.
     if mp_credential_hash m \<noteq> pe_hash e \<or> Some (mp_credential m) \<noteq> cs_credential (pe_summary e)
     then throw ''Credential mapping is not bound to this passport entry''
     else if mp_hash m \<noteq> computeCredentialMappingHash P m then throw ''Credential mapping hash is invalid''
     else Inr ())"

definition MAX_CLOCK_SKEW_MS :: int where
  "MAX_CLOCK_SKEW_MS = 5 * 60 * 1000"

definition MAX_APPROVAL_WINDOW_MS :: int where
  "MAX_APPROVAL_WINDOW_MS = 24 * 60 * 60 * 1000"

definition assertApprovalValid :: "platform \<Rightarrow> passport_entry \<Rightarrow> claim_mapping \<Rightarrow> mapping_approval \<Rightarrow> int \<Rightarrow> unit result" where
  "assertApprovalValid P e m a now = (
     if ma_hash a \<noteq> mp_hash m then throw ''Credential mapping approval hash does not match the mapping''
     else if \<not> validIdentifier (ma_id a) \<or> \<not> validIdentifier (ma_approver a) then throw ''Credential mapping approval identity is invalid''
     else if \<not> receipt_hash_pattern (ma_receipt a) then throw ''Credential mapping approval signature receipt hash is invalid''
     else if (case (parse_date P (ma_approved a), parse_date P (ma_expires a)) of
         (Some t, Some x) \<Rightarrow> x \<le> t \<or> MAX_APPROVAL_WINDOW_MS < x - t \<or> now + MAX_CLOCK_SKEW_MS < t \<or> x \<le> now
       | _ \<Rightarrow> True) then throw ''Credential mapping approval is not currently valid''
     else if ma_public a \<and> \<not> mp_request_public m then throw ''Credential mapping approval exceeds the requested public scope''
     else if ma_auto a \<and> (\<not> mp_request_auto m \<or> \<not> mp_request_public m \<or> \<not> ma_public a)
     then throw ''Credential mapping approval exceeds the requested automatic scope''
     else if (ma_public a \<or> ma_auto a) \<and> hasAudienceRestriction e
     then throw ''Audience restricted credentials cannot be approved for public or automatic use''
     else Inr ())"

section \<open>Operations\<close>

definition createCredentialClaimMapping :: "platform \<Rightarrow> passport_entry \<Rightarrow> mapping_draft \<Rightarrow> claim_mapping result" where
  "createCredentialClaimMapping P e d = (
     if \<not> validIdentifier (md_id d) then throw ''Credential mapping id is invalid''
     else if \<not> validClaimText (md_text d) then throw ''Credential mapping claim text is invalid''
     else case cs_credential (pe_summary e) of None \<Rightarrow> throw ''Credential id is required before claim mapping'' | Some cid \<Rightarrow>
     if cid = [] then throw ''Credential id is required before claim mapping''
     else let pub = (case md_public d of None \<Rightarrow> False | Some b \<Rightarrow> b); auto = (case md_auto d of None \<Rightarrow> False | Some b \<Rightarrow> b) in
       if auto \<and> \<not> pub then throw ''Automatic use cannot be requested without public disclosure review''
       else let m0 = \<lparr>mp_id = md_id d, mp_credential = cid, mp_credential_hash = pe_hash e, mp_type = md_type d, mp_text = trim (md_text d),
           mp_pointer = ''credential:'' @ oa_hash (pe_original e) @ ''#credentialSubject.achievement'', mp_request_public = pub,
           mp_request_auto = auto, mp_public = False, mp_auto = False, mp_status = MappingPending, mp_hash = [], mp_approval = None\<rparr>;
         m = m0\<lparr>mp_hash := computeCredentialMappingHash P m0\<rparr> in
         bindE (assertCredentialContract P ''credential-mapping'' (mapping_json m)) (\<lambda>_. Inr m))"

definition approveCredentialClaimMapping ::
  "platform \<Rightarrow> passport_entry \<Rightarrow> claim_mapping \<Rightarrow> mapping_approval \<Rightarrow> int \<Rightarrow> claim_mapping result" where
  "approveCredentialClaimMapping P e m a now = (
     if max_time < \<bar>now\<bar> then throw ''Credential mapping approval time is invalid''
     else bindE (assertPassportEntryEligible P e) (\<lambda>_.
     if mp_status m \<noteq> MappingPending \<or> mp_approval m \<noteq> None then throw ''Credential mapping has already been approved''
     else bindE (assertMappingBound P e m) (\<lambda>_.
     bindE (assertApprovalValid P e m a now) (\<lambda>_.
       let m' = m\<lparr>mp_public := ma_public a, mp_auto := ma_auto a, mp_status := MappingApproved, mp_approval := Some a\<rparr> in
       bindE (assertCredentialContract P ''credential-mapping'' (mapping_json m')) (\<lambda>_. Inr m')))))"

definition addCredentialMapping :: "platform \<Rightarrow> passport_entry \<Rightarrow> claim_mapping \<Rightarrow> int \<Rightarrow> passport_entry result" where
  "addCredentialMapping P e m now = (
     if max_time < \<bar>now\<bar> then throw ''Credential mapping attachment time is invalid''
     else if mp_status m \<noteq> MappingApproved then throw ''Credential mapping requires explicit approval before it can enter the passport''
     else case mp_approval m of None \<Rightarrow> throw ''Credential mapping requires explicit approval before it can enter the passport'' | Some a \<Rightarrow>
     bindE (assertPassportEntryEligible P e) (\<lambda>_.
     bindE (assertMappingBound P e m) (\<lambda>_.
     bindE (assertApprovalValid P e m a now) (\<lambda>_.
     if mp_public m \<noteq> ma_public a \<or> mp_auto m \<noteq> ma_auto a then throw ''Credential mapping flags do not match the explicit approval''
     else if list_ex (\<lambda>x. mp_id x = mp_id m) (pe_mappings e) then throw (''Credential mapping already exists: '' @ mp_id m)
     else let e' = e\<lparr>pe_mappings := sort_key (\<lambda>x. coll_key P (mp_id x)) (pe_mappings e @ [m])\<rparr> in
       bindE (assertCredentialContract P ''credential-passport'' (passport_json e')) (\<lambda>_. Inr e')))))"

section \<open>The checks of the repository\<close>

text \<open>After the contract, in the order of the code.\<close>

definition plan_checks :: "platform \<Rightarrow> claim_mapping \<Rightarrow> unit result" where
  "plan_checks P m = (
     if mp_hash m \<noteq> computeCredentialMappingHash P m then throw ''Credential mapping plan hash is invalid''
     else if mp_request_auto m \<and> \<not> mp_request_public m then throw ''Credential mapping plan automatic use requires public review''
     else if mp_status m = MappingPending
     then (if mp_approval m \<noteq> None \<or> mp_public m \<or> mp_auto m then throw ''Pending credential mapping plans cannot carry approved permissions''
       else Inr ())
     else case mp_approval m of None \<Rightarrow> throw ''Approved credential mapping plans require an approval'' | Some a \<Rightarrow>
     if (case (parse_date P (ma_approved a), parse_date P (ma_expires a)) of
         (Some t, Some x) \<Rightarrow> x \<le> t \<or> 24 * 60 * 60000 < x - t | _ \<Rightarrow> True)
     then throw ''Credential mapping plan approval window is invalid''
     else if ma_hash a \<noteq> mp_hash m \<or> mp_public m \<noteq> ma_public a \<or> mp_auto m \<noteq> ma_auto a \<or> (ma_public a \<and> \<not> mp_request_public m) \<or>
       (ma_auto a \<and> (\<not> mp_request_auto m \<or> \<not> mp_request_public m \<or> \<not> ma_public a))
     then throw ''Credential mapping plan approval is not bound to its permissions''
     else Inr ())"

definition assertCredentialMappingPlan :: "platform \<Rightarrow> claim_mapping \<Rightarrow> unit result" where
  "assertCredentialMappingPlan P m = bindE (assertCredentialContract P ''credential-mapping'' (mapping_json m)) (\<lambda>_. plan_checks P m)"

text \<open>The loop over the mappings of a passport, with the identifiers seen.\<close>

fun passport_mappings :: "platform \<Rightarrow> passport_entry \<Rightarrow> string list \<Rightarrow> claim_mapping list \<Rightarrow> unit result" where
  "passport_mappings P e seen [] = Inr ()"
| "passport_mappings P e seen (m # ms) = bindE (assertCredentialMappingPlan P m) (\<lambda>_.
     if mp_status m \<noteq> MappingApproved \<or> mp_approval m = None then throw ''Credential passport can contain only approved mappings''
     else if mp_id m \<in> set seen then throw ''Credential passport contains duplicate mappings''
     else if mp_credential_hash m \<noteq> pe_hash e \<or> Some (mp_credential m) \<noteq> cs_credential (pe_summary e)
     then throw ''Credential passport mapping is not bound to its credential''
     else passport_mappings P e (mp_id m # seen) ms)"

definition assertCredentialPassport :: "platform \<Rightarrow> passport_entry \<Rightarrow> unit result" where
  "assertCredentialPassport P e = (let v = pe_verification e in
     bindE (assertCredentialContract P ''credential-passport'' (passport_json e)) (\<lambda>_.
     if pe_hash e \<noteq> hash_json P (pe_credential e) then throw ''Credential passport canonical hash is invalid''
     else if pe_id e \<noteq> expected_passport_id e then throw ''Credential passport id is not bound to its original artifact hash''
     else if vr_eligible v \<and> vr_overall v \<noteq> OverallVerified then throw ''Credential passport mapping eligibility requires verified status''
     else if vr_eligible v \<noteq> (vr_overall v = OverallVerified)
     then throw ''Credential passport verification outcome and mapping eligibility are inconsistent''
     else if vr_overall v = OverallVerified \<and>
       (list_ex (\<lambda>c. cc_status c \<noteq> CheckPass) [vr_schema v, vr_signature v, vr_issuer v, vr_subject v, vr_time v] \<or>
        cc_status (vr_revocation v) \<notin> {CheckPass, CheckNotApplicable} \<or> cc_status (vr_refresh v) \<notin> {CheckPass, CheckNotApplicable})
     then throw ''Verified credential passport contains a non-verifying check''
     else passport_mappings P e [] (pe_mappings e)))"

text \<open>Dates the samples of this development use.\<close>

lemma sample_start: "parse_date sample_signing ''2026-01-01T00:00:00.000Z'' = Some 1767225600000"
  by code_simp

lemma sample_end: "parse_date sample_signing ''2026-01-01T12:00:00.000Z'' = Some 1767268800000"
  by code_simp

end
