(* ===== verification/DecisionStore.thy ===== *)
theory DecisionStore
  imports VersionedLog GrantLedger
begin

text \<open>
  The versioned records of src/src/storage/decision-intelligence-repositories.ts over the encrypted event store. A command
  carries an authority request identifier and the version it expects; it appends one event with a derived identifier
  and then a receipt. A command that is repeated answers with the event it wrote, and writes the receipt that
  a crash left out. A domain is given by its descriptor, as in the code.
\<close>

record descriptor =
  ds_domain :: string
  ds_operation :: string
  ds_id :: "json \<Rightarrow> string"
  ds_validate :: "json \<Rightarrow> unit result"

record decision_command =
  dc_value :: json
  dc_expected :: int
  dc_request :: string
  dc_now :: int

record replay_input =
  rp_request :: string
  rp_hash :: string
  rp_operation :: string
  rp_event :: string

definition DECISION_EVENT_TYPE :: string where
  "DECISION_EVENT_TYPE = ''decision-intelligence-record-put''"

definition RECORD_KEYS :: "string list" where
  "RECORD_KEYS = [''domain'', ''recordId'', ''version'', ''value'', ''valueHash'', ''authority'', ''recordedAt'']"

definition AUTHORITY_KEYS :: "string list" where
  "AUTHORITY_KEYS = [''requestId'', ''requestHash'', ''operation'']"

text \<open>The text a regular expression sees when it is applied to a value: \<open>String(value)\<close>.\<close>

fun string_of :: "json \<Rightarrow> string" where
  "string_of JUndef = ''undefined''"
| "string_of JNull = ''null''"
| "string_of (JBool b) = (if b then ''true'' else ''false'')"
| "string_of (JNum n) = int_str n"
| "string_of (JStr s) = s"
| "string_of (JArr vs) = joins '','' (map (\<lambda>v. if v = JNull \<or> v = JUndef then [] else string_of v) vs)"
| "string_of (JObj es) = ''[object Object]''"

definition assertRecordIdentifier :: "string \<Rightarrow> string \<Rightarrow> unit result" where
  "assertRecordIdentifier s label = (if identifier_ok s then Inr () else throw (label @ '' is invalid''))"

definition assertDecisionRequestId :: "string \<Rightarrow> unit result" where
  "assertDecisionRequestId s = (if authority_request_id_pattern s then Inr ()
     else throw ''Decision intelligence authority request id is invalid'')"

definition assertExpectedVersion :: "int \<Rightarrow> unit result" where
  "assertExpectedVersion n = (if \<bar>n\<bar> \<le> MAX_SAFE \<and> 0 \<le> n then Inr ()
     else throw ''Decision intelligence expected version must be a non-negative safe integer'')"

definition assertTimestampAt :: "platform \<Rightarrow> json \<Rightarrow> string \<Rightarrow> unit result" where
  "assertTimestampAt P j label = (case jstr j of None \<Rightarrow> throw (label @ '' must be a canonical ISO date-time'')
     | Some s \<Rightarrow> assertGrantTimestamp P s label)"

definition decision_limits :: json_limits where
  "decision_limits = \<lparr>jl_nodes = 200000, jl_depth = 128, jl_node_msg = ''Decision intelligence record exceeds the JSON node limit'',
     jl_depth_msg = ''Decision intelligence record exceeds the JSON depth limit'',
     jl_value_msg = ''Decision intelligence records must contain only JSON-compatible values''\<rparr>"

definition assertCanonicalJson :: "json \<Rightarrow> unit result" where
  "assertCanonicalJson j = bindE (visit_json decision_limits 0 j 0) (\<lambda>_. Inr ())"

definition canonicalClone :: "platform \<Rightarrow> json \<Rightarrow> json result" where
  "canonicalClone P j = bindE (assertCanonicalJson j) (\<lambda>_. case json_parse (stable_stringify (coll_key P) j) of
     None \<Rightarrow> throw ''Unexpected token in JSON'' | Some v \<Rightarrow> Inr v)"

definition aggregateType :: "string \<Rightarrow> string" where
  "aggregateType d = ''decision-'' @ d"

definition deterministicEventId :: "platform \<Rightarrow> string \<Rightarrow> string" where
  "deterministicEventId P q = ''EVT-CMD-'' @ drop 7 (sha256 P q)"

definition canonicalRequestHash :: "platform \<Rightarrow> string \<Rightarrow> int \<Rightarrow> json \<Rightarrow> string" where
  "canonicalRequestHash P op n v = hash_json P (JObj [(''operation'', JStr op),
     (''payload'', JObj [(''expectedVersion'', JNum n), (''value'', v)])])"

section \<open>Records\<close>

definition verifyRecord :: "platform \<Rightarrow> descriptor \<Rightarrow> json \<Rightarrow> unit result" where
  "verifyRecord P D r = (
     if \<not> hasExactKeys r RECORD_KEYS then throw ''Decision intelligence record envelope is malformed''
     else if member r ''domain'' \<noteq> JStr (ds_domain D) then throw ''Decision intelligence record belongs to another domain''
     else bindE (assertRecordIdentifier (string_of (member r ''recordId'')) ''Decision intelligence record id'') (\<lambda>_.
     if (case jint (member r ''version'') of None \<Rightarrow> True | Some n \<Rightarrow> MAX_SAFE < \<bar>n\<bar> \<or> n < 1)
     then throw ''Decision intelligence record version is invalid''
     else bindE (assertTimestampAt P (member r ''recordedAt'') ''Decision intelligence record time'') (\<lambda>_.
     bindE (assertCanonicalJson (member r ''value'')) (\<lambda>_.
     bindE (ds_validate D (member r ''value'')) (\<lambda>_.
     if member r ''recordId'' \<noteq> JStr (ds_id D (member r ''value''))
     then throw ''Decision intelligence record id is not bound to its value''
     else if \<not> sha256_digest_pattern (string_of (member r ''valueHash'')) \<or> member r ''valueHash'' \<noteq> JStr (hash_json P (member r ''value''))
     then throw ''Decision intelligence record value hash is invalid''
     else if \<not> hasExactKeys (member r ''authority'') AUTHORITY_KEYS
     then throw ''Decision intelligence authority binding is malformed''
     else bindE (assertDecisionRequestId (string_of (member (member r ''authority'') ''requestId''))) (\<lambda>_.
     if member (member r ''authority'') ''operation'' \<noteq> JStr (ds_operation D)
     then throw ''Decision intelligence authority operation is invalid''
     else if member (member r ''authority'') ''requestHash'' \<noteq>
       JStr (canonicalRequestHash P (ds_operation D) (int_at r ''version'' - 1) (member r ''value''))
     then throw ''Decision intelligence authority request hash is invalid''
     else Inr ()))))))"

text \<open>The checks of an event after its record, from the aggregate it is bound to on.\<close>

definition eventBinding :: "platform \<Rightarrow> stored_event \<Rightarrow> json \<Rightarrow> json result" where
  "eventBinding P e r = (let a = member r ''authority''; au = member (member (se_payload e) ''metadata'') ''authority'' in
     if JStr (se_aggregate e) \<noteq> member r ''recordId'' \<or> JStr (se_time e) \<noteq> member r ''recordedAt''
     then throw ''Decision intelligence event is not bound to its record aggregate''
     else case jstr (member a ''requestId'') of None \<Rightarrow> throw ''The data argument must be of type string'' | Some q \<Rightarrow>
     if se_id e \<noteq> deterministicEventId P q
     then throw ''Decision intelligence event id is not bound to its authority request''
     else if stable_stringify (coll_key P) (member (se_payload e) ''response'') \<noteq> stable_stringify (coll_key P) r
     then throw ''Decision intelligence event response is not bound to its record''
     else if \<not> hasExactKeys (member (se_payload e) ''metadata'') [''authority''] \<or>
       \<not> hasExactKeys au [''requestId'', ''requestHash'', ''operation'', ''responseHash'']
     then throw ''Decision intelligence event authority metadata is malformed''
     else if member au ''requestId'' \<noteq> member a ''requestId'' \<or> member au ''requestHash'' \<noteq> member a ''requestHash'' \<or>
       member au ''operation'' \<noteq> member a ''operation'' \<or> member au ''responseHash'' \<noteq> JStr (hash_json P r)
     then throw ''Decision intelligence event authority binding is invalid''
     else Inr r)"

definition recordFromEvent :: "platform \<Rightarrow> descriptor \<Rightarrow> stored_event \<Rightarrow> json result" where
  "recordFromEvent P D e = (
     if se_aggregate_type e \<noteq> aggregateType (ds_domain D) \<or> se_type e \<noteq> DECISION_EVENT_TYPE \<or> se_version e \<noteq> EVENT_SCHEMA_VERSION
     then throw ''Decision intelligence event contract is invalid''
     else if \<not> hasExactKeys (se_payload e) [''record'', ''response'', ''metadata'']
     then throw ''Decision intelligence event payload is malformed''
     else bindE (verifyRecord P D (member (se_payload e) ''record'')) (\<lambda>_. eventBinding P e (member (se_payload e) ''record'')))"

text \<open>An event as the record of its place in the aggregate.\<close>

definition recordAt :: "platform \<Rightarrow> descriptor \<Rightarrow> int \<Rightarrow> stored_event \<Rightarrow> json result" where
  "recordAt P D i e = bindE (recordFromEvent P D e) (\<lambda>r. if member r ''version'' \<noteq> JNum (i + 1)
     then throw (''Decision intelligence version gap at '' @ string_of (member r ''recordId'')) else Inr r)"

definition recordsFromEvents :: "platform \<Rightarrow> descriptor \<Rightarrow> stored_event list \<Rightarrow> json list result" where
  "recordsFromEvents P D es = mapiE (recordAt P D) 0 es"

section \<open>Receipts\<close>

definition verifyReceipt :: "platform \<Rightarrow> authority_receipt \<Rightarrow> authority_receipt \<Rightarrow> unit result" where
  "verifyReceipt P r i = (if au_request r \<noteq> au_request i \<or> au_hash r \<noteq> au_hash i \<or> au_operation r \<noteq> au_operation i \<or>
       au_event r \<noteq> au_event i \<or> au_response r \<noteq> au_response i \<or> au_completed r \<noteq> au_completed i
     then throw ''Decision intelligence authority receipt binding is invalid''
     else assertGrantTimestamp P (au_completed r) ''Decision intelligence receipt time'')"

definition persistReceipt :: "platform \<Rightarrow> authority_receipt \<Rightarrow> store \<Rightarrow> store result" where
  "persistReceipt P r st = (case recordAuthorityReceipt st r of Inr st' \<Rightarrow> Inr st'
     | Inl e \<Rightarrow> bindE (findAuthorityReceipt st (au_request r)) (\<lambda>x. case x of None \<Rightarrow> Inl e
       | Some old \<Rightarrow> bindE (verifyReceipt P old (r\<lparr>au_event := Some (case au_event r of None \<Rightarrow> [] | Some v \<Rightarrow> v)\<rparr>)) (\<lambda>_. Inr st)))"

definition receipt_of :: "platform \<Rightarrow> replay_input \<Rightarrow> json \<Rightarrow> string \<Rightarrow> authority_receipt" where
  "receipt_of P i response completed = \<lparr>au_request = rp_request i, au_hash = rp_hash i, au_operation = rp_operation i,
     au_event = Some (rp_event i), au_response = hash_json P response, au_completed = completed\<rparr>"

definition replayOrReject ::
  "platform \<Rightarrow> crypto \<Rightarrow> descriptor \<Rightarrow> replay_input \<Rightarrow> store \<Rightarrow> (store \<times> json option) result" where
  "replayOrReject P C D i st = bindE (findAuthorityReceipt st (rp_request i)) (\<lambda>x. case x of
       Some r \<Rightarrow>
         if au_hash r \<noteq> rp_hash i \<or> au_operation r \<noteq> rp_operation i
         then throw ''Decision intelligence authority request id was reused with different parameters''
         else if au_event r \<noteq> Some (rp_event i)
         then throw ''Decision intelligence authority receipt references a non-deterministic event''
         else bindE (readEvent P C st (rp_event i)) (\<lambda>e. case e of
           None \<Rightarrow> throw ''Decision intelligence authority receipt references a missing event''
         | Some ev \<Rightarrow> bindE (recordFromEvent P D ev) (\<lambda>response.
             bindE (verifyReceipt P r (receipt_of P i response (se_time ev))) (\<lambda>_. Inr (st, Some response))))
     | None \<Rightarrow> bindE (readEvent P C st (rp_event i)) (\<lambda>e. case e of
           None \<Rightarrow> Inr (st, None)
         | Some ev \<Rightarrow> bindE (recordFromEvent P D ev) (\<lambda>response.
             if member (member response ''authority'') ''requestId'' \<noteq> JStr (rp_request i) \<or>
               member (member response ''authority'') ''requestHash'' \<noteq> JStr (rp_hash i) \<or>
               member (member response ''authority'') ''operation'' \<noteq> JStr (rp_operation i)
             then throw ''Decision intelligence deterministic event is bound to another authority request''
             else bindE (persistReceipt P (receipt_of P i response (se_time ev)) st) (\<lambda>st'. Inr (st', Some response)))))"

section \<open>Operations\<close>

definition record_json :: "platform \<Rightarrow> descriptor \<Rightarrow> string \<Rightarrow> int \<Rightarrow> json \<Rightarrow> string \<Rightarrow> string \<Rightarrow> string \<Rightarrow> json" where
  "record_json P D rid n v q h at = JObj [(''domain'', JStr (ds_domain D)), (''recordId'', JStr rid), (''version'', JNum n), (''value'', v),
     (''valueHash'', JStr (hash_json P v)),
     (''authority'', JObj [(''requestId'', JStr q), (''requestHash'', JStr h), (''operation'', JStr (ds_operation D))]),
     (''recordedAt'', JStr at)]"

definition record_payload :: "platform \<Rightarrow> descriptor \<Rightarrow> json \<Rightarrow> string \<Rightarrow> string \<Rightarrow> json" where
  "record_payload P D r q h = JObj [(''record'', r), (''response'', r), (''metadata'', JObj [(''authority'',
     JObj [(''requestId'', JStr q), (''requestHash'', JStr h), (''operation'', JStr (ds_operation D)), (''responseHash'', JStr (hash_json P r))])])]"

definition record_event :: "platform \<Rightarrow> descriptor \<Rightarrow> json \<Rightarrow> string \<Rightarrow> string \<Rightarrow> string \<Rightarrow> int \<Rightarrow> append_input" where
  "record_event P D r q h eid now = \<lparr>ae_id = Some eid, ae_aggregate_type = aggregateType (ds_domain D),
     ae_aggregate = string_of (member r ''recordId''), ae_type = DECISION_EVENT_TYPE, ae_version = EVENT_SCHEMA_VERSION,
     ae_payload = record_payload P D r q h, ae_time = now\<rparr>"

definition replay_of :: "platform \<Rightarrow> descriptor \<Rightarrow> decision_command \<Rightarrow> json \<Rightarrow> replay_input" where
  "replay_of P D c v = \<lparr>rp_request = dc_request c, rp_hash = canonicalRequestHash P (ds_operation D) (dc_expected c) v,
     rp_operation = ds_operation D, rp_event = deterministicEventId P (dc_request c)\<rparr>"

text \<open>The next record of a command that is not a replay.\<close>

definition next_record :: "platform \<Rightarrow> crypto \<Rightarrow> descriptor \<Rightarrow> decision_command \<Rightarrow> json \<Rightarrow> store \<Rightarrow> json result" where
  "next_record P C D c v st = bindE (ds_validate D v) (\<lambda>_.
     bindE (assertRecordIdentifier (ds_id D v) ''Decision intelligence record id'') (\<lambda>_.
     bindE (readAggregate P C st (aggregateType (ds_domain D)) (ds_id D v)) (\<lambda>es.
     bindE (recordsFromEvents P D es) (\<lambda>existing.
     let current = (case last_opt existing of None \<Rightarrow> 0 | Some r \<Rightarrow> int_at r ''version'') in
     if current \<noteq> dc_expected c
     then throw (''Decision intelligence version conflict, expected '' @ int_str (dc_expected c) @ '', current '' @ int_str current)
     else if max_time < \<bar>dc_now c\<bar> then throw ''Decision intelligence operation time is invalid''
     else let r = record_json P D (ds_id D v) (current + 1) v (dc_request c)
         (canonicalRequestHash P (ds_operation D) (dc_expected c) v) (to_iso (dc_now c)) in
       bindE (verifyRecord P D r) (\<lambda>_. Inr r)))))"

definition append_record ::
  "platform \<Rightarrow> crypto \<Rightarrow> descriptor \<Rightarrow> decision_command \<Rightarrow> json \<Rightarrow> json \<Rightarrow> string \<Rightarrow> string \<Rightarrow> string \<Rightarrow> store \<Rightarrow> (store \<times> stored_event) result" where
  "append_record P C D c v r uuid n n' st = append_event P C st (record_event P D r (dc_request c)
     (canonicalRequestHash P (ds_operation D) (dc_expected c) v) (deterministicEventId P (dc_request c)) (dc_now c)) uuid n n'"

definition record_command ::
  "platform \<Rightarrow> crypto \<Rightarrow> descriptor \<Rightarrow> decision_command \<Rightarrow> string \<Rightarrow> string \<Rightarrow> string \<Rightarrow> store \<Rightarrow> (store \<times> json) result" where
  "record_command P C D c uuid n n' st = bindE (assertExpectedVersion (dc_expected c)) (\<lambda>_.
     bindE (assertDecisionRequestId (dc_request c)) (\<lambda>_.
     bindE (canonicalClone P (dc_value c)) (\<lambda>v.
     bindE (replayOrReject P C D (replay_of P D c v) st) (\<lambda>(st1, replay). case replay of
       Some r \<Rightarrow> Inr (st1, r)
     | None \<Rightarrow> bindE (next_record P C D c v st1) (\<lambda>r.
         bindE (append_record P C D c v r uuid n n' st1) (\<lambda>(st2, ev).
         bindE (persistReceipt P (receipt_of P (replay_of P D c v) r (to_iso (dc_now c))) st2) (\<lambda>st3. Inr (st3, r))))))))"

definition get_decision :: "platform \<Rightarrow> crypto \<Rightarrow> descriptor \<Rightarrow> string \<Rightarrow> store \<Rightarrow> json option result" where
  "get_decision P C D rid st = bindE (assertRecordIdentifier rid ''Decision intelligence record id'') (\<lambda>_.
     bindE (readAggregate P C st (aggregateType (ds_domain D)) rid) (\<lambda>es.
     bindE (recordsFromEvents P D es) (\<lambda>rs. Inr (last_opt rs))))"

definition list_decisions :: "platform \<Rightarrow> crypto \<Rightarrow> descriptor \<Rightarrow> store \<Rightarrow> json list result" where
  "list_decisions P C D st = bindE (readAll P C st) (\<lambda>all.
     let es = filter (\<lambda>e. se_aggregate_type e = aggregateType (ds_domain D)) all in
     bindE (mapE (\<lambda>a. recordsFromEvents P D (filter (\<lambda>e. se_aggregate e = a) es)) (dedup (map se_aggregate es))) (\<lambda>groups.
     Inr (sort_key (\<lambda>r. coll_key P (string_of (member r ''recordId''))) (List.map_filter last_opt groups))))"

end
