(* ===== verification/DecisionEvents.thy ===== *)
theory DecisionEvents
  imports DecisionStore
begin

text \<open>
  What a decision record that verifies is, and that the event written for it is read back as its canonical form.
\<close>

section \<open>Canonical values\<close>

definition storable :: "json \<Rightarrow> bool" where
  "storable j = (defined j \<and> nested 128 j \<and> nodes j \<le> 200000)"

lemma canonical_json_iff: "assertCanonicalJson j = Inr u \<longleftrightarrow> storable j"
  by (auto simp: assertCanonicalJson_def visit_iff decision_limits_def storable_def simp del: visit_json.simps)

lemma storable_canon: "sound_json j \<Longrightarrow> storable (canon ck j) = storable j"
proof -
  assume j: "sound_json j"
  have "nested 128 (canon ck j) = nested 128 j" "nodes (canon ck j) = nodes j" "defined (canon ck j) = defined j"
    using sound_canon [OF j, of ck] nested_sort nodes_sort defined_sort by metis+
  then show ?thesis by (simp add: storable_def)
qed

lemma sound_canonical: "sound_json j \<Longrightarrow> sound_json (canon ck j)"
  using sound_canon sound_sort by metis

lemma clone_value:
  assumes "wf_keys v"
  shows "canonicalClone P v = Inr w \<longleftrightarrow> storable v \<and> w = canon (coll_key P) v"
proof (cases "storable v")
  case True
  then have "array_safe v \<and> v \<noteq> JUndef" using defined_safe by (auto simp: storable_def)
  then have "json_parse (stable_stringify (coll_key P) v) = Some (canon (coll_key P) v)" using json_parse_stringify assms by blast
  moreover have "assertCanonicalJson v = Inr ()" using True by (simp add: canonical_json_iff)
  ultimately show ?thesis using True by (auto simp: canonicalClone_def)
next
  case False
  then have "assertCanonicalJson v \<noteq> Inr u" for u by (simp add: canonical_json_iff)
  then show ?thesis using False by (auto simp: canonicalClone_def bindE_Inr_iff)
qed

section \<open>Records that verify\<close>

definition valid_record :: "platform \<Rightarrow> descriptor \<Rightarrow> json \<Rightarrow> bool" where
  "valid_record P D r = (let v = member r ''value''; a = member r ''authority'' in
     hasExactKeys r RECORD_KEYS \<and> member r ''domain'' = JStr (ds_domain D) \<and> identifier_ok (ds_id D v) \<and>
     member r ''recordId'' = JStr (ds_id D v) \<and> storable v \<and> ds_validate D v = Inr () \<and>
     (\<exists>s. member r ''recordedAt'' = JStr s \<and> assertGrantTimestamp P s ''Decision intelligence record time'' = Inr ()) \<and>
     sha256_digest_pattern (hash_json P v) \<and> member r ''valueHash'' = JStr (hash_json P v) \<and> hasExactKeys a AUTHORITY_KEYS \<and>
     authority_request_id_pattern (string_of (member a ''requestId'')) \<and> member a ''operation'' = JStr (ds_operation D) \<and>
     (\<exists>n. member r ''version'' = JNum n \<and> 1 \<le> n \<and> n \<le> MAX_SAFE \<and>
        member a ''requestHash'' = JStr (canonicalRequestHash P (ds_operation D) (n - 1) v)))"

lemma verify_iff: "verifyRecord P D r = Inr () \<longleftrightarrow> valid_record P D r"
proof -
  have n: "\<not> (case jint j of None \<Rightarrow> True | Some n \<Rightarrow> MAX_SAFE < \<bar>n\<bar> \<or> n < 1) \<longleftrightarrow> (\<exists>n. j = JNum n \<and> 1 \<le> n \<and> n \<le> MAX_SAFE)" for j
    by (cases j) auto
  have t: "assertTimestampAt P j l = Inr (u :: unit) \<longleftrightarrow> (\<exists>s. j = JStr s \<and> assertGrantTimestamp P s l = Inr ())" for j l u
    by (cases j) (auto simp: assertTimestampAt_def)
  show ?thesis
    unfolding verifyRecord_def if_Inl_Inr bindE_Inr_iff n t canonical_json_iff assertRecordIdentifier_def assertDecisionRequestId_def valid_record_def Let_def
    by (auto simp: int_at_def)
qed

lemma string_canon: "string_of (canon ck j) = string_of j"
proof (induction j)
  case (JArr vs)
  have n: "canon ck v = JNull \<longleftrightarrow> v = JNull" for v by (cases v) simp_all
  have "map (\<lambda>x. if x = JNull \<or> x = JUndef then [] else string_of (canon ck x)) vs = map (\<lambda>v. if v = JNull \<or> v = JUndef then [] else string_of v) vs"
    using JArr by (intro map_cong) auto
  then show ?case unfolding canon.simps string_of.simps list.map_comp comp_def n canon_undef by (rule arg_cong)
qed simp_all

lemma valid_canon:
  assumes "sound_json r" and "valid_record P D r" and "canon ck (member r ''value'') = member r ''value''"
  shows "valid_record P D (canon ck r)"
proof -
  note v = assms(2) [unfolded valid_record_def Let_def]
  have "sound_json (member r ''authority'')"
    using v by (intro sound_member [OF assms(1)]) (auto simp: hasExactKeys_def)
  note m = member_canon [OF assms(1), of ck] member_canon [OF this, of ck] exact_keys_canon [OF this] exact_keys_canon [OF assms(1)]
  show ?thesis unfolding valid_record_def Let_def m assms(3) string_canon using v by auto
qed

text \<open>What an event must carry besides its record.\<close>

definition bound_event :: "platform \<Rightarrow> descriptor \<Rightarrow> stored_event \<Rightarrow> json \<Rightarrow> bool" where
  "bound_event P D e r = (let a = member r ''authority''; au = member (member (se_payload e) ''metadata'') ''authority'' in
     member r ''recordId'' = JStr (se_aggregate e) \<and> member r ''recordedAt'' = JStr (se_time e) \<and>
     (\<exists>q. member a ''requestId'' = JStr q \<and> se_id e = deterministicEventId P q) \<and>
     stable_stringify (coll_key P) (member (se_payload e) ''response'') = stable_stringify (coll_key P) r \<and>
     hasExactKeys (member (se_payload e) ''metadata'') [''authority''] \<and>
     hasExactKeys au [''requestId'', ''requestHash'', ''operation'', ''responseHash''] \<and> member au ''requestId'' = member a ''requestId'' \<and>
     member au ''requestHash'' = member a ''requestHash'' \<and> member au ''operation'' = member a ''operation'' \<and>
     member au ''responseHash'' = JStr (hash_json P r))"

lemma binding_bound: "eventBinding P e r = Inr r' \<longleftrightarrow> r' = r \<and> bound_event P D e r"
proof (cases "jstr (member (member r ''authority'') ''requestId'')")
  case None
  then have "member (member r ''authority'') ''requestId'' \<noteq> JStr q" for q by auto
  then show ?thesis using None by (auto simp: eventBinding_def bound_event_def Let_def)
next
  case (Some q)
  then have "member (member r ''authority'') ''requestId'' = JStr q" by (cases "member (member r ''authority'') ''requestId''") auto
  then show ?thesis unfolding eventBinding_def bound_event_def Let_def if_Inl_Inr Some option.case by auto
qed

lemma record_event_iff: "recordFromEvent P D e = Inr r \<longleftrightarrow> se_aggregate_type e = aggregateType (ds_domain D) \<and>
    se_type e = DECISION_EVENT_TYPE \<and> se_version e = EVENT_SCHEMA_VERSION \<and>
    hasExactKeys (se_payload e) [''record'', ''response'', ''metadata''] \<and> r = member (se_payload e) ''record'' \<and>
    valid_record P D r \<and> bound_event P D e r"
  unfolding recordFromEvent_def if_Inl_Inr bindE_Inr_iff verify_iff [symmetric] using binding_bound [where D = D] by auto

section \<open>The event of a record\<close>

lemma record_members:
  "member (record_json P D i n v q h t) ''domain'' = JStr (ds_domain D)" "member (record_json P D i n v q h t) ''recordId'' = JStr i"
  "member (record_json P D i n v q h t) ''version'' = JNum n" "member (record_json P D i n v q h t) ''value'' = v"
  "member (record_json P D i n v q h t) ''valueHash'' = JStr (hash_json P v)"
  "member (record_json P D i n v q h t) ''authority'' = JObj [(''requestId'', JStr q), (''requestHash'', JStr h), (''operation'', JStr (ds_operation D))]"
  "member (record_json P D i n v q h t) ''recordedAt'' = JStr t"
  by (simp_all add: record_json_def member_def)

lemma record_sound: "sound_json v \<Longrightarrow> sound_json (record_json P D i n v q h t)"
  by (simp add: record_json_def sound_json_def)

lemma payload_sound: "sound_json r \<Longrightarrow> sound_json (record_payload P D r q h)"
  by (simp add: record_payload_def sound_json_def)

lemma hash_canon: "sound_json j \<Longrightarrow> hash_json P (canon (coll_key P) j) = hash_json P j"
  by (simp add: stable_stringify_canon canon_canon del: canon.simps)

lemma record_event_read:
  assumes "sound_json r" and "valid_record P D r" and "canon (coll_key P) (member r ''value'') = member r ''value''"
    and a: "member (member r ''authority'') ''requestId'' = JStr q" "member (member r ''authority'') ''requestHash'' = JStr h"
    and e: "se_aggregate_type e = aggregateType (ds_domain D)" "se_type e = DECISION_EVENT_TYPE" "se_version e = EVENT_SCHEMA_VERSION"
      "member r ''recordId'' = JStr (se_aggregate e)" "member r ''recordedAt'' = JStr (se_time e)" "se_id e = deterministicEventId P q"
      "se_payload e = canon (coll_key P) (record_payload P D r q h)"
  shows "recordFromEvent P D e = Inr (canon (coll_key P) r)"
proof -
  let ?ck = "coll_key P"
  note v = assms(2) [unfolded valid_record_def Let_def]
  have sa: "sound_json (member r ''authority'')" using v by (intro sound_member [OF assms(1)]) (auto simp: hasExactKeys_def)
  have p: "sound_json (record_payload P D r q h)" by (rule payload_sound [OF assms(1)])
  have m: "member (se_payload e) ''record'' = canon ?ck r" "member (se_payload e) ''response'' = canon ?ck r"
    unfolding e(7) member_canon [OF p] by (simp_all add: record_payload_def member_def)
  let ?au = "JObj [(''requestId'', JStr q), (''requestHash'', JStr h), (''operation'', JStr (ds_operation D)), (''responseHash'', JStr (hash_json P r))]"
  have sm: "sound_json (JObj [(''authority'', ?au)])" by (simp add: sound_json_def)
  have sau: "sound_json ?au" by (simp add: sound_json_def)
  have md: "member (se_payload e) ''metadata'' = canon ?ck (JObj [(''authority'', ?au)])"
    unfolding e(7) member_canon [OF p] by (simp add: record_payload_def member_def)
  have au: "member (canon ?ck (JObj [(''authority'', ?au)])) ''authority'' = canon ?ck ?au"
    by (simp only: member_canon [OF sm]) (simp add: member_def)
  have ak: "hasExactKeys (canon ?ck ?au) [''requestId'', ''requestHash'', ''operation'', ''responseHash'']"
    unfolding exact_keys_canon [OF sau] by (simp add: hasExactKeys_def)
  have mk: "hasExactKeys (canon ?ck (JObj [(''authority'', ?au)])) [''authority'']"
    unfolding exact_keys_canon [OF sm] by (simp add: hasExactKeys_def)
  have keys: "hasExactKeys (se_payload e) [''record'', ''response'', ''metadata'']"
    unfolding e(7) exact_keys_canon [OF p] by (simp add: record_payload_def hasExactKeys_def)
  have am: "member (canon ?ck ?au) ''requestId'' = JStr q" "member (canon ?ck ?au) ''requestHash'' = JStr h"
    "member (canon ?ck ?au) ''operation'' = JStr (ds_operation D)" "member (canon ?ck ?au) ''responseHash'' = JStr (hash_json P r)"
    unfolding member_canon [OF sau] by (simp_all add: member_def)
  have "bound_event P D e (canon ?ck r)"
    unfolding bound_event_def Let_def m md au member_canon [OF assms(1)] member_canon [OF sa] am hash_canon [OF assms(1)]
    using e a v ak mk by (simp add: am del: canon.simps(7))
  then show ?thesis unfolding record_event_iff using m e keys valid_canon [OF assms(1-3)] by simp
qed

end
