(* ===== verification/DecisionRuns.thy ===== *)
theory DecisionRuns
  imports DecisionEvents
begin

text \<open>
  Runs of the decision repositories: what a command does to the history of its record, the steps of a store between
  two commands (other commands, a crash between the event and its receipt, other components), and what every such
  step preserves.
\<close>

section \<open>Histories\<close>

definition decision_history :: "platform \<Rightarrow> descriptor \<Rightarrow> string \<Rightarrow> stored_event list \<Rightarrow> json list result" where
  "decision_history P D rid es = history_of (recordAt P D) (aggregateType (ds_domain D)) rid es"

lemma aggregate_history: "readAll P C st = Inr es \<Longrightarrow>
    bindE (readAggregate P C st (aggregateType (ds_domain D)) rid) (\<lambda>xs. bindE (recordsFromEvents P D xs) k) = bindE (decision_history P D rid es) k"
  by (simp add: readAggregate_def recordsFromEvents_def decision_history_def history_of_def)

lemma recordAt_iff: "recordAt P D i e = Inr r \<longleftrightarrow> recordFromEvent P D e = Inr r \<and> member r ''version'' = JNum (i + 1)"
  by (auto simp: recordAt_def)

text \<open>Decision records are numbered by their place.\<close>

interpretation decisions: numbered_log "recordAt P D" for P D
  by unfold_locales (simp add: recordAt_iff)

lemma current_version: "decision_history P D rid es = Inr rs \<Longrightarrow>
    (case last_opt rs of None \<Rightarrow> 0 | Some r \<Rightarrow> int_at r ''version'') = int (length rs)"
  unfolding decision_history_def int_at_def by (rule decisions.current)

section \<open>An appended record\<close>

abbreviation request_hash_of :: "platform \<Rightarrow> descriptor \<Rightarrow> decision_command \<Rightarrow> json \<Rightarrow> string" where
  "request_hash_of P D c v \<equiv> canonicalRequestHash P (ds_operation D) (dc_expected c) v"

definition new_record :: "platform \<Rightarrow> descriptor \<Rightarrow> decision_command \<Rightarrow> json \<Rightarrow> json" where
  "new_record P D c v = record_json P D (ds_id D v) (dc_expected c + 1) v (dc_request c) (request_hash_of P D c v) (to_iso (dc_now c))"

lemma next_record_ok:
  assumes "readAll P C st = Inr es" and "next_record P C D c v st = Inr r"
  shows "r = new_record P D c v \<and> valid_record P D r \<and>
    (\<exists>rs. decision_history P D (ds_id D v) es = Inr rs \<and> int (length rs) = dc_expected c)"
proof -
  from assms(2) obtain rs where rs: "decision_history P D (ds_id D v) es = Inr rs"
    and rest: "(let current = (case last_opt rs of None \<Rightarrow> 0 | Some r \<Rightarrow> int_at r ''version'') in
     if current \<noteq> dc_expected c
     then throw (''Decision intelligence version conflict, expected '' @ int_str (dc_expected c) @ '', current '' @ int_str current)
     else if max_time < \<bar>dc_now c\<bar> then throw ''Decision intelligence operation time is invalid''
     else let r = record_json P D (ds_id D v) (current + 1) v (dc_request c) (request_hash_of P D c v) (to_iso (dc_now c)) in
       bindE (verifyRecord P D r) (\<lambda>_. Inr r)) = Inr r"
    unfolding next_record_def aggregate_history [OF assms(1)] bindE_Inr_iff by blast
  from rest show ?thesis unfolding current_version [OF rs] Let_def if_Inl_Inr bindE_Inr_iff using rs verify_iff
    by (auto simp: new_record_def)
qed

lemma new_record_appended:
  assumes "aead_ok C" and "hex_digest P" and "readAll P C st = Inr es" and "sound_json v" and "canon (coll_key P) v = v"
    and "valid_record P D (new_record P D c v)"
    and "append_record P C D c v (new_record P D c v) uuid n n' st = Inr (st', ev)"
  shows "\<exists>e. readAll P C st' = Inr (es @ [e]) \<and> recordFromEvent P D e = Inr (canon (coll_key P) (new_record P D c v)) \<and>
    se_aggregate_type e = aggregateType (ds_domain D) \<and> se_aggregate e = ds_id D v \<and> se_id e = deterministicEventId P (dc_request c) \<and>
    se_time e = to_iso (dc_now c)"
proof -
  let ?r = "new_record P D c v" and ?q = "dc_request c" and ?h = "request_hash_of P D c v"
  define i where "i = record_event P D ?r ?q ?h (deterministicEventId P ?q) (dc_now c)"
  have i: "ae_payload i = record_payload P D ?r ?q ?h" "ae_aggregate_type i = aggregateType (ds_domain D)" "ae_type i = DECISION_EVENT_TYPE"
    "ae_version i = EVENT_SCHEMA_VERSION" "ae_aggregate i = ds_id D v" "ae_time i = dc_now c" "ae_id i = Some (deterministicEventId P ?q)"
    by (simp_all add: i_def record_event_def new_record_def record_members)
  have s: "sound_json ?r" unfolding new_record_def by (rule record_sound [OF assms(4)])
  show ?thesis
  proof (rule store_append_reads [OF assms(1-3) assms(7) [unfolded append_record_def, folded i_def]])
    show "sound_json (ae_payload i)" unfolding i by (rule payload_sound [OF s])
    fix e assume e: "readAll P C st' = Inr (es @ [e])" "e = ev\<lparr>se_payload := canon (coll_key P) (ae_payload i)\<rparr>"
      and f: "se_aggregate_type e = ae_aggregate_type i" "se_type e = ae_type i" "se_version e = ae_version i"
        "se_aggregate e = ae_aggregate i" "se_time e = to_iso (ae_time i)" "\<forall>x. ae_id i = Some x \<longrightarrow> se_id e = x"
    have d: "se_id e = deterministicEventId P ?q" using f(6) i(7) by blast
    have "recordFromEvent P D e = Inr (canon (coll_key P) ?r)"
    proof (rule record_event_read [OF s assms(6)])
      show "canon (coll_key P) (member ?r ''value'') = member ?r ''value''" by (simp add: new_record_def record_members assms(5))
      show "member (member ?r ''authority'') ''requestId'' = JStr ?q" "member (member ?r ''authority'') ''requestHash'' = JStr ?h"
        unfolding new_record_def record_members by (simp_all add: member_def)
      show "member ?r ''recordId'' = JStr (se_aggregate e)" "member ?r ''recordedAt'' = JStr (se_time e)"
        unfolding f(4,5) i by (simp_all add: new_record_def record_members)
      show "se_payload e = canon (coll_key P) (record_payload P D ?r ?q ?h)" unfolding e(2) i by simp
    qed (use f(1-3) i d in simp_all)
    then show ?thesis using e(1) f i d by auto
  qed
qed

section \<open>Commands\<close>

text \<open>The event of a command is stored, carries its request, and its receipt is missing or agrees with it.\<close>

definition committed :: "platform \<Rightarrow> crypto \<Rightarrow> descriptor \<Rightarrow> decision_command \<Rightarrow> json \<Rightarrow> json \<Rightarrow> store \<Rightarrow> bool" where
  "committed P C D c v r st = (\<exists>es e. readAll P C st = Inr es \<and> find (\<lambda>e. se_id e = deterministicEventId P (dc_request c)) es = Some e \<and>
     recordFromEvent P D e = Inr r \<and> member (member r ''authority'') ''requestId'' = JStr (dc_request c) \<and>
     member (member r ''authority'') ''requestHash'' = JStr (request_hash_of P D c v) \<and>
     (case find (\<lambda>a. au_request a = dc_request c) (st_receipts st) of None \<Rightarrow> True
      | Some a \<Rightarrow> a = receipt_of P (replay_of P D c v) r (se_time e)))"

lemma request_id_identifier: "authority_request_id_pattern q \<Longrightarrow> identifier_ok q"
proof -
  assume "authority_request_id_pattern q"
  then obtain c r where q: "q = ''REQ-'' @ c # r" "is_alnum c" "length r \<le> 119" "list_all (\<lambda>c. is_alnum c \<or> c \<in> set ''._:-'') r"
    unfolding authority_request_id_pattern_def Let_def starts_with_iff by (auto simp: neq_Nil_conv)
  then show ?thesis by (auto simp: identifier_ok_def is_alnum_def is_upper_def)
qed

lemma event_id_identifier: "hex_digest P \<Longrightarrow> identifier_ok (deterministicEventId P q)"
proof -
  assume "hex_digest P"
  then have h: "length (drop 7 (sha256 P q)) = 64" "list_all is_hex (drop 7 (sha256 P q))" by (simp_all add: sha256_def hex_digest_def)
  then have "list_all (\<lambda>c. is_alnum c \<or> c \<in> set ''._:-'') (drop 7 (sha256 P q))"
    by (auto simp: list_all_iff is_hex_def is_alnum_def is_lower_def)
  then show ?thesis using h(1) by (simp add: identifier_ok_def deterministicEventId_def is_alnum_def is_upper_def)
qed

lemma read_event: "hex_digest P \<Longrightarrow> readAll P C st = Inr es \<Longrightarrow>
    readEvent P C st (deterministicEventId P q) = Inr (find (\<lambda>e. se_id e = deterministicEventId P q) es)"
  by (simp add: readEvent_def assertIdentifier_def event_id_identifier)

lemma event_time: "recordFromEvent P D e = Inr r \<Longrightarrow> assertGrantTimestamp P (se_time e) l = Inr ()"
proof -
  assume "recordFromEvent P D e = Inr r"
  then have "assertGrantTimestamp P (se_time e) ''Decision intelligence record time'' = Inr ()"
    by (auto simp: record_event_iff valid_record_def bound_event_def Let_def)
  then show ?thesis by (auto simp: assertGrantTimestamp_def split: option.splits if_splits)
qed

lemma event_operation: "recordFromEvent P D e = Inr r \<Longrightarrow> member (member r ''authority'') ''operation'' = JStr (ds_operation D)"
  unfolding record_event_iff valid_record_def Let_def by blast

lemma verify_own_receipt: "recordFromEvent P D e = Inr r \<Longrightarrow> verifyReceipt P (receipt_of P i r (se_time e)) (receipt_of P i r (se_time e)) = Inr ()"
  by (simp add: verifyReceipt_def event_time receipt_of_def)

text \<open>A command whose event is stored answers with its record and leaves the events as they are.\<close>

lemma committed_replays:
  assumes "hex_digest P" and "committed P C D c v r st" and "authority_request_id_pattern (dc_request c)"
    and "assertExpectedVersion (dc_expected c) = Inr ()" and "canonicalClone P (dc_value c) = Inr v"
  shows "\<exists>st'. record_command P C D c uuid n n' st = Inr (st', r) \<and> st_events st' = st_events st \<and> committed P C D c v r st' \<and>
    (\<exists>a. findAuthorityReceipt st' (dc_request c) = Inr (Some a) \<and> au_response a = hash_json P r)"
proof -
  obtain es e where es: "readAll P C st = Inr es" "find (\<lambda>e. se_id e = deterministicEventId P (dc_request c)) es = Some e"
    and r: "recordFromEvent P D e = Inr r" "member (member r ''authority'') ''requestId'' = JStr (dc_request c)"
      "member (member r ''authority'') ''requestHash'' = JStr (request_hash_of P D c v)"
    and rc: "case find (\<lambda>a. au_request a = dc_request c) (st_receipts st) of None \<Rightarrow> True
      | Some a \<Rightarrow> a = receipt_of P (replay_of P D c v) r (se_time e)"
    using assms(2) unfolding committed_def by blast
  note id = request_id_identifier [OF assms(3)]
  have ev: "readEvent P C st (deterministicEventId P (dc_request c)) = Inr (Some e)" using read_event [OF assms(1) es(1)] es(2) by simp
  let ?a = "receipt_of P (replay_of P D c v) r (se_time e)"
  have a: "au_request ?a = dc_request c" "au_response ?a = hash_json P r" "au_hash ?a = request_hash_of P D c v" "au_operation ?a = ds_operation D"
    "au_event ?a = Some (deterministicEventId P (dc_request c))"
    by (simp_all add: receipt_of_def replay_of_def)
  have i: "rp_request (replay_of P D c v) = dc_request c" "rp_hash (replay_of P D c v) = request_hash_of P D c v"
    "rp_operation (replay_of P D c v) = ds_operation D" "rp_event (replay_of P D c v) = deterministicEventId P (dc_request c)"
    by (simp_all add: replay_of_def)
  have req: "assertDecisionRequestId (dc_request c) = Inr ()" using assms(3) by (simp add: assertDecisionRequestId_def)
  show ?thesis
  proof (cases "find (\<lambda>a. au_request a = dc_request c) (st_receipts st)")
    case (Some x)
    then have x: "x = ?a" using rc by simp
    have f: "findAuthorityReceipt st (dc_request c) = Inr (Some ?a)" using id Some x by (simp add: findAuthorityReceipt_def assertIdentifier_def)
    have "replayOrReject P C D (replay_of P D c v) st = Inr (st, Some r)"
      unfolding replayOrReject_def i f bindE.simps option.case ev r(1) using verify_own_receipt [OF r(1)] a by simp
    then have "record_command P C D c uuid n n' st = Inr (st, r)"
      unfolding record_command_def assms(4,5) req bindE.simps by simp
    then show ?thesis using f a(2) assms(2) by blast
  next
    case None
    let ?st = "st\<lparr>st_receipts := st_receipts st @ [?a]\<rparr>"
    have n: "x \<in> set (st_receipts st) \<Longrightarrow> au_request x \<noteq> dc_request c" for x using None by (auto simp: find_None_iff)
    have f: "findAuthorityReceipt st (dc_request c) = Inr None" using id None by (simp add: findAuthorityReceipt_def assertIdentifier_def)
    have "recordAuthorityReceipt st ?a = Inr ?st" using id n a(1) by (auto simp: recordAuthorityReceipt_def assertIdentifier_def)
    then have "persistReceipt P ?a st = Inr ?st" by (simp add: persistReceipt_def)
    then have "replayOrReject P C D (replay_of P D c v) st = Inr (?st, Some r)"
      unfolding replayOrReject_def i f bindE.simps option.case ev r(1) using r(2,3) event_operation [OF r(1)] by simp
    then have c: "record_command P C D c uuid n n' st = Inr (?st, r)"
      unfolding record_command_def assms(4,5) req bindE.simps by simp
    have fa: "find (\<lambda>x. au_request x = dc_request c) (st_receipts ?st) = Some ?a"
      using None a(1) by (simp add: find_append_one)
    then have "findAuthorityReceipt ?st (dc_request c) = Inr (Some ?a)" using id by (simp add: findAuthorityReceipt_def assertIdentifier_def)
    moreover have "readAll P C ?st = Inr es" using es(1) readAll_frame [of ?st st P C] by simp
    then have "committed P C D c v r ?st" unfolding committed_def using es r fa by (intro exI [of _ es] exI [of _ e]) simp
    ultimately show ?thesis using c a(2) by (intro exI [of _ ?st]) simp
  qed
qed

section \<open>What a command does\<close>

lemma persistReceipt_ok: "persistReceipt P a st = Inr st' \<Longrightarrow> st' = st \<or>
    st' = st\<lparr>st_receipts := st_receipts st @ [a]\<rparr> \<and> au_request a \<notin> au_request ` set (st_receipts st)"
  by (auto simp: persistReceipt_def recordAuthorityReceipt_def split: sum.splits option.splits if_splits)

lemma receipts_read: "readAll P C (st\<lparr>st_receipts := x\<rparr>) = readAll P C st"
  by (rule readAll_frame) simp_all

lemma replay_cases:
  assumes "hex_digest P" and "readAll P C st = Inr es" and "identifier_ok (dc_request c)"
    and "replayOrReject P C D (replay_of P D c v) st = Inr (st', x)"
  shows "(case find (\<lambda>e. se_id e = deterministicEventId P (dc_request c)) es of
     None \<Rightarrow> x = None \<and> st' = st \<and> dc_request c \<notin> au_request ` set (st_receipts st)
   | Some e \<Rightarrow> \<exists>r. x = Some r \<and> recordFromEvent P D e = Inr r \<and>
       (st' = st \<or> st' = st\<lparr>st_receipts := st_receipts st @ [receipt_of P (replay_of P D c v) r (se_time e)]\<rparr> \<and>
         dc_request c \<notin> au_request ` set (st_receipts st)) \<and>
       (case find (\<lambda>a. au_request a = dc_request c) (st_receipts st) of
          None \<Rightarrow> member (member r ''authority'') ''requestHash'' = JStr (request_hash_of P D c v)
        | Some a \<Rightarrow> au_hash a = request_hash_of P D c v))"
proof -
  have i: "rp_request (replay_of P D c v) = dc_request c" "rp_hash (replay_of P D c v) = request_hash_of P D c v"
    "rp_operation (replay_of P D c v) = ds_operation D" "rp_event (replay_of P D c v) = deterministicEventId P (dc_request c)"
    by (simp_all add: replay_of_def)
  have f: "findAuthorityReceipt st (dc_request c) = Inr (find (\<lambda>a. au_request a = dc_request c) (st_receipts st))"
    using assms(3) by (simp add: findAuthorityReceipt_def assertIdentifier_def)
  have ev: "readEvent P C st (deterministicEventId P (dc_request c)) = Inr (find (\<lambda>e. se_id e = deterministicEventId P (dc_request c)) es)"
    by (rule read_event [OF assms(1,2)])
  show ?thesis
  proof (cases "find (\<lambda>a. au_request a = dc_request c) (st_receipts st)")
    case None
    have n: "dc_request c \<notin> au_request ` set (st_receipts st)" using None by (auto simp: find_None_iff)
    have a: "au_request (receipt_of P (replay_of P D c v) r t) = dc_request c" for r t by (simp add: receipt_of_def replay_of_def)
    show ?thesis using assms(4) n None
      unfolding replayOrReject_def i f None bindE.simps option.case ev
      by (auto split: option.splits if_splits dest: persistReceipt_ok)
  next
    case (Some y)
    show ?thesis using assms(4) Some
      unfolding replayOrReject_def i f Some bindE.simps option.case ev
      by (auto split: option.splits if_splits)
  qed
qed

text \<open>The process may stop after the event was appended and before its receipt is written.\<close>

definition record_interrupted ::
  "platform \<Rightarrow> crypto \<Rightarrow> descriptor \<Rightarrow> decision_command \<Rightarrow> string \<Rightarrow> string \<Rightarrow> string \<Rightarrow> store \<Rightarrow> (store \<times> json) result" where
  "record_interrupted P C D c uuid n n' st = bindE (assertExpectedVersion (dc_expected c)) (\<lambda>_.
     bindE (assertDecisionRequestId (dc_request c)) (\<lambda>_.
     bindE (canonicalClone P (dc_value c)) (\<lambda>v.
     bindE (replayOrReject P C D (replay_of P D c v) st) (\<lambda>(st1, replay). case replay of
       Some r \<Rightarrow> Inr (st1, r)
     | None \<Rightarrow> bindE (next_record P C D c v st1) (\<lambda>r.
         bindE (append_record P C D c v r uuid n n' st1) (\<lambda>(st2, ev). Inr (st2, r)))))))"

definition attempted :: "platform \<Rightarrow> crypto \<Rightarrow> descriptor \<Rightarrow> decision_command \<Rightarrow> store \<Rightarrow> store \<Rightarrow> json \<Rightarrow> bool" where
  "attempted P C D c st st' r = (\<exists>uuid n n'. record_command P C D c uuid n n' st = Inr (st', r) \<or>
     record_interrupted P C D c uuid n n' st = Inr (st', r))"

lemma replay_readable: "replayOrReject P C D i st = Inr y \<Longrightarrow> \<exists>es. readAll P C st = Inr es"
  by (auto simp: replayOrReject_def readEvent_def split: option.splits if_splits)

lemma attempted_readable: "attempted P C D c st st' r \<Longrightarrow> \<exists>es. readAll P C st = Inr es"
  unfolding attempted_def record_command_def record_interrupted_def bindE_Inr_iff using replay_readable by blast

lemma attempt_cases:
  assumes "aead_ok C" and "hex_digest P" and "readAll P C st = Inr es" and "attempted P C D c st st' r" and "wf_keys (dc_value c)"
  obtains v where "canonicalClone P (dc_value c) = Inr v" and "v = canon (coll_key P) (dc_value c)"
    and "assertExpectedVersion (dc_expected c) = Inr ()" and "authority_request_id_pattern (dc_request c)"
    and "case find (\<lambda>e. se_id e = deterministicEventId P (dc_request c)) es of
      Some e \<Rightarrow> recordFromEvent P D e = Inr r \<and> (st' = st \<or> st' = st\<lparr>st_receipts := st_receipts st @ [receipt_of P (replay_of P D c v) r (se_time e)]\<rparr> \<and>
         dc_request c \<notin> au_request ` set (st_receipts st)) \<and>
       (case find (\<lambda>a. au_request a = dc_request c) (st_receipts st) of
          None \<Rightarrow> member (member r ''authority'') ''requestHash'' = JStr (request_hash_of P D c v)
        | Some a \<Rightarrow> au_hash a = request_hash_of P D c v)
    | None \<Rightarrow> r = new_record P D c v \<and> valid_record P D r \<and> dc_request c \<notin> au_request ` set (st_receipts st) \<and>
       (\<exists>rs. decision_history P D (ds_id D v) es = Inr rs \<and> int (length rs) = dc_expected c) \<and>
       (\<exists>e st2. readAll P C st' = Inr (es @ [e]) \<and> recordFromEvent P D e = Inr (canon (coll_key P) r) \<and>
          se_aggregate_type e = aggregateType (ds_domain D) \<and> se_aggregate e = ds_id D v \<and>
          se_id e = deterministicEventId P (dc_request c) \<and> se_time e = to_iso (dc_now c) \<and> st_receipts st2 = st_receipts st \<and>
          (st' = st2 \<or> st' = st2\<lparr>st_receipts := st_receipts st @ [receipt_of P (replay_of P D c v) r (se_time e)]\<rparr>))"
proof -
  obtain uuid n n' v st1 x where c: "assertExpectedVersion (dc_expected c) = Inr ()" "assertDecisionRequestId (dc_request c) = Inr ()"
    "canonicalClone P (dc_value c) = Inr v" "replayOrReject P C D (replay_of P D c v) st = Inr (st1, x)"
    and rest: "case x of Some r' \<Rightarrow> st1 = st' \<and> r' = r | None \<Rightarrow> \<exists>st2 ev. next_record P C D c v st1 = Inr r \<and>
       append_record P C D c v r uuid n n' st1 = Inr (st2, ev) \<and>
       (st' = st2 \<or> persistReceipt P (receipt_of P (replay_of P D c v) r (to_iso (dc_now c))) st2 = Inr st')"
    using assms(4) unfolding attempted_def record_command_def record_interrupted_def bindE_Inr_iff
    by (elim exE disjE conjE; fastforce split: option.splits)
  have q: "authority_request_id_pattern (dc_request c)" using c(2) by (simp add: assertDecisionRequestId_def split: if_splits)
  note rp = replay_cases [OF assms(2,3) request_id_identifier [OF q] c(4)]
  have v: "v = canon (coll_key P) (dc_value c)" "storable (dc_value c)" using clone_value [OF assms(5), of P v] c(3) by simp_all
  then have sv: "sound_json v" using assms(5) sound_canonical by (simp add: storable_def sound_json_def)
  have cv: "canon (coll_key P) v = v" by (simp add: v(1) canon_canon)
  show ?thesis
  proof (rule that [OF c(3) v(1) c(1) q])
    show "case find (\<lambda>e. se_id e = deterministicEventId P (dc_request c)) es of
      Some e \<Rightarrow> recordFromEvent P D e = Inr r \<and> (st' = st \<or> st' = st\<lparr>st_receipts := st_receipts st @ [receipt_of P (replay_of P D c v) r (se_time e)]\<rparr> \<and>
         dc_request c \<notin> au_request ` set (st_receipts st)) \<and>
       (case find (\<lambda>a. au_request a = dc_request c) (st_receipts st) of
          None \<Rightarrow> member (member r ''authority'') ''requestHash'' = JStr (request_hash_of P D c v)
        | Some a \<Rightarrow> au_hash a = request_hash_of P D c v)
    | None \<Rightarrow> r = new_record P D c v \<and> valid_record P D r \<and> dc_request c \<notin> au_request ` set (st_receipts st) \<and>
       (\<exists>rs. decision_history P D (ds_id D v) es = Inr rs \<and> int (length rs) = dc_expected c) \<and>
       (\<exists>e st2. readAll P C st' = Inr (es @ [e]) \<and> recordFromEvent P D e = Inr (canon (coll_key P) r) \<and>
          se_aggregate_type e = aggregateType (ds_domain D) \<and> se_aggregate e = ds_id D v \<and>
          se_id e = deterministicEventId P (dc_request c) \<and> se_time e = to_iso (dc_now c) \<and> st_receipts st2 = st_receipts st \<and>
          (st' = st2 \<or> st' = st2\<lparr>st_receipts := st_receipts st @ [receipt_of P (replay_of P D c v) r (se_time e)]\<rparr>))"
    proof (cases "find (\<lambda>e. se_id e = deterministicEventId P (dc_request c)) es")
      case (Some e)
      show ?thesis using rp rest unfolding Some option.case by auto
    next
      case None
      have x: "x = None" "st1 = st" "dc_request c \<notin> au_request ` set (st_receipts st)" using rp unfolding None option.case by blast+
      from rest obtain st2 ev where s: "next_record P C D c v st = Inr r" "append_record P C D c v r uuid n n' st = Inr (st2, ev)"
        "st' = st2 \<or> persistReceipt P (receipt_of P (replay_of P D c v) r (to_iso (dc_now c))) st2 = Inr st'"
        unfolding x option.case by blast
      note nr = next_record_ok [OF assms(3) s(1)]
      have r: "r = new_record P D c v" using nr by blast
      obtain e where e: "readAll P C st2 = Inr (es @ [e])" "recordFromEvent P D e = Inr (canon (coll_key P) r)"
        "se_aggregate_type e = aggregateType (ds_domain D)" "se_aggregate e = ds_id D v" "se_id e = deterministicEventId P (dc_request c)"
        "se_time e = to_iso (dc_now c)"
        using new_record_appended [OF assms(1-3) sv cv, of D c uuid n n' st2 ev] nr s(2) unfolding r by blast
      have rc: "st_receipts st2 = st_receipts st"
        using append_event_ok [OF s(2) [unfolded append_record_def], THEN conjunct1] by simp
      have "st' = st2 \<or> st' = st2\<lparr>st_receipts := st_receipts st @ [receipt_of P (replay_of P D c v) r (se_time e)]\<rparr>"
        using s(3) persistReceipt_ok rc e(6) by metis
      moreover from this have "readAll P C st' = Inr (es @ [e])" using e(1) receipts_read by metis
      ultimately show ?thesis unfolding None option.case using nr x(3) e rc by blast
    qed
  qed
qed

section \<open>Commands that are accepted\<close>

lemma new_record_valid:
  assumes "hex_digest P" and "storable v" and "ds_validate D v = Inr ()" and "identifier_ok (ds_id D v)"
    and "authority_request_id_pattern (dc_request c)" and "0 \<le> dc_expected c" and "dc_expected c < MAX_SAFE" and "\<bar>dc_now c\<bar> \<le> max_time"
  shows "valid_record P D (new_record P D c v)"
proof -
  have k: "hasExactKeys (new_record P D c v) RECORD_KEYS" by (simp add: new_record_def record_json_def hasExactKeys_def RECORD_KEYS_def)
  have h: "sha256_digest_pattern (hash_json P v)" using sha256_text_ok [OF assms(1)] by (simp add: sha256_text_def sha256_digest_pattern_def)
  have t: "assertGrantTimestamp P (to_iso (dc_now c)) l = Inr ()" for l using assms(8) by (simp add: assertGrantTimestamp_def date_parse_to_iso)
  have r: "dc_expected c + 1 - 1 = dc_expected c" by simp
  show ?thesis unfolding valid_record_def Let_def
    unfolding new_record_def record_members
    using k [unfolded new_record_def] h t assms
    by (simp add: member_def AUTHORITY_KEYS_def hasExactKeys_def)
qed

text \<open>A row with a new identifier has a new digest.\<close>

lemma verify_rows_hashes: "verify_rows P C k e rs = Inr (es, h) \<Longrightarrow> r \<in> set rs \<Longrightarrow> computeEventHash P r = er_hash r"
  by (induction rs arbitrary: e es) (auto split: if_splits option.splits prod.splits)

definition row_text :: "platform \<Rightarrow> event_row \<Rightarrow> string" where
  "row_text P r = stable_stringify (coll_key P) (JObj (row_members r))"

lemma row_text_binds:
  assumes "computeEventHash P a = er_hash a" and "computeEventHash P b = er_hash b" and "er_hash a = er_hash b"
    and "er_id a \<noteq> er_id b"
  shows "sha_collision P (row_text P a) (row_text P b)"
proof -
  have s: "array_safe (JObj (row_members r)) \<and> JObj (row_members r) \<noteq> JUndef" for r by (simp add: row_members_def)
  have "hash_json P (JObj (row_members a)) = hash_json P (JObj (row_members b))"
    using assms(1-3) by (simp add: computeEventHash_def)
  from hash_json_eq [OF this, folded row_text_def] s
  have "canon (coll_key P) (JObj (row_members a)) = canon (coll_key P) (JObj (row_members b)) \<or> ?thesis" by blast
  moreover have "canon (coll_key P) (JObj (row_members a)) \<noteq> canon (coll_key P) (JObj (row_members b))"
  proof
    assume "canon (coll_key P) (JObj (row_members a)) = canon (coll_key P) (JObj (row_members b))"
    from row_members_inj [OF this assms(3)] have "er_id (unseq a) = er_id (unseq b)" by simp
    then show False using assms(4) by (simp add: unseq_def)
  qed
  ultimately show ?thesis by blast
qed

lemma fresh_hash:
  assumes "readAll P C st = Inr es" and "er_id (row_of_input i uuid) \<notin> er_id ` set (st_events st)"
  shows "er_hash (sealed_row P C st i uuid n) \<notin> er_hash ` set (st_events st) \<or>
    (\<exists>old \<in> set (st_events st). sha_collision P (row_text P (sealed_row P C st i uuid n)) (row_text P old))"
proof (cases "er_hash (sealed_row P C st i uuid n) \<in> er_hash ` set (st_events st)")
  case True
  let ?new = "sealed_row P C st i uuid n"
  obtain r where r: "r \<in> set (st_events st)" "er_hash ?new = er_hash r" using True by blast
  have "computeEventHash P r = er_hash r" using assms(1) r(1) verify_rows_hashes unfolding readAll_iff by metis
  moreover have "computeEventHash P ?new = er_hash ?new"
    by (simp add: sealed_row_def Let_def computeEventHash_def row_members_def)
  moreover have "er_id ?new = er_id (row_of_input i uuid)" by (simp add: sealed_row_def Let_def)
  then have "er_id ?new \<noteq> er_id r" using assms(2) r(1) by (metis imageI)
  ultimately show ?thesis using row_text_binds r by blast
qed simp

lemma record_total:
  assumes "hex_digest P" and "readAll P C st = Inr es" and "canonicalClone P (dc_value c) = Inr v" and "ds_validate D v = Inr ()"
    and "identifier_ok (ds_id D v)" and "identifier_ok (aggregateType (ds_domain D))" and "authority_request_id_pattern (dc_request c)"
    and "storable v" and "\<bar>dc_now c\<bar> \<le> max_time" and "dc_expected c < MAX_SAFE"
    and "decision_history P D (ds_id D v) es = Inr rs" and "int (length rs) = dc_expected c"
    and "deterministicEventId P (dc_request c) \<notin> er_id ` set (st_events st)" and "dc_request c \<notin> au_request ` set (st_receipts st)"
    and "er_hash (sealed_row P C st (record_event P D (new_record P D c v) (dc_request c) (request_hash_of P D c v)
      (deterministicEventId P (dc_request c)) (dc_now c)) uuid n) \<notin> er_hash ` set (st_events st)"
  shows "\<exists>st'. record_command P C D c uuid n n' st = Inr (st', new_record P D c v)"
proof -
  let ?r = "new_record P D c v" and ?eid = "deterministicEventId P (dc_request c)"
  let ?i = "record_event P D ?r (dc_request c) (request_hash_of P D c v) ?eid (dc_now c)"
  have ne: "0 \<le> dc_expected c" using assms(12) by linarith
  have v: "valid_record P D ?r" by (rule new_record_valid [OF assms(1,8,4,5,7) ne assms(10,9)])
  have e: "assertExpectedVersion (dc_expected c) = Inr ()" using ne assms(10) by (simp add: assertExpectedVersion_def)
  have q: "assertDecisionRequestId (dc_request c) = Inr ()" using assms(7) by (simp add: assertDecisionRequestId_def)
  note id = request_id_identifier [OF assms(7)]
  have "se_id ` set es = er_id ` set (st_events st)"
    using assms(2) verify_rows_map [of P C "st_key st" "GENESIS_HASH P" "st_events st" es] unfolding readAll_iff by (metis list.set_map)
  then have "find (\<lambda>e. se_id e = ?eid) es = None" unfolding find_None_none using assms(13) by (metis imageI)
  then have ev: "readEvent P C st ?eid = Inr None" using read_event [OF assms(1,2)] by simp
  have f: "findAuthorityReceipt st (dc_request c) = Inr None"
    using id assms(14) by (auto simp: findAuthorityReceipt_def assertIdentifier_def find_None_iff image_iff)
  have i: "rp_request (replay_of P D c v) = dc_request c" "rp_event (replay_of P D c v) = ?eid" by (simp_all add: replay_of_def)
  have rr: "replayOrReject P C D (replay_of P D c v) st = Inr (st, None)"
    unfolding replayOrReject_def i f bindE.simps option.case ev by simp
  have nr: "next_record P C D c v st = Inr ?r"
    unfolding next_record_def assms(4) bindE.simps aggregate_history [OF assms(2)] assms(11) current_version [OF assms(11)]
    using assms(5,9,12) v by (simp add: assertRecordIdentifier_def Let_def verify_iff new_record_def)
  obtain st2 x where ap: "append_event P C st ?i uuid n n' = Inr (st2, x)"
    using append_total [OF assms(2), of ?i uuid n n'] assms(5,6,13,15) event_id_identifier [OF assms(1)]
    by (auto simp: record_event_def row_of_input_def EVENT_SCHEMA_VERSION_def DECISION_EVENT_TYPE_def new_record_def record_members
      identifier_ok_def is_alnum_def is_lower_def)
  have rc: "st_receipts st2 = st_receipts st" using append_event_ok [OF ap, THEN conjunct1] by simp
  have "au_request (receipt_of P (replay_of P D c v) ?r (to_iso (dc_now c))) = dc_request c" by (simp add: receipt_of_def i)
  then have "\<exists>st'. persistReceipt P (receipt_of P (replay_of P D c v) ?r (to_iso (dc_now c))) st2 = Inr st'"
    using id assms(14) rc by (auto simp: persistReceipt_def recordAuthorityReceipt_def assertIdentifier_def image_iff)
  then show ?thesis unfolding record_command_def e q assms(3) bindE.simps rr prod.case option.case nr append_record_def ap by auto
qed

end
