(* ===== verification/CredentialRecords.thy ===== *)
theory CredentialRecords
  imports CredentialMapping DecisionRuns
begin

text \<open>
  Credential mappings as a domain of the decision repositories (\<open>CREDENTIAL_MAPPING_DESCRIPTOR\<close> of
  src/src/storage/decision-intelligence-repositories.ts): a mapping is read from the JSON value of a command. What a mapping
  that was drafted, approved and attached satisfies, and which commands are accepted.
\<close>

section \<open>The descriptor\<close>

definition mapping_approval_of :: "json \<Rightarrow> mapping_approval" where
  "mapping_approval_of j = \<lparr>ma_id = text_of j ''approvalId'', ma_approver = text_of j ''approverPrincipalId'',
     ma_approved = text_of j ''approvedAt'', ma_expires = text_of j ''expiresAt'', ma_hash = text_of j ''mappingHash'',
     ma_public = bool_at j ''allowPublic'', ma_auto = bool_at j ''allowAutoApply'', ma_receipt = text_of j ''signatureReceiptHash''\<rparr>"

definition mapping_status_of :: "json \<Rightarrow> mapping_status" where
  "mapping_status_of j = (if j = JStr ''pending'' then MappingPending else MappingApproved)"

definition null_or :: "(json \<Rightarrow> 'a) \<Rightarrow> json \<Rightarrow> 'a option" where
  "null_or f j = (if j = JNull then None else Some (f j))"

text \<open>A JSON value that passed the contract, seen at its interface type.\<close>

definition mapping_of :: "json \<Rightarrow> claim_mapping" where
  "mapping_of j = \<lparr>mp_id = text_of j ''mappingId'', mp_credential = text_of j ''credentialId'', mp_credential_hash = text_of j ''credentialHash'',
     mp_type = text_of j ''claimType'', mp_text = text_of j ''claimText'', mp_pointer = text_of j ''sourcePointer'',
     mp_request_public = bool_at j ''requestedPublic'', mp_request_auto = bool_at j ''requestedAutoApply'',
     mp_public = bool_at j ''publiclyAssertable'', mp_auto = bool_at j ''allowedInAutoApply'',
     mp_status = mapping_status_of (member j ''status''), mp_hash = text_of j ''mappingHash'',
     mp_approval = null_or mapping_approval_of (member j ''approval'')\<rparr>"

definition CREDENTIAL_MAPPING_DESCRIPTOR :: "platform \<Rightarrow> descriptor" where
  "CREDENTIAL_MAPPING_DESCRIPTOR P = \<lparr>ds_domain = ''credential-mapping-plans'', ds_operation = ''credential-mapping-record'',
     ds_id = (\<lambda>v. text_of v ''mappingId''),
     ds_validate = (\<lambda>v. bindE (assertCredentialContract P ''credential-mapping'' v) (\<lambda>_. plan_checks P (mapping_of v)))\<rparr>"

lemma mapping_sound: "sound_json (mapping_json m)" "sound_json (mapping_approval_json a)"
  by (simp_all add: sound_json_def mapping_json_def mapping_approval_json_def jnull_def split: option.split)

lemma mapping_approval_of_json: "mapping_approval_of (canon ck (mapping_approval_json a)) = a"
  unfolding mapping_approval_of_def text_of_def bool_at_def member_canon [OF mapping_sound(2)]
  by (simp add: mapping_approval_json_def member_def)

lemma mapping_members:
  "member (mapping_json m) ''mappingId'' = JStr (mp_id m)"
  "member (mapping_json m) ''credentialId'' = JStr (mp_credential m)"
  "member (mapping_json m) ''credentialHash'' = JStr (mp_credential_hash m)"
  "member (mapping_json m) ''claimType'' = JStr (mp_type m)"
  "member (mapping_json m) ''claimText'' = JStr (mp_text m)"
  "member (mapping_json m) ''sourcePointer'' = JStr (mp_pointer m)"
  "member (mapping_json m) ''requestedPublic'' = JBool (mp_request_public m)"
  "member (mapping_json m) ''requestedAutoApply'' = JBool (mp_request_auto m)"
  "member (mapping_json m) ''publiclyAssertable'' = JBool (mp_public m)"
  "member (mapping_json m) ''allowedInAutoApply'' = JBool (mp_auto m)"
  "member (mapping_json m) ''status'' = JStr (mapping_status_str (mp_status m))"
  "member (mapping_json m) ''mappingHash'' = JStr (mp_hash m)"
  "member (mapping_json m) ''approval'' = jnull mapping_approval_json (mp_approval m)"
  by (simp_all add: mapping_json_def member_def)

lemma mapping_status_of_str: "mapping_status_of (JStr (mapping_status_str s)) = s"
  by (cases s) (simp_all add: mapping_status_of_def)

lemma null_or_approval: "null_or mapping_approval_of (canon ck (jnull mapping_approval_json x)) = x"
proof (cases x)
  case (Some a)
  have "canon ck (mapping_approval_json a) \<noteq> JNull" by (simp add: mapping_approval_json_def)
  then show ?thesis unfolding null_or_def jnull_def Some option.case mapping_approval_of_json by simp
qed (simp add: null_or_def jnull_def)

lemma mapping_of_json: "mapping_of (canon ck (mapping_json m)) = m"
  unfolding mapping_of_def text_of_def bool_at_def member_canon [OF mapping_sound(1)] mapping_members null_or_approval
  by (simp add: mapping_status_of_str)

lemma mapping_storable: "storable (mapping_json m)"
proof -
  have "nested (Suc (Suc 126)) (mapping_json m)"
    by (simp add: mapping_json_def mapping_approval_json_def jnull_def del: nested.simps(2) add: nested.simps(2) split: option.split)
  moreover have "nodes (mapping_json m) \<le> 22" "defined (mapping_json m)"
    by (simp_all add: mapping_json_def mapping_approval_json_def jnull_def split: option.split)
  ultimately show ?thesis by (simp add: storable_def)
qed

section \<open>Plans\<close>

lemma contract_iff: "assertCredentialContract P n j = Inr () \<longleftrightarrow> schema_errors P n j = []"
  by (simp add: assertCredentialContract_def split: list.split)

lemma created_mapping:
  assumes "createCredentialClaimMapping P e d = Inr m"
  shows "mp_status m = MappingPending \<and> mp_approval m = None \<and> \<not> mp_public m \<and> \<not> mp_auto m \<and>
    (mp_request_auto m \<longrightarrow> mp_request_public m) \<and> mp_hash m = computeCredentialMappingHash P m \<and> mp_credential_hash m = pe_hash e \<and>
    cs_credential (pe_summary e) = Some (mp_credential m) \<and> schema_errors P ''credential-mapping'' (mapping_json m) = []"
proof (cases "cs_credential (pe_summary e)")
  case (Some cid)
  have h: "computeCredentialMappingHash P (m0\<lparr>mp_hash := x\<rparr>) = computeCredentialMappingHash P m0" for m0 x
    by (simp add: computeCredentialMappingHash_def mappingPayload_def)
  obtain m0 where m: "m = m0\<lparr>mp_hash := computeCredentialMappingHash P m0\<rparr>" "mp_status m0 = MappingPending" "mp_approval m0 = None" "\<not> mp_public m0"
    "\<not> mp_auto m0" "mp_request_auto m0 \<longrightarrow> mp_request_public m0" "mp_credential_hash m0 = pe_hash e" "mp_credential m0 = cid"
    using assms unfolding createCredentialClaimMapping_def Let_def if_Inl_Inr Some option.case bindE_Inr_iff sum.inject
    by (elim exE conjE) (rule that, erule sym, simp_all)
  have "schema_errors P ''credential-mapping'' (mapping_json m) = []"
    using assms unfolding createCredentialClaimMapping_def Let_def if_Inl_Inr Some option.case bindE_Inr_iff sum.inject
    by (elim exE conjE, hypsubst) (simp add: contract_iff)
  then show ?thesis using m(2-8) Some h unfolding m(1) by simp
qed (use assms in \<open>simp add: createCredentialClaimMapping_def split: if_splits\<close>)

text \<open>What \<open>assertApprovalValid\<close> has established of an approved mapping, its times apart from the clock.\<close>

definition approval_grants :: "platform \<Rightarrow> passport_entry \<Rightarrow> claim_mapping \<Rightarrow> bool" where
  "approval_grants P e m = (mp_status m = MappingApproved \<and> (\<exists>a t x. mp_approval m = Some a \<and> ma_hash a = mp_hash m \<and>
     mp_hash m = computeCredentialMappingHash P m \<and> mp_public m = ma_public a \<and> mp_auto m = ma_auto a \<and>
     (ma_public a \<longrightarrow> mp_request_public m) \<and> (ma_auto a \<longrightarrow> mp_request_auto m \<and> mp_request_public m \<and> ma_public a) \<and>
     (ma_public a \<or> ma_auto a \<longrightarrow> \<not> hasAudienceRestriction e) \<and> parse_date P (ma_approved a) = Some t \<and>
     parse_date P (ma_expires a) = Some x \<and> t < x \<and> x - t \<le> MAX_APPROVAL_WINDOW_MS) \<and>
     mp_credential_hash m = pe_hash e \<and> cs_credential (pe_summary e) = Some (mp_credential m) \<and>
     schema_errors P ''credential-mapping'' (mapping_json m) = [])"

lemma mapping_bound_iff: "assertMappingBound P e m = Inr () \<longleftrightarrow> schema_errors P ''credential-mapping'' (mapping_json m) = [] \<and>
    mp_credential_hash m = pe_hash e \<and> cs_credential (pe_summary e) = Some (mp_credential m) \<and> mp_hash m = computeCredentialMappingHash P m"
  unfolding assertMappingBound_def bindE_Inr_iff if_Inl_Inr by (auto simp: contract_iff)

lemma approval_valid:
  assumes "assertApprovalValid P e m a now = Inr ()"
  shows "ma_hash a = mp_hash m" and "ma_public a \<Longrightarrow> mp_request_public m"
    and "ma_auto a \<Longrightarrow> mp_request_auto m \<and> mp_request_public m \<and> ma_public a" and "ma_public a \<or> ma_auto a \<Longrightarrow> \<not> hasAudienceRestriction e"
    and "\<exists>t x. parse_date P (ma_approved a) = Some t \<and> parse_date P (ma_expires a) = Some x \<and> t < x \<and> x - t \<le> MAX_APPROVAL_WINDOW_MS \<and> now < x"
  using assms by (auto simp: assertApprovalValid_def split: if_splits option.splits)

lemma payload_frame: "computeCredentialMappingHash P (m\<lparr>mp_public := p, mp_auto := b, mp_status := s, mp_approval := a\<rparr>) = computeCredentialMappingHash P m"
  by (simp add: computeCredentialMappingHash_def mappingPayload_def)

lemma approved_mapping:
  assumes "approveCredentialClaimMapping P e m a now = Inr m'"
  shows "approval_grants P e m' \<and> mp_approval m' = Some a \<and> mappingPayload m' = mappingPayload m"
proof -
  have v: "assertApprovalValid P e m a now = Inr ()" and b: "assertMappingBound P e m = Inr ()"
    and m': "m' = m\<lparr>mp_public := ma_public a, mp_auto := ma_auto a, mp_status := MappingApproved, mp_approval := Some a\<rparr>"
    and c: "assertCredentialContract P ''credential-mapping'' (mapping_json m') = Inr ()"
    using assms unfolding approveCredentialClaimMapping_def Let_def if_Inl_Inr bindE_Inr_iff by auto
  have "mp_hash m = computeCredentialMappingHash P m" "mp_credential_hash m = pe_hash e" "cs_credential (pe_summary e) = Some (mp_credential m)"
    using b by (simp_all add: mapping_bound_iff)
  then show ?thesis using approval_valid [OF v] c [unfolded contract_iff]
    by (auto simp: approval_grants_def m' payload_frame mappingPayload_def)
qed

lemma approved_plan_checks: "approval_grants P e m \<Longrightarrow> mp_request_auto m \<longrightarrow> mp_request_public m \<Longrightarrow> plan_checks P m = Inr ()"
  by (auto simp: approval_grants_def plan_checks_def MAX_APPROVAL_WINDOW_MS_def)

section \<open>Passports\<close>

definition passport_sound :: "platform \<Rightarrow> passport_entry \<Rightarrow> bool" where
  "passport_sound P e = (list_all (approval_grants P e) (pe_mappings e) \<and> distinct (map mp_id (pe_mappings e)))"

lemma added_mapping:
  assumes "addCredentialMapping P e m now = Inr e'"
  shows "approval_grants P e m \<and> mp_id m \<notin> mp_id ` set (pe_mappings e) \<and> schema_errors P ''credential-passport'' (passport_json e') = [] \<and>
    e' = e\<lparr>pe_mappings := sort_key (\<lambda>x. coll_key P (mp_id x)) (pe_mappings e @ [m])\<rparr> \<and> assertPassportEntryEligible P e = Inr ()"
proof (cases "mp_approval m")
  case None
  then show ?thesis using assms by (simp add: addCredentialMapping_def split: if_splits)
next
  case (Some a)
  have v: "assertApprovalValid P e m a now = Inr ()" and b: "assertMappingBound P e m = Inr ()" and s: "mp_status m = MappingApproved"
    and f: "mp_public m = ma_public a" "mp_auto m = ma_auto a" and el: "assertPassportEntryEligible P e = Inr ()"
    and i: "mp_id m \<notin> mp_id ` set (pe_mappings e)"
    and e': "e' = e\<lparr>pe_mappings := sort_key (\<lambda>x. coll_key P (mp_id x)) (pe_mappings e @ [m])\<rparr>"
    and c: "assertCredentialContract P ''credential-passport'' (passport_json e') = Inr ()"
    using assms unfolding addCredentialMapping_def Some option.case Let_def if_Inl_Inr bindE_Inr_iff by (auto simp: list_ex_iff)
  have "mp_hash m = computeCredentialMappingHash P m" "mp_credential_hash m = pe_hash e" "cs_credential (pe_summary e) = Some (mp_credential m)"
    "schema_errors P ''credential-mapping'' (mapping_json m) = []"
    using b by (simp_all add: mapping_bound_iff)
  then have "approval_grants P e m" using approval_valid [OF v] s f Some by (auto simp: approval_grants_def)
  then show ?thesis using i e' c el by (simp add: contract_iff)
qed

lemma grants_frame: "approval_grants P (e\<lparr>pe_mappings := ms\<rparr>) = approval_grants P e"
  by (simp add: fun_eq_iff approval_grants_def hasAudienceRestriction_def)

lemma added_sound: "addCredentialMapping P e m now = Inr e' \<Longrightarrow> passport_sound P e \<Longrightarrow> passport_sound P e'"
proof -
  assume a: "addCredentialMapping P e m now = Inr e'" and s: "passport_sound P e"
  let ?k = "\<lambda>x. coll_key P (mp_id x)"
  have e': "e' = e\<lparr>pe_mappings := sort_key ?k (pe_mappings e @ [m])\<rparr>" and g: "approval_grants P e m"
    and i: "mp_id m \<notin> mp_id ` set (pe_mappings e)" using added_mapping [OF a] by blast+
  have "distinct (map mp_id (pe_mappings e @ [m]))" using s i by (simp add: passport_sound_def)
  then have "distinct (map mp_id (sort_key ?k (pe_mappings e @ [m])))"
    by (auto simp: distinct_map)
  moreover have "list_all (approval_grants P e) (sort_key ?k (pe_mappings e @ [m]))"
    using s g by (simp add: passport_sound_def list_all_iff)
  ultimately show ?thesis by (simp add: passport_sound_def e' grants_frame)
qed


text \<open>What the repository asks of the mappings of a passport.\<close>

definition mapping_admissible :: "platform \<Rightarrow> passport_entry \<Rightarrow> claim_mapping \<Rightarrow> bool" where
  "mapping_admissible P e m = (assertCredentialMappingPlan P m = Inr () \<and> mp_status m = MappingApproved \<and> mp_approval m \<noteq> None \<and>
     mp_credential_hash m = pe_hash e \<and> cs_credential (pe_summary e) = Some (mp_credential m))"

lemma passport_mappings_iff: "passport_mappings P e seen ms = Inr () \<longleftrightarrow>
    list_all (mapping_admissible P e) ms \<and> distinct (map mp_id ms) \<and> set seen \<inter> mp_id ` set ms = {}"
proof (induction ms arbitrary: seen)
  case (Cons m ms)
  have "passport_mappings P e seen (m # ms) = Inr () \<longleftrightarrow>
      mapping_admissible P e m \<and> mp_id m \<notin> set seen \<and> passport_mappings P e (mp_id m # seen) ms = Inr ()"
    unfolding passport_mappings.simps bindE_Inr_iff if_Inl_Inr mapping_admissible_def by auto
  also have "\<dots> \<longleftrightarrow> list_all (mapping_admissible P e) (m # ms) \<and> distinct (map mp_id (m # ms)) \<and> set seen \<inter> mp_id ` set (m # ms) = {}"
    unfolding Cons.IH by auto
  finally show ?case .
qed simp

lemma admissible_frame: "mapping_admissible P (e\<lparr>pe_mappings := ms\<rparr>) = mapping_admissible P e"
  by (simp add: fun_eq_iff mapping_admissible_def)

text \<open>The checks of a passport that do not look at its mappings.\<close>

definition passport_base :: "platform \<Rightarrow> passport_entry \<Rightarrow> bool" where
  "passport_base P e = (let v = pe_verification e in pe_hash e = hash_json P (pe_credential e) \<and> pe_id e = expected_passport_id e \<and>
     vr_eligible v = (vr_overall v = OverallVerified) \<and> (vr_overall v = OverallVerified \<longrightarrow>
       list_all (\<lambda>c. cc_status c = CheckPass) [vr_schema v, vr_signature v, vr_issuer v, vr_subject v, vr_time v] \<and>
       cc_status (vr_revocation v) \<in> {CheckPass, CheckNotApplicable} \<and> cc_status (vr_refresh v) \<in> {CheckPass, CheckNotApplicable}))"

lemma passport_iff: "assertCredentialPassport P e = Inr () \<longleftrightarrow> schema_errors P ''credential-passport'' (passport_json e) = [] \<and>
    passport_base P e \<and> list_all (mapping_admissible P e) (pe_mappings e) \<and> distinct (map mp_id (pe_mappings e))"
proof -
  have "assertCredentialPassport P e = Inr () \<longleftrightarrow> schema_errors P ''credential-passport'' (passport_json e) = [] \<and>
    passport_base P e \<and> passport_mappings P e [] (pe_mappings e) = Inr ()"
    unfolding assertCredentialPassport_def Let_def bindE_Inr_iff if_Inl_Inr passport_base_def
    by (auto simp: contract_iff)
  then show ?thesis by (simp add: passport_mappings_iff)
qed

lemma added_passport:
  assumes "addCredentialMapping P e m now = Inr e'" and "assertCredentialPassport P e = Inr ()" and "mp_request_auto m \<longrightarrow> mp_request_public m"
  shows "assertCredentialPassport P e' = Inr ()"
proof -
  let ?k = "\<lambda>x. coll_key P (mp_id x)"
  note a = added_mapping [OF assms(1)]
  have e': "e' = e\<lparr>pe_mappings := sort_key ?k (pe_mappings e @ [m])\<rparr>" using a by blast
  have "mapping_admissible P e m" using a approved_plan_checks [OF _ assms(3)] unfolding approval_grants_def mapping_admissible_def
      assertCredentialMappingPlan_def by (auto simp: contract_iff)
  moreover have "distinct (map mp_id (sort_key ?k (pe_mappings e @ [m])))" using a assms(2) unfolding passport_iff by (auto simp: distinct_map)
  moreover have "passport_base P e' = passport_base P e" by (simp add: e' passport_base_def expected_passport_id_def)
  ultimately show ?thesis using a assms(2) unfolding passport_iff by (simp add: e' admissible_frame list_all_iff)
qed

section \<open>A sample run\<close>

definition sample_mapping :: claim_mapping where
  "sample_mapping = (let m = \<lparr>mp_id = ''MAP-1'', mp_credential = ''urn:credential:1'', mp_credential_hash = ''sha256:0'', mp_type = ''education'',
     mp_text = ''BSc'', mp_pointer = ''credential:sha256:0#credentialSubject.achievement'', mp_request_public = True, mp_request_auto = False,
     mp_public = False, mp_auto = False, mp_status = MappingPending, mp_hash = [], mp_approval = None\<rparr>
   in m\<lparr>mp_hash := computeCredentialMappingHash sample_signing m\<rparr>)"

definition sample_command :: decision_command where
  "sample_command = \<lparr>dc_value = mapping_json sample_mapping, dc_expected = 0, dc_request = ''REQ-12345678'', dc_now = 0\<rparr>"

abbreviation sample_domain :: descriptor where
  "sample_domain \<equiv> CREDENTIAL_MAPPING_DESCRIPTOR sample_signing"

lemma sample_recorded:
  "\<exists>st0 st r. create_store sample_signing sample_crypto [1] ''correct horse'' '' salt'' ''n1'' ''n2'' ''u'' = Inr st0 \<and>
     st_events st0 = [] \<and> readAll sample_signing sample_crypto st0 = Inr [] \<and>
     record_command sample_signing sample_crypto sample_domain sample_command [] [] [] st0 = Inr (st, r)"
proof -
  let ?P = sample_signing and ?C = sample_crypto and ?D = sample_domain and ?c = sample_command
  obtain st0 where st0: "create_store ?P ?C [1] ''correct horse'' '' salt'' ''n1'' ''n2'' ''u'' = Inr st0" "st_events st0 = []" "st_receipts st0 = []"
    by (auto simp: create_store_def deriveKey_def)
  have salt: "'' salt'' \<noteq> []" by simp
  note r = created_reads [OF sample_aead sample_signing_digest salt st0(1)]
  define v where "v = canon (coll_key ?P) (dc_value ?c)"
  have w: "wf_keys (dc_value ?c)" "storable (dc_value ?c)" "sound_json (dc_value ?c)"
    using mapping_sound(1) [of sample_mapping] mapping_storable by (simp_all add: sample_command_def sound_json_def)
  have m: "mapping_of v = sample_mapping" unfolding v_def sample_command_def decision_command.simps by (rule mapping_of_json)
  have id: "ds_id ?D v = ''MAP-1''"
    using m unfolding CREDENTIAL_MAPPING_DESCRIPTOR_def mapping_of_def by (simp add: sample_mapping_def Let_def)
  have pc: "plan_checks ?P sample_mapping = Inr ()"
    by (simp add: plan_checks_def sample_mapping_def Let_def computeCredentialMappingHash_def mappingPayload_def del: stable_stringify.simps)
  have "schema_errors ?P = (\<lambda>_ _. [])" by (simp add: sample_signing_def sample_platform_def)
  then have val: "ds_validate ?D v = Inr ()"
    unfolding CREDENTIAL_MAPPING_DESCRIPTOR_def by (simp add: contract_iff m pc)
  have "\<exists>st'. record_command ?P ?C ?D ?c [] [] [] st0 = Inr (st', new_record ?P ?D ?c v)"
  proof (rule record_total [OF sample_signing_digest r])
    show "canonicalClone ?P (dc_value ?c) = Inr v" using clone_value [OF w(1)] w(2) by (simp add: v_def)
    show "ds_validate ?D v = Inr ()" by (rule val)
    show "identifier_ok (ds_id ?D v)" unfolding id by code_simp
    show "identifier_ok (aggregateType (ds_domain ?D))" unfolding CREDENTIAL_MAPPING_DESCRIPTOR_def aggregateType_def by simp code_simp
    show "authority_request_id_pattern (dc_request ?c)" unfolding sample_command_def by simp code_simp
    show "storable v" unfolding v_def storable_canon [OF w(3)] by (rule w(2))
    show "decision_history ?P ?D (ds_id ?D v) [] = Inr []" by (simp add: decision_history_def history_of_def)
  qed (simp_all add: st0 sample_command_def max_time_def MAX_SAFE_def)
  then show ?thesis using st0 r by blast
qed

end
