(* ===== verification/DecisionProps.thy ===== *)
theory DecisionProps
  imports CredentialRecords
begin

text \<open>
  The promises of the decision repositories over any run of a store: a command takes effect once, whatever happens between two
  attempts, its request identifier names it alone, and the history of every record stays readable and without gaps.
\<close>

section \<open>Steps\<close>

inductive decision_step :: "platform \<Rightarrow> crypto \<Rightarrow> descriptor \<Rightarrow> store \<Rightarrow> store \<Rightarrow> bool" for P :: platform and C :: crypto and D :: descriptor where
  d_attempt: "attempted P C D c st st' r \<Longrightarrow> wf_keys (dc_value c) \<Longrightarrow> decision_step P C D st st'"
| d_other: "append_event P C st i uuid n n' = Inr (st', ev) \<Longrightarrow> sound_json (ae_payload i) \<Longrightarrow>
    ae_aggregate_type i \<noteq> aggregateType (ds_domain D) \<Longrightarrow> decision_step P C D st st'"
| d_receipt: "recordAuthorityReceipt st a = Inr st' \<Longrightarrow> readAll P C st = Inr es \<Longrightarrow>
    list_all (\<lambda>e. se_aggregate_type e = aggregateType (ds_domain D) \<longrightarrow> se_id e \<noteq> deterministicEventId P (au_request a)) es \<Longrightarrow>
    decision_step P C D st st'"
| d_keep: "store_step P C st st' \<Longrightarrow> st_events st' = st_events st \<Longrightarrow> st_receipts st' = st_receipts st \<Longrightarrow> decision_step P C D st st'"

inductive_cases decision_stepE: "decision_step P C D st st'"

lemma event_type: "recordFromEvent P D e = Inr r \<Longrightarrow> se_aggregate_type e = aggregateType (ds_domain D)"
  by (simp add: record_event_iff)

lemma find_kept: "find p es = Some e \<Longrightarrow> find p (es @ fs) = Some e"
  by (induction es) (auto split: if_splits)

lemma no_find: "q \<notin> f ` set xs \<Longrightarrow> find (\<lambda>x. f x = q) xs = None"
  by (induction xs) auto

lemma committed_kept:
  assumes "committed P C D c v r st" and "readAll P C st = Inr es" and "readAll P C st' = Inr (es @ fs)"
    and "find (\<lambda>a. au_request a = dc_request c) (st_receipts st') = find (\<lambda>a. au_request a = dc_request c) (st_receipts st)"
  shows "committed P C D c v r st'"
proof -
  obtain e where e: "find (\<lambda>e. se_id e = deterministicEventId P (dc_request c)) es = Some e"
    "recordFromEvent P D e = Inr r" "member (member r ''authority'') ''requestId'' = JStr (dc_request c)"
    "member (member r ''authority'') ''requestHash'' = JStr (request_hash_of P D c v)"
    "case find (\<lambda>a. au_request a = dc_request c) (st_receipts st) of None \<Rightarrow> True | Some a \<Rightarrow> a = receipt_of P (replay_of P D c v) r (se_time e)"
    using assms(1) unfolding committed_def assms(2) by (elim exE conjE) simp
  show ?thesis unfolding committed_def assms(4)
    by (intro exI [of _ "es @ fs"] exI [of _ e] conjI assms(3) find_kept e)
qed

lemma find_other: "f a \<noteq> q \<Longrightarrow> find (\<lambda>x. f x = q) (xs @ [a]) = find (\<lambda>x. f x = q) xs"
  by (simp add: find_append_one split: option.split)

lemma step_committed:
  assumes "aead_ok C" and "hex_digest P" and "decision_step P C D st st'" and "committed P C D c v r st"
  shows "committed P C D c v r st'"
proof -
  obtain es e where es: "readAll P C st = Inr es" and e: "find (\<lambda>e. se_id e = deterministicEventId P (dc_request c)) es = Some e"
    and r: "recordFromEvent P D e = Inr r" "member (member r ''authority'') ''requestId'' = JStr (dc_request c)"
      "member (member r ''authority'') ''requestHash'' = JStr (request_hash_of P D c v)"
    and rc: "case find (\<lambda>a. au_request a = dc_request c) (st_receipts st) of None \<Rightarrow> True | Some a \<Rightarrow> a = receipt_of P (replay_of P D c v) r (se_time e)"
    using assms(4) unfolding committed_def by blast
  show ?thesis using assms(3)
  proof cases
    case (d_attempt d x)
    have req: "au_request (receipt_of P (replay_of P D d w) y t) = dc_request d" for w y t by (simp add: receipt_of_def replay_of_def)
    show ?thesis
    proof (rule attempt_cases [OF assms(1,2) es d_attempt])
      fix w
      assume k: "case find (\<lambda>e. se_id e = deterministicEventId P (dc_request d)) es of
        Some e \<Rightarrow> recordFromEvent P D e = Inr x \<and> (st' = st \<or> st' = st\<lparr>st_receipts := st_receipts st @ [receipt_of P (replay_of P D d w) x (se_time e)]\<rparr> \<and>
           dc_request d \<notin> au_request ` set (st_receipts st)) \<and>
         (case find (\<lambda>a. au_request a = dc_request d) (st_receipts st) of
            None \<Rightarrow> member (member x ''authority'') ''requestHash'' = JStr (request_hash_of P D d w)
          | Some a \<Rightarrow> au_hash a = request_hash_of P D d w)
      | None \<Rightarrow> x = new_record P D d w \<and> valid_record P D x \<and> dc_request d \<notin> au_request ` set (st_receipts st) \<and>
         (\<exists>rs. decision_history P D (ds_id D w) es = Inr rs \<and> int (length rs) = dc_expected d) \<and>
         (\<exists>e st2. readAll P C st' = Inr (es @ [e]) \<and> recordFromEvent P D e = Inr (canon (coll_key P) x) \<and>
            se_aggregate_type e = aggregateType (ds_domain D) \<and> se_aggregate e = ds_id D w \<and>
            se_id e = deterministicEventId P (dc_request d) \<and> se_time e = to_iso (dc_now d) \<and> st_receipts st2 = st_receipts st \<and>
            (st' = st2 \<or> st' = st2\<lparr>st_receipts := st_receipts st @ [receipt_of P (replay_of P D d w) x (se_time e)]\<rparr>))"
      show ?thesis
      proof (cases "find (\<lambda>e. se_id e = deterministicEventId P (dc_request d)) es")
        case None
        with e have ne: "dc_request d \<noteq> dc_request c" by auto
        from k [unfolded None option.case] obtain f st2 where "readAll P C st' = Inr (es @ [f])" "st_receipts st2 = st_receipts st"
          "st' = st2 \<or> st' = st2\<lparr>st_receipts := st_receipts st @ [receipt_of P (replay_of P D d w) x (se_time f)]\<rparr>" by blast
        then show ?thesis
          by (intro committed_kept [OF assms(4) es, of st' "[f]"]) (auto simp: find_other [of au_request] req ne)
      next
        case (Some f)
        note k' = k [unfolded Some option.case]
        show ?thesis
        proof (cases "st' = st")
          case False
          with k' have st': "st' = st\<lparr>st_receipts := st_receipts st @ [receipt_of P (replay_of P D d w) x (se_time f)]\<rparr>"
            and new: "dc_request d \<notin> au_request ` set (st_receipts st)" by blast+
          have rd: "readAll P C st' = Inr es" unfolding st' receipts_read by (rule es)
          show ?thesis
          proof (cases "dc_request d = dc_request c")
            case True
            have fe: "f = e" using Some e True by simp
            have x: "x = r" using k' r(1) fe by simp
            have none: "find (\<lambda>a. au_request a = dc_request c) (st_receipts st) = None" using new True by (intro no_find) simp
            have "member (member x ''authority'') ''requestHash'' = JStr (request_hash_of P D d w)" using k' none True by auto
            then have "request_hash_of P D d w = request_hash_of P D c v" using r(3) x by simp
            then have "replay_of P D d w = replay_of P D c v" using True by (simp add: replay_of_def)
            then have "find (\<lambda>a. au_request a = dc_request c) (st_receipts st') = Some (receipt_of P (replay_of P D c v) r (se_time e))"
              using none req [of w x] True by (simp add: st' find_append_one x fe)
            then show ?thesis unfolding committed_def using rd e r by (intro exI [of _ es] exI [of _ e]) simp
          next
            case False
            then show ?thesis using rd by (intro committed_kept [OF assms(4) es, of st' "[]"]) (simp_all add: st' find_other [of au_request] req)
          qed
        qed (use assms(4) in simp)
      qed
    qed
  next
    case (d_other i uuid n n' ev)
    show ?thesis
    proof (rule store_append_reads [OF assms(1,2) es d_other(1,2)])
      fix f assume "readAll P C st' = Inr (es @ [f])"
      moreover have "st_receipts st' = st_receipts st" using append_event_ok [OF d_other(1), THEN conjunct1] by simp
      ultimately show ?thesis by (intro committed_kept [OF assms(4) es, of st' "[f]"]) simp_all
    qed
  next
    case (d_receipt a es')
    have e': "e \<in> set es" "se_id e = deterministicEventId P (dc_request c)" using e by (auto simp: find_Some_iff)
    then have "au_request a \<noteq> dc_request c" using d_receipt(2,3) es event_type [OF r(1)] by (auto simp: list_all_iff)
    moreover have st': "st' = st\<lparr>st_receipts := st_receipts st @ [a]\<rparr>" using d_receipt(1) by (auto simp: recordAuthorityReceipt_def split: if_splits)
    moreover have "readAll P C st' = Inr es" unfolding st' receipts_read by (rule es)
    ultimately show ?thesis by (intro committed_kept [OF assms(4) es, of st' "[]"]) (simp_all add: find_other [of au_request])
  next
    case d_keep
    then show ?thesis using keep_reads [OF d_keep(1,2)] es by (intro committed_kept [OF assms(4) es, of st' "[]"]) simp_all
  qed
qed

lemma steps_committed:
  assumes "aead_ok C" and "hex_digest P" and "(decision_step P C D)\<^sup>*\<^sup>* st st'" and "committed P C D c v r st"
  shows "committed P C D c v r st'"
  using assms(3,4) by (induction rule: rtranclp_induct) (auto intro: step_committed [OF assms(1,2)])

lemma first_attempt_commits:
  assumes "aead_ok C" and "hex_digest P" and "attempted P C D c st st' r" and "wf_keys (dc_value c)"
    and "deterministicEventId P (dc_request c) \<notin> er_id ` set (st_events st)"
  shows "canonicalClone P (dc_value c) = Inr (canon (coll_key P) (dc_value c)) \<and> assertExpectedVersion (dc_expected c) = Inr () \<and>
    authority_request_id_pattern (dc_request c) \<and> sound_json r \<and> committed P C D c (canon (coll_key P) (dc_value c)) (canon (coll_key P) r) st'"
proof -
  obtain es where es: "readAll P C st = Inr es" using attempted_readable [OF assms(3)] by blast
  have "se_id ` set es = er_id ` set (st_events st)"
    using es verify_rows_map [of P C "st_key st" "GENESIS_HASH P" "st_events st" es] unfolding readAll_iff by (metis list.set_map)
  then have none: "find (\<lambda>e. se_id e = deterministicEventId P (dc_request c)) es = None"
    using assms(5) unfolding find_None_none by (metis imageI)
  show ?thesis
  proof (rule attempt_cases [OF assms(1,2) es assms(3,4)], unfold none option.case)
    fix v
    assume c: "canonicalClone P (dc_value c) = Inr v" "v = canon (coll_key P) (dc_value c)" "assertExpectedVersion (dc_expected c) = Inr ()"
      "authority_request_id_pattern (dc_request c)"
      and k: "r = new_record P D c v \<and> valid_record P D r \<and> dc_request c \<notin> au_request ` set (st_receipts st) \<and>
       (\<exists>rs. decision_history P D (ds_id D v) es = Inr rs \<and> int (length rs) = dc_expected c) \<and>
       (\<exists>e st2. readAll P C st' = Inr (es @ [e]) \<and> recordFromEvent P D e = Inr (canon (coll_key P) r) \<and>
          se_aggregate_type e = aggregateType (ds_domain D) \<and> se_aggregate e = ds_id D v \<and>
          se_id e = deterministicEventId P (dc_request c) \<and> se_time e = to_iso (dc_now c) \<and> st_receipts st2 = st_receipts st \<and>
          (st' = st2 \<or> st' = st2\<lparr>st_receipts := st_receipts st @ [receipt_of P (replay_of P D c v) r (se_time e)]\<rparr>))"
    obtain e st2 where e: "readAll P C st' = Inr (es @ [e])" "recordFromEvent P D e = Inr (canon (coll_key P) r)"
      "se_id e = deterministicEventId P (dc_request c)" "st_receipts st2 = st_receipts st"
      "st' = st2 \<or> st' = st2\<lparr>st_receipts := st_receipts st @ [receipt_of P (replay_of P D c v) r (se_time e)]\<rparr>" using k by blast
    have r: "r = new_record P D c v" and nr: "dc_request c \<notin> au_request ` set (st_receipts st)" using k by blast+
    have "storable (dc_value c)" using clone_value [OF assms(4)] c(1) by blast
    then have sv: "sound_json v" using assms(4) sound_canonical c(2) by (simp add: storable_def sound_json_def)
    have sr: "sound_json r" unfolding r new_record_def by (rule record_sound [OF sv])
    have sa: "sound_json (member r ''authority'')" unfolding r new_record_def record_members by (simp add: sound_json_def)
    have a: "member (member (canon (coll_key P) r) ''authority'') ''requestId'' = JStr (dc_request c)"
      "member (member (canon (coll_key P) r) ''authority'') ''requestHash'' = JStr (request_hash_of P D c v)"
      unfolding member_canon [OF sr] member_canon [OF sa] unfolding r new_record_def record_members by (simp_all add: member_def)
    have rec: "receipt_of P i (canon (coll_key P) r) t = receipt_of P i r t" for i t
      unfolding receipt_of_def hash_canon [OF sr] ..
    have nf: "find (\<lambda>a. au_request a = dc_request c) (st_receipts st) = None" using nr by (rule no_find)
    have req: "au_request (receipt_of P (replay_of P D c v) r t) = dc_request c" for t by (simp add: receipt_of_def replay_of_def)
    have "case find (\<lambda>a. au_request a = dc_request c) (st_receipts st') of None \<Rightarrow> True
        | Some a \<Rightarrow> a = receipt_of P (replay_of P D c v) (canon (coll_key P) r) (se_time e)"
      unfolding rec using e(4,5) nf req by (auto simp: find_append_one)
    moreover have "find (\<lambda>e. se_id e = deterministicEventId P (dc_request c)) (es @ [e]) = Some e" using none e(3) by (simp add: find_append_one)
    ultimately have "committed P C D c v (canon (coll_key P) r) st'" unfolding committed_def using e(1,2) a by blast
    then show ?thesis using c sr by blast
  qed
qed

section \<open>Histories\<close>

abbreviation histories_ok :: "platform \<Rightarrow> descriptor \<Rightarrow> stored_event list \<Rightarrow> bool" where
  "histories_ok P D es \<equiv> readable (recordAt P D) (aggregateType (ds_domain D)) es"

lemma version_canon: "sound_json r \<Longrightarrow> member r ''version'' = JNum n \<Longrightarrow> member (canon ck r) ''version'' = JNum n"
  by (simp add: member_canon)

lemma histories_record:
  assumes "histories_ok P D es" and "decision_history P D (se_aggregate e) es = Inr rs" and "recordFromEvent P D e = Inr r"
    and "member r ''version'' = JNum (int (length rs) + 1)"
  shows "histories_ok P D (es @ [e])" "decision_history P D (se_aggregate e) (es @ [e]) = Inr (rs @ [r])"
proof -
  have f: "recordAt P D (int (length rs)) e = Inr r" using assms(3,4) by (simp add: recordAt_iff)
  note h = assms(2) [unfolded decision_history_def] f event_type [OF assms(3)]
  show "decision_history P D (se_aggregate e) (es @ [e]) = Inr (rs @ [r])" unfolding decision_history_def by (rule history_grows [OF h])
  show "histories_ok P D (es @ [e])" by (rule readable_grows [OF assms(1) h])
qed

text \<open>The record a fresh command appends is the next of its history.\<close>

lemma attempt_extends:
  assumes "aead_ok C" and "hex_digest P" and "readAll P C st = Inr es" and "attempted P C D c st st' r" and "wf_keys (dc_value c)"
    and "histories_ok P D es"
  shows "\<exists>es'. readAll P C st' = Inr es' \<and> histories_ok P D es' \<and> (deterministicEventId P (dc_request c) \<notin> se_id ` set es \<longrightarrow>
    (\<exists>rid rs. member r ''recordId'' = JStr rid \<and> identifier_ok rid \<and> int (length rs) = dc_expected c \<and>
       decision_history P D rid es = Inr rs \<and> decision_history P D rid es' = Inr (rs @ [canon (coll_key P) r])))"
proof (rule attempt_cases [OF assms(1-5)])
  fix v
  assume c: "canonicalClone P (dc_value c) = Inr v" "v = canon (coll_key P) (dc_value c)"
    and k: "case find (\<lambda>e. se_id e = deterministicEventId P (dc_request c)) es of
      Some e \<Rightarrow> recordFromEvent P D e = Inr r \<and> (st' = st \<or> st' = st\<lparr>st_receipts := st_receipts st @ [receipt_of P (replay_of P D c v) r (se_time e)]\<rparr> \<and>
         dc_request c \<notin> au_request ` set (st_receipts st)) \<and>
       (case find (\<lambda>a. au_request a = dc_request c) (st_receipts st) of
          None \<Rightarrow> member (member r ''authority'') ''requestHash'' = JStr (request_hash_of P D c v)
        | Some a \<Rightarrow> au_hash a = request_hash_of P D c v)
    | None \<Rightarrow> r = new_record P D c v \<and> valid_record P D r \<and> dc_request c \<notin> au_request ` set (st_receipts st) \<and>
       (\<exists>rs. decision_history P D (ds_id D v) es = Inr rs \<and> int (length rs) = dc_expected c) \<and>
       (\<exists>e st2. readAll P C st' = Inr (es @ [e]) \<and> recordFromEvent P D e = Inr (canon (coll_key P) r) \<and>
          se_aggregate_type e = aggregateType (ds_domain D) \<and> se_aggregate e = ds_id D v \<and>
          se_id e = deterministicEventId P (dc_request c) \<and> se_time e = to_iso (dc_now c) \<and> st_receipts st2 = st_receipts st \<and>
          (st' = st2 \<or> st' = st2\<lparr>st_receipts := st_receipts st @ [receipt_of P (replay_of P D c v) r (se_time e)]\<rparr>))"
  show ?thesis
  proof (cases "find (\<lambda>e. se_id e = deterministicEventId P (dc_request c)) es")
    case (Some e)
    from k [unfolded Some option.case] have "readAll P C st' = Inr es" using receipts_read assms(3) by metis
    moreover have "e \<in> set es" "se_id e = deterministicEventId P (dc_request c)" using Some by (auto simp: find_Some_iff)
    then have "deterministicEventId P (dc_request c) \<in> se_id ` set es" by (metis imageI)
    ultimately show ?thesis using assms(6) by blast
  next
    case None
    note k' = k [unfolded None option.case]
    then obtain e where e: "readAll P C st' = Inr (es @ [e])" "recordFromEvent P D e = Inr (canon (coll_key P) r)" "se_aggregate e = ds_id D v" by blast
    obtain rs where rs: "decision_history P D (ds_id D v) es = Inr rs" "int (length rs) = dc_expected c" using k' by blast
    have r: "r = new_record P D c v" "valid_record P D r" using k' by blast+
    have "storable (dc_value c)" using clone_value [OF assms(5)] c(1) by blast
    then have sv: "sound_json v" using assms(5) sound_canonical c(2) by (simp add: storable_def sound_json_def)
    have sr: "sound_json r" unfolding r(1) new_record_def by (rule record_sound [OF sv])
    have "member r ''version'' = JNum (int (length rs) + 1)" unfolding r(1) new_record_def record_members rs(2) ..
    then have ver: "member (canon (coll_key P) r) ''version'' = JNum (int (length rs) + 1)" by (rule version_canon [OF sr])
    note h = histories_record [OF assms(6) rs(1) [folded e(3)] e(2) ver]
    have "member r ''recordId'' = JStr (ds_id D v)" unfolding r(1) new_record_def record_members ..
    moreover have "identifier_ok (ds_id D v)" using r(2) unfolding valid_record_def Let_def unfolding r(1) new_record_def record_members by blast
    ultimately show ?thesis using e(1,3) h rs by auto
  qed
qed

lemma step_histories:
  assumes "aead_ok C" and "hex_digest P" and "decision_step P C D st st'" and "readAll P C st = Inr es" and "histories_ok P D es"
  shows "\<exists>es'. readAll P C st' = Inr es' \<and> histories_ok P D es'"
  using assms(3)
proof cases
  case (d_attempt c r)
  then show ?thesis using attempt_extends [OF assms(1,2,4) _ _ assms(5)] by blast
next
  case (d_other i uuid n n' ev)
  show ?thesis
  proof (rule store_append_reads [OF assms(1,2,4) d_other(1,2)])
    fix e assume "readAll P C st' = Inr (es @ [e])" "se_aggregate_type e = ae_aggregate_type i"
    then show ?thesis using readable_other [OF _ assms(5)] d_other(3) by metis
  qed
next
  case (d_receipt a es')
  then have "st' = st\<lparr>st_receipts := st_receipts st @ [a]\<rparr>" by (auto simp: recordAuthorityReceipt_def split: if_splits)
  then show ?thesis using receipts_read assms(4,5) by metis
next
  case d_keep
  then show ?thesis using keep_reads assms(4,5) by metis
qed

lemma steps_histories:
  assumes "aead_ok C" and "hex_digest P" and "(decision_step P C D)\<^sup>*\<^sup>* st st'" and "readAll P C st = Inr es" and "histories_ok P D es"
  shows "\<exists>es'. readAll P C st' = Inr es' \<and> histories_ok P D es'"
  using assms(3)
proof (induction rule: rtranclp_induct)
  case base
  then show ?case using assms(4,5) by blast
next
  case (step st1 st2)
  then show ?case using step_histories [OF assms(1,2)] by blast
qed

lemma get_history: "readAll P C st = Inr es \<Longrightarrow> identifier_ok rid \<Longrightarrow>
    get_decision P C D rid st = bindE (decision_history P D rid es) (\<lambda>rs. Inr (last_opt rs))"
  by (simp add: get_decision_def assertRecordIdentifier_def aggregate_history)

lemma committed_clock: "committed P C D (c\<lparr>dc_now := t\<rparr>) v r st = committed P C D c v r st"
proof -
  have e: "replay_of P D (c\<lparr>dc_now := t\<rparr>) v = replay_of P D c v" "dc_request (c\<lparr>dc_now := t\<rparr>) = dc_request c"
    "dc_expected (c\<lparr>dc_now := t\<rparr>) = dc_expected c" by (simp_all add: replay_of_def)
  show ?thesis unfolding committed_def e ..
qed

lemma sample_keys_ok: "wf_keys (dc_value sample_command)"
  using mapping_sound(1) [of sample_mapping] by (simp add: sample_command_def sound_json_def)

lemma sample_grows:
  assumes "readAll sample_signing sample_crypto st0 = Inr []" and "record_command sample_signing sample_crypto sample_domain sample_command [] [] [] st0 = Inr (st, r)"
  shows "length (st_events st) = 1"
proof -
  let ?P = sample_signing and ?C = sample_crypto
  have a: "attempted ?P ?C sample_domain sample_command st0 st r" using assms(2) by (auto simp: attempted_def)
  obtain e where "readAll ?P ?C st = Inr [e]"
    by (rule attempt_cases [OF sample_aead sample_signing_digest assms(1) a sample_keys_ok]) auto
  then show ?thesis unfolding readAll_iff using verify_rows_map [of ?P ?C "st_key st" "GENESIS_HASH ?P" "st_events st" "[e]"] by auto
qed

section \<open>What a request digest names\<close>

text \<open>The text whose digest identifies the request of a command.\<close>

definition request_text :: "platform \<Rightarrow> descriptor \<Rightarrow> decision_command \<Rightarrow> string" where
  "request_text P D c = stable_stringify (coll_key P) (JObj [(''operation'', JStr (ds_operation D)),
     (''payload'', JObj [(''expectedVersion'', JNum (dc_expected c)), (''value'', canon (coll_key P) (dc_value c))])])"

lemma request_digest: "request_hash_of P D c (canon (coll_key P) (dc_value c)) = sha256 P (request_text P D c)"
  by (simp add: canonicalRequestHash_def request_text_def)

lemma request_text_names:
  assumes "request_text P D d = request_text P D c" and "sound_json (dc_value d)" and "sound_json (dc_value c)"
  shows "dc_expected d = dc_expected c \<and> canon (coll_key P) (dc_value d) = canon (coll_key P) (dc_value c)"
proof -
  define g where "g c = JObj [(''operation'', JStr (ds_operation D)),
     (''payload'', JObj [(''expectedVersion'', JNum (dc_expected c)), (''value'', canon (coll_key P) (dc_value c))])]" for c :: decision_command
  have s: "array_safe (g c) \<and> g c \<noteq> JUndef" if "sound_json (dc_value c)" for c :: decision_command
  proof -
    have "sound_json (g c)" using sound_canonical [OF that, of "coll_key P"] by (simp add: g_def sound_json_def)
    then show ?thesis using defined_safe [of "g c"] by (simp add: sound_json_def)
  qed
  have "canon (coll_key P) (g d) = canon (coll_key P) (g c)"
    using assms(1) s [OF assms(2)] s [OF assms(3)]
    unfolding request_text_def g_def [symmetric] by (simp only: stable_stringify_eq_iff simp_thms)
  from canon_obj_eq [OF this [unfolded g_def]]
  have "canon (coll_key P) (JObj [(''expectedVersion'', JNum (dc_expected d)), (''value'', canon (coll_key P) (dc_value d))]) =
      canon (coll_key P) (JObj [(''expectedVersion'', JNum (dc_expected c)), (''value'', canon (coll_key P) (dc_value c))])"
    by (simp del: canon.simps)
  from canon_obj_eq [OF this] show ?thesis by (simp add: canon_canon)
qed

text \<open>A command that answers from the stored event of its identifier has the digest of the stored request.\<close>

lemma committed_request:
  assumes "aead_ok C" and "hex_digest P" and "committed P C D c v r st" and "dc_request d = dc_request c"
    and "attempted P C D d st st' r'" and "wf_keys (dc_value d)"
  shows "request_hash_of P D d (canon (coll_key P) (dc_value d)) = request_hash_of P D c v \<and> storable (dc_value d)"
proof -
  obtain es e where es: "readAll P C st = Inr es" "find (\<lambda>e. se_id e = deterministicEventId P (dc_request c)) es = Some e"
    and r: "recordFromEvent P D e = Inr r" "member (member r ''authority'') ''requestHash'' = JStr (request_hash_of P D c v)"
    and rc: "case find (\<lambda>a. au_request a = dc_request c) (st_receipts st) of None \<Rightarrow> True
      | Some a \<Rightarrow> a = receipt_of P (replay_of P D c v) r (se_time e)"
    using assms(3) unfolding committed_def by blast
  show ?thesis
  proof (rule attempt_cases [OF assms(1,2) es(1) assms(5,6)], unfold assms(4) es(2) option.case)
    fix w
    assume w: "canonicalClone P (dc_value d) = Inr w" "w = canon (coll_key P) (dc_value d)"
      and k: "recordFromEvent P D e = Inr r' \<and> (st' = st \<or> st' = st\<lparr>st_receipts := st_receipts st @ [receipt_of P (replay_of P D d w) r' (se_time e)]\<rparr> \<and>
         dc_request c \<notin> au_request ` set (st_receipts st)) \<and>
       (case find (\<lambda>a. au_request a = dc_request c) (st_receipts st) of
          None \<Rightarrow> member (member r' ''authority'') ''requestHash'' = JStr (request_hash_of P D d w)
        | Some a \<Rightarrow> au_hash a = request_hash_of P D d w)"
    have "request_hash_of P D d w = request_hash_of P D c v"
      using k r rc by (auto simp: receipt_of_def replay_of_def split: option.splits)
    then show ?thesis using w clone_value [OF assms(6)] by blast
  qed
qed

section \<open>Properties\<close>

text \<open>C29: A command takes effect once. After its first attempt, whether it answered or the process stopped before the receipt was written,
  and after any further steps of the store, the same command answers with the same record, appends no event, and leaves the
  receipt of that record behind.\<close>

theorem decision_takes_effect_once:
  assumes "aead_ok C" and "hex_digest P" and "wf_keys (dc_value c)" and "attempted P C D c st st1 r"
    and "deterministicEventId P (dc_request c) \<notin> er_id ` set (st_events st)" and "(decision_step P C D)\<^sup>*\<^sup>* st1 st2"
  shows "\<exists>st3 r'. record_command P C D c uuid n n' st2 = Inr (st3, r') \<and> st_events st3 = st_events st2 \<and>
    stable_stringify (coll_key P) r' = stable_stringify (coll_key P) r \<and>
    (\<exists>a. findAuthorityReceipt st3 (dc_request c) = Inr (Some a) \<and> au_response a = hash_json P r)"
proof -
  note f = first_attempt_commits [OF assms(1,2,4,3,5)]
  have "committed P C D c (canon (coll_key P) (dc_value c)) (canon (coll_key P) r) st2"
    using steps_committed [OF assms(1,2,6)] f by blast
  from committed_replays [OF assms(2) this] f obtain st3 where
    "record_command P C D c uuid n n' st2 = Inr (st3, canon (coll_key P) r)" "st_events st3 = st_events st2"
    "\<exists>a. findAuthorityReceipt st3 (dc_request c) = Inr (Some a) \<and> au_response a = hash_json P (canon (coll_key P) r)" by blast
  then show ?thesis using hash_canon f by (intro exI [of _ st3] exI [of _ "canon (coll_key P) r"])
      (simp add: stable_stringify_canon canon_canon del: canon.simps)
qed

theorem decision_takes_effect_once_witness:
  "\<exists>st0 st1 r st3 r'. attempted sample_signing sample_crypto sample_domain sample_command st0 st1 r \<and> st_events st0 = [] \<and>
     record_command sample_signing sample_crypto sample_domain sample_command [] [] [] st1 = Inr (st3, r') \<and> st_events st3 = st_events st1"
proof -
  obtain st0 st1 r where "record_command sample_signing sample_crypto sample_domain sample_command [] [] [] st0 = Inr (st1, r)" "st_events st0 = []"
    using sample_recorded by blast
  then have a: "attempted sample_signing sample_crypto sample_domain sample_command st0 st1 r" "st_events st0 = []" by (auto simp: attempted_def)
  then show ?thesis
    using decision_takes_effect_once [OF sample_aead sample_signing_digest sample_keys_ok a(1), of st1 "[]" "[]" "[]"] by auto
qed

text \<open>C30: A request identifier names one command: once a command was attempted, a command with its identifier succeeds only
  with the same expected version and the same canonical value, or the texts of these two requests have the same SHA-256 digest
  without being the same.\<close>

theorem request_id_names_one_command:
  assumes "aead_ok C" and "hex_digest P" and "wf_keys (dc_value c)" and "attempted P C D c st st1 r"
    and "deterministicEventId P (dc_request c) \<notin> er_id ` set (st_events st)" and "(decision_step P C D)\<^sup>*\<^sup>* st1 st2"
    and "record_command P C D d uuid n n' st2 = Inr (st3, r')" and "dc_request d = dc_request c" and "wf_keys (dc_value d)"
  shows "dc_expected d = dc_expected c \<and> canon (coll_key P) (dc_value d) = canon (coll_key P) (dc_value c) \<or>
    sha_collision P (request_text P D d) (request_text P D c)"
proof -
  note f = first_attempt_commits [OF assms(1,2,4,3,5)]
  then have c: "committed P C D c (canon (coll_key P) (dc_value c)) (canon (coll_key P) r) st2"
    using steps_committed [OF assms(1,2,6)] by blast
  have "attempted P C D d st2 st3 r'" using assms(7) by (auto simp: attempted_def)
  note h = committed_request [OF assms(1,2) c assms(8) this assms(9)]
  have "sound_json (dc_value d)" "sound_json (dc_value c)"
    using h f clone_value [OF assms(3)] assms(3,9) by (auto simp: storable_def sound_json_def)
  then show ?thesis
    using h sha256_eq request_text_names unfolding request_digest by blast
qed

text \<open>The retry of a command at a later time.\<close>

theorem request_id_names_one_command_witness:
  "\<exists>st0 st1 r st3 r'. attempted sample_signing sample_crypto sample_domain sample_command st0 st1 r \<and>
     record_command sample_signing sample_crypto sample_domain (sample_command\<lparr>dc_now := 5\<rparr>) [] [] [] st1 = Inr (st3, r') \<and>
     dc_expected (sample_command\<lparr>dc_now := 5\<rparr>) = dc_expected sample_command"
proof -
  let ?P = sample_signing and ?C = sample_crypto and ?c = sample_command and ?d = "sample_command\<lparr>dc_now := 5\<rparr>"
  let ?v = "canon (coll_key ?P) (dc_value ?c)"
  obtain st0 st1 r where rec: "record_command ?P ?C sample_domain ?c [] [] [] st0 = Inr (st1, r)" and e: "st_events st0 = []"
    using sample_recorded by blast
  from rec have a: "attempted ?P ?C sample_domain ?c st0 st1 r" by (auto simp: attempted_def)
  have n: "deterministicEventId ?P (dc_request ?c) \<notin> er_id ` set (st_events st0)" using e by simp
  note f = first_attempt_commits [OF sample_aead sample_signing_digest a sample_keys_ok n]
  have "committed ?P ?C sample_domain ?d ?v (canon (coll_key ?P) r) st1" using f unfolding committed_clock by blast
  then obtain st3 where st3: "record_command ?P ?C sample_domain ?d [] [] [] st1 = Inr (st3, canon (coll_key ?P) r)"
    using committed_replays [OF sample_signing_digest, of ?C sample_domain ?d ?v] f by fastforce
  have "request_text ?P sample_domain ?d = request_text ?P sample_domain ?c" by (simp add: request_text_def)
  then have "\<not> sha_collision ?P (request_text ?P sample_domain ?d) (request_text ?P sample_domain ?c)"
    by (simp add: sha_collision_def)
  moreover have "dc_expected ?d = dc_expected ?c \<and> canon (coll_key ?P) (dc_value ?d) = ?v \<or>
      sha_collision ?P (request_text ?P sample_domain ?d) (request_text ?P sample_domain ?c)"
    by (rule request_id_names_one_command [OF sample_aead sample_signing_digest sample_keys_ok a n rtranclp.rtrancl_refl st3])
      (simp_all add: sample_keys_ok)
  ultimately show ?thesis using a st3 by blast
qed

text \<open>C31: In every store reached from a created one, over any number of commands of a domain, crashes, receipts and events of other
  parts, the history of every record is readable, its versions are 1, 2, 3 and so on without a gap, and a lookup answers with the last.\<close>

theorem decision_histories_dense:
  assumes "aead_ok C" and "hex_digest P" and "salt \<noteq> []" and "create_store P C ms pass salt n1 n2 uuid = Inr st0"
    and "(decision_step P C D)\<^sup>*\<^sup>* st0 st" and "identifier_ok rid"
  shows "\<exists>es rs. readAll P C st = Inr es \<and> decision_history P D rid es = Inr rs \<and>
    map (\<lambda>r. member r ''version'') rs = map (\<lambda>k. JNum (int k + 1)) [0..<length rs] \<and>
    length rs = length (filter (\<lambda>e. se_aggregate_type e = aggregateType (ds_domain D) \<and> se_aggregate e = rid) es) \<and>
    get_decision P C D rid st = Inr (last_opt rs)"
proof -
  obtain es where es: "readAll P C st = Inr es" "histories_ok P D es"
    using steps_histories [OF assms(1,2,5) created_reads [OF assms(1-4)] readable_nil] by blast
  obtain rs where rs: "decision_history P D rid es = Inr rs" using es(2) by (auto simp: readable_def decision_history_def)
  have "map (\<lambda>r. member r ''version'') rs = map (\<lambda>k. JNum (int k + 1)) [0..<length rs]"
    using decisions.dense [OF rs [unfolded decision_history_def]] .
  moreover have "length rs = length (filter (\<lambda>e. se_aggregate_type e = aggregateType (ds_domain D) \<and> se_aggregate e = rid) es)"
    using rs mapiE_length by (auto simp: decision_history_def history_of_def)
  ultimately show ?thesis using es(1) rs get_history [OF es(1) assms(6)] by auto
qed


theorem decision_histories_dense_witness:
  "\<exists>st es rs. readAll sample_signing sample_crypto st = Inr es \<and> length (st_events st) = 1 \<and>
     decision_history sample_signing sample_domain ''MAP-1'' es = Inr rs \<and>
     map (\<lambda>r. member r ''version'') rs = map (\<lambda>k. JNum (int k + 1)) [0..<length rs]"
proof -
  let ?P = sample_signing and ?C = sample_crypto
  obtain st0 st r where st0: "create_store ?P ?C [1] ''correct horse'' '' salt'' ''n1'' ''n2'' ''u'' = Inr st0" "readAll ?P ?C st0 = Inr []"
    and rec: "record_command ?P ?C sample_domain sample_command [] [] [] st0 = Inr (st, r)" using sample_recorded by blast
  then have a: "attempted ?P ?C sample_domain sample_command st0 st r" by (auto simp: attempted_def)
  have s: "(decision_step ?P ?C sample_domain)\<^sup>*\<^sup>* st0 st" using d_attempt [OF a sample_keys_ok] by blast
  have "identifier_ok ''MAP-1''" by code_simp
  moreover have salt: "'' salt'' \<noteq> []" by simp
  ultimately obtain es rs where "readAll ?P ?C st = Inr es" "decision_history ?P sample_domain ''MAP-1'' es = Inr rs"
    "map (\<lambda>r. member r ''version'') rs = map (\<lambda>k. JNum (int k + 1)) [0..<length rs]"
    using decision_histories_dense [OF sample_aead sample_signing_digest salt st0(1) s] by blast
  moreover have "length (st_events st) = 1" using sample_grows st0(2) rec by blast
  ultimately show ?thesis by blast
qed

end
