(* ===== verification/CredentialProps.thy ===== *)
theory CredentialProps
  imports DecisionProps
begin

text \<open>
  The promises of credential mappings: a passport holds approved claims only, within what was requested and what the credential
  allows, an approval approves one claim, and a drafted and approved claim is recorded and read back as it was.
\<close>

inductive passport_grown :: "platform \<Rightarrow> passport_entry \<Rightarrow> passport_entry \<Rightarrow> bool" for P :: platform and e0 :: passport_entry where
  grown_start: "passport_grown P e0 e0"
| grown_add: "passport_grown P e0 e \<Longrightarrow> addCredentialMapping P e m now = Inr e' \<Longrightarrow> passport_grown P e0 e'"

lemma grown_fields: "passport_grown P e0 e \<Longrightarrow> \<exists>ms. e = e0\<lparr>pe_mappings := ms\<rparr>"
proof (induction rule: passport_grown.induct)
  case grown_start
  show ?case by (intro exI [of _ "pe_mappings e0"]) simp
next
  case (grown_add e m now e')
  then obtain ms where "e = e0\<lparr>pe_mappings := ms\<rparr>" by blast
  moreover have "e' = e\<lparr>pe_mappings := sort_key (\<lambda>x. coll_key P (mp_id x)) (pe_mappings e @ [m])\<rparr>" using added_mapping [OF grown_add(2)] by blast
  ultimately show ?case by auto
qed

lemma grown_sound: "passport_grown P e0 e \<Longrightarrow> pe_mappings e0 = [] \<Longrightarrow> passport_sound P e"
  by (induction rule: passport_grown.induct) (simp add: passport_sound_def, blast intro: added_sound)

lemma grown_eligible: "passport_grown P e0 e \<Longrightarrow> e = e0 \<or> vr_overall (pe_verification e0) = OverallVerified \<and> pe_hash e0 = hash_json P (pe_credential e0)"
proof (induction rule: passport_grown.induct)
  case (grown_add e m now e')
  have "assertPassportEntryEligible P e = Inr ()" using added_mapping [OF grown_add(2)] by blast
  then have "vr_overall (pe_verification e) = OverallVerified" "pe_hash e = hash_json P (pe_credential e)"
    unfolding assertPassportEntryEligible_def bindE_Inr_iff if_Inl_Inr by simp_all
  then show ?case using grown_fields [OF grown_add(1)] by auto
qed simp

lemma payload_binds:
  assumes "computeCredentialMappingHash P m = computeCredentialMappingHash P n"
  shows "mappingPayload m = mappingPayload n \<or> (\<exists>x y. sha_collision P x y)"
proof -
  have s: "array_safe (mappingPayload m) \<and> mappingPayload m \<noteq> JUndef" for m by (simp add: mappingPayload_def)
  have "canon (coll_key P) (mappingPayload m) = canon (coll_key P) (mappingPayload n) \<Longrightarrow> mappingPayload m = mappingPayload n"
    unfolding mappingPayload_def by (drule canon_obj_eq) simp_all
  then show ?thesis using hash_json_eq [OF assms [unfolded computeCredentialMappingHash_def]] s by blast
qed

lemma grants_flags: "approval_grants P e m \<Longrightarrow> mp_approval m = Some a \<Longrightarrow>
    ma_hash a = computeCredentialMappingHash P m \<and> mp_public m = ma_public a \<and> mp_auto m = ma_auto a"
  unfolding approval_grants_def by auto

text \<open>An approved mapping is a plan the repository accepts.\<close>

lemma approved_plan:
  assumes "createCredentialClaimMapping P e d = Inr m" and "approveCredentialClaimMapping P e m a now = Inr m'"
  shows "plan_checks P m' = Inr ()"
proof (rule approved_plan_checks)
  note p = approved_mapping [OF assms(2)]
  then show "approval_grants P e m'" by blast
  have "mp_request_auto m \<longrightarrow> mp_request_public m" using created_mapping [OF assms(1)] by blast
  then show "mp_request_auto m' \<longrightarrow> mp_request_public m'" using p by (simp add: mappingPayload_def)
qed

text \<open>The checks of the repository do not include the audience of the credential: a plan that the operator's approval cannot
  produce, for an audience restricted credential, passes them.\<close>

lemma restricted_plan_accepted:
  assumes "createCredentialClaimMapping P e d = Inr m" and "hasAudienceRestriction e" and "mp_request_public m"
    and "ma_hash a = mp_hash m" and "ma_public a" and "\<not> ma_auto a" and "parse_date P (ma_approved a) = Some t"
    and "parse_date P (ma_expires a) = Some x" and "t < x" and "x - t \<le> 24 * 60 * 60000"
  shows "approveCredentialClaimMapping P e m a now \<noteq> Inr m'"
    and "plan_checks P (m\<lparr>mp_public := True, mp_status := MappingApproved, mp_approval := Some a\<rparr>) = Inr ()"
proof -
  show "approveCredentialClaimMapping P e m a now \<noteq> Inr m'"
  proof
    assume "approveCredentialClaimMapping P e m a now = Inr m'"
    then have "approval_grants P e m'" "mp_approval m' = Some a" using approved_mapping by blast+
    then show False using assms(2,5) by (simp add: approval_grants_def)
  qed
  have "mp_hash m = computeCredentialMappingHash P m" "\<not> mp_auto m" "mp_request_auto m \<longrightarrow> mp_request_public m"
    using created_mapping [OF assms(1)] by blast+
  moreover have "computeCredentialMappingHash P (m\<lparr>mp_public := True, mp_status := MappingApproved, mp_approval := Some a\<rparr>) = computeCredentialMappingHash P m"
    by (simp add: computeCredentialMappingHash_def mappingPayload_def)
  ultimately show "plan_checks P (m\<lparr>mp_public := True, mp_status := MappingApproved, mp_approval := Some a\<rparr>) = Inr ()"
    using assms(3-10) by (simp add: plan_checks_def)
qed

text \<open>The record of a fresh command is the last of its history.\<close>

lemma recorded_last:
  assumes "aead_ok C" and "hex_digest P" and "readAll P C st = Inr es" and "wf_keys (dc_value c)" and "v = canon (coll_key P) (dc_value c)"
    and "record_command P C D c uuid n n' st = Inr (st', new_record P D c v)" and "identifier_ok (ds_id D v)"
    and "decision_history P D (ds_id D v) es = Inr rs" and "deterministicEventId P (dc_request c) \<notin> er_id ` set (st_events st)"
  shows "get_decision P C D (ds_id D v) st' = Inr (Some (canon (coll_key P) (new_record P D c v)))"
proof -
  have a: "attempted P C D c st st' (new_record P D c v)" using assms(6) by (auto simp: attempted_def)
  have "se_id ` set es = er_id ` set (st_events st)"
    using assms(3) verify_rows_map [of P C "st_key st" "GENESIS_HASH P" "st_events st" es] unfolding readAll_iff by (metis list.set_map)
  then have none: "find (\<lambda>e. se_id e = deterministicEventId P (dc_request c)) es = None"
    using assms(9) unfolding find_None_none by (metis imageI)
  obtain e where e: "readAll P C st' = Inr (es @ [e])" "recordFromEvent P D e = Inr (canon (coll_key P) (new_record P D c v))"
    "se_aggregate_type e = aggregateType (ds_domain D)" "se_aggregate e = ds_id D v" and len: "int (length rs) = dc_expected c"
    and st: "storable (dc_value c)"
  proof (rule attempt_cases [OF assms(1-3) a assms(4)], unfold none option.case)
    fix w assume w: "canonicalClone P (dc_value c) = Inr w" "w = canon (coll_key P) (dc_value c)"
      and k: "new_record P D c v = new_record P D c w \<and> valid_record P D (new_record P D c v) \<and> dc_request c \<notin> au_request ` set (st_receipts st) \<and>
        (\<exists>rs. decision_history P D (ds_id D w) es = Inr rs \<and> int (length rs) = dc_expected c) \<and>
        (\<exists>e st2. readAll P C st' = Inr (es @ [e]) \<and> recordFromEvent P D e = Inr (canon (coll_key P) (new_record P D c v)) \<and>
          se_aggregate_type e = aggregateType (ds_domain D) \<and> se_aggregate e = ds_id D w \<and>
          se_id e = deterministicEventId P (dc_request c) \<and> se_time e = to_iso (dc_now c) \<and> st_receipts st2 = st_receipts st \<and>
          (st' = st2 \<or> st' = st2\<lparr>st_receipts := st_receipts st @ [receipt_of P (replay_of P D c w) (new_record P D c v) (se_time e)]\<rparr>))"
    have wv: "w = v" using w(2) assms(5) by simp
    have "storable (dc_value c)" using clone_value [OF assms(4)] w(1) by blast
    then show thesis using that k assms(8) unfolding wv by auto
  qed
  have sr: "sound_json (new_record P D c v)" unfolding new_record_def assms(5)
    using st assms(4) by (intro record_sound sound_canonical) (simp add: storable_def sound_json_def)
  have "member (new_record P D c v) ''version'' = JNum (int (length rs) + 1)" unfolding new_record_def record_members len ..
  then have "recordAt P D (int (length rs)) e = Inr (canon (coll_key P) (new_record P D c v))"
    using e(2) version_canon [OF sr] by (simp add: recordAt_iff)
  then have "decision_history P D (ds_id D v) (es @ [e]) = Inr (rs @ [canon (coll_key P) (new_record P D c v)])"
    unfolding decision_history_def e(4) [symmetric]
    by (intro history_grows [OF _ _ e(3)]) (simp_all only: e(4) assms(8) [unfolded decision_history_def])
  then show ?thesis using get_history [OF e(1) assms(7)] by (simp add: last_opt_def)
qed

section \<open>A sample passport\<close>

definition sample_check :: credential_check where
  "sample_check = \<lparr>cc_status = CheckPass, cc_code = ''ok'', cc_at = ''2026-01-01T00:00:00.000Z'', cc_details = []\<rparr>"

definition sample_passport :: passport_entry where
  "sample_passport = (let e = \<lparr>pe_id = [], pe_imported = ''2026-01-01T00:00:00.000Z'',
     pe_original = \<lparr>oa_hash = ''sha256:ab12'', oa_length = 2, oa_format = ''json'', oa_media = ''application/json''\<rparr>, pe_format = ''json-ld'',
     pe_hash = [], pe_credential = JObj [(''id'', JStr ''urn:credential:1'')],
     pe_summary = \<lparr>cs_credential = Some ''urn:credential:1'', cs_issuer = None, cs_subject = None, cs_achievement = None, cs_name = None,
       cs_from = None, cs_until = None\<rparr>,
     pe_verification = \<lparr>vr_schema = sample_check, vr_signature = sample_check, vr_issuer = sample_check, vr_subject = sample_check,
       vr_time = sample_check, vr_revocation = sample_check, vr_refresh = sample_check, vr_overall = OverallVerified, vr_eligible = True\<rparr>,
     pe_mappings = []\<rparr> in e\<lparr>pe_id := expected_passport_id e, pe_hash := hash_json sample_signing (pe_credential e)\<rparr>)"

definition sample_claim_draft :: mapping_draft where
  "sample_claim_draft = \<lparr>md_id = ''MAP-1'', md_type = ''education'', md_text = ''BSc'', md_public = Some True, md_auto = Some True\<rparr>"

definition sample_pending :: claim_mapping where
  "sample_pending = (let m = \<lparr>mp_id = ''MAP-1'', mp_credential = ''urn:credential:1'', mp_credential_hash = pe_hash sample_passport,
     mp_type = ''education'', mp_text = ''BSc'', mp_pointer = ''credential:sha256:ab12#credentialSubject.achievement'', mp_request_public = True,
     mp_request_auto = True, mp_public = False, mp_auto = False, mp_status = MappingPending, mp_hash = [], mp_approval = None\<rparr>
   in m\<lparr>mp_hash := computeCredentialMappingHash sample_signing m\<rparr>)"

definition sample_mapping_approval :: mapping_approval where
  "sample_mapping_approval = \<lparr>ma_id = ''A-1'', ma_approver = ''operator'', ma_approved = ''2026-01-01T00:00:00.000Z'',
     ma_expires = ''2026-01-01T12:00:00.000Z'', ma_hash = mp_hash sample_pending, ma_public = True, ma_auto = True,
     ma_receipt = ''sha256:'' @ replicate 64 CHR ''0''\<rparr>"

definition sample_approved :: claim_mapping where
  "sample_approved = sample_pending\<lparr>mp_public := True, mp_auto := True, mp_status := MappingApproved, mp_approval := Some sample_mapping_approval\<rparr>"

lemma sample_contract: "assertCredentialContract sample_signing n j = Inr ()"
  by (simp add: assertCredentialContract_def sample_signing_def sample_platform_def)

lemma sample_mapping_texts: "validIdentifier ''MAP-1'' \<and> validIdentifier ''A-1'' \<and> validIdentifier ''operator'' \<and> validClaimText ''BSc'' \<and> trim ''BSc'' = ''BSc'' \<and>
    receipt_hash_pattern (''sha256:'' @ replicate 64 CHR ''0'')"
  by code_simp

lemma sample_source: "cs_credential (pe_summary sample_passport) = Some ''urn:credential:1''" "oa_hash (pe_original sample_passport) = ''sha256:ab12''"
  by (simp_all add: sample_passport_def Let_def)

lemma sample_drafted: "createCredentialClaimMapping sample_signing sample_passport sample_claim_draft = Inr sample_pending"
proof -
  have d: "md_id sample_claim_draft = ''MAP-1''" "md_type sample_claim_draft = ''education''" "md_text sample_claim_draft = ''BSc''"
    "md_public sample_claim_draft = Some True" "md_auto sample_claim_draft = Some True" by (simp_all add: sample_claim_draft_def)
  have t: "validIdentifier ''MAP-1''" "validClaimText ''BSc''" "trim ''BSc'' = ''BSc''" using sample_mapping_texts by blast+
  show ?thesis unfolding createCredentialClaimMapping_def sample_contract d t(3) sample_source option.case bindE.simps
    unfolding sample_pending_def Let_def using t(1,2) by simp
qed

lemma sample_bound: "computeCredentialMappingHash sample_signing (sample_pending\<lparr>mp_public := p, mp_auto := b, mp_status := s, mp_approval := a\<rparr>) = mp_hash sample_pending"
  "computeCredentialMappingHash sample_signing sample_pending = mp_hash sample_pending"
  by (simp_all add: sample_pending_def Let_def computeCredentialMappingHash_def mappingPayload_def del: stable_stringify.simps)

lemma sample_eligible: "assertPassportEntryEligible sample_signing sample_passport = Inr ()"
  unfolding assertPassportEntryEligible_def sample_contract
  by (simp add: sample_passport_def Let_def expected_passport_id_def del: stable_stringify.simps)

lemma sample_fields: "mp_credential_hash sample_pending = pe_hash sample_passport" "cs_credential (pe_summary sample_passport) = Some (mp_credential sample_pending)"
  "mp_request_public sample_pending" "mp_request_auto sample_pending" "mp_status sample_pending = MappingPending" "mp_approval sample_pending = None"
  "mp_id sample_pending = ''MAP-1''" "pe_mappings sample_passport = []" "\<not> hasAudienceRestriction sample_passport"
  by (simp_all add: sample_pending_def sample_passport_def Let_def hasAudienceRestriction_def member_def)

lemma sample_valid: "assertApprovalValid sample_signing sample_passport m sample_mapping_approval 1767225600000 = Inr ()"
  if "mp_hash m = mp_hash sample_pending" "mp_request_public m" "mp_request_auto m"
  unfolding assertApprovalValid_def using that sample_mapping_texts
  by (simp add: sample_mapping_approval_def sample_start sample_end sample_fields MAX_APPROVAL_WINDOW_MS_def MAX_CLOCK_SKEW_MS_def)

lemma sample_approval_ok: "approveCredentialClaimMapping sample_signing sample_passport sample_pending sample_mapping_approval 1767225600000 = Inr sample_approved"
proof -
  have b: "assertMappingBound sample_signing sample_passport sample_pending = Inr ()"
    by (simp add: assertMappingBound_def sample_contract sample_fields sample_bound)
  have f: "ma_public sample_mapping_approval" "ma_auto sample_mapping_approval" by (simp_all add: sample_mapping_approval_def)
  show ?thesis unfolding approveCredentialClaimMapping_def sample_eligible b sample_contract bindE.simps
    using sample_valid [of sample_pending] by (simp add: sample_fields max_time_def sample_approved_def f Let_def)
qed

lemma sample_attached: "addCredentialMapping sample_signing sample_passport sample_approved 1767225600000 = Inr (sample_passport\<lparr>pe_mappings := [sample_approved]\<rparr>)"
proof -
  have f: "ma_public sample_mapping_approval" "ma_auto sample_mapping_approval" by (simp_all add: sample_mapping_approval_def)
  have m: "mp_status sample_approved = MappingApproved" "mp_approval sample_approved = Some sample_mapping_approval" "mp_public sample_approved" "mp_auto sample_approved"
    by (simp_all add: sample_approved_def)
  have b: "assertMappingBound sample_signing sample_passport sample_approved = Inr ()"
    by (simp add: assertMappingBound_def sample_contract sample_fields sample_bound sample_approved_def)
  have v: "assertApprovalValid sample_signing sample_passport sample_approved sample_mapping_approval 1767225600000 = Inr ()"
    by (rule sample_valid) (simp_all add: sample_approved_def sample_fields)
  show ?thesis unfolding addCredentialMapping_def m option.case sample_eligible b v sample_contract bindE.simps
    by (simp add: f m max_time_def sample_fields)
qed

section \<open>Properties\<close>

text \<open>C32: However many mappings are added to the passport of a credential, every claim in it was approved for this credential by
  an approval that names its hash; it is public or automatic only as requested and approved, never from an audience restricted
  credential, by an approval of at most a day, and only a verified credential has claims at all.\<close>

theorem passport_claims_approved:
  assumes "pe_mappings e0 = []" and "passport_grown P e0 e" and "m \<in> set (pe_mappings e)"
  shows "\<exists>a t x. mp_status m = MappingApproved \<and> mp_approval m = Some a \<and> ma_hash a = computeCredentialMappingHash P m \<and>
    mp_public m = ma_public a \<and> mp_auto m = ma_auto a \<and> (mp_public m \<longrightarrow> mp_request_public m \<and> \<not> hasAudienceRestriction e0) \<and>
    (mp_auto m \<longrightarrow> mp_request_auto m \<and> mp_public m) \<and> parse_date P (ma_approved a) = Some t \<and> parse_date P (ma_expires a) = Some x \<and>
    t < x \<and> x - t \<le> 24 * 60 * 60 * 1000 \<and> mp_credential_hash m = hash_json P (pe_credential e0) \<and>
    cs_credential (pe_summary e0) = Some (mp_credential m) \<and> vr_overall (pe_verification e0) = OverallVerified \<and>
    distinct (map mp_id (pe_mappings e))"
proof -
  obtain ms where ms: "e = e0\<lparr>pe_mappings := ms\<rparr>" using grown_fields [OF assms(2)] by blast
  have s: "passport_sound P e" by (rule grown_sound [OF assms(2,1)])
  then have "approval_grants P e m" using assms(3) by (simp add: passport_sound_def list_all_iff)
  then have g: "approval_grants P e0 m" unfolding ms grants_frame .
  have "e \<noteq> e0" using assms(1,3) by auto
  then have "vr_overall (pe_verification e0) = OverallVerified" "pe_hash e0 = hash_json P (pe_credential e0)" using grown_eligible [OF assms(2)] by blast+
  then show ?thesis using g s by (auto simp: approval_grants_def passport_sound_def MAX_APPROVAL_WINDOW_MS_def)
qed

theorem passport_claims_approved_witness:
  "sample_approved \<in> set (pe_mappings (sample_passport\<lparr>pe_mappings := [sample_approved]\<rparr>)) \<and> mp_public sample_approved \<and>
    (\<exists>a. mp_approval sample_approved = Some a \<and> ma_hash a = computeCredentialMappingHash sample_signing sample_approved) \<and>
    vr_overall (pe_verification sample_passport) = OverallVerified"
proof -
  have g: "passport_grown sample_signing sample_passport (sample_passport\<lparr>pe_mappings := [sample_approved]\<rparr>)"
    by (rule grown_add [OF grown_start sample_attached])
  have i: "sample_approved \<in> set (pe_mappings (sample_passport\<lparr>pe_mappings := [sample_approved]\<rparr>))" by simp
  have "mp_public sample_approved" by (simp add: sample_approved_def)
  then show ?thesis using passport_claims_approved [OF sample_fields(8) g i] i by blast
qed

text \<open>One approval approves one claim: the mappings it is accepted for agree in their text, type, source, credential and
  requested use, or exhibit a SHA-256 collision.\<close>

lemma approval_names_one_claim:
  assumes "approveCredentialClaimMapping P e m a now = Inr m'" and "approveCredentialClaimMapping P f n a later = Inr n'"
  shows "mp_id m = mp_id n \<and> mp_credential m = mp_credential n \<and> mp_credential_hash m = mp_credential_hash n \<and> mp_type m = mp_type n \<and>
    mp_text m = mp_text n \<and> mp_pointer m = mp_pointer n \<and> mp_request_public m = mp_request_public n \<and>
    mp_request_auto m = mp_request_auto n \<and> mp_public m' = mp_public n' \<and> mp_auto m' = mp_auto n' \<or> (\<exists>x y. sha_collision P x y)"
proof -
  note m = approved_mapping [OF assms(1)] and n = approved_mapping [OF assms(2)]
  have g: "approval_grants P e m'" "mp_approval m' = Some a" "approval_grants P f n'" "mp_approval n' = Some a"
    and p: "mappingPayload m' = mappingPayload m" "mappingPayload n' = mappingPayload n" using m n by blast+
  note f = grants_flags [OF g(1,2)] grants_flags [OF g(3,4)]
  have "mappingPayload m' = mappingPayload n' \<or> (\<exists>x y. sha_collision P x y)" by (rule payload_binds) (use f in simp)
  then show ?thesis unfolding p
  proof
    assume "mappingPayload m = mappingPayload n"
    then show ?thesis using f by (simp add: mappingPayload_def)
  qed blast
qed


text \<open>The row that a fresh mapping command appends.\<close>

definition claim_row :: "platform \<Rightarrow> crypto \<Rightarrow> store \<Rightarrow> decision_command \<Rightarrow> string \<Rightarrow> string \<Rightarrow> event_row" where
  "claim_row P C st c uuid n = (let D = CREDENTIAL_MAPPING_DESCRIPTOR P; v = canon (coll_key P) (dc_value c) in
     sealed_row P C st (record_event P D (new_record P D c v) (dc_request c) (request_hash_of P D c v)
       (deterministicEventId P (dc_request c)) (dc_now c)) uuid n)"

text \<open>C33: A claim that was drafted and approved for a credential can be recorded in the event store, as the next version of its
  history, and is read back as it was, unless its event has the digest of a stored event with another text.\<close>

theorem approved_claim_recorded:
  assumes "aead_ok C" and "hex_digest P" and "readAll P C st = Inr es"
    and "createCredentialClaimMapping P e d = Inr m" and "approveCredentialClaimMapping P e m a now = Inr m'"
    and "schema_errors P ''credential-mapping'' (canon (coll_key P) (mapping_json m')) = []" and "identifier_ok (mp_id m')"
    and "c = \<lparr>dc_value = mapping_json m', dc_expected = int (length rs), dc_request = q, dc_now = t\<rparr>"
    and "authority_request_id_pattern q" and "\<bar>t\<bar> \<le> max_time" and "int (length rs) < MAX_SAFE"
    and "decision_history P (CREDENTIAL_MAPPING_DESCRIPTOR P) (mp_id m') es = Inr rs"
    and "deterministicEventId P q \<notin> er_id ` set (st_events st)" and "q \<notin> au_request ` set (st_receipts st)"
  shows "(\<exists>st' r r'. record_command P C (CREDENTIAL_MAPPING_DESCRIPTOR P) c uuid n n' st = Inr (st', r) \<and>
      get_decision P C (CREDENTIAL_MAPPING_DESCRIPTOR P) (mp_id m') st' = Inr (Some r') \<and> mapping_of (member r' ''value'') = m') \<or>
    (\<exists>old \<in> set (st_events st). sha_collision P (row_text P (claim_row P C st c uuid n)) (row_text P old))"
proof (rule disjCI)
  assume no: "\<not> (\<exists>old \<in> set (st_events st). sha_collision P (row_text P (claim_row P C st c uuid n)) (row_text P old))"
  let ?D = "CREDENTIAL_MAPPING_DESCRIPTOR P"
  have c: "dc_value c = mapping_json m'" "dc_expected c = int (length rs)" "dc_request c = q" "dc_now c = t" using assms(8) by simp_all
  define v where "v = canon (coll_key P) (mapping_json m')"
  have w: "wf_keys (dc_value c)" "storable (dc_value c)" "sound_json (dc_value c)"
    using mapping_sound(1) [of m'] mapping_storable by (simp_all add: c sound_json_def)
  have v: "v = canon (coll_key P) (dc_value c)" "mapping_of v = m'" by (simp_all only: v_def c mapping_of_json)
  have id: "ds_id ?D v = mp_id m'" using v(2) unfolding CREDENTIAL_MAPPING_DESCRIPTOR_def mapping_of_def by auto
  note new = fresh_hash [OF assms(3), of "record_event P ?D (new_record P ?D c v) (dc_request c) (request_hash_of P ?D c v)
      (deterministicEventId P (dc_request c)) (dc_now c)" uuid n]
  have "er_id (row_of_input (record_event P ?D (new_record P ?D c v) (dc_request c) (request_hash_of P ?D c v)
      (deterministicEventId P (dc_request c)) (dc_now c)) uuid) = deterministicEventId P q"
    by (simp add: record_event_def row_of_input_def c)
  note new = new [unfolded this, OF assms(13)]
  have "\<exists>st'. record_command P C ?D c uuid n n' st = Inr (st', new_record P ?D c v)"
  proof (rule record_total [OF assms(2,3)])
    show "canonicalClone P (dc_value c) = Inr v" using clone_value [OF w(1)] w(2) v(1) by simp
    show "ds_validate ?D v = Inr ()"
      using assms(6) approved_plan [OF assms(4,5)] unfolding CREDENTIAL_MAPPING_DESCRIPTOR_def by (simp add: v(2) contract_iff v_def [symmetric])
    show "identifier_ok (aggregateType (ds_domain ?D))" unfolding CREDENTIAL_MAPPING_DESCRIPTOR_def aggregateType_def by simp code_simp
    show "storable v" unfolding v(1) storable_canon [OF w(3)] by (rule w(2))
    show "er_hash (sealed_row P C st (record_event P ?D (new_record P ?D c v) (dc_request c) (request_hash_of P ?D c v)
      (deterministicEventId P (dc_request c)) (dc_now c)) uuid n) \<notin> er_hash ` set (st_events st)"
      using new no unfolding claim_row_def Let_def v(1) [symmetric] by blast
  qed (use assms c id in simp_all)
  then obtain st' where st': "record_command P C ?D c uuid n n' st = Inr (st', new_record P ?D c v)" by blast
  have "get_decision P C ?D (ds_id ?D v) st' = Inr (Some (canon (coll_key P) (new_record P ?D c v)))"
    by (rule recorded_last [OF assms(1-3) w(1) v(1) st']) (use assms c id in simp_all)
  moreover have "sound_json (new_record P ?D c v)" unfolding new_record_def v(1) by (intro record_sound sound_canonical w(3))
  then have "member (canon (coll_key P) (new_record P ?D c v)) ''value'' = canon (coll_key P) v"
    by (simp only: member_canon) (simp add: new_record_def record_members)
  then have "mapping_of (member (canon (coll_key P) (new_record P ?D c v)) ''value'') = m'" using v(2) by (simp add: v(1) canon_canon)
  ultimately show "\<exists>st' r r'. record_command P C ?D c uuid n n' st = Inr (st', r) \<and>
      get_decision P C ?D (mp_id m') st' = Inr (Some r') \<and> mapping_of (member r' ''value'') = m'" using st' id by auto
qed


theorem approved_claim_recorded_witness:
  "\<exists>st c st' r r'. record_command sample_signing sample_crypto sample_domain c [] [] [] st = Inr (st', r) \<and>
     get_decision sample_signing sample_crypto sample_domain ''MAP-1'' st' = Inr (Some r') \<and> mapping_of (member r' ''value'') = sample_approved"
proof -
  obtain st where st: "create_store sample_signing sample_crypto [1] ''correct horse'' '' salt'' ''n1'' ''n2'' ''u'' = Inr st"
    and e: "st_events st = []" "st_receipts st = []" by (auto simp: create_store_def deriveKey_def)
  have salt: "'' salt'' \<noteq> []" by simp
  note r = created_reads [OF sample_aead sample_signing_digest salt st]
  have s: "schema_errors sample_signing n j = []" for n j by (simp add: sample_signing_def sample_platform_def)
  have i: "mp_id sample_approved = ''MAP-1''" by (simp add: sample_approved_def sample_fields)
  have id: "identifier_ok (mp_id sample_approved)" unfolding i by code_simp
  have q: "authority_request_id_pattern ''REQ-12345678''" by code_simp
  show ?thesis
    using approved_claim_recorded [OF sample_aead sample_signing_digest r sample_drafted sample_approval_ok s id refl q, of 0 "[]" "[]" "[]" "[]", unfolded i] e
    by (auto simp: max_time_def MAX_SAFE_def decision_history_def history_of_def)
qed

end
