(* ===== verification/ProductStore.thy ===== *)
theory ProductStore
  imports VersionedLog DecisionStore
begin

text \<open>
  The versioned records of the product domains (src/src/storage/product-repositories.ts) over the encrypted event store:
  profiles, opportunities, applications and so on. A domain is given by its descriptor, as in the code. An operation
  carries a request identifier; repeating it answers with the record it wrote. Records are archived, never deleted.
\<close>

record domain_descriptor =
  dd_domain :: string
  dd_id :: "json \<Rightarrow> string"
  dd_validate :: "json \<Rightarrow> unit result"

record domain_authority =
  da_request :: string
  da_hash :: string
  da_operation :: string

record domain_put =
  dp_value :: json
  dp_expected :: int
  dp_operation :: string
  dp_event :: "string option"
  dp_now :: int
  dp_authority :: "domain_authority option"
  dp_audit :: "json option"

record domain_archive =
  dx_record :: string
  dx_version :: int
  dx_operation :: string
  dx_event :: "string option"
  dx_now :: int
  dx_authority :: "domain_authority option"

text \<open>A property of a value: reading one of \<open>null\<close> or \<open>undefined\<close> throws.\<close>

definition prop_of :: "json \<Rightarrow> string \<Rightarrow> json result" where
  "prop_of j k = (if j = JNull \<or> j = JUndef then throw (''Cannot read properties of '' @ string_of j) else Inr (member j k))"

definition domain_identifier_pattern :: "string \<Rightarrow> bool" where
  "domain_identifier_pattern s = (s \<noteq> [] \<and> length s \<le> 160 \<and> list_all (\<lambda>c. is_alnum c \<or> c \<in> set ''._:-'') s)"

definition assertDomainIdentifier :: "string \<Rightarrow> string \<Rightarrow> unit result" where
  "assertDomainIdentifier s label = (if domain_identifier_pattern s then Inr () else throw (label @ '' is invalid''))"

definition operation_id_pattern :: "string \<Rightarrow> bool" where
  "operation_id_pattern s = (starts_with ''REQ-'' s \<and> (let r = drop 4 s in
     8 \<le> length r \<and> length r \<le> 100 \<and> list_all (\<lambda>c. is_alnum c \<or> c = CHR ''-'') r))"

definition assertOperationId :: "string \<Rightarrow> unit result" where
  "assertOperationId s = (if operation_id_pattern s then Inr () else throw ''Domain operation id must be an authority request id'')"

definition assertDomainVersion :: "int \<Rightarrow> unit result" where
  "assertDomainVersion n = (if \<bar>n\<bar> \<le> MAX_SAFE \<and> 0 \<le> n then Inr ()
     else throw ''Domain expected version must be a non-negative safe integer'')"

definition domainEventId :: "platform \<Rightarrow> string \<Rightarrow> string \<Rightarrow> string" where
  "domainEventId P d q = ''EVT-DOM-'' @ drop 7 (sha256 P (d @ '':'' @ q))"

definition domain_type :: "domain_descriptor \<Rightarrow> string" where
  "domain_type D = ''domain-'' @ dd_domain D"

definition verifyDomainRecord :: "platform \<Rightarrow> domain_descriptor \<Rightarrow> json \<Rightarrow> unit result" where
  "verifyDomainRecord P D r = bindE (prop_of r ''domain'') (\<lambda>d.
     if d \<noteq> JStr (dd_domain D) then throw ''Domain record belongs to another repository''
     else bindE (assertDomainIdentifier (string_of (member r ''recordId'')) ''Domain record id'') (\<lambda>_.
     bindE (assertOperationId (string_of (member r ''operationId''))) (\<lambda>_.
     if (case jint (member r ''version'') of None \<Rightarrow> True | Some n \<Rightarrow> MAX_SAFE < \<bar>n\<bar> \<or> n < 1)
     then throw ''Domain record version is invalid''
     else if member r ''status'' \<noteq> JStr ''active'' \<and> member r ''status'' \<noteq> JStr ''archived''
     then throw ''Domain record status is invalid''
     else if parse_date P (string_of (member r ''recordedAt'')) = None then throw ''Domain record timestamp is invalid''
     else bindE (dd_validate D (member r ''value'')) (\<lambda>_.
     if JStr (dd_id D (member r ''value'')) \<noteq> member r ''recordId'' then throw ''Domain record id does not match its value''
     else if member r ''valueHash'' \<noteq> JStr (hash_json P (member r ''value'')) then throw ''Domain record value hash is invalid''
     else Inr ()))))"

section \<open>Reading\<close>

definition domainRecordAt :: "platform \<Rightarrow> domain_descriptor \<Rightarrow> int \<Rightarrow> stored_event \<Rightarrow> json result" where
  "domainRecordAt P D i e = bindE (prop_of (se_payload e) ''record'') (\<lambda>r.
     bindE (verifyDomainRecord P D r) (\<lambda>_.
     if member r ''version'' \<noteq> JNum (i + 1) then throw (''Domain record version gap at '' @ string_of (member r ''recordId''))
     else bindE (prop_of (member (se_payload e) ''response'') ''valueHash'') (\<lambda>h.
     if h \<noteq> member r ''valueHash'' then throw ''Domain event response is not bound to its record'' else Inr r)))"

definition domainRecords :: "platform \<Rightarrow> domain_descriptor \<Rightarrow> stored_event list \<Rightarrow> json list result" where
  "domainRecords P D es = mapiE (domainRecordAt P D) 0 es"

definition domain_events :: "platform \<Rightarrow> crypto \<Rightarrow> domain_descriptor \<Rightarrow> string \<Rightarrow> store \<Rightarrow> stored_event list result" where
  "domain_events P C D rid st = bindE (assertDomainIdentifier rid ''Domain record id'') (\<lambda>_. readAggregate P C st (domain_type D) rid)"

definition domain_get :: "platform \<Rightarrow> crypto \<Rightarrow> domain_descriptor \<Rightarrow> string \<Rightarrow> bool \<Rightarrow> store \<Rightarrow> json option result" where
  "domain_get P C D rid includeArchived st = bindE (domain_events P C D rid st) (\<lambda>es. bindE (domainRecords P D es) (\<lambda>rs.
     Inr (case last_opt rs of None \<Rightarrow> None
       | Some r \<Rightarrow> if member r ''status'' = JStr ''archived'' \<and> \<not> includeArchived then None else Some r)))"

definition domain_list :: "platform \<Rightarrow> crypto \<Rightarrow> domain_descriptor \<Rightarrow> bool \<Rightarrow> store \<Rightarrow> json list result" where
  "domain_list P C D includeArchived st = bindE (readAll P C st) (\<lambda>all.
     let es = filter (\<lambda>e. se_aggregate_type e = domain_type D) all in
     bindE (mapE (\<lambda>a. domainRecords P D (filter (\<lambda>e. se_aggregate e = a) es)) (dedup (map se_aggregate es))) (\<lambda>groups.
     Inr (sort_key (\<lambda>r. coll_key P (string_of (member r ''recordId'')))
       (filter (\<lambda>r. includeArchived \<or> member r ''status'' = JStr ''active'') (List.map_filter last_opt groups)))))"

section \<open>Writing\<close>

definition domain_record :: "platform \<Rightarrow> domain_descriptor \<Rightarrow> string \<Rightarrow> int \<Rightarrow> json \<Rightarrow> string \<Rightarrow> int \<Rightarrow> json" where
  "domain_record P D rid n v q now = JObj [(''domain'', JStr (dd_domain D)), (''recordId'', JStr rid), (''version'', JNum n),
     (''status'', JStr ''active''), (''value'', v), (''valueHash'', JStr (hash_json P v)), (''operationId'', JStr q),
     (''recordedAt'', JStr (to_iso now))]"

definition domain_payload :: "platform \<Rightarrow> json \<Rightarrow> json option \<Rightarrow> domain_authority option \<Rightarrow> json" where
  "domain_payload P r audit authority = JObj ([(''record'', r), (''response'', r)] @
     (case audit of None \<Rightarrow> [] | Some a \<Rightarrow> [(''audit'', a)]) @
     (case authority of None \<Rightarrow> [] | Some a \<Rightarrow> [(''metadata'', JObj [(''authority'', JObj [(''requestId'', JStr (da_request a)),
        (''requestHash'', JStr (da_hash a)), (''operation'', JStr (da_operation a)), (''responseHash'', JStr (hash_json P r))])])]))"

definition domain_input ::
  "platform \<Rightarrow> domain_descriptor \<Rightarrow> string \<Rightarrow> string \<Rightarrow> string option \<Rightarrow> string \<Rightarrow> int \<Rightarrow> json \<Rightarrow> append_input" where
  "domain_input P D rid ty eid q now payload = \<lparr>ae_id = Some (case eid of Some e \<Rightarrow> e | None \<Rightarrow> domainEventId P (dd_domain D) q),
     ae_aggregate_type = domain_type D, ae_aggregate = rid, ae_type = ty, ae_version = 1, ae_payload = payload, ae_time = now\<rparr>"

definition find_operation :: "string \<Rightarrow> json list \<Rightarrow> json option" where
  "find_operation q rs = find (\<lambda>r. member r ''operationId'' = JStr q) rs"

text \<open>A put, given the records of its history.\<close>

definition put_existing ::
  "platform \<Rightarrow> crypto \<Rightarrow> domain_descriptor \<Rightarrow> domain_put \<Rightarrow> json list \<Rightarrow> string \<Rightarrow> string \<Rightarrow> string \<Rightarrow> store \<Rightarrow> (store \<times> json) result" where
  "put_existing P C D i existing uuid n n' st = (case find_operation (dp_operation i) existing of
       Some r \<Rightarrow> if member r ''valueHash'' \<noteq> JStr (hash_json P (dp_value i)) \<or> member r ''status'' \<noteq> JStr ''active''
         then throw ''Domain operation id was replayed with different content'' else Inr (st, r)
     | None \<Rightarrow>
       let rid = dd_id D (dp_value i); current = (case last_opt existing of None \<Rightarrow> 0 | Some r \<Rightarrow> int_at r ''version'') in
       if current \<noteq> dp_expected i
       then throw (''Domain version conflict, expected '' @ int_str (dp_expected i) @ '', current '' @ int_str current)
       else if max_time < \<bar>dp_now i\<bar> then throw ''Invalid time value''
       else let r = domain_record P D rid (current + 1) (dp_value i) (dp_operation i) (dp_now i) in
         bindE (verifyDomainRecord P D r) (\<lambda>_.
         bindE (append_event P C st (domain_input P D rid ''domain-record-put'' (dp_event i) (dp_operation i) (dp_now i)
           (domain_payload P r (dp_audit i) (dp_authority i))) uuid n n') (\<lambda>(st', ev). Inr (st', r))))"

definition putSerialized ::
  "platform \<Rightarrow> crypto \<Rightarrow> domain_descriptor \<Rightarrow> domain_put \<Rightarrow> string \<Rightarrow> string \<Rightarrow> string \<Rightarrow> store \<Rightarrow> (store \<times> json) result" where
  "putSerialized P C D i uuid n n' st = bindE (dd_validate D (dp_value i)) (\<lambda>_.
     bindE (assertDomainIdentifier (dd_id D (dp_value i)) ''Domain record id'') (\<lambda>_.
     bindE (assertDomainVersion (dp_expected i)) (\<lambda>_.
     bindE (assertOperationId (dp_operation i)) (\<lambda>_.
     bindE (domain_events P C D (dd_id D (dp_value i)) st) (\<lambda>es.
     bindE (domainRecords P D es) (\<lambda>existing. put_existing P C D i existing uuid n n' st))))))"

text \<open>\<open>{ ...current, version, status, operationId, recordedAt }\<close>\<close>

definition archived_record :: "json \<Rightarrow> int \<Rightarrow> string \<Rightarrow> int \<Rightarrow> json" where
  "archived_record r n q now = (case r of JObj es \<Rightarrow>
       JObj (upsert ''recordedAt'' (JStr (to_iso now)) (upsert ''operationId'' (JStr q) (upsert ''status'' (JStr ''archived'')
         (upsert ''version'' (JNum n) es)))) | _ \<Rightarrow> r)"

definition archive_existing ::
  "platform \<Rightarrow> crypto \<Rightarrow> domain_descriptor \<Rightarrow> domain_archive \<Rightarrow> json list \<Rightarrow> string \<Rightarrow> string \<Rightarrow> string \<Rightarrow> store \<Rightarrow> (store \<times> json) result" where
  "archive_existing P C D i existing uuid n n' st = (case find_operation (dx_operation i) existing of
       Some r \<Rightarrow> if member r ''status'' \<noteq> JStr ''archived'' then throw ''Domain operation id was replayed with different content'' else Inr (st, r)
     | None \<Rightarrow> (case last_opt existing of
         None \<Rightarrow> throw (''Domain record not found: '' @ dx_record i)
       | Some current \<Rightarrow>
         if int_at current ''version'' \<noteq> dx_version i
         then throw (''Domain version conflict, expected '' @ int_str (dx_version i) @ '', current '' @ int_str (int_at current ''version''))
         else if member current ''status'' = JStr ''archived'' then Inr (st, current)
         else if max_time < \<bar>dx_now i\<bar> then throw ''Invalid time value''
         else let r = archived_record current (int_at current ''version'' + 1) (dx_operation i) (dx_now i) in
           bindE (append_event P C st (domain_input P D (dx_record i) ''domain-record-archived'' (dx_event i) (dx_operation i) (dx_now i)
             (domain_payload P r None (dx_authority i))) uuid n n') (\<lambda>(st', ev). Inr (st', r))))"

definition archiveSerialized ::
  "platform \<Rightarrow> crypto \<Rightarrow> domain_descriptor \<Rightarrow> domain_archive \<Rightarrow> string \<Rightarrow> string \<Rightarrow> string \<Rightarrow> store \<Rightarrow> (store \<times> json) result" where
  "archiveSerialized P C D i uuid n n' st = bindE (assertDomainVersion (dx_version i)) (\<lambda>_.
     bindE (assertOperationId (dx_operation i)) (\<lambda>_.
     bindE (domain_events P C D (dx_record i) st) (\<lambda>es.
     bindE (domainRecords P D es) (\<lambda>existing. archive_existing P C D i existing uuid n n' st))))"

end
