(* ===== verification/ProductRuns.thy ===== *)
theory ProductRuns
  imports ProductStore DecisionRuns
begin

text \<open>
  What the product repositories do to the history of a record: the record of a put or of an archive is read back as its
  canonical form, at the next version, and every other history stays as it was.
\<close>

section \<open>Records that verify\<close>

definition valid_domain_record :: "platform \<Rightarrow> domain_descriptor \<Rightarrow> json \<Rightarrow> bool" where
  "valid_domain_record P D r = (r \<noteq> JNull \<and> member r ''domain'' = JStr (dd_domain D) \<and>
     domain_identifier_pattern (string_of (member r ''recordId'')) \<and> operation_id_pattern (string_of (member r ''operationId'')) \<and>
     (\<exists>n. member r ''version'' = JNum n \<and> 1 \<le> n \<and> n \<le> MAX_SAFE) \<and> (member r ''status'' = JStr ''active'' \<or> member r ''status'' = JStr ''archived'') \<and>
     parse_date P (string_of (member r ''recordedAt'')) \<noteq> None \<and> dd_validate D (member r ''value'') = Inr () \<and>
     member r ''recordId'' = JStr (dd_id D (member r ''value'')) \<and> member r ''valueHash'' = JStr (hash_json P (member r ''value'')))"

lemma prop_of_iff: "prop_of j k = Inr v \<longleftrightarrow> j \<noteq> JNull \<and> j \<noteq> JUndef \<and> v = member j k"
  by (auto simp: prop_of_def)

lemma verify_domain_iff: "verifyDomainRecord P D r = Inr () \<longleftrightarrow> valid_domain_record P D r"
proof -
  have n: "\<not> (case jint j of None \<Rightarrow> True | Some n \<Rightarrow> MAX_SAFE < \<bar>n\<bar> \<or> n < 1) \<longleftrightarrow> (\<exists>n. j = JNum n \<and> 1 \<le> n \<and> n \<le> MAX_SAFE)" for j
    by (cases j) auto
  have u: "member JUndef k = JUndef" for k by (simp add: member_def)
  show ?thesis
    unfolding verifyDomainRecord_def if_Inl_Inr bindE_Inr_iff n prop_of_iff assertDomainIdentifier_def assertOperationId_def valid_domain_record_def
    using u by (auto simp del: not_None_eq)
qed

text \<open>What the code relies on of a descriptor: its check and its identifier do not depend on the order of members.\<close>

definition canonical_descriptor :: "platform \<Rightarrow> domain_descriptor \<Rightarrow> bool" where
  "canonical_descriptor P D = (\<forall>v. sound_json v \<longrightarrow> dd_validate D v = Inr () \<longrightarrow>
     dd_validate D (canon (coll_key P) v) = Inr () \<and> dd_id D (canon (coll_key P) v) = dd_id D v)"

lemma valid_domain_canon:
  assumes "canonical_descriptor P D" and "sound_json r" and "valid_domain_record P D r"
  shows "valid_domain_record P D (canon (coll_key P) r)"
proof -
  let ?v = "member r ''value''"
  have n: "canon ck j = JNull \<longleftrightarrow> j = JNull" for ck j by (cases j) simp_all
  have v: "dd_validate D (canon (coll_key P) ?v) = Inr () \<and> dd_id D (canon (coll_key P) ?v) = dd_id D ?v \<and>
      hash_json P (canon (coll_key P) ?v) = hash_json P ?v"
  proof (cases "?v = JUndef")
    case True
    then show ?thesis using assms(3) by (simp add: valid_domain_record_def)
  next
    case False
    then have s: "sound_json ?v" by (rule sound_member [OF assms(2)])
    then show ?thesis using assms(1,3) hash_canon [OF s] by (simp add: canonical_descriptor_def valid_domain_record_def)
  qed
  show ?thesis unfolding valid_domain_record_def member_canon [OF assms(2)] string_canon n
    using assms(3) v by (auto simp: valid_domain_record_def)
qed

section \<open>Histories\<close>

definition domain_history :: "platform \<Rightarrow> domain_descriptor \<Rightarrow> string \<Rightarrow> stored_event list \<Rightarrow> json list result" where
  "domain_history P D rid es = history_of (domainRecordAt P D) (domain_type D) rid es"

lemma domainRecordAt_iff: "domainRecordAt P D i e = Inr r \<longleftrightarrow> se_payload e \<noteq> JNull \<and> se_payload e \<noteq> JUndef \<and>
    r = member (se_payload e) ''record'' \<and> valid_domain_record P D r \<and> member r ''version'' = JNum (i + 1) \<and>
    (\<exists>x. member (se_payload e) ''response'' = x \<and> x \<noteq> JNull \<and> x \<noteq> JUndef \<and> member x ''valueHash'' = member r ''valueHash'')"
  unfolding domainRecordAt_def bindE_Inr_iff if_Inl_Inr prop_of_iff verify_domain_iff [symmetric] by auto

text \<open>Product records are numbered by their place.\<close>

interpretation domains: numbered_log "domainRecordAt P D" for P D
  by unfold_locales (simp add: domainRecordAt_iff)

lemma domain_current: "domain_history P D rid es = Inr rs \<Longrightarrow>
    (case last_opt rs of None \<Rightarrow> 0 | Some r \<Rightarrow> int_at r ''version'') = int (length rs)"
  unfolding domain_history_def int_at_def by (rule domains.current)

lemma domain_events_history: "readAll P C st = Inr es \<Longrightarrow> domain_identifier_pattern rid \<Longrightarrow>
    bindE (domain_events P C D rid st) (\<lambda>xs. bindE (domainRecords P D xs) k) = bindE (domain_history P D rid es) k"
  by (simp add: domain_events_def assertDomainIdentifier_def readAggregate_def domainRecords_def domain_history_def history_of_def)

lemma domain_events_readable: "domain_events P C D rid st = Inr xs \<Longrightarrow> \<exists>es. readAll P C st = Inr es"
  by (auto simp: domain_events_def readAggregate_def)

text \<open>An appended record is the next of its history.\<close>

lemma domain_appended:
  assumes "aead_ok C" and "hex_digest P" and "readAll P C st = Inr es" and "canonical_descriptor P D"
    and "append_event P C st (domain_input P D rid ty eid q now (domain_payload P r audit authority)) uuid n n' = Inr (st', ev)"
    and "sound_json r" and "\<forall>a. audit = Some a \<longrightarrow> sound_json a" and "valid_domain_record P D r"
    and "member r ''version'' = JNum (int (length rs) + 1)" and "domain_history P D rid es = Inr rs"
  shows "\<exists>e. readAll P C st' = Inr (es @ [e]) \<and> se_aggregate_type e = domain_type D \<and> se_aggregate e = rid \<and>
    domainRecordAt P D (int (length rs)) e = Inr (canon (coll_key P) r) \<and>
    domain_history P D rid (es @ [e]) = Inr (rs @ [canon (coll_key P) r]) \<and>
    (\<forall>a. audit = Some a \<longrightarrow> member (se_payload e) ''audit'' = canon (coll_key P) a)"
proof -
  let ?p = "domain_payload P r audit authority"
  have p: "sound_json ?p" using assms(6,7) by (auto simp: domain_payload_def sound_json_def split: option.splits)
  show ?thesis
  proof (rule store_append_reads [OF assms(1-3,5)])
    show "sound_json (ae_payload (domain_input P D rid ty eid q now ?p))" using p by (simp add: domain_input_def)
    fix e assume e: "readAll P C st' = Inr (es @ [e])" "e = ev\<lparr>se_payload := canon (coll_key P) (ae_payload (domain_input P D rid ty eid q now ?p))\<rparr>"
      and f: "se_aggregate_type e = ae_aggregate_type (domain_input P D rid ty eid q now ?p)" "se_aggregate e = ae_aggregate (domain_input P D rid ty eid q now ?p)"
    have pe: "se_payload e = canon (coll_key P) ?p" by (simp add: e(2) domain_input_def)
    have m: "member (se_payload e) ''record'' = canon (coll_key P) r" "member (se_payload e) ''response'' = canon (coll_key P) r"
      unfolding pe member_canon [OF p] by (simp_all add: domain_payload_def member_def)
    have au: "\<forall>a. audit = Some a \<longrightarrow> member (se_payload e) ''audit'' = canon (coll_key P) a"
      unfolding pe member_canon [OF p] by (auto simp: domain_payload_def member_def)
    have n: "canon ck j = JNull \<longleftrightarrow> j = JNull" for ck j by (cases j) simp_all
    have "?p \<noteq> JNull" "?p \<noteq> JUndef" by (simp_all add: domain_payload_def)
    moreover have "r \<noteq> JNull" "r \<noteq> JUndef" using assms(6,8) by (auto simp: valid_domain_record_def sound_json_def)
    moreover have "member (canon (coll_key P) r) ''version'' = JNum (int (length rs) + 1)" unfolding member_canon [OF assms(6)] assms(9) by simp
    ultimately have at: "domainRecordAt P D (int (length rs)) e = Inr (canon (coll_key P) r)"
      unfolding domainRecordAt_iff m using valid_domain_canon [OF assms(4,6,8)] by (simp add: pe n canon_undef)
    have "se_aggregate_type e = domain_type D" "se_aggregate e = rid" using f by (simp_all add: domain_input_def)
    then show ?thesis using e(1) at au history_grows [of "domainRecordAt P D" "domain_type D" e es rs] assms(10) unfolding domain_history_def by auto
  qed
qed

section \<open>What a write does\<close>

lemma put_readable: "putSerialized P C D i uuid n n' st = Inr y \<Longrightarrow> \<exists>es. readAll P C st = Inr es"
  unfolding putSerialized_def Let_def bindE_Inr_iff using domain_events_readable by blast

text \<open>The effect of a put on the history \<open>rs\<close> of its record: a replay, or the next version.\<close>

definition put_effect ::
  "platform \<Rightarrow> crypto \<Rightarrow> domain_descriptor \<Rightarrow> domain_put \<Rightarrow> json list \<Rightarrow> string \<Rightarrow> string \<Rightarrow> string \<Rightarrow> store \<Rightarrow> store \<Rightarrow> json \<Rightarrow> bool" where
  "put_effect P C D i rs uuid n n' st st' r = (case find_operation (dp_operation i) rs of
     Some x \<Rightarrow> st' = st \<and> r = x \<and> member r ''valueHash'' = JStr (hash_json P (dp_value i)) \<and> member r ''status'' = JStr ''active''
   | None \<Rightarrow> int (length rs) = dp_expected i \<and> \<bar>dp_now i\<bar> \<le> max_time \<and>
       r = domain_record P D (dd_id D (dp_value i)) (int (length rs) + 1) (dp_value i) (dp_operation i) (dp_now i) \<and>
       valid_domain_record P D r \<and> (\<exists>ev. append_event P C st (domain_input P D (dd_id D (dp_value i)) ''domain-record-put'' (dp_event i)
         (dp_operation i) (dp_now i) (domain_payload P r (dp_audit i) (dp_authority i))) uuid n n' = Inr (st', ev)))"

lemma put_existing_iff:
  assumes "domain_history P D rid es = Inr rs"
  shows "put_existing P C D i rs uuid n n' st = Inr (st', r) \<longleftrightarrow> put_effect P C D i rs uuid n n' st st' r"
proof (cases "find_operation (dp_operation i) rs")
  case None
  show ?thesis unfolding put_existing_def put_effect_def None option.case Let_def domain_current [OF assms] if_Inl_Inr bindE_Inr_iff
      verify_domain_iff [symmetric] by auto
next
  case (Some x)
  show ?thesis unfolding put_existing_def put_effect_def Some option.case if_Inl_Inr by auto
qed

lemma put_iff:
  assumes "readAll P C st = Inr es"
  shows "putSerialized P C D i uuid n n' st = Inr (st', r) \<longleftrightarrow> dd_validate D (dp_value i) = Inr () \<and>
    domain_identifier_pattern (dd_id D (dp_value i)) \<and> assertDomainVersion (dp_expected i) = Inr () \<and> operation_id_pattern (dp_operation i) \<and>
    (\<exists>rs. domain_history P D (dd_id D (dp_value i)) es = Inr rs \<and> put_effect P C D i rs uuid n n' st st' r)"
proof (cases "domain_identifier_pattern (dd_id D (dp_value i))")
  case True
  show ?thesis using True
    unfolding putSerialized_def domain_events_history [OF assms True] bindE_Inr_iff
    by (auto simp: put_existing_iff assertDomainIdentifier_def assertOperationId_def)
next
  case False
  then show ?thesis unfolding putSerialized_def by (auto simp: assertDomainIdentifier_def)
qed

text \<open>The effect of an archive: a replay, nothing when the record is archived already, or the next version.\<close>

definition archive_effect ::
  "platform \<Rightarrow> crypto \<Rightarrow> domain_descriptor \<Rightarrow> domain_archive \<Rightarrow> json list \<Rightarrow> string \<Rightarrow> string \<Rightarrow> string \<Rightarrow> store \<Rightarrow> store \<Rightarrow> json \<Rightarrow> bool" where
  "archive_effect P C D i rs uuid n n' st st' r = (case find_operation (dx_operation i) rs of
     Some x \<Rightarrow> st' = st \<and> r = x \<and> member r ''status'' = JStr ''archived''
   | None \<Rightarrow> rs \<noteq> [] \<and> int (length rs) = dx_version i \<and> (if member (last rs) ''status'' = JStr ''archived'' then st' = st \<and> r = last rs
       else \<bar>dx_now i\<bar> \<le> max_time \<and> r = archived_record (last rs) (int (length rs) + 1) (dx_operation i) (dx_now i) \<and>
         (\<exists>ev. append_event P C st (domain_input P D (dx_record i) ''domain-record-archived'' (dx_event i) (dx_operation i) (dx_now i)
           (domain_payload P r None (dx_authority i))) uuid n n' = Inr (st', ev))))"

lemma archive_existing_iff:
  assumes "domain_history P D rid es = Inr rs"
  shows "archive_existing P C D i rs uuid n n' st = Inr (st', r) \<longleftrightarrow> archive_effect P C D i rs uuid n n' st st' r"
proof (cases "find_operation (dx_operation i) rs")
  case None
  show ?thesis
  proof (cases "rs = []")
    case False
    then have l: "last_opt rs = Some (last rs)" by (simp add: last_opt_def)
    have v: "int_at (last rs) ''version'' = int (length rs)" using domain_current [OF assms] unfolding l by simp
    show ?thesis using False unfolding archive_existing_def archive_effect_def None l option.case v Let_def by (auto split: if_splits)
  next
    case True
    have "last_opt rs = None" using True by (simp add: last_opt_def)
    then show ?thesis using True unfolding archive_existing_def archive_effect_def None by simp
  qed
next
  case (Some x)
  show ?thesis unfolding archive_existing_def archive_effect_def Some option.case if_Inl_Inr by auto
qed

lemma archive_iff:
  assumes "readAll P C st = Inr es"
  shows "archiveSerialized P C D i uuid n n' st = Inr (st', r) \<longleftrightarrow> assertDomainVersion (dx_version i) = Inr () \<and>
    operation_id_pattern (dx_operation i) \<and> domain_identifier_pattern (dx_record i) \<and>
    (\<exists>rs. domain_history P D (dx_record i) es = Inr rs \<and> archive_effect P C D i rs uuid n n' st st' r)"
proof (cases "domain_identifier_pattern (dx_record i)")
  case True
  show ?thesis using True
    unfolding archiveSerialized_def domain_events_history [OF assms True] bindE_Inr_iff
    by (auto simp: archive_existing_iff assertOperationId_def)
next
  case False
  then show ?thesis unfolding archiveSerialized_def domain_events_def by (auto simp: assertDomainIdentifier_def)
qed

section \<open>What is read after a write\<close>

lemma upsert_sound: "sound_json (JObj es) \<Longrightarrow> sound_json v \<Longrightarrow> sound_json (JObj (upsert k v es))"
  using upsert_distinct [of es k v] by (auto simp: sound_json_def dest!: upsert_set)

lemma archived_members:
  assumes "r = JObj es"
  shows "member (archived_record r n q t) k = (if k = ''recordedAt'' then JStr (to_iso t) else if k = ''operationId'' then JStr q
    else if k = ''status'' then JStr ''archived'' else if k = ''version'' then JNum n else member r k)"
  by (simp add: archived_record_def assms member_def map_of_upsert)

lemma archived_valid:
  assumes "valid_domain_record P D r" and "sound_json r" and "operation_id_pattern q" and "\<bar>t\<bar> \<le> max_time" and "1 \<le> n" and "n \<le> MAX_SAFE"
  shows "valid_domain_record P D (archived_record r n q t)" and "sound_json (archived_record r n q t)"
proof -
  obtain es where es: "r = JObj es" using assms(1) by (cases r) (auto simp: valid_domain_record_def member_def)
  have t: "parse_date P (to_iso t) \<noteq> None" using assms(4) by (simp add: date_parse_to_iso)
  have "archived_record r n q t \<noteq> JNull" by (simp add: archived_record_def es)
  then show "valid_domain_record P D (archived_record r n q t)"
    using assms(1,3,5,6) t unfolding valid_domain_record_def archived_members [OF es] by auto
  show "sound_json (archived_record r n q t)" using assms(2) unfolding es archived_record_def json.case by (intro upsert_sound) simp_all
qed

lemma domain_record_sound: "sound_json v \<Longrightarrow> sound_json (domain_record P D rid n v q t)"
  by (simp add: domain_record_def sound_json_def)

lemma domain_record_members:
  "member (domain_record P D rid n v q t) ''recordId'' = JStr rid" "member (domain_record P D rid n v q t) ''version'' = JNum n"
  "member (domain_record P D rid n v q t) ''status'' = JStr ''active''" "member (domain_record P D rid n v q t) ''value'' = v"
  "member (domain_record P D rid n v q t) ''operationId'' = JStr q" "member (domain_record P D rid n v q t) ''valueHash'' = JStr (hash_json P v)"
  by (simp_all add: domain_record_def member_def)

text \<open>A put that is not a replay adds the next version, in canonical form, and nothing else.\<close>

lemma put_appends:
  assumes "aead_ok C" and "hex_digest P" and "readAll P C st = Inr es" and "canonical_descriptor P D"
    and "putSerialized P C D i uuid n n' st = Inr (st', r)" and "sound_json (dp_value i)" and "\<forall>a. dp_audit i = Some a \<longrightarrow> sound_json a"
    and "domain_history P D (dd_id D (dp_value i)) es = Inr rs" and "find_operation (dp_operation i) rs = None"
  shows "\<exists>e. readAll P C st' = Inr (es @ [e]) \<and> se_aggregate_type e = domain_type D \<and> se_aggregate e = dd_id D (dp_value i) \<and>
    int (length rs) = dp_expected i \<and> r = domain_record P D (dd_id D (dp_value i)) (int (length rs) + 1) (dp_value i) (dp_operation i) (dp_now i) \<and>
    domainRecordAt P D (int (length rs)) e = Inr (canon (coll_key P) r) \<and>
    domain_history P D (dd_id D (dp_value i)) (es @ [e]) = Inr (rs @ [canon (coll_key P) r]) \<and>
    (\<forall>a. dp_audit i = Some a \<longrightarrow> member (se_payload e) ''audit'' = canon (coll_key P) a)"
proof -
  have "put_effect P C D i rs uuid n n' st st' r" using assms(5,8) unfolding put_iff [OF assms(3)] by auto
  then obtain ev where p: "int (length rs) = dp_expected i" "valid_domain_record P D r"
    and r: "r = domain_record P D (dd_id D (dp_value i)) (int (length rs) + 1) (dp_value i) (dp_operation i) (dp_now i)"
    and ap: "append_event P C st (domain_input P D (dd_id D (dp_value i)) ''domain-record-put'' (dp_event i) (dp_operation i) (dp_now i)
      (domain_payload P r (dp_audit i) (dp_authority i))) uuid n n' = Inr (st', ev)"
    unfolding put_effect_def assms(9) option.case by blast
  have "member r ''version'' = JNum (int (length rs) + 1)" "sound_json r"
    unfolding r by (simp_all only: domain_record_members domain_record_sound [OF assms(6)])
  then show ?thesis using domain_appended [OF assms(1-4) ap _ assms(7) p(2) _ assms(8)] p(1) r by blast
qed

lemma history_valid:
  assumes "domain_history P D rid es = Inr rs" and "x \<in> set rs"
  shows "valid_domain_record P D x \<and> (\<exists>e \<in> set es. x = member (se_payload e) ''record'')"
proof -
  let ?xs = "filter (\<lambda>e. se_aggregate_type e = domain_type D \<and> se_aggregate e = rid) es"
  have h: "mapiE (domainRecordAt P D) 0 ?xs = Inr rs" using assms(1) by (simp add: domain_history_def history_of_def)
  obtain k where k: "k < length rs" "x = rs ! k" using assms(2) by (auto simp: in_set_conv_nth)
  then have l: "k < length ?xs" using mapiE_length [OF h] by simp
  then have "?xs ! k \<in> set es" using nth_mem [OF l] by auto
  then show ?thesis using mapiE_nth [OF h l] k(2) unfolding domainRecordAt_iff by auto
qed

lemma history_sound: "readAll P C st = Inr es \<Longrightarrow> domain_history P D rid es = Inr rs \<Longrightarrow> x \<in> set rs \<Longrightarrow> sound_json x"
proof -
  assume r: "readAll P C st = Inr es" and h: "domain_history P D rid es = Inr rs" "x \<in> set rs"
  obtain e where e: "e \<in> set es" "x = member (se_payload e) ''record''" and v: "valid_domain_record P D x" using history_valid [OF h] by blast
  have s: "sound_json (se_payload e)" using readAll_sound [OF r] e(1) by (auto simp: list_all_iff)
  have "x \<noteq> JUndef" using v by (auto simp: valid_domain_record_def member_def)
  then show "sound_json x" unfolding e(2) by (intro sound_member [OF s]) simp
qed

text \<open>So does an archive of an active record, below the last safe version.\<close>

lemma archive_appends:
  assumes "aead_ok C" and "hex_digest P" and "readAll P C st = Inr es" and "canonical_descriptor P D"
    and "archiveSerialized P C D i uuid n n' st = Inr (st', r)" and "dx_version i < MAX_SAFE"
    and "domain_history P D (dx_record i) es = Inr rs" and "find_operation (dx_operation i) rs = None"
    and "rs \<noteq> []" and "member (last rs) ''status'' \<noteq> JStr ''archived''"
  shows "\<exists>e. readAll P C st' = Inr (es @ [e]) \<and> se_aggregate_type e = domain_type D \<and> se_aggregate e = dx_record i \<and>
    int (length rs) = dx_version i \<and> r = archived_record (last rs) (int (length rs) + 1) (dx_operation i) (dx_now i) \<and>
    domainRecordAt P D (int (length rs)) e = Inr (canon (coll_key P) r) \<and>
    domain_history P D (dx_record i) (es @ [e]) = Inr (rs @ [canon (coll_key P) r])"
proof -
  have a: "operation_id_pattern (dx_operation i)" "archive_effect P C D i rs uuid n n' st st' r"
    using assms(5,7) unfolding archive_iff [OF assms(3)] by auto
  then obtain ev where p: "int (length rs) = dx_version i" "\<bar>dx_now i\<bar> \<le> max_time"
    and r: "r = archived_record (last rs) (int (length rs) + 1) (dx_operation i) (dx_now i)"
    and ap: "append_event P C st (domain_input P D (dx_record i) ''domain-record-archived'' (dx_event i) (dx_operation i) (dx_now i)
      (domain_payload P r None (dx_authority i))) uuid n n' = Inr (st', ev)"
    using assms(10) unfolding archive_effect_def assms(8) option.case by auto
  have v: "valid_domain_record P D (last rs)" "sound_json (last rs)"
    using history_valid [OF assms(7)] history_sound [OF assms(3,7)] last_in_set [OF assms(9)] by blast+
  obtain fs where fs: "last rs = JObj fs" using v(1) by (cases "last rs") (auto simp: valid_domain_record_def member_def)
  have av: "valid_domain_record P D r" "sound_json r"
    unfolding r by (rule archived_valid [OF v a(1) p(2)]; use p(1) assms(6) in linarith)+
  have "member r ''version'' = JNum (int (length rs) + 1)" unfolding r archived_members [OF fs] by simp
  then show ?thesis using domain_appended [OF assms(1-4) ap av(2) _ av(1) _ assms(7)] p(1) r by auto
qed

end
