(* ===== verification/ApplicationTracker.thy ===== *)
theory ApplicationTracker
  imports ProductRuns Lifecycle
begin

text \<open>
  The application tracker (src/src/storage/application-tracker.ts): the life cycle of an attempt over the repository of
  the applications domain. Each operation reads the current record, applies the operation of the life cycle to its value and
  puts the result as the next version; a confirmation carries its proof and ledger entry in the same event.
\<close>

section \<open>Attempts as JSON\<close>

definition channel_of :: "string \<Rightarrow> application_channel" where
  "channel_of s = (if s = ''ats-form'' then AtsForm else if s = ''official-email'' then OfficialEmail
     else if s = ''platform-profile'' then PlatformProfile else OtherChannel)"

definition status_of :: "string \<Rightarrow> attempt_status" where
  "status_of s = (if s = ''prepared'' then Prepared else if s = ''approved'' then Approved
     else if s = ''submitted_unconfirmed'' then SubmittedUnconfirmed else if s = ''confirmed'' then Confirmed else Blocked)"

definition reversibility_of :: "string \<Rightarrow> reversibility" where
  "reversibility_of s = (if s = ''R0'' then R0 else if s = ''R1'' then R1 else if s = ''R2'' then R2 else if s = ''R3'' then R3 else R4)"

text \<open>A stored attempt seen at its interface type; a value reached the store only through the schema.\<close>

definition attempt_of :: "json \<Rightarrow> attempt" where
  "attempt_of j = \<lparr>at_id = text_of j ''attemptId'', at_opportunity = text_of j ''opportunityId'', at_packet = text_of j ''packetHash'',
     at_adapter = text_of j ''adapterId'', at_channel = channel_of (text_of j ''channel''), at_tag = reversibility_of (text_of j ''reversibilityTag''),
     at_high_stakes = bool_at j ''highStakesGatePassed'', at_intent = text_of j ''actionIntentHash'', at_status = status_of (text_of j ''status''),
     at_created = text_of j ''createdAt'', at_updated = text_of j ''updatedAt'', at_approval = jstr (member j ''approvalId''),
     at_approved_by = jstr (member j ''approvalApprovedBy''), at_approval_key = jstr (member j ''approvalKeyId''),
     at_approval_expires = jstr (member j ''approvalExpiresAt''), at_proof = jstr (member j ''proofId''),
     at_receipt = jstr (member j ''proofReceiptHash''), at_collector = jstr (member j ''collectorId''), at_blocker = jstr (member j ''blocker'')\<rparr>"

definition APPLICATIONS :: "platform \<Rightarrow> domain_descriptor" where
  "APPLICATIONS P = \<lparr>dd_domain = ''applications'', dd_id = (\<lambda>v. text_of v ''attemptId''),
     dd_validate = assertSchema P ''application-attempt''\<rparr>"

section \<open>The tracker\<close>

record tracker_context =
  tc_operation :: string
  tc_event :: "string option"
  tc_authority :: "domain_authority option"
  tc_now :: int

definition tracker_list :: "platform \<Rightarrow> crypto \<Rightarrow> bool \<Rightarrow> store \<Rightarrow> json list result" where
  "tracker_list P C includeArchived st = domain_list P C (APPLICATIONS P) includeArchived st"

definition tracker_get :: "platform \<Rightarrow> crypto \<Rightarrow> string \<Rightarrow> store \<Rightarrow> json option result" where
  "tracker_get P C attemptId st = domain_get P C (APPLICATIONS P) attemptId False st"

text \<open>An empty event identifier counts as absent.\<close>

definition tracker_put :: "attempt \<Rightarrow> int \<Rightarrow> tracker_context \<Rightarrow> json option \<Rightarrow> domain_put" where
  "tracker_put a expected x audit = \<lparr>dp_value = attempt_json a, dp_expected = expected, dp_operation = tc_operation x,
     dp_event = (if tc_event x = Some [] then None else tc_event x), dp_now = tc_now x, dp_authority = tc_authority x, dp_audit = audit\<rparr>"

definition tracker_create ::
  "platform \<Rightarrow> crypto \<Rightarrow> attempt_input \<Rightarrow> tracker_context \<Rightarrow> string \<Rightarrow> string \<Rightarrow> string \<Rightarrow> string \<Rightarrow> store \<Rightarrow> (store \<times> json) result" where
  "tracker_create P C i x aid uuid n n' st = bindE (tracker_list P C True st) (\<lambda>rs. case find_operation (tc_operation x) rs of
       Some r \<Rightarrow> Inr (st, r)
     | None \<Rightarrow> bindE (createApplicationAttempt P aid (i\<lparr>an_now := tc_now x\<rparr>)) (\<lambda>a.
         putSerialized P C (APPLICATIONS P) (tracker_put a 0 x None) uuid n n' st))"

definition tracker_current :: "platform \<Rightarrow> crypto \<Rightarrow> string \<Rightarrow> int \<Rightarrow> store \<Rightarrow> json result" where
  "tracker_current P C attemptId expected st = bindE (tracker_get P C attemptId st) (\<lambda>r. case r of
       None \<Rightarrow> throw (''Application attempt not found: '' @ attemptId)
     | Some r \<Rightarrow> if int_at r ''version'' \<noteq> expected
         then throw (''Application tracker version conflict, expected '' @ int_str expected @ '', current '' @ int_str (int_at r ''version''))
         else Inr r)"

definition tracker_save ::
  "platform \<Rightarrow> crypto \<Rightarrow> json \<Rightarrow> attempt \<Rightarrow> tracker_context \<Rightarrow> json option \<Rightarrow> string \<Rightarrow> string \<Rightarrow> string \<Rightarrow> store \<Rightarrow> (store \<times> json) result" where
  "tracker_save P C current a x audit uuid n n' st =
     putSerialized P C (APPLICATIONS P) (tracker_put a (int_at current ''version'') x audit) uuid n n' st"

definition tracker_approve ::
  "platform \<Rightarrow> crypto \<Rightarrow> trusted_approver list \<Rightarrow> string \<Rightarrow> int \<Rightarrow> approval \<Rightarrow> tracker_context \<Rightarrow> string \<Rightarrow> string \<Rightarrow> string \<Rightarrow> store \<Rightarrow>
   (store \<times> json) result" where
  "tracker_approve P C trusted attemptId expected ap x uuid n n' st = bindE (tracker_current P C attemptId expected st) (\<lambda>current.
     bindE (approveApplicationAttempt P (attempt_of (member current ''value'')) ap trusted (tc_now x)) (\<lambda>a.
     tracker_save P C current a x None uuid n n' st))"

definition tracker_markSubmitted ::
  "platform \<Rightarrow> crypto \<Rightarrow> trusted_approver list \<Rightarrow> string \<Rightarrow> int \<Rightarrow> tracker_context \<Rightarrow> string \<Rightarrow> string \<Rightarrow> string \<Rightarrow> store \<Rightarrow> (store \<times> json) result" where
  "tracker_markSubmitted P C trusted attemptId expected x uuid n n' st = bindE (tracker_current P C attemptId expected st) (\<lambda>current.
     bindE (markSubmissionAttempted P (attempt_of (member current ''value'')) trusted (tc_now x)) (\<lambda>a.
     tracker_save P C current a x None uuid n n' st))"

definition tracker_block ::
  "platform \<Rightarrow> crypto \<Rightarrow> string \<Rightarrow> int \<Rightarrow> string \<Rightarrow> tracker_context \<Rightarrow> string \<Rightarrow> string \<Rightarrow> string \<Rightarrow> store \<Rightarrow> (store \<times> json) result" where
  "tracker_block P C attemptId expected blocker x uuid n n' st = bindE (tracker_current P C attemptId expected st) (\<lambda>current.
     bindE (blockApplicationAttempt P (attempt_of (member current ''value'')) blocker (tc_now x)) (\<lambda>a.
     tracker_save P C current a x None uuid n n' st))"

text \<open>A member that is \<open>undefined\<close> is absent from the stored object.\<close>

definition present :: "json \<Rightarrow> json" where
  "present j = (case j of JObj es \<Rightarrow> JObj (filter (\<lambda>e. snd e \<noteq> JUndef) es) | _ \<Rightarrow> j)"

definition evaluation_json :: "proof_evaluation \<Rightarrow> json" where
  "evaluation_json e = JObj [(''proofId'', JStr (ev_proof e)), (''opportunityId'', JStr (ev_opportunity e)),
     (''status'', JStr (proof_status_str (ev_status e))), (''reasons'', jstrs (ev_reasons e)),
     (''ledgerEligible'', JBool (ev_ledger_eligible e)), (''collectorId'', JStr (ev_collector e))]"

definition confirmation_audit :: "submission_proof \<Rightarrow> proof_evaluation \<Rightarrow> ledger_entry \<Rightarrow> json" where
  "confirmation_audit p ev e = JObj [(''proof'', proof_json p), (''proofEvaluation'', evaluation_json ev),
     (''ledgerEntry'', present (ledger_entry_json e))]"

definition tracker_confirm ::
  "platform \<Rightarrow> crypto \<Rightarrow> trusted_collector list \<Rightarrow> string \<Rightarrow> int \<Rightarrow> submission_proof \<Rightarrow> tracker_context \<Rightarrow> string \<Rightarrow> string \<Rightarrow> string \<Rightarrow> string \<Rightarrow>
   store \<Rightarrow> (store \<times> json) result" where
  "tracker_confirm P C trusted attemptId expected p x aid uuid n n' st = bindE (tracker_current P C attemptId expected st) (\<lambda>current.
     bindE (confirmApplicationAttempt P (attempt_of (member current ''value'')) p trusted None (tc_now x)) (\<lambda>(a, ev).
     bindE (confirmationLedgerEntry P aid a p (tc_now x)) (\<lambda>e.
     tracker_save P C current a x (Some (confirmation_audit p ev e)) uuid n n' st)))"

section \<open>Stored attempts\<close>

lemma attempt_sound: "sound_json (attempt_json a)"
  by (simp add: sound_json_def attempt_json_def jnull_def split: option.split)

lemma attempt_members:
  "member (attempt_json a) ''attemptId'' = JStr (at_id a)" "member (attempt_json a) ''opportunityId'' = JStr (at_opportunity a)"
  "member (attempt_json a) ''packetHash'' = JStr (at_packet a)" "member (attempt_json a) ''adapterId'' = JStr (at_adapter a)"
  "member (attempt_json a) ''channel'' = JStr (channel_str (at_channel a))" "member (attempt_json a) ''reversibilityTag'' = JStr (reversibility_str (at_tag a))"
  "member (attempt_json a) ''highStakesGatePassed'' = JBool (at_high_stakes a)" "member (attempt_json a) ''actionIntentHash'' = JStr (at_intent a)"
  "member (attempt_json a) ''status'' = JStr (status_str (at_status a))" "member (attempt_json a) ''createdAt'' = JStr (at_created a)"
  "member (attempt_json a) ''updatedAt'' = JStr (at_updated a)" "member (attempt_json a) ''approvalId'' = jnull JStr (at_approval a)"
  "member (attempt_json a) ''approvalApprovedBy'' = jnull JStr (at_approved_by a)" "member (attempt_json a) ''approvalKeyId'' = jnull JStr (at_approval_key a)"
  "member (attempt_json a) ''approvalExpiresAt'' = jnull JStr (at_approval_expires a)" "member (attempt_json a) ''proofId'' = jnull JStr (at_proof a)"
  "member (attempt_json a) ''proofReceiptHash'' = jnull JStr (at_receipt a)" "member (attempt_json a) ''collectorId'' = jnull JStr (at_collector a)"
  "member (attempt_json a) ''blocker'' = jnull JStr (at_blocker a)"
  by (simp_all add: attempt_json_def member_def)

lemma channel_of_str [simp]: "channel_of (channel_str c) = c"
  by (cases c) (simp_all add: channel_of_def)

lemma status_of_str [simp]: "status_of (status_str s) = s"
  by (cases s) (simp_all add: status_of_def)

lemma reversibility_of_str [simp]: "reversibility_of (reversibility_str t) = t"
  by (cases t) (simp_all add: reversibility_of_def)

lemma attempt_of_json: "attempt_of (canon ck (attempt_json a)) = a"
proof -
  have n: "jstr (canon ck (jnull JStr x)) = x" for x :: "string option" by (cases x) (simp_all add: jnull_def)
  show ?thesis unfolding attempt_of_def text_of_def bool_at_def member_canon [OF attempt_sound] attempt_members n
    by simp
qed

end
