(* ===== verification/TrackerProps.thy ===== *)
theory TrackerProps
  imports ApplicationTracker
begin

text \<open>
  What the tracker keeps over any run of a store: the history of every attempt is a path of the life cycle, one operation
  from each version to the next, whatever other parts of the program append in between.
\<close>

section \<open>Paths\<close>

inductive attempt_path :: "platform \<Rightarrow> attempt list \<Rightarrow> bool" for P :: platform where
  path_start: "createApplicationAttempt P uuid i = Inr a \<Longrightarrow> attempt_path P [a]"
| path_step: "attempt_path P as \<Longrightarrow> apply_op P q (last as) = Inr b \<Longrightarrow> attempt_path P (as @ [b])"

lemma path_not_empty: "attempt_path P as \<Longrightarrow> as \<noteq> []"
  by (induction rule: attempt_path.induct) simp_all

lemma run_ops_append: "run_ops P (qs @ rs) a = bindE (run_ops P qs a) (run_ops P rs)"
proof (induction qs arbitrary: a)
  case (Cons q qs)
  then show ?case by (cases "apply_op P q a") simp_all
qed simp

text \<open>A path is a run from its first attempt to its last.\<close>

lemma path_run: "attempt_path P as \<Longrightarrow> \<exists>uuid i qs. createApplicationAttempt P uuid i = Inr (hd as) \<and> run_ops P qs (hd as) = Inr (last as)"
proof (induction rule: attempt_path.induct)
  case (path_start uuid i a)
  then show ?case by (intro exI [of _ uuid] exI [of _ i] exI [of _ "[]"]) simp
next
  case (path_step as q b)
  then obtain uuid i qs where r: "createApplicationAttempt P uuid i = Inr (hd as)" "run_ops P qs (hd as) = Inr (last as)" by blast
  have "run_ops P (qs @ [q]) (hd as) = Inr b" unfolding run_ops_append r(2) using path_step(2) by simp
  then show ?case using r(1) path_not_empty [OF path_step(1)] by auto
qed

section \<open>Histories of attempts\<close>

abbreviation attempt_history :: "platform \<Rightarrow> string \<Rightarrow> stored_event list \<Rightarrow> json list result" where
  "attempt_history P aid es \<equiv> domain_history P (APPLICATIONS P) aid es"

definition attempts_of :: "json list \<Rightarrow> attempt list" where
  "attempts_of rs = map (\<lambda>r. attempt_of (member r ''value'')) rs"

text \<open>A history holds active records of one attempt along a path.\<close>

definition tracked :: "platform \<Rightarrow> stored_event list \<Rightarrow> bool" where
  "tracked P es = (\<forall>aid. \<exists>rs. attempt_history P aid es = Inr rs \<and> list_all (\<lambda>r. member r ''status'' = JStr ''active'') rs \<and>
     (rs \<noteq> [] \<longrightarrow> attempt_path P (attempts_of rs) \<and> list_all (\<lambda>a. at_id a = aid) (attempts_of rs)))"

lemma tracked_history:
  assumes "tracked P es" and "attempt_history P aid es = Inr rs"
  shows "list_all (\<lambda>r. member r ''status'' = JStr ''active'') rs \<and>
    (rs \<noteq> [] \<longrightarrow> attempt_path P (attempts_of rs) \<and> list_all (\<lambda>a. at_id a = aid) (attempts_of rs))"
proof -
  obtain qs where "attempt_history P aid es = Inr qs" "list_all (\<lambda>r. member r ''status'' = JStr ''active'') qs \<and>
    (qs \<noteq> [] \<longrightarrow> attempt_path P (attempts_of qs) \<and> list_all (\<lambda>a. at_id a = aid) (attempts_of qs))"
    using assms(1) unfolding tracked_def by blast
  then show ?thesis using assms(2) by simp
qed

lemma applications_canonical:
  assumes "\<And>v. schema_errors P ''application-attempt'' v = [] \<Longrightarrow> schema_errors P ''application-attempt'' (canon (coll_key P) v) = []"
  shows "canonical_descriptor P (APPLICATIONS P)"
proof -
  have "jstr (canon ck j) = jstr j" for ck j by (cases j) simp_all
  then have "sound_json v \<Longrightarrow> text_of (canon ck v) k = text_of v k" for ck v k by (simp add: text_of_def member_canon)
  then show ?thesis using assms by (auto simp: canonical_descriptor_def APPLICATIONS_def)
qed

lemma applications_simps: "dd_domain (APPLICATIONS P) = ''applications''" "dd_id (APPLICATIONS P) (attempt_json a) = at_id a"
  by (simp_all add: APPLICATIONS_def text_of_def attempt_members)

lemma domain_type_applications: "domain_type (APPLICATIONS P) = ''domain-applications''"
  by (simp add: domain_type_def applications_simps)

lemma tracked_nil: "tracked P []"
  by (simp add: tracked_def domain_history_def history_of_def)

lemma tracked_other:
  assumes "tracked P es" and "se_aggregate_type e \<noteq> ''domain-applications''"
  shows "tracked P (es @ [e])"
proof -
  have "attempt_history P aid (es @ [e]) = attempt_history P aid es" for aid
    using assms(2) by (simp add: domain_history_def history_of_def domain_type_applications)
  then show ?thesis using assms(1) by (simp add: tracked_def)
qed

text \<open>A new version that continues the path of its history, or starts one.\<close>

lemma tracked_grows:
  assumes "tracked P es" and "se_aggregate_type e = ''domain-applications''" and "se_aggregate e = at_id b"
    and "attempt_history P (at_id b) es = Inr rs" and "attempt_history P (at_id b) (es @ [e]) = Inr (rs @ [r])"
    and "member r ''status'' = JStr ''active''" and "attempt_of (member r ''value'') = b"
    and "if rs = [] then \<exists>uuid i. createApplicationAttempt P uuid i = Inr b else \<exists>q. apply_op P q (last (attempts_of rs)) = Inr b"
  shows "tracked P (es @ [e])"
  unfolding tracked_def
proof
  fix aid
  show "\<exists>rs. attempt_history P aid (es @ [e]) = Inr rs \<and> list_all (\<lambda>r. member r ''status'' = JStr ''active'') rs \<and>
     (rs \<noteq> [] \<longrightarrow> attempt_path P (attempts_of rs) \<and> list_all (\<lambda>a. at_id a = aid) (attempts_of rs))"
  proof (cases "aid = at_id b")
    case False
    then have "attempt_history P aid (es @ [e]) = attempt_history P aid es" using assms(3) by (simp add: domain_history_def history_of_def)
    then show ?thesis using assms(1) by (simp add: tracked_def)
  next
    case True
    have old: "list_all (\<lambda>r. member r ''status'' = JStr ''active'') rs" "rs \<noteq> [] \<Longrightarrow> attempt_path P (attempts_of rs)"
      "rs \<noteq> [] \<Longrightarrow> list_all (\<lambda>a. at_id a = at_id b) (attempts_of rs)"
      using tracked_history [OF assms(1,4)] by blast+
    have a: "attempts_of (rs @ [r]) = attempts_of rs @ [b]" by (simp add: attempts_of_def assms(7))
    have "attempt_path P (attempts_of rs @ [b])"
    proof (cases "rs = []")
      case True
      then show ?thesis using assms(8) path_start by (auto simp: attempts_of_def)
    next
      case False
      then show ?thesis using assms(8) path_step [OF old(2)] by auto
    qed
    moreover have "list_all (\<lambda>a. at_id a = at_id b) (attempts_of rs @ [b])" using old(3) by (cases "rs = []") (simp_all add: attempts_of_def)
    ultimately show ?thesis using assms(5,6) old(1) True a by (intro exI [of _ "rs @ [r]"]) simp
  qed
qed

section \<open>Steps\<close>

lemma tracker_put_step:
  assumes "aead_ok C" and "hex_digest P" and "readAll P C st = Inr es" and "tracked P es" and "canonical_descriptor P (APPLICATIONS P)"
    and "putSerialized P C (APPLICATIONS P) (tracker_put b v x audit) uuid n n' st = Inr (st', r)" and "\<forall>a. audit = Some a \<longrightarrow> sound_json a"
    and cont: "\<And>rs. attempt_history P (at_id b) es = Inr rs \<Longrightarrow> int (length rs) = v \<Longrightarrow>
      if rs = [] then \<exists>uuid i. createApplicationAttempt P uuid i = Inr b else \<exists>q. apply_op P q (last (attempts_of rs)) = Inr b"
  shows "\<exists>es'. readAll P C st' = Inr es' \<and> tracked P es' \<and> (\<exists>fs. es' = es @ fs)"
proof -
  let ?i = "tracker_put b v x audit" and ?D = "APPLICATIONS P"
  have i: "dp_value ?i = attempt_json b" "dp_audit ?i = audit" "dp_expected ?i = v" by (simp_all add: tracker_put_def)
  have id: "dd_id ?D (dp_value ?i) = at_id b" unfolding i applications_simps ..
  obtain rs where rs: "attempt_history P (at_id b) es = Inr rs" and ef: "put_effect P C ?D ?i rs uuid n n' st st' r"
    using assms(6) unfolding put_iff [OF assms(3)] id by blast
  show ?thesis
  proof (cases "find_operation (dp_operation ?i) rs")
    case (Some y)
    then have "st' = st" using ef unfolding put_effect_def by simp
    then show ?thesis using assms(3,4) by (intro exI [of _ es]) simp
  next
    case None
    have sv: "sound_json (dp_value ?i)" unfolding i by (rule attempt_sound)
    have ad: "\<forall>a. dp_audit ?i = Some a \<longrightarrow> sound_json a" unfolding i by (rule assms(7))
    obtain e where e: "readAll P C st' = Inr (es @ [e])" "se_aggregate_type e = domain_type ?D" "se_aggregate e = at_id b"
      and l: "int (length rs) = v"
      and r: "r = domain_record P ?D (at_id b) (int (length rs) + 1) (attempt_json b) (dp_operation ?i) (dp_now ?i)"
      and h: "attempt_history P (at_id b) (es @ [e]) = Inr (rs @ [canon (coll_key P) r])"
      using put_appends [OF assms(1-3,5,6) sv ad rs [folded id] None] unfolding id unfolding i by blast
    have sr: "sound_json r" unfolding r by (rule domain_record_sound [OF attempt_sound])
    have m: "member (canon (coll_key P) r) ''status'' = JStr ''active''" "attempt_of (member (canon (coll_key P) r) ''value'') = b"
      unfolding member_canon [OF sr] unfolding r domain_record_members by (simp, rule attempt_of_json)
    have "tracked P (es @ [e])"
      by (rule tracked_grows [OF assms(4) e(2) [unfolded domain_type_applications] e(3) rs h m cont [OF rs l]])
    then show ?thesis using e(1) by blast
  qed
qed

lemma tracker_current_ok:
  assumes "readAll P C st = Inr es" and "tracked P es" and "tracker_current P C aid v st = Inr cur"
  obtains rs where "attempt_history P aid es = Inr rs" and "rs \<noteq> []" and "cur = last rs" and "int_at cur ''version'' = int (length rs)"
    and "v = int (length rs)" and "attempt_of (member cur ''value'') = last (attempts_of rs)" and "at_id (last (attempts_of rs)) = aid"
proof -
  have g: "tracker_get P C aid st = Inr (Some cur)" and v: "int_at cur ''version'' = v"
    using assms(3) unfolding tracker_current_def by (auto split: option.splits if_splits)
  have pat: "domain_identifier_pattern aid"
    using g unfolding tracker_get_def domain_get_def domain_events_def assertDomainIdentifier_def by (auto split: if_splits)
  obtain rs where rs: "attempt_history P aid es = Inr rs" "(case last_opt rs of None \<Rightarrow> None
       | Some r \<Rightarrow> if member r ''status'' = JStr ''archived'' \<and> \<not> False then None else Some r) = Some cur"
    using g unfolding tracker_get_def domain_get_def domain_events_history [OF assms(1) pat] by auto
  then have c: "rs \<noteq> []" "cur = last rs" by (auto simp: last_opt_def split: if_splits)
  have "(case last_opt rs of None \<Rightarrow> 0 | Some r \<Rightarrow> int_at r ''version'') = int (length rs)" by (rule domain_current [OF rs(1)])
  then have l: "int_at cur ''version'' = int (length rs)" using c by (simp add: last_opt_def)
  have a: "attempt_of (member cur ''value'') = last (attempts_of rs)" using c by (simp add: attempts_of_def last_map)
  have "list_all (\<lambda>a. at_id a = aid) (attempts_of rs)" using tracked_history [OF assms(2) rs(1)] c(1) by blast
  moreover have "attempts_of rs \<noteq> []" using c(1) by (simp add: attempts_of_def)
  ultimately have "at_id (last (attempts_of rs)) = aid" by (simp add: list_all_iff)
  then show thesis using that [OF rs(1) c l _ a] v l by simp
qed

text \<open>An operation on the current record is saved as the next step of the path.\<close>

lemma tracker_save_step:
  assumes "aead_ok C" and "hex_digest P" and "readAll P C st = Inr es" and "tracked P es" and "canonical_descriptor P (APPLICATIONS P)"
    and "tracker_current P C aid v st = Inr cur" and "apply_op P q (attempt_of (member cur ''value'')) = Inr b"
    and "tracker_save P C cur b x audit uuid n n' st = Inr (st', r)" and "\<forall>a. audit = Some a \<longrightarrow> sound_json a"
  shows "\<exists>es'. readAll P C st' = Inr es' \<and> tracked P es' \<and> (\<exists>fs. es' = es @ fs)"
proof (rule tracker_current_ok [OF assms(3,4,6)])
  fix rs
  assume h: "attempt_history P aid es = Inr rs" "rs \<noteq> []" "cur = last rs" "int_at cur ''version'' = int (length rs)"
    "attempt_of (member cur ''value'') = last (attempts_of rs)" "at_id (last (attempts_of rs)) = aid"
  have "run_ops P [q] (attempt_of (member cur ''value'')) = Inr b" using assms(7) by simp
  then have id: "at_id b = aid" using attempt_identity_preserved h(5,6) by metis
  show ?thesis
  proof (rule tracker_put_step [OF assms(1-5) assms(8) [unfolded tracker_save_def] assms(9)])
    fix qs assume "attempt_history P (at_id b) es = Inr qs" "int (length qs) = int_at cur ''version''"
    then have "qs = rs" using h(1) id by simp
    then show "if qs = [] then \<exists>uuid i. createApplicationAttempt P uuid i = Inr b else \<exists>q. apply_op P q (last (attempts_of qs)) = Inr b"
      using h(2,5) assms(7) by auto
  qed
qed

inductive tracker_step :: "platform \<Rightarrow> crypto \<Rightarrow> store \<Rightarrow> store \<Rightarrow> bool" for P :: platform and C :: crypto where
  t_create: "tracker_create P C i x aid uuid n n' st = Inr (st', r) \<Longrightarrow> tracker_step P C st st'"
| t_approve: "tracker_approve P C trusted aid v ap x uuid n n' st = Inr (st', r) \<Longrightarrow> tracker_step P C st st'"
| t_submit: "tracker_markSubmitted P C trusted aid v x uuid n n' st = Inr (st', r) \<Longrightarrow> tracker_step P C st st'"
| t_block: "tracker_block P C aid v blocker x uuid n n' st = Inr (st', r) \<Longrightarrow> tracker_step P C st st'"
| t_confirm: "tracker_confirm P C collectors aid v p x lid uuid n n' st = Inr (st', r) \<Longrightarrow> tracker_step P C st st'"
| t_other: "append_event P C st i uuid n n' = Inr (st', ev) \<Longrightarrow> sound_json (ae_payload i) \<Longrightarrow>
    ae_aggregate_type i \<noteq> ''domain-applications'' \<Longrightarrow> tracker_step P C st st'"
| t_keep: "store_step P C st st' \<Longrightarrow> st_events st' = st_events st \<Longrightarrow> tracker_step P C st st'"

lemma audit_sound: "sound_json (confirmation_audit p ev e)"
  by (simp add: confirmation_audit_def sound_json_def proof_json_def observation_members_def evaluation_json_def present_def
      ledger_entry_json_def jnull_def jopt_def jstrs_def list_all_iff split: option.split)

lemma step_tracked:
  assumes "aead_ok C" and "hex_digest P" and "canonical_descriptor P (APPLICATIONS P)" and "tracker_step P C st st'"
    and "readAll P C st = Inr es" and "tracked P es"
  shows "\<exists>es'. readAll P C st' = Inr es' \<and> tracked P es' \<and> (\<exists>fs. es' = es @ fs)"
  using assms(4)
proof cases
  case (t_create i x aid uuid n n' r)
  obtain rs where l: "(case find_operation (tc_operation x) rs of Some r \<Rightarrow> Inr (st, r)
     | None \<Rightarrow> bindE (createApplicationAttempt P aid (i\<lparr>an_now := tc_now x\<rparr>)) (\<lambda>a.
         putSerialized P C (APPLICATIONS P) (tracker_put a 0 x None) uuid n n' st)) = Inr (st', r)"
    using t_create unfolding tracker_create_def bindE_Inr_iff by blast
  show ?thesis
  proof (cases "find_operation (tc_operation x) rs")
    case None
    then obtain a where a: "createApplicationAttempt P aid (i\<lparr>an_now := tc_now x\<rparr>) = Inr a"
      "putSerialized P C (APPLICATIONS P) (tracker_put a 0 x None) uuid n n' st = Inr (st', r)" using l by auto
    show ?thesis by (rule tracker_put_step [OF assms(1,2,5,6,3) a(2)]) (use a(1) in auto)
  next
    case (Some y)
    then show ?thesis using l assms(5,6) by auto
  qed
next
  case (t_approve trusted aid v ap x uuid n n' r)
  then obtain cur b where "tracker_current P C aid v st = Inr cur"
    "apply_op P (Approve ap trusted (tc_now x)) (attempt_of (member cur ''value'')) = Inr b" "tracker_save P C cur b x None uuid n n' st = Inr (st', r)"
    unfolding tracker_approve_def bindE_Inr_iff by auto
  then show ?thesis by (rule tracker_save_step [OF assms(1,2,5,6,3)]) simp
next
  case (t_submit trusted aid v x uuid n n' r)
  then obtain cur b where "tracker_current P C aid v st = Inr cur"
    "apply_op P (Submit trusted (tc_now x)) (attempt_of (member cur ''value'')) = Inr b" "tracker_save P C cur b x None uuid n n' st = Inr (st', r)"
    unfolding tracker_markSubmitted_def bindE_Inr_iff by auto
  then show ?thesis by (rule tracker_save_step [OF assms(1,2,5,6,3)]) simp
next
  case (t_block aid v blocker x uuid n n' r)
  then obtain cur b where "tracker_current P C aid v st = Inr cur"
    "apply_op P (Block blocker (tc_now x)) (attempt_of (member cur ''value'')) = Inr b" "tracker_save P C cur b x None uuid n n' st = Inr (st', r)"
    unfolding tracker_block_def bindE_Inr_iff by auto
  then show ?thesis by (rule tracker_save_step [OF assms(1,2,5,6,3)]) simp
next
  case (t_confirm collectors aid v p x lid uuid n n' r)
  then obtain cur b ev e where c: "tracker_current P C aid v st = Inr cur"
    "apply_op P (Confirm p collectors None (tc_now x)) (attempt_of (member cur ''value'')) = Inr b"
    "tracker_save P C cur b x (Some (confirmation_audit p ev e)) uuid n n' st = Inr (st', r)"
    unfolding tracker_confirm_def bindE_Inr_iff by auto
  show ?thesis by (rule tracker_save_step [OF assms(1,2,5,6,3) c]) (simp add: audit_sound)
next
  case (t_other i uuid n n' ev)
  show ?thesis
  proof (rule store_append_reads [OF assms(1,2,5) t_other(1,2)])
    fix e assume "readAll P C st' = Inr (es @ [e])" "se_aggregate_type e = ae_aggregate_type i"
    then show ?thesis using tracked_other [OF assms(6)] t_other(3) by metis
  qed
next
  case t_keep
  then show ?thesis using keep_reads assms(5,6) by (metis append_Nil2)
qed

lemma steps_tracked:
  assumes "aead_ok C" and "hex_digest P" and "canonical_descriptor P (APPLICATIONS P)" and "(tracker_step P C)\<^sup>*\<^sup>* st st'"
    and "readAll P C st = Inr es" and "tracked P es"
  shows "\<exists>es'. readAll P C st' = Inr es' \<and> tracked P es'"
  using assms(4)
proof (induction rule: rtranclp_induct)
  case base
  then show ?case using assms(5,6) by blast
next
  case (step st1 st2)
  then show ?case using step_tracked [OF assms(1-3)] by blast
qed

text \<open>An attempt is confirmed in the store only along the full path: if a lookup in a reached store finds it confirmed, an approval
  that was valid for its own intent, an unexpired submission with every high-stakes flag assessed as absent, and a proof by a trusted collector bound to this
  attempt and its packet are behind it.\<close>

lemma tracked_confirmation_earned:
  assumes "aead_ok C" and "hex_digest P" and "salt \<noteq> []" and "create_store P C ms pass salt n1 n2 uuid = Inr st0"
    and "\<forall>v. schema_errors P ''application-attempt'' v = [] \<longrightarrow> schema_errors P ''application-attempt'' (canon (coll_key P) v) = []"
    and "(tracker_step P C)\<^sup>*\<^sup>* st0 st" and "tracker_get P C aid st = Inr (Some r)" and "a = attempt_of (member r ''value'')"
    and "at_status a = Confirmed"
  shows "\<exists>u i a0 ap ts m1 ts' m2 p cs m3 e. createApplicationAttempt P u i = Inr a0 \<and> at_id a0 = aid \<and>
    ar_valid (validateApprovalReference P ap (attempt_scope a0 m1) ts) \<and> ap_intent ap = at_intent a0 \<and>
    (\<forall>f. an_flags i f = Some False) \<and> \<not> nle (parse_date P (ap_expires ap)) (Some m2) \<and>
    (\<exists>t \<in> set (ts' :: trusted_approver list). ta_by t = ap_by ap \<and> ta_key t = ap_key ap) \<and> proof_trusted P p cs e m3 \<and> pe_submitted e = to_iso m2 \<and>
    so_attempt p = aid \<and> so_intent p = at_intent a0 \<and> so_packet p = an_packet i \<and> at_proof a = Some (sp_id p) \<and>
    at_receipt a = Some (sp_receipt p)"
proof -
  have cd: "canonical_descriptor P (APPLICATIONS P)" using applications_canonical assms(5) by blast
  obtain es where es: "readAll P C st = Inr es" "tracked P es"
    using steps_tracked [OF assms(1,2) cd assms(6) created_reads [OF assms(1-4)] tracked_nil] by blast
  have "tracker_current P C aid (int_at r ''version'') st = Inr r" unfolding tracker_current_def assms(7) by simp
  then obtain rs where rs: "attempt_history P aid es = Inr rs" "rs \<noteq> []" "a = last (attempts_of rs)" "at_id (last (attempts_of rs)) = aid"
    using tracker_current_ok [OF es] assms(8) by metis
  have "attempt_path P (attempts_of rs)" using tracked_history [OF es(2) rs(1)] rs(2) by blast
  then obtain u i qs where run: "createApplicationAttempt P u i = Inr (hd (attempts_of rs))" "run_ops P qs (hd (attempts_of rs)) = Inr a"
    using path_run rs(3) by metis
  have id: "at_id (hd (attempts_of rs)) = aid" using attempt_identity_preserved [OF run(2)] rs(3,4) by simp
  note c = confirmed_run [OF run assms(9)]
  show ?thesis using c [unfolded id] run(1) id by (elim exE conjE) (intro exI conjI; assumption)
qed

section \<open>A sample run\<close>

text \<open>The first version of an attempt in a new store.\<close>

lemma domain_id_identifier: "hex_digest P \<Longrightarrow> identifier_ok (domainEventId P ''applications'' q)"
proof -
  assume "hex_digest P"
  then have h: "length (drop 7 (sha256 P x)) = 64" "list_all is_hex (drop 7 (sha256 P x))" for x by (simp_all add: sha256_def hex_digest_def)
  then have "list_all (\<lambda>c. is_alnum c \<or> c \<in> set ''._:-'') (drop 7 (sha256 P x))" for x
    by (fastforce simp: list_all_iff is_hex_def is_alnum_def is_lower_def)
  then show ?thesis using h(1) by (simp add: identifier_ok_def domainEventId_def is_alnum_def is_upper_def)
qed

lemma create_total:
  assumes "hex_digest P" and "readAll P C st = Inr []" and "st_events st = []" and "createApplicationAttempt P u (i\<lparr>an_now := tc_now x\<rparr>) = Inr a"
    and "assertSchema P ''application-attempt'' (attempt_json a) = Inr ()" and "identifier_ok (at_id a)" and "domain_identifier_pattern (at_id a)"
    and "operation_id_pattern (tc_operation x)" and "tc_event x = None" and "\<bar>tc_now x\<bar> \<le> max_time"
  shows "\<exists>st' r. tracker_create P C i x u uuid n n' st = Inr (st', r)"
proof -
  let ?D = "APPLICATIONS P" and ?i = "tracker_put a 0 x None"
  let ?r = "domain_record P ?D (at_id a) 1 (attempt_json a) (tc_operation x) (tc_now x)"
  let ?e = "domain_input P ?D (at_id a) ''domain-record-put'' None (tc_operation x) (tc_now x) (domain_payload P ?r None (tc_authority x))"
  have i: "dp_value ?i = attempt_json a" "dp_audit ?i = None" "dp_expected ?i = 0" "dp_operation ?i = tc_operation x" "dp_now ?i = tc_now x"
    "dp_event ?i = None" "dp_authority ?i = tc_authority x" using assms(9) by (simp_all add: tracker_put_def)
  have v: "dd_validate ?D (attempt_json a) = Inr ()" using assms(5) by (simp add: APPLICATIONS_def)
  have "member ?r ''domain'' = JStr ''applications''" "member ?r ''recordedAt'' = JStr (to_iso (tc_now x))" "?r \<noteq> JNull"
    by (simp_all add: domain_record_def member_def applications_simps)
  then have vr: "valid_domain_record P ?D ?r" unfolding valid_domain_record_def domain_record_members
    using v assms(7,8,10) by (simp add: applications_simps date_parse_to_iso MAX_SAFE_def)
  have "\<exists>st' ev. append_event P C st ?e uuid n n' = Inr (st', ev)"
    by (rule append_total [OF assms(2)])
      (use assms(3,6) domain_id_identifier [OF assms(1)] in
        \<open>simp_all add: domain_input_def row_of_input_def domain_type_applications applications_simps identifier_ok_def is_alnum_def is_lower_def\<close>)
  then obtain st' ev where ap: "append_event P C st ?e uuid n n' = Inr (st', ev)" by blast
  have "find_operation (tc_operation x) [] = None" by (simp add: find_operation_def)
  then have "put_effect P C ?D ?i [] uuid n n' st st' ?r" unfolding put_effect_def i applications_simps using vr ap assms(10) by auto
  moreover have "domain_history P ?D (at_id a) [] = Inr []" by (simp add: domain_history_def history_of_def)
  ultimately have "putSerialized P C ?D ?i uuid n n' st = Inr (st', ?r)"
    unfolding put_iff [OF assms(2)] i applications_simps using v assms(7,8) by (auto simp: assertDomainVersion_def MAX_SAFE_def)
  moreover have "tracker_list P C True st = Inr []" by (simp add: tracker_list_def domain_list_def assms(2) List.map_filter_def)
  ultimately show ?thesis unfolding tracker_create_def using assms(4) by (simp add: find_operation_def)
qed

lemma sample_attempt_created:
  "\<exists>a. createApplicationAttempt sample_signing ''u'' (life_input\<lparr>an_now := 0\<rparr>) = Inr a \<and> at_id a = ''ATT-1970-u''"
proof -
  have y: "''ATT-'' @ int_str (year_from_day (0 div ms_per_day)) @ ''-'' @ ''u'' = ''ATT-1970-u''" by code_simp
  have s: "schema_errors sample_signing n j = []" for n j by (simp add: sample_signing_def sample_platform_def)
  show ?thesis using y by (simp add: createApplicationAttempt_def life_input_def HIGH_STAKES_FLAGS_def Let_def validated_def assertSchema_def s)
qed

lemma sample_tracked:
  "\<exists>st0 st. create_store sample_signing sample_crypto [1] ''correct horse'' '' salt'' ''n1'' ''n2'' ''u'' = Inr st0 \<and>
     (tracker_step sample_signing sample_crypto)\<^sup>*\<^sup>* st0 st \<and>
     (\<exists>es r. readAll sample_signing sample_crypto st = Inr es \<and> attempt_history sample_signing ''ATT-1970-u'' es = Inr [r])"
proof -
  let ?P = sample_signing and ?C = sample_crypto and ?x = "\<lparr>tc_operation = ''REQ-12345678'', tc_event = None, tc_authority = None, tc_now = 0\<rparr>"
  obtain st0 where st0: "create_store ?P ?C [1] ''correct horse'' '' salt'' ''n1'' ''n2'' ''u'' = Inr st0" "st_events st0 = []"
    by (auto simp: create_store_def deriveKey_def)
  have salt: "'' salt'' \<noteq> []" by simp
  note r = created_reads [OF sample_aead sample_signing_digest salt st0(1)]
  obtain a where a: "createApplicationAttempt ?P ''u'' (life_input\<lparr>an_now := 0\<rparr>) = Inr a" "at_id a = ''ATT-1970-u''"
    using sample_attempt_created by blast
  have "schema_errors ?P n j = []" for n j by (simp add: sample_signing_def sample_platform_def)
  then have as: "assertSchema ?P ''application-attempt'' (attempt_json a) = Inr ()"
    and cd: "canonical_descriptor ?P (APPLICATIONS ?P)" by (simp_all add: assertSchema_def applications_canonical)
  have id: "identifier_ok (at_id a)" "domain_identifier_pattern (at_id a)" "operation_id_pattern ''REQ-12345678''" unfolding a(2) by code_simp+
  have "\<exists>st r. tracker_create ?P ?C life_input ?x ''u'' [] [] [] st0 = Inr (st, r)"
    by (rule create_total [OF sample_signing_digest r st0(2) _ as id(1,2)]) (simp_all add: a(1) id(3) max_time_def)
  then obtain st y where t: "tracker_create ?P ?C life_input ?x ''u'' [] [] [] st0 = Inr (st, y)" by blast
  have p: "putSerialized ?P ?C (APPLICATIONS ?P) (tracker_put a 0 ?x None) [] [] [] st0 = Inr (st, y)"
    using t unfolding tracker_create_def tracker_list_def domain_list_def r by (simp add: find_operation_def List.map_filter_def a(1))
  have h: "domain_history ?P (APPLICATIONS ?P) (dd_id (APPLICATIONS ?P) (dp_value (tracker_put a 0 ?x None))) [] = Inr []"
    by (simp add: domain_history_def history_of_def)
  obtain e where "readAll ?P ?C st = Inr ([] @ [e])" and
    "domain_history ?P (APPLICATIONS ?P) (dd_id (APPLICATIONS ?P) (dp_value (tracker_put a 0 ?x None))) ([] @ [e]) = Inr ([] @ [canon (coll_key ?P) y])"
    using put_appends [OF sample_aead sample_signing_digest r cd p _ _ h] by (auto simp: tracker_put_def attempt_sound find_operation_def)
  then show ?thesis using st0(1) t_create [OF t] by (auto simp: tracker_put_def applications_simps a(2))
qed

section \<open>Properties\<close>

text \<open>C28: In every store reached from a created one by tracker operations and events of other parts, the stored history of an attempt
  is a path of the life cycle: its first version is a created attempt, each further version is one operation away from the
  version before, and a lookup answers with the last.\<close>

theorem tracked_attempts_follow_lifecycle:
  assumes "aead_ok C" and "hex_digest P" and "salt \<noteq> []" and "create_store P C ms pass salt n1 n2 uuid = Inr st0"
    and "\<forall>v. schema_errors P ''application-attempt'' v = [] \<longrightarrow> schema_errors P ''application-attempt'' (canon (coll_key P) v) = []"
    and "(tracker_step P C)\<^sup>*\<^sup>* st0 st" and "domain_identifier_pattern aid"
  shows "\<exists>es rs. readAll P C st = Inr es \<and> attempt_history P aid es = Inr rs \<and> (rs \<noteq> [] \<longrightarrow> attempt_path P (attempts_of rs)) \<and>
    list_all (\<lambda>a. at_id a = aid) (attempts_of rs) \<and> map (\<lambda>r. member r ''version'') rs = map (\<lambda>k. JNum (int k + 1)) [0..<length rs] \<and>
    tracker_get P C aid st = Inr (last_opt rs)"
proof -
  have cd: "canonical_descriptor P (APPLICATIONS P)" using applications_canonical assms(5) by blast
  obtain es where es: "readAll P C st = Inr es" "tracked P es"
    using steps_tracked [OF assms(1,2) cd assms(6) created_reads [OF assms(1-4)] tracked_nil] by blast
  obtain rs where rs: "attempt_history P aid es = Inr rs" "list_all (\<lambda>r. member r ''status'' = JStr ''active'') rs"
    "rs \<noteq> [] \<longrightarrow> attempt_path P (attempts_of rs) \<and> list_all (\<lambda>a. at_id a = aid) (attempts_of rs)" using es(2) unfolding tracked_def by blast
  have "list_all (\<lambda>a. at_id a = aid) (attempts_of rs)" using rs(3) by (cases "rs = []") (simp_all add: attempts_of_def)
  moreover have "tracker_get P C aid st = Inr (last_opt rs)"
    unfolding tracker_get_def domain_get_def domain_events_history [OF es(1) assms(7)] rs(1) using rs(2) by (auto simp: last_opt_def list_all_iff)
  ultimately show ?thesis using es(1) rs(1,3) domains.dense [OF rs(1) [unfolded domain_history_def]] by blast
qed

theorem tracked_attempts_follow_lifecycle_witness:
  "\<exists>st es r a. readAll sample_signing sample_crypto st = Inr es \<and> attempt_history sample_signing ''ATT-1970-u'' es = Inr [r] \<and>
     attempt_path sample_signing [a] \<and> at_id a = ''ATT-1970-u'' \<and> tracker_get sample_signing sample_crypto ''ATT-1970-u'' st = Inr (Some r)"
proof -
  obtain st0 st es r where st: "create_store sample_signing sample_crypto [1] ''correct horse'' '' salt'' ''n1'' ''n2'' ''u'' = Inr st0"
    "(tracker_step sample_signing sample_crypto)\<^sup>*\<^sup>* st0 st" "readAll sample_signing sample_crypto st = Inr es"
    "attempt_history sample_signing ''ATT-1970-u'' es = Inr [r]" using sample_tracked by blast
  have salt: "'' salt'' \<noteq> []" by simp
  have id: "domain_identifier_pattern ''ATT-1970-u''" by code_simp
  have s: "\<forall>v. schema_errors sample_signing ''application-attempt'' v = [] \<longrightarrow>
      schema_errors sample_signing ''application-attempt'' (canon (coll_key sample_signing) v) = []" by (simp add: sample_signing_def sample_platform_def)
  show ?thesis
    using tracked_attempts_follow_lifecycle [OF sample_aead sample_signing_digest salt st(1) s st(2) id] st(3,4)
    by (auto simp: attempts_of_def last_opt_def)
qed

end
