(* ===== verification/AuthorityPages.thy ===== *)
theory AuthorityPages
  imports DecisionStore
begin

text \<open>
  The paged lists of the authority (\<open>decisionPagePayload\<close>, \<open>decisionRecordPage\<close>, \<open>networkGrantPage\<close> of src/src/daemon/authority.ts).
  A page is cut from the records sorted with \<open>localeCompare\<close>; the cursor of the next page is compared by code units.
  The walk of a client over the pages is complete when the two orders agree, and loses records when they do not.
\<close>

section \<open>Payloads\<close>

definition objectPayload :: "json \<Rightarrow> json result" where
  "objectPayload j = (if isRecord j then Inr j else throw ''Authority operation payload must be an object'')"

definition requiredString :: "json \<Rightarrow> string \<Rightarrow> string result" where
  "requiredString j label = (case jstr j of Some s \<Rightarrow> if s = [] then throw (label @ '' is required'') else Inr s
     | None \<Rightarrow> throw (label @ '' is required''))"

definition requiredVersion :: "json \<Rightarrow> int result" where
  "requiredVersion j = (case jint j of Some n \<Rightarrow> if \<bar>n\<bar> \<le> MAX_SAFE \<and> 0 \<le> n then Inr n
       else throw ''Expected version must be a non-negative safe integer''
     | None \<Rightarrow> throw ''Expected version must be a non-negative safe integer'')"

text \<open>\<open>a ?? b\<close>\<close>

definition nullish :: "json \<Rightarrow> json \<Rightarrow> json" where
  "nullish a b = (if a = JNull \<or> a = JUndef then b else a)"

definition MAX_INLINE_AUTHORITY_RESPONSE_BYTES :: nat where
  "MAX_INLINE_AUTHORITY_RESPONSE_BYTES = 768 * 1024"

definition DEFAULT_DECISION_PAGE_LIMIT :: int where
  "DEFAULT_DECISION_PAGE_LIMIT = 50"

definition MAX_DECISION_PAGE_LIMIT :: int where
  "MAX_DECISION_PAGE_LIMIT = 100"

text \<open>Bytes of the UTF-8 encoding.\<close>

definition utf8_length :: "string \<Rightarrow> nat" where
  "utf8_length s = sum_list (map (\<lambda>c. if (of_char c :: nat) < 128 then 1 else 2) s)"

definition jsonByteLength :: "platform \<Rightarrow> json \<Rightarrow> nat" where
  "jsonByteLength P j = utf8_length (stable_stringify (coll_key P) j)"

definition boundedAuthorityResponse :: "platform \<Rightarrow> json \<Rightarrow> string \<Rightarrow> json result" where
  "boundedAuthorityResponse P j label = (if MAX_INLINE_AUTHORITY_RESPONSE_BYTES < jsonByteLength P j
     then throw (label @ '' exceeds the safe IPC response budget. Use a query or artifact-backed export operation'') else Inr j)"

definition cursor_pattern :: "string \<Rightarrow> bool" where
  "cursor_pattern s = (case s of [] \<Rightarrow> False | c # r \<Rightarrow> is_alnum c \<and> length r \<le> 127 \<and> list_all (\<lambda>c. is_alnum c \<or> c \<in> set ''._:-'') r)"

definition object_keys :: "json \<Rightarrow> string list" where
  "object_keys j = (case j of JObj es \<Rightarrow> map fst es | _ \<Rightarrow> [])"

definition decisionPagePayload :: "json \<Rightarrow> (string option \<times> nat) result" where
  "decisionPagePayload value = bindE (objectPayload value) (\<lambda>p.
     case find (\<lambda>k. k \<notin> {''cursor'', ''limit''}) (object_keys p) of
       Some k \<Rightarrow> throw (''Decision list payload contains an unexpected field: '' @ k)
     | None \<Rightarrow>
       let cursor = nullish (member p ''cursor'') JNull; limit = nullish (member p ''limit'') (JNum DEFAULT_DECISION_PAGE_LIMIT) in
       if cursor \<noteq> JNull \<and> (case jstr cursor of None \<Rightarrow> True | Some c \<Rightarrow> \<not> cursor_pattern c) then throw ''Decision list cursor is invalid''
       else case jint limit of None \<Rightarrow> throw ''Decision list limit must be between 1 and 100''
       | Some n \<Rightarrow> if n < 1 \<or> MAX_DECISION_PAGE_LIMIT < n then throw ''Decision list limit must be between 1 and 100''
         else Inr (jstr cursor, nat n))"

section \<open>Pages\<close>

text \<open>What the three lists share: records with a key, in the order of \<open>localeCompare\<close>, from the cursor on.\<close>

definition eligible_from :: "('r \<Rightarrow> string) \<Rightarrow> string option \<Rightarrow> 'r list \<Rightarrow> 'r list" where
  "eligible_from key cursor rs = (case cursor of None \<Rightarrow> rs | Some c \<Rightarrow> filter (\<lambda>r. c < key r) rs)"

definition page_cut :: "platform \<Rightarrow> ('r \<Rightarrow> string) \<Rightarrow> 'r list \<Rightarrow> string option \<Rightarrow> nat \<Rightarrow> 'r list \<times> string option" where
  "page_cut P key rs cursor limit = (let eligible = eligible_from key cursor (sort_key (\<lambda>r. coll_key P (key r)) rs); page = take limit eligible in
     (page, if length page < length eligible then (case last_opt page of None \<Rightarrow> None | Some r \<Rightarrow> Some (key r)) else None))"

definition page_body :: "platform \<Rightarrow> json list \<Rightarrow> string option \<Rightarrow> nat \<Rightarrow> json" where
  "page_body P page cursor limit = (let body = [(''items'', JArr page), (''nextCursor'', jnull JStr cursor), (''limit'', JNum (int limit))] in
     JObj (body @ [(''pageHash'', JStr (hash_json P (JObj body)))]))"

definition normalize_decision :: "json \<Rightarrow> json result" where
  "normalize_decision v = bindE (objectPayload v) (\<lambda>cur.
     bindE (requiredString (member cur ''recordId'') ''Decision record id'') (\<lambda>rid.
     bindE (requiredString (member cur ''domain'') ''Decision record domain'') (\<lambda>d.
     bindE (requiredVersion (member cur ''version'')) (\<lambda>n.
     bindE (requiredString (member cur ''valueHash'') ''Decision record value hash'') (\<lambda>h.
     bindE (requiredString (member cur ''recordedAt'') ''Decision record time'') (\<lambda>t.
     Inr (JObj [(''domain'', JStr d), (''recordId'', JStr rid), (''version'', JNum n), (''valueHash'', JStr h),
       (''authority'', member cur ''authority''), (''recordedAt'', JStr t)])))))))"

definition decisionRecordPage :: "platform \<Rightarrow> json list \<Rightarrow> json \<Rightarrow> json result" where
  "decisionRecordPage P rs payload = bindE (decisionPagePayload payload) (\<lambda>(cursor, limit).
     bindE (mapE normalize_decision rs) (\<lambda>normalized.
     let (page, nextCursor) = page_cut P (\<lambda>r. text_of r ''recordId'') normalized cursor limit in
       boundedAuthorityResponse P (page_body P page nextCursor limit) ''Decision record page''))"

definition networkGrantSummary :: "stored_grant \<Rightarrow> json" where
  "networkGrantSummary r = (let e = sg_envelope r; g = member e ''grant'' in
     JObj [(''grantId'', JStr (sg_id r)), (''grantDigest'', JStr (sg_digest r)), (''providerId'', member g ''providerId''),
       (''manifestId'', member g ''manifestId''), (''manifestVersion'', member g ''manifestVersion''), (''approvedBy'', member e ''approvedBy''),
       (''keyId'', member e ''keyId''), (''issuedAt'', member g ''issuedAt''), (''expiresAt'', member g ''expiresAt''),
       (''requestBudget'', member g ''requestBudget''), (''registeredAt'', JStr (sg_recorded r))])"

definition networkGrantPage :: "platform \<Rightarrow> stored_grant list \<Rightarrow> json \<Rightarrow> json result" where
  "networkGrantPage P rs payload = bindE (decisionPagePayload payload) (\<lambda>(cursor, limit).
     let (page, nextCursor) = page_cut P (\<lambda>r. text_of r ''grantId'') (map networkGrantSummary rs) cursor limit in
       boundedAuthorityResponse P (page_body P page (if nextCursor = Some [] then None else nextCursor) limit) ''Network access grant page'')"

section \<open>Walking the pages\<close>

text \<open>A client that asks for page after page, with a bound on the number of requests. It is a model of a caller, over the
  cut of a page itself: the limit is one that \<open>decisionPagePayload\<close> accepts, the response stays below the size of a frame.\<close>

fun page_walk :: "platform \<Rightarrow> ('r \<Rightarrow> string) \<Rightarrow> 'r list \<Rightarrow> nat \<Rightarrow> nat \<Rightarrow> string option \<Rightarrow> 'r list option" where
  "page_walk P key rs limit 0 cursor = None"
| "page_walk P key rs limit (Suc n) cursor = (case page_cut P key rs cursor limit of
     (page, None) \<Rightarrow> Some page
   | (page, Some c) \<Rightarrow> map_option (\<lambda>xs. page @ xs) (page_walk P key rs limit n (Some c)))"

lemma eligible_rest:
  assumes "sorted (map key (ys @ zs))" and "distinct (map key (ys @ zs))" and "ys \<noteq> []"
  shows "eligible_from key (Some (key (last ys))) (ys @ zs) = zs"
proof -
  have "\<not> key (last ys) < key y" if "y \<in> set ys" for y
  proof -
    obtain us where "ys = us @ [last ys]" using assms(3) by (metis append_butlast_last_id)
    then have "sorted (map key (us @ [last ys]))" "y \<in> set (us @ [last ys])" using assms(1) that by (metis map_append sorted_append, metis)
    then show ?thesis by (auto simp: sorted_append)
  qed
  then have "filter (\<lambda>r. key (last ys) < key r) ys = []" by (simp add: filter_empty_conv)
  moreover have "key (last ys) < key z" if "z \<in> set zs" for z
  proof -
    have "key (last ys) \<le> key z" using assms(1,3) that by (auto simp: sorted_append)
    moreover have "key (last ys) \<noteq> key z" using assms(2,3) that by (metis (no_types, lifting) IntI distinct_append empty_iff imageI last_in_set list.set_map map_append)
    ultimately show ?thesis by simp
  qed
  then have "filter (\<lambda>r. key (last ys) < key r) zs = zs" by (simp add: filter_id_conv)
  ultimately show ?thesis by (simp add: eligible_from_def)
qed

lemma page_walk_rest:
  assumes "sort_key (\<lambda>r. coll_key P (key r)) rs = ys @ zs" and "sorted (map key (ys @ zs))" and "distinct (map key (ys @ zs))"
    and "1 \<le> limit" and "length zs < n" and "c = (if ys = [] then None else Some (key (last ys)))"
  shows "page_walk P key rs limit n c = Some zs"
  using assms(1-3,5,6)
proof (induction n arbitrary: ys zs c)
  case (Suc n)
  have el: "eligible_from key c (ys @ zs) = zs" using eligible_rest [OF Suc.prems(2,3)] Suc.prems(5) by (auto simp: eligible_from_def)
  show ?case
  proof (cases "length zs \<le> limit")
    case True
    then show ?thesis by (simp add: page_cut_def Suc.prems(1) el Let_def)
  next
    case False
    let ?p = "take limit zs"
    have p: "?p \<noteq> []" "length ?p = limit" "last_opt ?p = Some (last ?p)" using False assms(4) by (auto simp: last_opt_def)
    have cut: "page_cut P key rs c limit = (?p, Some (key (last ?p)))"
      using False p by (simp add: page_cut_def Suc.prems(1) el Let_def)
    have "page_walk P key rs limit n (Some (key (last ?p))) = Some (drop limit zs)"
      by (rule Suc.IH [of "ys @ ?p"]) (use Suc.prems p assms(4) False in \<open>simp_all\<close>)
    then show ?thesis by (simp add: cut)
  qed
qed simp

section \<open>Properties\<close>

text \<open>C34: When the collation orders the identifiers as their code units do, a client that follows the cursors receives every record
  exactly once, in order, after at most one request per record and one more.\<close>

theorem pages_complete:
  assumes "1 \<le> limit" and "distinct (map key rs)"
    and "\<And>r s. r \<in> set rs \<Longrightarrow> s \<in> set rs \<Longrightarrow> coll_key P (key r) \<le> coll_key P (key s) \<longleftrightarrow> key r \<le> key s"
  shows "page_walk P key rs limit (Suc (length rs)) None = Some (sort_key key rs)"
proof -
  let ?s = "sort_key (\<lambda>r. coll_key P (key r)) rs"
  have c: "sorted (map (\<lambda>r. coll_key P (key r)) ?s)" by simp
  have s: "sorted (map key ?s)" unfolding sorted_map
    by (rule sorted_wrt_mono_rel [OF _ c [unfolded sorted_map]]) (simp add: assms(3))
  have d: "distinct (map key ?s)" using assms(2) by (simp add: distinct_map)
  have "page_walk P key rs limit (Suc (length rs)) None = Some ?s"
    by (rule page_walk_rest [where ys = "[]"]) (use s d assms(1) in simp_all)
  moreover have "?s = sort_key key rs"
  proof (rule map_sorted_distinct_set_unique [where f = key, symmetric])
    show "inj_on key (set (sort_key key rs) \<union> set ?s)" using assms(2) by (simp add: distinct_map)
  qed (use s d assms(2) in \<open>simp_all add: distinct_map\<close>)
  ultimately show ?thesis by simp
qed

theorem pages_complete_witness:
  "page_walk sample_platform (\<lambda>s. s) [''b'', ''c'', ''a''] 2 4 None = Some [''a'', ''b'', ''c'']"
proof -
  have "page_walk sample_platform (\<lambda>s. s) [''b'', ''c'', ''a''] 2 (Suc (length [''b'', ''c'', ''a''])) None = Some (sort_key (\<lambda>s. s) [''b'', ''c'', ''a''])"
    by (rule pages_complete) (simp_all add: sample_platform_def)
  moreover have "sort_key (\<lambda>s. s) [''b'', ''c'', ''a''] = [''a'', ''b'', ''c'']" by code_simp
  moreover have "Suc (length [''b'', ''c'', ''a'']) = 4" by simp
  ultimately show ?thesis by (simp only:)
qed

text \<open>A collation that orders letters before their case, as the collations of ICU do.\<close>

definition folding_platform :: platform where
  "folding_platform = sample_platform\<lparr>coll_key := to_lower\<rparr>"

text \<open>When the collation orders letters before their case, a client that follows the cursors to the end misses records: of the identifiers
  map-a and map-B it only ever receives map-a.\<close>

lemma pages_miss_records:
  "page_walk folding_platform (\<lambda>s. s) [''map-a'', ''map-B''] 1 3 None = Some [''map-a'']"
  by code_simp

end
