(* ===== verification/RuntimeRepository.thy ===== *)
theory RuntimeRepository
  imports ProductStore AuthorityPages AutoApply SubmissionProof
begin

text \<open>
  The runtime repository (src/src/storage/runtime-repository.ts): the auto-apply configuration, the action ledger and the registries
  of trusted approvers and collectors, each read from the events of the encrypted store. The configuration in force is the one
  of the latest event that carries one; a registry is what registrations and revocations leave in the order of the events.
\<close>

section \<open>Values\<close>

text \<open>A value in a condition.\<close>

definition truthy :: "json \<Rightarrow> bool" where
  "truthy j = (j \<notin> {JUndef, JNull, JBool False, JNum 0, JStr []})"

definition mode_of :: "string \<Rightarrow> apply_mode" where
  "mode_of s = (if s = ''auto'' then Auto else if s = ''draft-only'' then DraftOnly else Manual)"

definition strings_of :: "json \<Rightarrow> string list" where
  "strings_of j = (case j of JArr vs \<Rightarrow> List.map_filter jstr vs | _ \<Rightarrow> [])"

definition jbool :: "json \<Rightarrow> bool option" where
  "jbool j = (case j of JBool b \<Rightarrow> Some b | _ \<Rightarrow> None)"

text \<open>A stored configuration seen at its interface type; the schema was checked before.\<close>

definition kill_switch_of :: "json \<Rightarrow> kill_switch" where
  "kill_switch_of j = \<lparr>ks_available = bool_at j ''available'', ks_engaged = bool_at j ''engaged'', ks_engaged_at = jstr (member j ''engagedAt''),
     ks_engaged_by = jstr (member j ''engagedBy''), ks_reason = jstr (member j ''reason'')\<rparr>"

definition per_opportunity_of :: "json \<Rightarrow> per_opportunity" where
  "per_opportunity_of j = \<lparr>po_mode = map_option mode_of (jstr (member j ''mode'')), po_excluded = jbool (member j ''excluded'')\<rparr>"

definition config_of :: "json \<Rightarrow> auto_apply_config" where
  "config_of j = \<lparr>cf_enabled = bool_at j ''enabled'', cf_mode = mode_of (text_of j ''mode''), cf_kill = kill_switch_of (member j ''killSwitch''),
     cf_max_per_day = int_at (member j ''rateLimit'') ''maxPerDay'', cf_cooldown_until = jstr (member (member j ''rateLimit'') ''cooldownUntil''),
     cf_adapters = strings_of (member j ''adapterAllowlist''),
     cf_per_opportunity = (case member j ''perOpportunity'' of JObj es \<Rightarrow> map (\<lambda>(k, v). (k, per_opportunity_of v)) es | _ \<Rightarrow> []),
     cf_exclusions = strings_of (member j ''exclusionRules'')\<rparr>"

definition approver_json :: "trusted_approver \<Rightarrow> json" where
  "approver_json t = JObj [(''approvedBy'', JStr (ta_by t)), (''keyId'', JStr (ta_key t)), (''publicKeyPem'', JStr (ta_pem t))]"

definition approver_of :: "json \<Rightarrow> trusted_approver" where
  "approver_of j = \<lparr>ta_by = text_of j ''approvedBy'', ta_key = text_of j ''keyId'', ta_pem = text_of j ''publicKeyPem''\<rparr>"

definition kind_of :: "string \<Rightarrow> proof_kind option" where
  "kind_of s = find (\<lambda>k. proof_kind_str k = s) [ConfirmationPage, AtsDashboard, SentItems, ReceiptEmail]"

definition collector_of :: "json \<Rightarrow> trusted_collector" where
  "collector_of j = \<lparr>tc_id = text_of j ''collectorId'', tc_key = text_of j ''keyId'', tc_pem = text_of j ''publicKeyPem'',
     tc_adapters = strings_of (member j ''allowedAdapters''), tc_domains = strings_of (member j ''allowedSourceDomains''),
     tc_kinds = List.map_filter kind_of (strings_of (member j ''allowedKinds''))\<rparr>"

section \<open>The configuration\<close>

text \<open>\<open>payload.config ?? payload.response ?? payload.value?.config\<close>\<close>

definition configFromEvent :: "platform \<Rightarrow> stored_event \<Rightarrow> json option result" where
  "configFromEvent P e = bindE (prop_of (se_payload e) ''config'') (\<lambda>c.
     let config = nullish (nullish c (member (se_payload e) ''response'')) (member (member (se_payload e) ''value'') ''config'') in
     if \<not> truthy config then Inr None
     else bindE (assertSchema P ''auto-apply-config'' config) (\<lambda>_. Inr (Some config)))"

fun first_config :: "platform \<Rightarrow> stored_event list \<Rightarrow> json option result" where
  "first_config P [] = Inr None"
| "first_config P (e # es) = bindE (configFromEvent P e) (\<lambda>c. case c of Some j \<Rightarrow> Inr (Some j) | None \<Rightarrow> first_config P es)"

definition loadAutoApplyConfig :: "platform \<Rightarrow> crypto \<Rightarrow> store \<Rightarrow> auto_apply_config result" where
  "loadAutoApplyConfig P C st = bindE (readAggregate P C st ''runtime-config'' ''auto-apply'') (\<lambda>es.
     bindE (first_config P (rev es)) (\<lambda>c. Inr (case c of Some j \<Rightarrow> config_of j | None \<Rightarrow> defaultAutoApplyConfig)))"

definition with_metadata :: "json option \<Rightarrow> (string \<times> json) list" where
  "with_metadata m = (case m of Some j \<Rightarrow> [(''metadata'', j)] | None \<Rightarrow> [])"

definition config_input :: "auto_apply_config \<Rightarrow> string option \<Rightarrow> string \<Rightarrow> int \<Rightarrow> json option \<Rightarrow> append_input" where
  "config_input config eid ty now metadata = \<lparr>ae_id = eid, ae_aggregate_type = ''runtime-config'', ae_aggregate = ''auto-apply'', ae_type = ty,
     ae_version = 1, ae_payload = JObj ((''config'', config_json config) # with_metadata metadata), ae_time = now\<rparr>"

definition saveAutoApplyConfig ::
  "platform \<Rightarrow> crypto \<Rightarrow> auto_apply_config \<Rightarrow> string option \<Rightarrow> string \<Rightarrow> int \<Rightarrow> json option \<Rightarrow> string \<Rightarrow> string \<Rightarrow> string \<Rightarrow> store \<Rightarrow>
   (store \<times> string) result" where
  "saveAutoApplyConfig P C config eid ty now metadata uuid n n' st = bindE (assertSchema P ''auto-apply-config'' (config_json config)) (\<lambda>_.
     bindE (append_event P C st (config_input config eid ty now metadata) uuid n n') (\<lambda>(st', ev). Inr (st', se_id ev)))"

section \<open>The ledger\<close>

definition ledgerEntryFromEvent :: "platform \<Rightarrow> stored_event \<Rightarrow> json option result" where
  "ledgerEntryFromEvent P e = bindE (prop_of (se_payload e) ''entry'') (\<lambda>x.
     let entry = nullish x (member (member (se_payload e) ''value'') ''entry'') in
     if \<not> truthy entry then Inr None
     else bindE (assertSchema P ''action-ledger-entry'' entry) (\<lambda>_. Inr (Some entry)))"

text \<open>The entries of one event: its own, and the one a confirmation embeds.\<close>

definition event_entries :: "platform \<Rightarrow> stored_event \<Rightarrow> json list result" where
  "event_entries P e =
     bindE (if se_aggregate_type e = ''action-ledger''
            then bindE (ledgerEntryFromEvent P e) (\<lambda>x. Inr (case x of Some j \<Rightarrow> [j] | None \<Rightarrow> [])) else Inr []) (\<lambda>xs.
     bindE (prop_of (se_payload e) ''audit'') (\<lambda>a. let embedded = member a ''ledgerEntry'' in
     if \<not> truthy embedded then Inr xs
     else bindE (assertSchema P ''action-ledger-entry'' embedded) (\<lambda>_. Inr (xs @ [embedded]))))"

definition readStoredLedger :: "platform \<Rightarrow> crypto \<Rightarrow> store \<Rightarrow> json list result" where
  "readStoredLedger P C st = bindE (readAll P C st) (\<lambda>es. bindE (mapE (event_entries P) es) (\<lambda>xss. Inr (concat xss)))"

definition appendStoredEntry ::
  "platform \<Rightarrow> crypto \<Rightarrow> ledger_entry \<Rightarrow> string option \<Rightarrow> int \<Rightarrow> string \<Rightarrow> string \<Rightarrow> string \<Rightarrow> store \<Rightarrow> (store \<times> string) result" where
  "appendStoredEntry P C entry eid now uuid n n' st = bindE (assertSchema P ''action-ledger-entry'' (ledger_entry_json entry)) (\<lambda>_.
     bindE (readStoredLedger P C st) (\<lambda>existing.
     if \<exists>x \<in> set existing. member x ''actionId'' = JStr (le_id entry) then throw (''Duplicate action id: '' @ le_id entry)
     else bindE (append_event P C st \<lparr>ae_id = eid, ae_aggregate_type = ''action-ledger'', ae_aggregate = le_id entry,
         ae_type = ''action-ledger-entry-recorded'', ae_version = 1, ae_payload = JObj [(''entry'', ledger_entry_json entry)],
         ae_time = now\<rparr> uuid n n') (\<lambda>(st', ev). Inr (st', se_id ev))))"

definition summarize_entry :: "(string \<times> nat) list \<Rightarrow> json \<Rightarrow> (string \<times> nat) list" where
  "summarize_entry summary e = (let s = bump (string_of (member e ''result'')) summary in
     if truthy (member e ''blockedBy'') then bump (''blocked:'' @ string_of (member e ''blockedBy'')) s else s)"

definition summarizeStoredLedger :: "platform \<Rightarrow> crypto \<Rightarrow> store \<Rightarrow> (string \<times> nat) list result" where
  "summarizeStoredLedger P C st = bindE (readStoredLedger P C st) (\<lambda>es. Inr (foldl summarize_entry [] es))"

section \<open>The registries\<close>

type_synonym registry = "(json \<times> json) list"

text \<open>One event of a registry: \<open>field\<close> names the registered value, \<open>check\<close> is its schema.\<close>

definition registry_step :: "string \<Rightarrow> (json \<Rightarrow> unit result) \<Rightarrow> registry \<Rightarrow> stored_event \<Rightarrow> registry result" where
  "registry_step field check reg e = bindE (prop_of (se_payload e) ''response'') (\<lambda>r. let x = member r field; k = member r ''keyId'' in
     bindE (if member r ''action'' = JStr ''registered'' \<and> truthy x
            then bindE (check x) (\<lambda>_. Inr (upsert (member x ''keyId'') x reg)) else Inr reg) (\<lambda>reg'.
     Inr (if member r ''action'' = JStr ''revoked'' \<and> truthy k then filter (\<lambda>e. fst e \<noteq> k) reg' else reg')))"

fun registry_run :: "string \<Rightarrow> (json \<Rightarrow> unit result) \<Rightarrow> registry \<Rightarrow> stored_event list \<Rightarrow> registry result" where
  "registry_run field check reg [] = Inr reg"
| "registry_run field check reg (e # es) = bindE (registry_step field check reg e) (\<lambda>reg'. registry_run field check reg' es)"

definition sorted_by_key :: "platform \<Rightarrow> registry \<Rightarrow> json list" where
  "sorted_by_key P reg = sort_key (\<lambda>j. coll_key P (string_of (member j ''keyId''))) (map snd reg)"

definition approver_event :: "stored_event \<Rightarrow> bool" where
  "approver_event e = (se_type e = ''approver-register-completed'' \<or> se_type e = ''approver-revoke-completed'')"

definition collector_event :: "stored_event \<Rightarrow> bool" where
  "collector_event e = (se_type e = ''collector-register-completed'' \<or> se_type e = ''collector-revoke-completed'')"

definition storedApprovers :: "platform \<Rightarrow> crypto \<Rightarrow> store \<Rightarrow> json list result" where
  "storedApprovers P C st = bindE (readAll P C st) (\<lambda>es.
     bindE (registry_run ''approver'' (\<lambda>_. Inr ()) [] (filter approver_event es)) (\<lambda>reg. Inr (sorted_by_key P reg)))"

definition storedCollectors :: "platform \<Rightarrow> crypto \<Rightarrow> store \<Rightarrow> json list result" where
  "storedCollectors P C st = bindE (readAll P C st) (\<lambda>es.
     bindE (registry_run ''collector'' (assertSchema P ''trusted-collector'') [] (filter collector_event es)) (\<lambda>reg. Inr (sorted_by_key P reg)))"

text \<open>The registries at their interface types.\<close>

definition listTrustedApprovers :: "platform \<Rightarrow> crypto \<Rightarrow> store \<Rightarrow> trusted_approver list result" where
  "listTrustedApprovers P C st = bindE (storedApprovers P C st) (\<lambda>js. Inr (map approver_of js))"

definition listTrustedCollectors :: "platform \<Rightarrow> crypto \<Rightarrow> store \<Rightarrow> trusted_collector list result" where
  "listTrustedCollectors P C st = bindE (storedCollectors P C st) (\<lambda>js. Inr (map collector_of js))"

end
