(* ===== verification/LegacyImport.thy ===== *)
theory LegacyImport
  imports RuntimeRepository Credentials
begin

text \<open>
  The import of legacy files (src/src/storage/legacy-import.ts): the files of an older runtime are read into a plan of candidates,
  and a reviewed plan, named by its hash, is written to the event store with a receipt for every candidate. State file names are
  encoded keys (src/src/state.ts). Buffer's conversions between text and base64url, and the messages of \<open>JSON.parse\<close>, are parameters; a file that exists is read.
\<close>

section \<open>State keys\<close>

record legacy_host =
  lh_encode :: "string \<Rightarrow> string"
  lh_decode :: "string \<Rightarrow> string"
  lh_message :: "string \<Rightarrow> string"

definition encodeStateKey :: "legacy_host \<Rightarrow> string \<Rightarrow> string result" where
  "encodeStateKey H key = (if key = [] then throw ''State key cannot be empty'' else Inr (lh_encode H key))"

definition decodeStateKey :: "legacy_host \<Rightarrow> string \<Rightarrow> string result" where
  "decodeStateKey H encoded = (if encoded = [] \<or> \<not> list_all (\<lambda>c. is_alnum c \<or> c \<in> set ''_-'') encoded
     then throw ''State filename is not canonical Base64URL''
     else let decoded = lh_decode H encoded in
     if decoded = [] \<or> encodeStateKey H decoded \<noteq> Inr encoded then throw ''State filename is not a canonical encoded state key''
     else Inr decoded)"

text \<open>\<open>k in record\<close>\<close>

definition has_key :: "json \<Rightarrow> string \<Rightarrow> bool" where
  "has_key j k = (case j of JObj es \<Rightarrow> k \<in> fst ` set es | _ \<Rightarrow> False)"

definition inferSchemaName :: "string \<Rightarrow> json \<Rightarrow> string option" where
  "inferSchemaName key v = (
     if starts_with ''auto-apply:config'' key then Some ''auto-apply-config''
     else if starts_with ''claim-graph'' key then Some ''claim-graph''
     else if starts_with ''application-packet'' key then Some ''application-packet''
     else if starts_with ''action-ledger-entry'' key then Some ''action-ledger-entry''
     else if starts_with ''mode-output'' key then Some ''mode-output''
     else if starts_with ''opportunity-score'' key then Some ''opportunity-score''
     else if has_key v ''claims'' \<and> has_key v ''validationSummary'' then Some ''claim-graph''
     else if has_key v ''packetHash'' \<and> has_key v ''approvalRequired'' then Some ''application-packet''
     else if has_key v ''killSwitch'' \<and> has_key v ''adapterAllowlist'' then Some ''auto-apply-config''
     else if has_key v ''mode'' \<and> has_key v ''highStakesCertaintyGate'' then Some ''mode-output''
     else if has_key v ''compositeScore'' \<and> has_key v ''dimensions'' then Some ''opportunity-score''
     else None)"

section \<open>Candidates\<close>

datatype legacy_kind = LegacyState | LegacyConfig | LegacyLedger

fun legacy_kind_str :: "legacy_kind \<Rightarrow> string" where
  "legacy_kind_str LegacyState = ''state''"
| "legacy_kind_str LegacyConfig = ''auto-apply-config''"
| "legacy_kind_str LegacyLedger = ''action-ledger''"

record import_candidate =
  ic_kind :: legacy_kind
  ic_digest :: string
  ic_locator :: string
  ic_event :: string
  ic_aggregate_type :: string
  ic_aggregate :: string
  ic_type :: string
  ic_payload :: json

definition opaqueHash :: "platform \<Rightarrow> string \<Rightarrow> string" where
  "opaqueHash P v = drop 7 (sha256 P v)"

definition createCandidate :: "platform \<Rightarrow> legacy_kind \<Rightarrow> string \<Rightarrow> string \<Rightarrow> string \<Rightarrow> string \<Rightarrow> json \<Rightarrow> import_candidate" where
  "createCandidate P kind locator aty ag ty payload = (let lh = sha256 P locator;
       digest = hash_json P (JObj [(''sourceKind'', JStr (legacy_kind_str kind)), (''sourceLocatorHash'', JStr lh), (''payload'', payload)]) in
     \<lparr>ic_kind = kind, ic_digest = digest, ic_locator = lh, ic_event = ''EVT-LEGACY-'' @ opaqueHash P digest, ic_aggregate_type = aty,
      ic_aggregate = ag, ic_type = ty, ic_payload = payload\<rparr>)"

definition config_candidate :: "platform \<Rightarrow> json \<Rightarrow> import_candidate" where
  "config_candidate P config = createCandidate P LegacyConfig ''auto-apply-config'' ''runtime-config'' ''auto-apply''
     ''legacy-auto-apply-config-imported'' (JObj [(''config'', config)])"

section \<open>Collecting\<close>

text \<open>What the loop over the files has gathered; the keys are the state keys, or the action identifiers of a ledger.\<close>

record collected =
  cl_keys :: "json list"
  cl_candidates :: "import_candidate list"
  cl_warnings :: "string list"
  cl_errors :: "string list"

definition add_key :: "json \<Rightarrow> collected \<Rightarrow> collected" where
  "add_key k c = c\<lparr>cl_keys := k # cl_keys c\<rparr>"

definition add_candidate :: "import_candidate \<Rightarrow> collected \<Rightarrow> collected" where
  "add_candidate x c = c\<lparr>cl_candidates := cl_candidates c @ [x]\<rparr>"

definition add_warning :: "string \<Rightarrow> collected \<Rightarrow> collected" where
  "add_warning x c = c\<lparr>cl_warnings := cl_warnings c @ [x]\<rparr>"

definition add_error :: "string \<Rightarrow> collected \<Rightarrow> collected" where
  "add_error x c = c\<lparr>cl_errors := cl_errors c @ [x]\<rparr>"

definition JSON_parse :: "legacy_host \<Rightarrow> string \<Rightarrow> json result" where
  "JSON_parse H text = (case json_parse text of None \<Rightarrow> throw (lh_message H text) | Some j \<Rightarrow> Inr j)"

definition state_candidate :: "platform \<Rightarrow> string \<Rightarrow> string option \<Rightarrow> json \<Rightarrow> import_candidate" where
  "state_candidate P key schema v = createCandidate P LegacyState (''state:'' @ key) ''legacy-state''
     (''STATE-'' @ take 48 (opaqueHash P key)) ''legacy-state-imported''
     (JObj [(''key'', JStr key), (''schemaName'', jnull JStr schema), (''value'', v)])"

definition collect_state_file :: "platform \<Rightarrow> legacy_host \<Rightarrow> string \<times> string \<Rightarrow> collected \<Rightarrow> collected" where
  "collect_state_file P H f c = (let reference = sha256 P (''legacy-state-file:'' @ fst f);
       failed = (\<lambda>c msg. add_error (''State file '' @ reference @ '': '' @ msg) c) in
     case decodeStateKey H (take (length (fst f) - 5) (fst f)) of
       Inl (Error msg) \<Rightarrow> failed c msg
     | Inr key \<Rightarrow> if JStr key \<in> set (cl_keys c) then failed c (''duplicate logical state key hash: '' @ sha256 P key)
         else let c1 = add_key (JStr key) c in case JSON_parse H (snd f) of
           Inl (Error msg) \<Rightarrow> failed c1 msg
         | Inr v \<Rightarrow> (case inferSchemaName key v of
             Some n \<Rightarrow> (case assertSchema P n v of
                 Inl (Error msg) \<Rightarrow> failed c1 msg
               | Inr _ \<Rightarrow> add_candidate (state_candidate P key (Some n) v) c1)
           | None \<Rightarrow> add_candidate (state_candidate P key None v)
               (add_warning (''State entry '' @ reference @ '' has no inferred schema and will be imported as opaque validated JSON'') c1)))"

definition collectStateCandidates :: "platform \<Rightarrow> legacy_host \<Rightarrow> (string \<times> string) list option \<Rightarrow> collected \<Rightarrow> collected" where
  "collectStateCandidates P H files c = (case files of None \<Rightarrow> c
     | Some fs \<Rightarrow> fold (collect_state_file P H) (sort_key fst (filter (\<lambda>f. ends_with ''.json'' (fst f)) fs)) (c\<lparr>cl_keys := []\<rparr>))"

definition collectConfigCandidate :: "platform \<Rightarrow> legacy_host \<Rightarrow> string option \<Rightarrow> collected \<Rightarrow> collected" where
  "collectConfigCandidate P H text c = (case text of None \<Rightarrow> c | Some t \<Rightarrow>
     (case bindE (JSON_parse H t) (\<lambda>config. bindE (assertSchema P ''auto-apply-config'' config) (\<lambda>_. Inr config)) of
        Inl (Error msg) \<Rightarrow> add_error (''Auto apply config: '' @ msg) c
      | Inr config \<Rightarrow> add_candidate (config_candidate P config) c))"

text \<open>\<open>text.split(/\r?\n/)\<close>\<close>

definition strip_cr :: "string \<Rightarrow> string" where
  "strip_cr s = (if s \<noteq> [] \<and> last s = CHR 0x0D then butlast s else s)"

definition split_lines :: "string \<Rightarrow> string list" where
  "split_lines t = (let ls = split_on (CHR 0x0A) t in map strip_cr (butlast ls) @ [last ls])"

definition ledger_candidate :: "platform \<Rightarrow> json \<Rightarrow> import_candidate" where
  "ledger_candidate P entry = (let aid = string_of (member entry ''actionId'') in createCandidate P LegacyLedger (''action-ledger:'' @ aid)
     ''action-ledger'' aid ''legacy-action-ledger-entry-imported'' (JObj [(''entry'', entry)]))"

definition collect_ledger_line :: "platform \<Rightarrow> legacy_host \<Rightarrow> string \<Rightarrow> nat \<Rightarrow> nat \<times> string \<Rightarrow> collected \<Rightarrow> collected" where
  "collect_ledger_line P H text n l c = (if snd l = [] then c else
     let failed = (\<lambda>msg. add_error (''Action ledger line '' @ nat_str (fst l + 1) @
           (if fst l + 1 = n \<and> \<not> ends_with [CHR 0x0A] text then '' (unterminated final line)'' else []) @ '': '' @ msg) c) in
     case bindE (JSON_parse H (snd l)) (\<lambda>entry. bindE (assertSchema P ''action-ledger-entry'' entry) (\<lambda>_. Inr entry)) of
       Inl (Error msg) \<Rightarrow> failed msg
     | Inr entry \<Rightarrow> if member entry ''actionId'' \<in> set (cl_keys c) then failed (''duplicate action id '' @ string_of (member entry ''actionId''))
         else add_candidate (ledger_candidate P entry) (add_key (member entry ''actionId'') c))"

definition collectLedgerCandidates :: "platform \<Rightarrow> legacy_host \<Rightarrow> string option \<Rightarrow> collected \<Rightarrow> collected" where
  "collectLedgerCandidates P H text c = (case text of None \<Rightarrow> c
     | Some t \<Rightarrow> let ls = split_lines t in fold (collect_ledger_line P H t (length ls)) (enumerate 0 ls) (c\<lparr>cl_keys := []\<rparr>))"

section \<open>The plan\<close>

record legacy_files =
  lf_state :: "(string \<times> string) list option"
  lf_config :: "string option"
  lf_ledger :: "string option"

record import_plan =
  ip_valid :: bool
  ip_hash :: string
  ip_candidates :: "import_candidate list"
  ip_warnings :: "string list"
  ip_errors :: "string list"

definition candidate_json :: "import_candidate \<Rightarrow> json" where
  "candidate_json c = JObj [(''sourceKind'', JStr (legacy_kind_str (ic_kind c))), (''sourceDigest'', JStr (ic_digest c)),
     (''sourceLocatorHash'', JStr (ic_locator c)), (''eventId'', JStr (ic_event c)), (''aggregateType'', JStr (ic_aggregate_type c)),
     (''aggregateId'', JStr (ic_aggregate c)), (''eventType'', JStr (ic_type c)), (''payload'', ic_payload c)]"

definition kind_counts :: "import_candidate list \<Rightarrow> json" where
  "kind_counts cs = JObj (map (\<lambda>k. (legacy_kind_str k, JNum (int (length (filter (\<lambda>c. ic_kind c = k) cs)))))
     [LegacyState, LegacyConfig, LegacyLedger])"

definition plan_body :: "import_candidate list \<Rightarrow> string list \<Rightarrow> string list \<Rightarrow> json" where
  "plan_body cs warnings errors = JObj [(''version'', JNum 1), (''sourceCounts'', kind_counts cs),
     (''candidates'', JArr (map candidate_json cs)), (''warnings'', jstrs warnings), (''errors'', jstrs errors)]"

definition planLegacyImport :: "platform \<Rightarrow> legacy_host \<Rightarrow> legacy_files \<Rightarrow> import_plan" where
  "planLegacyImport P H fs = (let c = collectLedgerCandidates P H (lf_ledger fs) (collectConfigCandidate P H (lf_config fs)
         (collectStateCandidates P H (lf_state fs) \<lparr>cl_keys = [], cl_candidates = [], cl_warnings = [], cl_errors = []\<rparr>));
       cs = sort_key (\<lambda>x. coll_key P (ic_event x)) (cl_candidates c); warnings = sort (cl_warnings c); errors = sort (cl_errors c) in
     \<lparr>ip_valid = (cl_errors c = []), ip_hash = hash_json P (plan_body cs warnings errors), ip_candidates = cs, ip_warnings = warnings,
      ip_errors = errors\<rparr>)"

section \<open>Applying\<close>

definition import_payload :: "import_candidate \<Rightarrow> json" where
  "import_payload c = JObj [(''source'', JObj [(''kind'', JStr (legacy_kind_str (ic_kind c))), (''digest'', JStr (ic_digest c)),
     (''locatorHash'', JStr (ic_locator c))]), (''value'', ic_payload c)]"

definition assertAuthenticatedImportEvent :: "platform \<Rightarrow> crypto \<Rightarrow> store \<Rightarrow> import_candidate \<Rightarrow> unit result" where
  "assertAuthenticatedImportEvent P C st c = bindE (readEvent P C st (ic_event c)) (\<lambda>e.
     let refused = throw (''Legacy import receipt is not bound to an authenticated event for '' @ ic_digest c) in
     case e of None \<Rightarrow> refused
     | Some ev \<Rightarrow> if se_aggregate_type ev \<noteq> ic_aggregate_type c \<or> se_aggregate ev \<noteq> ic_aggregate c \<or> se_type ev \<noteq> ic_type c \<or>
           se_version ev \<noteq> 1 \<or> stable_stringify (coll_key P) (se_payload ev) \<noteq> stable_stringify (coll_key P) (import_payload c)
         then refused else Inr ())"

definition import_input :: "import_candidate \<Rightarrow> int \<Rightarrow> append_input" where
  "import_input c now = \<lparr>ae_id = Some (ic_event c), ae_aggregate_type = ic_aggregate_type c, ae_aggregate = ic_aggregate c,
     ae_type = ic_type c, ae_version = 1, ae_payload = import_payload c, ae_time = now\<rparr>"

definition import_receipt :: "import_candidate \<Rightarrow> int \<Rightarrow> legacy_receipt" where
  "import_receipt c now = \<lparr>lr_digest = ic_digest c, lr_kind = legacy_kind_str (ic_kind c), lr_locator = ic_locator c,
     lr_event = ic_event c, lr_imported = to_iso now\<rparr>"

text \<open>One turn of the loop; the outcome says whether the candidate was imported now.\<close>

definition importCandidate :: "platform \<Rightarrow> crypto \<Rightarrow> int \<Rightarrow> string \<Rightarrow> string \<Rightarrow> import_candidate \<Rightarrow> (store, bool) action" where
  "importCandidate P C now n n' c st = (case findLegacyImportReceipt st (ic_digest c) of
       Some r \<Rightarrow> (st, if lr_event r \<noteq> ic_event c \<or> lr_kind r \<noteq> legacy_kind_str (ic_kind c) \<or> lr_locator r \<noteq> ic_locator c
           then throw (''Legacy import receipt conflict for '' @ ic_digest c)
           else bindE (assertAuthenticatedImportEvent P C st c) (\<lambda>_. Inr False))
     | None \<Rightarrow> (case bindE (hasEvent st (ic_event c)) (\<lambda>present.
           if present then bindE (assertAuthenticatedImportEvent P C st c) (\<lambda>_. Inr (st, False))
           else bindE (append_event P C st (import_input c now) [] n n') (\<lambda>(st1, ev). Inr (st1, True))) of
         Inl e \<Rightarrow> (st, Inl e)
       | Inr (st1, imported) \<Rightarrow> (case recordLegacyImportReceipt st1 (import_receipt c now) of
           Inl e \<Rightarrow> (st1, Inl e) | Inr st2 \<Rightarrow> (st2, Inr imported))))"

text \<open>The nonces of the events are \<open>rnd 0\<close>, \<open>rnd 1\<close> and so on.\<close>

fun importCandidates :: "platform \<Rightarrow> crypto \<Rightarrow> int \<Rightarrow> (nat \<Rightarrow> string \<times> string) \<Rightarrow> import_candidate list \<Rightarrow> (store, bool list) action" where
  "importCandidates P C now rnd [] st = (st, Inr [])"
| "importCandidates P C now rnd (c # cs) st =
     bindS (importCandidate P C now (fst (rnd 0)) (snd (rnd 0)) c) (\<lambda>b.
     bindS (importCandidates P C now (rnd \<circ> Suc) cs) (\<lambda>bs. liftS (Inr (b # bs)))) st"

record import_result =
  ir_plan :: string
  ir_imported :: nat
  ir_already :: nat
  ir_events :: "string list"

definition applyLegacyImport ::
  "platform \<Rightarrow> crypto \<Rightarrow> import_plan \<Rightarrow> string \<Rightarrow> int \<Rightarrow> (nat \<Rightarrow> string \<times> string) \<Rightarrow> (store, import_result) action" where
  "applyLegacyImport P C plan expected now rnd st = (
     if \<not> ip_valid plan then (st, throw ''Invalid legacy import plan cannot be applied'')
     else if expected \<noteq> ip_hash plan then (st, throw ''Legacy import plan hash does not match approval'')
     else bindS (importCandidates P C now rnd (ip_candidates plan)) (\<lambda>bs.
       liftS (Inr \<lparr>ir_plan = ip_hash plan, ir_imported = length (filter id bs), ir_already = length (filter Not bs),
         ir_events = map ic_event (ip_candidates plan)\<rparr>)) st)"

end
