(* ===== verification/RuntimeAuthority.thy ===== *)
theory RuntimeAuthority
  imports RuntimeRepository ApplicationTracker CredentialRecords Checkpoint
begin

text \<open>
  The core of the daemon's authority (src/src/daemon/authority.ts): a request that changes state is checked against the signed
  checkpoints, answered from its event when it was executed before, and otherwise dispatched to its operation, whose
  event carries the request's hash and response. Modelled are the operations on the auto-apply configuration and the
  registries of approvers and collectors, the application tracker and the credential mapping plans.
\<close>

record authority_request =
  rq_id :: string
  rq_operation :: string
  rq_payload :: json

definition assertRequestId :: "string \<Rightarrow> unit result" where
  "assertRequestId s = (if operation_id_pattern s then Inr () else throw ''Authority request id is invalid'')"

definition authorityRequestHash :: "platform \<Rightarrow> authority_request \<Rightarrow> string" where
  "authorityRequestHash P rq = hash_json P (JObj [(''operation'', JStr (rq_operation rq)), (''payload'', rq_payload rq)])"

definition eventIdForRequest :: "platform \<Rightarrow> string \<Rightarrow> string" where
  "eventIdForRequest P q = ''EVT-CMD-'' @ drop 7 (sha256 P q)"

definition authorityBinding :: "stored_event \<Rightarrow> json result" where
  "authorityBinding e = bindE (prop_of (se_payload e) ''authority'') (\<lambda>a.
     Inr (nullish (nullish a (member (member (se_payload e) ''metadata'') ''authority'')) JNull))"

definition authorityResponse :: "stored_event \<Rightarrow> json result" where
  "authorityResponse e = (if member (se_payload e) ''response'' \<noteq> JUndef then Inr (member (se_payload e) ''response'')
     else if member (se_payload e) ''config'' \<noteq> JUndef then Inr (member (se_payload e) ''config'')
     else throw ''Authority event does not contain a replayable response'')"

definition authority_receipt_of :: "platform \<Rightarrow> authority_request \<Rightarrow> string \<Rightarrow> string \<Rightarrow> json \<Rightarrow> string \<Rightarrow> authority_receipt" where
  "authority_receipt_of P rq h eid response completed = \<lparr>au_request = rq_id rq, au_hash = h, au_operation = rq_operation rq,
     au_event = Some eid, au_response = hash_json P response, au_completed = completed\<rparr>"

definition authority_metadata :: "platform \<Rightarrow> authority_request \<Rightarrow> string \<Rightarrow> json \<Rightarrow> json" where
  "authority_metadata P rq h response = JObj [(''requestId'', JStr (rq_id rq)), (''requestHash'', JStr h),
     (''operation'', JStr (rq_operation rq)), (''responseHash'', JStr (hash_json P response))]"

definition names_request :: "authority_request \<Rightarrow> string \<Rightarrow> json \<Rightarrow> bool" where
  "names_request rq h b = (truthy b \<and> member b ''requestId'' = JStr (rq_id rq) \<and> member b ''requestHash'' = JStr h \<and>
     member b ''operation'' = JStr (rq_operation rq))"

section \<open>Replay\<close>

definition replayAuthority ::
  "platform \<Rightarrow> crypto \<Rightarrow> authority_request \<Rightarrow> string \<Rightarrow> string \<Rightarrow> store \<Rightarrow> (store \<times> json option) result" where
  "replayAuthority P C rq h eid st = bindE (findAuthorityReceipt st (rq_id rq)) (\<lambda>x. case x of
       Some r \<Rightarrow>
         if au_hash r \<noteq> h \<or> au_operation r \<noteq> rq_operation rq then throw ''Authority request id was reused with different parameters''
         else if au_event r \<noteq> Some eid then throw ''Authority receipt does not reference the deterministic replay event''
         else bindE (readEvent P C st eid) (\<lambda>e. case e of
           None \<Rightarrow> throw ''Authority receipt references a missing event''
         | Some ev \<Rightarrow>
             if au_completed r \<noteq> se_time ev then throw ''Authority receipt completion time is not bound to its event''
             else bindE (authorityBinding ev) (\<lambda>b.
             if \<not> names_request rq h b \<or> member b ''responseHash'' \<noteq> JStr (au_response r)
             then throw ''Authority receipt is not bound to its authenticated event''
             else bindE (authorityResponse ev) (\<lambda>response.
             if hash_json P response \<noteq> au_response r then throw ''Authority replay response does not match its receipt''
             else Inr (st, Some response))))
     | None \<Rightarrow> bindE (readEvent P C st eid) (\<lambda>e. case e of
           None \<Rightarrow> Inr (st, None)
         | Some ev \<Rightarrow> bindE (authorityBinding ev) (\<lambda>b.
             if \<not> names_request rq h b then throw ''Deterministic authority event id is already bound to another request''
             else bindE (authorityResponse ev) (\<lambda>response.
             if member b ''responseHash'' \<noteq> JStr (hash_json P response) then throw ''Authority event response binding is invalid''
             else bindE (recordAuthorityReceipt st (authority_receipt_of P rq h eid response (se_time ev))) (\<lambda>st'.
             Inr (st', Some response))))))"

section \<open>Recording\<close>

definition command_input :: "platform \<Rightarrow> authority_request \<Rightarrow> string \<Rightarrow> string \<Rightarrow> json \<Rightarrow> int \<Rightarrow> append_input" where
  "command_input P rq h eid response now = \<lparr>ae_id = Some eid, ae_aggregate_type = ''authority-command'', ae_aggregate = rq_id rq,
     ae_type = rq_operation rq @ ''-completed'', ae_version = 1,
     ae_payload = JObj [(''authority'', authority_metadata P rq h response), (''response'', response)], ae_time = now\<rparr>"

definition recordPersistedResponse :: "platform \<Rightarrow> authority_request \<Rightarrow> string \<Rightarrow> string \<Rightarrow> json \<Rightarrow> int \<Rightarrow> store \<Rightarrow> store result" where
  "recordPersistedResponse P rq h eid response now st = recordAuthorityReceipt st (authority_receipt_of P rq h eid response (to_iso now))"

definition recordCommand ::
  "platform \<Rightarrow> crypto \<Rightarrow> authority_request \<Rightarrow> string \<Rightarrow> string \<Rightarrow> json \<Rightarrow> int \<Rightarrow> string \<Rightarrow> string \<Rightarrow> string \<Rightarrow> store \<Rightarrow> (store \<times> json) result" where
  "recordCommand P C rq h eid response now uuid n n' st =
     bindE (append_event P C st (command_input P rq h eid response now) uuid n n') (\<lambda>(st1, ev).
     bindE (recordPersistedResponse P rq h eid response now st1) (\<lambda>st2. Inr (st2, response)))"

definition mutateConfig ::
  "platform \<Rightarrow> crypto \<Rightarrow> authority_request \<Rightarrow> string \<Rightarrow> string \<Rightarrow> (auto_apply_config \<Rightarrow> auto_apply_config result) \<Rightarrow> int \<Rightarrow> string \<Rightarrow> string \<Rightarrow> string \<Rightarrow>
   store \<Rightarrow> (store \<times> json) result" where
  "mutateConfig P C rq h eid transform now uuid n n' st = bindE (loadAutoApplyConfig P C st) (\<lambda>current. bindE (transform current) (\<lambda>config.
     bindE (saveAutoApplyConfig P C config (Some eid) (rq_operation rq @ ''-completed'') now
       (Some (JObj [(''authority'', authority_metadata P rq h (config_json config))])) uuid n n' st) (\<lambda>(st1, x).
     bindE (recordPersistedResponse P rq h eid (config_json config) now st1) (\<lambda>st2. Inr (st2, config_json config)))))"

section \<open>Registration\<close>

definition identity_pattern :: "string \<Rightarrow> bool" where
  "identity_pattern s = (s \<noteq> [] \<and> length s \<le> 128 \<and> list_all (\<lambda>c. is_alnum c \<or> c \<in> set ''._:-'') s)"

text \<open>\<open>KEY-\<close> and 8 to 100 characters of the given class.\<close>

definition key_pattern :: "(char \<Rightarrow> bool) \<Rightarrow> string \<Rightarrow> bool" where
  "key_pattern f s = (starts_with ''KEY-'' s \<and> (let r = drop 4 s in 8 \<le> length r \<and> length r \<le> 100 \<and> list_all f r))"

definition approver_key_pattern :: "string \<Rightarrow> bool" where
  "approver_key_pattern = key_pattern (\<lambda>c. is_alnum c \<or> c = CHR ''-'')"

definition collector_key_pattern :: "string \<Rightarrow> bool" where
  "collector_key_pattern = key_pattern (\<lambda>c. is_upper c \<or> is_digit c \<or> c = CHR ''-'')"

definition assertEd25519 :: "key_platform \<Rightarrow> string \<Rightarrow> string \<Rightarrow> unit result" where
  "assertEd25519 K pem label = (case public_key K pem of None \<Rightarrow> throw ''Invalid public key''
     | Some ed \<Rightarrow> if ed then Inr () else throw (label @ '' key must be Ed25519''))"

definition text_matching :: "(string \<Rightarrow> bool) \<Rightarrow> json \<Rightarrow> string \<Rightarrow> string result" where
  "text_matching pat j msg = (case jstr j of Some s \<Rightarrow> if pat s then Inr s else throw msg | None \<Rightarrow> throw msg)"

definition registered_response :: "string \<Rightarrow> json \<Rightarrow> json" where
  "registered_response field x = JObj [(''action'', JStr ''registered''), (field, x)]"

definition revoked_response :: "string \<Rightarrow> json" where
  "revoked_response k = JObj [(''action'', JStr ''revoked''), (''keyId'', JStr k)]"

definition approver_register :: "platform \<Rightarrow> crypto \<Rightarrow> key_platform \<Rightarrow> json \<Rightarrow> store \<Rightarrow> json result" where
  "approver_register P C K payload st = bindE (objectPayload payload) (\<lambda>p.
     bindE (text_matching identity_pattern (member p ''approvedBy'') ''Approver identity is invalid'') (\<lambda>approvedBy.
     bindE (text_matching approver_key_pattern (member p ''keyId'') ''Approver key id is invalid'') (\<lambda>k.
     bindE (text_matching (\<lambda>_. True) (member p ''publicKeyPem'') ''Approver public key is required'') (\<lambda>pem.
     bindE (assertEd25519 K pem ''Approver'') (\<lambda>_.
     bindE (storedApprovers P C st) (\<lambda>existing.
     let approver = approver_json \<lparr>ta_by = approvedBy, ta_key = k, ta_pem = pem\<rparr> in
     case find (\<lambda>c. member c ''keyId'' = JStr k) existing of
       Some old \<Rightarrow> if stable_stringify (coll_key P) old \<noteq> stable_stringify (coll_key P) approver
         then throw ''Approver key id is already registered with different material''
         else Inr (registered_response ''approver'' approver)
     | None \<Rightarrow> Inr (registered_response ''approver'' approver)))))))"

definition approver_revoke :: "json \<Rightarrow> json result" where
  "approver_revoke payload = bindE (objectPayload payload) (\<lambda>p.
     bindE (text_matching approver_key_pattern (member p ''keyId'') ''Approver key id is invalid'') (\<lambda>k. Inr (revoked_response k)))"

definition collector_register :: "platform \<Rightarrow> crypto \<Rightarrow> key_platform \<Rightarrow> json \<Rightarrow> store \<Rightarrow> json result" where
  "collector_register P C K payload st = bindE (objectPayload payload) (\<lambda>p.
     bindE (assertSchema P ''trusted-collector'' p) (\<lambda>_.
     bindE (assertEd25519 K (text_of p ''publicKeyPem'') ''Collector'') (\<lambda>_.
     bindE (storedCollectors P C st) (\<lambda>existing.
     case find (\<lambda>c. member c ''keyId'' = member p ''keyId'') existing of
       Some old \<Rightarrow> if stable_stringify (coll_key P) old \<noteq> stable_stringify (coll_key P) p
         then throw ''Collector key id is already registered with different material''
         else Inr (registered_response ''collector'' p)
     | None \<Rightarrow> Inr (registered_response ''collector'' p)))))"

definition collector_revoke :: "json \<Rightarrow> json result" where
  "collector_revoke payload = bindE (objectPayload payload) (\<lambda>p. bindE (requiredString (member p ''keyId'') ''Collector key id'') (\<lambda>k.
     if collector_key_pattern k then Inr (revoked_response k) else throw ''Collector key id is invalid''))"

section \<open>Dispatch\<close>

definition kill_reason :: "json \<Rightarrow> string" where
  "kill_reason p = (case jstr (member p ''reason'') of Some s \<Rightarrow> s | None \<Rightarrow> ''operator kill command'')"

definition daemon_stop :: "json \<Rightarrow> int \<Rightarrow> json result" where
  "daemon_stop payload now = bindE (objectPayload payload) (\<lambda>_.
     Inr (JObj [(''status'', JStr ''shutdown-authorized''), (''requestedAt'', JStr (to_iso now))]))"

text \<open>What a request does to the configuration.\<close>

type_synonym config_transform = "auto_apply_config \<Rightarrow> auto_apply_config result"

definition auto_apply_kill :: "json \<Rightarrow> int \<Rightarrow> config_transform result" where
  "auto_apply_kill payload now = bindE (objectPayload payload) (\<lambda>p.
     Inr (\<lambda>c. Inr (engageKillSwitch c ''authenticated-local-operator'' (kill_reason p) now)))"

definition auto_apply_rearm :: "json \<Rightarrow> config_transform result" where
  "auto_apply_rearm payload = bindE (objectPayload payload) (\<lambda>_. Inr (\<lambda>c. Inr (rearmAutoApplyAuthorized c)))"

definition auto_apply_enable :: "json \<Rightarrow> config_transform result" where
  "auto_apply_enable payload = bindE (objectPayload payload) (\<lambda>p.
     if member p ''mode'' = JStr ''draft-only'' then Inr (\<lambda>c. enableAutoApply c DraftOnly)
     else if member p ''mode'' = JStr ''auto'' then Inr (\<lambda>c. enableAutoApply c Auto)
     else throw ''Enable mode must be draft-only or auto'')"

definition control_command ::
  "platform \<Rightarrow> crypto \<Rightarrow> key_platform \<Rightarrow> authority_request \<Rightarrow> int \<Rightarrow> string \<Rightarrow> string \<Rightarrow> string \<Rightarrow> string \<Rightarrow> string \<Rightarrow> store \<Rightarrow> (store \<times> json) result" where
  "control_command P C K rq now uuid n n' h eid st = (let op = rq_operation rq; payload = rq_payload rq;
       recorded = (\<lambda>r. bindE r (\<lambda>response. recordCommand P C rq h eid response now uuid n n' st));
       mutated = (\<lambda>t. bindE t (\<lambda>transform. mutateConfig P C rq h eid transform now uuid n n' st)) in
     if op = ''daemon-stop'' then recorded (daemon_stop payload now)
     else if op = ''auto-apply-kill'' then mutated (auto_apply_kill payload now)
     else if op = ''auto-apply-rearm'' then mutated (auto_apply_rearm payload)
     else if op = ''auto-apply-enable'' then mutated (auto_apply_enable payload)
     else if op = ''approver-register'' then recorded (approver_register P C K payload st)
     else if op = ''approver-revoke'' then recorded (approver_revoke payload)
     else if op = ''collector-register'' then recorded (collector_register P C K payload st)
     else if op = ''collector-revoke'' then recorded (collector_revoke payload)
     else throw (''Unsupported authority operation: '' @ op))"

text \<open>The payloads of the tracker operations at their interface types.\<close>

datatype tracker_request = TrackCreate attempt_input string | TrackApprove string int approval | TrackSubmit string int
  | TrackBlock string int string | TrackConfirm string int submission_proof string

definition request_context :: "authority_request \<Rightarrow> string \<Rightarrow> string \<Rightarrow> int \<Rightarrow> tracker_context" where
  "request_context rq h eid now = \<lparr>tc_operation = rq_id rq, tc_event = Some eid,
     tc_authority = Some \<lparr>da_request = rq_id rq, da_hash = h, da_operation = rq_operation rq\<rparr>, tc_now = now\<rparr>"

definition tracker_command ::
  "platform \<Rightarrow> crypto \<Rightarrow> tracker_request \<Rightarrow> authority_request \<Rightarrow> int \<Rightarrow> string \<Rightarrow> string \<Rightarrow> string \<Rightarrow> string \<Rightarrow> string \<Rightarrow> store \<Rightarrow> (store \<times> json) result" where
  "tracker_command P C t rq now uuid n n' h eid st = bindE (listTrustedApprovers P C st) (\<lambda>approvers.
     bindE (listTrustedCollectors P C st) (\<lambda>collectors. let x = request_context rq h eid now in
     bindE (case t of
         TrackCreate i aid \<Rightarrow> tracker_create P C i x aid uuid n n' st
       | TrackApprove aid v ap \<Rightarrow> tracker_approve P C approvers aid v ap x uuid n n' st
       | TrackSubmit aid v \<Rightarrow> tracker_markSubmitted P C approvers aid v x uuid n n' st
       | TrackBlock aid v blocker \<Rightarrow> tracker_block P C aid v blocker x uuid n n' st
       | TrackConfirm aid v p lid \<Rightarrow> tracker_confirm P C collectors aid v p x lid uuid n n' st) (\<lambda>(st1, r).
     bindE (recordPersistedResponse P rq h eid r now st1) (\<lambda>st2. Inr (st2, r)))))"

text \<open>A request that changes state: the checkpoints, then a replay, then the operation.\<close>

definition execute ::
  "platform \<Rightarrow> crypto \<Rightarrow> 's credential_ops \<Rightarrow> authority_request \<Rightarrow> (string \<Rightarrow> string \<Rightarrow> store \<Rightarrow> (store \<times> json) result) \<Rightarrow> store \<times> 's \<Rightarrow>
   (store \<times> json) result" where
  "execute P C ops rq operation w = bindE (assertRequestId (rq_id rq)) (\<lambda>_.
     let h = authorityRequestHash P rq; eid = eventIdForRequest P (rq_id rq) in
     bindE (verifyCheckpointChain P C ops w) (\<lambda>_.
     bindE (replayAuthority P C rq h eid (fst w)) (\<lambda>(st1, replay). case replay of
       Some response \<Rightarrow> Inr (st1, response)
     | None \<Rightarrow> operation h eid st1)))"

text \<open>The same for an operation that may throw after it changed the store.\<close>

definition execute_action ::
  "platform \<Rightarrow> crypto \<Rightarrow> 's credential_ops \<Rightarrow> authority_request \<Rightarrow> (string \<Rightarrow> string \<Rightarrow> (store, json) action) \<Rightarrow> store \<times> 's \<Rightarrow>
   store \<times> json result" where
  "execute_action P C ops rq operation w = (let h = authorityRequestHash P rq; eid = eventIdForRequest P (rq_id rq) in
     case bindE (assertRequestId (rq_id rq)) (\<lambda>_. bindE (verifyCheckpointChain P C ops w) (\<lambda>_.
       replayAuthority P C rq h eid (fst w))) of
       Inl e \<Rightarrow> (fst w, Inl e)
     | Inr (st1, Some response) \<Rightarrow> (st1, Inr response)
     | Inr (st1, None) \<Rightarrow> operation h eid st1)"

end
