(* ===== verification/RuntimeEvents.thy ===== *)
theory RuntimeEvents
  imports RuntimeAuthority
begin

text \<open>
  What the authority's operations leave in the event history: an operation on the configuration or a registry appends one
  event with its outcome, a tracker operation one event of the applications domain, and a replay nothing.
\<close>

section \<open>Values read back\<close>

lemma member_canon_wf: "wf_keys j \<Longrightarrow> member (canon ck j) k = canon ck (member j k)"
proof (cases j)
  case (JObj es)
  assume w: "wf_keys j"
  then have d: "distinct (map fst es)" using JObj by simp
  let ?fs = "filter (\<lambda>e. snd e \<noteq> JUndef) es"
  have df: "distinct (map fst ?fs)" using d by (rule distinct_map_filter)
  have l: "map_of (live_entries ck es) k = map_of ?fs k" unfolding live_entries_def
    using df by (intro fun_cong [OF iffD2 [OF map_of_inject_set]]) (simp_all add: distinct_map)
  have m: "map_of ?fs k = (case map_of es k of Some JUndef \<Rightarrow> None | x \<Rightarrow> x)"
  proof (cases "map_of es k")
    case None
    then have "k \<notin> fst ` set ?fs" by (auto simp: map_of_eq_None_iff)
    then have "map_of ?fs k = None" by (simp add: map_of_eq_None_iff)
    then show ?thesis using None by simp
  next
    case (Some v)
    then have v: "(k, v) \<in> set es" by (rule map_of_SomeD)
    show ?thesis
    proof (cases "v = JUndef")
      case True
      have "k \<notin> fst ` set ?fs" using d v True by (auto simp: eq_key_imp_eq_value)
      then have "map_of ?fs k = None" by (simp add: map_of_eq_None_iff)
      then show ?thesis using Some True by simp
    next
      case False
      then have "(k, v) \<in> set ?fs" using v by simp
      then have "map_of ?fs k = Some v" using df by simp
      then show ?thesis using Some False by (cases v) simp_all
    qed
  qed
  have "map_of (map (\<lambda>(k, v). (k, canon ck v)) (live_entries ck es)) k = map_option (canon ck) (map_of ?fs k)"
    by (simp add: map_of_map l)
  then show ?thesis using JObj m by (auto simp: member_def split: option.splits json.splits)
qed (simp_all add: member_def)

lemma append_reads_wf:
  assumes "aead_ok C" and "hex_digest P" and "readAll P C st = Inr es" and "append_event P C st i uuid n n' = Inr (st', ev)"
    and "array_safe (ae_payload i)" and "ae_payload i \<noteq> JUndef" and "wf_keys (ae_payload i)"
  shows "\<exists>e. readAll P C st' = Inr (es @ [e]) \<and> se_payload e = canon (coll_key P) (ae_payload i) \<and> se_aggregate_type e = ae_aggregate_type i \<and>
    se_aggregate e = ae_aggregate i \<and> se_type e = ae_type i \<and> se_time e = to_iso (ae_time i) \<and> (\<forall>x. ae_id i = Some x \<longrightarrow> se_id e = x)"
proof -
  have "se_aggregate_type ev = ae_aggregate_type i \<and> se_type ev = ae_type i \<and> se_aggregate ev = ae_aggregate i \<and>
      se_time ev = to_iso (ae_time i) \<and> (\<forall>x. ae_id i = Some x \<longrightarrow> se_id ev = x)"
    using append_event_ok [OF assms(4)] by (auto simp: event_of_row_def sealed_row_def row_of_input_def Let_def)
  then show ?thesis using append_readAll [OF assms] by (intro exI [of _ "ev\<lparr>se_payload := canon (coll_key P) (ae_payload i)\<rparr>"]) simp
qed

lemma metadata_sound: "sound_json (authority_metadata P rq h r)"
  by (simp add: authority_metadata_def sound_json_def)

text \<open>A configuration whose opportunities are named once is a proper object; so is every loaded one.\<close>

definition wf_config :: "auto_apply_config \<Rightarrow> bool" where
  "wf_config c = distinct (map fst (cf_per_opportunity c))"

lemma jopt_keys: "wf_keys (jopt f x) \<longleftrightarrow> (\<forall>y. x = Some y \<longrightarrow> wf_keys (f y))" "array_safe (jopt f x) \<longleftrightarrow> (\<forall>y. x = Some y \<longrightarrow> array_safe (f y))"
  by (simp_all add: jopt_def split: option.split)

lemma jstrs_keys: "wf_keys (jstrs xs)" "array_safe (jstrs xs)"
  by (auto simp: jstrs_def)

lemma keys_map: "map fst (map (\<lambda>(k, v). (k, f v)) es) = map fst es"
  by (simp add: comp_def split_def)

lemma live_distinct: "distinct (map fst es) \<Longrightarrow> distinct (map fst (live_entries ck es))"
proof -
  assume "distinct (map fst es)"
  then have "distinct (map fst (filter (\<lambda>e. snd e \<noteq> JUndef) es))" by (rule distinct_map_filter)
  moreover have "mset (map fst (live_entries ck es)) = mset (map fst (filter (\<lambda>e. snd e \<noteq> JUndef) es))" by (simp add: live_entries_def)
  ultimately show ?thesis by (metis mset_eq_imp_distinct_iff)
qed

lemma config_json_wf: "wf_config c \<Longrightarrow> wf_keys (config_json c)"
  unfolding config_json_def wf_config_def by (auto simp: jopt_keys jstrs_keys keys_map simp del: map_map)

lemma config_json_safe: "array_safe (config_json c)" "config_json c \<noteq> JUndef"
  by (auto simp: config_json_def jopt_keys jstrs_keys)

lemma config_members:
  "member (config_json c) ''enabled'' = JBool (cf_enabled c)" "member (config_json c) ''mode'' = JStr (apply_mode_str (cf_mode c))"
  "member (member (config_json c) ''killSwitch'') ''engaged'' = JBool (ks_engaged (cf_kill c))"
  by (simp_all add: config_json_def member_def)

text \<open>What the guards of a decision read of a stored configuration is what was stored.\<close>

lemma config_read_back:
  fixes ck :: "string \<Rightarrow> string"
  assumes "wf_config c"
  defines "d \<equiv> config_of (canon ck (config_json c))"
  shows "cf_enabled d = cf_enabled c" and "ks_engaged (cf_kill d) = ks_engaged (cf_kill c)" and "cf_mode d = cf_mode c" and "wf_config d"
proof -
  note w = config_json_wf [OF assms(1)]
  have k: "wf_keys (member (config_json c) ''killSwitch'')" by (simp add: config_json_def member_def jopt_keys)
  note m = member_canon_wf [OF w] config_members
  show "cf_enabled d = cf_enabled c" by (simp add: d_def config_of_def bool_at_def m)
  show "ks_engaged (cf_kill d) = ks_engaged (cf_kill c)"
    by (simp add: d_def config_of_def kill_switch_of_def bool_at_def m member_canon_wf [OF k])
  have "mode_of (apply_mode_str x) = x" for x by (cases x) (simp_all add: mode_of_def)
  then show "cf_mode d = cf_mode c" by (simp add: d_def config_of_def text_of_def m)
  have p: "member (config_json c) ''perOpportunity'' = JObj (map (\<lambda>(k, x). (k, JObj [(''mode'', jopt (\<lambda>m. JStr (apply_mode_str m)) (po_mode x)),
        (''excluded'', jopt JBool (po_excluded x))])) (cf_per_opportunity c))" by (simp add: config_json_def member_def)
  have "distinct (map fst (cf_per_opportunity d))"
    unfolding d_def config_of_def m p canon.simps json.case auto_apply_config.simps keys_map
    by (rule live_distinct) (use assms(1) in \<open>simp add: keys_map wf_config_def del: map_map\<close>)
  then show "wf_config d" by (simp add: wf_config_def)
qed

section \<open>The configuration of a history\<close>

definition config_event :: "stored_event \<Rightarrow> bool" where
  "config_event e = (se_aggregate_type e = ''runtime-config'' \<and> se_aggregate e = ''auto-apply'')"

definition config_at :: "platform \<Rightarrow> stored_event list \<Rightarrow> auto_apply_config result" where
  "config_at P es = bindE (first_config P (rev (filter config_event es))) (\<lambda>c.
     Inr (case c of Some j \<Rightarrow> config_of j | None \<Rightarrow> defaultAutoApplyConfig))"

lemma load_config_at: "readAll P C st = Inr es \<Longrightarrow> loadAutoApplyConfig P C st = config_at P es"
  by (simp add: loadAutoApplyConfig_def readAggregate_def config_at_def config_event_def [abs_def])

lemma config_at_other: "\<not> config_event e \<Longrightarrow> config_at P (es @ [e]) = config_at P es"
  by (simp add: config_at_def)

lemma config_at_new: "config_event e \<Longrightarrow> configFromEvent P e = Inr (Some j) \<Longrightarrow> config_at P (es @ [e]) = Inr (config_of j)"
  by (simp add: config_at_def)

text \<open>What the code relies on of a schema: it does not see the order of members, nor members that are \<open>undefined\<close>.\<close>

definition order_free :: "platform \<Rightarrow> string \<Rightarrow> bool" where
  "order_free P n = (\<forall>v. schema_errors P n v = [] \<longrightarrow> schema_errors P n (canon (coll_key P) v) = [])"

lemma saved_config:
  assumes "aead_ok C" and "hex_digest P" and "readAll P C st = Inr es" and "order_free P ''auto-apply-config''" and "wf_config c"
    and "saveAutoApplyConfig P C c eid ty now (Some m) uuid n n' st = Inr (st', x)" and "sound_json m"
  shows "\<exists>e. readAll P C st' = Inr (es @ [e]) \<and> config_event e \<and> se_type e = ty \<and> (\<forall>i. eid = Some i \<longrightarrow> se_id e = i) \<and> se_time e = to_iso now \<and>
    st_receipts st' = st_receipts st \<and> se_payload e = canon (coll_key P) (JObj [(''config'', config_json c), (''metadata'', m)]) \<and>
    config_at P (es @ [e]) = Inr (config_of (canon (coll_key P) (config_json c)))"
proof -
  let ?p = "JObj [(''config'', config_json c), (''metadata'', m)]" and ?i = "config_input c eid ty now (Some m)"
  obtain ev where sc: "schema_errors P ''auto-apply-config'' (config_json c) = []" and ap: "append_event P C st ?i uuid n n' = Inr (st', ev)"
    using assms(6) by (auto simp: saveAutoApplyConfig_def)
  have p: "ae_payload ?i = ?p" by (simp add: config_input_def with_metadata_def)
  have m: "wf_keys m" "array_safe m" "m \<noteq> JUndef" using assms(7) defined_safe by (auto simp: sound_json_def)
  have w: "wf_keys ?p" "array_safe ?p" "?p \<noteq> JUndef" using m config_json_wf [OF assms(5)] config_json_safe by simp_all
  obtain e where e: "readAll P C st' = Inr (es @ [e])" "se_payload e = canon (coll_key P) ?p" "se_aggregate_type e = ae_aggregate_type ?i"
    "se_aggregate e = ae_aggregate ?i" "se_type e = ae_type ?i" "se_time e = to_iso (ae_time ?i)" "\<forall>x. ae_id ?i = Some x \<longrightarrow> se_id e = x"
    using append_reads_wf [OF assms(1-3) ap] w unfolding p by metis
  have "member (se_payload e) ''config'' = canon (coll_key P) (config_json c)" unfolding e(2) member_canon_wf [OF w(1)] by (simp add: member_def)
  moreover have "truthy (canon (coll_key P) (config_json c))" by (simp add: config_json_def truthy_def)
  moreover have "se_payload e \<noteq> JNull" "se_payload e \<noteq> JUndef" unfolding e(2) by simp_all
  ultimately have "configFromEvent P e = Inr (Some (canon (coll_key P) (config_json c)))"
    using sc assms(4) by (simp add: configFromEvent_def prop_of_def nullish_def Let_def truthy_def order_free_def)
  moreover have "config_event e" using e(3,4) by (simp add: config_event_def config_input_def)
  ultimately have "config_at P (es @ [e]) = Inr (config_of (canon (coll_key P) (config_json c)))" by (simp add: config_at_new)
  moreover have "st_receipts st' = st_receipts st" using append_event_ok [OF ap, THEN conjunct1] by simp
  ultimately show ?thesis using e \<open>config_event e\<close> by (intro exI [of _ e]) (simp add: config_input_def)
qed

lemma member_wf: "wf_keys j \<Longrightarrow> wf_keys (member j k)"
proof (cases j)
  case (JObj es)
  assume "wf_keys j"
  then show ?thesis using JObj by (cases "map_of es k") (auto simp: member_def dest: map_of_SomeD)
qed (simp_all add: member_def)

text \<open>Every configuration of a readable history is well formed.\<close>

lemma config_of_wf: "wf_keys j \<Longrightarrow> wf_config (config_of j)"
  using member_wf [of j "''perOpportunity''"]
  by (cases "member j ''perOpportunity''") (simp_all add: wf_config_def config_of_def keys_map del: map_map)

lemma config_event_wf: "wf_keys (se_payload e) \<Longrightarrow> configFromEvent P e = Inr (Some j) \<Longrightarrow> wf_keys j"
  using member_wf by (auto simp: configFromEvent_def prop_of_def nullish_def Let_def split: if_splits)

lemma first_config_in: "first_config P es = Inr (Some j) \<Longrightarrow> \<exists>e \<in> set es. configFromEvent P e = Inr (Some j)"
  by (induction es) (auto split: option.splits)

lemma config_at_wf:
  assumes "list_all (\<lambda>e. sound_json (se_payload e)) es" and "config_at P es = Inr c"
  shows "wf_config c"
proof -
  obtain x where x: "first_config P (rev (filter config_event es)) = Inr x" "c = (case x of Some j \<Rightarrow> config_of j | None \<Rightarrow> defaultAutoApplyConfig)"
    using assms(2) by (auto simp: config_at_def)
  show ?thesis
  proof (cases x)
    case None
    then show ?thesis using x(2) by (simp add: wf_config_def defaultAutoApplyConfig_def)
  next
    case (Some j)
    then obtain e where "e \<in> set es" "configFromEvent P e = Inr (Some j)" using first_config_in [of P _ j] x(1) by fastforce
    then have "wf_keys j" using config_event_wf assms(1) by (auto simp: list_all_iff sound_json_def)
    then show ?thesis using x(2) Some config_of_wf by simp
  qed
qed

section \<open>What an operation records\<close>

lemma hash_canon_any: "hash_json P (canon (coll_key P) j) = hash_json P j"
  by (simp add: stable_stringify_canon canon_canon)

text \<open>An event that answers a request: bound to its identifier and hash, with its response.\<close>

definition answers :: "platform \<Rightarrow> authority_request \<Rightarrow> string \<Rightarrow> string \<Rightarrow> json \<Rightarrow> stored_event \<Rightarrow> bool" where
  "answers P rq h eid r e = (se_id e = eid \<and> authorityResponse e = Inr r \<and>
     (\<exists>b. authorityBinding e = Inr b \<and> names_request rq h b \<and> member b ''responseHash'' = JStr (hash_json P r)))"

lemma metadata_canon: "canon ck (authority_metadata P rq h r) \<noteq> JNull" "canon ck (authority_metadata P rq h r) \<noteq> JUndef"
    "names_request rq h (canon ck (authority_metadata P rq h r))"
    "member (canon ck (authority_metadata P rq h r)) ''responseHash'' = JStr (hash_json P r)"
proof -
  note m = member_canon [OF metadata_sound, of ck P rq h r]
  show "names_request rq h (canon ck (authority_metadata P rq h r))" unfolding names_request_def m
    by (simp add: authority_metadata_def truthy_def member_def)
  show "member (canon ck (authority_metadata P rq h r)) ''responseHash'' = JStr (hash_json P r)" unfolding m
    by (simp add: authority_metadata_def member_def)
qed (simp_all add: authority_metadata_def)

lemma recorded_command:
  assumes "aead_ok C" and "hex_digest P" and "readAll P C st = Inr es" and "sound_json r"
    and "recordCommand P C rq h eid r now uuid n n' st = Inr (st', r')"
  shows "r' = r \<and> (\<exists>e. readAll P C st' = Inr (es @ [e]) \<and> se_aggregate_type e = ''authority-command'' \<and> se_type e = rq_operation rq @ ''-completed'' \<and>
    answers P rq h eid (canon (coll_key P) r) e \<and> se_payload e \<notin> {JNull, JUndef} \<and> member (se_payload e) ''response'' = canon (coll_key P) r \<and>
    st_receipts st' = st_receipts st @ [authority_receipt_of P rq h eid r (se_time e)] \<and> rq_id rq \<notin> au_request ` set (st_receipts st))"
proof -
  let ?i = "command_input P rq h eid r now" and ?m = "authority_metadata P rq h r"
  obtain st1 ev where ap: "append_event P C st ?i uuid n n' = Inr (st1, ev)" and rc: "recordPersistedResponse P rq h eid r now st1 = Inr st'" and r: "r' = r"
    using assms(5) unfolding recordCommand_def bindE_Inr_iff by auto
  have p: "sound_json (ae_payload ?i)" using metadata_sound [of P rq h r] assms(4) by (simp add: command_input_def sound_json_def)
  have rs: "st_receipts st1 = st_receipts st" using append_event_ok [OF ap, THEN conjunct1] by simp
  show ?thesis
  proof (rule store_append_reads [OF assms(1-3) ap p])
    fix e assume e: "readAll P C st1 = Inr (es @ [e])" "e = ev\<lparr>se_payload := canon (coll_key P) (ae_payload ?i)\<rparr>"
      and f: "se_aggregate_type e = ae_aggregate_type ?i" "se_type e = ae_type ?i" "se_time e = to_iso (ae_time ?i)"
        "\<forall>x. ae_id ?i = Some x \<longrightarrow> se_id e = x" "sound_json (se_payload e)"
    have pe: "se_payload e = canon (coll_key P) (ae_payload ?i)" by (simp add: e(2))
    have m: "member (se_payload e) ''authority'' = canon (coll_key P) ?m" "member (se_payload e) ''response'' = canon (coll_key P) r"
      unfolding pe member_canon [OF p] by (simp_all add: command_input_def member_def)
    have ne: "se_payload e \<noteq> JNull" "se_payload e \<noteq> JUndef" unfolding pe by (simp_all add: command_input_def)
    have "r \<noteq> JUndef" using assms(4) by (auto simp: sound_json_def)
    then have "authorityResponse e = Inr (canon (coll_key P) r)" by (simp add: authorityResponse_def m canon_undef)
    moreover have "authorityBinding e = Inr (canon (coll_key P) ?m)"
      using ne metadata_canon(1,2) [of "coll_key P" P rq h r] by (simp add: authorityBinding_def prop_of_def m nullish_def)
    ultimately have "answers P rq h eid (canon (coll_key P) r) e"
      using metadata_canon(3,4) [where ck = "coll_key P" and P = P and rq = rq and h = h and r = r] f(4) by (simp add: answers_def command_input_def hash_canon_any)
    moreover have "readAll P C st' = readAll P C st1" "st_receipts st' = st_receipts st @ [authority_receipt_of P rq h eid r (to_iso now)]"
      "rq_id rq \<notin> au_request ` set (st_receipts st)"
      using rc rs receipts_read by (auto simp: recordPersistedResponse_def recordAuthorityReceipt_def authority_receipt_of_def split: if_splits)
    ultimately show ?thesis using e(1) f r ne m(2) by (auto simp: command_input_def)
  qed
qed

definition config_op :: "authority_request \<Rightarrow> auto_apply_config \<Rightarrow> auto_apply_config \<Rightarrow> bool" where
  "config_op rq c c' = (rq_operation rq = ''auto-apply-kill'' \<and> (\<exists>b reason now. c' = engageKillSwitch c b reason now) \<or>
     rq_operation rq = ''auto-apply-rearm'' \<and> c' = rearmAutoApplyAuthorized c \<or>
     rq_operation rq = ''auto-apply-enable'' \<and> (\<exists>m. enableAutoApply c m = Inr c'))"

lemma config_op_wf: "config_op rq c c' \<Longrightarrow> wf_config c \<Longrightarrow> wf_config c'"
  by (auto simp: config_op_def wf_config_def engageKillSwitch_def rearmAutoApplyAuthorized_def enableAutoApply_def split: if_splits)

lemma mutated_config:
  assumes "aead_ok C" and "hex_digest P" and "readAll P C st = Inr es" and "order_free P ''auto-apply-config''"
    and "mutateConfig P C rq h eid f now uuid n n' st = Inr (st', r)" and "\<And>c c'. f c = Inr c' \<Longrightarrow> config_op rq c c'"
  shows "\<exists>c c' e. config_at P es = Inr c \<and> config_op rq c c' \<and> wf_config c' \<and> r = config_json c' \<and> readAll P C st' = Inr (es @ [e]) \<and> config_event e \<and>
    se_type e = rq_operation rq @ ''-completed'' \<and> config_at P (es @ [e]) = Inr (config_of (canon (coll_key P) (config_json c'))) \<and>
    answers P rq h eid (canon (coll_key P) r) e \<and>
    st_receipts st' = st_receipts st @ [authority_receipt_of P rq h eid r (se_time e)] \<and> rq_id rq \<notin> au_request ` set (st_receipts st)"
proof -
  obtain c c' st1 x where c: "config_at P es = Inr c" "f c = Inr c'" "r = config_json c'"
    and sv: "saveAutoApplyConfig P C c' (Some eid) (rq_operation rq @ ''-completed'') now
       (Some (JObj [(''authority'', authority_metadata P rq h (config_json c'))])) uuid n n' st = Inr (st1, x)"
    and rc: "recordPersistedResponse P rq h eid (config_json c') now st1 = Inr st'"
    using assms(5) unfolding mutateConfig_def bindE_Inr_iff load_config_at [OF assms(3)] by auto
  let ?m = "authority_metadata P rq h (config_json c')"
  let ?p = "JObj [(''config'', config_json c'), (''metadata'', JObj [(''authority'', ?m)])]"
  have op: "config_op rq c c'" by (rule assms(6) [OF c(2)])
  have w: "wf_config c'" by (rule config_op_wf [OF op config_at_wf [OF readAll_sound [OF assms(3)] c(1)]])
  have ms: "sound_json (JObj [(''authority'', ?m)])" using metadata_sound [of P rq h "config_json c'"] by (simp add: sound_json_def)
  obtain e where e: "readAll P C st1 = Inr (es @ [e])" "config_event e" "se_type e = rq_operation rq @ ''-completed''" "se_id e = eid"
    "se_time e = to_iso now" "st_receipts st1 = st_receipts st" "se_payload e = canon (coll_key P) ?p"
    "config_at P (es @ [e]) = Inr (config_of (canon (coll_key P) (config_json c')))"
    using saved_config [OF assms(1-4) w sv ms] by blast
  have pw: "wf_keys ?p" using config_json_wf [OF w] ms by (simp add: sound_json_def)
  have m: "member (se_payload e) ''config'' = canon (coll_key P) (config_json c')" "member (se_payload e) ''response'' = JUndef"
    "member (se_payload e) ''authority'' = JUndef" "member (se_payload e) ''metadata'' = canon (coll_key P) (JObj [(''authority'', ?m)])"
    unfolding e(7) member_canon_wf [OF pw] by (simp_all add: member_def)
  have "member (member (se_payload e) ''metadata'') ''authority'' = canon (coll_key P) ?m"
    unfolding m member_canon [OF ms] by (simp add: member_def)
  moreover have "se_payload e \<noteq> JNull" "se_payload e \<noteq> JUndef" unfolding e(7) by simp_all
  ultimately have "authorityBinding e = Inr (canon (coll_key P) ?m)"
    using metadata_canon(1,2) [of "coll_key P" P rq h "config_json c'"] by (simp add: authorityBinding_def prop_of_def m nullish_def)
  moreover have "authorityResponse e = Inr (canon (coll_key P) r)"
    using config_json_safe(2) [of c'] by (simp add: authorityResponse_def m c(3) canon_undef)
  ultimately have "answers P rq h eid (canon (coll_key P) r) e"
    using metadata_canon(3,4) [where ck = "coll_key P" and P = P and rq = rq and h = h and r = "config_json c'"] e(4) c(3) by (simp add: answers_def hash_canon_any)
  moreover have "readAll P C st' = readAll P C st1" "st_receipts st' = st_receipts st @ [authority_receipt_of P rq h eid r (se_time e)]"
    "rq_id rq \<notin> au_request ` set (st_receipts st)"
    using rc e(5,6) c(3) receipts_read by (auto simp: recordPersistedResponse_def recordAuthorityReceipt_def authority_receipt_of_def split: if_splits)
  ultimately show ?thesis using c op w e by auto
qed

end
