(* ===== verification/ImportEvents.thy ===== *)
theory ImportEvents
  imports LegacyImport RuntimeEvents
begin

text \<open>
  The authority's request that applies an import (legacy-import-apply in src/src/daemon/authority.ts), and what it adds to the event
  history: for every candidate of the plan at most one event of the candidate's kind, and the event of the request itself.
\<close>

section \<open>The request\<close>

text \<open>The journal and the rollback backup are files beside the store: their paths, or the error that stops the request before
  anything is imported; and the last write of the journal, after the request was recorded.\<close>

record import_journal =
  ij_prepare :: "string \<Rightarrow> chain_head \<Rightarrow> (string \<times> string) result"
  ij_complete :: "unit result"

definition import_response :: "import_result \<Rightarrow> string \<Rightarrow> string \<Rightarrow> json" where
  "import_response r backup journal = JObj [(''planHash'', JStr (ir_plan r)), (''imported'', JNum (int (ir_imported r))),
     (''alreadyImported'', JNum (int (ir_already r))), (''eventIds'', jstrs (ir_events r)),
     (''rollbackBackupPath'', JStr backup), (''journalPath'', JStr journal)]"

text \<open>The reviewed plan, by its hash, and the files of the request, or the error before the import.\<close>

definition import_prepared ::
  "crypto \<Rightarrow> import_plan \<Rightarrow> import_journal \<Rightarrow> json \<Rightarrow> store \<Rightarrow> (string \<times> string \<times> string) result" where
  "import_prepared C plan J payload st = bindE (objectPayload payload) (\<lambda>p. case jstr (member p ''planHash'') of
       None \<Rightarrow> throw ''Legacy import apply requires a plan hash''
     | Some planHash \<Rightarrow>
         if ip_hash plan \<noteq> planHash then throw ''Legacy import plan changed after approval''
         else bindE (chainHead C st) (\<lambda>head. bindE (ij_prepare J planHash head) (\<lambda>(backup, journal).
           Inr (planHash, backup, journal))))"

definition legacy_import_apply ::
  "platform \<Rightarrow> crypto \<Rightarrow> legacy_host \<Rightarrow> legacy_files \<Rightarrow> import_journal \<Rightarrow> authority_request \<Rightarrow> int \<Rightarrow> (nat \<Rightarrow> string \<times> string) \<Rightarrow>
   string \<Rightarrow> string \<Rightarrow> string \<Rightarrow> string \<Rightarrow> string \<Rightarrow> (store, json) action" where
  "legacy_import_apply P C H fs J rq now rnd uuid n n' h eid st = (let plan = planLegacyImport P H fs in
     case import_prepared C plan J (rq_payload rq) st of
       Inl e \<Rightarrow> (st, Inl e)
     | Inr (planHash, backup, journal) \<Rightarrow> (case applyLegacyImport P C plan planHash now rnd st of
         (st1, Inl e) \<Rightarrow> (st1, Inl e)
       | (st1, Inr result) \<Rightarrow>
           (case recordCommand P C rq h eid (import_response result backup journal) now uuid n n' st1 of
             Inl e \<Rightarrow> (st1, Inl e)
           | Inr (st2, response) \<Rightarrow> (st2, bindE (ij_complete J) (\<lambda>_. Inr response)))))"

section \<open>Imported candidates\<close>

definition storable_payload :: "import_candidate \<Rightarrow> bool" where
  "storable_payload c = (array_safe (ic_payload c) \<and> wf_keys (ic_payload c) \<and> ic_payload c \<noteq> JUndef)"

definition import_event :: "platform \<Rightarrow> import_candidate \<Rightarrow> stored_event \<Rightarrow> bool" where
  "import_event P c e = (se_id e = ic_event c \<and> se_aggregate_type e = ic_aggregate_type c \<and> se_aggregate e = ic_aggregate c \<and> se_type e = ic_type c \<and>
     se_version e = 1 \<and> stable_stringify (coll_key P) (se_payload e) = stable_stringify (coll_key P) (import_payload c))"

definition imported_receipt :: "import_candidate \<Rightarrow> legacy_receipt \<Rightarrow> bool" where
  "imported_receipt c r = (lr_event r = ic_event c \<and> lr_kind r = legacy_kind_str (ic_kind c) \<and> lr_locator r = ic_locator c)"

definition imported_at :: "platform \<Rightarrow> crypto \<Rightarrow> import_candidate \<Rightarrow> store \<Rightarrow> bool" where
  "imported_at P C c st = (assertAuthenticatedImportEvent P C st c = Inr () \<and>
     (\<exists>r. findLegacyImportReceipt st (ic_digest c) = Some r \<and> imported_receipt c r))"

lemma authenticated_iff:
  assumes "readAll P C st = Inr es"
  shows "assertAuthenticatedImportEvent P C st c = Inr () \<longleftrightarrow> identifier_ok (ic_event c) \<and>
    (\<exists>e. find (\<lambda>e. se_id e = ic_event c) es = Some e \<and> import_event P c e)"
proof (cases "find (\<lambda>e. se_id e = ic_event c) es")
  case None
  then show ?thesis using assms by (simp add: assertAuthenticatedImportEvent_def readEvent_def assertIdentifier_def)
next
  case (Some e)
  then have "se_id e = ic_event c" using find_Some_mem by fastforce
  then show ?thesis using assms Some by (simp add: assertAuthenticatedImportEvent_def readEvent_def assertIdentifier_def Let_def import_event_def)
qed

text \<open>A later store: more events, and every receipt still found.\<close>

definition later_store :: "platform \<Rightarrow> crypto \<Rightarrow> store \<Rightarrow> store \<Rightarrow> bool" where
  "later_store P C st st' = ((\<exists>es es'. readAll P C st = Inr es \<and> readAll P C st' = Inr (es @ es')) \<and>
     (\<forall>d r. findLegacyImportReceipt st d = Some r \<longrightarrow> findLegacyImportReceipt st' d = Some r))"

lemma later_refl: "readAll P C st = Inr es \<Longrightarrow> later_store P C st st"
  by (simp add: later_store_def)

lemma later_trans: "later_store P C st st1 \<Longrightarrow> later_store P C st1 st2 \<Longrightarrow> later_store P C st st2"
  by (auto simp: later_store_def)

lemma imported_later:
  assumes "imported_at P C c st" and "later_store P C st st'"
  shows "imported_at P C c st'"
proof -
  obtain es es' where r: "readAll P C st = Inr es" "readAll P C st' = Inr (es @ es')" using assms(2) by (auto simp: later_store_def)
  obtain e where "find (\<lambda>e. se_id e = ic_event c) es = Some e" "import_event P c e" "identifier_ok (ic_event c)"
    using assms(1) by (auto simp: imported_at_def authenticated_iff [OF r(1)])
  moreover have "find p xs = Some x \<Longrightarrow> find p (xs @ ys) = Some x" for p and xs ys :: "stored_event list" and x by (induction xs) auto
  ultimately have "assertAuthenticatedImportEvent P C st' c = Inr ()" by (auto simp: authenticated_iff [OF r(2)])
  then show ?thesis using assms by (auto simp: imported_at_def later_store_def)
qed

text \<open>An imported candidate is not imported again.\<close>

lemma imported_skipped: "imported_at P C c st \<Longrightarrow> importCandidate P C now n n' c st = (st, Inr False)"
  by (auto simp: imported_at_def importCandidate_def imported_receipt_def)

lemma receipt_recorded:
  assumes "recordLegacyImportReceipt st r = Inr st'" and "findLegacyImportReceipt st (lr_digest r) = None"
  shows "st' = st\<lparr>st_imports := st_imports st @ [r]\<rparr>"
  using assms by (auto simp: recordLegacyImportReceipt_def findLegacyImportReceipt_def find_None_iff split: if_splits)

lemma receipt_later:
  assumes "recordLegacyImportReceipt st r = Inr st'" and "findLegacyImportReceipt st (lr_digest r) = None" and "readAll P C st = Inr es"
  shows "readAll P C st' = Inr es" and "later_store P C st st'" and "findLegacyImportReceipt st' (lr_digest r) = Some r"
proof -
  note s = receipt_recorded [OF assms(1,2)]
  show r: "readAll P C st' = Inr es" using assms(3) unfolding s readAll_iff by simp
  show "later_store P C st st'" using assms(3) r
    by (auto simp: later_store_def s findLegacyImportReceipt_def find_append_one)
  show "findLegacyImportReceipt st' (lr_digest r) = Some r"
    using assms(2) by (simp add: s findLegacyImportReceipt_def find_append_one)
qed

lemma payload_storable: "storable_payload c \<Longrightarrow> array_safe (import_payload c) \<and> wf_keys (import_payload c) \<and> import_payload c \<noteq> JUndef"
  by (simp add: storable_payload_def import_payload_def)

lemma import_appended:
  assumes "aead_ok C" and "hex_digest P" and "readAll P C st = Inr es" and "storable_payload c"
    and "append_event P C st (import_input c now) [] n n' = Inr (st1, ev)"
  shows "\<exists>e. readAll P C st1 = Inr (es @ [e]) \<and> import_event P c e \<and> se_payload e = canon (coll_key P) (import_payload c) \<and>
    find (\<lambda>e. se_id e = ic_event c) es = None \<and> identifier_ok (ic_event c) \<and> st_imports st1 = st_imports st"
proof -
  have p: "ae_payload (import_input c now) = import_payload c" by (simp add: import_input_def)
  have s: "array_safe (import_payload c)" "wf_keys (import_payload c)" "import_payload c \<noteq> JUndef" using payload_storable [OF assms(4)] by blast+
  let ?e = "ev\<lparr>se_payload := canon (coll_key P) (import_payload c)\<rparr>"
  have r: "readAll P C st1 = Inr (es @ [?e])" using append_readAll [OF assms(1-3,5)] s unfolding p by blast
  let ?row = "sealed_row P C st (import_input c now) [] n"
  note ok = append_event_ok [OF assms(5)]
  have id: "er_id ?row = ic_event c" by (simp add: sealed_row_def Let_def row_of_input_def import_input_def)
  obtain h where "verify_rows P C (st_key st) (GENESIS_HASH P) (st_events st) = Inr (es, h)" using assms(3) unfolding readAll_iff by blast
  then have "se_id ` set es = er_id ` set (st_events st)" using verify_rows_map by (metis list.set_map)
  then have "\<forall>e \<in> set es. se_id e \<noteq> ic_event c" using ok id by (metis imageI)
  then have "find (\<lambda>e. se_id e = ic_event c) es = None" by (simp add: find_None_iff)
  moreover have "import_event P c ?e" using ok
    by (auto simp: import_event_def event_of_row_def sealed_row_def Let_def row_of_input_def import_input_def stable_stringify_canon canon_canon)
  ultimately show ?thesis using r ok id by (intro exI [of _ ?e]) simp
qed

lemma import_step:
  assumes "aead_ok C" and "hex_digest P" and "readAll P C st = Inr es" and "storable_payload c" and "importCandidate P C now n n' c st = (st', r)"
  shows "later_store P C st st' \<and> (\<forall>b. r = Inr b \<longrightarrow> imported_at P C c st')"
proof (cases "findLegacyImportReceipt st (ic_digest c)")
  case (Some x)
  then show ?thesis using assms(3,5) later_refl [OF assms(3)]
    by (auto simp: importCandidate_def imported_at_def imported_receipt_def split: if_splits)
next
  case None
  let ?m = "bindE (hasEvent st (ic_event c)) (\<lambda>present.
           if present then bindE (assertAuthenticatedImportEvent P C st c) (\<lambda>_. Inr (st, False))
           else bindE (append_event P C st (import_input c now) [] n n') (\<lambda>(st1, ev). Inr (st1, True)))"
  show ?thesis
  proof (cases ?m)
    case (Inl e)
    then have "st' = st" "r = Inl e" using assms(5) None by (simp_all add: importCandidate_def)
    then show ?thesis using later_refl [OF assms(3)] by simp
  next
    case (Inr p)
    then obtain st1 b where m: "?m = Inr (st1, b)" by (cases p) auto
    have rd: "\<exists>es1. readAll P C st1 = Inr es1 \<and> later_store P C st st1 \<and> assertAuthenticatedImportEvent P C st1 c = Inr () \<and> st_imports st1 = st_imports st"
    proof (cases b)
      case True
      then obtain ev where "append_event P C st (import_input c now) [] n n' = Inr (st1, ev)" using m by (auto split: if_splits)
      from import_appended [OF assms(1-4) this] obtain e where e: "readAll P C st1 = Inr (es @ [e])" "import_event P c e"
        "find (\<lambda>e. se_id e = ic_event c) es = None" "identifier_ok (ic_event c)" "st_imports st1 = st_imports st" by blast
      then have "assertAuthenticatedImportEvent P C st1 c = Inr ()" unfolding authenticated_iff [OF e(1)]
        by (simp add: find_append_one import_event_def)
      moreover have "later_store P C st st1" using assms(3) e(1,5) by (simp add: later_store_def findLegacyImportReceipt_def)
      ultimately show ?thesis using e(1,5) by blast
    next
      case False
      then have "st1 = st" "assertAuthenticatedImportEvent P C st c = Inr ()" using m by (auto split: if_splits)
      then show ?thesis using assms(3) later_refl by blast
    qed
    then obtain es1 where s1: "readAll P C st1 = Inr es1" "later_store P C st st1" "assertAuthenticatedImportEvent P C st1 c = Inr ()"
      "st_imports st1 = st_imports st" by blast
    have n1: "findLegacyImportReceipt st1 (lr_digest (import_receipt c now)) = None" using None s1(4) by (simp add: findLegacyImportReceipt_def import_receipt_def)
    show ?thesis
    proof (cases "recordLegacyImportReceipt st1 (import_receipt c now)")
      case (Inl e)
      then have "st' = st1" "r = Inl e" using assms(5) None m by (simp_all add: importCandidate_def)
      then show ?thesis using s1(2) by simp
    next
      case (Inr st2)
      then have r: "st' = st2" "r = Inr b" using assms(5) None m by (simp_all add: importCandidate_def)
      note rc = receipt_later [OF Inr n1 s1(1)]
      have "assertAuthenticatedImportEvent P C st2 c = Inr ()" using s1(3) unfolding authenticated_iff [OF s1(1)] authenticated_iff [OF rc(1)] .
      then have "imported_at P C c st2" using rc(3) by (simp add: imported_at_def imported_receipt_def import_receipt_def)
      then show ?thesis using r later_trans [OF s1(2) rc(2)] by simp
    qed
  qed
qed

section \<open>Planned candidates\<close>

lemma created_storable: "sound_json p \<Longrightarrow> storable_payload (createCandidate P k l aty ag ty p)"
  using defined_safe by (auto simp: storable_payload_def createCandidate_def Let_def sound_json_def)

lemma JSON_parse_sound: "JSON_parse H t = Inr v \<Longrightarrow> sound_json v"
  using json_parse_sound by (auto simp: JSON_parse_def split: option.splits)

lemma candidates_storable:
  "sound_json v \<Longrightarrow> storable_payload (state_candidate P key n v)"
  "sound_json v \<Longrightarrow> storable_payload (config_candidate P v)"
  "sound_json v \<Longrightarrow> storable_payload (ledger_candidate P v)"
  unfolding state_candidate_def config_candidate_def ledger_candidate_def Let_def
  by (rule created_storable, auto simp: sound_json_def jnull_def split: option.split)+

abbreviation all_storable :: "collected \<Rightarrow> bool" where
  "all_storable c \<equiv> list_all storable_payload (cl_candidates c)"

lemma collected_simps [simp]:
  "cl_candidates (add_key k c) = cl_candidates c" "cl_candidates (add_error e c) = cl_candidates c"
  "cl_candidates (add_warning w c) = cl_candidates c" "cl_candidates (add_candidate x c) = cl_candidates c @ [x]"
  by (simp_all add: add_key_def add_error_def add_warning_def add_candidate_def)

lemma state_file_storable: "all_storable c \<Longrightarrow> all_storable (collect_state_file P H f c)"
  unfolding collect_state_file_def Let_def
  by (auto simp: candidates_storable JSON_parse_sound split: sum.split error.split option.split)

lemma ledger_line_storable: "all_storable c \<Longrightarrow> all_storable (collect_ledger_line P H t n l c)"
  unfolding collect_ledger_line_def Let_def
  by (auto simp: candidates_storable JSON_parse_sound split: sum.split error.split)

lemma fold_keeps: "(\<And>x c. Q c \<Longrightarrow> Q (f x c)) \<Longrightarrow> Q c \<Longrightarrow> Q (fold f xs c)"
  by (induction xs arbitrary: c) simp_all

lemma planned_storable: "list_all storable_payload (ip_candidates (planLegacyImport P H fs))"
proof -
  have "all_storable (collectStateCandidates P H (lf_state fs) \<lparr>cl_keys = [], cl_candidates = [], cl_warnings = [], cl_errors = []\<rparr>)" (is "all_storable ?s")
    unfolding collectStateCandidates_def by (cases "lf_state fs") (simp_all add: fold_keeps [where Q = all_storable] state_file_storable)
  then have "all_storable (collectConfigCandidate P H (lf_config fs) ?s)" (is "all_storable ?c")
    unfolding collectConfigCandidate_def
    by (auto simp: candidates_storable JSON_parse_sound split: option.split sum.split error.split)
  then have "all_storable (collectLedgerCandidates P H (lf_ledger fs) ?c)"
    unfolding collectLedgerCandidates_def Let_def
    by (cases "lf_ledger fs") (simp_all add: fold_keeps [where Q = all_storable] ledger_line_storable)
  then show ?thesis by (simp add: planLegacyImport_def Let_def list_all_iff)
qed

section \<open>What a plan imports\<close>

text \<open>Only the configuration file brings a configuration.\<close>

definition planned_kind :: "bool \<Rightarrow> import_candidate \<Rightarrow> bool" where
  "planned_kind config c = ((ic_aggregate_type c, ic_type c) \<in> {(''legacy-state'', ''legacy-state-imported''),
     (''action-ledger'', ''legacy-action-ledger-entry-imported'')} \<or>
     config \<and> (ic_aggregate_type c, ic_type c) = (''runtime-config'', ''legacy-auto-apply-config-imported''))"

lemma candidate_kinds:
  "planned_kind b (state_candidate P key n v)" "planned_kind b (ledger_candidate P v)" "planned_kind True (config_candidate P v)"
  by (simp_all add: planned_kind_def state_candidate_def ledger_candidate_def config_candidate_def createCandidate_def Let_def)

abbreviation all_kinds :: "bool \<Rightarrow> collected \<Rightarrow> bool" where
  "all_kinds b c \<equiv> list_all (planned_kind b) (cl_candidates c)"

lemma state_file_kind: "all_kinds b c \<Longrightarrow> all_kinds b (collect_state_file P H f c)"
  unfolding collect_state_file_def Let_def
  by (auto simp: candidate_kinds split: sum.split error.split option.split)

lemma ledger_line_kind: "all_kinds b c \<Longrightarrow> all_kinds b (collect_ledger_line P H t n l c)"
  unfolding collect_ledger_line_def Let_def
  by (auto simp: candidate_kinds split: sum.split error.split)

lemma planned_kinds: "list_all (planned_kind (lf_config fs \<noteq> None)) (ip_candidates (planLegacyImport P H fs))"
proof -
  define b where "b = (lf_config fs \<noteq> None)"
  have "all_kinds b (collectStateCandidates P H (lf_state fs) \<lparr>cl_keys = [], cl_candidates = [], cl_warnings = [], cl_errors = []\<rparr>)" (is "all_kinds _ ?s")
    unfolding collectStateCandidates_def by (cases "lf_state fs") (simp_all add: fold_keeps [where Q = "all_kinds b"] state_file_kind)
  then have "all_kinds b (collectConfigCandidate P H (lf_config fs) ?s)" (is "all_kinds _ ?c")
    unfolding collectConfigCandidate_def
    by (auto simp: candidate_kinds b_def split: option.split sum.split error.split)
  then have "all_kinds b (collectLedgerCandidates P H (lf_ledger fs) ?c)"
    unfolding collectLedgerCandidates_def Let_def
    by (cases "lf_ledger fs") (simp_all add: fold_keeps [where Q = "all_kinds b"] ledger_line_kind)
  then show ?thesis by (simp add: planLegacyImport_def Let_def list_all_iff b_def)
qed

section \<open>What the request adds\<close>

text \<open>One candidate adds at most its event, whether its turn succeeds or not.\<close>

lemma candidate_events:
  assumes "aead_ok C" and "hex_digest P" and "readAll P C st = Inr es" and "storable_payload c" and "importCandidate P C now n n' c st = (st', r)"
  shows "\<exists>new. readAll P C st' = Inr (es @ new) \<and> list_all (import_event P c) new \<and> st_receipts st' = st_receipts st"
proof -
  have rc: "readAll P C st2 = readAll P C st1 \<and> st_receipts st2 = st_receipts st1"
    if "recordLegacyImportReceipt st1 x = Inr st2" for st1 st2 x
    using that by (auto simp: recordLegacyImportReceipt_def readAll_iff intro!: readAll_frame split: if_splits)
  have same: "\<exists>new. readAll P C st = Inr (es @ new) \<and> list_all (import_event P c) new \<and> st_receipts st = st_receipts st"
    using assms(3) by (intro exI [of _ "[]"]) simp
  have add: "\<exists>new. readAll P C st1 = Inr (es @ new) \<and> list_all (import_event P c) new \<and> st_receipts st1 = st_receipts st"
    if ap: "append_event P C st (import_input c now) [] n n' = Inr (st1, ev)" for st1 ev
  proof -
    obtain e where "readAll P C st1 = Inr (es @ [e])" "import_event P c e" using import_appended [OF assms(1-4) ap] by blast
    moreover have "st_receipts st1 = st_receipts st" using append_event_ok [OF ap, THEN conjunct1] by simp
    ultimately show ?thesis by (intro exI [of _ "[e]"]) simp
  qed
  show ?thesis using assms(5) same add
    by (auto simp: importCandidate_def rc split: option.splits sum.splits if_splits)
qed

lemma candidates_events:
  assumes "aead_ok C" and "hex_digest P" and "readAll P C st = Inr es" and "list_all storable_payload cs" and "importCandidates P C now rnd cs st = (st', r)"
  shows "\<exists>new. readAll P C st' = Inr (es @ new) \<and> list_all (\<lambda>e. \<exists>c \<in> set cs. import_event P c e) new \<and> st_receipts st' = st_receipts st"
  using assms(3-5)
proof (induction cs arbitrary: st es rnd r)
  case Nil
  then show ?case by (intro exI [of _ "[]"]) simp
next
  case (Cons c cs)
  obtain st1 b where s: "importCandidate P C now (fst (rnd 0)) (snd (rnd 0)) c st = (st1, b)" by fastforce
  have c: "storable_payload c" "list_all storable_payload cs" using Cons.prems(2) by simp_all
  obtain new where new: "readAll P C st1 = Inr (es @ new)" "list_all (import_event P c) new" "st_receipts st1 = st_receipts st"
    using candidate_events [OF assms(1,2) Cons.prems(1) c(1) s] by blast
  then have one: "list_all (\<lambda>e. \<exists>c \<in> set (c # cs). import_event P c e) new" by (auto simp: list_all_iff)
  show ?case
  proof (cases b)
    case (Inl e)
    then have "st' = st1" using Cons.prems(3) s by (simp add: bindS_def)
    then show ?thesis using new one by blast
  next
    case (Inr x)
    obtain r' where rest: "importCandidates P C now (rnd \<circ> Suc) cs st1 = (st', r')"
      using Cons.prems(3) s Inr by (cases "importCandidates P C now (rnd \<circ> Suc) cs st1") (auto simp: bindS_def liftS_def split: sum.splits)
    obtain more where more: "readAll P C st' = Inr ((es @ new) @ more)" "list_all (\<lambda>e. \<exists>c \<in> set cs. import_event P c e) more"
      "st_receipts st' = st_receipts st1"
      using Cons.IH [OF new(1) c(2) rest] by blast
    have "list_all (\<lambda>e. \<exists>c \<in> set (c # cs). import_event P c e) more" using more(2) by (auto simp: list_all_iff)
    then show ?thesis using more(1,3) one new(3) by (intro exI [of _ "new @ more"]) simp
  qed
qed

text \<open>What an import may append: no control event, and a configuration only from a configuration file.\<close>

definition brought_event :: "bool \<Rightarrow> stored_event \<Rightarrow> bool" where
  "brought_event config e = ((config_event e \<longrightarrow> config) \<and> \<not> approver_event e \<and> \<not> collector_event e)"

lemma brought_import: "planned_kind b c \<Longrightarrow> import_event P c e \<Longrightarrow> brought_event b e"
  by (auto simp: brought_event_def planned_kind_def import_event_def config_event_def approver_event_def collector_event_def)

lemma apply_events:
  assumes "aead_ok C" and "hex_digest P" and "readAll P C st = Inr es"
    and "applyLegacyImport P C (planLegacyImport P H fs) h now rnd st = (st', r)"
  shows "\<exists>new. readAll P C st' = Inr (es @ new) \<and> list_all (brought_event (lf_config fs \<noteq> None)) new \<and> st_receipts st' = st_receipts st"
proof -
  let ?cs = "ip_candidates (planLegacyImport P H fs)"
  consider "st' = st" | b where "importCandidates P C now rnd ?cs st = (st', b)"
    using assms(4) by (cases "importCandidates P C now rnd ?cs st")
      (auto simp: applyLegacyImport_def bindS_def liftS_def split: if_splits sum.splits)
  then show ?thesis
  proof cases
    case 1
    then show ?thesis using assms(3) by (intro exI [of _ "[]"]) simp
  next
    case 2
    obtain new where new: "readAll P C st' = Inr (es @ new)" "list_all (\<lambda>e. \<exists>c \<in> set ?cs. import_event P c e) new" "st_receipts st' = st_receipts st"
      using candidates_events [OF assms(1-3) planned_storable 2] by blast
    have "list_all (brought_event (lf_config fs \<noteq> None)) new"
      using new(2) planned_kinds [of fs P H] brought_import by (fastforce simp: list_all_iff)
    then show ?thesis using new(1,3) by blast
  qed
qed

lemma import_response_sound: "sound_json (import_response r b j)"
  by (simp add: import_response_def sound_json_def jstrs_def)

lemma import_request_events:
  assumes "aead_ok C" and "hex_digest P" and "readAll P C st = Inr es" and "rq_operation rq = ''legacy-import-apply''"
    and "legacy_import_apply P C H fs J rq now rnd uuid n n' h eid st = (st', r)"
  shows "\<exists>new rs. readAll P C st' = Inr (es @ new) \<and> list_all (brought_event (lf_config fs \<noteq> None)) new \<and> st_receipts st' = st_receipts st @ rs"
proof (cases "import_prepared C (planLegacyImport P H fs) J (rq_payload rq) st")
  case (Inl e)
  then have "st' = st" using assms(5) by (simp add: legacy_import_apply_def Let_def)
  then show ?thesis using assms(3) by (intro exI [of _ "[]"]) simp
next
  case (Inr x)
  obtain ph backup journal where x: "x = (ph, backup, journal)" by (cases x) auto
  obtain st1 a where ap: "applyLegacyImport P C (planLegacyImport P H fs) ph now rnd st = (st1, a)" by fastforce
  obtain new where new: "readAll P C st1 = Inr (es @ new)" "list_all (brought_event (lf_config fs \<noteq> None)) new" "st_receipts st1 = st_receipts st"
    using apply_events [OF assms(1-3) ap] by blast
  show ?thesis
  proof (cases "st' = st1")
    case True
    then show ?thesis using new by (intro exI [of _ new] exI [of _ "[]"]) simp
  next
    case False
    then obtain result y where rec: "recordCommand P C rq h eid (import_response result backup journal) now uuid n n' st1 = Inr (st', y)"
      using assms(5) Inr x ap by (auto simp: legacy_import_apply_def Let_def split: sum.splits)
    from recorded_command [OF assms(1,2) new(1) import_response_sound rec]
    obtain e rs where e: "readAll P C st' = Inr ((es @ new) @ [e])" "se_aggregate_type e = ''authority-command''"
      "se_type e = rq_operation rq @ ''-completed''" "st_receipts st' = st_receipts st1 @ rs" by blast
    have "brought_event (lf_config fs \<noteq> None) e"
      using e(2,3) assms(4) by (simp add: brought_event_def config_event_def approver_event_def collector_event_def)
    then show ?thesis using e(1,4) new by (intro exI [of _ "new @ [e]"] exI [of _ rs]) simp
  qed
qed

end
