(* ===== verification/RuntimeRuns.thy ===== *)
theory RuntimeRuns
  imports ImportEvents TrackerProps
begin

text \<open>
  Runs of the authority: its requests in any order, imports of legacy files included, with the events other parts append in
  between. Every step leaves the history as it was or appends events of a kind the step determines.
\<close>

section \<open>Control operations\<close>

definition control_response :: "authority_request \<Rightarrow> json \<Rightarrow> bool" where
  "control_response rq r = (
     rq_operation rq = ''approver-register'' \<and> (\<exists>t. r = registered_response ''approver'' (approver_json t) \<and> member (rq_payload rq) ''keyId'' = JStr (ta_key t)) \<or>
     rq_operation rq = ''approver-revoke'' \<and> (\<exists>k. r = revoked_response k \<and> member (rq_payload rq) ''keyId'' = JStr k \<and> k \<noteq> []) \<or>
     rq_operation rq = ''collector-register'' \<and> r = registered_response ''collector'' (rq_payload rq) \<or>
     rq_operation rq = ''collector-revoke'' \<and> (\<exists>k. r = revoked_response k) \<or> rq_operation rq = ''daemon-stop'')"

lemma text_matching_iff: "text_matching pat j msg = Inr s \<longleftrightarrow> j = JStr s \<and> pat s"
  by (cases j) (auto simp: text_matching_def)

lemma object_iff: "objectPayload j = Inr x \<longleftrightarrow> x = j \<and> isRecord j"
  by (auto simp: objectPayload_def)

lemma registered_sound: "sound_json x \<Longrightarrow> field \<noteq> ''action'' \<Longrightarrow> sound_json (registered_response field x)"
  by (simp add: registered_response_def sound_json_def)

lemma approver_register_ok: "approver_register P C K p st = Inr r \<Longrightarrow>
    \<exists>t. r = registered_response ''approver'' (approver_json t) \<and> member p ''keyId'' = JStr (ta_key t)"
  by (auto simp: approver_register_def text_matching_iff object_iff Let_def split: option.splits if_splits)

lemma collector_register_ok: "collector_register P C K p st = Inr r \<Longrightarrow> r = registered_response ''collector'' p"
  by (auto simp: collector_register_def object_iff split: option.splits if_splits)

lemma approver_revoke_ok: "approver_revoke p = Inr r \<Longrightarrow> \<exists>k. r = revoked_response k \<and> member p ''keyId'' = JStr k \<and> k \<noteq> []"
  by (auto simp: approver_revoke_def text_matching_iff object_iff approver_key_pattern_def key_pattern_def starts_with_def)

lemma control_cases:
  assumes "control_command P C K rq now uuid n n' h eid st = Inr (st', r)" and "sound_json (rq_payload rq)"
  obtains (recorded) "control_response rq r" and "sound_json r" and "recordCommand P C rq h eid r now uuid n n' st = Inr (st', r)"
  | (mutated) f where "mutateConfig P C rq h eid f now uuid n n' st = Inr (st', r)" and "\<And>c c'. f c = Inr c' \<Longrightarrow> config_op rq c c'"
proof -
  have sa: "sound_json (approver_json t)" for t by (simp add: approver_json_def sound_json_def)
  have sr: "sound_json (revoked_response k)" for k by (simp add: revoked_response_def sound_json_def)
  let ?rec = "\<lambda>x. bindE x (\<lambda>response. recordCommand P C rq h eid response now uuid n n' st) = Inr (st', r)"
  have rec: thesis if "?rec x" and "\<And>y. x = Inr y \<Longrightarrow> control_response rq y \<and> sound_json y" for x
  proof -
    obtain y where y: "x = Inr y" "recordCommand P C rq h eid y now uuid n n' st = Inr (st', r)" using \<open>?rec x\<close> unfolding bindE_Inr_iff by blast
    then have "r = y" by (auto simp: recordCommand_def)
    then show thesis using recorded that(2) y by blast
  qed
  let ?op = "rq_operation rq"
  note c = assms(1) [unfolded control_command_def Let_def]
  consider "?op = ''daemon-stop''" | "?op = ''auto-apply-kill''" | "?op = ''auto-apply-rearm''" | "?op = ''auto-apply-enable''"
    | "?op = ''approver-register''" | "?op = ''approver-revoke''" | "?op = ''collector-register''" | "?op = ''collector-revoke''"
    using c by (auto split: if_splits)
  then show thesis
  proof cases
    case 1
    show thesis by (rule rec [of "daemon_stop (rq_payload rq) now"])
      (use c 1 in \<open>auto simp: daemon_stop_def control_response_def sound_json_def\<close>)
  next
    case 2
    show thesis by (rule mutated [of "\<lambda>c. Inr (engageKillSwitch c ''authenticated-local-operator'' (kill_reason (rq_payload rq)) now)"])
      (use c 2 in \<open>auto simp: auto_apply_kill_def object_iff config_op_def\<close>)
  next
    case 3
    show thesis by (rule mutated [of "\<lambda>c. Inr (rearmAutoApplyAuthorized c)"])
      (use c 3 in \<open>auto simp: auto_apply_rearm_def object_iff config_op_def\<close>)
  next
    case 4
    then obtain m where m: "mutateConfig P C rq h eid (\<lambda>c. enableAutoApply c m) now uuid n n' st = Inr (st', r)"
      using c by (auto simp: auto_apply_enable_def split: if_splits)
    show thesis by (rule mutated [OF m]) (use 4 in \<open>auto simp: config_op_def\<close>)
  next
    case 5
    show thesis by (rule rec [of "approver_register P C K (rq_payload rq) st"])
      (use c 5 sa in \<open>auto simp: control_response_def registered_sound dest!: approver_register_ok\<close>)
  next
    case 6
    show thesis by (rule rec [of "approver_revoke (rq_payload rq)"]) (use c 6 sr in \<open>auto simp: control_response_def dest!: approver_revoke_ok\<close>)
  next
    case 7
    show thesis by (rule rec [of "collector_register P C K (rq_payload rq) st"])
      (use c 7 assms(2) in \<open>auto simp: control_response_def registered_sound dest!: collector_register_ok\<close>)
  next
    case 8
    have "\<exists>k. y = revoked_response k" if "collector_revoke (rq_payload rq) = Inr y" for y
      using that by (auto simp: collector_revoke_def split: if_splits)
    then show thesis by (intro rec [of "collector_revoke (rq_payload rq)"]) (use c 8 sr in \<open>auto simp: control_response_def\<close>)
  qed
qed

section \<open>Replays\<close>

lemma authority_event_id: "eventIdForRequest P q = deterministicEventId P q"
  by (simp add: eventIdForRequest_def deterministicEventId_def)

lemma request_identifier: "operation_id_pattern q \<Longrightarrow> identifier_ok q"
proof -
  assume p: "operation_id_pattern q"
  then obtain r where q: "q = ''REQ-'' @ r" and r: "8 \<le> length r" "length r \<le> 100" "list_all (\<lambda>c. is_alnum c \<or> c = CHR ''-'') r"
    by (auto simp: operation_id_pattern_def starts_with_iff Let_def)
  have "list_all (\<lambda>c. is_alnum c \<or> c \<in> set ''._:-'') r" using r(3) by (auto simp: list_all_iff)
  then show ?thesis using r(1,2) by (simp add: q identifier_ok_def is_alnum_def is_upper_def)
qed

lemma replay_reads: "replayAuthority P C rq h eid st = Inr (st', x) \<Longrightarrow> readAll P C st' = readAll P C st \<and> st_events st' = st_events st \<and>
    (x = None \<longrightarrow> st' = st)"
proof -
  assume a: "replayAuthority P C rq h eid st = Inr (st', x)"
  have "st' = st \<or> (\<exists>rs. st' = st\<lparr>st_receipts := rs\<rparr>) \<and> x \<noteq> None"
    using a unfolding replayAuthority_def by (auto simp: recordAuthorityReceipt_def split: option.splits if_splits)
  then show ?thesis using receipts_read by auto
qed

lemma find_snoc: "find f (xs @ ys) = (case find f xs of None \<Rightarrow> find f ys | Some x \<Rightarrow> Some x)"
  by (induction xs) simp_all

text \<open>A request whose event is in the history is answered from it.\<close>

lemma replay_answers:
  assumes "hex_digest P" and "readAll P C st = Inr es" and "operation_id_pattern (rq_id rq)"
    and "find (\<lambda>e. se_id e = eventIdForRequest P (rq_id rq)) es = Some e" and "answers P rq h (eventIdForRequest P (rq_id rq)) r e"
    and "case find (\<lambda>a. au_request a = rq_id rq) (st_receipts st) of None \<Rightarrow> True
       | Some a \<Rightarrow> a = authority_receipt_of P rq h (eventIdForRequest P (rq_id rq)) r (se_time e)"
  shows "\<exists>st'. replayAuthority P C rq h (eventIdForRequest P (rq_id rq)) st = Inr (st', Some r) \<and> st_events st' = st_events st \<and>
    find (\<lambda>a. au_request a = rq_id rq) (st_receipts st') = Some (authority_receipt_of P rq h (eventIdForRequest P (rq_id rq)) r (se_time e))"
proof -
  let ?eid = "eventIdForRequest P (rq_id rq)"
  have ev: "readEvent P C st ?eid = Inr (Some e)" using read_event [OF assms(1,2)] assms(4) by (simp add: authority_event_id)
  note q = request_identifier [OF assms(3)]
  have f: "findAuthorityReceipt st (rq_id rq) = Inr (find (\<lambda>a. au_request a = rq_id rq) (st_receipts st))"
    using q by (simp add: findAuthorityReceipt_def assertIdentifier_def)
  obtain b where b: "authorityBinding e = Inr b" "names_request rq h b" "member b ''responseHash'' = JStr (hash_json P r)" "authorityResponse e = Inr r"
    using assms(5) by (auto simp: answers_def)
  show ?thesis
  proof (cases "find (\<lambda>a. au_request a = rq_id rq) (st_receipts st)")
    case None
    have "\<forall>x \<in> set (st_receipts st). au_request x \<noteq> rq_id rq" using None by (simp add: find_None_iff)
    then have "recordAuthorityReceipt st (authority_receipt_of P rq h ?eid r (se_time e)) =
        Inr (st\<lparr>st_receipts := st_receipts st @ [authority_receipt_of P rq h ?eid r (se_time e)]\<rparr>)"
      using q by (auto simp: recordAuthorityReceipt_def assertIdentifier_def authority_receipt_of_def)
    then show ?thesis using None b ev
      by (simp add: replayAuthority_def f find_snoc) (simp add: authority_receipt_of_def)
  next
    case (Some a)
    then have a: "a = authority_receipt_of P rq h ?eid r (se_time e)" using assms(6) by simp
    then have "replayAuthority P C rq h ?eid st = Inr (st, Some r)"
      using b ev unfolding replayAuthority_def f Some by (simp add: authority_receipt_of_def)
    then show ?thesis using Some a by simp
  qed
qed

section \<open>Tracker operations\<close>

text \<open>An event that belongs to no control operation.\<close>

definition plain_event :: "stored_event \<Rightarrow> bool" where
  "plain_event e = (\<not> config_event e \<and> \<not> approver_event e \<and> \<not> collector_event e)"

lemma put_events:
  assumes "aead_ok C" and "hex_digest P" and "readAll P C st = Inr es" and "putSerialized P C D i uuid n n' st = Inr (st', r)"
    and "sound_json (dp_value i)" and "\<forall>a. dp_audit i = Some a \<longrightarrow> sound_json a"
  shows "readAll P C st' = Inr es \<or> (\<exists>e. readAll P C st' = Inr (es @ [e]) \<and> se_aggregate_type e = domain_type D \<and> se_type e = ''domain-record-put'' \<and>
    sound_json (se_payload e))"
proof -
  obtain rs where ef: "put_effect P C D i rs uuid n n' st st' r" using assms(4) unfolding put_iff [OF assms(3)] by blast
  show ?thesis
  proof (cases "find_operation (dp_operation i) rs")
    case (Some x)
    then have "st' = st" using ef unfolding put_effect_def by simp
    then show ?thesis using assms(3) by simp
  next
    case None
    let ?i = "domain_input P D (dd_id D (dp_value i)) ''domain-record-put'' (dp_event i) (dp_operation i) (dp_now i)
         (domain_payload P r (dp_audit i) (dp_authority i))"
    obtain ev where ap: "append_event P C st ?i uuid n n' = Inr (st', ev)"
      and r: "r = domain_record P D (dd_id D (dp_value i)) (int (length rs) + 1) (dp_value i) (dp_operation i) (dp_now i)"
      using ef unfolding put_effect_def None option.case by blast
    have "sound_json r" unfolding r by (rule domain_record_sound [OF assms(5)])
    then have "sound_json (ae_payload ?i)" using assms(6)
      by (auto simp: domain_input_def domain_payload_def sound_json_def split: option.splits)
    then show ?thesis using store_append_reads [OF assms(1-3) ap] by (metis (no_types, lifting) append_input.select_convs(2,4) domain_input_def)
  qed
qed

lemma tracker_puts:
  assumes "tracker_command P C t rq now uuid n n' h eid st = Inr (st', r)"
  obtains st1 where "recordPersistedResponse P rq h eid r now st1 = Inr st'"
    and "st1 = st \<or> (\<exists>a v x audit. putSerialized P C (APPLICATIONS P) (tracker_put a v x audit) uuid n n' st = Inr (st1, r) \<and>
      (\<forall>j. audit = Some j \<longrightarrow> sound_json j))"
proof -
  obtain ts cs st1 where rc: "recordPersistedResponse P rq h eid r now st1 = Inr st'"
    and t: "(case t of
         TrackCreate i aid \<Rightarrow> tracker_create P C i (request_context rq h eid now) aid uuid n n' st
       | TrackApprove aid v ap \<Rightarrow> tracker_approve P C ts aid v ap (request_context rq h eid now) uuid n n' st
       | TrackSubmit aid v \<Rightarrow> tracker_markSubmitted P C ts aid v (request_context rq h eid now) uuid n n' st
       | TrackBlock aid v blocker \<Rightarrow> tracker_block P C aid v blocker (request_context rq h eid now) uuid n n' st
       | TrackConfirm aid v p lid \<Rightarrow> tracker_confirm P C cs aid v p (request_context rq h eid now) lid uuid n n' st) = Inr (st1, r)"
    using assms unfolding tracker_command_def Let_def bindE_Inr_iff by auto
  have "st1 = st \<or> (\<exists>a v x audit. putSerialized P C (APPLICATIONS P) (tracker_put a v x audit) uuid n n' st = Inr (st1, r) \<and>
      (\<forall>j. audit = Some j \<longrightarrow> sound_json j))"
  proof (cases t)
    case (TrackConfirm aid v p lid)
    then obtain cur a ev e where "tracker_save P C cur a (request_context rq h eid now) (Some (confirmation_audit p ev e)) uuid n n' st = Inr (st1, r)"
      using t by (auto simp: tracker_confirm_def)
    then show ?thesis unfolding tracker_save_def using audit_sound [of p ev e] by blast
  next
    case (TrackCreate i aid)
    then have "st1 = st \<or> (\<exists>a. putSerialized P C (APPLICATIONS P) (tracker_put a 0 (request_context rq h eid now) None) uuid n n' st = Inr (st1, r))"
      using t by (auto simp: tracker_create_def split: option.splits)
    then show ?thesis by blast
  qed (use t in \<open>auto simp: tracker_approve_def tracker_markSubmitted_def tracker_block_def tracker_save_def\<close>)
  then show thesis using that rc by blast
qed

lemma tracker_events:
  assumes "aead_ok C" and "hex_digest P" and "readAll P C st = Inr es" and "tracker_command P C t rq now uuid n n' h eid st = Inr (st', r)"
  shows "readAll P C st' = Inr es \<or> (\<exists>e. readAll P C st' = Inr (es @ [e]) \<and> plain_event e)"
proof -
  obtain st1 where rc: "recordPersistedResponse P rq h eid r now st1 = Inr st'" and st1: "st1 = st \<or> (\<exists>a v x audit. putSerialized P C (APPLICATIONS P) (tracker_put a v x audit) uuid n n' st = Inr (st1, r) \<and>
      (\<forall>j. audit = Some j \<longrightarrow> sound_json j))" using tracker_puts [OF assms(4)] by metis
  have "\<exists>rs. st' = st1\<lparr>st_receipts := rs\<rparr>" using rc by (auto simp: recordPersistedResponse_def recordAuthorityReceipt_def split: if_splits)
  then have rd: "readAll P C st' = readAll P C st1" using receipts_read by auto
  show ?thesis
  proof (cases "st1 = st")
    case False
    then obtain a v x audit where p: "putSerialized P C (APPLICATIONS P) (tracker_put a v x audit) uuid n n' st = Inr (st1, r)"
      "\<forall>j. audit = Some j \<longrightarrow> sound_json j" using st1 by blast
    have "sound_json (dp_value (tracker_put a v x audit))" "\<forall>j. dp_audit (tracker_put a v x audit) = Some j \<longrightarrow> sound_json j"
      using p(2) by (simp_all add: tracker_put_def attempt_sound)
    then show ?thesis using put_events [OF assms(1-3) p(1)] rd
      by (auto simp: plain_event_def config_event_def approver_event_def collector_event_def domain_type_applications)
  qed (use rd assms(3) in simp)
qed

section \<open>Steps\<close>

text \<open>The control requests that may occur, and the legacy files that may be imported, are parameters of the relation. A request
  for an import counts whether it succeeds or fails on the way, with what it has written by then.\<close>

inductive runtime_step ::
  "platform \<Rightarrow> crypto \<Rightarrow> key_platform \<Rightarrow> 's credential_ops \<Rightarrow> (authority_request \<Rightarrow> bool) \<Rightarrow> (legacy_files \<Rightarrow> bool) \<Rightarrow> store \<Rightarrow> store \<Rightarrow> bool"
  for P :: platform and C :: crypto and K :: key_platform and ops :: "'s credential_ops" and allowed :: "authority_request \<Rightarrow> bool"
    and brings :: "legacy_files \<Rightarrow> bool" where
  rt_control: "allowed rq \<Longrightarrow> sound_json (rq_payload rq) \<Longrightarrow>
    execute P C ops rq (control_command P C K rq now uuid n n') (st, s) = Inr (st', r) \<Longrightarrow> runtime_step P C K ops allowed brings st st'"
| rt_tracker: "execute P C ops rq (tracker_command P C t rq now uuid n n') (st, s) = Inr (st', r) \<Longrightarrow>
    runtime_step P C K ops allowed brings st st'"
| rt_import: "brings fs \<Longrightarrow> rq_operation rq = ''legacy-import-apply'' \<Longrightarrow>
    execute_action P C ops rq (legacy_import_apply P C H fs J rq now rnd uuid n n') (st, s) = (st', r) \<Longrightarrow>
    runtime_step P C K ops allowed brings st st'"
| rt_other: "append_event P C st i uuid n n' = Inr (st', ev) \<Longrightarrow> sound_json (ae_payload i) \<Longrightarrow> ae_aggregate_type i \<noteq> ''runtime-config'' \<Longrightarrow>
    ae_type i \<notin> {''approver-register-completed'', ''approver-revoke-completed'', ''collector-register-completed'', ''collector-revoke-completed''} \<Longrightarrow>
    runtime_step P C K ops allowed brings st st'"
| rt_keep: "store_step P C st st' \<Longrightarrow> st_events st' = st_events st \<Longrightarrow> runtime_step P C K ops allowed brings st st'"

text \<open>The event that an executed control request adds to the history.\<close>

definition control_event :: "platform \<Rightarrow> (authority_request \<Rightarrow> bool) \<Rightarrow> stored_event list \<Rightarrow> stored_event \<Rightarrow> bool" where
  "control_event P allowed es e = (\<exists>rq r. allowed rq \<and> se_type e = rq_operation rq @ ''-completed'' \<and>
     ((\<exists>c c'. config_at P es = Inr c \<and> config_op rq c c' \<and> wf_config c' \<and> config_event e \<and> r = config_json c' \<and>
         config_at P (es @ [e]) = Inr (config_of (canon (coll_key P) r))) \<or>
      (control_response rq r \<and> sound_json r \<and> \<not> config_event e \<and> se_payload e \<notin> {JNull, JUndef} \<and>
        member (se_payload e) ''response'' = canon (coll_key P) r)))"

lemma execute_iff: "execute P C ops rq f w = Inr (st', r) \<longleftrightarrow> operation_id_pattern (rq_id rq) \<and> isOk (verifyCheckpointChain P C ops w) \<and>
    (\<exists>st1 x. replayAuthority P C rq (authorityRequestHash P rq) (eventIdForRequest P (rq_id rq)) (fst w) = Inr (st1, x) \<and>
      (case x of Some y \<Rightarrow> st' = st1 \<and> r = y | None \<Rightarrow> f (authorityRequestHash P rq) (eventIdForRequest P (rq_id rq)) st1 = Inr (st', r)))"
  unfolding execute_def Let_def bindE_Inr_iff assertRequestId_def by (auto simp: isOk_iff split: option.splits)

lemma control_events:
  assumes "aead_ok C" and "hex_digest P" and "readAll P C st = Inr es" and "order_free P ''auto-apply-config''" and "allowed rq"
    and "control_command P C K rq now uuid n n' h eid st = Inr (st', r)" and "sound_json (rq_payload rq)"
  shows "\<exists>e. readAll P C st' = Inr (es @ [e]) \<and> control_event P allowed es e"
  using assms(6,7)
proof (cases rule: control_cases)
  case recorded
  from recorded_command [OF assms(1-3) recorded(2,3)]
  obtain e where e: "readAll P C st' = Inr (es @ [e])" "se_aggregate_type e = ''authority-command''" "se_type e = rq_operation rq @ ''-completed''"
    "se_payload e \<notin> {JNull, JUndef}" "member (se_payload e) ''response'' = canon (coll_key P) r" by blast
  have "\<not> config_event e" using e(2) by (simp add: config_event_def)
  then show ?thesis using e recorded assms(5) unfolding control_event_def by blast
next
  case (mutated f)
  from mutated_config [OF assms(1-4) mutated] show ?thesis using assms(5) unfolding control_event_def by blast
qed

text \<open>The events of a step, one after the other: of other parts, of a control request, or brought by an import.\<close>

definition next_event :: "platform \<Rightarrow> (authority_request \<Rightarrow> bool) \<Rightarrow> (legacy_files \<Rightarrow> bool) \<Rightarrow> stored_event list \<Rightarrow> stored_event \<Rightarrow> bool" where
  "next_event P allowed brings es e = (plain_event e \<or> control_event P allowed es e \<or>
     (\<exists>fs. brings fs \<and> brought_event (lf_config fs \<noteq> None) e))"

fun next_events :: "platform \<Rightarrow> (authority_request \<Rightarrow> bool) \<Rightarrow> (legacy_files \<Rightarrow> bool) \<Rightarrow> stored_event list \<Rightarrow> stored_event list \<Rightarrow> bool" where
  "next_events P allowed brings es [] = True"
| "next_events P allowed brings es (e # new) = (next_event P allowed brings es e \<and> next_events P allowed brings (es @ [e]) new)"

lemma brought_events: "brings fs \<Longrightarrow> list_all (brought_event (lf_config fs \<noteq> None)) new \<Longrightarrow> next_events P allowed brings es new"
  by (induction new arbitrary: es) (auto simp: next_event_def)

lemma next_events_keep:
  "next_events P allowed brings es new \<Longrightarrow> Q es \<Longrightarrow>
   (\<And>es e. Q es \<Longrightarrow> next_event P allowed brings es e \<Longrightarrow> Q (es @ [e])) \<Longrightarrow> Q (es @ new)"
  by (induction new arbitrary: es) fastforce+

lemma execute_action_cases:
  assumes "execute_action P C ops rq f (st, s) = (st', r)"
  obtains (kept) "readAll P C st' = readAll P C st" and "\<exists>rs. st_receipts st' = st_receipts st @ rs"
  | (ran) h eid where "f h eid st = (st', r)"
proof -
  let ?h = "authorityRequestHash P rq" and ?eid = "eventIdForRequest P (rq_id rq)"
  show thesis
  proof (cases "replayAuthority P C rq ?h ?eid st")
    case (Inl e)
    then have "st' = st" using assms
      by (cases "assertRequestId (rq_id rq)"; cases "verifyCheckpointChain P C ops (st, s)") (auto simp: execute_action_def Let_def)
    then show thesis using kept by simp
  next
    case (Inr p)
    obtain st1 x where p: "p = (st1, x)" by (cases p)
    note rp = replay_reads [OF Inr [unfolded p]]
    have g: "\<exists>rs. st_receipts st1 = st_receipts st @ rs"
      using Inr p unfolding replayAuthority_def by (auto simp: recordAuthorityReceipt_def split: option.splits if_splits)
    consider "st' = st" | "st' = st1" "x \<noteq> None" | "x = None" "f ?h ?eid st1 = (st', r)"
      using assms Inr p
      by (cases "assertRequestId (rq_id rq)"; cases "verifyCheckpointChain P C ops (st, s)"; cases x) (auto simp: execute_action_def Let_def)
    then show thesis
    proof cases
      case 1
      then show thesis using kept by simp
    next
      case 2
      then show thesis using kept rp g by simp
    next
      case 3
      then show thesis using ran [of ?h ?eid] rp by simp
    qed
  qed
qed

lemma step_events:
  assumes "aead_ok C" and "hex_digest P" and "readAll P C st = Inr es" and "order_free P ''auto-apply-config''"
    and "runtime_step P C K ops allowed brings st st'"
  shows "\<exists>new. readAll P C st' = Inr (es @ new) \<and> next_events P allowed brings es new"
proof -
  have none: ?thesis if "readAll P C st' = Inr es" using that by (intro exI [of _ "[]"]) simp
  have one: ?thesis if "readAll P C st' = Inr (es @ [e])" and "plain_event e \<or> control_event P allowed es e" for e
    using that by (intro exI [of _ "[e]"]) (auto simp: next_event_def)
  show ?thesis using assms(5)
  proof cases
    case (rt_control rq now uuid n n' s r)
    then obtain st1 x where x: "replayAuthority P C rq (authorityRequestHash P rq) (eventIdForRequest P (rq_id rq)) st = Inr (st1, x)"
      "case x of Some y \<Rightarrow> st' = st1 \<and> r = y
       | None \<Rightarrow> control_command P C K rq now uuid n n' (authorityRequestHash P rq) (eventIdForRequest P (rq_id rq)) st1 = Inr (st', r)"
      unfolding execute_iff fst_conv by blast
    show ?thesis
    proof (cases x)
      case None
      then have "st1 = st" "control_command P C K rq now uuid n n' (authorityRequestHash P rq) (eventIdForRequest P (rq_id rq)) st1 = Inr (st', r)"
        using x replay_reads [OF x(1)] by simp_all
      then show ?thesis using control_events [where allowed = allowed, OF assms(1-4) rt_control(1) _ rt_control(2)] one by blast
    next
      case (Some y)
      then show ?thesis using x replay_reads [OF x(1)] assms(3) none by auto
    qed
  next
    case (rt_tracker rq t now uuid n n' s r)
    then obtain st1 x where x: "replayAuthority P C rq (authorityRequestHash P rq) (eventIdForRequest P (rq_id rq)) st = Inr (st1, x)"
      "case x of Some y \<Rightarrow> st' = st1 \<and> r = y
       | None \<Rightarrow> tracker_command P C t rq now uuid n n' (authorityRequestHash P rq) (eventIdForRequest P (rq_id rq)) st1 = Inr (st', r)"
      unfolding execute_iff fst_conv by blast
    show ?thesis
    proof (cases x)
      case None
      then have "st1 = st" "tracker_command P C t rq now uuid n n' (authorityRequestHash P rq) (eventIdForRequest P (rq_id rq)) st1 = Inr (st', r)"
        using x replay_reads [OF x(1)] by simp_all
      then show ?thesis using tracker_events [OF assms(1-3)] none one by blast
    next
      case (Some y)
      then show ?thesis using x replay_reads [OF x(1)] assms(3) none by auto
    qed
  next
    case (rt_import fs rq H J now rnd uuid n n' s r)
    from rt_import(3) show ?thesis
    proof (cases rule: execute_action_cases)
      case kept
      then show ?thesis using assms(3) none by simp
    next
      case (ran h eid)
      from import_request_events [OF assms(1-3) rt_import(2) ran] show ?thesis using brought_events [of brings fs] rt_import(1) by blast
    qed
  next
    case (rt_other i uuid n n' ev)
    show ?thesis
    proof (rule store_append_reads [OF assms(1-3) rt_other(1,2)])
      fix e assume "readAll P C st' = Inr (es @ [e])" "se_aggregate_type e = ae_aggregate_type i" "se_type e = ae_type i"
      then show ?thesis using rt_other(3,4) by (intro one) (auto simp: plain_event_def config_event_def approver_event_def collector_event_def)
    qed
  next
    case rt_keep
    then show ?thesis using keep_reads assms(3) none by metis
  qed
qed

text \<open>A property of histories that every next event keeps holds after any run.\<close>

lemma runs_keep:
  assumes "aead_ok C" and "hex_digest P" and "order_free P ''auto-apply-config''" and "(runtime_step P C K ops allowed brings)\<^sup>*\<^sup>* st st'"
    and "readAll P C st = Inr es" and "Q es"
    and "\<And>es e. Q es \<Longrightarrow> next_event P allowed brings es e \<Longrightarrow> Q (es @ [e])"
  shows "\<exists>es'. readAll P C st' = Inr es' \<and> Q es'"
  using assms(4)
proof (induction rule: rtranclp_induct)
  case base
  then show ?case using assms(5,6) by blast
next
  case (step st1 st2)
  then obtain es1 where es1: "readAll P C st1 = Inr es1" "Q es1" by blast
  then obtain new where "readAll P C st2 = Inr (es1 @ new)" "next_events P allowed brings es1 new"
    using step_events [OF assms(1,2) es1(1) assms(3) step(2)] by blast
  then show ?case using next_events_keep [OF _ es1(2) assms(7)] by blast
qed

end
