(* ===== verification/RuntimeProps.thy ===== *)
theory RuntimeProps
  imports RuntimeRuns
begin

text \<open>
  What the authority keeps over any run: an engaged kill switch stays in force until it is rearmed, a revoked
  approver stays out until registered again, and a request takes effect once.
\<close>

section \<open>The kill switch\<close>

definition disarmed :: "auto_apply_config \<Rightarrow> bool" where
  "disarmed c = (ks_engaged (cf_kill c) \<and> \<not> cf_enabled c \<and> cf_mode c = Manual)"

lemma disarmed_refuses: "disarmed (ai_config i) \<Longrightarrow> \<not> ad_allowed (fst (decideAutoApply P F i))"
  using decideAutoApply_allowed by (auto simp: gates_def Let_def disarmed_def)

lemma disarmed_read_back: "wf_config c \<Longrightarrow> disarmed (config_of (canon ck (config_json c))) = disarmed c"
  unfolding disarmed_def by (simp add: config_read_back(1-3))

definition disarmed_at :: "platform \<Rightarrow> stored_event list \<Rightarrow> bool" where
  "disarmed_at P es = (\<exists>c. config_at P es = Inr c \<and> disarmed c)"

lemma disarmed_kept:
  assumes "disarmed_at P es"
    and "next_event P (\<lambda>q. rq_operation q \<noteq> ''auto-apply-rearm'') (\<lambda>fs. lf_config fs = None) es e"
  shows "disarmed_at P (es @ [e])"
proof (cases "config_event e")
  case False
  then show ?thesis using assms(1) by (simp add: disarmed_at_def config_at_other)
next
  case True
  then obtain rq c c' where c: "rq_operation rq \<noteq> ''auto-apply-rearm''" "config_at P es = Inr c" "config_op rq c c'" "wf_config c'"
    "config_at P (es @ [e]) = Inr (config_of (canon (coll_key P) (config_json c')))"
    using assms(2) unfolding next_event_def plain_event_def brought_event_def control_event_def by auto
  have "disarmed c" using assms(1) c(2) by (simp add: disarmed_at_def)
  then have "disarmed c'" using c(1,3) by (auto simp: config_op_def disarmed_def engageKillSwitch_def enableAutoApply_def)
  then show ?thesis using c(4,5) by (simp add: disarmed_at_def disarmed_read_back)
qed

text \<open>A request that was not executed before.\<close>

definition fresh_request :: "platform \<Rightarrow> authority_request \<Rightarrow> stored_event list \<Rightarrow> bool" where
  "fresh_request P rq es = (\<forall>e \<in> set es. se_id e \<noteq> eventIdForRequest P (rq_id rq))"

lemma fresh_executes:
  assumes "hex_digest P" and "readAll P C st = Inr es" and "fresh_request P rq es" and "execute P C ops rq f (st, s) = Inr (st', r)"
  shows "f (authorityRequestHash P rq) (eventIdForRequest P (rq_id rq)) st = Inr (st', r)"
proof -
  let ?eid = "eventIdForRequest P (rq_id rq)"
  have "find (\<lambda>e. se_id e = ?eid) es = None" using assms(3) by (simp add: fresh_request_def find_None_iff)
  then have ev: "readEvent P C st ?eid = Inr None" using read_event [OF assms(1,2)] by (simp add: authority_event_id)
  obtain st1 x where x: "replayAuthority P C rq (authorityRequestHash P rq) ?eid st = Inr (st1, x)"
    "case x of Some y \<Rightarrow> st' = st1 \<and> r = y | None \<Rightarrow> f (authorityRequestHash P rq) ?eid st1 = Inr (st', r)"
    using assms(4) unfolding execute_iff by auto
  then have "x = None \<and> st1 = st" unfolding replayAuthority_def ev by (auto split: option.splits if_splits)
  then show ?thesis using x(2) by simp
qed

lemma kill_disarms:
  assumes "aead_ok C" and "hex_digest P" and "readAll P C st = Inr es" and "order_free P ''auto-apply-config''"
    and "fresh_request P rq es" and "rq_operation rq = ''auto-apply-kill''" and "sound_json (rq_payload rq)"
    and "execute P C ops rq (control_command P C K rq now uuid n n') (st, s) = Inr (st', r)"
  shows "\<exists>es'. readAll P C st' = Inr es' \<and> disarmed_at P es'"
proof -
  have "control_command P C K rq now uuid n n' (authorityRequestHash P rq) (eventIdForRequest P (rq_id rq)) st = Inr (st', r)"
    by (rule fresh_executes [OF assms(2,3,5,8)])
  from control_events [where allowed = "\<lambda>q. q = rq", OF assms(1-4) refl this assms(7)]
  obtain e where e: "readAll P C st' = Inr (es @ [e])" "control_event P (\<lambda>q. q = rq) es e" by blast
  have "\<not> control_response rq y" for y using assms(6) by (simp add: control_response_def)
  then obtain c c' where c: "config_op rq c c'" "wf_config c'" "config_at P (es @ [e]) = Inr (config_of (canon (coll_key P) (config_json c')))"
    using e(2) unfolding control_event_def by blast
  have "disarmed c'" using c(1) assms(6) by (auto simp: config_op_def disarmed_def engageKillSwitch_def)
  then show ?thesis using e(1) c(2,3) by (auto simp: disarmed_at_def disarmed_read_back)
qed

section \<open>Registries\<close>

lemma registry_run_append: "registry_run f c reg (xs @ ys) = bindE (registry_run f c reg xs) (\<lambda>r. registry_run f c r ys)"
proof (induction xs arbitrary: reg)
  case (Cons x xs)
  then show ?case by (cases "registry_step f c reg x") simp_all
qed simp

abbreviation approvers_at :: "stored_event list \<Rightarrow> registry result" where
  "approvers_at es \<equiv> registry_run ''approver'' (\<lambda>_. Inr ()) [] (filter approver_event es)"

lemma approvers_snoc: "approvers_at es = Inr reg \<Longrightarrow>
    approvers_at (es @ [e]) = (if approver_event e then registry_step ''approver'' (\<lambda>_. Inr ()) reg e else Inr reg)"
  by (cases "registry_step ''approver'' (\<lambda>_. Inr ()) reg e") (simp_all add: registry_run_append)

text \<open>Every entry is a registered approver under its key.\<close>

definition proper_entry :: "json \<times> json \<Rightarrow> bool" where
  "proper_entry x = (\<exists>t. approver_of (snd x) = t \<and> fst x = JStr (ta_key t) \<and> member (snd x) ''keyId'' = fst x)"

definition registry_of :: "stored_event list \<Rightarrow> registry \<Rightarrow> bool" where
  "registry_of es reg = (approvers_at es = Inr reg \<and> list_all proper_entry reg)"

lemma approver_sound: "sound_json (approver_json t)"
  by (simp add: approver_json_def sound_json_def)

lemma approver_read_back: "approver_of (canon ck (approver_json t)) = t" "member (canon ck (approver_json t)) ''keyId'' = JStr (ta_key t)"
  unfolding approver_of_def text_of_def member_canon [OF approver_sound] by (simp_all add: approver_json_def member_def)

lemma response_members:
  "member (canon ck (registered_response ''approver'' (approver_json t))) ''action'' = JStr ''registered''"
  "member (canon ck (registered_response ''approver'' (approver_json t))) ''approver'' = canon ck (approver_json t)"
  "member (canon ck (registered_response ''approver'' (approver_json t))) ''keyId'' = JUndef"
  "member (canon ck (revoked_response k)) ''action'' = JStr ''revoked''" "member (canon ck (revoked_response k)) ''keyId'' = JStr k"
proof -
  have s: "sound_json (registered_response ''approver'' (approver_json t))" "sound_json (revoked_response k)"
    by (simp_all add: registered_sound approver_sound) (simp add: revoked_response_def sound_json_def)
  show "member (canon ck (registered_response ''approver'' (approver_json t))) ''action'' = JStr ''registered''"
    "member (canon ck (registered_response ''approver'' (approver_json t))) ''approver'' = canon ck (approver_json t)"
    "member (canon ck (registered_response ''approver'' (approver_json t))) ''keyId'' = JUndef"
    "member (canon ck (revoked_response k)) ''action'' = JStr ''revoked''" "member (canon ck (revoked_response k)) ''keyId'' = JStr k"
    unfolding member_canon [OF s(1)] member_canon [OF s(2)] by (simp_all add: registered_response_def revoked_response_def member_def)
qed

text \<open>What an event does to the registry.\<close>

lemma registry_grows:
  assumes "registry_of es reg" and "next_event P allowed brings es e"
  shows "\<exists>reg'. registry_of (es @ [e]) reg' \<and>
    (reg' = reg \<and> \<not> approver_event e \<or> (\<exists>rq t. allowed rq \<and> rq_operation rq = ''approver-register'' \<and> member (rq_payload rq) ''keyId'' = JStr (ta_key t) \<and>
        reg' = upsert (JStr (ta_key t)) (canon (coll_key P) (approver_json t)) reg) \<or>
     (\<exists>rq k. allowed rq \<and> rq_operation rq = ''approver-revoke'' \<and> member (rq_payload rq) ''keyId'' = JStr k \<and>
        reg' = filter (\<lambda>e. fst e \<noteq> JStr k) reg))"
proof (cases "approver_event e")
  case False
  then show ?thesis using assms(1) by (intro exI [of _ reg]) (simp add: registry_of_def)
next
  case True
  have reg: "approvers_at es = Inr reg" "list_all proper_entry reg" using assms(1) by (simp_all add: registry_of_def)
  have "control_event P allowed es e" using assms(2) True by (auto simp: next_event_def plain_event_def brought_event_def)
  then obtain rq r where rq: "allowed rq" "se_type e = rq_operation rq @ ''-completed''"
    and cases: "(\<exists>c c'. config_op rq c c') \<or> (control_response rq r \<and> se_payload e \<notin> {JNull, JUndef} \<and> member (se_payload e) ''response'' = canon (coll_key P) r)"
    unfolding control_event_def by blast
  have "\<not> config_op rq c c'" for c c' using True rq(2) by (auto simp: approver_event_def config_op_def)
  then have cr: "control_response rq r" and pl: "se_payload e \<notin> {JNull, JUndef} \<and> member (se_payload e) ''response'' = canon (coll_key P) r"
    using cases by blast+
  have op: "rq_operation rq = ''approver-register'' \<or> rq_operation rq = ''approver-revoke''"
    using True rq(2) cr by (auto simp: approver_event_def control_response_def)
  from op show ?thesis
  proof
    assume op1: "rq_operation rq = ''approver-register''"
    then obtain t where t: "r = registered_response ''approver'' (approver_json t)" "member (rq_payload rq) ''keyId'' = JStr (ta_key t)"
      using cr by (auto simp: control_response_def)
    let ?x = "canon (coll_key P) (approver_json t)" and ?reg = "upsert (JStr (ta_key t)) (canon (coll_key P) (approver_json t)) reg"
    have "truthy ?x" by (simp add: truthy_def approver_json_def)
    then have "registry_step ''approver'' (\<lambda>_. Inr ()) reg e = Inr ?reg"
      using pl by (simp add: registry_step_def prop_of_def t(1) response_members Let_def approver_read_back truthy_def)
    moreover have "proper_entry (JStr (ta_key t), ?x)" by (simp add: proper_entry_def approver_read_back)
    then have "list_all proper_entry ?reg" using reg(2) by (auto simp: list_all_iff dest!: upsert_set)
    ultimately have "registry_of (es @ [e]) ?reg" unfolding registry_of_def approvers_snoc [OF reg(1)] using True by simp
    then show ?thesis using rq(1) op1 t(2) by blast
  next
    assume op2: "rq_operation rq = ''approver-revoke''"
    then obtain k where k: "r = revoked_response k" "member (rq_payload rq) ''keyId'' = JStr k" "k \<noteq> []"
      using cr by (auto simp: control_response_def)
    let ?reg = "filter (\<lambda>e. fst e \<noteq> JStr k) reg"
    have "registry_step ''approver'' (\<lambda>_. Inr ()) reg e = Inr ?reg"
      using pl k(3) by (simp add: registry_step_def prop_of_def k(1) response_members Let_def truthy_def)
    moreover have "list_all proper_entry ?reg" using reg(2) by (auto simp: list_all_iff)
    ultimately have "registry_of (es @ [e]) ?reg" unfolding registry_of_def approvers_snoc [OF reg(1)] using True by simp
    then show ?thesis using rq(1) op2 k(2) by blast
  qed
qed

lemma registry_runs:
  assumes "aead_ok C" and "hex_digest P" and "order_free P ''auto-apply-config''" and "(runtime_step P C K ops allowed brings)\<^sup>*\<^sup>* st st'"
    and "readAll P C st = Inr es" and "registry_of es reg" and "JStr k \<notin> fst ` set reg"
    and "\<And>rq. allowed rq \<Longrightarrow> rq_operation rq = ''approver-register'' \<Longrightarrow> member (rq_payload rq) ''keyId'' \<noteq> JStr k"
  shows "\<exists>es' reg'. readAll P C st' = Inr es' \<and> registry_of es' reg' \<and> JStr k \<notin> fst ` set reg'"
proof -
  let ?Q = "\<lambda>es. \<exists>reg. registry_of es reg \<and> JStr k \<notin> fst ` set reg"
  have "?Q (es @ [e])" if q: "?Q es" and e: "next_event P allowed brings es e" for es e
  proof -
    obtain reg where reg: "registry_of es reg" "JStr k \<notin> fst ` set reg" using q by blast
    from registry_grows [OF reg(1) e] obtain reg' where reg': "registry_of (es @ [e]) reg'"
      "reg' = reg \<or> (\<exists>rq t. allowed rq \<and> rq_operation rq = ''approver-register'' \<and> member (rq_payload rq) ''keyId'' = JStr (ta_key t) \<and>
        reg' = upsert (JStr (ta_key t)) (canon (coll_key P) (approver_json t)) reg) \<or>
       (\<exists>rq k. reg' = filter (\<lambda>e. fst e \<noteq> JStr k) reg)" by blast
    have "JStr k \<notin> fst ` set reg'" using reg'(2)
    proof (elim disjE exE conjE)
      fix rq t
      assume a: "allowed rq" "rq_operation rq = ''approver-register''" "member (rq_payload rq) ''keyId'' = JStr (ta_key t)"
        "reg' = upsert (JStr (ta_key t)) (canon (coll_key P) (approver_json t)) reg"
      have "ta_key t \<noteq> k" using assms(8) [OF a(1,2)] a(3) by auto
      then show ?thesis using reg(2) unfolding a(4) upsert_fst by simp
    qed (use reg(2) in auto)
    then show ?thesis using reg'(1) by blast
  qed
  from runs_keep [OF assms(1-5), of ?Q, OF _ this] show ?thesis using assms(6,7) by blast
qed

lemma registry_keys:
  assumes "readAll P C st = Inr es" and "registry_of es reg"
  shows "\<exists>ts. listTrustedApprovers P C st = Inr ts \<and> (\<forall>t \<in> set ts. JStr (ta_key t) \<in> fst ` set reg)"
proof -
  have "listTrustedApprovers P C st = Inr (map approver_of (sorted_by_key P reg))"
    using assms by (simp add: listTrustedApprovers_def storedApprovers_def registry_of_def)
  moreover have "JStr (ta_key (approver_of x)) \<in> fst ` set reg" if "x \<in> snd ` set reg" for x
  proof -
    obtain y where y: "y \<in> set reg" "x = snd y" using \<open>x \<in> snd ` set reg\<close> by auto
    then have "fst y = JStr (ta_key (approver_of x))" using assms(2) by (auto simp: registry_of_def list_all_iff proper_entry_def)
    then show ?thesis using y(1) by (metis imageI)
  qed
  ultimately show ?thesis by (auto simp: sorted_by_key_def)
qed

lemma untrusted_refused: "ap_key ap \<notin> ta_key ` set ts \<Longrightarrow> \<not> ar_valid (validateApprovalReference P ap s ts)"
proof -
  assume "ap_key ap \<notin> ta_key ` set ts"
  then have "\<forall>t \<in> set ts. ta_key t \<noteq> ap_key ap" by (metis imageI)
  then have "find_approver ts ap = None" by (auto simp: find_approver_def find_None_iff)
  then show ?thesis by (simp add: approval_valid_iff approval_conditions_def)
qed

lemma created_registry: "registry_of [] []"
  by (simp add: registry_of_def)

lemma any_run_registry:
  assumes "aead_ok C" and "hex_digest P" and "order_free P ''auto-apply-config''" and "(runtime_step P C K ops allowed brings)\<^sup>*\<^sup>* st st'"
    and "readAll P C st = Inr es" and "registry_of es reg"
  shows "\<exists>es' reg'. readAll P C st' = Inr es' \<and> registry_of es' reg'"
proof -
  have "\<exists>reg. registry_of (es @ [e]) reg" if "\<exists>reg. registry_of es reg" and "next_event P allowed brings es e" for es e
    using registry_grows [OF _ that(2)] that(1) by blast
  from runs_keep [OF assms(1-5), of "\<lambda>es. \<exists>reg. registry_of es reg", OF _ this] show ?thesis using assms(6) by blast
qed

text \<open>After a revocation the key is not in the registry.\<close>

lemma revoke_removes:
  assumes "aead_ok C" and "hex_digest P" and "readAll P C st = Inr es" and "order_free P ''auto-apply-config''" and "registry_of es reg"
    and "fresh_request P rq es" and "rq_operation rq = ''approver-revoke''" and "sound_json (rq_payload rq)"
    and "execute P C ops rq (control_command P C K rq now uuid n n') (st, s) = Inr (st', r)"
  shows "\<exists>es' reg' k. readAll P C st' = Inr es' \<and> registry_of es' reg' \<and> member (rq_payload rq) ''keyId'' = JStr k \<and> JStr k \<notin> fst ` set reg'"
proof -
  have cc: "control_command P C K rq now uuid n n' (authorityRequestHash P rq) (eventIdForRequest P (rq_id rq)) st = Inr (st', r)"
    by (rule fresh_executes [OF assms(2,3,6,9)])
  from control_events [where allowed = "\<lambda>q. q = rq", OF assms(1-4) refl this assms(8)]
  obtain e where e: "readAll P C st' = Inr (es @ [e])" "control_event P (\<lambda>q. q = rq) es e" by blast
  have ae: "approver_event e" using e(2) assms(7) by (auto simp: control_event_def approver_event_def)
  have "next_event P (\<lambda>q. q = rq) (\<lambda>_. False) es e" using e(2) by (simp add: next_event_def)
  from registry_grows [OF assms(5) this] obtain reg' k where reg': "registry_of (es @ [e]) reg'"
    "member (rq_payload rq) ''keyId'' = JStr k" "reg' = filter (\<lambda>e. fst e \<noteq> JStr k) reg" using ae assms(7) by auto
  then have "JStr k \<notin> fst ` set reg'" by auto
  then show ?thesis using e(1) reg'(1,2) by blast
qed

section \<open>Requests take effect once\<close>

text \<open>Receipts are only added.\<close>

definition receipts_grow :: "store \<Rightarrow> store \<Rightarrow> bool" where
  "receipts_grow st st' = (\<exists>rs. st_receipts st' = st_receipts st @ rs)"

lemma grow_refl: "receipts_grow st st" and grow_trans: "receipts_grow a b \<Longrightarrow> receipts_grow b c \<Longrightarrow> receipts_grow a c"
  by (auto simp: receipts_grow_def)

lemma grow_append: "append_event P C st i uuid n n' = Inr (st', ev) \<Longrightarrow> receipts_grow st st'"
  using append_event_ok [of P C st i uuid n n' st' ev] by (simp add: receipts_grow_def)

lemma grow_receipt: "recordAuthorityReceipt st a = Inr st' \<Longrightarrow> receipts_grow st st'"
  by (auto simp: recordAuthorityReceipt_def receipts_grow_def split: if_splits)

lemma grow_replay: "replayAuthority P C rq h eid st = Inr (st', x) \<Longrightarrow> receipts_grow st st'"
  unfolding replayAuthority_def by (auto intro: grow_refl dest!: grow_receipt split: option.splits if_splits)

lemma grow_control:
  assumes "control_command P C K rq now uuid n n' h eid st = Inr (st', r)" and "sound_json (rq_payload rq)"
  shows "receipts_grow st st'"
  using assms
proof (cases rule: control_cases)
  case recorded
  then show ?thesis unfolding recordCommand_def recordPersistedResponse_def
    by (auto intro: grow_trans dest!: grow_append grow_receipt)
next
  case (mutated f)
  then show ?thesis unfolding mutateConfig_def saveAutoApplyConfig_def recordPersistedResponse_def
    by (auto intro: grow_trans dest!: grow_append grow_receipt)
qed

lemma grow_put: "putSerialized P C D i uuid n n' st = Inr (st', r) \<Longrightarrow> receipts_grow st st'"
  unfolding putSerialized_def put_existing_def Let_def
  by (auto intro: grow_refl dest!: grow_append split: option.splits if_splits)

lemma grow_tracker: "tracker_command P C t rq now uuid n n' h eid st = Inr (st', r) \<Longrightarrow> receipts_grow st st'"
proof (erule tracker_puts)
  fix st1
  assume "recordPersistedResponse P rq h eid r now st1 = Inr st'"
  then have "receipts_grow st1 st'" unfolding recordPersistedResponse_def by (rule grow_receipt)
  moreover assume "st1 = st \<or> (\<exists>a v x audit. putSerialized P C (APPLICATIONS P) (tracker_put a v x audit) uuid n n' st = Inr (st1, r) \<and>
      (\<forall>j. audit = Some j \<longrightarrow> sound_json j))"
  ultimately show "receipts_grow st st'" using grow_put grow_trans by blast
qed

lemma grow_keep: "store_step P C st st' \<Longrightarrow> receipts_grow st st'"
proof (erule store_stepE, goal_cases)
  case (1 i uuid n n' ev)
  then show ?case using grow_append by blast
next
  case (2 ty ag v lh payload now n)
  then obtain x where "st' = st\<lparr>st_snapshots := x\<rparr>" using saveSnapshot_ok [OF 2(1)] by blast
  then show ?case by (simp add: receipts_grow_def)
next
  case (3 r)
  then show ?case by (auto simp: recordLegacyImportReceipt_def receipts_grow_def split: if_splits)
next
  case (4 a)
  then show ?case using grow_receipt by blast
next
  case (5 c)
  then show ?case by (auto simp: saveSignedCheckpoint_def receipts_grow_def split: if_splits)
qed

lemma grow_candidates: "importCandidates P C now rnd cs st = (st', r) \<Longrightarrow> receipts_grow st st'"
proof (induction cs arbitrary: st rnd r)
  case Nil
  then show ?case by (simp add: grow_refl)
next
  case (Cons c cs)
  obtain st1 b where s: "importCandidate P C now (fst (rnd 0)) (snd (rnd 0)) c st = (st1, b)" by fastforce
  have rc: "receipts_grow st st2" if "receipts_grow st st1" and "recordLegacyImportReceipt st1 x = Inr st2" for st1 st2 x
    using that by (auto simp: recordLegacyImportReceipt_def receipts_grow_def split: if_splits)
  have one: "receipts_grow st st1" using s unfolding importCandidate_def
    by (auto simp: grow_refl rc [OF grow_refl] dest!: grow_append split: option.splits sum.splits if_splits intro: rc)
  have "st' = st1 \<or> (\<exists>rnd r. importCandidates P C now rnd cs st1 = (st', r))"
    using Cons.prems s by (cases b; cases "importCandidates P C now (rnd \<circ> Suc) cs st1") (auto simp: bindS_def liftS_def split: sum.splits)
  then show ?case using one Cons.IH grow_trans by blast
qed

lemma grow_import: "legacy_import_apply P C H fs J rq now rnd uuid n n' h eid st = (st', r) \<Longrightarrow> receipts_grow st st'"
proof -
  assume a: "legacy_import_apply P C H fs J rq now rnd uuid n n' h eid st = (st', r)"
  have ap: "receipts_grow st st1" if "applyLegacyImport P C plan ph now rnd st = (st1, x)" for plan ph st1 x
  proof -
    obtain st2 y where c: "importCandidates P C now rnd (ip_candidates plan) st = (st2, y)" by fastforce
    then have "st1 = st \<or> st1 = st2" using that by (cases y) (auto simp: applyLegacyImport_def bindS_def liftS_def split: if_splits)
    then show ?thesis using grow_candidates [OF c] grow_refl by blast
  qed
  have rec: "receipts_grow st st2" if "receipts_grow st st1" and "recordCommand P C rq h eid x now uuid n n' st1 = Inr (st2, y)" for st1 st2 x y
    using that unfolding recordCommand_def recordPersistedResponse_def by (auto intro: grow_trans dest!: grow_append grow_receipt)
  show ?thesis using a
    by (auto simp: legacy_import_apply_def Let_def split: sum.splits prod.splits intro: grow_refl dest!: ap intro: rec)
qed

lemma grow_execute:
  assumes "execute P C ops rq f (st, s) = Inr (st', r)"
    and "\<And>h eid st st' r. f h eid st = Inr (st', r) \<Longrightarrow> receipts_grow st st'"
  shows "receipts_grow st st'"
proof -
  obtain st1 x h eid where x: "replayAuthority P C rq h eid st = Inr (st1, x)" "x = None \<Longrightarrow> f h eid st1 = Inr (st', r)" "x \<noteq> None \<Longrightarrow> st' = st1"
    using assms(1) unfolding execute_iff fst_conv by (elim conjE exE) (auto split: option.splits)
  then show ?thesis using grow_replay [OF x(1)] assms(2) grow_trans by (cases x) blast+
qed

lemma grow_step:
  assumes "runtime_step P C K ops allowed brings st st'"
  shows "receipts_grow st st'"
  using assms
proof cases
  case (rt_control rq now uuid n n' s r)
  then show ?thesis using grow_execute [OF rt_control(3)] grow_control by blast
next
  case (rt_tracker rq t now uuid n n' s r)
  then show ?thesis using grow_execute [OF rt_tracker(1)] grow_tracker by blast
next
  case (rt_import fs rq H J now rnd uuid n n' s r)
  from rt_import(3) show ?thesis
  proof (cases rule: execute_action_cases)
    case kept
    then show ?thesis by (simp add: receipts_grow_def)
  next
    case (ran h eid)
    then show ?thesis by (rule grow_import)
  qed
next
  case (rt_other i uuid n n' ev)
  then show ?thesis using grow_append by blast
next
  case rt_keep
  then show ?thesis using grow_keep by blast
qed

lemma grow_runs: "(runtime_step P C K ops allowed brings)\<^sup>*\<^sup>* st st' \<Longrightarrow> receipts_grow st st'"
  by (induction rule: rtranclp_induct) (use grow_refl grow_trans grow_step in blast)+

lemma control_answers:
  assumes "aead_ok C" and "hex_digest P" and "readAll P C st = Inr es" and "order_free P ''auto-apply-config''"
    and "control_command P C K rq now uuid n n' h eid st = Inr (st', r)" and "sound_json (rq_payload rq)"
  shows "\<exists>e. readAll P C st' = Inr (es @ [e]) \<and> answers P rq h eid (canon (coll_key P) r) e \<and> rq_id rq \<notin> au_request ` set (st_receipts st) \<and>
    st_receipts st' = st_receipts st @ [authority_receipt_of P rq h eid (canon (coll_key P) r) (se_time e)]"
proof -
  have a: "authority_receipt_of P rq h eid (canon (coll_key P) r) t = authority_receipt_of P rq h eid r t" for t
    by (simp add: authority_receipt_of_def hash_canon_any)
  from assms(5,6) show ?thesis
  proof (cases rule: control_cases)
    case recorded
    from recorded_command [OF assms(1-3) recorded(2,3)] show ?thesis unfolding a by blast
  next
    case (mutated f)
    from mutated_config [OF assms(1-4) mutated] show ?thesis unfolding a by blast
  qed
qed

section \<open>Sample requests\<close>

text \<open>Checkpoints verify when there are none, and control commands make none.\<close>

lemma no_checkpoints:
  assumes "readAll P C st = Inr es" and "st_checkpoints st = []" and "cs_get ops s ''latest-checkpoint-digest'' = Inr None"
  shows "verifyCheckpointChain P C ops (st, s) = Inr \<lparr>cv_count = 0, cv_latest = None\<rparr>"
proof -
  have "isOk (chainHead C st)" using assms(1) by (auto simp: readAll_iff chainHead_def)
  then obtain h where "chainHead C st = Inr h" by (auto simp: isOk_iff)
  then show ?thesis
    using assms(2,3) by (simp add: verifyCheckpointChain_def verifyCheckpointRecords_def listSignedCheckpoints_def Let_def last_opt_def)
qed

lemma receipt_checkpoints: "recordAuthorityReceipt st a = Inr st' \<Longrightarrow> st_checkpoints st' = st_checkpoints st"
  by (auto simp: recordAuthorityReceipt_def split: if_splits)

lemma append_checkpoints: "append_event P C st i uuid n n' = Inr (st', ev) \<Longrightarrow> st_checkpoints st' = st_checkpoints st"
  using append_event_ok [THEN conjunct1, of P C st i uuid n n' st' ev] by simp

lemma control_checkpoints:
  assumes "control_command P C K rq now uuid n n' h eid st = Inr (st', r)" and "sound_json (rq_payload rq)"
  shows "st_checkpoints st' = st_checkpoints st"
  using assms
proof (cases rule: control_cases)
  case recorded
  then show ?thesis unfolding recordCommand_def recordPersistedResponse_def
    by (auto dest!: append_checkpoints receipt_checkpoints)
next
  case (mutated f)
  then show ?thesis unfolding mutateConfig_def saveAutoApplyConfig_def recordPersistedResponse_def
    by (auto dest!: append_checkpoints receipt_checkpoints)
qed

text \<open>A first request to a new store is executed.\<close>

lemma first_execution:
  assumes "hex_digest P" and "readAll P C st = Inr []" and "st_receipts st = []" and "st_checkpoints st = []" and "cs_get ops s ''latest-checkpoint-digest'' = Inr None"
    and "operation_id_pattern (rq_id rq)"
  shows "execute P C ops rq f (st, s) = f (authorityRequestHash P rq) (eventIdForRequest P (rq_id rq)) st"
proof -
  have "readEvent P C st (eventIdForRequest P (rq_id rq)) = Inr None"
    using read_event [OF assms(1,2), of "rq_id rq"] by (simp add: authority_event_id)
  moreover have "findAuthorityReceipt st (rq_id rq) = Inr None"
    using request_identifier [OF assms(6)] assms(3) by (simp add: findAuthorityReceipt_def assertIdentifier_def)
  ultimately have "replayAuthority P C rq (authorityRequestHash P rq) (eventIdForRequest P (rq_id rq)) st = Inr (st, None)"
    by (simp add: replayAuthority_def)
  then show ?thesis using assms(6) by (simp add: execute_def assertRequestId_def no_checkpoints [OF assms(2,4,5)])
qed

lemma first_append:
  assumes "hex_digest P" and "readAll P C st = Inr []" and "st_events st = []" and "ae_id i = Some (eventIdForRequest P q)" and "ae_version i = 1"
    and "identifier_ok (ae_aggregate_type i)" and "identifier_ok (ae_aggregate i)" and "identifier_ok (ae_type i)"
  shows "\<exists>st' ev. append_event P C st i uuid n n' = Inr (st', ev) \<and> st_receipts st' = st_receipts st"
proof -
  have "\<exists>st' ev. append_event P C st i uuid n n' = Inr (st', ev)"
    by (rule append_total [OF assms(2)]) (use assms event_id_identifier [OF assms(1), of q] in \<open>simp_all add: row_of_input_def authority_event_id\<close>)
  then show ?thesis using append_event_ok by fastforce
qed

lemma first_receipt: "st_receipts st = [] \<Longrightarrow> operation_id_pattern (rq_id rq) \<Longrightarrow> \<exists>st'. recordPersistedResponse P rq h eid r now st = Inr st'"
  using request_identifier by (simp add: recordPersistedResponse_def recordAuthorityReceipt_def authority_receipt_of_def assertIdentifier_def)

definition sample_kill :: authority_request where
  "sample_kill = \<lparr>rq_id = ''REQ-12345678'', rq_operation = ''auto-apply-kill'', rq_payload = JObj []\<rparr>"

definition sample_revoke :: authority_request where
  "sample_revoke = \<lparr>rq_id = ''REQ-12345678'', rq_operation = ''approver-revoke'', rq_payload = JObj [(''keyId'', JStr ''KEY-12345678'')]\<rparr>"

abbreviation sample_device :: "credential_map credential_ops" where
  "sample_device \<equiv> MemoryCredentialStore"

abbreviation sample_command :: "authority_request \<Rightarrow> string \<Rightarrow> string \<Rightarrow> store \<Rightarrow> (store \<times> json) result" where
  "sample_command rq \<equiv> control_command sample_signing sample_crypto sample_keys rq 0 [] [] []"

lemma sample_signing_schema: "schema_errors sample_signing n v = []" "order_free sample_signing n"
  by (simp_all add: order_free_def sample_signing_def sample_platform_def)

lemma sample_device_empty: "cs_get sample_device Map.empty k = Inr None"
  by (simp add: MemoryCredentialStore_def)

lemma sample_kill_runs:
  assumes "readAll sample_signing sample_crypto st = Inr []" and "st_events st = []" and "st_receipts st = []"
  shows "\<exists>st' r. sample_command sample_kill h (eventIdForRequest sample_signing q) st = Inr (st', r)"
proof -
  let ?rq = sample_kill and ?eid = "eventIdForRequest sample_signing q"
  let ?c = "engageKillSwitch defaultAutoApplyConfig ''authenticated-local-operator'' (kill_reason (JObj [])) 0"
  let ?i = "config_input ?c (Some ?eid) ''auto-apply-kill-completed'' 0 (Some (JObj [(''authority'', authority_metadata sample_signing ?rq h (config_json ?c))]))"
  have load: "loadAutoApplyConfig sample_signing sample_crypto st = Inr defaultAutoApplyConfig"
    by (simp add: load_config_at [OF assms(1)] config_at_def)
  have ids: "identifier_ok (ae_aggregate_type ?i)" "identifier_ok (ae_aggregate ?i)" "identifier_ok (ae_type ?i)"
    unfolding config_input_def append_input.simps by code_simp+
  obtain st1 ev where ap: "append_event sample_signing sample_crypto st ?i [] [] [] = Inr (st1, ev)" "st_receipts st1 = []"
    using first_append [OF sample_signing_digest assms(1,2) _ _ ids, of q "[]" "[]" "[]"] assms(3) unfolding config_input_def by auto
  have "operation_id_pattern (rq_id ?rq)" by code_simp
  then obtain st2 where "recordPersistedResponse sample_signing ?rq h ?eid (config_json ?c) 0 st1 = Inr st2" using first_receipt [OF ap(2)] by blast
  then show ?thesis using ap(1) load
    by (simp add: control_command_def auto_apply_kill_def sample_kill_def objectPayload_def mutateConfig_def saveAutoApplyConfig_def assertSchema_def sample_signing_schema Let_def)
qed

lemma sample_revoke_runs:
  assumes "readAll sample_signing sample_crypto st = Inr []" and "st_events st = []" and "st_receipts st = []"
  shows "\<exists>st' r. sample_command sample_revoke h (eventIdForRequest sample_signing q) st = Inr (st', r)"
proof -
  let ?rq = sample_revoke and ?eid = "eventIdForRequest sample_signing q" and ?r = "revoked_response ''KEY-12345678''"
  let ?i = "command_input sample_signing ?rq h ?eid ?r 0"
  have ids: "identifier_ok (ae_aggregate_type ?i)" "identifier_ok (ae_aggregate ?i)" "identifier_ok (ae_type ?i)"
    unfolding command_input_def append_input.simps by code_simp+
  obtain st1 ev where ap: "append_event sample_signing sample_crypto st ?i [] [] [] = Inr (st1, ev)" "st_receipts st1 = []"
    using first_append [OF sample_signing_digest assms(1,2) _ _ ids, of q "[]" "[]" "[]"] assms(3) unfolding command_input_def by auto
  have "operation_id_pattern (rq_id ?rq)" by code_simp
  then obtain st2 where rc: "recordPersistedResponse sample_signing ?rq h ?eid ?r 0 st1 = Inr st2" using first_receipt [OF ap(2)] by blast
  have "approver_revoke (rq_payload ?rq) = Inr ?r" by code_simp
  then show ?thesis using ap(1) rc by (simp add: control_command_def sample_revoke_def recordCommand_def Let_def)
qed

lemma sample_runtime:
  obtains st0 where "create_store sample_signing sample_crypto [1] ''correct horse'' '' salt'' ''n1'' ''n2'' ''u'' = Inr st0"
    and "readAll sample_signing sample_crypto st0 = Inr []" and "st_checkpoints st0 = []"
    and "\<exists>st r. execute sample_signing sample_crypto sample_device sample_kill (sample_command sample_kill) (st0, Map.empty) = Inr (st, r)"
    and "\<exists>st r. execute sample_signing sample_crypto sample_device sample_revoke (sample_command sample_revoke) (st0, Map.empty) = Inr (st, r)"
proof -
  let ?P = sample_signing and ?C = sample_crypto
  obtain st0 where st0: "create_store ?P ?C [1] ''correct horse'' '' salt'' ''n1'' ''n2'' ''u'' = Inr st0" "st_events st0 = []" "st_receipts st0 = []" "st_checkpoints st0 = []"
    by (auto simp: create_store_def deriveKey_def)
  have salt: "'' salt'' \<noteq> []" by simp
  note r = created_reads [OF sample_aead sample_signing_digest salt st0(1)]
  have q: "operation_id_pattern (rq_id sample_kill)" "operation_id_pattern (rq_id sample_revoke)" by code_simp+
  note ex = first_execution [OF sample_signing_digest r st0(3,4) sample_device_empty]
  show thesis
    by (rule that [OF st0(1) r st0(4)]) (unfold ex [OF q(1)] ex [OF q(2)], (rule sample_kill_runs sample_revoke_runs; fact r st0)+)
qed

section \<open>Properties\<close>

text \<open>C35: After the authority has executed a kill command, the configuration it loads stays disarmed whatever requests, imports and
  events follow, as long as no rearm is requested and no import finds a legacy configuration file (one that does replaces the
  configuration): the kill switch is engaged, automatic mode is off, and every decision under this configuration refuses.\<close>

theorem kill_command_stays_in_force:
  assumes "aead_ok C" and "hex_digest P" and "readAll P C st = Inr es" and "order_free P ''auto-apply-config''"
    and "fresh_request P rq es" and "rq_operation rq = ''auto-apply-kill''" and "sound_json (rq_payload rq)"
    and "execute P C ops rq (control_command P C K rq now uuid n n') (st, s) = Inr (st1, r)"
    and "(runtime_step P C K ops (\<lambda>q. rq_operation q \<noteq> ''auto-apply-rearm'') (\<lambda>fs. lf_config fs = None))\<^sup>*\<^sup>* st1 st2"
  shows "\<exists>c. loadAutoApplyConfig P C st2 = Inr c \<and> ks_engaged (cf_kill c) \<and> \<not> cf_enabled c \<and> cf_mode c = Manual \<and>
    (ai_config i = c \<longrightarrow> \<not> ad_allowed (fst (decideAutoApply P F i)))"
proof -
  obtain es1 where es1: "readAll P C st1 = Inr es1" "disarmed_at P es1" using kill_disarms [OF assms(1-8)] by blast
  obtain es2 c where es2: "readAll P C st2 = Inr es2" "config_at P es2 = Inr c" "disarmed c"
    using runs_keep [OF assms(1,2,4,9) es1 disarmed_kept] unfolding disarmed_at_def by blast
  then show ?thesis using load_config_at [OF es2(1)] disarmed_refuses [of i P F] by (intro exI [of _ c]) (auto simp: disarmed_def)
qed

theorem kill_command_stays_in_force_witness:
  "\<exists>st st1 r c. execute sample_signing sample_crypto sample_device sample_kill (sample_command sample_kill) (st, Map.empty) = Inr (st1, r) \<and>
     loadAutoApplyConfig sample_signing sample_crypto st1 = Inr c \<and> ks_engaged (cf_kill c) \<and> \<not> cf_enabled c \<and> cf_mode c = Manual"
proof -
  obtain st0 st1 r where s: "readAll sample_signing sample_crypto st0 = Inr []"
    "execute sample_signing sample_crypto sample_device sample_kill (sample_command sample_kill) (st0, Map.empty) = Inr (st1, r)"
    using sample_runtime by metis
  have k: "fresh_request sample_signing sample_kill []" "rq_operation sample_kill = ''auto-apply-kill''" "sound_json (rq_payload sample_kill)"
    by (simp_all add: fresh_request_def sample_kill_def sound_json_def)
  show ?thesis
    using kill_command_stays_in_force [OF sample_aead sample_signing_digest s(1) sample_signing_schema(2) k s(2) rtranclp.rtrancl_refl] s(2) by blast
qed

text \<open>C36: After the authority has revoked an approver key, no list of trusted approvers contains it and no approval signed under it is valid, whatever
  requests, imports and events follow, until the key is registered again.\<close>

theorem revoked_approver_stays_out:
  assumes "aead_ok C" and "hex_digest P" and "salt \<noteq> []" and "create_store P C ms pass salt n1 n2 uuid0 = Inr st0"
    and "order_free P ''auto-apply-config''" and "(runtime_step P C K ops (\<lambda>q. True) (\<lambda>fs. True))\<^sup>*\<^sup>* st0 st" and "readAll P C st = Inr es"
    and "fresh_request P rq es" and "rq_operation rq = ''approver-revoke''" and "rq_payload rq = JObj [(''keyId'', JStr k)]"
    and "execute P C ops rq (control_command P C K rq now uuid n n') (st, s) = Inr (st1, r)"
    and "(runtime_step P C K ops (\<lambda>q. rq_operation q = ''approver-register'' \<longrightarrow> member (rq_payload q) ''keyId'' \<noteq> JStr k)
      (\<lambda>fs. True))\<^sup>*\<^sup>* st1 st2"
  shows "\<exists>ts. listTrustedApprovers P C st2 = Inr ts \<and> k \<notin> ta_key ` set ts \<and>
    (ap_key ap = k \<longrightarrow> \<not> ar_valid (validateApprovalReference P ap scope ts))"
proof -
  obtain reg where reg: "registry_of es reg"
    using any_run_registry [OF assms(1,2,5,6) created_reads [OF assms(1-4)] created_registry] assms(7) by auto
  have p: "sound_json (rq_payload rq)" "member (rq_payload rq) ''keyId'' = JStr k" unfolding assms(10) by (simp_all add: sound_json_def member_def)
  obtain es1 reg1 where r1: "readAll P C st1 = Inr es1" "registry_of es1 reg1" "JStr k \<notin> fst ` set reg1"
    using revoke_removes [OF assms(1,2,7,5) reg assms(8,9) p(1) assms(11)] p(2) by auto
  obtain es2 reg2 where r2: "readAll P C st2 = Inr es2" "registry_of es2 reg2" "JStr k \<notin> fst ` set reg2"
    using registry_runs [OF assms(1,2,5,12) r1] by blast
  obtain ts where ts: "listTrustedApprovers P C st2 = Inr ts" "\<forall>t \<in> set ts. JStr (ta_key t) \<in> fst ` set reg2" using registry_keys [OF r2(1,2)] by blast
  then have "k \<notin> ta_key ` set ts" using r2(3) by auto
  then show ?thesis using ts(1) untrusted_refused by auto
qed

theorem revoked_approver_stays_out_witness:
  "\<exists>st st1 r ts. execute sample_signing sample_crypto sample_device sample_revoke (sample_command sample_revoke) (st, Map.empty) = Inr (st1, r) \<and>
     listTrustedApprovers sample_signing sample_crypto st1 = Inr ts \<and> ''KEY-12345678'' \<notin> ta_key ` set ts"
proof -
  obtain st0 st1 r where s: "create_store sample_signing sample_crypto [1] ''correct horse'' '' salt'' ''n1'' ''n2'' ''u'' = Inr st0"
    "readAll sample_signing sample_crypto st0 = Inr []"
    "execute sample_signing sample_crypto sample_device sample_revoke (sample_command sample_revoke) (st0, Map.empty) = Inr (st1, r)"
    using sample_runtime by metis
  have k: "fresh_request sample_signing sample_revoke []" "rq_operation sample_revoke = ''approver-revoke''"
    "rq_payload sample_revoke = JObj [(''keyId'', JStr ''KEY-12345678'')]" by (simp_all add: fresh_request_def sample_revoke_def)
  have salt: "'' salt'' \<noteq> []" by simp
  show ?thesis
    using revoked_approver_stays_out [OF sample_aead sample_signing_digest salt s(1) sample_signing_schema(2) rtranclp.rtrancl_refl s(2) k s(3) rtranclp.rtrancl_refl]
      s(3) by blast
qed

text \<open>C37: A control request takes effect once. After it was executed, and after any further requests, imports and events, the same request is answered with
  the response of its first execution, without running its operation again and without a new event, as long as the checkpoints verify.\<close>

theorem control_request_takes_effect_once:
  assumes "aead_ok C" and "hex_digest P" and "readAll P C st = Inr es" and "order_free P ''auto-apply-config''"
    and "fresh_request P rq es" and "sound_json (rq_payload rq)"
    and "execute P C ops rq (control_command P C K rq now uuid n n') (st, s) = Inr (st1, r)"
    and "(runtime_step P C K ops (\<lambda>q. True) (\<lambda>fs. True))\<^sup>*\<^sup>* st1 st2" and "isOk (verifyCheckpointChain P C ops (st2, s2))"
  shows "\<exists>st3. execute P C ops rq operation (st2, s2) = Inr (st3, canon (coll_key P) r) \<and> st_events st3 = st_events st2"
proof -
  let ?eid = "eventIdForRequest P (rq_id rq)" and ?h = "authorityRequestHash P rq" and ?r = "canon (coll_key P) r"
  have q: "operation_id_pattern (rq_id rq)" using assms(7) unfolding execute_iff by blast
  from control_answers [OF assms(1-4) fresh_executes [OF assms(2,3,5,7)] assms(6)]
  obtain e where e: "readAll P C st1 = Inr (es @ [e])" "answers P rq ?h ?eid ?r e" "rq_id rq \<notin> au_request ` set (st_receipts st)"
    "st_receipts st1 = st_receipts st @ [authority_receipt_of P rq ?h ?eid ?r (se_time e)]" by blast
  have "find (\<lambda>x. se_id x = ?eid) es = None" using assms(5) by (simp add: fresh_request_def find_None_iff)
  then have "find (\<lambda>x. se_id x = ?eid) (es @ [e]) = Some e" using e(2) by (simp add: find_snoc answers_def)
  then obtain es2 where es2: "readAll P C st2 = Inr es2" "find (\<lambda>x. se_id x = ?eid) es2 = Some e"
    using runs_keep [OF assms(1,2,4,8) e(1), of "\<lambda>es. find (\<lambda>x. se_id x = ?eid) es = Some e"] by (auto simp: find_snoc)
  obtain rs where rs: "st_receipts st2 = st_receipts st1 @ rs" using grow_runs [OF assms(8)] by (auto simp: receipts_grow_def)
  have "find (\<lambda>a. au_request a = rq_id rq) (st_receipts st) = None" using e(3) by (metis (mono_tags, lifting) find_None_iff imageI)
  then have "find (\<lambda>a. au_request a = rq_id rq) (st_receipts st2) = Some (authority_receipt_of P rq ?h ?eid ?r (se_time e))"
    unfolding rs e(4) by (simp add: find_snoc authority_receipt_of_def)
  then obtain st3 where "replayAuthority P C rq ?h ?eid st2 = Inr (st3, Some ?r)" "st_events st3 = st_events st2"
    using replay_answers [OF assms(2) es2(1) q es2(2) e(2)] by auto
  then show ?thesis unfolding execute_iff using q assms(9) by (intro exI [of _ st3]) auto
qed

theorem control_request_takes_effect_once_witness:
  "\<exists>st st1 r st2. execute sample_signing sample_crypto sample_device sample_kill (sample_command sample_kill) (st, Map.empty) = Inr (st1, r) \<and>
     execute sample_signing sample_crypto sample_device sample_kill (\<lambda>h eid st. throw ''not run'') (st1, Map.empty)
       = Inr (st2, canon (coll_key sample_signing) r) \<and> st_events st2 = st_events st1"
proof -
  obtain st0 st1 r where s: "readAll sample_signing sample_crypto st0 = Inr []" "st_checkpoints st0 = []"
    "execute sample_signing sample_crypto sample_device sample_kill (sample_command sample_kill) (st0, Map.empty) = Inr (st1, r)"
    using sample_runtime by metis
  have k: "fresh_request sample_signing sample_kill []" "sound_json (rq_payload sample_kill)"
    by (simp_all add: fresh_request_def sample_kill_def sound_json_def)
  have "sample_command sample_kill (authorityRequestHash sample_signing sample_kill) (eventIdForRequest sample_signing (rq_id sample_kill)) st0 = Inr (st1, r)"
    by (rule fresh_executes [OF sample_signing_digest s(1) k(1) s(3)])
  from control_checkpoints [OF this k(2)] control_answers [OF sample_aead sample_signing_digest s(1) sample_signing_schema(2) this k(2)]
  obtain es where es: "readAll sample_signing sample_crypto st1 = Inr es" "st_checkpoints st1 = []" using s(2) by auto
  have v: "isOk (verifyCheckpointChain sample_signing sample_crypto sample_device (st1, Map.empty))"
    unfolding no_checkpoints [OF es sample_device_empty] by simp
  show ?thesis
    using control_request_takes_effect_once [OF sample_aead sample_signing_digest s(1) sample_signing_schema(2) k s(3) rtranclp.rtrancl_refl v] s(3) by blast
qed

end
