(* ===== verification/ImportProps.thy ===== *)
theory ImportProps
  imports RuntimeProps
begin

text \<open>
  What an import leaves in the store: every candidate of an applied plan has its event and its receipt, so that applying the plan
  again imports nothing; and an imported configuration is the one in force.
\<close>

section \<open>Applied plans\<close>

text \<open>A candidate imported now adds its event.\<close>

lemma imported_now:
  assumes "aead_ok C" and "hex_digest P" and "readAll P C st = Inr es" and "storable_payload c" and "importCandidate P C now n n' c st = (st', Inr True)"
  shows "\<exists>e. readAll P C st' = Inr (es @ [e]) \<and> import_event P c e \<and> se_payload e = canon (coll_key P) (import_payload c)"
proof -
  have none: "findLegacyImportReceipt st (ic_digest c) = None"
    using assms(5) by (auto simp: importCandidate_def split: option.splits if_splits)
  then obtain st1 ev where ap: "append_event P C st (import_input c now) [] n n' = Inr (st1, ev)"
    and rc: "recordLegacyImportReceipt st1 (import_receipt c now) = Inr st'"
    using assms(5) by (auto simp: importCandidate_def split: sum.splits if_splits)
  from import_appended [OF assms(1-4) ap] obtain e where e: "readAll P C st1 = Inr (es @ [e])" "import_event P c e"
    "se_payload e = canon (coll_key P) (import_payload c)" "st_imports st1 = st_imports st" by blast
  have "findLegacyImportReceipt st1 (lr_digest (import_receipt c now)) = None"
    using none e(4) by (simp add: findLegacyImportReceipt_def import_receipt_def)
  from receipt_later(1) [OF rc this e(1)] show ?thesis using e(2,3) by blast
qed

lemma import_all:
  assumes "aead_ok C" and "hex_digest P" and "readAll P C st = Inr es" and "list_all storable_payload cs"
    and "importCandidates P C now rnd cs st = (st', Inr bs)"
  shows "later_store P C st st' \<and> list_all (\<lambda>c. imported_at P C c st') cs \<and> length bs = length cs"
  using assms(3-5)
proof (induction cs arbitrary: st es rnd bs)
  case Nil
  then show ?case by (simp add: later_refl)
next
  case (Cons c cs)
  then obtain st1 b bs1 where s: "importCandidate P C now (fst (rnd 0)) (snd (rnd 0)) c st = (st1, Inr b)"
    "importCandidates P C now (rnd \<circ> Suc) cs st1 = (st', Inr bs1)" "bs = b # bs1" by (auto simp: bindS_Inr_iff)
  have c: "storable_payload c" "list_all storable_payload cs" using Cons.prems(2) by simp_all
  have one: "later_store P C st st1" "imported_at P C c st1" using import_step [OF assms(1,2) Cons.prems(1) c(1) s(1)] by blast+
  then obtain es1 where "readAll P C st1 = Inr es1" by (auto simp: later_store_def)
  note rest = Cons.IH [OF this c(2) s(2)]
  then show ?case using later_trans [OF one(1)] imported_later [OF one(2)] s(3) by simp
qed

lemma import_none: "list_all (\<lambda>c. imported_at P C c st) cs \<Longrightarrow> importCandidates P C now rnd cs st = (st, Inr (replicate (length cs) False))"
  by (induction cs arbitrary: rnd) (simp_all add: bindS_def liftS_def imported_skipped)

section \<open>Imported configurations\<close>

lemma imported_config_event:
  assumes "wf_config c" and "schema_errors P ''auto-apply-config'' (config_json c) = []" and "order_free P ''auto-apply-config''"
    and "se_payload e = canon (coll_key P) (import_payload (config_candidate P (config_json c)))"
  shows "configFromEvent P e = Inr (Some (canon (coll_key P) (config_json c)))"
proof -
  let ?p = "import_payload (config_candidate P (config_json c))"
  have w: "wf_keys ?p" "wf_keys (member ?p ''value'')" using config_json_wf [OF assms(1)]
    by (simp_all add: import_payload_def config_candidate_def createCandidate_def Let_def member_def)
  have "member (se_payload e) ''config'' = JUndef" "member (se_payload e) ''response'' = JUndef"
    "member (member (se_payload e) ''value'') ''config'' = canon (coll_key P) (config_json c)"
    unfolding assms(4) member_canon_wf [OF w(1)] member_canon_wf [OF w(2)]
    by (simp_all add: import_payload_def config_candidate_def createCandidate_def Let_def member_def)
  moreover have "truthy (canon (coll_key P) (config_json c))" by (simp add: config_json_def truthy_def)
  moreover have "se_payload e \<noteq> JNull" "se_payload e \<noteq> JUndef" unfolding assms(4) by (simp_all add: import_payload_def)
  ultimately show ?thesis using assms(2,3) by (simp add: configFromEvent_def prop_of_def nullish_def Let_def order_free_def)
qed

section \<open>A sample import\<close>

definition sample_import :: import_plan where
  "sample_import = \<lparr>ip_valid = True, ip_hash = ''reviewed'', ip_candidates = [config_candidate sample_signing (config_json sample_config)],
     ip_warnings = [], ip_errors = []\<rparr>"

lemma candidate_storable: "wf_config c \<Longrightarrow> storable_payload (config_candidate P (config_json c))"
  using config_json_wf config_json_safe by (simp add: storable_payload_def config_candidate_def createCandidate_def Let_def)

lemma import_id_identifier: "hex_digest P \<Longrightarrow> identifier_ok (ic_event (createCandidate P k l aty ag ty p))"
proof -
  assume "hex_digest P"
  then have h: "length (opaqueHash P x) = 64" "list_all is_hex (opaqueHash P x)" for x by (simp_all add: opaqueHash_def sha256_def hex_digest_def)
  have "list_all (\<lambda>c. is_alnum c \<or> c \<in> set ''._:-'') (opaqueHash P x)" for x
    using h(2) [of x] by (auto simp: list_all_iff is_hex_def is_alnum_def is_lower_def)
  then show ?thesis using h(1) by (simp add: identifier_ok_def createCandidate_def Let_def is_alnum_def is_upper_def)
qed

lemma sample_candidate_imports:
  obtains st0 st1 where "readAll sample_signing sample_crypto st0 = Inr []"
    and "importCandidate sample_signing sample_crypto 0 [] [] (config_candidate sample_signing j) st0 = (st1, Inr True)"
proof -
  let ?P = sample_signing and ?C = sample_crypto and ?c = "config_candidate sample_signing j"
  obtain st0 where st0: "create_store ?P ?C [1] ''correct horse'' '' salt'' ''n1'' ''n2'' ''u'' = Inr st0" "st_events st0 = []" "st_imports st0 = []"
    by (auto simp: create_store_def deriveKey_def)
  have salt: "'' salt'' \<noteq> []" by simp
  note r = created_reads [OF sample_aead sample_signing_digest salt st0(1)]
  have id: "identifier_ok (ic_event ?c)" unfolding config_candidate_def by (rule import_id_identifier [OF sample_signing_digest])
  let ?i = "import_input ?c 0"
  have ids: "identifier_ok (ae_aggregate_type ?i)" "identifier_ok (ae_aggregate ?i)" "identifier_ok (ae_type ?i)"
    unfolding import_input_def config_candidate_def createCandidate_def Let_def append_input.simps import_candidate.simps by code_simp+
  have "\<exists>st' ev. append_event ?P ?C st0 ?i [] [] [] = Inr (st', ev)"
    by (rule append_total [OF r ids]) (use st0(2) id in \<open>simp_all add: row_of_input_def import_input_def\<close>)
  then obtain st1 ev where ap: "append_event ?P ?C st0 ?i [] [] [] = Inr (st1, ev)" by blast
  then have "st_imports st1 = []" using append_event_ok [OF ap, THEN conjunct1] st0(3) by simp
  then obtain st2 where "recordLegacyImportReceipt st1 (import_receipt ?c 0) = Inr st2" by (simp add: recordLegacyImportReceipt_def)
  then have "importCandidate ?P ?C 0 [] [] ?c st0 = (st2, Inr True)"
    using ap st0(2,3) id by (simp add: importCandidate_def findLegacyImportReceipt_def hasEvent_def assertIdentifier_def)
  then show thesis by (rule that [OF r])
qed

lemma sample_import_applies:
  obtains st0 st1 r where "readAll sample_signing sample_crypto st0 = Inr []"
    and "applyLegacyImport sample_signing sample_crypto sample_import ''reviewed'' 0 (\<lambda>_. ([], [])) st0 = (st1, Inr r)" and "ir_imported r = 1"
proof -
  let ?c = "config_candidate sample_signing (config_json sample_config)"
  obtain st0 st1 where s: "readAll sample_signing sample_crypto st0 = Inr []" "importCandidate sample_signing sample_crypto 0 [] [] ?c st0 = (st1, Inr True)"
    using sample_candidate_imports by blast
  then show thesis by (intro that [OF s(1), of st1 "\<lparr>ir_plan = ''reviewed'', ir_imported = 1, ir_already = 0, ir_events = [ic_event ?c]\<rparr>"])
    (simp_all add: applyLegacyImport_def sample_import_def bindS_def liftS_def)
qed

section \<open>Properties\<close>

text \<open>C39: Applying a plan is idempotent. After a plan was applied, the history only grew, every candidate has its event and its receipt, and
  applying the plan again, at any time and with any nonces, changes nothing and reports every candidate as imported already.\<close>

theorem import_applies_once:
  assumes "aead_ok C" and "hex_digest P" and "readAll P C st = Inr es" and "list_all storable_payload (ip_candidates plan)"
    and "applyLegacyImport P C plan h now rnd st = (st', Inr r)"
  shows "(\<exists>es'. readAll P C st' = Inr (es @ es')) \<and> list_all (\<lambda>c. imported_at P C c st') (ip_candidates plan) \<and>
    ir_imported r + ir_already r = length (ip_candidates plan) \<and>
    applyLegacyImport P C plan h now' rnd' st' = (st', Inr (r\<lparr>ir_imported := 0, ir_already := length (ip_candidates plan)\<rparr>))"
proof -
  let ?cs = "ip_candidates plan"
  obtain bs where b: "importCandidates P C now rnd ?cs st = (st', Inr bs)" "ip_valid plan" "h = ip_hash plan"
    "r = \<lparr>ir_plan = ip_hash plan, ir_imported = length (filter id bs), ir_already = length (filter Not bs), ir_events = map ic_event ?cs\<rparr>"
    using assms(5) by (auto simp: applyLegacyImport_def bindS_Inr_iff split: if_splits)
  from import_all [OF assms(1-4) b(1)] have s: "later_store P C st st'" "list_all (\<lambda>c. imported_at P C c st') ?cs" "length bs = length ?cs" by blast+
  have "length (filter id bs) + length (filter Not bs) = length bs" using sum_length_filter_compl [of id bs] by (simp add: comp_def)
  moreover have "applyLegacyImport P C plan h now' rnd' st' = (st', Inr (r\<lparr>ir_imported := 0, ir_already := length ?cs\<rparr>))"
    using b(2-4) by (simp add: applyLegacyImport_def bindS_def liftS_def import_none [OF s(2)])
  moreover have "\<exists>es'. readAll P C st' = Inr (es @ es')" using s(1) assms(3) by (auto simp: later_store_def)
  ultimately show ?thesis using s(2,3) b(4) by simp
qed

theorem import_applies_once_witness:
  "\<exists>st st' r. applyLegacyImport sample_signing sample_crypto sample_import ''reviewed'' 0 (\<lambda>_. ([], [])) st = (st', Inr r) \<and> ir_imported r = 1 \<and>
     applyLegacyImport sample_signing sample_crypto sample_import ''reviewed'' 5 (\<lambda>_. ([], [])) st' = (st', Inr (r\<lparr>ir_imported := 0, ir_already := 1\<rparr>))"
proof -
  obtain st0 st1 r where s: "readAll sample_signing sample_crypto st0 = Inr []" "ir_imported r = 1"
    "applyLegacyImport sample_signing sample_crypto sample_import ''reviewed'' 0 (\<lambda>_. ([], [])) st0 = (st1, Inr r)"
    using sample_import_applies by metis
  have l: "list_all storable_payload (ip_candidates sample_import)" "length (ip_candidates sample_import) = 1"
    by (simp_all add: sample_import_def candidate_storable wf_config_def sample_config_def defaultAutoApplyConfig_def)
  show ?thesis using import_applies_once [OF sample_aead sample_signing_digest s(1) l(1) s(3), of 5 "\<lambda>_. ([], [])"] s(2,3) l(2)
    by (intro exI [of _ st0] exI [of _ st1] exI [of _ r]) simp
qed

text \<open>C40: An imported configuration is in force at once, whatever was in force before. When the plan's configuration is imported, the authority
  loads it with its own mode and kill switch, so an engaged kill switch does not survive the import of a file without one.\<close>

theorem imported_config_in_force:
  assumes "aead_ok C" and "hex_digest P" and "readAll P C st = Inr es" and "order_free P ''auto-apply-config''" and "wf_config c"
    and "schema_errors P ''auto-apply-config'' (config_json c) = []" and "ip_candidates plan = [config_candidate P (config_json c)]"
    and "applyLegacyImport P C plan h now rnd st = (st', Inr r)" and "ir_imported r = 1"
  shows "\<exists>d. loadAutoApplyConfig P C st' = Inr d \<and> cf_enabled d = cf_enabled c \<and> cf_mode d = cf_mode c \<and>
    ks_engaged (cf_kill d) = ks_engaged (cf_kill c)"
proof -
  let ?c = "config_candidate P (config_json c)"
  note imp = candidate_storable [OF assms(5), of P]
  obtain n n' where one: "importCandidate P C now n n' ?c st = (st', Inr True)"
    using assms(7-9) by (auto simp: applyLegacyImport_def bindS_Inr_iff split: if_splits)
  obtain e where e: "readAll P C st' = Inr (es @ [e])" "import_event P ?c e" "se_payload e = canon (coll_key P) (import_payload ?c)"
    using imported_now [OF assms(1-3) imp one] by blast
  have "config_event e" using e(2) by (simp add: config_event_def import_event_def config_candidate_def createCandidate_def Let_def)
  then have "loadAutoApplyConfig P C st' = Inr (config_of (canon (coll_key P) (config_json c)))"
    using load_config_at [OF e(1)] config_at_new imported_config_event [OF assms(5,6,4) e(3)] by metis
  then show ?thesis using config_read_back [OF assms(5), of "coll_key P"] by blast
qed

theorem imported_config_in_force_witness:
  "\<exists>st st' r d. applyLegacyImport sample_signing sample_crypto sample_import ''reviewed'' 0 (\<lambda>_. ([], [])) st = (st', Inr r) \<and>
     loadAutoApplyConfig sample_signing sample_crypto st' = Inr d \<and> cf_enabled d \<and> cf_mode d = Auto \<and> \<not> ks_engaged (cf_kill d)"
proof -
  obtain st0 st1 r where s: "readAll sample_signing sample_crypto st0 = Inr []" "ir_imported r = 1"
    "applyLegacyImport sample_signing sample_crypto sample_import ''reviewed'' 0 (\<lambda>_. ([], [])) st0 = (st1, Inr r)"
    using sample_import_applies by metis
  have c: "wf_config sample_config" "ip_candidates sample_import = [config_candidate sample_signing (config_json sample_config)]"
    "cf_enabled sample_config" "cf_mode sample_config = Auto" "\<not> ks_engaged (cf_kill sample_config)"
    by (simp_all add: wf_config_def sample_import_def sample_config_def defaultAutoApplyConfig_def)
  show ?thesis
    using imported_config_in_force [OF sample_aead sample_signing_digest s(1) sample_signing_schema(2) c(1) sample_signing_schema(1) c(2) s(3,2)] s(3) c(3-5)
    by auto
qed

end
