(* ===== verification/ImportPlan.thy ===== *)
theory ImportPlan
  imports ImportProps
begin

text \<open>
  The plan of an import: the hash of a plan names its candidates, so that what was reviewed is what is imported.
\<close>

section \<open>Plans named by their hash\<close>

definition same_candidate :: "platform \<Rightarrow> import_candidate \<Rightarrow> import_candidate \<Rightarrow> bool" where
  "same_candidate P c d = (d\<lparr>ic_payload := ic_payload c\<rparr> = c \<and> canon (coll_key P) (ic_payload d) = canon (coll_key P) (ic_payload c))"

lemma legacy_kind_inj: "legacy_kind_str j = legacy_kind_str k \<Longrightarrow> j = k"
  by (cases j; cases k) simp_all

lemma candidate_json_binds: "canon (coll_key P) (candidate_json c) = canon (coll_key P) (candidate_json d) \<Longrightarrow> same_candidate P c d"
  unfolding candidate_json_def
  by (drule canon_obj_eq) (auto simp: same_candidate_def dest: legacy_kind_inj)

lemma plan_body_safe: "list_all storable_payload cs \<Longrightarrow> array_safe (plan_body cs ws es)" "plan_body cs ws es \<noteq> JUndef"
  by (auto simp: plan_body_def kind_counts_def candidate_json_def jstrs_def list_all_iff storable_payload_def)

text \<open>The text whose digest is the hash of a plan.\<close>

definition plan_text :: "platform \<Rightarrow> import_plan \<Rightarrow> string" where
  "plan_text P p = stable_stringify (coll_key P) (plan_body (ip_candidates p) (ip_warnings p) (ip_errors p))"

lemma plan_hash_text: "ip_hash (planLegacyImport P H fs) = sha256 P (plan_text P (planLegacyImport P H fs))"
  by (simp add: planLegacyImport_def Let_def plan_text_def)

lemma plan_hash_binds:
  assumes "ip_hash (planLegacyImport P H fs) = ip_hash (planLegacyImport P H fs')"
  shows "sha_collision P (plan_text P (planLegacyImport P H fs)) (plan_text P (planLegacyImport P H fs')) \<or>
    list_all2 (same_candidate P) (ip_candidates (planLegacyImport P H fs)) (ip_candidates (planLegacyImport P H fs'))"
proof -
  let ?p = "planLegacyImport P H fs" and ?q = "planLegacyImport P H fs'"
  let ?b = "\<lambda>p. plan_body (ip_candidates p) (ip_warnings p) (ip_errors p)"
  have "hash_json P (?b ?p) = hash_json P (?b ?q)" using assms unfolding plan_hash_text plan_text_def .
  from hash_json_eq [OF this plan_body_safe(1) [OF planned_storable] plan_body_safe(2) plan_body_safe(1) [OF planned_storable] plan_body_safe(2)]
  consider "canon (coll_key P) (?b ?p) = canon (coll_key P) (?b ?q)" | "sha_collision P (plan_text P ?p) (plan_text P ?q)"
    unfolding plan_text_def by blast
  then show ?thesis
  proof cases
    case 1
    then have "canon (coll_key P) (JArr (map candidate_json (ip_candidates ?p))) = canon (coll_key P) (JArr (map candidate_json (ip_candidates ?q)))"
      unfolding plan_body_def by (drule_tac canon_obj_eq) simp_all
    then have "list_all2 (same_candidate P) (ip_candidates ?p) (ip_candidates ?q)"
      unfolding canon_arr_eq list_all2_map1 list_all2_map2 by (rule list_all2_mono) (rule candidate_json_binds)
    then show ?thesis by blast
  qed blast
qed

lemma imported_same: "same_candidate P c d \<Longrightarrow> imported_at P C d st \<Longrightarrow> imported_at P C c st"
proof -
  assume s: "same_candidate P c d" and i: "imported_at P C d st"
  have f: "ic_kind c = ic_kind d" "ic_digest c = ic_digest d" "ic_locator c = ic_locator d" "ic_event c = ic_event d"
    "ic_aggregate_type c = ic_aggregate_type d" "ic_aggregate c = ic_aggregate d" "ic_type c = ic_type d"
    using s by (cases c; cases d; simp add: same_candidate_def)+
  have p: "canon (coll_key P) (ic_payload c) = canon (coll_key P) (ic_payload d)" using s by (simp add: same_candidate_def)
  then have "ic_payload c = JUndef \<longleftrightarrow> ic_payload d = JUndef" using canon_JUndef_iff by metis
  then have "canon (coll_key P) (import_payload c) = canon (coll_key P) (import_payload d)"
    using p f by (auto simp: import_payload_def live_entries_def)
  then have "assertAuthenticatedImportEvent P C st c = assertAuthenticatedImportEvent P C st d"
    by (simp only: assertAuthenticatedImportEvent_def f stable_stringify_canon)
  then show ?thesis using i by (simp add: imported_at_def imported_receipt_def f)
qed

section \<open>Sample files\<close>

definition sample_host :: legacy_host where
  "sample_host = \<lparr>lh_encode = id, lh_decode = id, lh_message = (\<lambda>_. ''not JSON'')\<rparr>"

definition sample_files :: legacy_files where
  "sample_files = \<lparr>lf_state = None, lf_config = Some (stable_stringify (coll_key sample_signing) (config_json sample_config)), lf_ledger = None\<rparr>"

lemma sample_planned:
  "ip_valid (planLegacyImport sample_signing sample_host sample_files)"
  "ip_candidates (planLegacyImport sample_signing sample_host sample_files) =
     [config_candidate sample_signing (canon (coll_key sample_signing) (config_json sample_config))]"
proof -
  have "wf_config sample_config" by (simp add: wf_config_def sample_config_def defaultAutoApplyConfig_def)
  then have "JSON_parse sample_host (stable_stringify (coll_key sample_signing) (config_json sample_config)) =
      Inr (canon (coll_key sample_signing) (config_json sample_config))"
    using config_json_wf config_json_safe json_parse_stringify by (simp add: JSON_parse_def)
  then have "collectConfigCandidate sample_signing sample_host (lf_config sample_files) c =
      add_candidate (config_candidate sample_signing (canon (coll_key sample_signing) (config_json sample_config))) c" for c
    by (simp add: collectConfigCandidate_def sample_files_def assertSchema_def sample_signing_schema)
  then show "ip_valid (planLegacyImport sample_signing sample_host sample_files)"
    "ip_candidates (planLegacyImport sample_signing sample_host sample_files) =
     [config_candidate sample_signing (canon (coll_key sample_signing) (config_json sample_config))]"
    by (simp_all add: planLegacyImport_def Let_def collectStateCandidates_def collectLedgerCandidates_def add_candidate_def, simp_all add: sample_files_def)
qed

section \<open>Properties\<close>

text \<open>C38: What was reviewed is what is imported. When a plan is applied under the hash of a reviewed plan, read from the files at another time, it has
  the reviewed candidates, and every reviewed candidate has its event and its receipt in the store, unless the texts of these two plans have the same
  SHA-256 digest without being the same.\<close>

theorem reviewed_plan_imported:
  assumes "aead_ok C" and "hex_digest P" and "readAll P C st = Inr es"
    and "applyLegacyImport P C (planLegacyImport P H fs) (ip_hash (planLegacyImport P H reviewed)) now rnd st = (st', Inr r)"
  shows "sha_collision P (plan_text P (planLegacyImport P H reviewed)) (plan_text P (planLegacyImport P H fs)) \<or>
    list_all2 (same_candidate P) (ip_candidates (planLegacyImport P H reviewed)) (ip_candidates (planLegacyImport P H fs)) \<and>
    list_all (\<lambda>c. imported_at P C c st') (ip_candidates (planLegacyImport P H reviewed))"
proof -
  let ?p = "planLegacyImport P H fs" and ?q = "planLegacyImport P H reviewed"
  obtain bs where b: "importCandidates P C now rnd (ip_candidates ?p) st = (st', Inr bs)" "ip_hash ?q = ip_hash ?p"
    using assms(4) by (auto simp: applyLegacyImport_def bindS_Inr_iff split: if_splits)
  have i: "list_all (\<lambda>c. imported_at P C c st') (ip_candidates ?p)" using import_all [OF assms(1-3) planned_storable b(1)] by blast
  have "list_all (\<lambda>c. imported_at P C c st') (ip_candidates ?q)" if "list_all2 (same_candidate P) (ip_candidates ?q) (ip_candidates ?p)"
    using that i imported_same unfolding list_all2_conv_all_nth list_all_length by metis
  then show ?thesis using plan_hash_binds [OF b(2)] by blast
qed

theorem reviewed_plan_imported_witness:
  "\<exists>st st' r. applyLegacyImport sample_signing sample_crypto (planLegacyImport sample_signing sample_host sample_files)
       (ip_hash (planLegacyImport sample_signing sample_host sample_files)) 0 (\<lambda>_. ([], [])) st = (st', Inr r) \<and> ir_imported r = 1 \<and>
     imported_at sample_signing sample_crypto (config_candidate sample_signing (canon (coll_key sample_signing) (config_json sample_config))) st'"
proof -
  let ?c = "config_candidate sample_signing (canon (coll_key sample_signing) (config_json sample_config))"
  obtain st0 st1 where s: "readAll sample_signing sample_crypto st0 = Inr []"
    "importCandidate sample_signing sample_crypto 0 [] [] ?c st0 = (st1, Inr True)" using sample_candidate_imports by blast
  let ?p = "planLegacyImport sample_signing sample_host sample_files"
  obtain r where r: "applyLegacyImport sample_signing sample_crypto ?p (ip_hash ?p) 0 (\<lambda>_. ([], [])) st0 = (st1, Inr r)" "ir_imported r = 1"
    using s(2) by (simp add: applyLegacyImport_def sample_planned bindS_def liftS_def)
  have "imported_at sample_signing sample_crypto ?c st1"
    using reviewed_plan_imported [OF sample_aead sample_signing_digest s(1) r(1)] by (auto simp: sample_planned(2) sha_collision_def)
  then show ?thesis using r by blast
qed

end
