(* ===== verification/Spec2Isabelle.thy ===== *)
theory Spec2Isabelle
  imports AutoApply Lifecycle AgentController AnswerMemory Checkpoint Broker Ipc GrantProps DecisionProps CredentialProps TrackerProps AuthorityPages RuntimeProps ImportPlan
begin

text \<open>
  A verification development for vocation-os, a local assistant for job applications written in TypeScript
  (src/src). The program's safety rests on a few components: evidence checks and signed approvals before anything
  is submitted, an application life cycle that only a trusted proof can complete, an encrypted and hash-chained
  event history with signed checkpoints, and a broker through which all network access passes. These are the
  components modelled here. Everything is translated from the source as executable definitions; what is not under
  src/ is a parameter: SHA-256, Ed25519, AES-GCM and scrypt, the collation of \<open>localeCompare\<close>, JSON schema
  validation, the host's non-ISO part of \<open>Date.parse\<close>, the file system, \<open>isIP\<close>, the URL parser.

  \<^bold>\<open>Foundations.\<close> \<open>Prelude\<close>: the result type of code that throws and JavaScript's string and array operations.
  \<open>JsDate\<close>: \<open>Date.parse\<close> and \<open>toISOString\<close> on ISO dates, comparisons with NaN. \<open>Json\<close>: JSON values, \<open>JSON.stringify\<close> and
  the canonical \<open>stableStringify\<close> (hash.ts), whose injectivity is what every digest argument rests on;
  \<open>JsonParse\<close>: \<open>JSON.parse\<close> and its round trip. \<open>Types\<close>: the records of types.ts with their JSON. \<open>Hash\<close>: the text
  normalisation and hashes of hash.ts. A digest argument ends in "equal, or here is a SHA-256 collision"
  (\<open>sha_collision\<close>); no hash is assumed injective, and where digests are assumed to be 64 hexadecimal digits
  (\<open>hex_digest\<close>) the collision is one of two texts that are named (\<open>request_text\<close>, \<open>row_text\<close>, \<open>plan_text\<close>).

  \<^bold>\<open>Decisions.\<close> \<open>Approval\<close> (approval.ts): creation and validation of signed approvals. \<open>ClaimGraph\<close> (claim-graph.ts): claims,
  recency, and documents confined to a root directory. \<open>AutoApply\<close> (auto-apply.ts, action-ledger.ts): the decision
  as one chain of guards, the ledger it writes, the kill switch as commands on a configuration.
  \<open>SubmissionProof\<close> (submission-proof.ts): creation and evaluation of collector proofs. \<open>Lifecycle\<close>
  (application-lifecycle.ts): the states of an attempt and its operations, over the two theories before.
  \<open>AgentController\<close> (agent-controller.ts): the ten phases of a supervised agent run. \<open>AnswerMemory\<close>
  (answer-memory.ts): validation and resolution of stored answers.

  \<^bold>\<open>Storage.\<close> \<open>EventStore\<close> (storage/encrypted-event-store.ts): the tables as a record, append, reads, snapshots,
  receipts, creation and reopening; \<open>store_inv\<close> is the invariant of the reachable stores. \<open>Credentials\<close>
  (security/credential-store.ts): the credential store in memory and the encrypted vault, both interpretations of the
  locale \<open>credential_store\<close>, and the secrets of a runtime. \<open>Checkpoint\<close> (security/audit-checkpoint.ts): signed
  checkpoints over a store and a credential store; the locale \<open>reliable_store\<close> extends \<open>credential_store\<close> by writes
  that succeed, and creation is proved once for both stores.

  \<^bold>\<open>Network.\<close> \<open>IpPolicy\<close> (discovery/ip-policy.ts): which addresses are public, on 32 and 128 bit words. \<open>Governance\<close>
  (discovery/governance.ts): egress manifests, access grants, authorisation of URLs. \<open>NetworkGrant\<close>
  (discovery/network-access-grant.ts): signed grants and their verifier. \<open>RateGate\<close> and \<open>Broker\<close>
  (discovery/governed-fetch-broker.ts): the gate in memory, an interpretation of the locale \<open>request_budget\<close>, and the fetch
  itself with its redirect loop, checks and cache, over all of the theories before.

  \<^bold>\<open>Persistent gate.\<close> storage/network-access-grant-repository.ts, over the event store. \<open>JsonClone\<close>: bounded canonical copies of
  JSON. \<open>GrantStore\<close>: the repository of signed grants and the gate, each operation a function on the store. \<open>GrantEvents\<close>:
  what is recorded is read back as it was. \<open>GrantLedger\<close>: the abstract ledger of grants and consumptions (\<open>ledger_at\<close> is the
  abstraction function, \<open>ledger_consume\<close> the specification of one request). \<open>GrantGate\<close>: the simulation, every step of the store
  is a step of its ledger. \<open>GrantTotal\<close>: which grants and requests are accepted. \<open>GrantProps\<close>: the invariant of the ledger
  and the properties over any sequence of operations.

  \<^bold>\<open>Versioned records.\<close> \<open>VersionedLog\<close>: the history of an aggregate as records read from its events, and the locale
  \<open>numbered_log\<close> of readers that number their records. \<open>DecisionStore\<close> (storage/decision-intelligence-repositories.ts): commands
  with an expected version, a request identifier, one event and one receipt; \<open>DecisionEvents\<close>, \<open>DecisionRuns\<close>: what verifies
  and what a command does to its history, an interpretation of \<open>numbered_log\<close>; \<open>DecisionProps\<close>: exactly-once commands, also across
  a crash. \<open>CredentialMapping\<close> (credentials/mapping.ts): claims drafted from a credential, approved and attached to its
  passport; \<open>CredentialRecords\<close>, \<open>CredentialProps\<close>: the plans as stored records and what a passport can contain.
  \<open>ProductStore\<close>, \<open>ProductRuns\<close> (storage/product-repositories.ts): put and archive of the product domains, the second
  interpretation of \<open>numbered_log\<close>. \<open>ApplicationTracker\<close> (storage/application-tracker.ts): the life cycle over the applications
  domain; \<open>TrackerProps\<close>: stored histories are paths of the life cycle.

  \<^bold>\<open>Daemon.\<close> \<open>Ipc\<close> (ipc/protocol.ts, daemon/server.ts): frames over a byte stream as operations of the channel, and the session
  of one connection from its handshake to the requests it passes to the authority. \<open>AuthorityPages\<close>
  (daemon/authority.ts): the paged lists and the walk of a client over them.

  \<^bold>\<open>Authority.\<close> \<open>RuntimeRepository\<close> (storage/runtime-repository.ts): the configuration in force, the ledger and the registries of
  approvers and collectors as functions of the stored events. \<open>RuntimeAuthority\<close> (daemon/authority.ts): replay and recording of
  requests, the operations on configuration, kill switch and registries, and the tracker operations. \<open>RuntimeEvents\<close>: what an
  operation records is read back. \<open>LegacyImport\<close> (storage/legacy-import.ts, state.ts): the files of an older runtime collected
  into a plan and applied under its hash; \<open>ImportEvents\<close>: the authority's request for it, and the events it adds, also when it
  fails on the way. \<open>RuntimeRuns\<close>: runs of requests in any order, imports included, with the events of other parts in between
  (\<open>runtime_step\<close>; these events are of other aggregates and types, since only the configuration operations and the import
  write \<open>runtime-config\<close> and only the registries' operations their events). \<open>RuntimeProps\<close>: what holds over any run. That a schema
  does not see the order of members is the hypothesis \<open>order_free\<close>. \<open>ImportProps\<close>: an import happens once, and an imported
  configuration is in force; \<open>ImportPlan\<close>: the hash of a plan names its candidates.

  \<^bold>\<open>What the lemmas show.\<close> Decisions: an exact list of conditions for every accepted packet, approval, proof, grant and
  URL, so that each guard of the code is needed, and what a signature or digest binds. Histories: what no
  sequence of operations can do (leave the kill switch, confirm without proof, skip a phase, go back behind a
  checkpoint, alter events unnoticed, exceed a budget). Round trips: what is created validates, what is written is
  read back. The broker's properties hold for every behaviour of its dependencies; its trace records what the
  verifier and the gate answered before the broker acts on it, and its proof uses the rules \<open>runs_intro\<close> for
  triples of a trace predicate, an action and its outcomes. Where a property states conditions of acceptance
  (\<open>collector_vouches\<close>, \<open>message_sent\<close>, \<open>offered\<close>, \<open>rounds\<close>), they are written down apart from the code's own checks.

  \<^bold>\<open>Conventions.\<close> Numbers are integers, a failed \<open>Date.parse\<close> is \<open>None\<close> and \<open>nlt\<close>, \<open>nle\<close> compare as NaN does. Strings are lists of
  8-bit code units, so the zero-width characters that mapping.ts forbids in a claim (all above 255) have no counterpart.
  A file that exists can be read during one call. Random values, clocks and the outcome of writes are arguments. Loops are structural: a
  redirect loop recurses on the redirects left, so no fuel is needed. Asynchronous code is modelled as the
  sequence of its awaited steps; a timeout is a parameter read where the code can observe it.

  \<^bold>\<open>Not modelled.\<close> Scoring, ranking and advice (evaluator, theory engine, rubric, portfolio, opportunity graph, outcome learning)
  compute on floating-point numbers, for which the library has no faithful counterpart. Discovery providers, document import and
  rendering, taxonomies and the assurance catalog are parsers of external formats and tables of data. Credential verification
  is done by JOSE and Data Integrity packages. Encrypted backups and the artifact vault are file system protocols around the
  AES-GCM envelope already modelled in the store. The remaining operations of the authority pass a payload to one of these
  parts, and its onboarding session and artifact manifests belong to them. The file journal is not
  modelled; the import's journal and rollback backup are a parameter of its request. Restoring a backup, which the command
  line does on a stopped daemon, replaces the store and is outside the runs. User interfaces, SDK wrappers, installers and scripts are left out; in the modelled files, the SQL text and backups
  of migrations, the operating system keyring, the node:https transport and the work a timed-out operation continues in the
  background.
\<close>

end
